(* ===== verification/Prelude.thy ===== *)
theory Prelude
  imports Main "HOL-Library.Word" "HOL-Library.Char_ord" "HOL-Library.List_Lexorder"
begin

text \<open>
  Shared vocabulary of the development: machine integers, Rust's \<^verbatim>\<open>Result\<close>, and the part of
  Rust's \<^verbatim>\<open>str\<close> interface the sources use.

  A Rust \<^verbatim>\<open>String\<close> is a sequence of UTF-8 bytes, so a string is a list of 8-bit characters
  and offsets are byte offsets. Where the code iterates over \<^verbatim>\<open>chars()\<close>, the model groups
  the bytes into scalars (a leading byte with its continuation bytes), which for valid UTF-8 is
  exactly Rust's iteration.
\<close>

named_theorems str_simps \<open>facts on the string operations\<close>
named_theorems json_simps \<open>facts on JSON accessors and updates\<close>
named_theorems scan_bounds \<open>progress and range facts of the scanners\<close>

type_synonym u64 = "64 word"
type_synonym f64 = "64 word"  \<comment> \<open>an IEEE 754 binary64 bit pattern\<close>
type_synonym ('a, 'e) result = "'e + 'a"

abbreviation Ok :: "'a \<Rightarrow> ('a, 'e) result" where "Ok \<equiv> Inr"
abbreviation Err :: "'e \<Rightarrow> ('a, 'e) result" where "Err \<equiv> Inl"

definition is_ok :: "('a, 'e) result \<Rightarrow> bool" where
  "is_ok r = (case r of Inl _ \<Rightarrow> False | Inr _ \<Rightarrow> True)"

lemma is_ok_simps [simp]: "\<not> is_ok (Inl e)" "is_ok (Inr v)"
  by (simp_all add: is_ok_def)

definition some_or :: "'a option \<Rightarrow> 'a \<Rightarrow> 'a" where
  "some_or x d = (case x of None \<Rightarrow> d | Some v \<Rightarrow> v)"

lemma some_or_simps [simp]: "some_or None d = d" "some_or (Some v) d = v"
  by (simp_all add: some_or_def)

definition is_none_or :: "('a \<Rightarrow> bool) \<Rightarrow> 'a option \<Rightarrow> bool" where
  "is_none_or p x = (case x of None \<Rightarrow> True | Some v \<Rightarrow> p v)"

definition is_some_and :: "('a \<Rightarrow> bool) \<Rightarrow> 'a option \<Rightarrow> bool" where
  "is_some_and p x = (case x of None \<Rightarrow> False | Some v \<Rightarrow> p v)"

lemma is_some_and_simps [simp]: "\<not> is_some_and p None" "is_some_and p (Some v) = p v"
  by (simp_all add: is_some_and_def)

lemma is_none_or_simps [simp]: "is_none_or p None" "is_none_or p (Some v) = p v"
  by (simp_all add: is_none_or_def)

lemma unat_u64_max [simp]: "unat (- 1 :: u64) = 18446744073709551615"
  by (simp add: unsigned_minus_1_eq_mask mask_eq_exp_minus_1)

lemma unat_u64_Suc: "Suc (unat (x :: u64)) < 2 ^ 64 \<Longrightarrow> unat (x + 1) = Suc (unat x)"
proof -
  assume "Suc (unat x) < 2 ^ 64"
  then have "x \<noteq> - 1" by auto
  then have "1 + x \<noteq> 0" by (simp add: eq_neg_iff_add_eq_0 add.commute)
  from unatSuc [OF this] show ?thesis by (simp add: add.commute)
qed

lemma nth_list_update_if: "j < length xs \<Longrightarrow> xs[i := x] ! j = (if i = j then x else xs ! j)"
  by (auto simp: nth_list_update)

text \<open>\<^verbatim>\<open>Iterator::position\<close>.\<close>

fun find_index :: "('a \<Rightarrow> bool) \<Rightarrow> 'a list \<Rightarrow> nat option" where
  "find_index P [] = None"
| "find_index P (x # xs) = (if P x then Some 0 else map_option Suc (find_index P xs))"

lemma find_index_Some:
  "find_index P xs = Some i \<longleftrightarrow> i < length xs \<and> P (xs ! i) \<and> (\<forall>j < i. \<not> P (xs ! j))"
proof (induction xs arbitrary: i)
  case (Cons x xs)
  show ?case by (cases i) (auto simp: Cons.IH nth_Cons less_Suc_eq_0_disj split: nat.splits)
qed simp

lemma find_index_None: "find_index P xs = None \<longleftrightarrow> (\<forall>x \<in> set xs. \<not> P x)"
  by (induction xs) auto

section \<open>Byte strings\<close>

abbreviation QUOTE :: char where "QUOTE \<equiv> CHR 0x22"
abbreviation BACKSLASH :: char where "BACKSLASH \<equiv> CHR 0x5C"
abbreviation NEWLINE :: char where "NEWLINE \<equiv> CHR 0x0A"

definition starts_with :: "string \<Rightarrow> string \<Rightarrow> bool" where
  "starts_with s p = (take (length p) s = p)"

definition ends_with :: "string \<Rightarrow> string \<Rightarrow> bool" where
  "ends_with s p = (length p \<le> length s \<and> drop (length s - length p) s = p)"

definition strip_prefix :: "string \<Rightarrow> string \<Rightarrow> string option" where
  "strip_prefix s p = (if starts_with s p then Some (drop (length p) s) else None)"

definition strip_suffix :: "string \<Rightarrow> string \<Rightarrow> string option" where
  "strip_suffix s p = (if ends_with s p then Some (take (length s - length p) s) else None)"

fun str_find :: "string \<Rightarrow> string \<Rightarrow> nat option" where
  "str_find [] p = (if p = [] then Some 0 else None)"
| "str_find (c # cs) p =
     (if starts_with (c # cs) p then Some 0 else map_option Suc (str_find cs p))"

definition str_contains :: "string \<Rightarrow> string \<Rightarrow> bool" where
  "str_contains s p = (str_find s p \<noteq> None)"

definition trim_end_matches :: "char \<Rightarrow> string \<Rightarrow> string" where
  "trim_end_matches c s = rev (dropWhile (\<lambda>x. x = c) (rev s))"

text \<open>\<^verbatim>\<open>str::split_once\<close> on a one-byte separator.\<close>

fun split_once :: "char \<Rightarrow> string \<Rightarrow> (string \<times> string) option" where
  "split_once c [] = None"
| "split_once c (x # xs) =
     (if x = c then Some ([], xs)
      else map_option (\<lambda>(a, b). (x # a, b)) (split_once c xs))"

fun join :: "string \<Rightarrow> string list \<Rightarrow> string" where
  "join sep [] = []"
| "join sep [x] = x"
| "join sep (x # y # ys) = x @ sep @ join sep (y # ys)"

text \<open>\<^verbatim>\<open>split(c)\<close>: the pieces between the separators, one more than there are separators.\<close>

fun split_on :: "char \<Rightarrow> string \<Rightarrow> string list" where
  "split_on c [] = [[]]"
| "split_on c (x # xs) =
     (case split_on c xs of
        [] \<Rightarrow> [[x]]
      | p # ps \<Rightarrow> if x = c then [] # p # ps else (x # p) # ps)"

definition ascii_lower :: "char \<Rightarrow> char" where
  "ascii_lower c =
     (if 65 \<le> (of_char c :: nat) \<and> (of_char c :: nat) \<le> 90 then char_of (of_char c + 32 :: nat) else c)"

definition to_ascii_lowercase :: "string \<Rightarrow> string" where
  "to_ascii_lowercase s = map ascii_lower s"

fun digits :: "nat \<Rightarrow> string" where
  "digits n = (if n < 10 then [char_of (48 + n)] else digits (n div 10) @ [char_of (48 + n mod 10)])"

declare digits.simps [simp del]

section \<open>Scalars\<close>

definition is_cont :: "char \<Rightarrow> bool" where
  "is_cont c = (128 \<le> (of_char c :: nat) \<and> (of_char c :: nat) < 192)"

lemma length_dropWhile_le_Suc [termination_simp]: "length (dropWhile P xs) < Suc (length xs)"
  by (simp add: le_imp_less_Suc length_dropWhile_le)

fun chars :: "string \<Rightarrow> string list" where
  "chars [] = []"
| "chars (b # bs) = (b # takeWhile is_cont bs) # chars (dropWhile is_cont bs)"

definition char_count :: "string \<Rightarrow> nat" where
  "char_count s = length (chars s)"

text \<open>
  \<^verbatim>\<open>char::is_whitespace\<close> on one scalar, given as its UTF-8 bytes: the ASCII members, U+0085,
  U+00A0, U+1680, U+2000 to U+200A, U+2028, U+2029, U+202F, U+205F and U+3000.
\<close>

definition is_whitespace :: "string \<Rightarrow> bool" where
  "is_whitespace c = (case map (of_char :: char \<Rightarrow> nat) c of
       [a] \<Rightarrow> (9 \<le> a \<and> a \<le> 13) \<or> a = 32
     | [a, b] \<Rightarrow> a = 194 \<and> (b = 133 \<or> b = 160)
     | [a, b, d] \<Rightarrow> (a = 225 \<and> b = 154 \<and> d = 128)
         \<or> (a = 226 \<and> b = 128 \<and> ((128 \<le> d \<and> d \<le> 138) \<or> d = 168 \<or> d = 169 \<or> d = 175))
         \<or> (a = 226 \<and> b = 129 \<and> d = 159)
         \<or> (a = 227 \<and> b = 128 \<and> d = 128)
     | _ \<Rightarrow> False)"

definition trim :: "string \<Rightarrow> string" where
  "trim s = concat (rev (dropWhile is_whitespace (rev (dropWhile is_whitespace (chars s)))))"

definition trim_end :: "string \<Rightarrow> string" where
  "trim_end s = concat (rev (dropWhile is_whitespace (rev (chars s))))"

definition is_char_boundary :: "string \<Rightarrow> nat \<Rightarrow> bool" where
  "is_char_boundary s i = (i = 0 \<or> i = length s \<or> (i < length s \<and> \<not> is_cont (s ! i)))"

lemma concat_chars [simp, str_simps]: "concat (chars s) = s"
  by (induction s rule: chars.induct) auto

lemma chars_nonempty: "c \<in> set (chars s) \<Longrightarrow> c \<noteq> []"
  by (induction s rule: chars.induct) auto

lemma chars_eq_Nil_iff [simp]: "chars s = [] \<longleftrightarrow> s = []"
  by (cases s) auto

lemma takeWhile_append_stop: "y = [] \<or> \<not> P (hd y) \<Longrightarrow> takeWhile P (x @ y) = takeWhile P x"
  by (induction x) (cases y; auto)+

lemma dropWhile_append_stop: "y = [] \<or> \<not> P (hd y) \<Longrightarrow> dropWhile P (x @ y) = dropWhile P x @ y"
  by (induction x) (cases y; auto)+

lemma chars_append: "y = [] \<or> \<not> is_cont (hd y) \<Longrightarrow> chars (x @ y) = chars x @ chars y"
  by (induction x rule: chars.induct) (auto simp: takeWhile_append_stop dropWhile_append_stop)

lemma char_count_le_length: "char_count s \<le> length s"
  unfolding char_count_def
proof (induction s rule: chars.induct)
  case (2 b bs)
  have "length (dropWhile is_cont bs) \<le> length bs" by (rule length_dropWhile_le)
  with 2 show ?case by simp
qed simp

section \<open>Laws of the string operations\<close>

lemma strip_prefix_Some_iff: "strip_prefix s p = Some r \<longleftrightarrow> s = p @ r"
proof
  assume "strip_prefix s p = Some r"
  then have "take (length p) s = p" "r = drop (length p) s"
    by (auto simp: strip_prefix_def starts_with_def split: if_splits)
  then show "s = p @ r" by (metis append_take_drop_id)
qed (simp add: strip_prefix_def starts_with_def)

lemma strip_suffix_Some_iff: "strip_suffix s p = Some r \<longleftrightarrow> s = r @ p"
proof
  assume "strip_suffix s p = Some r"
  then have "drop (length s - length p) s = p" "r = take (length s - length p) s"
    by (auto simp: strip_suffix_def ends_with_def split: if_splits)
  then show "s = r @ p" by (metis append_take_drop_id)
qed (simp add: strip_suffix_def ends_with_def)

lemma ends_with_iff: "ends_with s p \<longleftrightarrow> (\<exists>r. s = r @ p)"
proof
  assume "ends_with s p"
  then have "drop (length s - length p) s = p" by (simp add: ends_with_def)
  then show "\<exists>r. s = r @ p" by (metis append_take_drop_id)
qed (auto simp: ends_with_def)

lemma split_on_nonempty: "split_on c s \<noteq> []"
  by (induction s) (auto split: list.splits)

lemma starts_with_append [simp]: "starts_with (p @ s) p"
  by (simp add: starts_with_def)

lemma starts_with_iff: "starts_with s p \<longleftrightarrow> (\<exists>r. s = p @ r)"
  by (metis append_take_drop_id starts_with_append starts_with_def)

lemma str_find_Some:
  "str_find s p = Some i \<Longrightarrow> \<exists>r. s = take i s @ p @ r \<and> i \<le> length s"
proof (induction s arbitrary: i)
  case Nil
  then show ?case by (auto split: if_splits)
next
  case (Cons c cs)
  show ?case
  proof (cases "starts_with (c # cs) p")
    case True
    with Cons.prems show ?thesis by (auto simp: starts_with_iff)
  next
    case False
    with Cons.prems obtain j where "str_find cs p = Some j" "i = Suc j" by auto
    with Cons.IH [of j] show ?thesis by auto
  qed
qed

lemma str_find_here: "starts_with s p \<Longrightarrow> str_find s p = Some 0"
  by (cases s) (auto simp: starts_with_def)

lemma str_find_append: "\<exists>i. str_find (a @ p @ b) p = Some i"
  by (induction a) (auto simp: str_find_here)

lemma str_contains_iff: "str_contains s p \<longleftrightarrow> (\<exists>a b. s = a @ p @ b)"
proof
  assume "str_contains s p"
  then obtain i where "str_find s p = Some i" by (auto simp: str_contains_def)
  from str_find_Some [OF this] show "\<exists>a b. s = a @ p @ b" by metis
next
  assume "\<exists>a b. s = a @ p @ b"
  then obtain a b where "s = a @ p @ b" by blast
  with str_find_append [of a p b] show "str_contains s p" by (auto simp: str_contains_def)
qed

lemma str_contains_infix [intro]: "str_contains (a @ p @ b) p"
  by (auto simp: str_contains_iff)

lemma str_contains_mono: "str_contains s p \<Longrightarrow> str_contains (a @ s @ b) p"
proof -
  assume "str_contains s p"
  then obtain u v where "s = u @ p @ v" by (auto simp: str_contains_iff)
  then have "a @ s @ b = (a @ u) @ p @ (v @ b)" by simp
  then show ?thesis unfolding str_contains_iff by blast
qed

lemma join_Cons: "xs \<noteq> [] \<Longrightarrow> join sep (x # xs) = x @ sep @ join sep xs"
  by (cases xs) auto

lemma join_snoc: "xs \<noteq> [] \<Longrightarrow> join sep (xs @ [x]) = join sep xs @ sep @ x"
  by (induction xs rule: list_nonempty_induct) (auto simp: join_Cons)

text \<open>Every joined piece occurs in the joined string.\<close>

lemma join_contains: "x \<in> set xs \<Longrightarrow> str_contains (join sep xs) x"
proof (induction sep xs rule: join.induct)
  case (2 sep y)
  then show ?case using str_contains_infix [of "[]" x "[]"] by simp
next
  case (3 sep y z zs)
  show ?case
  proof (cases "x = y")
    case True
    then show ?thesis using str_contains_infix [of "[]" y "sep @ join sep (z # zs)"] by simp
  next
    case False
    with 3 have "str_contains (join sep (z # zs)) x" by simp
    from str_contains_mono [OF this, of "y @ sep" "[]"] show ?thesis by simp
  qed
qed simp

lemma join_eq_Nil: "join sep xs = [] \<Longrightarrow> \<forall>x \<in> set xs. x = []"
  by (induction sep xs rule: join.induct) auto

lemma split_once_Some: "split_once c s = Some (a, b) \<Longrightarrow> s = a @ c # b \<and> c \<notin> set a"
  by (induction s arbitrary: a b) (auto split: if_splits)

lemma trim_end_matches_snoc:
  "trim_end_matches c (s @ [x]) = (if x = c then trim_end_matches c s else s @ [x])"
  by (simp add: trim_end_matches_def)

lemma trim_end_matches_prefix: "\<exists>n. s = trim_end_matches c s @ replicate n c"
proof (induction s rule: rev_induct)
  case Nil
  then show ?case by (simp add: trim_end_matches_def)
next
  case (snoc x s)
  then obtain n where n: "s = trim_end_matches c s @ replicate n c" by blast
  show ?case
  proof (cases "x = c")
    case True
    have "s @ [c] = trim_end_matches c s @ replicate (Suc n) c"
      using n by (metis append.assoc replicate_append_same replicate_Suc)
    moreover from True have "trim_end_matches c (s @ [x]) = trim_end_matches c s"
      by (simp add: trim_end_matches_snoc)
    ultimately show ?thesis using True by metis
  next
    case False
    then have "s @ [x] = trim_end_matches c (s @ [x]) @ replicate 0 c"
      by (simp add: trim_end_matches_snoc)
    then show ?thesis by blast
  qed
qed

lemma trim_end_matches_last:
  "trim_end_matches c s = [] \<or> last (trim_end_matches c s) \<noteq> c"
  unfolding trim_end_matches_def
  by (metis (full_types) hd_dropWhile last_rev rev_is_Nil_conv)

end
