(* ===== verification/Json_Value.thy ===== *)
theory Json_Value
  imports Prelude "HOL-Library.Multiset"
begin

text \<open>
  The dynamically typed JSON values the proxy works on (\<^verbatim>\<open>serde_json::Value\<close>), with the
  accessors and in-place updates the sources use.

  The crate is built with its \<^verbatim>\<open>preserve_order\<close> feature (\<^verbatim>\<open>llama-proxy/Cargo.toml\<close>), so an
  object is an insertion-ordered map: inserting an existing key keeps its position, a new key
  goes to the end, and removal swaps the last entry into the hole. Numbers keep the three
  representations of the crate; a float is an opaque bit pattern.
\<close>

datatype jnum = PosInt u64 | NegInt u64 | Float f64

datatype json =
    JNull
  | JBool bool
  | JNum jnum
  | JStr string
  | JArr "json list"
  | JObj "(string \<times> json) list"

section \<open>Ordered maps\<close>

fun jmap_insert :: "'k \<Rightarrow> 'v \<Rightarrow> ('k \<times> 'v) list \<Rightarrow> ('k \<times> 'v) list" where
  "jmap_insert k v [] = [(k, v)]"
| "jmap_insert k v ((a, b) # m) = (if a = k then (a, v) # m else (a, b) # jmap_insert k v m)"

fun index_of :: "'k \<Rightarrow> ('k \<times> 'v) list \<Rightarrow> nat option" where
  "index_of k [] = None"
| "index_of k ((a, b) # m) = (if a = k then Some 0 else map_option Suc (index_of k m))"

definition jmap_remove :: "'k \<Rightarrow> ('k \<times> 'v) list \<Rightarrow> ('k \<times> 'v) list" where
  "jmap_remove k m = (case index_of k m of
       None \<Rightarrow> m
     | Some i \<Rightarrow> if Suc i = length m then butlast m else (butlast m)[i := last m])"

definition keys_distinct :: "('k \<times> 'v) list \<Rightarrow> bool" where
  "keys_distinct m = distinct (map fst m)"

text \<open>The contract the sources rely on for an object's entries, whatever the representation.\<close>

locale key_map =
  fixes empty :: 'm
    and insert :: "'k \<Rightarrow> 'v \<Rightarrow> 'm \<Rightarrow> 'm"
    and remove :: "'k \<Rightarrow> 'm \<Rightarrow> 'm"
    and get :: "'m \<Rightarrow> 'k \<Rightarrow> 'v option"
    and invar :: "'m \<Rightarrow> bool"
  assumes get_empty: "get empty = (\<lambda>_. None)"
    and get_insert: "get (insert k v m) = (get m)(k := Some v)"
    and get_remove: "invar m \<Longrightarrow> get (remove k m) = (get m)(k := None)"
    and invar_empty: "invar empty"
    and invar_insert: "invar m \<Longrightarrow> invar (insert k v m)"
    and invar_remove: "invar m \<Longrightarrow> invar (remove k m)"
begin

fun insert_all :: "('k \<times> 'v) list \<Rightarrow> 'm \<Rightarrow> 'm" where
  "insert_all [] m = m"
| "insert_all ((k, v) # es) m = insert_all es (insert k v m)"

lemma get_insert_all: "get (insert_all es m) = get m ++ map_of (rev es)"
  by (induction es m rule: insert_all.induct) (auto simp: get_insert map_add_def fun_eq_iff split: option.splits)

lemma invar_insert_all: "invar m \<Longrightarrow> invar (insert_all es m)"
  by (induction es m rule: insert_all.induct) (auto simp: invar_insert)

lemma get_insert_idem: "get (insert k v (insert k w m)) = get (insert k v m)"
  by (simp add: get_insert)

lemma get_insert_commute: "k \<noteq> j \<Longrightarrow> get (insert k v (insert j w m)) = get (insert j w (insert k v m))"
  by (auto simp: get_insert)

end

lemma map_of_jmap_insert [json_simps]: "map_of (jmap_insert k v m) = (map_of m)(k \<mapsto> v)"
  by (induction k v m rule: jmap_insert.induct) auto

lemma set_keys_jmap_insert: "fst ` set (jmap_insert k v m) = insert k (fst ` set m)"
  by (induction k v m rule: jmap_insert.induct) auto

lemma keys_distinct_insert: "keys_distinct m \<Longrightarrow> keys_distinct (jmap_insert k v m)"
proof (induction k v m rule: jmap_insert.induct)
  case (2 k v a b m)
  have "a \<noteq> k \<Longrightarrow> a \<notin> fst ` set m \<Longrightarrow> a \<notin> fst ` set (jmap_insert k v m)"
    by (simp add: set_keys_jmap_insert)
  with 2 show ?case by (auto simp: keys_distinct_def)
qed (simp add: keys_distinct_def)

lemma jmap_insert_present_keys: "k \<in> fst ` set m \<Longrightarrow> map fst (jmap_insert k v m) = map fst m"
  by (induction k v m rule: jmap_insert.induct) auto

lemma jmap_insert_absent: "k \<notin> fst ` set m \<Longrightarrow> jmap_insert k v m = m @ [(k, v)]"
  by (induction k v m rule: jmap_insert.induct) auto

lemma index_of_Some:
  "index_of k m = Some i \<Longrightarrow> i < length m \<and> fst (m ! i) = k \<and> (\<forall>j < i. fst (m ! j) \<noteq> k)"
proof (induction k m arbitrary: i rule: index_of.induct)
  case (2 k a b m)
  show ?case
  proof (cases "a = k")
    case False
    with 2 obtain j where "i = Suc j" "index_of k m = Some j" by auto
    with 2 False show ?thesis by (auto simp: less_Suc_eq_0_disj)
  qed (use 2 in auto)
qed simp

lemma index_of_None: "index_of k m = None \<longleftrightarrow> k \<notin> fst ` set m"
  by (induction k m rule: index_of.induct) auto

lemma mset_jmap_remove:
  assumes "index_of k m = Some i"
  shows "mset m = mset (m ! i # jmap_remove k m)"
proof -
  from assms have i: "i < length m" by (simp add: index_of_Some)
  then obtain n x where m: "m = n @ [x]"
    by (metis append_butlast_last_id length_0_conv not_less_zero)
  show ?thesis
  proof (cases "Suc i = length m")
    case True
    with assms m show ?thesis by (simp add: jmap_remove_def nth_append)
  next
    case False
    with i m have "i < length n" by simp
    with assms m False show ?thesis
      by (simp add: jmap_remove_def nth_append mset_update)
  qed
qed

lemma keys_distinct_mset: "mset m = mset n \<Longrightarrow> keys_distinct m \<longleftrightarrow> keys_distinct n"
  unfolding keys_distinct_def by (metis mset_eq_imp_distinct_iff mset_map)

lemma map_of_mset: "keys_distinct m \<Longrightarrow> mset m = mset n \<Longrightarrow> map_of m = map_of n"
  using keys_distinct_mset [of m n] unfolding keys_distinct_def
  by (metis map_of_eqI map_of_eq_Some_iff mset_eq_setD option.collapse domIff ext)

lemma keys_distinct_remove: "keys_distinct m \<Longrightarrow> keys_distinct (jmap_remove k m)"
proof (cases "index_of k m")
  case (Some i)
  assume "keys_distinct m"
  with mset_jmap_remove [OF Some] have "keys_distinct (m ! i # jmap_remove k m)"
    using keys_distinct_mset by blast
  then show ?thesis by (simp add: keys_distinct_def)
qed (simp add: jmap_remove_def)

lemma map_of_jmap_remove [json_simps]:
  assumes d: "keys_distinct m"
  shows "map_of (jmap_remove k m) = (map_of m)(k := None)"
proof (cases "index_of k m")
  case None
  then have "map_of m k = None" by (simp add: index_of_None map_of_eq_None_iff)
  with None show ?thesis by (simp add: jmap_remove_def fun_upd_idem)
next
  case (Some i)
  let ?r = "jmap_remove k m"
  obtain v where v: "m ! i = (k, v)" using index_of_Some [OF Some] by (metis prod.collapse)
  from mset_jmap_remove [OF Some] have ms: "mset m = mset ((k, v) # ?r)" by (simp add: v)
  with d keys_distinct_mset have "keys_distinct ((k, v) # ?r)" by blast
  then have "k \<notin> fst ` set ?r" by (simp add: keys_distinct_def)
  moreover have "map_of m = map_of ((k, v) # ?r)" by (rule map_of_mset [OF d ms])
  ultimately show ?thesis by (simp add: map_of_eq_None_iff fun_upd_idem)
qed

interpretation jmap: key_map "[] :: ('k \<times> 'v) list" jmap_insert jmap_remove map_of keys_distinct
  by unfold_locales
    (simp_all add: map_of_jmap_insert map_of_jmap_remove keys_distinct_insert keys_distinct_remove,
      simp add: keys_distinct_def)

section \<open>Accessors\<close>

fun as_object :: "json \<Rightarrow> (string \<times> json) list option" where
  "as_object (JObj m) = Some m"
| "as_object _ = None"

fun as_array :: "json \<Rightarrow> json list option" where
  "as_array (JArr xs) = Some xs"
| "as_array _ = None"

fun as_str :: "json \<Rightarrow> string option" where
  "as_str (JStr s) = Some s"
| "as_str _ = None"

fun as_u64 :: "json \<Rightarrow> u64 option" where
  "as_u64 (JNum (PosInt n)) = Some n"
| "as_u64 _ = None"

text \<open>\<^verbatim>\<open>as_i64\<close> refuses an unsigned value beyond \<^verbatim>\<open>i64::MAX\<close>; the result is the two's
  complement word.\<close>

fun as_i64 :: "json \<Rightarrow> u64 option" where
  "as_i64 (JNum (PosInt n)) = (if n < 2 ^ 63 then Some n else None)"
| "as_i64 (JNum (NegInt n)) = Some n"
| "as_i64 _ = None"

definition is_object :: "json \<Rightarrow> bool" where "is_object v = (as_object v \<noteq> None)"
definition is_array :: "json \<Rightarrow> bool" where "is_array v = (as_array v \<noteq> None)"
definition is_string :: "json \<Rightarrow> bool" where "is_string v = (as_str v \<noteq> None)"
definition is_u64 :: "json \<Rightarrow> bool" where "is_u64 v = (as_u64 v \<noteq> None)"
definition is_null :: "json \<Rightarrow> bool" where "is_null v = (v = JNull)"

fun get :: "json \<Rightarrow> string \<Rightarrow> json option" where
  "get (JObj m) k = map_of m k"
| "get _ k = None"

definition get_array :: "json \<Rightarrow> string \<Rightarrow> json list option" where
  "get_array v k = Option.bind (get v k) as_array"

definition get_str :: "json \<Rightarrow> string \<Rightarrow> string option" where
  "get_str v k = Option.bind (get v k) as_str"

text \<open>Assignment through \<^verbatim>\<open>v[key]\<close>: inserts into an object, turns null into an object, and
  panics (\<open>None\<close>) on every other value.\<close>

fun index_set :: "json \<Rightarrow> string \<Rightarrow> json \<Rightarrow> json option" where
  "index_set (JObj m) k x = Some (JObj (jmap_insert k x m))"
| "index_set JNull k x = Some (JObj [(k, x)])"
| "index_set _ k x = None"

text \<open>Mutation through \<^verbatim>\<open>get_mut(key)\<close>: nothing happens where the key is missing.\<close>

fun update_key :: "string \<Rightarrow> (json \<Rightarrow> json) \<Rightarrow> json \<Rightarrow> json" where
  "update_key k f (JObj m) = (case map_of m k of None \<Rightarrow> JObj m | Some x \<Rightarrow> JObj (jmap_insert k (f x) m))"
| "update_key k f v = v"

fun update_array :: "(json list \<Rightarrow> json list) \<Rightarrow> json \<Rightarrow> json" where
  "update_array f (JArr xs) = JArr (f xs)"
| "update_array f v = v"

text \<open>Well-formed values: every object has distinct keys, which the map type guarantees.\<close>

fun wf_json :: "json \<Rightarrow> bool" where
  "wf_json (JArr xs) = list_all wf_json xs"
| "wf_json (JObj m) = (keys_distinct m \<and> list_all (\<lambda>(k, v). wf_json v) m)"
| "wf_json _ = True"

lemma get_eq_None_iff: "as_object v = None \<Longrightarrow> get v k = None"
  by (cases v) auto

lemma get_Some_object: "get v k = Some x \<Longrightarrow> \<exists>m. v = JObj m \<and> map_of m k = Some x"
  by (cases v) auto

lemma get_array_Some [json_simps]:
  "get_array v k = Some xs \<longleftrightarrow> get v k = Some (JArr xs)"
  by (auto simp: get_array_def bind_eq_Some_conv elim: as_array.elims)

lemma get_str_Some [json_simps]: "get_str v k = Some s \<longleftrightarrow> get v k = Some (JStr s)"
  by (auto simp: get_str_def bind_eq_Some_conv elim: as_str.elims)

lemma get_update_key [json_simps]:
  "get (update_key k f v) j = (if j = k then map_option f (get v k) else get v j)"
  by (cases v) (auto simp: map_of_jmap_insert split: option.splits)

lemma update_key_absent [json_simps]: "get v k = None \<Longrightarrow> update_key k f v = v"
  by (cases v) auto

lemma jmap_insert_id: "map_of m k = Some v \<Longrightarrow> jmap_insert k v m = m"
  by (induction k v m rule: jmap_insert.induct) (auto split: if_splits)

lemma update_key_id [json_simps]: "(\<And>x. get v k = Some x \<Longrightarrow> f x = x) \<Longrightarrow> update_key k f v = v"
  by (cases v) (auto simp: jmap_insert_id split: option.splits)

lemma index_set_get [json_simps]:
  "index_set v k x = Some w \<Longrightarrow> get w j = (if j = k then Some x else get v j)"
  by (cases v) (auto simp: map_of_jmap_insert)

lemma index_set_defined: "(\<exists>w. index_set v k x = Some w) \<longleftrightarrow> is_object v \<or> is_null v"
  by (cases v) (auto simp: is_object_def is_null_def)

lemma wf_json_get: "wf_json v \<Longrightarrow> get v k = Some x \<Longrightarrow> wf_json x"
  by (cases v) (auto simp: list_all_iff dest!: map_of_SomeD)

lemma list_all_jmap_insert:
  "list_all (\<lambda>(k, v). P v) m \<Longrightarrow> P x \<Longrightarrow> list_all (\<lambda>(k, v). P v) (jmap_insert k x m)"
  by (induction k x m rule: jmap_insert.induct) auto

lemma wf_json_update_key:
  "wf_json v \<Longrightarrow> (\<And>x. get v k = Some x \<Longrightarrow> wf_json x \<Longrightarrow> wf_json (f x)) \<Longrightarrow> wf_json (update_key k f v)"
proof (cases v)
  case (JObj m)
  assume wf: "wf_json v" and f: "\<And>x. get v k = Some x \<Longrightarrow> wf_json x \<Longrightarrow> wf_json (f x)"
  show ?thesis
  proof (cases "map_of m k")
    case (Some x)
    with JObj wf have "wf_json x" using wf_json_get [of v k x] by simp
    with f Some JObj have "wf_json (f x)" by simp
    with JObj wf Some show ?thesis
      by (simp add: keys_distinct_insert list_all_jmap_insert)
  qed (use JObj wf in simp)
qed auto

lemma wf_json_index_set: "wf_json v \<Longrightarrow> wf_json x \<Longrightarrow> index_set v k x = Some w \<Longrightarrow> wf_json w"
proof (cases v)
  case JNull
  assume "wf_json x" "index_set v k x = Some w"
  with JNull show ?thesis by (auto simp: keys_distinct_def)
qed (auto simp: keys_distinct_insert list_all_jmap_insert)

lemma wf_json_set_str: "index_set v k (JStr t) = Some w \<Longrightarrow> wf_json v \<Longrightarrow> wf_json w"
  using wf_json_index_set [of v "JStr t"] by simp

end
