(* ===== verification/Json_Scan.thy ===== *)
theory Json_Scan
  imports Json_Value
begin

text \<open>
  The structural key scanner of \<^verbatim>\<open>llama-proxy/src/fixes/json_scan.rs\<close>: byte offsets into the raw
  arguments text, depth-1 keys only.

  Two things belong to \<^verbatim>\<open>serde_json\<close> and are parameters: \<open>decode\<close>, the parse of a quoted token
  into a string, and \<open>map_stream\<close>, the events a streaming walk over the root object yields.
\<close>

section \<open>The scanner\<close>

definition byte_at :: "string \<Rightarrow> nat \<Rightarrow> char option" where
  "byte_at b i = (if i < length b then Some (b ! i) else None)"

definition slice :: "string \<Rightarrow> nat \<Rightarrow> nat \<Rightarrow> string" where
  "slice s i j = take (j - i) (drop i s)"

definition is_ws_byte :: "char \<Rightarrow> bool" where
  "is_ws_byte c = (c = CHR 0x20 \<or> c = CHR 0x09 \<or> c = CHR 0x0A \<or> c = CHR 0x0D)"

record key_span =
  key_range :: "nat \<times> nat"
  value_range :: "nat \<times> nat"

function skip_ws :: "string \<Rightarrow> nat \<Rightarrow> nat" where
  "skip_ws b i = (if i < length b \<and> is_ws_byte (b ! i) then skip_ws b (Suc i) else i)"
  by pat_completeness auto
termination by (relation "measure (\<lambda>(b, i). length b - i)") auto

declare skip_ws.simps [simp del]

text \<open>The loop of \<^verbatim>\<open>scan_string\<close>, from the byte after the opening quote.\<close>

function scan_string_from :: "string \<Rightarrow> nat \<Rightarrow> nat option" where
  "scan_string_from b j =
     (if j < length b then
        (if b ! j = BACKSLASH then scan_string_from b (j + 2)
         else if b ! j = QUOTE then Some (j + 1)
         else if (of_char (b ! j) :: nat) < 32 then None
         else scan_string_from b (j + 1))
      else None)"
  by pat_completeness auto
termination by (relation "measure (\<lambda>(b, j). length b - j)") auto

declare scan_string_from.simps [simp del]

definition scan_string :: "string \<Rightarrow> nat \<Rightarrow> nat option" where
  "scan_string b i = scan_string_from b (i + 1)"

lemma scan_string_from_bounds [scan_bounds]:
  "scan_string_from b j = Some e \<Longrightarrow> j < e \<and> e \<le> length b \<and> b ! (e - 1) = QUOTE"
  by (induction b j rule: scan_string_from.induct)
    (subst (asm) (3) scan_string_from.simps, fastforce split: if_splits)

lemma scan_string_bounds [scan_bounds]:
  "scan_string b i = Some e \<Longrightarrow> i + 2 \<le> e \<and> e \<le> length b"
  using scan_string_from_bounds [of b "i + 1" e] by (auto simp: scan_string_def)

text \<open>Quote-aware depth tracking over a container; the depth is Rust's \<^verbatim>\<open>i32\<close>, kept here as
  an integer: it changes by at most one per byte read and is never below -1, so it leaves the range
  of an \<^verbatim>\<open>i32\<close> only on a text with 2147483648 opening brackets.\<close>

definition opens :: "char \<Rightarrow> bool" where "opens c = (c = CHR 0x7B \<or> c = CHR 0x5B)"
definition closes :: "char \<Rightarrow> bool" where "closes c = (c = CHR 0x7D \<or> c = CHR 0x5D)"

definition depth_after :: "char \<Rightarrow> int \<Rightarrow> int" where
  "depth_after c d = (if opens c then d + 1 else if closes c then d - 1 else d)"

function scan_container :: "string \<Rightarrow> nat \<Rightarrow> int \<Rightarrow> nat option" where
  "scan_container b j d =
     (if j < length b then
        (if b ! j = QUOTE then
           (case scan_string b j of None \<Rightarrow> None | Some j' \<Rightarrow> scan_container b j' d)
         else
           (let d' = depth_after (b ! j) d in
            if d' = 0 then Some (j + 1)
            else if d' < 0 then None
            else scan_container b (j + 1) d'))
      else None)"
  by pat_completeness auto
termination
  by (relation "measure (\<lambda>(b, j, d). length b - j)") (auto dest!: scan_string_bounds)

declare scan_container.simps [simp del]

definition ends_literal :: "char \<Rightarrow> bool" where
  "ends_literal c = (c = CHR 0x2C \<or> closes c \<or> is_ws_byte c)"

function scan_literal :: "string \<Rightarrow> nat \<Rightarrow> nat" where
  "scan_literal b j = (if j < length b \<and> \<not> ends_literal (b ! j) then scan_literal b (Suc j) else j)"
  by pat_completeness auto
termination by (relation "measure (\<lambda>(b, j). length b - j)") auto

declare scan_literal.simps [simp del]

definition scan_value :: "string \<Rightarrow> nat \<Rightarrow> nat option" where
  "scan_value b i = (case byte_at b i of
       None \<Rightarrow> None
     | Some c \<Rightarrow> if c = QUOTE then scan_string b i
                else if opens c then scan_container b i 0
                else Some (scan_literal b i))"

text \<open>The decoded key of a quoted token: escaped tokens go through the JSON parser.\<close>

definition decode_key :: "(string \<Rightarrow> string option) \<Rightarrow> string \<Rightarrow> string option" where
  "decode_key decode token =
     (let inner = slice token 1 (length token - 1) in
      if BACKSLASH \<in> set inner then decode token else Some inner)"

definition scan_entry :: "(string \<Rightarrow> string option) \<Rightarrow> string \<Rightarrow> nat \<Rightarrow> (string \<times> nat) option" where
  "scan_entry decode b i =
     (if byte_at b i \<noteq> Some QUOTE then None else
      case scan_string b i of None \<Rightarrow> None | Some after_key \<Rightarrow>
      (let j = skip_ws b after_key in
       if byte_at b j \<noteq> Some (CHR 0x3A) then None else
       case scan_value b (skip_ws b (j + 1)) of None \<Rightarrow> None | Some val_end \<Rightarrow>
       case decode_key decode (slice b i after_key) of None \<Rightarrow> None | Some k \<Rightarrow>
       Some (k, val_end)))"

subsection \<open>Progress and range\<close>

lemma skip_ws_bounds [scan_bounds]: "i \<le> skip_ws b i \<and> skip_ws b i \<le> max i (length b)"
proof (induction b i rule: skip_ws.induct)
  case (1 b i)
  then show ?case by (subst (1 2) skip_ws.simps) auto
qed

lemma scan_literal_bounds [scan_bounds]: "i \<le> scan_literal b i \<and> scan_literal b i \<le> max i (length b)"
proof (induction b i rule: scan_literal.induct)
  case (1 b i)
  then show ?case by (subst (1 2) scan_literal.simps) auto
qed

lemma scan_container_bounds [scan_bounds]:
  "scan_container b j d = Some e \<Longrightarrow> j < e \<and> e \<le> length b"
proof (induction b j d rule: scan_container.induct)
  case (1 b j d)
  show ?case
  proof (cases "j < length b \<and> b ! j = QUOTE")
    case True
    with "1.prems" obtain j' where j': "scan_string b j = Some j'" "scan_container b j' d = Some e"
      by (auto simp: scan_container.simps [of b j] split: option.splits)
    with "1.IH"(1) [of j'] True scan_string_bounds [OF j'(1)] show ?thesis by auto
  next
    case False
    with "1.prems" "1.IH"(2) [OF _ _ refl] show ?thesis
      by (fastforce simp: scan_container.simps [of b j] Let_def split: if_splits)
  qed
qed

lemma scan_value_bounds [scan_bounds]: "scan_value b i = Some e \<Longrightarrow> i \<le> e \<and> e \<le> length b"
  using scan_literal_bounds [of i b]
  by (auto simp: scan_value_def byte_at_def split: if_splits option.splits
      dest: scan_string_bounds scan_container_bounds)

lemma scan_entry_bounds [scan_bounds]:
  assumes "scan_entry decode b i = Some (k, e)"
  shows "i < e \<and> e \<le> length b"
proof -
  from assms obtain after_key where s: "scan_string b i = Some after_key"
    and v: "scan_value b (skip_ws b (skip_ws b after_key + 1)) = Some e"
    by (auto simp: scan_entry_def Let_def split: if_splits option.splits)
  have "after_key \<le> skip_ws b after_key" "skip_ws b after_key + 1 \<le> skip_ws b (skip_ws b after_key + 1)"
    using skip_ws_bounds by blast+
  with scan_string_bounds [OF s] scan_value_bounds [OF v] show ?thesis by linarith
qed

section \<open>Entry points\<close>

function depth1_loop :: "(string \<Rightarrow> string option) \<Rightarrow> string \<Rightarrow> nat \<Rightarrow> string list \<Rightarrow> string list option" where
  "depth1_loop decode b i out =
     (case scan_entry decode b i of
        None \<Rightarrow> None
      | Some (k, after_entry) \<Rightarrow>
          (let i' = skip_ws b after_entry; out' = out @ [k] in
           case byte_at b i' of
             None \<Rightarrow> None
           | Some c \<Rightarrow>
               if c = CHR 0x2C then depth1_loop decode b (skip_ws b (i' + 1)) out'
               else if c = CHR 0x7D then Some out'
               else None))"
  by pat_completeness auto
termination
proof (relation "measure (\<lambda>(decode, b, i, out). length b - i)", goal_cases)
  case (2 decode b i out x k e i' out' c)
  then have "i < e" "e \<le> i'" "i' + 1 \<le> skip_ws b (i' + 1)" "i' < length b"
    using skip_ws_bounds [of e b] skip_ws_bounds [of "i' + 1" b]
    by (auto dest!: scan_entry_bounds simp: byte_at_def split: if_splits)
  then show ?case by simp
qed simp

declare depth1_loop.simps [simp del]

definition depth1_keys :: "(string \<Rightarrow> string option) \<Rightarrow> string \<Rightarrow> string list option" where
  "depth1_keys decode json =
     (let i = skip_ws json 0 in
      if byte_at json i \<noteq> Some (CHR 0x7B) then None else
      (let i' = skip_ws json (i + 1) in
       case byte_at json i' of
         None \<Rightarrow> None
       | Some c \<Rightarrow> if c = CHR 0x7D then Some [] else depth1_loop decode json i' []))"

function keys_after_loop :: "(string \<Rightarrow> string option) \<Rightarrow> string \<Rightarrow> nat \<Rightarrow> string list \<Rightarrow> string list" where
  "keys_after_loop decode b i out =
     (let i' = skip_ws b i in
      if byte_at b i' \<noteq> Some (CHR 0x2C) then out
      else (case scan_entry decode b (skip_ws b (i' + 1)) of
              None \<Rightarrow> out
            | Some (k, after_entry) \<Rightarrow> keys_after_loop decode b after_entry (out @ [k])))"
  by pat_completeness auto
termination
proof (relation "measure (\<lambda>(decode, b, i, out). length b - i)", goal_cases)
  case (2 decode b i out i' x k e)
  then have "i \<le> i'" "i' + 1 \<le> skip_ws b (i' + 1)" "skip_ws b (i' + 1) < e" "e \<le> length b"
    using skip_ws_bounds [of i b] skip_ws_bounds [of "i' + 1" b]
    by (auto dest!: scan_entry_bounds)
  then show ?case by simp
qed simp

declare keys_after_loop.simps [simp del]

definition keys_after :: "(string \<Rightarrow> string option) \<Rightarrow> string \<Rightarrow> nat \<Rightarrow> string list" where
  "keys_after decode json start = keys_after_loop decode json start []"

text \<open>\<^verbatim>\<open>scan_spans\<close> decides a hit per entry; a token that does not decode is no hit, but does not
  stop the walk.\<close>

definition span_hit :: "(string \<Rightarrow> string option) \<Rightarrow> string \<Rightarrow> string \<Rightarrow> bool" where
  "span_hit decode key token = (decode_key decode token = Some key)"

definition scan_span :: "string \<Rightarrow> nat \<Rightarrow> (nat \<times> nat \<times> nat) option" where
  "scan_span b i =
     (if byte_at b i \<noteq> Some QUOTE then None else
      case scan_string b i of None \<Rightarrow> None | Some after_key \<Rightarrow>
      (let j = skip_ws b after_key in
       if byte_at b j \<noteq> Some (CHR 0x3A) then None else
       (let v = skip_ws b (j + 1) in
        case scan_value b v of None \<Rightarrow> None | Some val_end \<Rightarrow> Some (after_key, v, val_end))))"

lemma scan_span_bounds [scan_bounds]:
  assumes "scan_span b i = Some (after_key, v, e)"
  shows "i + 2 \<le> after_key \<and> after_key < v \<and> v \<le> e \<and> e \<le> length b"
proof -
  from assms have s: "scan_string b i = Some after_key" and val: "scan_value b v = Some e"
    and v: "v = skip_ws b (skip_ws b after_key + 1)"
    by (auto simp: scan_span_def Let_def split: if_splits option.splits)
  have "after_key \<le> skip_ws b after_key" "skip_ws b after_key + 1 \<le> v"
    using skip_ws_bounds v by blast+
  with scan_string_bounds [OF s] scan_value_bounds [OF val] show ?thesis by linarith
qed

function scan_spans_loop ::
  "(string \<Rightarrow> string option) \<Rightarrow> string \<Rightarrow> string \<Rightarrow> nat \<Rightarrow> key_span list \<Rightarrow> key_span list option" where
  "scan_spans_loop decode b key i out =
     (case scan_span b i of
        None \<Rightarrow> None
      | Some (after_key, v, val_end) \<Rightarrow>
          (let out' = (if span_hit decode key (slice b i after_key)
                       then out @ [\<lparr>key_range = (i, after_key), value_range = (v, val_end)\<rparr>] else out);
               i' = skip_ws b val_end in
           case byte_at b i' of
             None \<Rightarrow> None
           | Some c \<Rightarrow>
               if c = CHR 0x2C then scan_spans_loop decode b key (skip_ws b (i' + 1)) out'
               else if c = CHR 0x7D then Some out'
               else None))"
  by pat_completeness auto
termination
proof (relation "measure (\<lambda>(decode, b, key, i, out). length b - i)", goal_cases)
  case (2 decode b key i out x after_key y v e out' i' c)
  then have "i < e" "e \<le> i'" "i' + 1 \<le> skip_ws b (i' + 1)" "i' < length b"
    using skip_ws_bounds [of e b] skip_ws_bounds [of "i' + 1" b]
    by (auto dest!: scan_span_bounds simp: byte_at_def split: if_splits)
  then show ?case by simp
qed simp

declare scan_spans_loop.simps [simp del]

definition scan_spans :: "(string \<Rightarrow> string option) \<Rightarrow> string \<Rightarrow> string \<Rightarrow> key_span list option" where
  "scan_spans decode json key =
     (let i = skip_ws json 0 in
      if byte_at json i \<noteq> Some (CHR 0x7B) then None else
      (let i' = skip_ws json (i + 1) in
       case byte_at json i' of
         None \<Rightarrow> None
       | Some c \<Rightarrow> if c = CHR 0x7D then Some [] else scan_spans_loop decode json key i' []))"

definition top_level_key_spans :: "(string \<Rightarrow> string option) \<Rightarrow> string \<Rightarrow> string \<Rightarrow> key_span list" where
  "top_level_key_spans decode json key = some_or (scan_spans decode json key) []"

text \<open>The visitor over the parser's entry stream: an event is a decoded key or a failure, then a
  consumed value or a failure.\<close>

datatype map_event = NextKey string | KeyError | ValueConsumed | ValueError

fun visit_map :: "string \<Rightarrow> nat \<Rightarrow> map_event list \<Rightarrow> nat option" where
  "visit_map key n [] = Some n"
| "visit_map key n (NextKey k # ValueConsumed # es) =
     visit_map key (if k = key then n + 1 else n) es"
| "visit_map key n _ = None"

definition top_level_key_count :: "(string \<Rightarrow> map_event list option) \<Rightarrow> string \<Rightarrow> string \<Rightarrow> nat" where
  "top_level_key_count map_stream json key =
     (case map_stream json of
        None \<Rightarrow> 0
      | Some es \<Rightarrow> some_or (visit_map key 0 es) 0)"

end
