(* ===== verification/Json_Scan_Correct.thy ===== *)
theory Json_Scan_Correct
  imports Json_Scan
begin

text \<open>
  Correctness of the scanner against the JSON grammar. The grammar is given as inductive
  predicates over texts; an object document is described by its list of entries (key, value and
  the white space around them). The main facts: the scanner reads every such document, returns
  exactly its depth-1 keys and the exact value texts, reports every readable entry after a cut, and
  agrees with the parser's stream walk.
\<close>

section \<open>The grammar\<close>

inductive string_body :: "string \<Rightarrow> bool" where
  sb_nil: "string_body []"
| sb_plain: "c \<noteq> QUOTE \<Longrightarrow> c \<noteq> BACKSLASH \<Longrightarrow> 32 \<le> (of_char c :: nat) \<Longrightarrow> string_body s \<Longrightarrow> string_body (c # s)"
| sb_escape: "string_body s \<Longrightarrow> string_body (BACKSLASH # c # s)"

definition white :: "string \<Rightarrow> bool" where "white w = list_all is_ws_byte w"

definition scalar_text :: "string \<Rightarrow> bool" where
  "scalar_text t = (t \<noteq> [] \<and> hd t \<noteq> QUOTE \<and> \<not> opens (hd t)
     \<and> list_all (\<lambda>c. \<not> ends_literal c \<and> \<not> opens c \<and> c \<noteq> QUOTE) t)"

inductive json_text :: "string \<Rightarrow> bool"
  and elements :: "string \<Rightarrow> bool"
  and members :: "string \<Rightarrow> bool" where
  jt_string: "string_body t \<Longrightarrow> json_text (QUOTE # t @ [QUOTE])"
| jt_scalar: "scalar_text t \<Longrightarrow> json_text t"
| jt_array0: "white w \<Longrightarrow> json_text (CHR 0x5B # w @ [CHR 0x5D])"
| jt_array: "elements t \<Longrightarrow> json_text (CHR 0x5B # t @ [CHR 0x5D])"
| jt_object0: "white w \<Longrightarrow> json_text (CHR 0x7B # w @ [CHR 0x7D])"
| jt_object: "members t \<Longrightarrow> json_text (CHR 0x7B # t @ [CHR 0x7D])"
| el_one: "white w \<Longrightarrow> json_text v \<Longrightarrow> white w' \<Longrightarrow> elements (w @ v @ w')"
| el_more: "white w \<Longrightarrow> json_text v \<Longrightarrow> white w' \<Longrightarrow> elements t \<Longrightarrow> elements (w @ v @ w' @ CHR 0x2C # t)"
| mb_one: "white w \<Longrightarrow> string_body k \<Longrightarrow> white w1 \<Longrightarrow> white w2 \<Longrightarrow> json_text v \<Longrightarrow> white w3 \<Longrightarrow>
     members (w @ QUOTE # k @ QUOTE # w1 @ CHR 0x3A # w2 @ v @ w3)"
| mb_more: "white w \<Longrightarrow> string_body k \<Longrightarrow> white w1 \<Longrightarrow> white w2 \<Longrightarrow> json_text v \<Longrightarrow> white w3 \<Longrightarrow> members t \<Longrightarrow>
     members (w @ QUOTE # k @ QUOTE # w1 @ CHR 0x3A # w2 @ v @ w3 @ CHR 0x2C # t)"

text \<open>What the depth tracker sees of a text: strings, plain bytes and nested brackets.\<close>

inductive balanced :: "string \<Rightarrow> bool" where
  bl_nil: "balanced []"
| bl_plain: "c \<noteq> QUOTE \<Longrightarrow> \<not> opens c \<Longrightarrow> \<not> closes c \<Longrightarrow> balanced s \<Longrightarrow> balanced (c # s)"
| bl_string: "string_body t \<Longrightarrow> balanced s \<Longrightarrow> balanced (QUOTE # t @ QUOTE # s)"
| bl_nest: "opens a \<Longrightarrow> closes z \<Longrightarrow> balanced t \<Longrightarrow> balanced s \<Longrightarrow> balanced (a # t @ z # s)"

lemma balanced_append: "balanced s \<Longrightarrow> balanced t \<Longrightarrow> balanced (s @ t)"
proof (induction s rule: balanced.induct)
  case (bl_string u s)
  then have "balanced (QUOTE # u @ QUOTE # (s @ t))" by (intro balanced.bl_string) auto
  then show ?case by simp
next
  case (bl_nest a z u s)
  then have "balanced (a # u @ z # (s @ t))" by (intro balanced.bl_nest) auto
  then show ?case by simp
qed (auto intro: balanced.intros)

lemma byte_classes [simp]:
  "\<not> opens QUOTE" "\<not> closes QUOTE" "\<not> is_ws_byte QUOTE" "\<not> ends_literal QUOTE"
  "\<not> opens (CHR 0x2C)" "\<not> closes (CHR 0x2C)" "\<not> is_ws_byte (CHR 0x2C)" "ends_literal (CHR 0x2C)"
  "\<not> opens (CHR 0x3A)" "\<not> closes (CHR 0x3A)" "\<not> is_ws_byte (CHR 0x3A)"
  "opens (CHR 0x7B)" "opens (CHR 0x5B)" "\<not> closes (CHR 0x7B)" "\<not> closes (CHR 0x5B)"
  "closes (CHR 0x7D)" "closes (CHR 0x5D)" "\<not> opens (CHR 0x7D)" "\<not> opens (CHR 0x5D)"
  "\<not> is_ws_byte (CHR 0x7D)" "ends_literal (CHR 0x7D)" "\<not> is_ws_byte (CHR 0x7B)" "\<not> is_ws_byte (CHR 0x5B)"
  by (simp_all add: opens_def closes_def is_ws_byte_def ends_literal_def)

lemma ws_byte_classes: "is_ws_byte c \<Longrightarrow> c \<noteq> QUOTE \<and> \<not> opens c \<and> \<not> closes c \<and> ends_literal c"
  by (auto simp: is_ws_byte_def opens_def closes_def ends_literal_def)

lemma balanced_white: "white w \<Longrightarrow> balanced w"
  by (induction w) (auto simp: white_def intro: balanced.intros dest: ws_byte_classes)

lemma balanced_scalar: "scalar_text t \<Longrightarrow> balanced t"
proof -
  have "list_all (\<lambda>c. \<not> ends_literal c \<and> \<not> opens c \<and> c \<noteq> QUOTE) t \<Longrightarrow> balanced t"
    by (induction t) (auto intro: balanced.intros simp: ends_literal_def)
  then show "scalar_text t \<Longrightarrow> balanced t" by (simp add: scalar_text_def)
qed

lemmas balanced_pieces = balanced_append
  balanced.bl_plain [of "CHR 0x2C"] balanced.bl_plain [of "CHR 0x3A"] balanced.bl_string
  balanced.bl_nest [OF _ _ _ balanced.bl_nil]

lemma json_text_balanced:
  "json_text s \<Longrightarrow> balanced s" "elements s \<Longrightarrow> balanced s" "members s \<Longrightarrow> balanced s"
proof (induction rule: json_text_elements_members.inducts)
  case (jt_string t)
  then show ?case using balanced.bl_string [OF _ balanced.bl_nil] by simp
qed (auto simp: balanced_white balanced_scalar intro!: balanced_pieces)

section \<open>The scanning functions on grammatical input\<close>

lemma byte_at_here [simp]: "byte_at (pre @ c # post) (length pre) = Some c"
  by (simp add: byte_at_def)

lemma skip_ws_white:
  "white w \<Longrightarrow> (\<And>c post'. post = c # post' \<Longrightarrow> \<not> is_ws_byte c) \<Longrightarrow>
     skip_ws (pre @ w @ post) (length pre) = length pre + length w"
proof (induction w arbitrary: pre)
  case Nil
  then show ?case by (cases post) (auto simp: skip_ws.simps [of _ "length pre"])
next
  case (Cons x w)
  from Cons.prems Cons.IH [of "pre @ [x]"] show ?case
    by (simp add: skip_ws.simps [of _ "length pre"] white_def)
qed

lemma scan_string_body:
  "string_body t \<Longrightarrow> scan_string_from (pre @ t @ QUOTE # post) (length pre) = Some (length pre + length t + 1)"
proof (induction t arbitrary: pre rule: string_body.induct)
  case sb_nil
  then show ?case by (simp add: scan_string_from.simps [of _ "length pre"])
next
  case (sb_plain c s)
  from sb_plain.hyps sb_plain.IH [of "pre @ [c]"] show ?case
    by (simp add: scan_string_from.simps [of _ "length pre"])
next
  case (sb_escape s c)
  from sb_escape.IH [of "pre @ [BACKSLASH, c]"] show ?case
    by (simp add: scan_string_from.simps [of _ "length pre"])
qed

lemma scan_string_token:
  "string_body t \<Longrightarrow>
     scan_string (pre @ QUOTE # t @ QUOTE # post) (length pre) = Some (length pre + length t + 2)"
  using scan_string_body [of t "pre @ [QUOTE]" post] by (simp add: scan_string_def)

text \<open>Over balanced text the tracker keeps its depth and never returns.\<close>

lemma scan_container_balanced:
  "balanced t \<Longrightarrow> 0 < d \<Longrightarrow>
     scan_container (pre @ t @ post) (length pre) d = scan_container (pre @ t @ post) (length pre + length t) d"
proof (induction t arbitrary: pre post d rule: balanced.induct)
  case (bl_plain c s)
  from bl_plain.hyps bl_plain.prems bl_plain.IH [of d "pre @ [c]" post] show ?case
    by (simp add: scan_container.simps [of _ "length pre"] depth_after_def)
next
  case (bl_string t s)
  from bl_string.hyps bl_string.prems bl_string.IH [of d "pre @ QUOTE # t @ [QUOTE]" post]
    scan_string_token [of t pre "s @ post"] show ?case
    by (simp add: scan_container.simps [of _ "length pre"] add.assoc)
next
  case (bl_nest a z t s)
  from bl_nest.hyps have a: "a \<noteq> QUOTE" "depth_after a d = d + 1" and z: "z \<noteq> QUOTE" "depth_after z (d + 1) = d"
    by (auto simp: depth_after_def opens_def closes_def)
  let ?b = "pre @ (a # t @ z # s) @ post"
  have "scan_container ?b (length pre) d = scan_container ?b (length (pre @ [a])) (d + 1)"
    using a bl_nest.prems by (simp add: scan_container.simps [of _ "length pre"])
  also have "\<dots> = scan_container ?b (length (pre @ [a]) + length t) (d + 1)"
    using bl_nest.IH(1) [of "d + 1" "pre @ [a]" "z # s @ post"] bl_nest.prems by simp
  also have "\<dots> = scan_container ?b (length (pre @ a # t @ [z])) d"
    using z bl_nest.prems
    by (simp add: scan_container.simps [of _ "Suc (length pre + length t)"] nth_append)
  also have "\<dots> = scan_container ?b (length (pre @ a # t @ [z]) + length s) d"
    using bl_nest.IH(2) [of d "pre @ a # t @ [z]" post] bl_nest.prems by simp
  finally show ?case by (simp add: add.assoc)
qed simp

lemma scan_container_value:
  assumes "opens a" "closes z" "balanced t"
  shows "scan_container (pre @ a # t @ z # post) (length pre) 0 = Some (length pre + length t + 2)"
proof -
  let ?b = "pre @ a # t @ z # post"
  from assms have a: "a \<noteq> QUOTE" "depth_after a 0 = 1" and z: "z \<noteq> QUOTE" "depth_after z 1 = 0"
    by (auto simp: depth_after_def opens_def closes_def)
  have "scan_container ?b (length pre) 0 = scan_container ?b (length (pre @ [a])) 1"
    using a by (simp add: scan_container.simps [of _ "length pre"])
  also have "\<dots> = scan_container ?b (length (pre @ [a]) + length t) 1"
    using scan_container_balanced [OF assms(3), of 1 "pre @ [a]" "z # post"] by simp
  also have "\<dots> = Some (length pre + length t + 2)"
    using z by (simp add: scan_container.simps [of _ "Suc (length pre + length t)"] nth_append)
  finally show ?thesis .
qed

lemma scan_literal_scalar:
  "list_all (\<lambda>c. \<not> ends_literal c) t \<Longrightarrow> ends_literal c \<Longrightarrow>
     scan_literal (pre @ t @ c # post) (length pre) = length pre + length t"
proof (induction t arbitrary: pre)
  case Nil
  then show ?case by (simp add: scan_literal.simps [of _ "length pre"])
next
  case (Cons x t)
  from Cons.prems Cons.IH [of "pre @ [x]"] show ?case
    by (simp add: scan_literal.simps [of _ "length pre"])
qed

lemma json_text_cases_container:
  assumes "json_text v"
  obtains (string) t where "v = QUOTE # t @ [QUOTE]" "string_body t"
    | (scalar) "scalar_text v"
    | (container) a t z where "v = a # t @ [z]" "opens a" "closes z" "balanced t"
  using assms
proof (cases rule: json_text.cases)
  case (jt_array0 w)
  then show ?thesis using container [of "CHR 0x5B" w "CHR 0x5D"] by (simp add: balanced_white)
next
  case (jt_array t)
  then show ?thesis using container [of "CHR 0x5B" t "CHR 0x5D"] by (simp add: json_text_balanced)
next
  case (jt_object0 w)
  then show ?thesis using container [of "CHR 0x7B" w "CHR 0x7D"] by (simp add: balanced_white)
next
  case (jt_object t)
  then show ?thesis using container [of "CHR 0x7B" t "CHR 0x7D"] by (simp add: json_text_balanced)
qed (use string scalar in auto)

text \<open>The value scanner consumes exactly one value, whatever ends a literal follows it.\<close>

lemma scan_value_text:
  assumes "json_text v" and "ends_literal c"
  shows "scan_value (pre @ v @ c # post) (length pre) = Some (length pre + length v)"
  using assms(1)
proof (cases rule: json_text_cases_container)
  case (string t)
  then show ?thesis using scan_string_token [of t pre "c # post"] by (simp add: scan_value_def)
next
  case scalar
  then obtain x t where v: "v = x # t" "x \<noteq> QUOTE" "\<not> opens x" by (cases v) (auto simp: scalar_text_def)
  have "list_all (\<lambda>c. \<not> ends_literal c) v"
    using scalar by (auto simp: scalar_text_def list_all_iff)
  from scan_literal_scalar [OF this assms(2), of pre post] v show ?thesis
    by (simp add: scan_value_def)
next
  case (container a t z)
  then have "a \<noteq> QUOTE" by auto
  with container scan_container_value [of a z t pre "c # post"] show ?thesis
    by (simp add: scan_value_def)
qed

lemma json_text_hd:
  assumes "json_text v"
  shows "\<exists>x t. v = x # t \<and> \<not> is_ws_byte x"
  using assms
proof (cases rule: json_text_cases_container)
  case scalar
  then show ?thesis by (cases v) (auto simp: scalar_text_def ends_literal_def)
qed (auto simp: opens_def is_ws_byte_def)

section \<open>Object documents\<close>

text \<open>An entry of the root object: white space, key body, white space, white space, value text,
  white space.\<close>

record entry =
  e_w0 :: string
  e_key :: string
  e_w1 :: string
  e_w2 :: string
  e_value :: string
  e_w3 :: string

definition wf_entry :: "entry \<Rightarrow> bool" where
  "wf_entry e \<longleftrightarrow> white (e_w0 e) \<and> string_body (e_key e) \<and> white (e_w1 e) \<and> white (e_w2 e)
     \<and> json_text (e_value e) \<and> white (e_w3 e)"

definition key_token :: "entry \<Rightarrow> string" where
  "key_token e = QUOTE # e_key e @ [QUOTE]"

definition entry_core :: "entry \<Rightarrow> string" where
  "entry_core e = key_token e @ e_w1 e @ CHR 0x3A # e_w2 e @ e_value e @ e_w3 e"

definition entry_text :: "entry \<Rightarrow> string" where
  "entry_text e = e_w0 e @ entry_core e"

text \<open>The text from the first entry's key on, up to and including the closing brace.\<close>

fun entries_text :: "entry list \<Rightarrow> string" where
  "entries_text [] = [CHR 0x7D]"
| "entries_text [e] = entry_text e @ [CHR 0x7D]"
| "entries_text (e # e' # es) = entry_text e @ CHR 0x2C # entries_text (e' # es)"

definition object_text :: "string \<Rightarrow> entry list \<Rightarrow> string \<Rightarrow> string" where
  "object_text w es rest = w @ CHR 0x7B # entries_text es @ rest"

definition entry_key :: "(string \<Rightarrow> string option) \<Rightarrow> entry \<Rightarrow> string option" where
  "entry_key decode e = decode_key decode (key_token e)"

definition is_delim :: "char \<Rightarrow> bool" where "is_delim c = (c = CHR 0x2C \<or> c = CHR 0x7D)"

lemma white_then: "white w \<Longrightarrow> ends_literal c \<Longrightarrow> \<exists>d rest. w @ c # post = d # rest \<and> ends_literal d"
  by (cases w) (auto simp: white_def dest: ws_byte_classes)

text \<open>One entry, read from its key's opening quote up to the delimiter after it.\<close>

lemma scan_span_entry:
  assumes e: "wf_entry e" and c: "is_delim c"
    and b': "b = pre @ entry_core e @ c # post"
  defines "v \<equiv> length pre + length (key_token e) + length (e_w1 e) + 1 + length (e_w2 e)"
  shows "scan_span b (length pre) = Some (length pre + length (key_token e), v, v + length (e_value e))"
    and "skip_ws b (v + length (e_value e)) = length (pre @ entry_core e)"
    and "slice b (length pre) (length pre + length (key_token e)) = key_token e"
    and "slice b v (v + length (e_value e)) = e_value e"
proof -
  let ?k = "length pre + length (key_token e)"
  let ?pv = "pre @ key_token e @ e_w1 e @ CHR 0x3A # e_w2 e"
  note wf = e [unfolded wf_entry_def]
  have b: "b = pre @ key_token e @ e_w1 e @ CHR 0x3A # e_w2 e @ e_value e @ e_w3 e @ c # post"
    by (simp add: b' entry_core_def)
  from c have cd: "ends_literal c" "\<not> is_ws_byte c" by (auto simp: is_delim_def)
  have bv: "b = ?pv @ e_value e @ e_w3 e @ c # post" by (simp add: b)
  have lv: "length ?pv = v" by (simp add: v_def)
  have s: "scan_string b (length pre) = Some ?k"
    using scan_string_token [of "e_key e" pre] wf by (simp add: b key_token_def)
  have w1: "skip_ws b ?k = ?k + length (e_w1 e)"
    using skip_ws_white [of "e_w1 e" "CHR 0x3A # e_w2 e @ e_value e @ e_w3 e @ c # post" "pre @ key_token e"] wf
    by (simp add: b)
  have colon: "byte_at b (?k + length (e_w1 e)) = Some (CHR 0x3A)"
    using byte_at_here [of "pre @ key_token e @ e_w1 e" "CHR 0x3A"] by (simp add: b add.assoc)
  obtain x t where xt: "e_value e = x # t" "\<not> is_ws_byte x" using json_text_hd wf by blast
  have w2: "skip_ws b (?k + length (e_w1 e) + 1) = v"
    using skip_ws_white [of "e_w2 e" "e_value e @ e_w3 e @ c # post"
        "pre @ key_token e @ e_w1 e @ [CHR 0x3A]"] wf xt by (simp add: b v_def add.assoc)
  obtain d rest where d: "e_w3 e @ c # post = d # rest" "ends_literal d"
    using white_then [of "e_w3 e" c post] wf cd by blast
  have val: "scan_value b v = Some (v + length (e_value e))"
    using scan_value_text [of "e_value e" d ?pv rest] wf d lv by (simp add: bv)
  have q: "byte_at b (length pre) = Some QUOTE" by (simp add: b key_token_def)
  show "scan_span b (length pre) = Some (?k, v, v + length (e_value e))"
    using s w1 colon w2 val q by (simp add: scan_span_def)
  show "skip_ws b (v + length (e_value e)) = length (pre @ entry_core e)"
    using skip_ws_white [of "e_w3 e" "c # post" "?pv @ e_value e"] wf cd
    by (simp add: bv v_def entry_core_def add.assoc)
  show "slice b (length pre) ?k = key_token e" by (simp add: b slice_def)
  show "slice b v (v + length (e_value e)) = e_value e"
    unfolding slice_def bv lv [symmetric] by simp
qed

text \<open>What follows an entry: the closing brace, or a comma and the next entries.\<close>

definition after_entry :: "entry list \<Rightarrow> string \<Rightarrow> string" where
  "after_entry es rest = (if es = [] then CHR 0x7D # rest else CHR 0x2C # entries_text es @ rest)"

lemma entries_text_Cons:
  "entries_text (e # es) @ rest = e_w0 e @ entry_core e @ after_entry es rest"
  by (cases es) (auto simp: after_entry_def entry_text_def)

lemma after_entry_delim: "\<exists>c post. after_entry es rest = c # post \<and> is_delim c \<and> (c = CHR 0x7D \<longleftrightarrow> es = [])"
  by (auto simp: after_entry_def is_delim_def)

text \<open>Skipping to the next key after a comma.\<close>

lemma skip_to_next_key:
  assumes "wf_entry e" "b = pre @ CHR 0x2C # e_w0 e @ entry_core e @ post"
  shows "skip_ws b (length pre + 1) = length (pre @ CHR 0x2C # e_w0 e)"
  using skip_ws_white [of "e_w0 e" "entry_core e @ post" "pre @ [CHR 0x2C]"] assms
  by (simp add: wf_entry_def entry_core_def key_token_def)

definition entry_span :: "nat \<Rightarrow> entry \<Rightarrow> key_span" where
  "entry_span p e = (let k = p + length (key_token e); v = k + length (e_w1 e) + 1 + length (e_w2 e) in
     \<lparr>key_range = (p, k), value_range = (v, v + length (e_value e))\<rparr>)"

definition span_texts :: "string \<Rightarrow> key_span \<Rightarrow> string \<times> string" where
  "span_texts b sp = (slice b (fst (key_range sp)) (snd (key_range sp)),
                      slice b (fst (value_range sp)) (snd (value_range sp)))"

lemma scan_step:
  assumes "wf_entry e" "is_delim c" "b = pre @ entry_core e @ c # post"
  shows "scan_spans_loop decode b key (length pre) out =
           (let out' = (if entry_key decode e = Some key then out @ [entry_span (length pre) e] else out) in
            if c = CHR 0x7D then Some out'
            else scan_spans_loop decode b key (skip_ws b (length (pre @ entry_core e) + 1)) out')"
    and "depth1_loop decode b (length pre) ks =
           (case entry_key decode e of None \<Rightarrow> None | Some k \<Rightarrow>
            if c = CHR 0x7D then Some (ks @ [k])
            else depth1_loop decode b (skip_ws b (length (pre @ entry_core e) + 1)) (ks @ [k]))"
    and "span_texts b (entry_span (length pre) e) = (key_token e, e_value e)"
proof -
  note sp = scan_span_entry [OF assms]
  have c: "byte_at b (length (pre @ entry_core e)) = Some c"
    using byte_at_here [of "pre @ entry_core e"] assms(3) by simp
  have entry: "scan_entry decode b i = (case scan_span b i of None \<Rightarrow> None | Some (k, v, e) \<Rightarrow>
      map_option (\<lambda>d. (d, e)) (decode_key decode (slice b i k)))" for i
    by (auto simp: scan_entry_def scan_span_def Let_def split: option.splits)
  show "scan_spans_loop decode b key (length pre) out =
           (let out' = (if entry_key decode e = Some key then out @ [entry_span (length pre) e] else out) in
            if c = CHR 0x7D then Some out'
            else scan_spans_loop decode b key (skip_ws b (length (pre @ entry_core e) + 1)) out')"
    using sp c assms(2)
    by (auto simp: scan_spans_loop.simps [of _ _ _ "length pre"] span_hit_def entry_key_def
        entry_span_def is_delim_def Let_def simp del: length_append)
  show "depth1_loop decode b (length pre) ks =
           (case entry_key decode e of None \<Rightarrow> None | Some k \<Rightarrow>
            if c = CHR 0x7D then Some (ks @ [k])
            else depth1_loop decode b (skip_ws b (length (pre @ entry_core e) + 1)) (ks @ [k]))"
    using sp c assms(2)
    by (auto simp: depth1_loop.simps [of _ _ "length pre"] entry entry_key_def is_delim_def Let_def
        simp del: length_append split: option.splits)
  show "span_texts b (entry_span (length pre) e) = (key_token e, e_value e)"
    using sp by (simp add: span_texts_def entry_span_def Let_def)
qed

lemma loops_entries:
  "list_all wf_entry (e # es) \<Longrightarrow> b = pre @ entry_core e @ after_entry es rest \<Longrightarrow>
     (\<exists>sps. scan_spans_loop decode b key (length pre) out = Some (out @ sps)
       \<and> map (span_texts b) sps = map (\<lambda>e. (key_token e, e_value e)) (filter (\<lambda>e. entry_key decode e = Some key) (e # es)))
     \<and> depth1_loop decode b (length pre) ks = map_option ((@) ks) (those (map (entry_key decode) (e # es)))"
proof (induction es arbitrary: e pre out ks)
  case Nil
  then show ?case
    using scan_step [of e "CHR 0x7D" b pre rest] by (auto simp: after_entry_def is_delim_def split: option.splits)
next
  case (Cons e' es)
  let ?pre' = "pre @ entry_core e @ CHR 0x2C # e_w0 e'"
  have b: "b = pre @ entry_core e @ CHR 0x2C # entries_text (e' # es) @ rest"
    using Cons.prems by (simp add: after_entry_def)
  have b': "b = ?pre' @ entry_core e' @ after_entry es rest"
    using b entries_text_Cons [of e' es rest] by simp
  have skip: "skip_ws b (length (pre @ entry_core e) + 1) = length ?pre'"
    using skip_to_next_key [of e' b "pre @ entry_core e" "after_entry es rest"] b' Cons.prems by simp
  have wf: "wf_entry e" "list_all wf_entry (e' # es)" using Cons.prems by auto
  note step = scan_step [OF wf(1) _ b, unfolded skip is_delim_def, simplified]
  note IH = Cons.IH [OF wf(2) b']
  let ?hit = "entry_key decode e = Some key"
  let ?out = "if ?hit then out @ [entry_span (length pre) e] else out"
  from IH [of ?out] obtain sps where
    sps: "scan_spans_loop decode b key (length ?pre') ?out = Some (?out @ sps)"
    "map (span_texts b) sps = map (\<lambda>e. (key_token e, e_value e)) (filter (\<lambda>e. entry_key decode e = Some key) (e' # es))"
    by blast
  have "scan_spans_loop decode b key (length pre) out = Some (out @ (if ?hit then [entry_span (length pre) e] else []) @ sps)"
    using step(1) [of decode key out] sps(1) by (simp add: Let_def add.assoc split: if_splits)
  moreover have "map (span_texts b) ((if ?hit then [entry_span (length pre) e] else []) @ sps)
      = map (\<lambda>e. (key_token e, e_value e)) (filter (\<lambda>e. entry_key decode e = Some key) (e # e' # es))"
    using sps(2) step(3) by simp
  moreover have "depth1_loop decode b (length pre) ks = map_option ((@) ks) (those (map (entry_key decode) (e # e' # es)))"
  proof (cases "entry_key decode e")
    case (Some k)
    from IH have "depth1_loop decode b (length ?pre') (ks @ [k]) = map_option ((@) (ks @ [k])) (those (map (entry_key decode) (e' # es)))"
      by blast
    moreover have "(@) (ks @ [k]) = (\<lambda>x. ks @ k # x)" by (rule ext) simp
    ultimately show ?thesis
      using Some step(2) [of decode ks] by (simp add: option.map_comp comp_def add.assoc)
  qed (use step(2) [of decode ks] in simp)
  ultimately show ?case by blast
qed

lemma object_text_start:
  assumes "white w" "wf_entry e" "b = object_text w (e # es) rest"
  shows "byte_at b (skip_ws b 0) = Some (CHR 0x7B)"
    and "skip_ws b (skip_ws b 0 + 1) = length (w @ CHR 0x7B # e_w0 e)"
    and "b = (w @ CHR 0x7B # e_w0 e) @ entry_core e @ after_entry es rest"
proof -
  show b: "b = (w @ CHR 0x7B # e_w0 e) @ entry_core e @ after_entry es rest"
    using assms(3) entries_text_Cons [of e es rest] by (simp add: object_text_def)
  have 0: "skip_ws b 0 = length w"
    using skip_ws_white [of w "CHR 0x7B # e_w0 e @ entry_core e @ after_entry es rest" "[]"] assms b by simp
  show "byte_at b (skip_ws b 0) = Some (CHR 0x7B)" unfolding 0 by (simp add: b)
  show "skip_ws b (skip_ws b 0 + 1) = length (w @ CHR 0x7B # e_w0 e)"
    unfolding 0 using skip_ws_white [of "e_w0 e" "entry_core e @ after_entry es rest" "w @ [CHR 0x7B]"] assms(2) b
    by (simp add: wf_entry_def entry_core_def key_token_def)
qed

lemma append_Nil_fun: "(@) [] = id"
  by (rule ext) simp

text \<open>The two scanners on a non-empty object document: exactly the depth-1 entries, in document
  order, duplicates included; text after the closing brace is not inspected.\<close>

lemma scanners_object:
  assumes "white w" "list_all wf_entry (e # es)"
    and b: "b = object_text w (e # es) rest"
  shows "map (span_texts b) (top_level_key_spans decode b key)
           = map (\<lambda>e. (key_token e, e_value e)) (filter (\<lambda>e. entry_key decode e = Some key) (e # es))"
    and "depth1_keys decode b = those (map (entry_key decode) (e # es))"
proof -
  from assms(2) have e: "wf_entry e" by simp
  note st = object_text_start [OF assms(1) e b]
  let ?i = "length (w @ CHR 0x7B # e_w0 e)"
  have q: "byte_at b ?i = Some QUOTE"
    using byte_at_here [of "w @ CHR 0x7B # e_w0 e" QUOTE] by (subst st(3)) (simp add: entry_core_def key_token_def)
  have spans: "top_level_key_spans decode b key = some_or (scan_spans_loop decode b key ?i []) []"
    using st q by (simp add: top_level_key_spans_def scan_spans_def Let_def)
  have keys: "depth1_keys decode b = depth1_loop decode b ?i []"
    using st q by (simp add: depth1_keys_def Let_def)
  note loops = loops_entries [OF assms(2) st(3), of decode key "[]" "[]"]
  show "map (span_texts b) (top_level_key_spans decode b key)
           = map (\<lambda>e. (key_token e, e_value e)) (filter (\<lambda>e. entry_key decode e = Some key) (e # es))"
    using loops unfolding spans by auto
  show "depth1_keys decode b = those (map (entry_key decode) (e # es))"
    using loops unfolding keys by (auto simp: append_Nil_fun option.map_id0)
qed

text \<open>C8. On every object document (any white space, any keys, any JSON values, duplicates allowed)
  the span scanner returns exactly the depth-1 entries whose decoded key is the one asked for, in
  document order, and each span cuts out exactly the key token and the value text.\<close>

theorem top_level_key_spans_exact:
  assumes "white w" "list_all wf_entry (e # es)"
  shows "map (span_texts (object_text w (e # es) rest)) (top_level_key_spans decode (object_text w (e # es) rest) key)
           = map (\<lambda>e. (key_token e, e_value e)) (filter (\<lambda>e. entry_key decode e = Some key) (e # es))"
  using scanners_object(1) [OF assms refl] .

lemma wf_entry_simple:
  "wf_entry \<lparr>e_w0 = [], e_key = ''p'', e_w1 = [], e_w2 = '' '', e_value = ''1'', e_w3 = []\<rparr>"
  by (auto simp: wf_entry_def white_def is_ws_byte_def scalar_text_def opens_def ends_literal_def closes_def
      intro!: string_body.intros jt_scalar)

theorem top_level_key_spans_exact_witness:
  "let e = \<lparr>e_w0 = [], e_key = ''p'', e_w1 = [], e_w2 = '' '', e_value = ''1'', e_w3 = []\<rparr>;
       b = object_text [] [e, e] '' trailing'' in
   map (span_texts b) (top_level_key_spans (\<lambda>_. None) b ''p'')
     = [(key_token e, ''1''), (key_token e, ''1'')]"
  using top_level_key_spans_exact
    [of "[]" "\<lparr>e_w0 = [], e_key = ''p'', e_w1 = [], e_w2 = '' '', e_value = ''1'', e_w3 = []\<rparr>"
      "[\<lparr>e_w0 = [], e_key = ''p'', e_w1 = [], e_w2 = '' '', e_value = ''1'', e_w3 = []\<rparr>]"
      "'' trailing''" "\<lambda>_. None" "''p''"] wf_entry_simple
  by (simp add: white_def entry_key_def key_token_def decode_key_def slice_def Let_def)

section \<open>The walk after a cut\<close>

text \<open>A value that ends the text, and an entry that is followed by the end of a literal or by the end
  of the text.\<close>

definition ends_here :: "string \<Rightarrow> bool" where
  "ends_here post \<longleftrightarrow> post = [] \<or> ends_literal (hd post)"

lemma scan_literal_to_end:
  "list_all (\<lambda>c. \<not> ends_literal c) t \<Longrightarrow> scan_literal (pre @ t) (length pre) = length pre + length t"
proof (induction t arbitrary: pre)
  case Nil
  then show ?case by (simp add: scan_literal.simps [of _ "length pre"])
next
  case (Cons x t)
  from Cons.prems Cons.IH [of "pre @ [x]"] show ?case
    by (simp add: scan_literal.simps [of _ "length pre"])
qed

lemma scan_value_ends:
  assumes "json_text v" "ends_here post"
  shows "scan_value (pre @ v @ post) (length pre) = Some (length pre + length v)"
proof (cases post)
  case Nil
  show ?thesis using assms(1)
  proof (cases rule: json_text_cases_container)
    case (string t)
    then show ?thesis using scan_string_token [of t pre "[]"] Nil by (simp add: scan_value_def)
  next
    case scalar
    then obtain x t where v: "v = x # t" "x \<noteq> QUOTE" "\<not> opens x" by (cases v) (auto simp: scalar_text_def)
    have "list_all (\<lambda>c. \<not> ends_literal c) v"
      using scalar by (auto simp: scalar_text_def list_all_iff)
    from scan_literal_to_end [OF this, of pre] v Nil show ?thesis by (simp add: scan_value_def)
  next
    case (container a t z)
    then have "a \<noteq> QUOTE" by auto
    with container scan_container_value [of a z t pre "[]"] Nil show ?thesis by (simp add: scan_value_def)
  qed
next
  case (Cons c post')
  then show ?thesis using scan_value_text [OF assms(1), of c pre post'] assms(2) by (simp add: ends_here_def)
qed

lemma ends_here_white: "white w \<Longrightarrow> ends_here post \<Longrightarrow> ends_here (w @ post)"
  by (cases w) (auto simp: ends_here_def white_def dest: ws_byte_classes)

lemma scan_entry_ends:
  assumes e: "wf_entry e" and post: "ends_here post" and b': "b = pre @ entry_core e @ post"
  shows "scan_entry decode b (length pre) = map_option (\<lambda>k. (k, length pre + length (key_token e) + length (e_w1 e) + 1
    + length (e_w2 e) + length (e_value e))) (entry_key decode e)"
proof -
  let ?k = "length pre + length (key_token e)"
  let ?pv = "pre @ key_token e @ e_w1 e @ CHR 0x3A # e_w2 e"
  note wf = e [unfolded wf_entry_def]
  have b: "b = pre @ key_token e @ e_w1 e @ CHR 0x3A # e_w2 e @ e_value e @ e_w3 e @ post"
    by (simp add: b' entry_core_def)
  have s: "scan_string b (length pre) = Some ?k"
    using scan_string_token [of "e_key e" pre] wf by (simp add: b key_token_def)
  have w1: "skip_ws b ?k = ?k + length (e_w1 e)"
    using skip_ws_white [of "e_w1 e" "CHR 0x3A # e_w2 e @ e_value e @ e_w3 e @ post" "pre @ key_token e"] wf
    by (simp add: b)
  have colon: "byte_at b (?k + length (e_w1 e)) = Some (CHR 0x3A)"
    using byte_at_here [of "pre @ key_token e @ e_w1 e" "CHR 0x3A"] by (simp add: b add.assoc)
  obtain x t where xt: "e_value e = x # t" "\<not> is_ws_byte x" using json_text_hd wf by blast
  have w2: "skip_ws b (?k + length (e_w1 e) + 1) = length ?pv"
    using skip_ws_white [of "e_w2 e" "e_value e @ e_w3 e @ post"
        "pre @ key_token e @ e_w1 e @ [CHR 0x3A]"] wf xt by (simp add: b add.assoc)
  have "scan_value b (length ?pv) = Some (length ?pv + length (e_value e))"
    using scan_value_ends [of "e_value e" "e_w3 e @ post" ?pv] wf ends_here_white [OF _ post] by (simp add: b)
  moreover have "byte_at b (length pre) = Some QUOTE" by (simp add: b key_token_def)
  moreover have "slice b (length pre) ?k = key_token e" by (simp add: b slice_def)
  ultimately show ?thesis
    using s w1 colon w2 by (auto simp: scan_entry_def entry_key_def Let_def add.assoc split: option.splits)
qed

text \<open>Entries, each behind its comma.\<close>

definition following :: "entry list \<Rightarrow> string \<Rightarrow> string" where
  "following es rest = concat (map (\<lambda>e. CHR 0x2C # entry_text e) es) @ rest"

lemma following_simps [simp]:
  "following [] rest = rest" "following (e # es) rest = CHR 0x2C # e_w0 e @ entry_core e @ following es rest"
  by (simp_all add: following_def entry_text_def)

lemma following_ends: "ends_here rest \<Longrightarrow> ends_here (following es rest)"
  by (cases es) (auto simp: ends_here_def)

lemma keys_after_loop_step:
  assumes "white w" "wf_entry e" "ends_here post" "entry_key decode e = Some k"
    and b: "b = pre @ w @ CHR 0x2C # e_w0 e @ entry_core e @ post"
  shows "\<exists>pre'. b = pre' @ e_w3 e @ post \<and> keys_after_loop decode b (length pre) out = keys_after_loop decode b (length pre') (out @ [k])"
proof -
  let ?p = "pre @ w @ CHR 0x2C # e_w0 e"
  let ?pre' = "?p @ key_token e @ e_w1 e @ CHR 0x3A # e_w2 e @ e_value e"
  have "skip_ws b (length pre) = length (pre @ w)"
    using skip_ws_white [of w "CHR 0x2C # e_w0 e @ entry_core e @ post" pre] assms(1) b by simp
  moreover have "byte_at b (length (pre @ w)) = Some (CHR 0x2C)"
    using byte_at_here [of "pre @ w"] b by simp
  moreover have "skip_ws b (length (pre @ w) + 1) = length ?p"
    using skip_to_next_key [of e b "pre @ w" post] assms(2) b by simp
  moreover have "scan_entry decode b (length ?p) = Some (k, length ?pre')"
    using scan_entry_ends [of e post b ?p decode] assms(2,3,4) b by (simp add: add.assoc)
  ultimately have "keys_after_loop decode b (length pre) out = keys_after_loop decode b (length ?pre') (out @ [k])"
    by (subst keys_after_loop.simps) (simp add: Let_def)
  moreover have "b = ?pre' @ e_w3 e @ post" by (simp add: b entry_core_def)
  ultimately show ?thesis by blast
qed

lemma keys_after_loop_entries:
  "white w \<Longrightarrow> list_all wf_entry es \<Longrightarrow> ends_here rest \<Longrightarrow> map (entry_key decode) es = map Some ks \<Longrightarrow>
     b = pre @ w @ following es rest \<Longrightarrow>
     \<exists>pre' w'. white w' \<and> b = pre' @ w' @ rest \<and> keys_after_loop decode b (length pre) out = keys_after_loop decode b (length pre') (out @ ks)"
proof (induction es arbitrary: pre w out ks)
  case Nil
  then show ?case by (metis append_Nil2 following_simps(1) list.map_disc_iff)
next
  case (Cons e es)
  then obtain k ks' where ks: "ks = k # ks'" "entry_key decode e = Some k" "map (entry_key decode) es = map Some ks'" by auto
  from Cons.prems have e: "wf_entry e" "white (e_w3 e)" by (auto simp: wf_entry_def)
  from keys_after_loop_step [OF Cons.prems(1) e(1) following_ends [OF Cons.prems(3), of es] ks(2), of b pre out] Cons.prems(5)
  obtain pre' where pre': "b = pre' @ e_w3 e @ following es rest"
    "keys_after_loop decode b (length pre) out = keys_after_loop decode b (length pre') (out @ [k])" by auto
  from Cons.IH [OF e(2) _ Cons.prems(3) ks(3) pre'(1), of "out @ [k]"] Cons.prems(2) pre'(2) ks(1) show ?case by auto
qed

lemma keys_after_loop_extends: "set out \<subseteq> set (keys_after_loop decode b i out)"
proof (induction decode b i out rule: keys_after_loop.induct)
  case (1 decode b i out)
  then show ?case by (subst keys_after_loop.simps) (fastforce simp: Let_def split: option.splits)
qed

lemma skip_ws_dropWhile: "skip_ws (pre @ s) (length pre) = length pre + length (takeWhile is_ws_byte s)"
proof (induction s arbitrary: pre)
  case (Cons c s)
  from Cons.IH [of "pre @ [c]"] show ?case by (simp add: skip_ws.simps [of _ "length pre"])
qed (simp add: skip_ws.simps)

lemma keys_after_loop_stop:
  assumes "\<And>rest'. dropWhile is_ws_byte s \<noteq> CHR 0x2C # rest'"
  shows "keys_after_loop decode (pre @ s) (length pre) out = out"
proof -
  have "byte_at (pre @ s) (length pre + length (takeWhile is_ws_byte s)) \<noteq> Some (CHR 0x2C)"
  proof (cases "dropWhile is_ws_byte s")
    case Nil
    have "length (takeWhile is_ws_byte s) = length s"
      using Nil by (metis append_Nil2 takeWhile_dropWhile_id)
    then show ?thesis unfolding byte_at_def by simp
  next
    case (Cons c s')
    then have s: "s = takeWhile is_ws_byte s @ c # s'" by (metis takeWhile_dropWhile_id)
    have "byte_at ((pre @ takeWhile is_ws_byte s) @ c # s') (length (pre @ takeWhile is_ws_byte s)) = Some c"
      by (rule byte_at_here)
    with s have "byte_at (pre @ s) (length pre + length (takeWhile is_ws_byte s)) = Some c"
      by (metis append_assoc length_append)
    then show ?thesis using Cons assms by auto
  qed
  then show ?thesis by (subst keys_after_loop.simps) (simp add: skip_ws_dropWhile Let_def)
qed

text \<open>After a cut the walk reports every readable entry, and nothing else where the readable entries
  are not followed by a comma.\<close>

lemma keys_after_following:
  assumes "white w" "list_all wf_entry es" "ends_here rest" "map (entry_key decode) es = map Some ks"
    and b: "b = pre @ w @ following es rest"
  shows "set ks \<subseteq> set (keys_after decode b (length pre))"
    and "(\<And>rest'. dropWhile is_ws_byte rest \<noteq> CHR 0x2C # rest') \<Longrightarrow> keys_after decode b (length pre) = ks"
proof -
  from keys_after_loop_entries [OF assms(1-4) b, of "[]"] obtain pre' w' where
    w': "white w'" "b = pre' @ w' @ rest" "keys_after decode b (length pre) = keys_after_loop decode b (length pre') ks"
    by (auto simp: keys_after_def)
  show "set ks \<subseteq> set (keys_after decode b (length pre))" unfolding w'(3) by (rule keys_after_loop_extends)
  assume "\<And>rest'. dropWhile is_ws_byte rest \<noteq> CHR 0x2C # rest'"
  moreover have "dropWhile is_ws_byte (w' @ rest) = dropWhile is_ws_byte rest"
    using w'(1) by (auto simp: white_def list_all_iff dropWhile_append1 dropWhile_append2)
  ultimately show "keys_after decode b (length pre) = ks"
    unfolding w'(3) using w'(2) keys_after_loop_stop [of "w' @ rest" decode pre' ks] by simp
qed

section \<open>Agreement with the stream walk\<close>

text \<open>The events the parser's stream yields for a list of entries: every key decoded, every value
  consumed, duplicates included.\<close>

fun entry_events :: "string list \<Rightarrow> map_event list" where
  "entry_events [] = []"
| "entry_events (k # ks) = NextKey k # ValueConsumed # entry_events ks"

lemma visit_entry_events: "visit_map key n (entry_events ks) = Some (n + count_list ks key)"
  by (induction ks arbitrary: n) auto

lemma those_eq_Some: "those xs = Some ys \<longleftrightarrow> xs = map Some ys"
  by (induction xs arbitrary: ys) (auto split: option.splits)

lemma filter_hits:
  "map f es = map Some ks \<Longrightarrow> length (filter (\<lambda>e. f e = Some key) es) = count_list ks key"
proof (induction es arbitrary: ks)
  case (Cons e es)
  then obtain k ks' where "ks = k # ks'" "f e = Some k" "map f es = map Some ks'" by auto
  with Cons.IH [of ks'] show ?case by auto
qed simp

text \<open>The two counting mechanisms agree: where the parser's stream yields every entry of an
  object document (the premise the source pins), the stream count is the number of spans, and both
  are the number of occurrences of the key in the list of depth-1 keys.\<close>

theorem key_count_matches_spans:
  assumes "white w" "list_all wf_entry (e # es)"
    and keys: "those (map (entry_key decode) (e # es)) = Some ks"
    and stream: "map_stream (object_text w (e # es) rest) = Some (entry_events ks)"
  shows "top_level_key_count map_stream (object_text w (e # es) rest) key
           = length (top_level_key_spans decode (object_text w (e # es) rest) key)
       \<and> depth1_keys decode (object_text w (e # es) rest) = Some ks
       \<and> top_level_key_count map_stream (object_text w (e # es) rest) key = count_list ks key"
proof -
  let ?b = "object_text w (e # es) rest"
  note sc = scanners_object [OF assms(1,2) refl, where decode = decode and rest = rest]
  have "length (top_level_key_spans decode ?b key) = length (filter (\<lambda>e. entry_key decode e = Some key) (e # es))"
    using arg_cong [where f = length, OF sc(1) [of key]] by (simp only: length_map)
  also have "\<dots> = count_list ks key"
    by (rule filter_hits) (use keys in \<open>simp only: those_eq_Some\<close>)
  finally show ?thesis
    using sc(2) keys stream by (simp add: top_level_key_count_def visit_entry_events)
qed

theorem key_count_matches_spans_witness:
  "top_level_key_count (\<lambda>_. Some (entry_events [''p'', ''p''])) (object_text []
      [\<lparr>e_w0 = [], e_key = ''p'', e_w1 = [], e_w2 = '' '', e_value = ''1'', e_w3 = []\<rparr>,
       \<lparr>e_w0 = [], e_key = ''p'', e_w1 = [], e_w2 = '' '', e_value = ''1'', e_w3 = []\<rparr>] []) ''p'' = 2"
  using key_count_matches_spans
    [of "[]" "\<lparr>e_w0 = [], e_key = ''p'', e_w1 = [], e_w2 = '' '', e_value = ''1'', e_w3 = []\<rparr>"
      "[\<lparr>e_w0 = [], e_key = ''p'', e_w1 = [], e_w2 = '' '', e_value = ''1'', e_w3 = []\<rparr>]"
      "\<lambda>_. None" "[''p'', ''p'']" "\<lambda>_. Some (entry_events [''p'', ''p''])" "[]" "''p''"] wf_entry_simple
  by (simp add: white_def entry_key_def key_token_def decode_key_def slice_def Let_def)

end
