(* ===== verification/Config.thy ===== *)
theory Config
  imports Json_Value
begin

text \<open>
  Configuration: the structures of \<^verbatim>\<open>llama-proxy/src/config/mod.rs\<close> and the predicates of
  \<^verbatim>\<open>validate.rs\<close>.

  A \<^verbatim>\<open>HashMap\<close> is an association list in its iteration order, which is unspecified, so every
  statement is for all orders. Parameters (record \<open>loader_env\<close>): the file system, the YAML parser,
  the URL parser, the parse of an IP literal, and the two library formatters used in messages.
\<close>

section \<open>Structures\<close>

record tls_config =
  accept_invalid_certs :: bool
  ca_cert_path :: "string option"
  client_cert_path :: "string option"
  client_key_path :: "string option"

record dump_config =
  dc_enabled :: bool
  dc_path :: string

record server_config =
  sc_port :: "16 word"
  sc_host :: string
  sc_max_concurrent_requests :: u64
  sc_allowed_origins :: "string list option"

record backend_config =
  bc_url :: string
  bc_timeout_seconds :: u64
  bc_tls :: "tls_config option"
  bc_model :: "string option"
  bc_api_key :: "string option"
  bc_strip_path_prefix :: "string option"

record backend_node_config =
  nc_url :: string
  nc_timeout_seconds :: u64
  nc_tls :: "tls_config option"
  nc_model :: "string option"
  nc_api_key :: "string option"
  nc_strip_path_prefix :: "string option"
  nc_temperature :: "f64 option"

record backend_group_config =
  gc_mappings :: "string list"
  gc_strategy :: string
  gc_failure_cooldown_secs :: u64
  gc_exclusive :: bool
  gc_nodes :: "backend_node_config list"

type_synonym backends_config = "(string \<times> backend_group_config) list"

record fix_module_config =
  fm_enabled :: bool
  fm_options :: "(string \<times> json) list"

record fixes_config =
  fc_enabled :: bool
  fc_modules :: "(string \<times> fix_module_config) list"

datatype stats_format = StatsPretty | StatsJson | StatsCompact

record stats_config =
  st_enabled :: bool
  st_format :: stats_format
  st_max_plausible_prefill_tps :: f64

datatype streaming_mode = Disabled | Fake | Passthrough

record synthesis_config =
  sy_chunk_delay_ms :: u64
  sy_chunk_size_chars :: u64

record augment_backend_config =
  ab_enabled :: bool
  ab_url :: string
  ab_model :: string
  ab_prompt_file :: string
  ab_request_prompt_file :: string
  ab_timeout_secs :: u64

record reprompt_config =
  rc_enabled :: bool
  rc_prompt_file :: "string option"
  rc_prompt :: "string option"
  rc_max_retries :: "32 word"
  rc_done_sentinels :: "string list"
  rc_dynamic_prompt :: bool
  rc_log_stop_responses :: bool
  rc_skip_read_only_requests :: bool
  rc_max_total_ms :: u64

record influxdb_config =
  ic_enabled :: bool
  ic_url :: string
  ic_org :: string
  ic_bucket :: string
  ic_token :: string

record app_config =
  ac_server :: server_config
  ac_backend :: "backend_config option"
  ac_backends :: "backends_config option"
  ac_fixes :: fixes_config
  ac_stats :: stats_config
  ac_influxdb :: influxdb_config
  ac_streaming :: streaming_mode
  ac_synthesis :: synthesis_config
  ac_augment_backend :: "augment_backend_config option"
  ac_reprompt :: "reprompt_config option"
  ac_dump :: dump_config

datatype config_error = NotFound string | ConfigIo string | ConfigParse string | Validation string

definition config_error_text :: "config_error \<Rightarrow> string" where
  "config_error_text e = (case e of
       NotFound s \<Rightarrow> ''Configuration file not found: '' @ s
     | ConfigIo s \<Rightarrow> ''Failed to read configuration file: '' @ s
     | ConfigParse s \<Rightarrow> ''Failed to parse configuration: '' @ s
     | Validation s \<Rightarrow> ''Configuration validation error: '' @ s)"

section \<open>Defaults and accessors\<close>

definition default_backend_config :: backend_config where
  "default_backend_config = \<lparr>bc_url = ''http://localhost:8080'', bc_timeout_seconds = 300, bc_tls = None,
     bc_model = None, bc_api_key = None, bc_strip_path_prefix = None\<rparr>"

definition backend_config_base_url :: "backend_config \<Rightarrow> string" where
  "backend_config_base_url c = trim_end_matches (CHR ''/'') (bc_url c)"

definition default_fixes_config :: fixes_config where
  "default_fixes_config = \<lparr>fc_enabled = True, fc_modules = []\<rparr>"

definition leftover_fix_module_options :: "fixes_config \<Rightarrow> (string \<times> string) list" where
  "leftover_fix_module_options c =
     sort_key fst (sort_key snd (concat (map (\<lambda>(m, cfg). map (\<lambda>(k, _). (m, k)) (fm_options cfg)) (fc_modules c))))"

text \<open>50000.0 as a bit pattern.\<close>

definition default_stats_config :: stats_config where
  "default_stats_config = \<lparr>st_enabled = True, st_format = StatsPretty,
     st_max_plausible_prefill_tps = 0x40E86A0000000000\<rparr>"

definition default_synthesis_config :: synthesis_config where
  "default_synthesis_config = \<lparr>sy_chunk_delay_ms = 0, sy_chunk_size_chars = 2000\<rparr>"

definition default_augment_backend_config :: augment_backend_config where
  "default_augment_backend_config = \<lparr>ab_enabled = False, ab_url = [], ab_model = [],
     ab_prompt_file = ''./augmenter/backend_prompt.md'',
     ab_request_prompt_file = ''./augmenter/request_prompt.md'', ab_timeout_secs = 15\<rparr>"

definition default_reprompt_config :: reprompt_config where
  "default_reprompt_config = \<lparr>rc_enabled = False, rc_prompt_file = None, rc_prompt = None,
     rc_max_retries = 3, rc_done_sentinels = [''DONE''], rc_dynamic_prompt = True,
     rc_log_stop_responses = False, rc_skip_read_only_requests = True, rc_max_total_ms = 30000\<rparr>"

definition default_influxdb_config :: influxdb_config where
  "default_influxdb_config = \<lparr>ic_enabled = False, ic_url = ''http://localhost:8086'', ic_org = ''my-org'',
     ic_bucket = ''llama-metrics'', ic_token = []\<rparr>"

fun is_disabled :: "streaming_mode \<Rightarrow> bool" where
  "is_disabled Disabled = True" | "is_disabled _ = False"

fun is_fake :: "streaming_mode \<Rightarrow> bool" where
  "is_fake Fake = True" | "is_fake _ = False"

fun is_passthrough :: "streaming_mode \<Rightarrow> bool" where
  "is_passthrough Passthrough = True" | "is_passthrough _ = False"

fun mode_as_str :: "streaming_mode \<Rightarrow> string" where
  "mode_as_str Disabled = ''disabled''"
| "mode_as_str Fake = ''fake''"
| "mode_as_str Passthrough = ''passthrough''"

fun effective_label :: "streaming_mode \<Rightarrow> string" where
  "effective_label Fake = ''backend JSON, synthesized SSE''"
| "effective_label Passthrough = ''backend SSE, verbatim (OpenAI path only)''"
| "effective_label Disabled = ''backend JSON, synthesized SSE (reserved: disabled)''"

text \<open>\<^verbatim>\<open>str::to_lowercase\<close> is Unicode-aware: \<open>lower\<close> is a parameter.\<close>

definition from_str_mode :: "(string \<Rightarrow> string) \<Rightarrow> string \<Rightarrow> streaming_mode option" where
  "from_str_mode lower s =
     (if lower s = ''disabled'' then Some Disabled
      else if lower s = ''fake'' then Some Fake
      else if lower s = ''passthrough'' then Some Passthrough
      else None)"

abbreviation APOS :: string where "APOS \<equiv> [CHR 0x27]"

definition resolve_mode ::
  "(string \<Rightarrow> string) \<Rightarrow> string option \<Rightarrow> streaming_mode \<Rightarrow> (streaming_mode, string) result" where
  "resolve_mode lower cli config_value = (case cli of
       Some raw \<Rightarrow> (case from_str_mode lower raw of
           Some m \<Rightarrow> Ok m
         | None \<Rightarrow> Err (''Invalid streaming mode: '' @ raw @ ''. Use '' @ APOS @ ''disabled'' @ APOS @ '', ''
                       @ APOS @ ''fake'' @ APOS @ '', or '' @ APOS @ ''passthrough'' @ APOS @ ''.''))
     | None \<Rightarrow> Ok config_value)"

text \<open>\<^verbatim>\<open>deserialize_string_or_vec\<close> over a parsed value: a string or a sequence of strings.\<close>

definition string_or_vec :: "json \<Rightarrow> string list option" where
  "string_or_vec v = (case v of
       JStr s \<Rightarrow> Some [s]
     | JArr xs \<Rightarrow> those (map as_str xs)
     | _ \<Rightarrow> None)"

section \<open>Predicates\<close>

record url_parts =
  url_scheme :: string
  url_host :: "string option"

record loader_env =
  path_exists :: "string \<Rightarrow> bool"
  read_to_string :: "string \<Rightarrow> (string, string) result"
  parse_yaml :: "string \<Rightarrow> (app_config, string) result"
  parse_url :: "string \<Rightarrow> (url_parts, string) result"
  parses_as_ip :: "string \<Rightarrow> bool"
  show_f64 :: "f64 \<Rightarrow> string"
  debug_str :: "string \<Rightarrow> string"

definition u64_text :: "u64 \<Rightarrow> string" where "u64_text n = digits (unat n)"

definition is_ascii_alphanumeric :: "char \<Rightarrow> bool" where
  "is_ascii_alphanumeric c = (let n = (of_char c :: nat) in
     (48 \<le> n \<and> n \<le> 57) \<or> (65 \<le> n \<and> n \<le> 90) \<or> (97 \<le> n \<and> n \<le> 122))"

definition is_label :: "string \<Rightarrow> bool" where
  "is_label l = (l \<noteq> [] \<and> length l \<le> 63 \<and> is_ascii_alphanumeric (hd l) \<and> is_ascii_alphanumeric (last l)
     \<and> list_all (\<lambda>c. is_ascii_alphanumeric c \<or> c = CHR ''-'') l)"

definition is_rfc1123_hostname :: "string \<Rightarrow> bool" where
  "is_rfc1123_hostname host =
     (let trimmed = some_or (strip_suffix host ''.'') host in
      if trimmed = [] \<or> length trimmed > 255 then False
      else list_all is_label (split_on (CHR ''.'') trimmed))"

definition validate_bind_host :: "loader_env \<Rightarrow> string \<Rightarrow> (unit, config_error) result" where
  "validate_bind_host env host =
     (let stripped = some_or (Option.bind (strip_prefix host ''['') (\<lambda>h. strip_suffix h '']'')) host in
      if parses_as_ip env stripped then Ok ()
      else if is_rfc1123_hostname stripped then Ok ()
      else Err (Validation (''server host '' @ APOS @ host @ APOS
             @ '' is neither an IP address nor a valid RFC-1123 hostname'')))"

definition validate_http_url :: "loader_env \<Rightarrow> string \<Rightarrow> string \<Rightarrow> (unit, config_error) result" where
  "validate_http_url env url label = (case parse_url env url of
       Inl e \<Rightarrow> Err (Validation (''Invalid '' @ label @ '' URL '' @ APOS @ url @ APOS @ '': '' @ e))
     | Inr parsed \<Rightarrow>
         if url_scheme parsed \<noteq> ''http'' \<and> url_scheme parsed \<noteq> ''https''
         then Err (Validation (label @ '' URL must use http:// or https://, got '' @ APOS @ url_scheme parsed @ APOS))
         else if is_none_or (\<lambda>h. h = []) (url_host parsed)
         then Err (Validation (label @ '' URL must include a host: '' @ APOS @ url @ APOS))
         else Ok ())"

text \<open>Binary64 tests on the bit pattern: a finite value has an exponent other than all ones; the
  values between 0.0 and 2.0 are -0.0 and the patterns up to that of 2.0.\<close>

unbundle bit_operations_syntax

definition f64_is_finite :: "f64 \<Rightarrow> bool" where
  "f64_is_finite t = (t AND 0x7FF0000000000000 \<noteq> 0x7FF0000000000000)"

definition in_0_2 :: "f64 \<Rightarrow> bool" where
  "in_0_2 t = (t = 0x8000000000000000 \<or> t \<le> 0x4000000000000000)"

definition validate_temperature :: "loader_env \<Rightarrow> f64 \<Rightarrow> string \<Rightarrow> (unit, config_error) result" where
  "validate_temperature env t place =
     (if \<not> f64_is_finite t
      then Err (Validation (place @ '' temperature '' @ show_f64 env t @ '' is not a finite number''))
      else if \<not> in_0_2 t
      then Err (Validation (place @ '' temperature '' @ show_f64 env t @ '' is outside the valid range 0..=2''))
      else Ok ())"

definition require_nonempty :: "string \<Rightarrow> string \<Rightarrow> (unit, config_error) result" where
  "require_nonempty value what =
     (if value = [] then Err (Validation (what @ '' must not be empty'')) else Ok ())"

text \<open>Run a check over a list, stopping at the first error.\<close>

fun check_all :: "('a \<Rightarrow> (unit, 'e) result) \<Rightarrow> 'a list \<Rightarrow> (unit, 'e) result" where
  "check_all f [] = Ok ()"
| "check_all f (x # xs) = (case f x of Inl e \<Rightarrow> Inl e | Inr _ \<Rightarrow> check_all f xs)"

definition is_control_byte :: "char \<Rightarrow> bool" where
  "is_control_byte c = ((of_char c :: nat) < 32 \<or> (of_char c :: nat) = 127)"

definition validate_origin :: "loader_env \<Rightarrow> string \<Rightarrow> (unit, config_error) result" where
  "validate_origin env entry =
     (if entry = [] then Err (Validation ''server.allowed_origins contains an empty entry'')
      else if list_ex (\<lambda>c. length c = 1 \<and> is_control_byte (hd c)) (chars entry)
      then Err (Validation (''server.allowed_origins entry '' @ debug_str env entry
             @ '' contains control characters; it would be echoed as a response header''))
      else if list_ex is_whitespace (chars entry)
      then Err (Validation (''server.allowed_origins entry '' @ debug_str env entry
             @ '' contains whitespace; origins are exact tokens like '' @ APOS @ ''https://app.example'' @ APOS))
      else if entry = ''*''
      then Err (Validation (''server.allowed_origins contains '' @ APOS @ ''*'' @ APOS
             @ ''; it is not an exact origin '' @ [CHR 0xE2, CHR 0x80, CHR 0x94]
             @ '' omit allowed_origins to allow every origin''))
      else Ok ())"

definition validate_allowed_origins :: "loader_env \<Rightarrow> string list \<Rightarrow> (unit, config_error) result" where
  "validate_allowed_origins env origins = check_all (validate_origin env) origins"

definition MAX_TIMEOUT_SECONDS :: u64 where "MAX_TIMEOUT_SECONDS = 86400"
definition MAX_FAILURE_COOLDOWN_SECS :: u64 where "MAX_FAILURE_COOLDOWN_SECS = 86400"
definition MAX_REPROMPT_TOTAL_MS :: u64 where "MAX_REPROMPT_TOTAL_MS = 3600000"
definition MAX_CHUNK_DELAY_MS :: u64 where "MAX_CHUNK_DELAY_MS = 60000"
definition MIN_CHUNK_SIZE_CHARS :: u64 where "MIN_CHUNK_SIZE_CHARS = 1"

definition reject_over :: "string \<Rightarrow> u64 \<Rightarrow> u64 \<Rightarrow> (unit, config_error) result" where
  "reject_over name value maximum =
     (if value > maximum
      then Err (Validation (name @ '' '' @ u64_text value @ '' exceeds the supported maximum '' @ u64_text maximum))
      else Ok ())"

definition validate_timeout_seconds :: "u64 \<Rightarrow> string \<Rightarrow> (unit, config_error) result" where
  "validate_timeout_seconds secs place = reject_over (place @ '' timeout_seconds'') secs MAX_TIMEOUT_SECONDS"

definition validate_failure_cooldown_secs :: "u64 \<Rightarrow> string \<Rightarrow> (unit, config_error) result" where
  "validate_failure_cooldown_secs secs name =
     reject_over (''Backend group '' @ APOS @ name @ APOS @ '' failure_cooldown_secs'') secs MAX_FAILURE_COOLDOWN_SECS"

definition validate_reprompt_max_total_ms :: "u64 \<Rightarrow> (unit, config_error) result" where
  "validate_reprompt_max_total_ms ms = reject_over ''reprompt max_total_ms'' ms MAX_REPROMPT_TOTAL_MS"

definition validate_synthesis :: "synthesis_config \<Rightarrow> (unit, config_error) result" where
  "validate_synthesis synth =
     (case reject_over ''synthesis chunk_delay_ms'' (sy_chunk_delay_ms synth) MAX_CHUNK_DELAY_MS of
        Inl e \<Rightarrow> Err e
      | Inr _ \<Rightarrow>
          if sy_chunk_size_chars synth < MIN_CHUNK_SIZE_CHARS
          then Err (Validation ''synthesis chunk_size_chars must be at least 1; 0 emits one chunk per character'')
          else Ok ())"

end
