(* ===== verification/Backend_Node.thy ===== *)
theory Backend_Node
  imports Config
begin

text \<open>
  The runtime handle of one backend node, \<^verbatim>\<open>llama-proxy/src/backends/node.rs\<close>: failure cooldown,
  URL and path building, authorisation and the HTTP client factory.

  An \<^verbatim>\<open>Instant\<close> and a \<^verbatim>\<open>Duration\<close> are nanosecond counts; the last instant the platform's clock
  can represent is the parameter \<open>clock_max\<close>. The client type \<open>'c\<close> and the functions that read
  files and build a client belong to the standard library's file system and to \<^verbatim>\<open>reqwest\<close>. The
  atomics are plain fields here; interleavings of the operations that race on them are the subject
  of \<open>Priority_Free_Concurrent\<close>.
\<close>

type_synonym instant = nat
type_synonym duration = nat

definition NANOS :: nat where "NANOS = 1000000000"

definition from_secs :: "u64 \<Rightarrow> duration" where "from_secs s = unat s * NANOS"

definition CONNECT_TIMEOUT :: duration where "CONNECT_TIMEOUT = from_secs 5"

definition COOLDOWN_CLAMP_CAP :: duration where "COOLDOWN_CLAMP_CAP = from_secs (24 * 60 * 60)"

record 'c backend_node =
  n_url :: string
  n_model :: "string option"
  n_api_key :: "string option"
  n_timeout_seconds :: u64
  n_http_client :: 'c
  active_requests :: u64
  n_strip_path_prefix :: "string option"
  n_temperature :: "f64 option"
  healthy :: bool
  cooldown_until :: instant

section \<open>The client factory\<close>

text \<open>What the builder has been told before \<^verbatim>\<open>build()\<close>.\<close>

record ('cert, 'ident) client_builder =
  cb_timeout :: duration
  cb_connect_timeout :: duration
  cb_pool_max_idle :: nat
  cb_danger_accept :: bool
  cb_root :: "'cert option"
  cb_identity :: "'ident option"

record ('cert, 'ident, 'c, 'e) client_env =
  read_file :: "string \<Rightarrow> (string, 'e) result"
  certificate_from_pem :: "string \<Rightarrow> ('cert, 'e) result"
  identity_from_pem :: "string \<Rightarrow> ('ident, 'e) result"
  build_client :: "('cert, 'ident) client_builder \<Rightarrow> ('c, 'e) result"

definition and_then :: "('a, 'e) result \<Rightarrow> ('a \<Rightarrow> ('b, 'e) result) \<Rightarrow> ('b, 'e) result" where
  "and_then r f = (case r of Inl e \<Rightarrow> Inl e | Inr v \<Rightarrow> f v)"

lemma and_then_simps [simp]: "and_then (Inl e) f = Inl e" "and_then (Inr v) f = f v"
  by (simp_all add: and_then_def)

lemma and_then_Ok_iff: "and_then r f = Inr y \<longleftrightarrow> (\<exists>x. r = Inr x \<and> f x = Inr y)"
  by (cases r) auto

definition load_ca ::
  "('cert, 'ident, 'c, 'e) client_env \<Rightarrow> tls_config \<Rightarrow> ('cert, 'ident) client_builder \<Rightarrow> (('cert, 'ident) client_builder, 'e) result" where
  "load_ca env tls cb = (case ca_cert_path tls of
       None \<Rightarrow> Ok cb
     | Some p \<Rightarrow> and_then (read_file env p) (\<lambda>pem.
         and_then (certificate_from_pem env pem) (\<lambda>cert. Ok (cb\<lparr>cb_root := Some cert\<rparr>))))"

definition load_identity ::
  "('cert, 'ident, 'c, 'e) client_env \<Rightarrow> tls_config \<Rightarrow> ('cert, 'ident) client_builder \<Rightarrow> (('cert, 'ident) client_builder, 'e) result" where
  "load_identity env tls cb = (case (client_cert_path tls, client_key_path tls) of
       (Some cp, Some kp) \<Rightarrow> and_then (read_file env cp) (\<lambda>cert_pem.
         and_then (read_file env kp) (\<lambda>key_pem.
         and_then (identity_from_pem env (cert_pem @ key_pem)) (\<lambda>ident. Ok (cb\<lparr>cb_identity := Some ident\<rparr>))))
     | _ \<Rightarrow> Ok cb)"

definition build_node_client ::
  "('cert, 'ident, 'c, 'e) client_env \<Rightarrow> u64 \<Rightarrow> tls_config option \<Rightarrow> ('c, 'e) result" where
  "build_node_client env timeout_seconds tls =
     (let cb = \<lparr>cb_timeout = from_secs timeout_seconds, cb_connect_timeout = CONNECT_TIMEOUT,
                cb_pool_max_idle = 10, cb_danger_accept = False, cb_root = None, cb_identity = None\<rparr> in
      and_then (case tls of
          None \<Rightarrow> Ok cb
        | Some t \<Rightarrow>
            (let cb1 = (if accept_invalid_certs t then cb\<lparr>cb_danger_accept := True\<rparr> else cb) in
             and_then (load_ca env t cb1) (load_identity env t)))
        (build_client env))"

definition node_from_config ::
  "('cert, 'ident, 'c, 'e) client_env \<Rightarrow> instant \<Rightarrow> string \<Rightarrow> u64 \<Rightarrow> tls_config option \<Rightarrow> string option \<Rightarrow> string option
     \<Rightarrow> string option \<Rightarrow> f64 option \<Rightarrow> ('c backend_node, 'e) result" where
  "node_from_config env now url timeout tls model api_key strip temp =
     and_then (build_node_client env timeout tls) (\<lambda>client. Ok
       \<lparr>n_url = url, n_model = model, n_api_key = api_key, n_timeout_seconds = timeout,
        n_http_client = client, active_requests = 0, n_strip_path_prefix = strip, n_temperature = temp,
        healthy = True, cooldown_until = now\<rparr>)"

section \<open>Health\<close>

definition checked_add :: "instant \<Rightarrow> instant \<Rightarrow> duration \<Rightarrow> instant option" where
  "checked_add clock_max t d = (if t + d \<le> clock_max then Some (t + d) else None)"

definition mark_failed :: "instant \<Rightarrow> instant \<Rightarrow> duration \<Rightarrow> 'c backend_node \<Rightarrow> 'c backend_node" where
  "mark_failed clock_max now cooldown n =
     (let expiry = (case checked_add clock_max now cooldown of
                      Some t \<Rightarrow> t
                    | None \<Rightarrow> some_or (checked_add clock_max now COOLDOWN_CLAMP_CAP) now)
      in n\<lparr>cooldown_until := expiry, healthy := False\<rparr>)"

definition mark_healthy :: "'c backend_node \<Rightarrow> 'c backend_node" where
  "mark_healthy n = n\<lparr>healthy := True\<rparr>"

definition cooldown_expiry :: "'c backend_node \<Rightarrow> instant" where
  "cooldown_expiry n = cooldown_until n"

definition in_cooldown :: "instant \<Rightarrow> 'c backend_node \<Rightarrow> bool" where
  "in_cooldown now n = (\<not> healthy n \<and> now < cooldown_until n)"

text \<open>\<^verbatim>\<open>min_by_key\<close> keeps the first minimum; on an empty slice \<^verbatim>\<open>expect\<close> panics (\<open>None\<close>).\<close>

fun min_index_by :: "('a \<Rightarrow> nat) \<Rightarrow> 'a list \<Rightarrow> nat option" where
  "min_index_by f [] = None"
| "min_index_by f (x # xs) = (case min_index_by f xs of
       None \<Rightarrow> Some 0
     | Some i \<Rightarrow> if f x \<le> f (xs ! i) then Some 0 else Some (Suc i))"

definition soonest_recovering_node :: "'c backend_node list \<Rightarrow> nat option" where
  "soonest_recovering_node nodes = min_index_by cooldown_expiry nodes"

lemma min_index_by_Some:
  "min_index_by f xs = Some i \<Longrightarrow>
     i < length xs \<and> (\<forall>j < length xs. f (xs ! i) \<le> f (xs ! j)) \<and> (\<forall>j < i. f (xs ! i) < f (xs ! j))"
proof (induction xs arbitrary: i)
  case (Cons x xs)
  show ?case
  proof (cases "min_index_by f xs")
    case None
    then have "xs = []" by (cases xs) (auto split: option.splits if_splits)
    with Cons.prems show ?thesis by simp
  next
    case (Some k)
    note k = Cons.IH [OF this]
    show ?thesis
    proof (cases "f x \<le> f (xs ! k)")
      case True
      with Some Cons.prems have "i = 0" by simp
      moreover have "f x \<le> f ((x # xs) ! j)" if "j < length (x # xs)" for j
        using that k True by (cases j) (auto intro: order_trans)
      ultimately show ?thesis by simp
    next
      case False
      with Some Cons.prems have i: "i = Suc k" by simp
      have "f (xs ! k) \<le> f ((x # xs) ! j)" if "j < length (x # xs)" for j
        using that k False by (cases j) auto
      moreover have "f (xs ! k) < f ((x # xs) ! j)" if "j < Suc k" for j
        using that k False by (cases j) auto
      ultimately show ?thesis using i k by simp
    qed
  qed
qed simp

lemma min_index_by_defined: "(\<exists>i. min_index_by f xs = Some i) \<longleftrightarrow> xs \<noteq> []"
  by (cases xs) (auto split: option.splits)

lemma soonest_recovering_Some:
  "soonest_recovering_node nodes = Some i \<Longrightarrow>
     i < length nodes \<and> (\<forall>j < length nodes. cooldown_until (nodes ! i) \<le> cooldown_until (nodes ! j))"
  by (auto simp: soonest_recovering_node_def cooldown_expiry_def dest!: min_index_by_Some)

lemma soonest_recovering_defined: "nodes \<noteq> [] \<Longrightarrow> \<exists>i. soonest_recovering_node nodes = Some i"
  by (simp add: soonest_recovering_node_def min_index_by_defined)

text \<open>The window a failure opens: from the failure on, for the requested duration where the clock
  can represent its end; else capped at a day; and the capped instant is always representable.\<close>

definition failure_window :: "instant \<Rightarrow> instant \<Rightarrow> duration \<Rightarrow> instant" where
  "failure_window clock_max now d =
     (if now + d \<le> clock_max then now + d
      else if now + COOLDOWN_CLAMP_CAP \<le> clock_max then now + COOLDOWN_CLAMP_CAP else now)"

lemma mark_failed_until [simp]:
  "cooldown_until (mark_failed clock_max now d n) = failure_window clock_max now d"
  "healthy (mark_failed clock_max now d n) = False"
  "active_requests (mark_failed clock_max now d n) = active_requests n"
  by (auto simp: mark_failed_def failure_window_def checked_add_def Let_def)

lemma mark_healthy_simps [simp]:
  "cooldown_until (mark_healthy n) = cooldown_until n" "healthy (mark_healthy n)"
  "active_requests (mark_healthy n) = active_requests n"
  by (auto simp: mark_healthy_def)

section \<open>URLs and authorisation\<close>

definition base_url :: "'c backend_node \<Rightarrow> string" where
  "base_url n = trim_end_matches (CHR ''/'') (n_url n)"

definition strip_at_segment_boundary :: "string \<Rightarrow> string \<Rightarrow> string" where
  "strip_at_segment_boundary path prefix = (case strip_prefix path prefix of
       None \<Rightarrow> path
     | Some rest \<Rightarrow> if rest = [] \<or> starts_with rest ''/'' \<or> ends_with prefix ''/'' then rest else path)"

definition effective_path :: "'c backend_node \<Rightarrow> string \<Rightarrow> string" where
  "effective_path n path = (case n_strip_path_prefix n of
       Some prefix \<Rightarrow> strip_at_segment_boundary path prefix
     | None \<Rightarrow> path)"

definition node_url :: "string \<Rightarrow> string \<Rightarrow> string option \<Rightarrow> string" where
  "node_url base path prefix =
     base @ (case prefix of Some p \<Rightarrow> strip_at_segment_boundary path p | None \<Rightarrow> path)"

text \<open>A request is seen through its header list.\<close>

definition with_auth :: "(string \<times> string) list \<Rightarrow> string option \<Rightarrow> (string \<times> string) list" where
  "with_auth headers api_key = (case api_key of
       Some key \<Rightarrow> headers @ [(''authorization'', ''Bearer '' @ key)]
     | None \<Rightarrow> headers)"

lemma strip_at_segment_boundary_cases:
  "strip_at_segment_boundary path prefix = path \<or> path = prefix @ strip_at_segment_boundary path prefix"
  by (auto simp: strip_at_segment_boundary_def strip_prefix_Some_iff split: option.splits)

section \<open>Properties\<close>

text \<open>C7. The failure window: after a failure the node is excluded exactly from then until the end of
  the requested cooldown where the clock can represent it, and until a day later where it cannot;
  the end never passes the clock's last instant, a zero cooldown excludes at no time, a later
  failure re-arms the window from itself, and a success ends it at once.\<close>

theorem cooldown_window:
  assumes "now \<le> clock_max"
  shows "(\<forall>t. in_cooldown t (mark_failed clock_max now d n) \<longleftrightarrow> t < failure_window clock_max now d)
    \<and> now \<le> failure_window clock_max now d \<and> failure_window clock_max now d \<le> clock_max
    \<and> (now + d \<le> clock_max \<longrightarrow> failure_window clock_max now d = now + d)
    \<and> (\<not> now + d \<le> clock_max \<longrightarrow> failure_window clock_max now d \<le> now + COOLDOWN_CLAMP_CAP)
    \<and> (\<forall>t \<ge> now. \<not> in_cooldown t (mark_failed clock_max now 0 n))
    \<and> mark_failed clock_max now d (mark_failed clock_max earlier d' n) = mark_failed clock_max now d n
    \<and> (\<forall>t. \<not> in_cooldown t (mark_healthy (mark_failed clock_max now d n)))"
  using assms
  by (auto simp: in_cooldown_def failure_window_def mark_failed_def checked_add_def mark_healthy_def Let_def)

theorem cooldown_window_witness:
  "(5 :: nat) \<le> 100 \<and> failure_window 100 5 30 = 35 \<and> failure_window 100 5 30 \<le> 100"
  using cooldown_window [of 5 100 30 undefined 3 7] by (simp add: failure_window_def)

lemma split_on_append: "split_on c (a @ c # b) = split_on c a @ split_on c b"
proof (induction a)
  case Nil
  obtain p ps where "split_on c b = p # ps" using split_on_nonempty by (meson list.exhaust)
  then show ?case by simp
next
  case (Cons x a)
  obtain p ps where "split_on c a = p # ps" using split_on_nonempty by (meson list.exhaust)
  with Cons show ?case by simp
qed

definition segments :: "string \<Rightarrow> string list" where
  "segments path = filter (\<lambda>s. s \<noteq> []) (split_on (CHR ''/'') path)"

lemma segments_append: "segments (a @ CHR ''/'' # b) = segments a @ segments b"
  by (simp add: segments_def split_on_append)

text \<open>Prefix stripping works on whole path segments: the request URL is the base followed by a
  path whose segments are the last segments of the original path, none of them cut, and a path is
  only ever changed by removing the configured prefix from its front.\<close>

theorem node_url_whole_segments:
  "\<exists>path'. node_url base path (Some prefix) = base @ path'
     \<and> (\<exists>dropped. segments path = dropped @ segments path')
     \<and> (path' = path \<or> path = prefix @ path')
     \<and> (path = prefix \<longrightarrow> path' = [])
     \<and> (\<forall>rest. path = prefix @ CHR ''/'' # rest \<longrightarrow> path' = CHR ''/'' # rest)"
proof -
  let ?p = "strip_at_segment_boundary path prefix"
  have "\<exists>dropped. segments path = dropped @ segments ?p"
  proof (cases "?p = path")
    case False
    then obtain rest where r: "path = prefix @ rest" "?p = rest" "rest = [] \<or> starts_with rest ''/'' \<or> ends_with prefix ''/''"
      by (auto simp: strip_at_segment_boundary_def strip_prefix_Some_iff split: option.splits if_splits)
    from r(3) show ?thesis
    proof (elim disjE)
      assume "rest = []"
      with r show ?thesis by (simp add: segments_def)
    next
      assume "starts_with rest ''/''"
      then obtain q where "rest = CHR ''/'' # q" by (auto simp: starts_with_iff)
      with r segments_append [of prefix q] segments_append [of "[]" q] show ?thesis
        by (simp add: segments_def)
    next
      assume "ends_with prefix ''/''"
      then obtain q where "prefix = q @ ''/''" by (auto simp: ends_with_iff)
      with r segments_append [of q rest] show ?thesis by simp
    qed
  qed simp
  moreover have "\<forall>rest. path = prefix @ CHR ''/'' # rest \<longrightarrow> ?p = CHR ''/'' # rest"
    by (auto simp: strip_at_segment_boundary_def strip_prefix_def starts_with_def)
  moreover have "path = prefix \<longrightarrow> ?p = []"
    by (auto simp: strip_at_segment_boundary_def strip_prefix_def starts_with_def)
  ultimately show ?thesis using strip_at_segment_boundary_cases [of path prefix] by (auto simp: node_url_def)
qed

theorem node_url_whole_segments_witness:
  "node_url ''http://h'' ''/v1/models'' (Some ''/v1'') = ''http://h/models''"
  using node_url_whole_segments [of "''http://h''" "''/v1/models''" "''/v1''"] by auto

end
