(* ===== verification/Balancers.thy ===== *)
theory Balancers
  imports Backend_Node
begin

text \<open>
  Load balancing, \<^verbatim>\<open>llama-proxy/src/backends/\<close>: the claim and release of a busy slot
  (\<^verbatim>\<open>balancer.rs\<close>), the two strategies (\<^verbatim>\<open>round_robin.rs\<close>, \<^verbatim>\<open>priority_free.rs\<close>) and the
  strategy factory (\<^verbatim>\<open>mod.rs\<close>).

  A strategy's state holds its nodes; a guard names the claimed node by its index. A panic is
  \<open>None\<close>. The strategies share the contract \<open>load_balancer\<close>; what a client may rely on (accounting
  over any sequence of selects and releases) is proved once there.
\<close>

section \<open>Claims\<close>

record guard =
  g_node :: nat
  group_name :: "string option"

text \<open>\<^verbatim>\<open>BackendGuard::new\<close> claims; \<^verbatim>\<open>from_claimed\<close> wraps a claim already recorded.\<close>

definition claim :: "'c backend_node \<Rightarrow> 'c backend_node" where
  "claim n = n\<lparr>active_requests := active_requests n + 1\<rparr>"

definition unclaim :: "'c backend_node \<Rightarrow> 'c backend_node" where
  "unclaim n = n\<lparr>active_requests := active_requests n - 1\<rparr>"

definition claim_at :: "nat \<Rightarrow> 'c backend_node list \<Rightarrow> 'c backend_node list" where
  "claim_at i nodes = nodes[i := claim (nodes ! i)]"

definition from_claimed :: "nat \<Rightarrow> guard" where
  "from_claimed i = \<lparr>g_node = i, group_name = None\<rparr>"

definition guard_new :: "nat \<Rightarrow> 'c backend_node list \<Rightarrow> guard \<times> 'c backend_node list" where
  "guard_new i nodes = (from_claimed i, claim_at i nodes)"

text \<open>\<^verbatim>\<open>BusyHandle::drop\<close>: the wrapped subtraction, undone when it took a counter below zero.\<close>

definition busy_drop :: "'c backend_node \<Rightarrow> 'c backend_node" where
  "busy_drop n = (let prev = active_requests n; n' = unclaim n in if prev = 0 then claim n' else n')"

definition busy_drop_at :: "nat \<Rightarrow> 'c backend_node list \<Rightarrow> 'c backend_node list" where
  "busy_drop_at i nodes = nodes[i := busy_drop (nodes ! i)]"

text \<open>The visit order: indices, from \<open>start\<close>, wrapping.\<close>

definition candidate_order :: "'a list \<Rightarrow> u64 \<Rightarrow> nat list" where
  "candidate_order nodes start =
     (let len = length nodes in map (\<lambda>step. (unat start mod len + step) mod len) [0..<len])"

section \<open>Round robin\<close>

record 'c round_robin =
  rr_nodes :: "'c backend_node list"
  rr_counter :: u64
  rr_all_cooled_fallbacks :: u64

definition round_robin_new :: "'c backend_node list \<Rightarrow> ('c round_robin, string) result" where
  "round_robin_new nodes =
     (if nodes = [] then Err ''RoundRobinBalancer requires at least one node''
      else Ok \<lparr>rr_nodes = nodes, rr_counter = 0, rr_all_cooled_fallbacks = 0\<rparr>)"

definition round_robin_select :: "instant \<Rightarrow> 'c round_robin \<Rightarrow> (guard \<times> 'c round_robin) option" where
  "round_robin_select now b =
     (let start = rr_counter b;
          b1 = b\<lparr>rr_counter := start + 1\<rparr> in
      case find (\<lambda>i. \<not> in_cooldown now (rr_nodes b ! i)) (candidate_order (rr_nodes b) start) of
        Some i \<Rightarrow> (let (g, ns) = guard_new i (rr_nodes b) in Some (g, b1\<lparr>rr_nodes := ns\<rparr>))
      | None \<Rightarrow>
          (let b2 = b1\<lparr>rr_all_cooled_fallbacks := rr_all_cooled_fallbacks b + 1\<rparr> in
           case soonest_recovering_node (rr_nodes b) of
             None \<Rightarrow> None
           | Some i \<Rightarrow> (let (g, ns) = guard_new i (rr_nodes b) in Some (g, b2\<lparr>rr_nodes := ns\<rparr>))))"

section \<open>Priority free\<close>

record 'c priority_free =
  pf_nodes :: "'c backend_node list"
  pf_all_cooled_fallbacks :: u64

definition priority_free_new :: "'c backend_node list \<Rightarrow> ('c priority_free, string) result" where
  "priority_free_new nodes =
     (if nodes = [] then Err ''PriorityFreeBalancer requires at least one node''
      else Ok \<lparr>pf_nodes = nodes, pf_all_cooled_fallbacks = 0\<rparr>)"

definition warn_all_cooled :: "'c priority_free \<Rightarrow> 'c priority_free" where
  "warn_all_cooled b = b\<lparr>pf_all_cooled_fallbacks := pf_all_cooled_fallbacks b + 1\<rparr>"

text \<open>The first loop: compare-and-swap 0 to 1 on the nodes that are not cooled, in order.\<close>

fun claim_free :: "instant \<Rightarrow> 'c backend_node list \<Rightarrow> nat list \<Rightarrow> (nat \<times> 'c backend_node list) option" where
  "claim_free now nodes [] = None"
| "claim_free now nodes (i # is) =
     (if in_cooldown now (nodes ! i) then claim_free now nodes is
      else if active_requests (nodes ! i) = 0
        then Some (i, nodes[i := (nodes ! i)\<lparr>active_requests := 1\<rparr>])
      else claim_free now nodes is)"

record reservation =
  best_idx :: "nat option"
  best_load :: u64
  reserved :: "nat list"

text \<open>The second loop: reserve every node that is not cooled, remembering the least loaded.\<close>

fun reserve :: "instant \<Rightarrow> nat list \<Rightarrow> 'c backend_node list \<Rightarrow> reservation \<Rightarrow> 'c backend_node list \<times> reservation" where
  "reserve now [] nodes r = (nodes, r)"
| "reserve now (i # is) nodes r =
     (if in_cooldown now (nodes ! i) then reserve now is nodes r
      else
        (let load = active_requests (nodes ! i);
             nodes' = claim_at i nodes;
             r1 = r\<lparr>reserved := reserved r @ [i]\<rparr>;
             r2 = (if load < best_load r then r1\<lparr>best_idx := Some i, best_load := load\<rparr> else r1)
         in reserve now is nodes' r2))"

text \<open>The release loop over the recorded indices, the winner excepted.\<close>

fun release_others :: "nat \<Rightarrow> nat list \<Rightarrow> 'c backend_node list \<Rightarrow> 'c backend_node list" where
  "release_others best [] nodes = nodes"
| "release_others best (i # is) nodes =
     release_others best is (if i \<noteq> best then nodes[i := unclaim (nodes ! i)] else nodes)"

definition priority_free_select :: "instant \<Rightarrow> 'c priority_free \<Rightarrow> (guard \<times> 'c priority_free) option" where
  "priority_free_select now b =
     (let order = candidate_order (pf_nodes b) 0 in
      case claim_free now (pf_nodes b) order of
        Some (i, nodes) \<Rightarrow> Some (from_claimed i, b\<lparr>pf_nodes := nodes\<rparr>)
      | None \<Rightarrow>
          (let (nodes, r) = reserve now order (pf_nodes b)
                              \<lparr>best_idx = None, best_load = - 1, reserved = []\<rparr> in
           case best_idx r of
             Some best \<Rightarrow> Some (from_claimed best, b\<lparr>pf_nodes := release_others best (reserved r) nodes\<rparr>)
           | None \<Rightarrow>
               (let b1 = warn_all_cooled b in
                case soonest_recovering_node nodes of
                  None \<Rightarrow> None
                | Some i \<Rightarrow> (let (g, ns) = guard_new i nodes in Some (g, b1\<lparr>pf_nodes := ns\<rparr>)))))"

section \<open>Strategies as values\<close>

datatype balancing_strategy = PriorityFree | RoundRobin

definition strategy_from_str :: "string \<Rightarrow> (balancing_strategy, string) result" where
  "strategy_from_str s =
     (if s = ''priority-free'' \<or> s = ''priority_free'' then Ok PriorityFree
      else if s = ''round-robin'' \<or> s = ''round_robin'' then Ok RoundRobin
      else Err (''Unknown load balancer strategy: '' @ [CHR 0x27] @ s @ [CHR 0x27]
                @ ''. Supported: priority-free, round-robin''))"

datatype 'c balancer = RR "'c round_robin" | PF "'c priority_free"

fun balancer_select :: "instant \<Rightarrow> 'c balancer \<Rightarrow> (guard \<times> 'c balancer) option" where
  "balancer_select now (RR b) = map_option (\<lambda>(g, b'). (g, RR b')) (round_robin_select now b)"
| "balancer_select now (PF b) = map_option (\<lambda>(g, b'). (g, PF b')) (priority_free_select now b)"

fun strategy_name :: "'c balancer \<Rightarrow> string" where
  "strategy_name (RR b) = ''round_robin''"
| "strategy_name (PF b) = ''priority_free''"

fun balancer_nodes :: "'c balancer \<Rightarrow> 'c backend_node list" where
  "balancer_nodes (RR b) = rr_nodes b"
| "balancer_nodes (PF b) = pf_nodes b"

fun set_balancer_nodes :: "'c backend_node list \<Rightarrow> 'c balancer \<Rightarrow> 'c balancer" where
  "set_balancer_nodes ns (RR b) = RR (b\<lparr>rr_nodes := ns\<rparr>)"
| "set_balancer_nodes ns (PF b) = PF (b\<lparr>pf_nodes := ns\<rparr>)"

definition build_balancer_for_group :: "'c backend_node list \<Rightarrow> string \<Rightarrow> ('c balancer, string) result" where
  "build_balancer_for_group nodes strategy =
     and_then (strategy_from_str strategy) (\<lambda>s. case s of
         PriorityFree \<Rightarrow> and_then (priority_free_new nodes) (\<lambda>b. Ok (PF b))
       | RoundRobin \<Rightarrow> and_then (round_robin_new nodes) (\<lambda>b. Ok (RR b)))"

definition build_balancer_from_single ::
  "('cert, 'ident, 'c, string) client_env \<Rightarrow> instant \<Rightarrow> string \<Rightarrow> u64 \<Rightarrow> tls_config option \<Rightarrow> string option
     \<Rightarrow> string option \<Rightarrow> string option \<Rightarrow> ('c balancer, string) result" where
  "build_balancer_from_single env now url timeout tls model api_key strip =
     and_then (node_from_config env now url timeout tls model api_key strip None) (\<lambda>n.
       and_then (round_robin_new [n]) (\<lambda>b. Ok (RR b)))"

section \<open>The contract of a strategy\<close>

definition all_cooled :: "instant \<Rightarrow> 'c backend_node list \<Rightarrow> bool" where
  "all_cooled now nodes = list_all (in_cooldown now) nodes"

text \<open>No counter at its maximum: the next claim does not wrap.\<close>

definition loads_bounded :: "'c backend_node list \<Rightarrow> bool" where
  "loads_bounded nodes = list_all (\<lambda>n. active_requests n < - 1) nodes"

lemma count_list_remove1: "count_list (remove1 i xs) j = count_list xs j - (if i = j then 1 else 0)"
  by (induction xs) auto

lemma active_claim [simp]: "active_requests (claim n) = active_requests n + 1"
  by (simp add: claim_def)

lemma unat_claim: "active_requests n < - 1 \<Longrightarrow> unat (active_requests n + 1) = Suc (unat (active_requests n))"
proof -
  assume "active_requests n < - 1"
  then have "1 + active_requests n \<noteq> 0" by (metis add.commute add_eq_0_iff order_less_irrefl)
  from unatSuc [OF this] show ?thesis by (simp add: add.commute)
qed

lemma busy_drop_positive: "active_requests n \<noteq> 0 \<Longrightarrow> busy_drop n = unclaim n"
  by (simp add: busy_drop_def Let_def)

lemma unat_busy_drop:
  "unat (active_requests n) \<noteq> 0 \<Longrightarrow> unat (active_requests (busy_drop n)) = unat (active_requests n) - 1"
  by (simp add: busy_drop_positive unclaim_def unat_minus_one unat_eq_0)

lemma unclaim_claim [simp]: "unclaim (claim n) = n"
  by (simp add: claim_def unclaim_def)

text \<open>What happens to a balancer over its life: selects, drops of the last handle of a guard, and
  the health marks the request path sets.\<close>

datatype balancer_event = Select instant | DropGuard nat | Fail nat instant instant duration | Recover nat

text \<open>A strategy picks an existing node, claims exactly that one once, picks a cooled node only
  when every node is cooled, and then the one that recovers first.\<close>

locale load_balancer =
  fixes select :: "instant \<Rightarrow> 's \<Rightarrow> (guard \<times> 's) option"
    and nodes :: "'s \<Rightarrow> 'c backend_node list"
    and set_nodes :: "'c backend_node list \<Rightarrow> 's \<Rightarrow> 's"
  assumes nodes_set_nodes: "nodes (set_nodes ns s) = ns"
    and select_total: "nodes s \<noteq> [] \<Longrightarrow> loads_bounded (nodes s) \<Longrightarrow> \<exists>g s'. select now s = Some (g, s')"
    and select_claims: "loads_bounded (nodes s) \<Longrightarrow> select now s = Some (g, s') \<Longrightarrow>
          g_node g < length (nodes s) \<and> nodes s' = claim_at (g_node g) (nodes s) \<and> group_name g = None"
    and select_healthy: "loads_bounded (nodes s) \<Longrightarrow> select now s = Some (g, s') \<Longrightarrow>
          \<not> all_cooled now (nodes s) \<Longrightarrow> \<not> in_cooldown now (nodes s ! g_node g)"
    and select_soonest: "loads_bounded (nodes s) \<Longrightarrow> select now s = Some (g, s') \<Longrightarrow>
          all_cooled now (nodes s) \<Longrightarrow> soonest_recovering_node (nodes s) = Some (g_node g)"
begin

text \<open>One event on the balancer and the guards still held, a list of node indices. A drop of a
  guard nobody holds is not an event of the program (\<open>None\<close>), like a select that panics.\<close>

fun act :: "balancer_event \<Rightarrow> ('s \<times> nat list) \<Rightarrow> ('s \<times> nat list) option" where
  "act (Select now) (s, held) = map_option (\<lambda>(g, s'). (s', g_node g # held)) (select now s)"
| "act (DropGuard i) (s, held) =
     (if i \<in> set held then Some (set_nodes (busy_drop_at i (nodes s)) s, remove1 i held) else None)"
| "act (Fail i clock_max now d) (s, held) =
     Some (set_nodes ((nodes s)[i := mark_failed clock_max now d (nodes s ! i)]) s, held)"
| "act (Recover i) (s, held) = Some (set_nodes ((nodes s)[i := mark_healthy (nodes s ! i)]) s, held)"

fun run :: "balancer_event list \<Rightarrow> ('s \<times> nat list) \<Rightarrow> ('s \<times> nat list) option" where
  "run [] x = Some x"
| "run (a # as) x = Option.bind (act a x) (run as)"

definition accounted :: "'s \<times> nat list \<Rightarrow> bool" where
  "accounted x \<longleftrightarrow> (\<forall>i < length (nodes (fst x)). unat (active_requests (nodes (fst x) ! i)) = count_list (snd x) i)
     \<and> set (snd x) \<subseteq> {..<length (nodes (fst x))}"

lemma accounted_bounded:
  assumes "accounted (s, held)" "length held < 2 ^ 64 - 1"
  shows "loads_bounded (nodes s)"
proof -
  have "active_requests (nodes s ! i) < - 1" if "i < length (nodes s)" for i
  proof -
    have "unat (active_requests (nodes s ! i)) = count_list held i"
      using assms(1) that by (simp add: accounted_def)
    then show ?thesis using count_le_length [of held i] assms(2) by (simp add: word_less_nat_alt)
  qed
  then show ?thesis by (simp add: loads_bounded_def list_all_length)
qed

lemma act_accounted:
  assumes acc: "accounted (s, held)" and len: "length held < 2 ^ 64 - 1"
    and step: "act a (s, held) = Some (s', held')"
  shows "accounted (s', held') \<and> length (nodes s') = length (nodes s) \<and> length held' \<le> Suc (length held)"
proof (cases a)
  case (Select now)
  note b = accounted_bounded [OF acc len]
  from step Select obtain g where g: "select now s = Some (g, s')" "held' = g_node g # held" by auto
  note sc = select_claims [OF b g(1)]
  have "unat (active_requests (nodes s' ! i)) = count_list held' i" if "i < length (nodes s)" for i
  proof -
    have "active_requests (nodes s ! i) < - 1" using b that by (simp add: loads_bounded_def list_all_length)
    then show ?thesis using acc sc that g(2)
      by (auto simp: accounted_def claim_at_def unat_claim nth_list_update)
  qed
  with acc sc g(2) show ?thesis by (simp add: accounted_def claim_at_def)
next
  case (DropGuard i)
  with step have i: "i \<in> set held" and s': "s' = set_nodes (busy_drop_at i (nodes s)) s" and h: "held' = remove1 i held"
    by (auto split: if_splits)
  have pos: "unat (active_requests (nodes s ! i)) = count_list held i" "count_list held i \<noteq> 0" "i < length (nodes s)"
    using acc i by (auto simp: accounted_def count_list_0_iff)
  have "unat (active_requests (nodes s' ! j)) = count_list held' j" if "j < length (nodes s)" for j
    using acc pos that h s'
    by (auto simp: accounted_def busy_drop_at_def nodes_set_nodes nth_list_update count_list_remove1 unat_busy_drop)
  moreover have "set held' \<subseteq> {..<length (nodes s')}"
    using acc h s' notin_set_remove1 by (force simp: accounted_def nodes_set_nodes busy_drop_at_def)
  ultimately show ?thesis using s' h by (auto simp: accounted_def nodes_set_nodes busy_drop_at_def length_remove1)
next
  case (Fail i clock_max now d)
  with step acc show ?thesis by (auto simp: accounted_def nodes_set_nodes nth_list_update_if)
next
  case (Recover i)
  with step acc show ?thesis by (auto simp: accounted_def nodes_set_nodes nth_list_update_if)
qed

text \<open>Counters are exact over every history: each node's counter is the number of guards held on
  it, for as many steps as a counter can represent.\<close>

lemma run_accounted:
  "accounted (s, held) \<Longrightarrow> length held + length as < 2 ^ 64 - 1 \<Longrightarrow> run as (s, held) = Some (s', held') \<Longrightarrow>
     accounted (s', held') \<and> length (nodes s') = length (nodes s)"
proof (induction as arbitrary: s held)
  case (Cons a as)
  from Cons.prems(3) obtain s1 held1 where st: "act a (s, held) = Some (s1, held1)" "run as (s1, held1) = Some (s', held')"
    by (auto simp: bind_eq_Some_conv)
  have "length held < 2 ^ 64 - 1" using Cons.prems(2) by simp
  note a = act_accounted [OF Cons.prems(1) this st(1)]
  then have "length held1 + length as < 2 ^ 64 - 1" using Cons.prems(2) by simp
  with Cons.IH [of s1 held1] a st(2) show ?case by simp
qed simp

lemma run_length: "run as (s, held) = Some (s', held') \<Longrightarrow> length held' \<le> length held + length as"
proof (induction as arbitrary: s held)
  case (Cons a as)
  from Cons.prems obtain s1 held1 where st: "act a (s, held) = Some (s1, held1)" "run as (s1, held1) = Some (s', held')"
    by (auto simp: bind_eq_Some_conv)
  have "length held1 \<le> Suc (length held)"
    using st(1) by (cases a) (auto split: if_splits simp: length_remove1)
  with Cons.IH [OF st(2)] show ?case by simp
qed simp

definition idle :: "'s \<Rightarrow> bool" where
  "idle s = list_all (\<lambda>n. active_requests n = 0) (nodes s)"

lemma idle_accounted: "idle s \<Longrightarrow> accounted (s, [])"
  by (simp add: idle_def accounted_def list_all_length)

text \<open>From an idle balancer: exact counters, and the next select succeeds.\<close>

lemma run_from_idle:
  assumes "idle s" "nodes s \<noteq> []" "length as < 2 ^ 64 - 2" "run as (s, []) = Some (s', held)"
  shows "(\<forall>i < length (nodes s'). unat (active_requests (nodes s' ! i)) = count_list held i)
    \<and> (held = [] \<longrightarrow> idle s') \<and> (\<exists>g s''. select now s' = Some (g, s''))"
proof -
  have acc: "accounted (s', held)" and len: "length (nodes s') = length (nodes s)"
    using run_accounted [OF idle_accounted, of s as s' held] assms by auto
  have "length held < 2 ^ 64 - 1" using run_length [OF assms(4)] assms(3) by simp
  from accounted_bounded [OF acc this] have "loads_bounded (nodes s')" .
  moreover have "nodes s' \<noteq> []" using len assms(2) by auto
  ultimately have "\<exists>g s''. select now s' = Some (g, s'')" by (rule select_total [rotated])
  moreover have "held = [] \<Longrightarrow> idle s'"
    using acc by (auto simp: accounted_def idle_def list_all_length unat_eq_0)
  ultimately show ?thesis using acc by (simp add: accounted_def)
qed

end

section \<open>Round robin meets the contract\<close>

lemma candidate_order_rotate: "candidate_order nodes start = rotate (unat start mod length nodes) [0..<length nodes]"
proof (rule nth_equalityI, goal_cases)
  case (2 i)
  then have "0 < length nodes" "i < length nodes" by (auto simp: candidate_order_def Let_def)
  then show ?case by (simp add: candidate_order_def Let_def nth_rotate add.commute)
qed (simp add: candidate_order_def Let_def)

lemma set_candidate_order [simp]: "set (candidate_order nodes start) = {..<length nodes}"
  by (auto simp: candidate_order_rotate)

lemma candidate_order_0: "candidate_order nodes 0 = [0..<length nodes]"
  by (simp add: candidate_order_rotate)

lemma length_claim_at [simp]: "length (claim_at i nodes) = length nodes"
  by (simp add: claim_at_def)

lemma all_cooled_iff: "all_cooled now nodes \<longleftrightarrow> (\<forall>i < length nodes. in_cooldown now (nodes ! i))"
  by (simp add: all_cooled_def list_all_length)

lemma find_candidate:
  "find (\<lambda>i. \<not> in_cooldown now (nodes ! i)) (candidate_order nodes start) = None \<longleftrightarrow> all_cooled now nodes"
  by (auto simp: find_None_iff all_cooled_iff)

lemma find_candidate_Some:
  "find (\<lambda>i. \<not> in_cooldown now (nodes ! i)) (candidate_order nodes start) = Some i \<Longrightarrow>
     i < length nodes \<and> \<not> in_cooldown now (nodes ! i)"
  using nth_mem by (fastforce simp: find_Some_iff)

lemma round_robin_select_cases:
  assumes "round_robin_select now b = Some (g, b')"
  shows "\<exists>i. g = from_claimed i \<and> i < length (rr_nodes b) \<and> rr_nodes b' = claim_at i (rr_nodes b)
    \<and> rr_counter b' = rr_counter b + 1
    \<and> (if all_cooled now (rr_nodes b) then soonest_recovering_node (rr_nodes b) = Some i
       else find (\<lambda>i. \<not> in_cooldown now (rr_nodes b ! i)) (candidate_order (rr_nodes b) (rr_counter b)) = Some i)"
proof (cases "find (\<lambda>i. \<not> in_cooldown now (rr_nodes b ! i)) (candidate_order (rr_nodes b) (rr_counter b))")
  case None
  with assms show ?thesis
    by (auto simp: round_robin_select_def guard_new_def find_candidate Let_def soonest_recovering_Some split: option.splits)
next
  case (Some i)
  then have "\<not> all_cooled now (rr_nodes b)" using find_candidate by (metis option.distinct(1))
  with Some assms find_candidate_Some [OF Some] show ?thesis
    by (auto simp: round_robin_select_def guard_new_def Let_def)
qed

lemma round_robin_select_defined:
  "rr_nodes b \<noteq> [] \<Longrightarrow> \<exists>g b'. round_robin_select now b = Some (g, b')"
  using soonest_recovering_defined [of "rr_nodes b"]
  by (auto simp: round_robin_select_def guard_new_def Let_def split: option.splits)

interpretation rr: load_balancer round_robin_select rr_nodes "\<lambda>ns b. b\<lparr>rr_nodes := ns\<rparr>"
proof (unfold_locales, goal_cases)
  case (4 s now g s')
  from round_robin_select_cases [OF 4(2)] 4(3) show ?case
    by (auto simp: from_claimed_def dest: find_candidate_Some)
qed (use round_robin_select_defined round_robin_select_cases in \<open>fastforce simp: from_claimed_def\<close>)+

section \<open>Priority free meets the contract\<close>

lemma claim_free_Some:
  "claim_free now nodes is = Some (i, nodes') \<Longrightarrow>
     i \<in> set is \<and> \<not> in_cooldown now (nodes ! i) \<and> active_requests (nodes ! i) = 0 \<and> nodes' = claim_at i nodes"
  by (induction now nodes "is" rule: claim_free.induct) (auto simp: claim_at_def claim_def split: if_splits)

lemma claim_free_first:
  "sorted_wrt (<) is \<Longrightarrow> claim_free now nodes is = Some (i, nodes') \<Longrightarrow> j \<in> set is \<Longrightarrow> j < i \<Longrightarrow>
     in_cooldown now (nodes ! j) \<or> active_requests (nodes ! j) \<noteq> 0"
  by (induction now nodes "is" rule: claim_free.induct) (auto split: if_splits)

lemma claim_free_None:
  "claim_free now nodes is = None \<longleftrightarrow> (\<forall>i \<in> set is. in_cooldown now (nodes ! i) \<or> active_requests (nodes ! i) \<noteq> 0)"
  by (induction now nodes "is" rule: claim_free.induct) auto

lemma in_cooldown_claim [simp]: "in_cooldown now (claim n) = in_cooldown now n"
  by (simp add: in_cooldown_def claim_def)

lemma length_fold_claim [simp]: "length (fold claim_at is nodes) = length nodes"
  by (induction "is" arbitrary: nodes) auto

lemma nth_fold_claim:
  "distinct is \<Longrightarrow> set is \<subseteq> {..<length nodes} \<Longrightarrow> j < length nodes \<Longrightarrow>
     fold claim_at is nodes ! j = (if j \<in> set is then claim (nodes ! j) else nodes ! j)"
  by (induction "is" arbitrary: nodes) (auto simp: claim_at_def nth_list_update)

lemma length_release [simp]: "length (release_others best is nodes) = length nodes"
  by (induction "is" arbitrary: nodes) auto

lemma nth_release:
  "distinct is \<Longrightarrow> set is \<subseteq> {..<length nodes} \<Longrightarrow> j < length nodes \<Longrightarrow>
     release_others best is nodes ! j = (if j \<in> set is \<and> j \<noteq> best then unclaim (nodes ! j) else nodes ! j)"
  by (induction "is" arbitrary: nodes) (auto simp: nth_list_update)

text \<open>Reserving all and releasing all but the winner is one claim on the winner.\<close>

lemma release_fold_claim:
  assumes "distinct is" "set is \<subseteq> {..<length nodes}" "best \<in> set is"
  shows "release_others best is (fold claim_at is nodes) = claim_at best nodes"
  using assms by (intro nth_equalityI) (auto simp: nth_release nth_fold_claim claim_at_def nth_list_update)

definition pick :: "'c backend_node list \<Rightarrow> nat \<Rightarrow> nat option \<times> u64 \<Rightarrow> nat option \<times> u64" where
  "pick nodes i b = (if active_requests (nodes ! i) < snd b then (Some i, active_requests (nodes ! i)) else b)"

lemma fold_pick_cong:
  "(\<And>j. j \<in> set is \<Longrightarrow> nodes ! j = nodes' ! j) \<Longrightarrow> fold (pick nodes) is b = fold (pick nodes') is b"
  by (induction "is" arbitrary: b) (auto simp: pick_def)

lemma reserve_fold:
  "distinct is \<Longrightarrow> set is \<subseteq> {..<length nodes} \<Longrightarrow>
     reserve now is nodes r =
       (let cs = filter (\<lambda>i. \<not> in_cooldown now (nodes ! i)) is;
            p = fold (pick nodes) cs (best_idx r, best_load r) in
        (fold claim_at cs nodes, \<lparr>best_idx = fst p, best_load = snd p, reserved = reserved r @ cs\<rparr>))"
proof (induction "is" arbitrary: nodes r)
  case (Cons i "is")
  have f: "filter (\<lambda>j. \<not> in_cooldown now (claim_at i nodes ! j)) is = filter (\<lambda>j. \<not> in_cooldown now (nodes ! j)) is"
    using Cons.prems by (intro filter_cong) (auto simp: claim_at_def nth_list_update)
  have p: "fold (pick (claim_at i nodes)) (filter P is) b = fold (pick nodes) (filter P is) b" for P b
    using Cons.prems by (intro fold_pick_cong) (auto simp: claim_at_def nth_list_update)
  show ?case
    using Cons.prems Cons.IH [of nodes r] Cons.IH [of "claim_at i nodes"] f p pick_def [of nodes i]
    by (auto simp: Let_def)
qed simp

lemma fold_pick_best:
  "sorted_wrt (<) cs \<Longrightarrow> cs \<noteq> [] \<Longrightarrow> (\<And>j. j \<in> set cs \<Longrightarrow> active_requests (nodes ! j) < - 1) \<Longrightarrow>
     \<exists>i. fold (pick nodes) cs (None, - 1) = (Some i, active_requests (nodes ! i)) \<and> i \<in> set cs
       \<and> (\<forall>j \<in> set cs. active_requests (nodes ! i) \<le> active_requests (nodes ! j)
            \<and> (active_requests (nodes ! j) = active_requests (nodes ! i) \<longrightarrow> i \<le> j))"
proof (induction cs rule: rev_induct)
  case (snoc x cs)
  show ?case
  proof (cases "cs = []")
    case True
    with snoc.prems show ?thesis by (auto simp: pick_def)
  next
    case False
    with snoc obtain i where i: "fold (pick nodes) cs (None, - 1) = (Some i, active_requests (nodes ! i))" "i \<in> set cs"
      "\<forall>j \<in> set cs. active_requests (nodes ! i) \<le> active_requests (nodes ! j)
            \<and> (active_requests (nodes ! j) = active_requests (nodes ! i) \<longrightarrow> i \<le> j)"
      by (auto simp: sorted_wrt_append)
    from snoc.prems i(2) have "i < x" by (auto simp: sorted_wrt_append)
    show ?thesis
    proof (cases "active_requests (nodes ! x) < active_requests (nodes ! i)")
      case True
      with i have "active_requests (nodes ! x) < active_requests (nodes ! j)" if "j \<in> set cs" for j
        using that by (metis order_less_le_trans)
      then have "\<forall>j \<in> set cs. active_requests (nodes ! x) \<le> active_requests (nodes ! j) \<and> active_requests (nodes ! j) \<noteq> active_requests (nodes ! x)"
        by (metis less_imp_le order_less_irrefl)
      with i(1) True show ?thesis by (intro exI [of _ x]) (simp add: pick_def [of nodes x])
    next
      case False
      with i \<open>i < x\<close> show ?thesis by (intro exI [of _ i]) (auto simp: pick_def [of nodes x])
    qed
  qed
qed simp

definition open_nodes :: "instant \<Rightarrow> 'c backend_node list \<Rightarrow> nat list" where
  "open_nodes now nodes = filter (\<lambda>i. \<not> in_cooldown now (nodes ! i)) [0..<length nodes]"

lemma set_open_nodes: "set (open_nodes now nodes) = {i. i < length nodes \<and> \<not> in_cooldown now (nodes ! i)}"
  by (auto simp: open_nodes_def)

lemma open_nodes_empty: "open_nodes now nodes = [] \<longleftrightarrow> all_cooled now nodes"
  by (auto simp: open_nodes_def all_cooled_iff filter_empty_conv)

lemma sorted_open_nodes: "sorted_wrt (<) (open_nodes now nodes)"
  by (simp add: open_nodes_def sorted_wrt_filter)

text \<open>The whole select: a free open node (the lowest), else the least loaded open node (the lowest
  among equals), else the soonest to recover; one claim in every case.\<close>

lemma priority_free_select_spec:
  assumes "loads_bounded (pf_nodes b)" "pf_nodes b \<noteq> []"
  shows "\<exists>i b'. priority_free_select now b = Some (from_claimed i, b') \<and> i < length (pf_nodes b)
    \<and> pf_nodes b' = claim_at i (pf_nodes b)
    \<and> (if all_cooled now (pf_nodes b) then soonest_recovering_node (pf_nodes b) = Some i
       else i \<in> set (open_nodes now (pf_nodes b)) \<and>
         (\<forall>j \<in> set (open_nodes now (pf_nodes b)).
            active_requests (pf_nodes b ! i) \<le> active_requests (pf_nodes b ! j)
            \<and> (active_requests (pf_nodes b ! j) = active_requests (pf_nodes b ! i) \<longrightarrow> i \<le> j)))"
proof (cases "claim_free now (pf_nodes b) [0..<length (pf_nodes b)]")
  case (Some x)
  obtain i ns where x: "x = (i, ns)" by fastforce
  note c = claim_free_Some [OF Some [unfolded x]]
  have f: "j < i \<Longrightarrow> in_cooldown now (pf_nodes b ! j) \<or> active_requests (pf_nodes b ! j) \<noteq> 0" for j
    using claim_free_first [OF _ Some [unfolded x], of j] c by simp
  have "\<not> all_cooled now (pf_nodes b)" using c by (auto simp: all_cooled_iff)
  with Some x c f show ?thesis
    by (intro exI [of _ i]) (auto simp: priority_free_select_def candidate_order_0 set_open_nodes not_less [symmetric])
next
  case None
  let ?os = "open_nodes now (pf_nodes b)"
  have sel: "reserve now [0..<length (pf_nodes b)] (pf_nodes b) \<lparr>best_idx = None, best_load = - 1, reserved = []\<rparr>
      = (fold claim_at ?os (pf_nodes b), \<lparr>best_idx = fst (fold (pick (pf_nodes b)) ?os (None, - 1)),
          best_load = snd (fold (pick (pf_nodes b)) ?os (None, - 1)), reserved = ?os\<rparr>)"
    by (subst reserve_fold) (auto simp: open_nodes_def Let_def)
  show ?thesis
  proof (cases "all_cooled now (pf_nodes b)")
    case True
    then have e: "?os = []" by (simp add: open_nodes_empty)
    obtain i where i: "soonest_recovering_node (pf_nodes b) = Some i"
      using soonest_recovering_defined assms(2) by blast
    show ?thesis using None sel True e i soonest_recovering_Some [OF i]
      by (auto simp: priority_free_select_def candidate_order_0 guard_new_def warn_all_cooled_def Let_def)
  next
    case False
    then have "?os \<noteq> []" by (simp add: open_nodes_empty)
    then obtain i where i: "fold (pick (pf_nodes b)) ?os (None, - 1) = (Some i, active_requests (pf_nodes b ! i))"
      "i \<in> set ?os" "\<forall>j \<in> set ?os. active_requests (pf_nodes b ! i) \<le> active_requests (pf_nodes b ! j)
            \<and> (active_requests (pf_nodes b ! j) = active_requests (pf_nodes b ! i) \<longrightarrow> i \<le> j)"
      using fold_pick_best [OF sorted_open_nodes, of now "pf_nodes b" "pf_nodes b"] assms(1)
      by (auto simp: set_open_nodes loads_bounded_def list_all_length)
    have "release_others i ?os (fold claim_at ?os (pf_nodes b)) = claim_at i (pf_nodes b)"
      by (rule release_fold_claim) (use i(2) in \<open>auto simp: open_nodes_def\<close>)
    with None sel i False show ?thesis
      by (auto simp: priority_free_select_def candidate_order_0 set_open_nodes Let_def)
  qed
qed

lemma priority_free_select_nonempty: "priority_free_select now b = Some x \<Longrightarrow> pf_nodes b \<noteq> []"
  by (auto simp: priority_free_select_def candidate_order_def soonest_recovering_node_def)

lemma priority_free_select_cases:
  assumes "loads_bounded (pf_nodes b)" "priority_free_select now b = Some (g, b')"
  shows "\<exists>i. g = from_claimed i \<and> i < length (pf_nodes b) \<and> pf_nodes b' = claim_at i (pf_nodes b)
    \<and> (if all_cooled now (pf_nodes b) then soonest_recovering_node (pf_nodes b) = Some i
       else \<not> in_cooldown now (pf_nodes b ! i))"
  using priority_free_select_spec [OF assms(1) priority_free_select_nonempty [OF assms(2)], of now] assms(2)
  by (auto simp: set_open_nodes split: if_splits)

interpretation pf: load_balancer priority_free_select pf_nodes "\<lambda>ns b. b\<lparr>pf_nodes := ns\<rparr>"
proof (unfold_locales, goal_cases)
  case (2 s now)
  then show ?case using priority_free_select_spec by blast
qed (use priority_free_select_cases in \<open>fastforce simp: from_claimed_def\<close>)+

lemma balancer_cases:
  "balancer_select now b = Some (g, b') \<Longrightarrow>
     (\<exists>r r'. b = RR r \<and> b' = RR r' \<and> round_robin_select now r = Some (g, r'))
   \<or> (\<exists>p p'. b = PF p \<and> b' = PF p' \<and> priority_free_select now p = Some (g, p'))"
  by (cases b) auto

interpretation any: load_balancer balancer_select balancer_nodes set_balancer_nodes
proof (unfold_locales, goal_cases)
  case (1 ns s)
  then show ?case by (cases s) auto
next
  case (2 s now)
  then show ?case
  proof (cases s)
    case (RR b)
    with 2 show ?thesis using rr.select_total [of b now] by auto
  next
    case (PF b)
    with 2 show ?thesis using pf.select_total [of b now] by auto
  qed
next
  case (3 s now g s')
  then show ?case using balancer_cases [OF 3(2)] rr.select_claims pf.select_claims by fastforce
next
  case (4 s now g s')
  then show ?case using balancer_cases [OF 4(2)] rr.select_healthy pf.select_healthy by fastforce
next
  case (5 s now g s')
  then show ?case using balancer_cases [OF 5(2)] rr.select_soonest pf.select_soonest by fastforce
qed

section \<open>Properties\<close>

text \<open>C3. Whatever the strategy, a select on a non-empty node list whose counters are not saturated
  returns a guard on an existing node, adds exactly one claim to that node and changes no other
  node; it hands out a node in failure cooldown only when every node is cooled, and then the one
  whose cooldown ends first.\<close>

theorem balancer_select_contract:
  assumes "balancer_nodes b \<noteq> []" "loads_bounded (balancer_nodes b)"
  shows "\<exists>g b'. balancer_select now b = Some (g, b') \<and> g_node g < length (balancer_nodes b)
    \<and> balancer_nodes b' = claim_at (g_node g) (balancer_nodes b)
    \<and> (if all_cooled now (balancer_nodes b)
       then soonest_recovering_node (balancer_nodes b) = Some (g_node g)
       else \<not> in_cooldown now (balancer_nodes b ! g_node g))"
proof -
  obtain g b' where s: "balancer_select now b = Some (g, b')"
    using any.select_total [OF assms] by blast
  with any.select_claims [OF assms(2) s] any.select_healthy [OF assms(2) s] any.select_soonest [OF assms(2) s]
  show ?thesis by auto
qed

definition sample_node :: "string \<Rightarrow> u64 \<Rightarrow> bool \<Rightarrow> instant \<Rightarrow> unit backend_node" where
  "sample_node url load h until = \<lparr>n_url = url, n_model = None, n_api_key = None, n_timeout_seconds = 300,
     n_http_client = (), active_requests = load, n_strip_path_prefix = None, n_temperature = None,
     healthy = h, cooldown_until = until\<rparr>"

theorem balancer_select_contract_witness:
  "\<exists>g b'. balancer_select 5 (PF \<lparr>pf_nodes = [sample_node ''a'' 2 True 0, sample_node ''b'' 1 False 9], pf_all_cooled_fallbacks = 0\<rparr>) = Some (g, b')
    \<and> balancer_nodes b' = claim_at (g_node g) [sample_node ''a'' 2 True 0, sample_node ''b'' 1 False 9]"
proof -
  let ?b = "PF \<lparr>pf_nodes = [sample_node ''a'' 2 True 0, sample_node ''b'' 1 False 9], pf_all_cooled_fallbacks = 0\<rparr>"
  have "balancer_nodes ?b \<noteq> []" "loads_bounded (balancer_nodes ?b)"
    by (simp_all add: loads_bounded_def sample_node_def word_less_nat_alt)
  from balancer_select_contract [OF this, of 5] show ?thesis by fastforce
qed

text \<open>C4. Over every history of selects, guard drops and health marks from idle nodes (fewer than
  the counter's range of them), each node's counter is exactly the number of guards held on it,
  all counters are zero again once every guard is dropped, and the next select succeeds.\<close>

theorem claims_match_held_guards:
  assumes "list_all (\<lambda>n. active_requests n = 0) (balancer_nodes b)" "balancer_nodes b \<noteq> []"
    and "length events < 2 ^ 64 - 2" and "any.run events (b, []) = Some (b', held)"
  shows "(\<forall>i < length (balancer_nodes b'). unat (active_requests (balancer_nodes b' ! i)) = count_list held i)
    \<and> (held = [] \<longrightarrow> list_all (\<lambda>n. active_requests n = 0) (balancer_nodes b'))
    \<and> (\<exists>g b''. balancer_select now b' = Some (g, b''))"
  using any.run_from_idle [of b events b' held now] assms unfolding any.idle_def by simp

lemmas balancer_eval = priority_free_select_def candidate_order_0 upt_rec guard_new_def from_claimed_def
  claim_at_def claim_def unclaim_def busy_drop_at_def busy_drop_def in_cooldown_def sample_node_def
  failure_window_def mark_failed_def mark_healthy_def checked_add_def word_less_nat_alt

lemma sample_history:
  "any.run [Select 1, Select 2, Fail 0 100 2 30, Select 3, DropGuard 1, Recover 0]
     (PF \<lparr>pf_nodes = [sample_node ''a'' 0 True 0, sample_node ''b'' 0 True 0], pf_all_cooled_fallbacks = 0\<rparr>, [])
   = Some (PF \<lparr>pf_nodes = [sample_node ''a'' 1 True 32, sample_node ''b'' 1 True 0], pf_all_cooled_fallbacks = 0\<rparr>, [1, 0])"
  by (simp add: balancer_eval Let_def)

theorem claims_match_held_guards_witness:
  "\<exists>b' held. any.run [Select 1, Select 2, Fail 0 100 2 30, Select 3, DropGuard 1, Recover 0]
     (PF \<lparr>pf_nodes = [sample_node ''a'' 0 True 0, sample_node ''b'' 0 True 0], pf_all_cooled_fallbacks = 0\<rparr>, []) = Some (b', held)
   \<and> unat (active_requests (balancer_nodes b' ! 1)) = count_list held 1"
  using claims_match_held_guards [OF _ _ _ sample_history] sample_history
  by (simp add: sample_node_def)

text \<open>The priority-free choice: among the nodes not in cooldown, the least loaded, and among
  equally loaded ones the lowest index (so an idle node always wins, and the first idle one).\<close>

theorem priority_free_least_loaded:
  assumes "loads_bounded (pf_nodes b)" "\<not> all_cooled now (pf_nodes b)"
  shows "\<exists>i b'. priority_free_select now b = Some (from_claimed i, b')
    \<and> pf_nodes b' = claim_at i (pf_nodes b) \<and> i < length (pf_nodes b) \<and> \<not> in_cooldown now (pf_nodes b ! i)
    \<and> (\<forall>j < length (pf_nodes b). \<not> in_cooldown now (pf_nodes b ! j) \<longrightarrow>
         active_requests (pf_nodes b ! i) \<le> active_requests (pf_nodes b ! j)
         \<and> (active_requests (pf_nodes b ! j) = active_requests (pf_nodes b ! i) \<longrightarrow> i \<le> j))"
proof -
  have "pf_nodes b \<noteq> []" using assms(2) by (auto simp: all_cooled_def)
  from priority_free_select_spec [OF assms(1) this, of now] assms(2) show ?thesis
    by (fastforce simp: set_open_nodes)
qed

theorem priority_free_least_loaded_witness:
  "\<exists>i b'. priority_free_select 5 \<lparr>pf_nodes = [sample_node ''a'' 2 True 0, sample_node ''b'' 1 True 0], pf_all_cooled_fallbacks = 0\<rparr>
     = Some (from_claimed i, b') \<and> i < 2"
  using priority_free_least_loaded [of "\<lparr>pf_nodes = [sample_node ''a'' 2 True 0, sample_node ''b'' 1 True 0], pf_all_cooled_fallbacks = 0\<rparr>" 5]
  by (fastforce simp: loads_bounded_def all_cooled_def in_cooldown_def sample_node_def word_less_nat_alt)

text \<open>A run of selects at one instant, with the indices they took.\<close>

fun rr_selects :: "nat \<Rightarrow> instant \<Rightarrow> 'c round_robin \<Rightarrow> (nat list \<times> 'c round_robin) option" where
  "rr_selects 0 now b = Some ([], b)"
| "rr_selects (Suc n) now b = (case round_robin_select now b of
       None \<Rightarrow> None
     | Some (g, b') \<Rightarrow> map_option (\<lambda>(is, b''). (g_node g # is, b'')) (rr_selects n now b'))"

lemma cooldown_claim_at: "in_cooldown now (claim_at i nodes ! j) = in_cooldown now (nodes ! j)"
  by (cases "i < length nodes"; cases "i = j") (auto simp: claim_at_def list_update_beyond)

lemma rr_select_open:
  assumes "list_all (\<lambda>n. \<not> in_cooldown now n) (rr_nodes b)" "rr_nodes b \<noteq> []"
  shows "round_robin_select now b =
    (let i = unat (rr_counter b) mod length (rr_nodes b) in
     Some (from_claimed i, b\<lparr>rr_counter := rr_counter b + 1, rr_nodes := claim_at i (rr_nodes b)\<rparr>))"
proof -
  let ?len = "length (rr_nodes b)"
  have "candidate_order (rr_nodes b) (rr_counter b) = (unat (rr_counter b) mod ?len) # map (\<lambda>step. (unat (rr_counter b) mod ?len + step) mod ?len) [1..<?len]"
    using assms(2) by (simp add: candidate_order_def Let_def upt_conv_Cons)
  moreover have "\<not> in_cooldown now (rr_nodes b ! (unat (rr_counter b) mod ?len))"
    using assms by (simp add: list_all_length)
  ultimately show ?thesis by (simp add: round_robin_select_def guard_new_def Let_def)
qed

lemma list_all_claim_at:
  "list_all (\<lambda>n. \<not> in_cooldown now n) nodes \<Longrightarrow> list_all (\<lambda>n. \<not> in_cooldown now n) (claim_at i nodes)"
  by (simp add: list_all_length cooldown_claim_at)

lemma rr_selects_cyclic:
  "list_all (\<lambda>n. \<not> in_cooldown now n) (rr_nodes b) \<Longrightarrow> rr_nodes b \<noteq> [] \<Longrightarrow> unat (rr_counter b) + n < 2 ^ 64 \<Longrightarrow>
     \<exists>b'. rr_selects n now b = Some (map (\<lambda>k. (unat (rr_counter b) + k) mod length (rr_nodes b)) [0..<n], b')"
proof (induction n arbitrary: b)
  case (Suc n)
  let ?i = "unat (rr_counter b) mod length (rr_nodes b)"
  let ?b = "b\<lparr>rr_counter := rr_counter b + 1, rr_nodes := claim_at ?i (rr_nodes b)\<rparr>"
  have c: "unat (rr_counter b + 1) = Suc (unat (rr_counter b))"
    using Suc.prems(3) by (intro unat_u64_Suc) simp
  have "claim_at ?i (rr_nodes b) \<noteq> []" using Suc.prems(2) by (simp add: claim_at_def)
  then obtain b' where "rr_selects n now ?b = Some (map (\<lambda>k. (Suc (unat (rr_counter b)) + k) mod length (rr_nodes b)) [0..<n], b')"
    using Suc.IH [of ?b] Suc.prems c list_all_claim_at by auto
  moreover have "map f [0..<Suc n] = f 0 # map (\<lambda>k. f (Suc k)) [0..<n]" for f :: "nat \<Rightarrow> nat"
    by (simp only: map_upt_Suc)
  ultimately show ?case using rr_select_open [OF Suc.prems(1,2)]
    by (simp add: Let_def from_claimed_def del: upt_Suc)
qed simp

text \<open>Round robin rotates: with no node in cooldown, successive selects take the nodes in
  cyclic order from the counter's position, so any run of as many selects as there are nodes
  (short of the counter's wrap) uses every node exactly once.\<close>

theorem round_robin_cycles:
  assumes "list_all (\<lambda>n. \<not> in_cooldown now n) (rr_nodes b)" "rr_nodes b \<noteq> []" "unat (rr_counter b) + n < 2 ^ 64"
  shows "(\<exists>b'. rr_selects n now b = Some (map (\<lambda>k. (unat (rr_counter b) + k) mod length (rr_nodes b)) [0..<n], b'))
    \<and> (n = length (rr_nodes b) \<longrightarrow>
         distinct (map (\<lambda>k. (unat (rr_counter b) + k) mod length (rr_nodes b)) [0..<n])
         \<and> set (map (\<lambda>k. (unat (rr_counter b) + k) mod length (rr_nodes b)) [0..<n]) = {..<length (rr_nodes b)})"
proof -
  have eq: "map (\<lambda>k. (unat (rr_counter b) + k) mod length (rr_nodes b)) [0..<length (rr_nodes b)]
      = candidate_order (rr_nodes b) (rr_counter b)"
    by (simp add: candidate_order_def Let_def mod_add_left_eq)
  have "distinct (candidate_order (rr_nodes b) (rr_counter b))" by (simp add: candidate_order_rotate)
  then show ?thesis using rr_selects_cyclic [OF assms] eq set_candidate_order [of "rr_nodes b" "rr_counter b"] by metis
qed

theorem round_robin_cycles_witness:
  "\<exists>b'. rr_selects 2 5 \<lparr>rr_nodes = [sample_node ''a'' 7 True 0, sample_node ''b'' 0 True 0], rr_counter = 3,
       rr_all_cooled_fallbacks = 0\<rparr> = Some ([1, 0], b')"
  using round_robin_cycles [of 5 "\<lparr>rr_nodes = [sample_node ''a'' 7 True 0, sample_node ''b'' 0 True 0], rr_counter = 3,
       rr_all_cooled_fallbacks = 0\<rparr>" 2]
  by (simp add: in_cooldown_def sample_node_def upt_rec numeral_2_eq_2 [symmetric])

end
