(* ===== verification/Config_Loader.thy ===== *)
theory Config_Loader
  imports Config
begin

text \<open>
  The loader's sweep, \<^verbatim>\<open>llama-proxy/src/config/loader.rs\<close>, and what a configuration that passed it
  satisfies. The sweep is the only validation of the file's values, so the rest of the program
  relies on exactly these facts.
\<close>

definition and_check :: "(unit, 'e) result \<Rightarrow> (unit, 'e) result \<Rightarrow> (unit, 'e) result" where
  "and_check r s = (case r of Inl e \<Rightarrow> Inl e | Inr _ \<Rightarrow> s)"

definition validate_server_config :: "loader_env \<Rightarrow> server_config \<Rightarrow> (unit, config_error) result" where
  "validate_server_config env c =
     (if sc_port c = 0
      then Err (Validation (''Server port must be between 1-65535, got '' @ digits (unat (sc_port c))))
      else and_check (case sc_allowed_origins c of
                        None \<Rightarrow> Ok ()
                      | Some origins \<Rightarrow> validate_allowed_origins env origins)
             (validate_bind_host env (sc_host c)))"

definition validate_backend_url :: "loader_env \<Rightarrow> string \<Rightarrow> (unit, config_error) result" where
  "validate_backend_url env url = validate_http_url env url ''Backend''"

definition validate_backend_config :: "backend_config \<Rightarrow> (unit, config_error) result" where
  "validate_backend_config c =
     (if bc_timeout_seconds c = 0
      then Err (Validation ''Backend timeout_seconds must be greater than 0'')
      else validate_timeout_seconds (bc_timeout_seconds c) ''Backend'')"

definition validate_reprompt :: "loader_env \<Rightarrow> reprompt_config option \<Rightarrow> (unit, config_error) result" where
  "validate_reprompt env rep = (case rep of
       None \<Rightarrow> Ok ()
     | Some r \<Rightarrow>
         if rc_enabled r \<and> rc_prompt_file r = None \<and> rc_prompt r = None
         then Err (Validation (''reprompt: enabled but neither '' @ APOS @ ''prompt_file'' @ APOS @ '' nor ''
                @ APOS @ ''prompt'' @ APOS @ '' is set''))
         else and_check (case rc_prompt_file r of
                   None \<Rightarrow> Ok ()
                 | Some file \<Rightarrow> and_check (require_nonempty file ''reprompt prompt_file'')
                     (if \<not> path_exists env file
                      then Err (Validation (''reprompt: prompt_file '' @ APOS @ file @ APOS @ '' does not exist''))
                      else Ok ()))
              (and_check (check_all (\<lambda>s. require_nonempty s ''reprompt done_sentinels entry'') (rc_done_sentinels r))
                (validate_reprompt_max_total_ms (rc_max_total_ms r))))"

definition validate_stats :: "loader_env \<Rightarrow> stats_config \<Rightarrow> (unit, config_error) result" where
  "validate_stats env stats =
     (if \<not> f64_is_finite (st_max_plausible_prefill_tps stats)
      then Err (Validation (''stats.max_plausible_prefill_tps ''
             @ show_f64 env (st_max_plausible_prefill_tps stats)
             @ '' is not a finite number; use a rate, or 0.0 to disable the canary''))
      else Ok ())"

text \<open>The loop over a group's mappings: the owner map grows, a second owner is an error (also
  within one grp).\<close>

fun check_mappings ::
  "string \<Rightarrow> string list \<Rightarrow> (string \<times> string) list \<Rightarrow> ((string \<times> string) list, config_error) result" where
  "check_mappings name [] owner = Ok owner"
| "check_mappings name (m # ms) owner =
     (case require_nonempty m ''backend group mapping entry'' of
        Inl e \<Rightarrow> Err e
      | Inr _ \<Rightarrow>
          (case map_of owner m of
             Some prev \<Rightarrow> Err (Validation (''Model '' @ APOS @ m @ APOS @ '' is mapped in both group '' @ APOS
                 @ prev @ APOS @ '' and group '' @ APOS @ name @ APOS))
           | None \<Rightarrow> check_mappings name ms ((m, name) # owner)))"

definition validate_node :: "loader_env \<Rightarrow> string \<Rightarrow> backend_node_config \<Rightarrow> (unit, config_error) result" where
  "validate_node env name node =
     and_check (validate_backend_url env (nc_url node))
       (if nc_timeout_seconds node = 0
        then Err (Validation (''Node in group '' @ APOS @ name @ APOS @ '' has timeout_seconds of 0''))
        else and_check (validate_timeout_seconds (nc_timeout_seconds node) (''Node in group '' @ APOS @ name @ APOS))
          (case nc_temperature node of
             None \<Rightarrow> Ok ()
           | Some t \<Rightarrow> validate_temperature env t (''Node in group '' @ APOS @ name @ APOS)))"

definition validate_group_tail :: "loader_env \<Rightarrow> string \<Rightarrow> backend_group_config \<Rightarrow> (unit, config_error) result" where
  "validate_group_tail env name grp =
     (if gc_nodes grp = []
      then Err (Validation (''Backend group '' @ APOS @ name @ APOS @ '' has no nodes configured''))
      else if gc_strategy grp \<noteq> ''round_robin'' \<and> gc_strategy grp \<noteq> ''priority_free''
      then Err (Validation (''Backend group '' @ APOS @ name @ APOS @ '' has invalid strategy '' @ APOS
             @ gc_strategy grp @ APOS @ ''. Use '' @ APOS @ ''round_robin'' @ APOS @ '' or ''
             @ APOS @ ''priority_free'' @ APOS))
      else and_check (validate_failure_cooldown_secs (gc_failure_cooldown_secs grp) name)
             (check_all (validate_node env name) (gc_nodes grp)))"

fun validate_groups ::
  "loader_env \<Rightarrow> backends_config \<Rightarrow> nat \<Rightarrow> (string \<times> string) list \<Rightarrow> (unit, config_error) result" where
  "validate_groups env [] catch_alls owner = Ok ()"
| "validate_groups env ((name, grp) # gs) catch_alls owner =
     (case require_nonempty name ''backend group name'' of
        Inl e \<Rightarrow> Err e
      | Inr _ \<Rightarrow>
          (let catch_alls' = (if gc_mappings grp = [] then catch_alls + 1 else catch_alls) in
           if gc_mappings grp = [] \<and> catch_alls' > 1
           then Err (Validation (''Only one catch-all group (empty '' @ APOS @ ''mappings: []'' @ APOS
                  @ '') may be configured''))
           else (case check_mappings name (gc_mappings grp) owner of
                   Inl e \<Rightarrow> Err e
                 | Inr owner' \<Rightarrow>
                     (case validate_group_tail env name grp of
                        Inl e \<Rightarrow> Err e
                      | Inr _ \<Rightarrow> validate_groups env gs catch_alls' owner'))))"

definition validate_backends :: "loader_env \<Rightarrow> app_config \<Rightarrow> (unit, config_error) result" where
  "validate_backends env config = (case ac_backends config of
       None \<Rightarrow> (case ac_backend config of
           None \<Rightarrow> Ok ()
         | Some b \<Rightarrow> and_check (validate_backend_config b) (validate_backend_url env (bc_url b)))
     | Some backends \<Rightarrow>
         if backends = [] then Err (Validation ''No backend groups configured'')
         else validate_groups env backends 0 [])"

definition validate_config :: "loader_env \<Rightarrow> app_config \<Rightarrow> (unit, config_error) result" where
  "validate_config env config =
     and_check (validate_server_config env (ac_server config))
    (and_check (validate_reprompt env (ac_reprompt config))
    (and_check (validate_backends env config)
    (and_check (validate_synthesis (ac_synthesis config))
    (and_check (validate_stats env (ac_stats config))
    (and_check (case ac_augment_backend config of
                  None \<Rightarrow> Ok ()
                | Some a \<Rightarrow> and_check (validate_http_url env (ab_url a) ''Augment backend'')
                              (require_nonempty (ab_model a) ''augment-backend model''))
    (and_check (if ic_enabled (ac_influxdb config)
                then validate_http_url env (ic_url (ac_influxdb config)) ''InfluxDB exporter'' else Ok ())
    (if dc_enabled (ac_dump config)
     then require_nonempty (trim (dc_path (ac_dump config))) ''dump path while dump is enabled'' else Ok ())))))))"

definition load_config :: "loader_env \<Rightarrow> string \<Rightarrow> (app_config, config_error) result" where
  "load_config env path =
     (if \<not> path_exists env path then Err (NotFound path)
      else case read_to_string env path of
             Inl e \<Rightarrow> Err (ConfigIo e)
           | Inr content \<Rightarrow> (case parse_yaml env content of
               Inl e \<Rightarrow> Err (ConfigParse e)
             | Inr config \<Rightarrow> (case validate_config env config of
                 Inl e \<Rightarrow> Err e
               | Inr _ \<Rightarrow> Ok config)))"

section \<open>What a passed check means\<close>

named_theorems check_simps \<open>when each check passes\<close>

lemma and_check_ok [check_simps]: "is_ok (and_check r s) \<longleftrightarrow> is_ok r \<and> is_ok s"
  by (cases r) (auto simp: and_check_def)

lemma check_all_ok [check_simps]: "is_ok (check_all f xs) \<longleftrightarrow> (\<forall>x \<in> set xs. is_ok (f x))"
  by (induction xs) (auto split: sum.splits)

lemma require_nonempty_ok [check_simps]: "is_ok (require_nonempty v w) \<longleftrightarrow> v \<noteq> []"
  by (simp add: require_nonempty_def)

lemma reject_over_ok [check_simps]: "is_ok (reject_over n v m) \<longleftrightarrow> v \<le> m"
  by (auto simp: reject_over_def)

definition http_url_ok :: "loader_env \<Rightarrow> string \<Rightarrow> bool" where
  "http_url_ok env url = (case parse_url env url of
       Inl _ \<Rightarrow> False
     | Inr p \<Rightarrow> (url_scheme p = ''http'' \<or> url_scheme p = ''https'') \<and> is_some_and (\<lambda>h. h \<noteq> []) (url_host p))"

lemma validate_http_url_ok [check_simps]: "is_ok (validate_http_url env url label) \<longleftrightarrow> http_url_ok env url"
  by (auto simp: validate_http_url_def http_url_ok_def is_none_or_def is_some_and_def split: sum.splits option.splits)

lemma validate_temperature_ok [check_simps]:
  "is_ok (validate_temperature env t w) \<longleftrightarrow> f64_is_finite t \<and> in_0_2 t"
  by (auto simp: validate_temperature_def)

lemma validate_synthesis_ok [check_simps]:
  "is_ok (validate_synthesis s) \<longleftrightarrow> sy_chunk_delay_ms s \<le> 60000 \<and> sy_chunk_size_chars s \<noteq> 0"
  by (auto simp: validate_synthesis_def reject_over_def MAX_CHUNK_DELAY_MS_def MIN_CHUNK_SIZE_CHARS_def
      word_neq_0_conv split: if_splits)

lemma validate_stats_ok [check_simps]:
  "is_ok (validate_stats env s) \<longleftrightarrow> f64_is_finite (st_max_plausible_prefill_tps s)"
  by (simp add: validate_stats_def)

definition node_config_ok :: "loader_env \<Rightarrow> backend_node_config \<Rightarrow> bool" where
  "node_config_ok env n \<longleftrightarrow> http_url_ok env (nc_url n) \<and> nc_timeout_seconds n \<noteq> 0 \<and> nc_timeout_seconds n \<le> 86400
     \<and> is_none_or (\<lambda>t. f64_is_finite t \<and> in_0_2 t) (nc_temperature n)"

lemma validate_node_ok [check_simps]: "is_ok (validate_node env name n) \<longleftrightarrow> node_config_ok env n"
  by (auto simp: validate_node_def node_config_ok_def check_simps validate_backend_url_def
      validate_timeout_seconds_def MAX_TIMEOUT_SECONDS_def split: option.splits if_splits)

definition group_config_ok :: "loader_env \<Rightarrow> backend_group_config \<Rightarrow> bool" where
  "group_config_ok env g \<longleftrightarrow> gc_nodes g \<noteq> [] \<and> gc_strategy g \<in> {''round_robin'', ''priority_free''}
     \<and> gc_failure_cooldown_secs g \<le> 86400 \<and> (\<forall>n \<in> set (gc_nodes g). node_config_ok env n)"

lemma validate_group_tail_ok [check_simps]: "is_ok (validate_group_tail env name g) \<longleftrightarrow> group_config_ok env g"
  by (auto simp: validate_group_tail_def group_config_ok_def check_simps validate_failure_cooldown_secs_def
      MAX_FAILURE_COOLDOWN_SECS_def)

lemma check_mappings_ok:
  "is_ok (check_mappings name ms owner) \<longleftrightarrow>
     [] \<notin> set ms \<and> distinct ms \<and> set ms \<inter> fst ` set owner = {}"
proof (induction name ms owner rule: check_mappings.induct)
  case (2 name m ms owner)
  show ?case
  proof (cases "m = [] \<or> map_of owner m \<noteq> None")
    case True
    then show ?thesis by (auto simp: require_nonempty_def map_of_eq_None_iff split: option.splits)
  next
    case False
    then have "m \<noteq> []" "map_of owner m = None" by auto
    moreover from this have "m \<notin> fst ` set owner" by (simp add: map_of_eq_None_iff)
    ultimately show ?thesis using "2.IH" [of "()"]
      by (auto simp: require_nonempty_def)
  qed
qed auto

lemma check_mappings_keys:
  "check_mappings name ms owner = Inr owner' \<Longrightarrow> fst ` set owner' = set ms \<union> fst ` set owner"
  by (induction name ms owner rule: check_mappings.induct) (auto split: sum.splits option.splits)

definition catch_all_count :: "backends_config \<Rightarrow> nat" where
  "catch_all_count gs = length (filter (\<lambda>(_, g). gc_mappings g = []) gs)"

definition all_mappings :: "backends_config \<Rightarrow> string list" where
  "all_mappings gs = concat (map (\<lambda>(_, g). gc_mappings g) gs)"

definition backends_ok :: "loader_env \<Rightarrow> backends_config \<Rightarrow> bool" where
  "backends_ok env gs \<longleftrightarrow> [] \<notin> fst ` set gs \<and> catch_all_count gs \<le> 1 \<and> distinct (all_mappings gs)
     \<and> [] \<notin> set (all_mappings gs) \<and> (\<forall>(n, g) \<in> set gs. group_config_ok env g)"

lemma is_ok_iff: "is_ok r \<longleftrightarrow> (\<exists>x. r = Inr x)"
  by (cases r) auto

lemma validate_groups_ok:
  "c \<le> 1 \<Longrightarrow> is_ok (validate_groups env gs c owner) \<longleftrightarrow>
     [] \<notin> fst ` set gs \<and> c + catch_all_count gs \<le> 1 \<and> distinct (all_mappings gs) \<and> [] \<notin> set (all_mappings gs)
     \<and> set (all_mappings gs) \<inter> fst ` set owner = {} \<and> (\<forall>(n, g) \<in> set gs. group_config_ok env g)"
proof (induction gs arbitrary: c owner)
  case (Cons x gs)
  obtain name g where x: "x = (name, g)" by fastforce
  let ?c = "if gc_mappings g = [] then c + 1 else c"
  have step: "is_ok (validate_groups env (x # gs) c owner) \<longleftrightarrow>
      name \<noteq> [] \<and> ?c \<le> 1 \<and> group_config_ok env g \<and>
      (\<exists>owner'. check_mappings name (gc_mappings g) owner = Inr owner' \<and> is_ok (validate_groups env gs ?c owner'))"
    using Cons.prems validate_group_tail_ok [of env name g]
    by (cases "validate_group_tail env name g"; cases "check_mappings name (gc_mappings g) owner")
      (auto simp: x Let_def require_nonempty_def)
  have owners: "(\<exists>owner'. check_mappings name (gc_mappings g) owner = Inr owner' \<and> P (fst ` set owner')) \<longleftrightarrow>
      is_ok (check_mappings name (gc_mappings g) owner) \<and> P (set (gc_mappings g) \<union> fst ` set owner)" for P
    using check_mappings_keys [of name "gc_mappings g" owner] by (auto simp: is_ok_iff)
  show ?case
  proof (cases "?c \<le> 1")
    case True
    let ?P = "\<lambda>S. [] \<notin> fst ` set gs \<and> ?c + catch_all_count gs \<le> 1 \<and> distinct (all_mappings gs)
       \<and> [] \<notin> set (all_mappings gs) \<and> set (all_mappings gs) \<inter> S = {} \<and> (\<forall>(n, g) \<in> set gs. group_config_ok env g)"
    have rest: "(\<exists>owner'. check_mappings name (gc_mappings g) owner = Inr owner' \<and> is_ok (validate_groups env gs ?c owner'))
        \<longleftrightarrow> is_ok (check_mappings name (gc_mappings g) owner) \<and> ?P (set (gc_mappings g) \<union> fst ` set owner)"
      using owners [of ?P] Cons.IH [OF True] by simp
    have cons: "set (all_mappings (x # gs)) = set (gc_mappings g) \<union> set (all_mappings gs)"
      "distinct (all_mappings (x # gs)) \<longleftrightarrow> distinct (gc_mappings g) \<and> distinct (all_mappings gs)
         \<and> set (gc_mappings g) \<inter> set (all_mappings gs) = {}"
      "c + catch_all_count (x # gs) = ?c + catch_all_count gs"
      by (auto simp: x all_mappings_def catch_all_count_def)
    show ?thesis unfolding step rest check_mappings_ok cons using True by (auto simp: x)
  next
    case False
    with Cons.prems have "gc_mappings g = []" "c = 1" by (auto split: if_splits)
    then show ?thesis unfolding step by (auto simp: x catch_all_count_def)
  qed
qed (simp add: all_mappings_def catch_all_count_def)

lemma validate_backends_groups:
  "ac_backends config = Some gs \<Longrightarrow>
     is_ok (validate_backends env config) \<longleftrightarrow> gs \<noteq> [] \<and> backends_ok env gs"
  by (auto simp: validate_backends_def validate_groups_ok backends_ok_def)

definition origin_ok :: "string \<Rightarrow> bool" where
  "origin_ok o' \<longleftrightarrow> o' \<noteq> [] \<and> o' \<noteq> ''*'' \<and>
     (\<forall>c \<in> set (chars o'). \<not> (length c = 1 \<and> is_control_byte (hd c)) \<and> \<not> is_whitespace c)"

lemma validate_origin_ok [check_simps]: "is_ok (validate_origin env e) \<longleftrightarrow> origin_ok e"
  by (auto simp: validate_origin_def origin_ok_def list_ex_iff)

definition host_ok :: "loader_env \<Rightarrow> string \<Rightarrow> bool" where
  "host_ok env host \<longleftrightarrow> (\<exists>h. (host = h \<and> \<not> (\<exists>x. host = ''['' @ x @ '']'') \<or> host = ''['' @ h @ '']'')
      \<and> (parses_as_ip env h \<or> is_rfc1123_hostname h))"

lemma validate_bind_host_ok [check_simps]: "is_ok (validate_bind_host env host) \<longleftrightarrow> host_ok env host"
proof (cases "\<exists>x. host = ''['' @ x @ '']''")
  case True
  then obtain x where x: "host = ''['' @ x @ '']''" by blast
  have "strip_prefix host ''['' = Some (x @ '']'')" "strip_suffix (x @ '']'') '']'' = Some x"
    unfolding strip_prefix_Some_iff strip_suffix_Some_iff using x by simp_all
  then show ?thesis using x by (simp add: validate_bind_host_def host_ok_def)
next
  case False
  then have "Option.bind (strip_prefix host ''['') (\<lambda>h. strip_suffix h '']'') = None"
  proof (cases "strip_prefix host ''[''")
    case (Some h)
    then have "host = ''['' @ h" by (simp only: strip_prefix_Some_iff)
    with False have "strip_suffix h '']'' \<noteq> Some x" for x by (simp add: strip_suffix_Some_iff)
    with Some show ?thesis by (cases "strip_suffix h '']''") auto
  qed simp
  with False show ?thesis by (auto simp: validate_bind_host_def host_ok_def)
qed

definition server_ok :: "loader_env \<Rightarrow> server_config \<Rightarrow> bool" where
  "server_ok env c \<longleftrightarrow> sc_port c \<noteq> 0 \<and> is_none_or (list_all origin_ok) (sc_allowed_origins c) \<and> host_ok env (sc_host c)"

definition reprompt_ok :: "loader_env \<Rightarrow> reprompt_config \<Rightarrow> bool" where
  "reprompt_ok env r \<longleftrightarrow> (rc_enabled r \<longrightarrow> rc_prompt_file r \<noteq> None \<or> rc_prompt r \<noteq> None)
     \<and> is_none_or (\<lambda>f. f \<noteq> [] \<and> path_exists env f) (rc_prompt_file r)
     \<and> [] \<notin> set (rc_done_sentinels r) \<and> rc_max_total_ms r \<le> 3600000"

definition config_ok :: "loader_env \<Rightarrow> app_config \<Rightarrow> bool" where
  "config_ok env c \<longleftrightarrow> server_ok env (ac_server c) \<and> is_none_or (reprompt_ok env) (ac_reprompt c)
     \<and> (case ac_backends c of
          Some gs \<Rightarrow> gs \<noteq> [] \<and> backends_ok env gs
        | None \<Rightarrow> is_none_or (\<lambda>b. bc_timeout_seconds b \<noteq> 0 \<and> bc_timeout_seconds b \<le> 86400 \<and> http_url_ok env (bc_url b)) (ac_backend c))
     \<and> sy_chunk_delay_ms (ac_synthesis c) \<le> 60000 \<and> sy_chunk_size_chars (ac_synthesis c) \<noteq> 0
     \<and> f64_is_finite (st_max_plausible_prefill_tps (ac_stats c))
     \<and> is_none_or (\<lambda>a. http_url_ok env (ab_url a) \<and> ab_model a \<noteq> []) (ac_augment_backend c)
     \<and> (ic_enabled (ac_influxdb c) \<longrightarrow> http_url_ok env (ic_url (ac_influxdb c)))
     \<and> (dc_enabled (ac_dump c) \<longrightarrow> trim (dc_path (ac_dump c)) \<noteq> [])"

lemma validate_server_ok [check_simps]: "is_ok (validate_server_config env c) \<longleftrightarrow> server_ok env c"
  by (auto simp: validate_server_config_def server_ok_def check_simps validate_allowed_origins_def list_all_iff
      split: option.splits)

lemma validate_reprompt_ok [check_simps]: "is_ok (validate_reprompt env r) \<longleftrightarrow> is_none_or (reprompt_ok env) r"
  by (auto simp: validate_reprompt_def reprompt_ok_def check_simps validate_reprompt_max_total_ms_def
      MAX_REPROMPT_TOTAL_MS_def split: option.splits if_splits)

lemma validate_backends_ok [check_simps]:
  "is_ok (validate_backends env c) \<longleftrightarrow> (case ac_backends c of
      Some gs \<Rightarrow> gs \<noteq> [] \<and> backends_ok env gs
    | None \<Rightarrow> is_none_or (\<lambda>b. bc_timeout_seconds b \<noteq> 0 \<and> bc_timeout_seconds b \<le> 86400 \<and> http_url_ok env (bc_url b)) (ac_backend c))"
proof (cases "ac_backends c")
  case None
  then show ?thesis
    by (auto simp: validate_backends_def validate_backend_config_def validate_backend_url_def check_simps
        validate_timeout_seconds_def MAX_TIMEOUT_SECONDS_def split: option.splits)
qed (simp add: validate_backends_groups)

lemma validate_config_ok: "is_ok (validate_config env c) \<longleftrightarrow> config_ok env c"
  by (cases "ac_augment_backend c") (simp_all add: validate_config_def config_ok_def check_simps)

section \<open>Properties\<close>

text \<open>C6. The loader accepts exactly the files that exist, can be read, parse, and satisfy every
  bound of the sweep; it returns the parsed configuration unchanged.\<close>

theorem load_config_accepts_exactly:
  "load_config env path = Ok c \<longleftrightarrow>
     path_exists env path \<and> (\<exists>content. read_to_string env path = Ok content \<and> parse_yaml env content = Ok c) \<and> config_ok env c"
  using validate_config_ok [of env c]
  by (auto simp: load_config_def is_ok_def split: sum.splits)

end
