(* ===== verification/Grouped_Balancer.thy ===== *)
theory Grouped_Balancer
  imports Balancers Config_Loader
begin

text \<open>
  The grouped balancer, \<^verbatim>\<open>llama-proxy/src/backends/grouped.rs\<close>: named groups, each with its own
  strategy, and routing of a request to a group by its model name. Built from the configuration's
  groups in name order, so that every decision is independent of the hash map's iteration order.
\<close>

section \<open>Operations\<close>

record 'c backend_group =
  bg_mappings :: "string list"
  bg_balancer :: "'c balancer"
  bg_name :: string
  bg_exclusive :: bool

definition maps_model :: "'c backend_group \<Rightarrow> string \<Rightarrow> bool" where
  "maps_model g model = list_ex (\<lambda>m. m = model) (bg_mappings g)"

definition is_catch_all :: "'c backend_group \<Rightarrow> bool" where
  "is_catch_all g = (bg_mappings g = [])"

record no_matching_backend =
  requested_model :: "string option"

definition no_matching_backend_text :: "no_matching_backend \<Rightarrow> string" where
  "no_matching_backend_text e = (case requested_model e of
       Some model \<Rightarrow> ''No backend configured for model: '' @ model
     | None \<Rightarrow> ''No backend configured (no model specified and no catch-all)'')"

fun build_nodes ::
  "('cert, 'ident, 'c, string) client_env \<Rightarrow> instant \<Rightarrow> backend_node_config list \<Rightarrow> ('c backend_node list, string) result" where
  "build_nodes env now [] = Ok []"
| "build_nodes env now (c # cs) =
     and_then (node_from_config env now (nc_url c) (nc_timeout_seconds c) (nc_tls c) (nc_model c) (nc_api_key c)
                (nc_strip_path_prefix c) (nc_temperature c)) (\<lambda>n.
       and_then (build_nodes env now cs) (\<lambda>ns. Ok (n # ns)))"

fun build_groups ::
  "('cert, 'ident, 'c, string) client_env \<Rightarrow> instant \<Rightarrow> backends_config \<Rightarrow> ('c backend_group list, string) result" where
  "build_groups env now [] = Ok []"
| "build_groups env now ((name, config) # entries) =
     and_then (build_nodes env now (gc_nodes config)) (\<lambda>nodes.
       and_then (build_balancer_for_group nodes (gc_strategy config)) (\<lambda>bal.
         and_then (build_groups env now entries) (\<lambda>gs.
           Ok (\<lparr>bg_mappings = gc_mappings config, bg_balancer = bal, bg_name = name,
                bg_exclusive = gc_exclusive config\<rparr> # gs))))"

definition grouped_new ::
  "('cert, 'ident, 'c, string) client_env \<Rightarrow> instant \<Rightarrow> backends_config \<Rightarrow> ('c backend_group list, string) result" where
  "grouped_new env now configs = build_groups env now (sort_key fst configs)"

definition or_else :: "'a option \<Rightarrow> 'a option \<Rightarrow> 'a option" where
  "or_else a b = (case a of None \<Rightarrow> b | Some x \<Rightarrow> Some x)"

definition find_group :: "'c backend_group list \<Rightarrow> string option \<Rightarrow> nat option" where
  "find_group groups model =
     or_else (case model of
                Some m \<Rightarrow> find_index (\<lambda>g. \<not> is_catch_all g \<and> maps_model g m) groups
              | None \<Rightarrow> None)
    (or_else (find_index is_catch_all groups)
             (find_index (\<lambda>g. \<not> bg_exclusive g) groups))"

text \<open>A select answers with a guard (and the index of its group) or \<^verbatim>\<open>NoMatchingBackend\<close>; the
  outer \<open>None\<close> is a panic of the inner strategy.\<close>

definition grouped_select ::
  "instant \<Rightarrow> 'c backend_group list \<Rightarrow> string option
     \<Rightarrow> ((nat \<times> guard, no_matching_backend) result \<times> 'c backend_group list) option" where
  "grouped_select now groups model = (case find_group groups model of
       Some i \<Rightarrow>
         (case balancer_select now (bg_balancer (groups ! i)) of
            None \<Rightarrow> None
          | Some (g, b') \<Rightarrow> Some (Ok (i, g\<lparr>group_name := Some (bg_name (groups ! i))\<rparr>),
                               groups[i := (groups ! i)\<lparr>bg_balancer := b'\<rparr>]))
     | None \<Rightarrow> Some (Err \<lparr>requested_model = model\<rparr>, groups))"

definition all_nodes :: "'c backend_group list \<Rightarrow> 'c backend_node list" where
  "all_nodes groups = concat (map (\<lambda>g. balancer_nodes (bg_balancer g)) groups)"

definition build_balancer_from_groups ::
  "('cert, 'ident, 'c, string) client_env \<Rightarrow> instant \<Rightarrow> backends_config \<Rightarrow> ('c backend_group list, string) result" where
  "build_balancer_from_groups env now groups = grouped_new env now groups"

section \<open>Facts\<close>

lemma or_else_simps [simp]: "or_else None b = b" "or_else (Some x) b = Some x"
  by (simp_all add: or_else_def)

lemma filter_eq_single: "distinct zs \<Longrightarrow> k \<in> set zs \<Longrightarrow> filter (\<lambda>x. x = k) zs = [k]"
  by (induction zs) (auto simp: filter_empty_conv)

lemma sort_key_perm:
  assumes "mset xs = mset ys" "distinct (map fst xs)"
  shows "sort_key fst xs = sort_key fst (ys :: ('k :: linorder \<times> 'v) list)"
proof (rule properties_for_sort_key)
  show "mset (sort_key fst ys) = mset xs" using assms(1) by simp
  fix k assume "k \<in> set (sort_key fst ys)"
  then have "k \<in> set xs" using mset_eq_setD [OF assms(1)] by simp
  have inj: "inj_on fst (set xs)" and d: "distinct xs" using assms(2) by (auto simp: distinct_map)
  have sy: "set (sort_key fst ys) = set xs" "distinct (sort_key fst ys)"
    using mset_eq_setD [OF assms(1)] mset_eq_imp_distinct_iff [OF assms(1)] d by simp_all
  have single: "filter (\<lambda>x. fst k = fst x) zs = [k]" if "set zs = set xs" "distinct zs" for zs
  proof -
    have "filter (\<lambda>x. fst k = fst x) zs = filter (\<lambda>x. x = k) zs"
      using that inj \<open>k \<in> set xs\<close> by (intro filter_cong) (auto dest: inj_onD)
    also have "\<dots> = [k]"
      using that \<open>k \<in> set xs\<close> by (intro filter_eq_single) auto
    finally show ?thesis .
  qed
  show "filter (\<lambda>x. fst k = fst x) (sort_key fst ys) = filter (\<lambda>x. fst k = fst x) xs"
    using single [OF sy] single [OF refl d] by simp
qed simp

lemma build_nodes_ok:
  "(\<And>c. c \<in> set cs \<Longrightarrow> is_ok (build_node_client env (nc_timeout_seconds c) (nc_tls c))) \<Longrightarrow>
     \<exists>ns. build_nodes env now cs = Inr ns \<and> map n_url ns = map nc_url cs
       \<and> list_all (\<lambda>n. active_requests n = 0 \<and> healthy n) ns"
proof (induction cs)
  case (Cons c cs)
  from Cons.prems [of c] obtain client where "build_node_client env (nc_timeout_seconds c) (nc_tls c) = Inr client"
    by (auto simp: is_ok_iff)
  moreover from Cons obtain ns where "build_nodes env now cs = Inr ns" "map n_url ns = map nc_url cs"
    "list_all (\<lambda>n. active_requests n = 0 \<and> healthy n) ns" by auto
  ultimately show ?case by (simp add: node_from_config_def)
qed simp

lemma build_balancer_ok:
  "s \<in> {''round_robin'', ''priority_free''} \<Longrightarrow> nodes \<noteq> [] \<Longrightarrow>
     \<exists>b. build_balancer_for_group nodes s = Inr b \<and> balancer_nodes b = nodes"
  by (auto simp: build_balancer_for_group_def strategy_from_str_def round_robin_new_def priority_free_new_def)

text \<open>What a built group keeps of its configuration.\<close>

definition group_of :: "string \<times> backend_group_config \<Rightarrow> 'c backend_group \<Rightarrow> bool" where
  "group_of e g \<longleftrightarrow> bg_name g = fst e \<and> bg_mappings g = gc_mappings (snd e) \<and> bg_exclusive g = gc_exclusive (snd e)
     \<and> map n_url (balancer_nodes (bg_balancer g)) = map nc_url (gc_nodes (snd e))
     \<and> list_all (\<lambda>n. active_requests n = 0 \<and> healthy n) (balancer_nodes (bg_balancer g))"

definition clients_build :: "('cert, 'ident, 'c, string) client_env \<Rightarrow> backends_config \<Rightarrow> bool" where
  "clients_build env gs \<longleftrightarrow> (\<forall>(n, g) \<in> set gs. \<forall>c \<in> set (gc_nodes g). is_ok (build_node_client env (nc_timeout_seconds c) (nc_tls c)))"

lemma build_groups_ok:
  "(\<forall>(n, g) \<in> set es. gc_nodes g \<noteq> [] \<and> gc_strategy g \<in> {''round_robin'', ''priority_free''}) \<Longrightarrow> clients_build env es \<Longrightarrow>
     \<exists>gs. build_groups env now es = Inr gs \<and> list_all2 group_of es gs"
proof (induction es)
  case (Cons e es)
  obtain name config where e: "e = (name, config)" by fastforce
  from Cons.prems have cb: "\<And>c. c \<in> set (gc_nodes config) \<Longrightarrow> is_ok (build_node_client env (nc_timeout_seconds c) (nc_tls c))"
    by (auto simp: clients_build_def e)
  obtain ns where ns: "build_nodes env now (gc_nodes config) = Inr ns" "map n_url ns = map nc_url (gc_nodes config)"
    "list_all (\<lambda>n. active_requests n = 0 \<and> healthy n) ns" using build_nodes_ok [OF cb] by blast
  moreover from ns(2) Cons.prems have "ns \<noteq> []" by (auto simp: e)
  ultimately obtain b where b: "build_balancer_for_group ns (gc_strategy config) = Inr b" "balancer_nodes b = ns"
    using build_balancer_ok [of "gc_strategy config" ns] Cons.prems(1) by (auto simp: e)
  from Cons obtain gs where "build_groups env now es = Inr gs" "list_all2 group_of es gs"
    by (auto simp: clients_build_def)
  with ns b show ?case by (simp add: e group_of_def [of "(name, config)"])
qed simp

lemma grouped_new_ok:
  assumes "backends_ok lenv gs" "clients_build env gs"
  shows "\<exists>groups. grouped_new env now gs = Inr groups \<and> list_all2 group_of (sort_key fst gs) groups"
  unfolding grouped_new_def
  by (rule build_groups_ok) (use assms in \<open>auto simp: backends_ok_def group_config_ok_def clients_build_def\<close>)

lemma find_group_range: "find_group groups model = Some i \<Longrightarrow> i < length groups"
  by (auto simp: find_group_def or_else_def find_index_Some split: option.splits)

text \<open>Where a model is mapped, and by one group only, that group is found.\<close>

lemma find_group_mapped:
  assumes "i < length groups" "m \<in> set (bg_mappings (groups ! i))"
    and unique: "\<And>j. j < length groups \<Longrightarrow> m \<in> set (bg_mappings (groups ! j)) \<Longrightarrow> j = i"
  shows "find_group groups (Some m) = Some i"
proof -
  have "find_index (\<lambda>g. \<not> is_catch_all g \<and> maps_model g m) groups = Some i"
    unfolding find_index_Some
  proof (intro conjI allI impI)
    fix j assume "j < i"
    with assms(1) unique [of j] have "m \<notin> set (bg_mappings (groups ! j))" by auto
    then show "\<not> (\<not> is_catch_all (groups ! j) \<and> maps_model (groups ! j) m)"
      by (auto simp: maps_model_def list_ex_iff)
  qed (use assms(1,2) in \<open>auto simp: is_catch_all_def maps_model_def list_ex_iff\<close>)
  then show ?thesis by (simp add: find_group_def)
qed

lemma find_group_unmapped:
  assumes "\<And>g. g \<in> set groups \<Longrightarrow> m \<notin> set (bg_mappings g)"
  shows "find_group groups (Some m) = find_group groups None"
proof -
  have "find_index (\<lambda>g. \<not> is_catch_all g \<and> maps_model g m) groups = None"
    unfolding find_index_None using assms by (auto simp: maps_model_def list_ex_iff)
  then show ?thesis by (simp add: find_group_def)
qed

lemma find_group_default:
  "find_group groups None = (case find_index is_catch_all groups of
      Some i \<Rightarrow> Some i | None \<Rightarrow> find_index (\<lambda>g. \<not> bg_exclusive g) groups)"
  by (simp add: find_group_def or_else_def)

lemma distinct_concat_owner:
  "distinct (concat (map f xs)) \<Longrightarrow> i < length xs \<Longrightarrow> j < length xs \<Longrightarrow> m \<in> set (f (xs ! i)) \<Longrightarrow> m \<in> set (f (xs ! j)) \<Longrightarrow> i = j"
proof (induction xs arbitrary: i j)
  case (Cons x xs)
  then show ?case
    by (cases i; cases j) (fastforce dest: nth_mem)+
qed simp

lemma distinct_all_mappings_sort:
  "distinct (all_mappings gs) \<Longrightarrow> distinct (all_mappings (sort_key fst gs))"
proof -
  assume "distinct (all_mappings gs)"
  moreover have "mset (all_mappings (sort_key fst gs)) = mset (all_mappings gs)"
    unfolding all_mappings_def by (simp add: mset_concat flip: sum_mset_sum_list)
  ultimately show ?thesis using mset_eq_imp_distinct_iff by blast
qed

section \<open>Properties\<close>

text \<open>A configuration the loader accepts always builds: where the HTTP clients can be built,
  the grouped balancer exists, has the configured groups in name order, and is the same for every
  iteration order of the hash map.\<close>

theorem validated_backends_build:
  assumes "backends_ok lenv gs" "distinct (map fst gs)" "clients_build env gs" "mset gs = mset gs'"
  shows "\<exists>groups. grouped_new env now gs = Inr groups \<and> map bg_name groups = map fst (sort_key fst gs)
     \<and> sorted (map bg_name groups) \<and> list_all2 group_of (sort_key fst gs) groups
     \<and> grouped_new env now gs' = Inr groups"
proof -
  obtain groups where g: "grouped_new env now gs = Inr groups" "list_all2 group_of (sort_key fst gs) groups"
    using grouped_new_ok [OF assms(1,3)] by blast
  have names: "map bg_name groups = map fst (sort_key fst gs)"
    using g(2) by (auto simp: list_all2_conv_all_nth group_of_def intro!: nth_equalityI)
  moreover have "sorted (map fst (sort_key fst gs))" by (rule sorted_sort_key)
  moreover have "grouped_new env now gs' = grouped_new env now gs"
    using sort_key_perm [OF assms(4,2)] by (simp add: grouped_new_def)
  ultimately show ?thesis using g by auto
qed

text \<open>C5. Routing in an accepted configuration: a model that some group maps goes to that group and
  no other; any other request goes to the catch-all group if there is one, else to the first
  non-exclusive group in name order; it is refused exactly when neither exists.\<close>

theorem routing_of_validated_groups:
  assumes "backends_ok lenv gs" "clients_build env gs" "grouped_new env now gs = Inr groups"
  shows "(\<forall>i < length groups. \<forall>m \<in> set (bg_mappings (groups ! i)). find_group groups (Some m) = Some i)
    \<and> (\<forall>model. (\<forall>m. model = Some m \<longrightarrow> m \<notin> set (all_mappings gs)) \<longrightarrow>
         find_group groups model = (case find_index is_catch_all groups of
            Some i \<Rightarrow> Some i | None \<Rightarrow> find_index (\<lambda>g. \<not> bg_exclusive g) groups))"
proof -
  have l: "list_all2 group_of (sort_key fst gs) groups"
    using grouped_new_ok [OF assms(1,2), of now] assms(3) by auto
  have maps: "map bg_mappings groups = map (\<lambda>(n, g). gc_mappings g) (sort_key fst gs)"
    using l by (auto simp: list_all2_conv_all_nth group_of_def split_beta intro!: nth_equalityI)
  have d: "distinct (concat (map bg_mappings groups))"
    using distinct_all_mappings_sort assms(1) maps by (simp add: all_mappings_def backends_ok_def)
  have sets: "set (concat (map bg_mappings groups)) = set (all_mappings gs)"
    unfolding maps by (simp add: all_mappings_def)
  have "find_group groups (Some m) = Some i" if "i < length groups" "m \<in> set (bg_mappings (groups ! i))" for i m
    using find_group_mapped [OF that] distinct_concat_owner [OF d _ that(1)] that by blast
  moreover have "find_group groups model = find_group groups None"
    if "\<forall>m. model = Some m \<longrightarrow> m \<notin> set (all_mappings gs)" for model
  proof (cases model)
    case (Some m)
    with that sets have "m \<notin> set (bg_mappings g)" if "g \<in> set groups" for g using that by auto
    with Some show ?thesis using find_group_unmapped by blast
  qed simp
  ultimately show ?thesis using find_group_default by metis
qed

text \<open>A grouped select never panics on groups with nodes: it is refused with the requested model
  exactly when no group is found, and otherwise claims one node of the found group once, names the
  group in the guard, and leaves the other groups alone.\<close>

theorem grouped_select_spec:
  assumes "\<forall>g \<in> set groups. balancer_nodes (bg_balancer g) \<noteq> [] \<and> loads_bounded (balancer_nodes (bg_balancer g))"
  shows "case find_group groups model of
      None \<Rightarrow> grouped_select now groups model = Some (Err \<lparr>requested_model = model\<rparr>, groups)
    | Some i \<Rightarrow> \<exists>g b'. grouped_select now groups model = Some (Ok (i, g), groups[i := (groups ! i)\<lparr>bg_balancer := b'\<rparr>])
        \<and> i < length groups \<and> group_name g = Some (bg_name (groups ! i))
        \<and> g_node g < length (balancer_nodes (bg_balancer (groups ! i)))
        \<and> balancer_nodes b' = claim_at (g_node g) (balancer_nodes (bg_balancer (groups ! i)))"
proof (cases "find_group groups model")
  case (Some i)
  note r = find_group_range [OF Some]
  with assms have b: "balancer_nodes (bg_balancer (groups ! i)) \<noteq> []" "loads_bounded (balancer_nodes (bg_balancer (groups ! i)))"
    by auto
  obtain g b' where s: "balancer_select now (bg_balancer (groups ! i)) = Some (g, b')"
    using any.select_total [OF b] by blast
  from any.select_claims [OF b(2) s] s Some r show ?thesis by (auto simp: grouped_select_def)
qed (simp add: grouped_select_def)

section \<open>Witnesses\<close>

definition sample_node_config :: "string \<Rightarrow> backend_node_config" where
  "sample_node_config url = \<lparr>nc_url = url, nc_timeout_seconds = 300, nc_tls = None, nc_model = None,
     nc_api_key = None, nc_strip_path_prefix = None, nc_temperature = None\<rparr>"

definition sample_group :: "string list \<Rightarrow> string \<Rightarrow> backend_group_config" where
  "sample_group ms url = \<lparr>gc_mappings = ms, gc_strategy = ''round_robin'', gc_failure_cooldown_secs = 30,
     gc_exclusive = False, gc_nodes = [sample_node_config url]\<rparr>"

definition sample_loader_env :: loader_env where
  "sample_loader_env = \<lparr>path_exists = (\<lambda>_. True), read_to_string = (\<lambda>_. Err ''unreadable''),
     parse_yaml = (\<lambda>_. Err ''no document''), parse_url = (\<lambda>_. Ok \<lparr>url_scheme = ''http'', url_host = Some ''h''\<rparr>),
     parses_as_ip = (\<lambda>_. False), show_f64 = (\<lambda>_. []), debug_str = (\<lambda>s. s)\<rparr>"

definition sample_client_env :: "(unit, unit, unit, string) client_env" where
  "sample_client_env = \<lparr>read_file = (\<lambda>_. Err ''unreadable''), certificate_from_pem = (\<lambda>_. Ok ()),
     identity_from_pem = (\<lambda>_. Ok ()), build_client = (\<lambda>_. Ok ())\<rparr>"

lemma sample_backends_ok:
  "backends_ok sample_loader_env [(''b'', sample_group [''m''] ''u''), (''a'', sample_group [] ''v'')]"
  by (simp add: backends_ok_def sample_loader_env_def sample_group_def sample_node_config_def catch_all_count_def
      all_mappings_def group_config_ok_def node_config_ok_def http_url_ok_def word_le_nat_alt)

lemma sample_clients_build:
  "clients_build sample_client_env [(''b'', sample_group [''m''] ''u''), (''a'', sample_group [] ''v'')]"
  by (simp add: clients_build_def sample_group_def sample_node_config_def build_node_client_def sample_client_env_def)

theorem validated_backends_build_witness:
  "\<exists>groups. grouped_new sample_client_env 0 [(''b'', sample_group [''m''] ''u''), (''a'', sample_group [] ''v'')] = Inr groups
     \<and> grouped_new sample_client_env 0 [(''a'', sample_group [] ''v''), (''b'', sample_group [''m''] ''u'')] = Inr groups"
  using validated_backends_build [OF sample_backends_ok _ sample_clients_build,
      of "[(''a'', sample_group [] ''v''), (''b'', sample_group [''m''] ''u'')]" 0] by auto

theorem routing_of_validated_groups_witness:
  "\<exists>groups. grouped_new sample_client_env 0 [(''b'', sample_group [''m''] ''u''), (''a'', sample_group [] ''v'')] = Inr groups
     \<and> (\<forall>i < length groups. \<forall>m \<in> set (bg_mappings (groups ! i)). find_group groups (Some m) = Some i)"
proof -
  obtain groups where "grouped_new sample_client_env 0
      [(''b'', sample_group [''m''] ''u''), (''a'', sample_group [] ''v'')] = Inr groups"
    using grouped_new_ok [OF sample_backends_ok sample_clients_build, of 0] by blast
  with routing_of_validated_groups [OF sample_backends_ok sample_clients_build this] show ?thesis by blast
qed

theorem grouped_select_spec_witness:
  "\<exists>g b'. grouped_select 5 [\<lparr>bg_mappings = [''m''], bg_balancer = RR \<lparr>rr_nodes = [sample_node ''u'' 0 True 0],
        rr_counter = 0, rr_all_cooled_fallbacks = 0\<rparr>, bg_name = ''g'', bg_exclusive = True\<rparr>] (Some ''m'')
      = Some (Ok (0, g), b') \<and> group_name g = Some ''g''"
  using grouped_select_spec [of "[\<lparr>bg_mappings = [''m''], bg_balancer = RR \<lparr>rr_nodes = [sample_node ''u'' 0 True 0],
        rr_counter = 0, rr_all_cooled_fallbacks = 0\<rparr>, bg_name = ''g'', bg_exclusive = True\<rparr>]" 5 "Some ''m''"]
  by (fastforce simp: find_group_def is_catch_all_def maps_model_def loads_bounded_def sample_node_def word_less_nat_alt)

end
