(* ===== verification/Priority_Free_Concurrent.thy ===== *)
theory Priority_Free_Concurrent
  imports Balancers
begin

text \<open>
  Concurrent \<^verbatim>\<open>select\<close> calls of the priority-free strategy and concurrent guard drops
  (\<^verbatim>\<open>priority_free.rs\<close>, \<^verbatim>\<open>BusyHandle::drop\<close> of \<^verbatim>\<open>balancer.rs\<close>), interleaved at the granularity of
  the atomic operations on the nodes' counters.

  A request is a thread whose program counter says which atomic operation comes next, with the
  locals of \<^verbatim>\<open>select\<close> as arguments. A cooldown test reads the clock and the node's health, which other
  requests change at any time: its outcome is unconstrained here, and so is the node the all-cooled
  fallback picks. The shared state is the list of counters.
\<close>

datatype pc =
    Scan nat  \<comment> \<open>first loop, at this index\<close>
  | Reserve nat "nat option" u64 "nat list"  \<comment> \<open>second loop: index, best, its load, reserved\<close>
  | Release nat "nat list"  \<comment> \<open>release loop: winner, indices still to visit\<close>
  | Fallback nat  \<comment> \<open>about to claim the soonest-to-recover node\<close>
  | Held nat  \<comment> \<open>a guard on this node is alive\<close>
  | Undo nat  \<comment> \<open>a drop found the counter at zero\<close>
  | Gone

inductive tstep :: "nat \<Rightarrow> u64 list \<Rightarrow> pc \<Rightarrow> u64 list \<Rightarrow> pc \<Rightarrow> bool" for n :: nat where
  scan_cooled: "i < n \<Longrightarrow> tstep n c (Scan i) c (Scan (i + 1))"
| scan_claim: "i < n \<Longrightarrow> c ! i = 0 \<Longrightarrow> tstep n c (Scan i) (c[i := 1]) (Held i)"
| scan_busy: "i < n \<Longrightarrow> c ! i \<noteq> 0 \<Longrightarrow> tstep n c (Scan i) c (Scan (i + 1))"
| scan_end: "tstep n c (Scan n) c (Reserve 0 None (- 1) [])"
| reserve_cooled: "i < n \<Longrightarrow> tstep n c (Reserve i b l r) c (Reserve (i + 1) b l r)"
| reserve_better: "i < n \<Longrightarrow> c ! i < l \<Longrightarrow>
    tstep n c (Reserve i b l r) (c[i := c ! i + 1]) (Reserve (i + 1) (Some i) (c ! i) (r @ [i]))"
| reserve_worse: "i < n \<Longrightarrow> \<not> c ! i < l \<Longrightarrow>
    tstep n c (Reserve i b l r) (c[i := c ! i + 1]) (Reserve (i + 1) b l (r @ [i]))"
| reserve_end: "tstep n c (Reserve n (Some b) l r) c (Release b r)"
| reserve_none: "k < n \<Longrightarrow> tstep n c (Reserve n None l r) c (Fallback k)"
| release_winner: "tstep n c (Release b (b # is)) c (Release b is)"
| release_other: "i \<noteq> b \<Longrightarrow> tstep n c (Release b (i # is)) (c[i := c ! i - 1]) (Release b is)"
| release_end: "tstep n c (Release b []) c (Held b)"
| fallback_claim: "tstep n c (Fallback k) (c[k := c ! k + 1]) (Held k)"
| drop_last: "c ! i \<noteq> 0 \<Longrightarrow> tstep n c (Held i) (c[i := c ! i - 1]) Gone"
| drop_zero: "c ! i = 0 \<Longrightarrow> tstep n c (Held i) (c[i := c ! i - 1]) (Undo i)"
| undo: "tstep n c (Undo i) (c[i := c ! i + 1]) Gone"

inductive_cases scan_claimE: "tstep n c (Scan i) c' (Held j)"

text \<open>The system: any number of requests, arriving at any time.\<close>

inductive gstep :: "nat \<Rightarrow> u64 list \<times> pc list \<Rightarrow> u64 list \<times> pc list \<Rightarrow> bool" for n :: nat where
  arrive: "gstep n (c, ts) (c, ts @ [Scan 0])"
| move: "t < length ts \<Longrightarrow> tstep n c (ts ! t) c' p \<Longrightarrow> gstep n (c, ts) (c', ts[t := p])"

inductive reachable :: "nat \<Rightarrow> u64 list \<times> pc list \<Rightarrow> bool" for n :: nat where
  start: "reachable n (replicate n 0, [])"
| step: "reachable n s \<Longrightarrow> gstep n s s' \<Longrightarrow> reachable n s'"

section \<open>Claims\<close>

text \<open>The claims a request holds on a node.\<close>

fun claims :: "pc \<Rightarrow> nat \<Rightarrow> nat" where
  "claims (Reserve j b l r) i = count_list r i"
| "claims (Release b is) i = (if i = b then 1 else count_list is i)"
| "claims (Held j) i = (if i = j then 1 else 0)"
| "claims _ i = 0"

definition total_claims :: "pc list \<Rightarrow> nat \<Rightarrow> nat" where
  "total_claims ts i = sum_list (map (\<lambda>p. claims p i) ts)"

fun wf_pc :: "nat \<Rightarrow> pc \<Rightarrow> bool" where
  "wf_pc n (Scan i) = (i \<le> n)"
| "wf_pc n (Reserve i b l r) = (i \<le> n \<and> distinct r \<and> set r \<subseteq> {..<i}
     \<and> (case b of None \<Rightarrow> r = [] \<and> l = - 1 | Some x \<Rightarrow> x \<in> set r))"
| "wf_pc n (Release b is) = (b < n \<and> distinct is \<and> set is \<subseteq> {..<n})"
| "wf_pc n (Fallback k) = (k < n)"
| "wf_pc n (Held i) = (i < n)"
| "wf_pc n (Undo i) = False"
| "wf_pc n Gone = True"

lemma count_list_distinct: "distinct xs \<Longrightarrow> count_list xs i = (if i \<in> set xs then 1 else 0)"
  by (induction xs) auto

lemma claims_le_1: "wf_pc n p \<Longrightarrow> claims p i \<le> 1"
  by (cases p) (auto simp: count_list_distinct)

lemma total_claims_bound: "list_all (wf_pc n) ts \<Longrightarrow> total_claims ts i \<le> length ts"
  by (induction ts) (auto simp: total_claims_def dest: claims_le_1 [of n _ i])

lemma claims_le_total: "t < length ts \<Longrightarrow> claims (ts ! t) i \<le> total_claims ts i"
  unfolding total_claims_def by (simp add: elem_le_sum_list [of t "map (\<lambda>p. claims p i) ts", simplified])

lemma total_claims_update:
  assumes "t < length ts"
  shows "total_claims (ts[t := p]) i + claims (ts ! t) i = total_claims ts i + claims p i"
proof -
  have "ts = take t ts @ ts ! t # drop (Suc t) ts" using assms by (rule id_take_nth_drop)
  then have "total_claims ts i = sum_list (map (\<lambda>p. claims p i) (take t ts)) + claims (ts ! t) i
      + sum_list (map (\<lambda>p. claims p i) (drop (Suc t) ts))"
    unfolding total_claims_def by (metis (mono_tags, lifting) add.assoc list.simps(9) map_append sum_list.Cons sum_list_append)
  moreover have "total_claims (ts[t := p]) i = sum_list (map (\<lambda>p. claims p i) (take t ts)) + claims p i
      + sum_list (map (\<lambda>p. claims p i) (drop (Suc t) ts))"
    using assms by (simp add: total_claims_def upd_conv_take_nth_drop)
  ultimately show ?thesis by simp
qed

text \<open>One atomic step: well-formed to well-formed, and the counter moves with the claims.\<close>

lemma tstep_wf:
  assumes "tstep n c p c' p'" "wf_pc n p" "\<And>i. i < n \<Longrightarrow> claims p i \<le> unat (c ! i)" "\<And>i. i < n \<Longrightarrow> c ! i < - 1"
  shows "wf_pc n p' \<and> length c' = length c"
  using assms
proof (cases rule: tstep.cases)
  case (drop_zero i)
  with assms(2) assms(3) [of i] show ?thesis by (simp add: unat_eq_0)
next
  case (reserve_worse i l b r)
  with assms(2) assms(4) [of i] show ?thesis by (auto split: option.splits)
qed (auto split: option.splits)

lemma unat_inc: "x < (- 1 :: u64) \<Longrightarrow> unat (x + 1) = Suc (unat x)"
  by (rule unat_u64_Suc) (simp add: word_less_nat_alt)

lemma unat_dec: "x \<noteq> (0 :: u64) \<Longrightarrow> Suc (unat (x - 1)) = unat x"
  by (simp add: unat_minus_one unat_gt_0)

lemma tstep_counts:
  assumes "tstep n c p c' p'" "wf_pc n p" "\<And>i. i < n \<Longrightarrow> claims p i \<le> unat (c ! i)" "\<And>i. i < n \<Longrightarrow> c ! i < - 1"
    and "length c = n" "i < n"
  shows "unat (c' ! i) + claims p i = unat (c ! i) + claims p' i"
  using assms(1)
proof (cases rule: tstep.cases)
  case (release_other k b "is")
  with assms(2) assms(3) [of k] have "c ! k \<noteq> 0" by (auto simp: count_list_distinct)
  with release_other assms(2,5,6) unat_dec [of "c ! k"] show ?thesis
    by (auto simp: nth_list_update count_list_distinct)
next
  case (release_winner b "is")
  with assms(2) show ?thesis by auto
next
  case (reserve_end b l r)
  with assms(2) show ?thesis by (auto simp: count_list_distinct)
next
  case (drop_last k)
  with assms unat_dec [of "c ! k"] show ?thesis by (auto simp: nth_list_update)
next
  case (drop_zero k)
  with assms(2) assms(3) [of k] show ?thesis by simp
qed (use assms in \<open>auto simp: nth_list_update unat_inc count_list_append\<close>)

definition inv :: "nat \<Rightarrow> u64 list \<times> pc list \<Rightarrow> bool" where
  "inv n s \<longleftrightarrow> (case s of (c, ts) \<Rightarrow> length c = n \<and> list_all (wf_pc n) ts \<and> (\<forall>i < n. unat (c ! i) = total_claims ts i))"

lemma inv_start: "inv n (replicate n 0, [])"
  by (simp add: inv_def total_claims_def)

lemma inv_step:
  assumes "inv n (c, ts)" "length ts < 2 ^ 64 - 1" "gstep n (c, ts) s'"
  shows "inv n s'"
  using assms(3)
proof (cases rule: gstep.cases)
  case arrive
  with assms(1) show ?thesis by (simp add: inv_def total_claims_def)
next
  case (move t c' p)
  note i = assms(1) [unfolded inv_def, simplified]
  have wf: "wf_pc n (ts ! t)" using i move(2) by (simp add: list_all_length)
  have le: "k < n \<Longrightarrow> claims (ts ! t) k \<le> unat (c ! k)" for k
    using i claims_le_total [OF move(2)] by simp
  have b: "k < n \<Longrightarrow> c ! k < - 1" for k
    using i total_claims_bound [of n ts k] assms(2) by (simp add: word_less_nat_alt)
  note w = tstep_wf [OF move(3) wf le b]
  have "unat (c' ! k) = total_claims (ts[t := p]) k" if "k < n" for k
    using tstep_counts [OF move(3) wf le b _ that] total_claims_update [OF move(2), of p k] i that by simp
  moreover have "list_all (wf_pc n) (ts[t := p])" using i w by (auto simp: list_all_length nth_list_update_if)
  ultimately show ?thesis using i w move(1) by (simp add: inv_def)
qed

lemma gstep_length: "gstep n (c, ts) (c', ts') \<Longrightarrow> length ts \<le> length ts'"
  by (auto elim: gstep.cases)

lemma reachable_inv: "reachable n s \<Longrightarrow> length (snd s) < 2 ^ 64 - 1 \<Longrightarrow> inv n s"
proof (induction rule: reachable.induct)
  case start
  then show ?case by (simp add: inv_start)
next
  case (step s s')
  obtain c ts where s: "s = (c, ts)" by fastforce
  obtain c' ts' where s': "s' = (c', ts')" by fastforce
  with step.prems step.hyps(2) s have len: "length ts < 2 ^ 64 - 1" using gstep_length by fastforce
  with step.IH s have "inv n (c, ts)" by simp
  from inv_step [OF this len] step.hyps(2) s show ?case by simp
qed

section \<open>Properties\<close>

text \<open>C1. In every interleaving of any number of concurrent selects and drops, each node's counter
  is exactly the number of claims the requests hold on it: no claim is lost or counted twice, no
  drop ever finds its counter at zero, and when every request is gone all counters are zero.\<close>

theorem concurrent_claims_exact:
  assumes "reachable n (c, ts)" "length ts < 2 ^ 64 - 1"
  shows "(\<forall>i < n. unat (c ! i) = total_claims ts i) \<and> (\<forall>i. Undo i \<notin> set ts)
    \<and> (set ts \<subseteq> {Gone} \<longrightarrow> c = replicate n 0)"
proof -
  have "inv n (c, ts)" using reachable_inv [OF assms(1)] assms(2) by simp
  then have i: "length c = n" "list_all (wf_pc n) ts" "\<forall>i < n. unat (c ! i) = total_claims ts i"
    by (simp_all add: inv_def)
  have "Undo k \<notin> set ts" for k using i(2) by (auto simp: list_all_iff)
  moreover have "c = replicate n 0" if "set ts \<subseteq> {Gone}"
  proof (rule nth_equalityI)
    fix k assume "k < length c"
    moreover have "total_claims ts k = 0" using that by (auto simp: total_claims_def)
    ultimately have "unat (c ! k) = 0" using i by simp
    then have "c ! k = 0" by (simp add: unat_eq_0)
    then show "c ! k = replicate n 0 ! k" using \<open>k < length c\<close> i(1) by simp
  qed (simp add: i)
  ultimately show ?thesis using i by blast
qed

text \<open>C2. The free claim is exclusive: when a request's compare-and-swap takes an idle node, no
  request holds a guard or a reservation on it, so two concurrent selects never free-claim the same
  node.\<close>

theorem free_claim_exclusive:
  assumes "reachable n (c, ts)" "length ts < 2 ^ 64 - 1"
    and "t < length ts" "ts ! t = Scan i" "tstep n c (Scan i) c' (Held j)"
  shows "j = i \<and> (\<forall>u < length ts. claims (ts ! u) i = 0) \<and> c' = c[i := 1]"
proof -
  have st: "j = i" "i < n" "c ! i = 0" "c' = c[i := 1]" using assms(5) by (auto elim: scan_claimE)
  have "inv n (c, ts)" using reachable_inv [OF assms(1)] assms(2) by simp
  then have "unat (c ! i) = total_claims ts i" using st(2) by (simp add: inv_def)
  then have "total_claims ts i = 0" using st(3) by simp
  then have "claims (ts ! u) i = 0" if "u < length ts" for u
    using claims_le_total [OF that, of i] by simp
  with st show ?thesis by simp
qed

section \<open>Witnesses\<close>

lemma reachable_one_waiting: "reachable 1 ([1], [Held 0, Scan 0])"
proof -
  have a: "reachable 1 ([0], [Scan 0])"
    using reachable.step [OF reachable.start gstep.arrive, of 1] by simp
  have "gstep 1 ([0], [Scan 0]) ([0][0 := 1], [Scan 0][0 := Held 0])"
    by (rule gstep.move) (use tstep.scan_claim [of 0 1 "[0]"] in auto)
  with a have "reachable 1 ([1], [Held 0])" using reachable.step by fastforce
  from reachable.step [OF this gstep.arrive] show ?thesis by simp
qed

theorem concurrent_claims_exact_witness: "unat ([1 :: u64] ! 0) = total_claims [Held 0, Scan 0] 0"
  using concurrent_claims_exact [OF reachable_one_waiting] by simp

theorem free_claim_exclusive_witness:
  "claims ([Scan 0] ! 0) 0 = 0 \<and> [1 :: u64] = [0][0 := 1]"
proof -
  have a: "reachable 1 ([0], [Scan 0])"
    using reachable.step [OF reachable.start gstep.arrive, of 1] by simp
  have "tstep 1 [0] (Scan 0) ([0][0 := 1]) (Held 0)" by (rule tstep.scan_claim) auto
  with free_claim_exclusive [OF a _ _ _ this, of 0] show ?thesis by simp
qed

end
