(* ===== verification/Fix_Core.thy ===== *)
theory Fix_Core
  imports Json_Scan_Correct
begin

text \<open>
  The interface of the response fixes, \<^verbatim>\<open>llama-proxy/src/fixes/mod.rs\<close> and the snippet clipping of
  \<^verbatim>\<open>registry.rs\<close>: actions, errors, the \<^verbatim>\<open>ResponseFix\<close> trait as a record of functions, and the
  in-place traversal every fix performs over \<^verbatim>\<open>choices\<close> and \<^verbatim>\<open>tool_calls\<close>.

  A fix may panic: the outer \<open>None\<close> of \<open>'a run\<close>. What belongs to \<^verbatim>\<open>serde_json\<close> is the record
  \<open>serde_env\<close>: parsing and printing of values, decoding of a string token, and the entry stream.
\<close>

section \<open>Actions and errors\<close>

datatype fix_log_level = LogTrace | LogDebug | LogInfo | LogWarn

datatype fix_action =
    NotApplicable
  | Fixed (original_snippet: string) (fixed_snippet: string)
  | Failed (original_snippet: string) (attempted_fix: string)

fun detected :: "fix_action \<Rightarrow> bool" where
  "detected NotApplicable = False"
| "detected (Fixed _ _) = True"
| "detected (Failed _ _) = True"

text \<open>The loop of \<^verbatim>\<open>aggregate_repairs\<close>: only completed repairs contribute.\<close>

fun fold_repairs :: "fix_action list \<Rightarrow> string \<Rightarrow> string \<Rightarrow> string \<times> string" where
  "fold_repairs [] originals fixeds = (originals, fixeds)"
| "fold_repairs (Fixed original fixed # as) originals fixeds =
     (if originals \<noteq> []
      then fold_repairs as (originals @ '' ;; '' @ original) (fixeds @ '' ;; '' @ fixed)
      else fold_repairs as original (fixeds @ fixed))"
| "fold_repairs (_ # as) originals fixeds = fold_repairs as originals fixeds"

fun aggregate_repairs :: "fix_action list \<Rightarrow> fix_action" where
  "aggregate_repairs [] = NotApplicable"
| "aggregate_repairs [single] = single"
| "aggregate_repairs many =
     (let (originals, fixeds) = fold_repairs many [] [] in
      Fixed (digits (length many) @ '' repairs: '' @ originals) (digits (length many) @ '' repairs: '' @ fixeds))"

datatype fix_error = Parse string | Rebuild string

fun fix_error_text :: "fix_error \<Rightarrow> string" where
  "fix_error_text (Parse m) = ''parse error: '' @ m"
| "fix_error_text (Rebuild m) = ''rebuild error: '' @ m"

text \<open>A run: a panic, an error, or a result.\<close>

type_synonym 'a run = "('a, fix_error) result option"

definition bind_run :: "'a run \<Rightarrow> ('a \<Rightarrow> 'b run) \<Rightarrow> 'b run" where
  "bind_run m f = (case m of None \<Rightarrow> None | Some (Inl e) \<Rightarrow> Some (Inl e) | Some (Inr x) \<Rightarrow> f x)"

lemma bind_run_simps [simp]:
  "bind_run None f = None" "bind_run (Some (Inl e)) f = Some (Inl e)" "bind_run (Some (Inr x)) f = f x"
  by (simp_all add: bind_run_def)

lemma bind_run_Ok: "bind_run m f = Some (Inr y) \<longleftrightarrow> (\<exists>x. m = Some (Inr x) \<and> f x = Some (Inr y))"
  by (auto simp: bind_run_def split: option.splits sum.splits)

record serde_env =
  parse_value :: "string \<Rightarrow> json option"
  print_value :: "json \<Rightarrow> (string, string) result"
  display_value :: "json \<Rightarrow> string"
  decode_string :: "string \<Rightarrow> string option"
  entry_stream :: "string \<Rightarrow> map_event list option"

section \<open>Snippets\<close>

datatype snippet_limit = Chars | Bytes

fun boundary_below :: "string \<Rightarrow> nat \<Rightarrow> nat" where
  "boundary_below s 0 = 0"
| "boundary_below s (Suc n) = (if is_char_boundary s (Suc n) then Suc n else boundary_below s n)"

definition truncate_snippet :: "string \<Rightarrow> nat \<Rightarrow> snippet_limit \<Rightarrow> string" where
  "truncate_snippet s max_len limit = (case limit of
       Chars \<Rightarrow>
         if char_count s \<le> max_len then s
         else if max_len < 3 then concat (take max_len (chars s))
         else concat (take (max_len - 3) (chars s)) @ ''...''
     | Bytes \<Rightarrow>
         if length s \<le> max_len then s
         else (let end_pos = boundary_below s max_len in
               if max_len < 3 then take end_pos s else take end_pos s @ ''...''))"

section \<open>The trait\<close>

record response_fix =
  rf_name :: string
  rf_log_level :: fix_log_level
  rf_applies :: "json \<Rightarrow> bool"
  rf_apply :: "json \<Rightarrow> (json \<times> fix_action) option"
  rf_applies_with_context :: "json \<Rightarrow> json \<Rightarrow> bool"
  rf_apply_with_context :: "json \<Rightarrow> json \<Rightarrow> (json \<times> fix_action) run"

text \<open>The trait's default methods: no log level override, the context ignored.\<close>

definition default_log_level :: fix_log_level where "default_log_level = LogInfo"

definition default_applies_with_context :: "(json \<Rightarrow> bool) \<Rightarrow> json \<Rightarrow> json \<Rightarrow> bool" where
  "default_applies_with_context applies response request = applies response"

definition default_apply_with_context ::
  "(json \<Rightarrow> (json \<times> fix_action) option) \<Rightarrow> json \<Rightarrow> json \<Rightarrow> (json \<times> fix_action) run" where
  "default_apply_with_context apply_fix response request = map_option Inr (apply_fix response)"

section \<open>Traversal\<close>

text \<open>\<^verbatim>\<open>if let Some(x) = v.get_mut(k)\<close> and \<^verbatim>\<open>as_array_mut\<close>, threading a state through the body.\<close>

definition in_key :: "string \<Rightarrow> (json \<Rightarrow> 's \<Rightarrow> (json \<times> 's) run) \<Rightarrow> json \<Rightarrow> 's \<Rightarrow> (json \<times> 's) run" where
  "in_key k f v s = (case v of
       JObj m \<Rightarrow> (case map_of m k of
           None \<Rightarrow> Some (Inr (v, s))
         | Some x \<Rightarrow> bind_run (f x s) (\<lambda>(x', s'). Some (Inr (JObj (jmap_insert k x' m), s'))))
     | _ \<Rightarrow> Some (Inr (v, s)))"

fun each :: "(json \<Rightarrow> 's \<Rightarrow> (json \<times> 's) run) \<Rightarrow> json list \<Rightarrow> 's \<Rightarrow> (json list \<times> 's) run" where
  "each f [] s = Some (Inr ([], s))"
| "each f (x # xs) s =
     bind_run (f x s) (\<lambda>(x', s'). bind_run (each f xs s') (\<lambda>(xs', s''). Some (Inr (x' # xs', s''))))"

definition in_array :: "(json list \<Rightarrow> 's \<Rightarrow> (json list \<times> 's) run) \<Rightarrow> json \<Rightarrow> 's \<Rightarrow> (json \<times> 's) run" where
  "in_array f v s = (case v of
       JArr xs \<Rightarrow> bind_run (f xs s) (\<lambda>(xs', s'). Some (Inr (JArr xs', s')))
     | _ \<Rightarrow> Some (Inr (v, s)))"

definition andthen :: "(json \<Rightarrow> 's \<Rightarrow> (json \<times> 's) run) \<Rightarrow> (json \<Rightarrow> 's \<Rightarrow> (json \<times> 's) run) \<Rightarrow> json \<Rightarrow> 's \<Rightarrow> (json \<times> 's) run" where
  "andthen f g v s = bind_run (f v s) (\<lambda>(v', s'). g v' s')"

text \<open>A traversal keeps well-formed values well-formed, and leaves other keys alone.\<close>

definition keeps :: "(json \<Rightarrow> bool) \<Rightarrow> (json \<Rightarrow> 's \<Rightarrow> (json \<times> 's) run) \<Rightarrow> bool" where
  "keeps P f \<longleftrightarrow> (\<forall>v s v' s'. P v \<longrightarrow> f v s = Some (Inr (v', s')) \<longrightarrow> P v')"

lemma keepsI: "(\<And>v s v' s'. P v \<Longrightarrow> f v s = Some (Inr (v', s')) \<Longrightarrow> P v') \<Longrightarrow> keeps P f"
  by (auto simp: keeps_def)

lemma keepsD: "keeps P f \<Longrightarrow> P v \<Longrightarrow> f v s = Some (Inr (v', s')) \<Longrightarrow> P v'"
  by (auto simp: keeps_def)

lemma in_key_cases:
  "in_key k f v s = Some (Inr (v', s')) \<Longrightarrow>
     (v' = v \<and> s' = s \<and> get v k = None)
   \<or> (\<exists>m x x'. v = JObj m \<and> map_of m k = Some x \<and> f x s = Some (Inr (x', s')) \<and> v' = JObj (jmap_insert k x' m))"
  by (cases v) (auto simp: in_key_def bind_run_Ok split: option.splits)

lemma in_key_get: "in_key k f v s = Some (Inr (v', s')) \<Longrightarrow> j \<noteq> k \<Longrightarrow> get v' j = get v j"
  by (auto dest!: in_key_cases simp: map_of_jmap_insert)

lemma wf_insert: "wf_json (JObj m) \<Longrightarrow> wf_json x \<Longrightarrow> wf_json (JObj (jmap_insert k x m))"
  by (simp add: keys_distinct_insert list_all_jmap_insert)

lemma in_key_wf: "keeps wf_json f \<Longrightarrow> keeps wf_json (in_key k f)"
proof (rule keepsI)
  fix v s v' s'
  assume f: "keeps wf_json f" and v: "wf_json v" and r: "in_key k f v s = Some (Inr (v', s'))"
  from in_key_cases [OF r] show "wf_json v'"
  proof (elim disjE exE conjE)
    fix m x x' assume m: "v = JObj m" "map_of m k = Some x" "f x s = Some (Inr (x', s'))" "v' = JObj (jmap_insert k x' m)"
    with v have "wf_json x" using wf_json_get [of v k x] by simp
    with f m(3) have "wf_json x'" by (blast dest: keepsD)
    with v m show "wf_json v'" using wf_insert by blast
  qed (use v in simp)
qed

lemma each_wf: "keeps wf_json f \<Longrightarrow> list_all wf_json xs \<Longrightarrow> each f xs s = Some (Inr (xs', s')) \<Longrightarrow> list_all wf_json xs'"
proof (induction xs arbitrary: s xs')
  case (Cons x xs)
  from Cons.prems(3) obtain x' s1 ys where "f x s = Some (Inr (x', s1))" "each f xs s1 = Some (Inr (ys, s'))" "xs' = x' # ys"
    by (auto simp: bind_run_Ok)
  with Cons.prems Cons.IH [of s1 ys] show ?case by (auto dest: keepsD)
qed simp

lemma in_array_wf: "keeps wf_json f \<Longrightarrow> keeps wf_json (in_array (each f))"
proof (rule keepsI)
  fix v s v' s'
  assume "keeps wf_json f" "wf_json v" "in_array (each f) v s = Some (Inr (v', s'))"
  then show "wf_json v'" by (cases v) (auto simp: in_array_def bind_run_Ok dest: each_wf)
qed

lemma andthen_wf: "keeps wf_json f \<Longrightarrow> keeps wf_json g \<Longrightarrow> keeps wf_json (andthen f g)"
  by (rule keepsI) (auto simp: andthen_def bind_run_Ok dest: keepsD)

lemmas traversal_wf = in_key_wf in_array_wf andthen_wf

lemma each_length: "each f xs s = Some (Inr (xs', s')) \<Longrightarrow> length xs' = length xs"
  by (induction xs arbitrary: s xs') (auto simp: bind_run_Ok)

text \<open>A traversal that collects completed repairs changes a value only together with a report.\<close>

definition is_fixed :: "fix_action \<Rightarrow> bool" where
  "is_fixed a = (case a of Fixed _ _ \<Rightarrow> True | _ \<Rightarrow> False)"

definition reports :: "'v \<Rightarrow> fix_action list \<Rightarrow> 'v \<Rightarrow> fix_action list \<Rightarrow> bool" where
  "reports v s v' s' \<longleftrightarrow> (\<exists>xs. s' = s @ xs \<and> list_all is_fixed xs \<and> (xs = [] \<longrightarrow> v' = v))"

definition logs :: "(json \<Rightarrow> fix_action list \<Rightarrow> (json \<times> fix_action list) run) \<Rightarrow> bool" where
  "logs f \<longleftrightarrow> (\<forall>v s v' s'. f v s = Some (Inr (v', s')) \<longrightarrow> reports v s v' s')"

lemma logsI: "(\<And>v s v' s'. f v s = Some (Inr (v', s')) \<Longrightarrow> reports v s v' s') \<Longrightarrow> logs f"
  by (simp add: logs_def)

lemma logsD: "logs f \<Longrightarrow> f v s = Some (Inr (v', s')) \<Longrightarrow> reports v s v' s'"
  by (simp add: logs_def)

lemma reports_refl: "reports v s v s"
  by (simp add: reports_def)

lemma reports_one: "reports v s v' (s @ [Fixed a b])"
  by (simp add: reports_def is_fixed_def)

lemma reports_trans: "reports v s v1 s1 \<Longrightarrow> reports v1 s1 v2 s2 \<Longrightarrow> reports v s v2 s2"
  by (auto simp: reports_def)

lemma reports_map: "reports x s x' s' \<Longrightarrow> (x' = x \<Longrightarrow> v' = v) \<Longrightarrow> reports v s v' s'"
  by (auto simp: reports_def)

lemma in_key_logs: "logs f \<Longrightarrow> logs (in_key k f)"
proof (rule logsI)
  fix v s v' s' assume f: "logs f" and r: "in_key k f v s = Some (Inr (v', s'))"
  from in_key_cases [OF r] show "reports v s v' s'"
  proof (elim disjE exE conjE)
    fix m x x' assume m: "v = JObj m" "map_of m k = Some x" "f x s = Some (Inr (x', s'))" "v' = JObj (jmap_insert k x' m)"
    from logsD [OF f m(3)] show "reports v s v' s'"
      by (rule reports_map) (use m in \<open>simp add: jmap_insert_id\<close>)
  qed (simp add: reports_refl)
qed

lemma each_logs: "logs f \<Longrightarrow> each f xs s = Some (Inr (xs', s')) \<Longrightarrow> reports xs s xs' s'"
proof (induction xs arbitrary: s xs')
  case (Cons x xs)
  from Cons.prems(2) obtain x' s1 ys where h: "f x s = Some (Inr (x', s1))" "each f xs s1 = Some (Inr (ys, s'))" "xs' = x' # ys"
    by (auto simp: bind_run_Ok)
  from reports_map [OF logsD [OF Cons.prems(1) h(1)], of "x' # xs" "x # xs"]
    reports_map [OF Cons.IH [OF Cons.prems(1) h(2)], of "x' # ys" "x' # xs"] h(3)
  show ?case using reports_trans by fastforce
qed (simp add: reports_refl)

lemma in_array_logs: "logs f \<Longrightarrow> logs (in_array (each f))"
proof (rule logsI)
  fix v s v' s' assume f: "logs f" and r: "in_array (each f) v s = Some (Inr (v', s'))"
  show "reports v s v' s'"
  proof (cases v)
    case (JArr xs)
    with r obtain ys where "each f xs s = Some (Inr (ys, s'))" "v' = JArr ys" by (auto simp: in_array_def bind_run_Ok)
    with each_logs [OF f this(1)] JArr show ?thesis by (auto elim!: reports_map)
  qed (use r in \<open>auto simp: in_array_def reports_refl\<close>)
qed

lemma andthen_logs: "logs f \<Longrightarrow> logs g \<Longrightarrow> logs (andthen f g)"
proof (rule logsI)
  fix v s v' s' assume fg: "logs f" "logs g" and "andthen f g v s = Some (Inr (v', s'))"
  then obtain v1 s1 where "f v s = Some (Inr (v1, s1))" "g v1 s1 = Some (Inr (v', s'))"
    by (auto simp: andthen_def bind_run_Ok)
  with fg show "reports v s v' s'" by (blast dest: logsD intro: reports_trans)
qed

lemmas traversal_logs = in_key_logs in_array_logs andthen_logs

lemma aggregate_NotApplicable: "list_all is_fixed xs \<Longrightarrow> aggregate_repairs xs = NotApplicable \<Longrightarrow> xs = []"
  by (cases xs rule: aggregate_repairs.cases) (auto simp: is_fixed_def split_beta)

text \<open>A response walk: into \<^verbatim>\<open>choices\<close>, over every choice, collecting repairs.\<close>

definition walk :: "(json \<Rightarrow> fix_action list \<Rightarrow> (json \<times> fix_action list) run) \<Rightarrow> json \<Rightarrow> (json \<times> fix_action) run" where
  "walk f response = bind_run (in_key ''choices'' (in_array (each f)) response [])
     (\<lambda>(response', repairs). Some (Inr (response', aggregate_repairs repairs)))"

lemma walk_unreported: "logs f \<Longrightarrow> walk f r = Some (Inr (r', NotApplicable)) \<Longrightarrow> r' = r"
proof -
  assume f: "logs f" and w: "walk f r = Some (Inr (r', NotApplicable))"
  then obtain xs where x: "in_key ''choices'' (in_array (each f)) r [] = Some (Inr (r', xs))" "aggregate_repairs xs = NotApplicable"
    by (auto simp: walk_def bind_run_Ok)
  have "reports r [] r' xs" using traversal_logs f x(1) by (blast dest: logsD)
  then have "list_all is_fixed xs" "xs = [] \<longrightarrow> r' = r" by (auto simp: reports_def)
  with aggregate_NotApplicable x(2) show ?thesis by blast
qed

lemma walk_frame: "walk f r = Some (Inr (r', a)) \<Longrightarrow> k \<noteq> ''choices'' \<Longrightarrow> get r' k = get r k"
  by (auto simp: walk_def bind_run_Ok dest: in_key_get)

lemma walk_wf: "keeps wf_json f \<Longrightarrow> wf_json r \<Longrightarrow> walk f r = Some (Inr (r', a)) \<Longrightarrow> wf_json r'"
  by (auto simp: walk_def bind_run_Ok dest: keepsD [OF in_key_wf [OF in_array_wf]])

subsection \<open>Clipping\<close>

lemma takeWhile_takeWhile_same: "takeWhile P (takeWhile P xs) = takeWhile P xs"
  by (auto simp: takeWhile_eq_all_conv dest: set_takeWhileD)

lemma dropWhile_takeWhile_same: "dropWhile P (takeWhile P xs) = []"
  by (auto dest: set_takeWhileD)

lemma chars_take: "chars (concat (take n (chars s))) = take n (chars s)"
proof (induction s arbitrary: n rule: chars.induct)
  case (2 b bs)
  show ?case
  proof (cases n)
    case (Suc m)
    let ?r = "concat (take m (chars (dropWhile is_cont bs)))"
    have "?r = [] \<or> \<not> is_cont (hd ?r)"
    proof (cases "m = 0 \<or> dropWhile is_cont bs = []")
      case False
      then obtain d ds where "dropWhile is_cont bs = d # ds" "\<not> is_cont d"
        by (metis hd_dropWhile list.collapse)
      with False show ?thesis by (cases m) auto
    next
      case True
      then show ?thesis
      proof
        assume e: "dropWhile is_cont bs = []"
        show ?thesis unfolding e by simp
      qed simp
    qed
    from takeWhile_append_stop [of ?r is_cont, OF this, of "takeWhile is_cont bs"]
      dropWhile_append_stop [of ?r is_cont, OF this, of "takeWhile is_cont bs"]
    have "takeWhile is_cont (takeWhile is_cont bs @ ?r) = takeWhile is_cont bs"
      "dropWhile is_cont (takeWhile is_cont bs @ ?r) = ?r"
      by (simp_all only: takeWhile_takeWhile_same dropWhile_takeWhile_same append_Nil)
    with Suc 2 [of m] show ?thesis by simp
  qed simp
qed simp

text \<open>A snippet clipped by characters is never longer than its budget, and what is kept is a
  prefix of the original; a snippet within the budget is returned unchanged.\<close>

theorem truncate_snippet_within_budget:
  "char_count (truncate_snippet s n Chars) \<le> n
   \<and> (char_count s \<le> n \<longrightarrow> truncate_snippet s n Chars = s)
   \<and> (char_count s > n \<longrightarrow> (\<exists>kept. truncate_snippet s n Chars = kept @ (if n < 3 then [] else ''...'') \<and> (\<exists>rest. s = kept @ rest)))"
proof -
  have dots: "chars (concat (take k (chars s)) @ ''...'') = take k (chars s) @ [''.'', ''.'', ''.'']" for k
    by (subst chars_append) (auto simp: chars_take is_cont_def)
  have pre: "\<exists>rest. s = concat (take k (chars s)) @ rest" for k
    using concat_chars [of s] by (metis append_take_drop_id concat_append)
  have "char_count (truncate_snippet s n Chars) \<le> n"
    using dots by (auto simp: truncate_snippet_def char_count_def chars_take)
  moreover have "\<exists>kept. truncate_snippet s n Chars = kept @ (if n < 3 then [] else ''...'') \<and> (\<exists>rest. s = kept @ rest)"
    if "char_count s > n"
    using that pre by (auto simp: truncate_snippet_def)
  ultimately show ?thesis by (simp add: truncate_snippet_def)
qed

theorem truncate_snippet_within_budget_witness: "char_count (truncate_snippet ''abcdef'' 5 Chars) \<le> 5"
  using truncate_snippet_within_budget [of "''abcdef''" 5] by blast

section \<open>The contract of a fix\<close>

text \<open>What the registry and its callers rely on: a fix changes nothing it does not report, reports
  only with an answer, touches nothing outside \<^verbatim>\<open>choices\<close>, and keeps values well-formed.\<close>

locale fix_contract =
  fixes apply_ctx :: "json \<Rightarrow> json \<Rightarrow> (json \<times> fix_action) run"
  assumes unreported_is_identity: "apply_ctx r q = Some (Inr (r', NotApplicable)) \<Longrightarrow> r' = r"
    and outside_choices: "apply_ctx r q = Some (Inr (r', a)) \<Longrightarrow> k \<noteq> ''choices'' \<Longrightarrow> get r' k = get r k"
    and keeps_wf: "wf_json r \<Longrightarrow> apply_ctx r q = Some (Inr (r', a)) \<Longrightarrow> wf_json r'"
begin

text \<open>The registry's fail-safe step around the fix: an error forwards the original.\<close>

definition safe_step :: "json \<Rightarrow> json \<Rightarrow> json option" where
  "safe_step q r = (case apply_ctx r q of None \<Rightarrow> None | Some (Inl e) \<Rightarrow> Some r | Some (Inr (r', a)) \<Rightarrow> Some r')"

lemma safe_step_wf: "wf_json r \<Longrightarrow> safe_step q r = Some r' \<Longrightarrow> wf_json r'"
  by (auto simp: safe_step_def split: option.splits sum.splits dest: keeps_wf)

lemma safe_step_frame: "safe_step q r = Some r' \<Longrightarrow> k \<noteq> ''choices'' \<Longrightarrow> get r' k = get r k"
  by (auto simp: safe_step_def split: option.splits sum.splits dest: outside_choices)

end

end
