(* ===== verification/Null_Index_Fix.thy ===== *)
theory Null_Index_Fix
  imports Fix_Core
begin

text \<open>
  The index repair, \<^verbatim>\<open>llama-proxy/src/fixes/toolcall_null_index_fix.rs\<close>: entries of a
  \<^verbatim>\<open>tool_calls\<close> array without a numeric \<^verbatim>\<open>index\<close> get their position. The mutable walk returns the
  updated array and whether anything was repaired.
\<close>

section \<open>Operations\<close>

definition needs_index_fix :: "json \<Rightarrow> bool" where
  "needs_index_fix tool_call = (case get tool_call ''index'' of
       None \<Rightarrow> True
     | Some JNull \<Rightarrow> True
     | Some (JNum _) \<Rightarrow> False
     | _ \<Rightarrow> True)"

text \<open>\<^verbatim>\<open>(idx as u32).into()\<close>: the position modulo 2 to the 32, as an unsigned number.\<close>

definition index_value :: "nat \<Rightarrow> json" where
  "index_value idx = JNum (PosInt (ucast (of_nat idx :: 32 word)))"

fun assign_from :: "nat \<Rightarrow> json list \<Rightarrow> json list \<times> bool" where
  "assign_from idx [] = ([], False)"
| "assign_from idx (tc # tcs) =
     (let (rest, fixed_any) = assign_from (Suc idx) tcs in
      if needs_index_fix tc
      then (case tc of
              JObj m \<Rightarrow> (JObj (jmap_insert ''index'' (index_value idx) m) # rest, True)
            | _ \<Rightarrow> (tc # rest, fixed_any))
      else (tc # rest, fixed_any))"

definition assign_sequential_indices :: "json list \<Rightarrow> json list \<times> bool" where
  "assign_sequential_indices tool_calls = assign_from 0 tool_calls"

text \<open>One side of a choice, \<^verbatim>\<open>message\<close> or \<^verbatim>\<open>delta\<close>: its \<^verbatim>\<open>tool_calls\<close> array, if it has one.\<close>

definition fix_side :: "string \<Rightarrow> json \<Rightarrow> json \<times> bool" where
  "fix_side side choice = (case get choice side of
       None \<Rightarrow> (choice, False)
     | Some obj \<Rightarrow> (case get_array obj ''tool_calls'' of
           None \<Rightarrow> (choice, False)
         | Some tcs \<Rightarrow>
             (let (tcs', fixed) = assign_sequential_indices tcs in
              (update_key side (update_key ''tool_calls'' (\<lambda>_. JArr tcs')) choice, fixed))))"

definition fix_choice :: "json \<Rightarrow> json \<times> bool" where
  "fix_choice choice =
     (let (c1, f1) = fix_side ''message'' choice; (c2, f2) = fix_side ''delta'' c1 in (c2, f1 \<or> f2))"

definition fix_tool_calls_in_choices :: "json list \<Rightarrow> json list \<times> bool" where
  "fix_tool_calls_in_choices choices =
     (map (\<lambda>c. fst (fix_choice c)) choices, list_ex (\<lambda>c. snd (fix_choice c)) choices)"

definition side_needs_fix :: "string \<Rightarrow> json \<Rightarrow> bool" where
  "side_needs_fix side choice =
     is_some_and (list_ex needs_index_fix) (Option.bind (get choice side) (\<lambda>m. get_array m ''tool_calls''))"

definition null_index_applies :: "json \<Rightarrow> bool" where
  "null_index_applies response =
     is_some_and (list_ex (\<lambda>c. side_needs_fix ''message'' c \<or> side_needs_fix ''delta'' c)) (get_array response ''choices'')"

definition null_index_apply :: "json \<Rightarrow> json \<times> fix_action" where
  "null_index_apply response = (case get_array response ''choices'' of
       None \<Rightarrow> (response, NotApplicable)
     | Some choices \<Rightarrow>
         (let (choices', fixed_any) = fix_tool_calls_in_choices choices;
              response' = update_key ''choices'' (\<lambda>_. JArr choices') response in
          if fixed_any
          then (response', Fixed ''tool_calls with null/missing indices''
                             ''tool_calls with sequential indices (0, 1, 2, ...)'')
          else (response', NotApplicable)))"

definition null_index_fix :: response_fix where
  "null_index_fix = \<lparr>rf_name = ''toolcall_null_index_fix'', rf_log_level = LogDebug,
     rf_applies = null_index_applies, rf_apply = (\<lambda>r. Some (null_index_apply r)),
     rf_applies_with_context = default_applies_with_context null_index_applies,
     rf_apply_with_context = default_apply_with_context (\<lambda>r. Some (null_index_apply r))\<rparr>"

section \<open>Facts\<close>

lemma length_assign [simp]: "length (fst (assign_from i tcs)) = length tcs"
  by (induction i tcs rule: assign_from.induct) (auto simp: Let_def split_beta split: json.splits)

text \<open>The array repair, entry by entry.\<close>

definition repaired :: "nat \<Rightarrow> json \<Rightarrow> json" where
  "repaired idx tc = (if needs_index_fix tc then
      (case tc of JObj m \<Rightarrow> JObj (jmap_insert ''index'' (index_value idx) m) | _ \<Rightarrow> tc) else tc)"

lemma assign_from_nth: "j < length tcs \<Longrightarrow> fst (assign_from i tcs) ! j = repaired (i + j) (tcs ! j)"
proof (induction tcs arbitrary: i j)
  case (Cons tc tcs)
  show ?case
  proof (cases j)
    case 0
    then show ?thesis by (auto simp: repaired_def Let_def split_beta split: json.splits)
  next
    case (Suc k)
    with Cons.prems Cons.IH [of k "Suc i"] show ?thesis by (auto simp: Let_def split_beta split: json.splits)
  qed
qed simp

lemma repaired_eq: "\<not> (needs_index_fix tc \<and> is_object tc) \<Longrightarrow> repaired idx tc = tc"
  by (cases tc) (auto simp: repaired_def is_object_def)

lemma assign_from_flag: "snd (assign_from i tcs) \<longleftrightarrow> (\<exists>tc \<in> set tcs. needs_index_fix tc \<and> is_object tc)"
  by (induction i tcs rule: assign_from.induct) (auto simp: Let_def split_beta is_object_def split: json.splits)

lemma assign_from_unflagged: "\<not> snd (assign_from i tcs) \<Longrightarrow> fst (assign_from i tcs) = tcs"
  by (intro nth_equalityI) (auto simp: assign_from_nth assign_from_flag repaired_eq)

lemma needs_index_fix_repaired: "needs_index_fix (repaired idx tc) \<Longrightarrow> \<not> is_object tc \<and> repaired idx tc = tc"
  by (cases tc) (auto simp: repaired_def needs_index_fix_def index_value_def is_object_def map_of_jmap_insert split: if_splits)

lemma is_object_repaired: "is_object (repaired idx tc) = is_object tc"
  by (cases tc) (auto simp: repaired_def is_object_def)

lemma fix_side_unflagged: "\<not> snd (fix_side side c) \<Longrightarrow> fst (fix_side side c) = c"
proof (cases "get c side")
  case (Some obj)
  assume f: "\<not> snd (fix_side side c)"
  show ?thesis
  proof (cases "get_array obj ''tool_calls''")
    case tc: (Some tcs)
    from f Some tc have "fst (assign_from 0 tcs) = tcs"
      by (intro assign_from_unflagged) (auto simp: fix_side_def assign_sequential_indices_def split_beta)
    moreover from tc have "get obj ''tool_calls'' = Some (JArr tcs)" by (simp add: get_array_Some)
    ultimately show ?thesis using Some tc
      by (auto simp: fix_side_def assign_sequential_indices_def split_beta intro!: update_key_id)
  qed (simp add: fix_side_def Some)
qed (simp add: fix_side_def)

lemma fix_choice_unflagged: "\<not> snd (fix_choice c) \<Longrightarrow> fst (fix_choice c) = c"
  using fix_side_unflagged [of "''message''" c] fix_side_unflagged [of "''delta''" c]
  by (auto simp: fix_choice_def Let_def split_beta)

lemma null_index_unreported: "null_index_apply r = (r', NotApplicable) \<Longrightarrow> r' = r"
proof (cases "get_array r ''choices''")
  case (Some choices)
  assume n: "null_index_apply r = (r', NotApplicable)"
  from Some have g: "get r ''choices'' = Some (JArr choices)" by (simp add: get_array_Some)
  from n Some have "\<not> list_ex (\<lambda>c. snd (fix_choice c)) choices"
    by (auto simp: null_index_apply_def fix_tool_calls_in_choices_def Let_def split: if_splits)
  then have "map (\<lambda>c. fst (fix_choice c)) choices = choices"
    by (intro map_idI) (auto simp: list_ex_iff fix_choice_unflagged)
  with n Some g show ?thesis
    by (auto simp: null_index_apply_def fix_tool_calls_in_choices_def Let_def intro!: update_key_id split: if_splits)
qed (simp add: null_index_apply_def)

lemma null_index_frame: "null_index_apply r = (r', a) \<Longrightarrow> k \<noteq> ''choices'' \<Longrightarrow> get r' k = get r k"
  by (auto simp: null_index_apply_def Let_def split_beta get_update_key split: option.splits if_splits)

lemma wf_repaired: "wf_json tc \<Longrightarrow> wf_json (repaired idx tc)"
  by (cases tc) (auto simp: repaired_def index_value_def keys_distinct_insert list_all_jmap_insert)

lemma wf_assign: "list_all wf_json tcs \<Longrightarrow> list_all wf_json (fst (assign_from i tcs))"
  by (simp add: list_all_length assign_from_nth wf_repaired)

lemma fix_side_wf: "wf_json c \<Longrightarrow> wf_json (fst (fix_side side c))"
proof -
  assume c: "wf_json c"
  show ?thesis
  proof (cases "Option.bind (get c side) (\<lambda>m. get_array m ''tool_calls'')")
    case (Some tcs)
    then obtain obj where o: "get c side = Some obj" "get_array obj ''tool_calls'' = Some tcs" by (auto simp: bind_eq_Some_conv)
    from c o(1) have "wf_json obj" by (rule wf_json_get)
    with o(2) have "list_all wf_json tcs" using wf_json_get by (fastforce simp: get_array_Some)
    then have "wf_json (JArr (fst (assign_from 0 tcs)))" by (simp add: wf_assign)
    with c o \<open>wf_json obj\<close> show ?thesis
      by (auto simp: fix_side_def assign_sequential_indices_def split_beta intro!: wf_json_update_key)
  qed (auto simp: fix_side_def c bind_eq_None_conv split: option.splits)
qed

lemma null_index_wf: "wf_json r \<Longrightarrow> null_index_apply r = (r', a) \<Longrightarrow> wf_json r'"
proof (cases "get_array r ''choices''")
  case (Some choices)
  assume r: "wf_json r" and n: "null_index_apply r = (r', a)"
  from Some r have "list_all wf_json choices" using wf_json_get by (fastforce simp: get_array_Some)
  then have "wf_json (JArr (map (\<lambda>c. fst (fix_choice c)) choices))"
    by (auto simp: list_all_iff fix_choice_def Let_def split_beta fix_side_wf)
  with r Some n show ?thesis
    by (auto simp: null_index_apply_def fix_tool_calls_in_choices_def Let_def intro!: wf_json_update_key split: if_splits)
qed (auto simp: null_index_apply_def)

interpretation null_index: fix_contract "default_apply_with_context (\<lambda>r. Some (null_index_apply r))"
  by unfold_locales
    (auto simp: default_apply_with_context_def dest: null_index_unreported null_index_frame null_index_wf)

lemma get_fix_side_other: "side \<noteq> k \<Longrightarrow> get (fst (fix_side side c)) k = get c k"
  by (auto simp: fix_side_def split_beta get_update_key split: option.splits)

lemma get_fix_side:
  assumes "get c side = Some obj" "get_array obj ''tool_calls'' = Some tcs"
  shows "get (fst (fix_side side c)) side = Some (update_key ''tool_calls'' (\<lambda>_. JArr (fst (assign_from 0 tcs))) obj)"
  using assms by (simp add: fix_side_def assign_sequential_indices_def split_beta get_update_key)

definition side_calls :: "string \<Rightarrow> json \<Rightarrow> json list option" where
  "side_calls side c = Option.bind (get c side) (\<lambda>m. get_array m ''tool_calls'')"

lemma side_calls_fix_side:
  "side_calls side (fst (fix_side side c)) = map_option (\<lambda>tcs. fst (assign_from 0 tcs)) (side_calls side c)"
proof (cases "side_calls side c")
  case (Some tcs)
  then obtain obj where o: "get c side = Some obj" "get_array obj ''tool_calls'' = Some tcs"
    by (auto simp: side_calls_def bind_eq_Some_conv)
  then have "get obj ''tool_calls'' = Some (JArr tcs)" by (simp add: get_array_Some)
  with get_fix_side [OF o] Some show ?thesis by (simp add: side_calls_def get_array_def get_update_key)
next
  case None
  then have "fst (fix_side side c) = c" by (auto simp: fix_side_def side_calls_def split: option.splits)
  with None show ?thesis by simp
qed

lemma side_calls_fix_choice:
  "side \<in> {''message'', ''delta''} \<Longrightarrow>
     side_calls side (fst (fix_choice c)) = map_option (\<lambda>tcs. fst (assign_from 0 tcs)) (side_calls side c)"
  using side_calls_fix_side [of "''message''" c] side_calls_fix_side [of "''delta''" "fst (fix_side ''message'' c)"]
    get_fix_side_other [of "''delta''" "''message''" "fst (fix_side ''message'' c)"] get_fix_side_other [of "''message''" "''delta''" c]
  by (auto simp: fix_choice_def Let_def split_beta side_calls_def)

lemma assign_from_idem: "\<not> snd (assign_from i (fst (assign_from j tcs)))"
proof
  assume "snd (assign_from i (fst (assign_from j tcs)))"
  then obtain k where "k < length tcs" "needs_index_fix (repaired (j + k) (tcs ! k))" "is_object (repaired (j + k) (tcs ! k))"
    by (auto simp: assign_from_flag in_set_conv_nth assign_from_nth)
  then show False using needs_index_fix_repaired is_object_repaired by metis
qed

lemma snd_fix_side: "snd (fix_side side c) = is_some_and (\<lambda>tcs. snd (assign_from 0 tcs)) (side_calls side c)"
  by (auto simp: fix_side_def side_calls_def assign_sequential_indices_def split_beta split: option.splits)

lemma fix_choice_idem: "\<not> snd (fix_choice (fst (fix_choice c)))"
proof -
  let ?c = "fst (fix_choice c)"
  have m: "\<not> snd (fix_side ''message'' ?c)" and d: "\<not> snd (fix_side ''delta'' ?c)"
    by (auto simp: snd_fix_side side_calls_fix_choice assign_from_idem is_some_and_def split: option.splits)
  then show ?thesis using fix_side_unflagged [OF m] by (simp add: fix_choice_def Let_def split_beta)
qed

lemma choices_null_index_apply:
  "get_array (fst (null_index_apply r)) ''choices''
     = map_option (map (\<lambda>c. fst (fix_choice c))) (get_array r ''choices'')"
proof (cases "get_array r ''choices''")
  case (Some cs)
  then have "get r ''choices'' = Some (JArr cs)" by (simp add: get_array_Some)
  with Some show ?thesis
    by (simp add: null_index_apply_def fix_tool_calls_in_choices_def Let_def get_array_def get_update_key)
qed (simp add: null_index_apply_def)

section \<open>Properties\<close>

text \<open>C10. The repair is positional and minimal: in every choice, on both sides, the tool calls keep
  their number and order, an object without a numeric index gets its position, and every other
  entry is left exactly as it was; applying the fix again reports and changes nothing.\<close>

theorem null_index_repair:
  assumes "side \<in> {''message'', ''delta''}"
  shows "(\<forall>choices. get_array r ''choices'' = Some choices \<longrightarrow>
      (\<exists>choices'. get_array (fst (null_index_apply r)) ''choices'' = Some choices' \<and> length choices' = length choices
        \<and> (\<forall>i < length choices. \<forall>tcs. side_calls side (choices ! i) = Some tcs \<longrightarrow>
            (\<exists>tcs'. side_calls side (choices' ! i) = Some tcs' \<and> length tcs' = length tcs
               \<and> (\<forall>j < length tcs. tcs' ! j = repaired j (tcs ! j))))))
    \<and> null_index_apply (fst (null_index_apply r)) = (fst (null_index_apply r), NotApplicable)"
proof
  show "\<forall>choices. get_array r ''choices'' = Some choices \<longrightarrow>
      (\<exists>choices'. get_array (fst (null_index_apply r)) ''choices'' = Some choices' \<and> length choices' = length choices
        \<and> (\<forall>i < length choices. \<forall>tcs. side_calls side (choices ! i) = Some tcs \<longrightarrow>
            (\<exists>tcs'. side_calls side (choices' ! i) = Some tcs' \<and> length tcs' = length tcs
               \<and> (\<forall>j < length tcs. tcs' ! j = repaired j (tcs ! j)))))"
    by (simp add: choices_null_index_apply side_calls_fix_choice [OF assms] assign_from_nth)
  have "snd (null_index_apply (fst (null_index_apply r))) = NotApplicable"
    by (simp add: null_index_apply_def [of "fst (null_index_apply r)"] choices_null_index_apply
        fix_tool_calls_in_choices_def Let_def fix_choice_idem list_ex_iff split: option.splits)
  then show "null_index_apply (fst (null_index_apply r)) = (fst (null_index_apply r), NotApplicable)"
    using null_index_unreported [of "fst (null_index_apply r)"] by (metis prod.collapse)
qed

theorem null_index_repair_witness:
  "''delta'' \<in> {''message'', ''delta''} \<and>
   null_index_apply (fst (null_index_apply (JObj [(''choices'', JArr [])]))) =
     (fst (null_index_apply (JObj [(''choices'', JArr [])])), NotApplicable)"
  using null_index_repair [of "''delta''" "JObj [(''choices'', JArr [])]"] by simp

end
