(* ===== verification/Malformed_Arguments_Fix.thy ===== *)
theory Malformed_Arguments_Fix
  imports Fix_Core
begin

text \<open>
  The repair of empty-key slots, \<^verbatim>\<open>llama-proxy/src/fixes/toolcall_malformed_arguments_fix.rs\<close>: each
  \<^verbatim>\<open>{}\<close> that stands where a property name belongs is overwritten with a name from the tool's schema,
  only when slots and missing names match in number.

  The slot pattern is a regular expression matched by the \<^verbatim>\<open>regex\<close> crate: \<open>find_slots\<close> is a
  parameter that yields its matches, with the offsets of the match and of the group \<^verbatim>\<open>key\<close>. What the
  code relies on is \<open>slots_from\<close>: matches are in order, do not overlap, lie in the text and have the
  pattern's shape. \<open>scan_slots\<close> is a reference matcher that meets it.
\<close>

section \<open>Slots\<close>

record slot =
  s_start :: nat
  k_start :: nat
  k_end :: nat
  s_end :: nat

type_synonym slot_finder = "string \<Rightarrow> slot list"

fun slots_from :: "string \<Rightarrow> nat \<Rightarrow> slot list \<Rightarrow> bool" where
  "slots_from s cursor [] = (cursor \<le> length s)"
| "slots_from s cursor (m # ms) =
     (cursor \<le> s_start m \<and> k_start m = s_start m + 1 \<and> k_end m = k_start m + 2 \<and> k_end m + 2 \<le> s_end m
      \<and> s_end m \<le> length s \<and> s ! s_start m \<in> {CHR '','', CHR 0x7B}
      \<and> slice s (k_start m) (k_end m + 2) = [CHR 0x7B, CHR 0x7D, QUOTE, CHR '':'']
      \<and> slots_from s (s_end m) ms)"

section \<open>Operations\<close>

definition schema_params :: "json \<Rightarrow> string list" where
  "schema_params function =
     some_or (map_option (map fst)
       (Option.bind (Option.bind (get function ''parameters'') (\<lambda>p. get p ''properties'')) as_object)) []"

fun add_schemas :: "json list \<Rightarrow> (string \<times> string list) list \<Rightarrow> (string \<times> string list) list" where
  "add_schemas [] schemas = schemas"
| "add_schemas (tool # tools) schemas = (case get tool ''function'' of
       None \<Rightarrow> add_schemas tools schemas
     | Some function \<Rightarrow>
         (let name = some_or (get_str function ''name'') [] in
          add_schemas tools (if name \<noteq> [] then jmap_insert name (schema_params function) schemas else schemas)))"

definition extract_tool_schemas :: "json \<Rightarrow> (string \<times> string list) list" where
  "extract_tool_schemas request = (case get_array request ''tools'' of
       None \<Rightarrow> []
     | Some tools \<Rightarrow> add_schemas tools [])"

text \<open>The loop of \<^verbatim>\<open>splice_empty_key_slots\<close> from \<open>cursor\<close> on.\<close>

fun splice_from :: "string \<Rightarrow> nat \<Rightarrow> slot list \<Rightarrow> string list \<Rightarrow> string" where
  "splice_from s cursor [] missing = drop cursor s"
| "splice_from s cursor (m # ms) (k # ks) =
     slice s cursor (s_start m) @ slice s (s_start m) (k_start m) @ QUOTE # k @ slice s (k_end m) (s_end m)
     @ splice_from s (s_end m) ms ks"
| "splice_from s cursor (m # ms) [] =
     slice s cursor (s_start m) @ slice s (s_start m) (s_end m) @ splice_from s (s_end m) ms []"

definition splice_empty_key_slots :: "slot_finder \<Rightarrow> string \<Rightarrow> string list \<Rightarrow> string" where
  "splice_empty_key_slots find_slots args missing = splice_from args 0 (find_slots args) missing"

definition SENTINEL :: string where
  "SENTINEL = BACKSLASH # ''u0000llama-proxy-slot''"

definition candidate_keys :: "serde_env \<Rightarrow> slot_finder \<Rightarrow> string \<Rightarrow> string list \<Rightarrow> string list" where
  "candidate_keys env find_slots args params =
     (let slots = length (find_slots args);
          masked = splice_empty_key_slots find_slots args (replicate slots SENTINEL) in
      filter (\<lambda>k. top_level_key_count (entry_stream env) masked k = 0) params)"

definition fill_invalid :: "nat \<Rightarrow> nat \<Rightarrow> fix_error" where
  "fill_invalid slots n = Rebuild (''fill invalid: '' @ digits slots @ '' slots, '' @ digits n @ '' candidate''
     @ (if n = 1 then [] else ''s''))"

definition malformed_fix_arguments ::
  "serde_env \<Rightarrow> slot_finder \<Rightarrow> string \<Rightarrow> string \<Rightarrow> (string \<times> string list) list \<Rightarrow> (string option, fix_error) result" where
  "malformed_fix_arguments env find_slots args tool_name schemas =
     (if find_slots args = [] then Ok None
      else case map_of schemas tool_name of
             None \<Rightarrow> Ok None
           | Some params \<Rightarrow>
               (let candidates = candidate_keys env find_slots args params;
                    slots = length (find_slots args); n = length candidates in
                if n = 0 then Err (Rebuild ''no candidate keys'')
                else if n = slots then
                  (let fixed_args = splice_empty_key_slots find_slots args candidates in
                   if parse_value env fixed_args \<noteq> None then Ok (Some fixed_args) else Err (fill_invalid slots n))
                else if n < slots then Err (fill_invalid slots n)
                else Err (Rebuild (''ambiguous: '' @ digits n @ '' candidates for '' @ digits slots @ '' slots''))))"

definition side_has_trigger :: "slot_finder \<Rightarrow> json option \<Rightarrow> bool" where
  "side_has_trigger find_slots side =
     is_some_and (list_ex (\<lambda>tool_call.
         is_some_and (\<lambda>args. find_slots args \<noteq> [])
           (Option.bind (get tool_call ''function'') (\<lambda>f. get_str f ''arguments''))))
       (Option.bind side (\<lambda>o'. get_array o' ''tool_calls''))"

definition any_choice_triggers :: "slot_finder \<Rightarrow> json \<Rightarrow> bool" where
  "any_choice_triggers find_slots response =
     is_some_and (list_ex (\<lambda>choice. side_has_trigger find_slots (get choice ''message'')
         \<or> side_has_trigger find_slots (get choice ''delta''))) (get_array response ''choices'')"

text \<open>One tool call's \<^verbatim>\<open>function\<close>; an error aborts the whole walk.\<close>

definition malformed_fix_function ::
  "serde_env \<Rightarrow> slot_finder \<Rightarrow> (string \<times> string list) list \<Rightarrow> json \<Rightarrow> fix_action list \<Rightarrow> (json \<times> fix_action list) run" where
  "malformed_fix_function env find_slots schemas function repairs =
     (let tool_name = some_or (get_str function ''name'') [] in
      case get_str function ''arguments'' of
        None \<Rightarrow> Some (Inr (function, repairs))
      | Some args \<Rightarrow>
          (case malformed_fix_arguments env find_slots args tool_name schemas of
             Inl e \<Rightarrow> Some (Inl e)
           | Inr None \<Rightarrow> Some (Inr (function, repairs))
           | Inr (Some fixed_args) \<Rightarrow>
               (case index_set function ''arguments'' (JStr fixed_args) of
                  None \<Rightarrow> None
                | Some function' \<Rightarrow> Some (Inr (function', repairs @ [Fixed args fixed_args])))))"

definition fix_tool_calls ::
  "serde_env \<Rightarrow> slot_finder \<Rightarrow> (string \<times> string list) list \<Rightarrow> json \<Rightarrow> fix_action list \<Rightarrow> (json \<times> fix_action list) run" where
  "fix_tool_calls env find_slots schemas =
     in_array (each (in_key ''function'' (malformed_fix_function env find_slots schemas)))"

definition fix_response_with_context ::
  "serde_env \<Rightarrow> slot_finder \<Rightarrow> json \<Rightarrow> json \<Rightarrow> (json \<times> fix_action) run" where
  "fix_response_with_context env find_slots response request =
     (let schemas = extract_tool_schemas request in
      if schemas = [] then Some (Inr (response, NotApplicable))
      else walk (andthen (in_key ''message'' (in_key ''tool_calls'' (fix_tool_calls env find_slots schemas)))
                         (in_key ''delta'' (in_key ''tool_calls'' (fix_tool_calls env find_slots schemas)))) response)"

definition malformed_applies_with_context :: "slot_finder \<Rightarrow> json \<Rightarrow> json \<Rightarrow> bool" where
  "malformed_applies_with_context find_slots response request =
     (any_choice_triggers find_slots response \<and> get request ''tools'' \<noteq> None)"

definition malformed_arguments_fix :: "serde_env \<Rightarrow> slot_finder \<Rightarrow> response_fix" where
  "malformed_arguments_fix env find_slots = \<lparr>rf_name = ''toolcall_malformed_arguments'', rf_log_level = default_log_level,
     rf_applies = any_choice_triggers find_slots, rf_apply = (\<lambda>r. Some (r, NotApplicable)),
     rf_applies_with_context = malformed_applies_with_context find_slots,
     rf_apply_with_context = fix_response_with_context env find_slots\<rparr>"

section \<open>The fix meets the contract\<close>

lemma malformed_function_logs: "logs (malformed_fix_function env find_slots schemas)"
  by (rule logsI) (auto simp: malformed_fix_function_def Let_def reports_refl reports_one
      split: option.splits sum.splits)

lemma malformed_function_wf: "keeps wf_json (malformed_fix_function env find_slots schemas)"
  by (rule keepsI) (auto simp: malformed_fix_function_def Let_def split: option.splits sum.splits
      dest: wf_json_set_str)

lemma malformed_walk_logs:
  "logs (andthen (in_key ''message'' (in_key ''tool_calls'' (fix_tool_calls env find_slots schemas)))
                 (in_key ''delta'' (in_key ''tool_calls'' (fix_tool_calls env find_slots schemas))))"
  unfolding fix_tool_calls_def by (intro traversal_logs malformed_function_logs)

lemma malformed_walk_wf:
  "keeps wf_json (andthen (in_key ''message'' (in_key ''tool_calls'' (fix_tool_calls env find_slots schemas)))
                 (in_key ''delta'' (in_key ''tool_calls'' (fix_tool_calls env find_slots schemas))))"
  unfolding fix_tool_calls_def by (intro traversal_wf malformed_function_wf)

interpretation malformed: fix_contract "fix_response_with_context env find_slots"
  by unfold_locales
    (auto simp: fix_response_with_context_def Let_def split: if_splits
      dest: walk_unreported [OF malformed_walk_logs] walk_frame walk_wf [OF malformed_walk_wf])

section \<open>Splicing\<close>

text \<open>What filling the slots of a text with keys means: left to right, each \<^verbatim>\<open>{}\<close> token after a
  delimiter becomes an opening quote and the key; every other byte stays.\<close>

inductive spliced :: "string \<Rightarrow> string list \<Rightarrow> string \<Rightarrow> bool" where
  spliced_nil: "spliced s [] s"
| spliced_slot: "d \<in> {CHR '','', CHR 0x7B} \<Longrightarrow> spliced rest ks rest' \<Longrightarrow>
    spliced (p @ d # [CHR 0x7B, CHR 0x7D, QUOTE, CHR '':''] @ rest) (k # ks) (p @ d # QUOTE # k @ [QUOTE, CHR '':''] @ rest')"

lemma spliced_prepend: "spliced s ks s' \<Longrightarrow> spliced (q @ s) ks (q @ s')"
proof (induction rule: spliced.induct)
  case (spliced_slot d rest ks rest' p k)
  then show ?case using spliced.spliced_slot [of d rest ks rest' "q @ p" k] by simp
qed (rule spliced_nil)

lemma drop_slice: "i \<le> j \<Longrightarrow> drop i s = slice s i j @ drop j s"
  by (simp add: slice_def) (metis append_take_drop_id drop_drop le_add_diff_inverse2)

lemma slice_split: "i \<le> j \<Longrightarrow> j \<le> k \<Longrightarrow> slice s i k = slice s i j @ slice s j k"
proof -
  assume a: "i \<le> j" "j \<le> k"
  have "take (k - i) (drop i s) = take (j - i) (drop i s) @ take (k - j) (drop (j - i) (drop i s))"
    using a by (metis (no_types, lifting) Nat.add_diff_assoc2 add.commute le_add_diff_inverse take_add)
  then show ?thesis using a by (simp add: slice_def)
qed

lemma slot_shape:
  assumes "slots_from s cursor (m # ms)"
  shows "slice s (s_start m) (k_start m) = [s ! s_start m]"
    and "slice s (k_end m) (s_end m) = [QUOTE, CHR '':''] @ slice s (k_end m + 2) (s_end m)"
    and "slice s (s_start m) (s_end m) = s ! s_start m # [CHR 0x7B, CHR 0x7D, QUOTE, CHR '':''] @ slice s (k_end m + 2) (s_end m)"
proof -
  from assms have k: "k_start m = s_start m + 1" "k_end m = s_start m + 3" "s_start m + 5 \<le> s_end m" "s_end m \<le> length s"
    and t: "slice s (s_start m + 1) (s_start m + 5) = [CHR 0x7B, CHR 0x7D, QUOTE, CHR '':'']"
    by (auto simp: numeral_eq_Suc)
  show a: "slice s (s_start m) (k_start m) = [s ! s_start m]"
    using k by (simp add: slice_def take_Suc_conv_app_nth hd_drop_conv_nth take_Suc drop_eq_Nil)
  have "slice s (s_start m + 1) (s_start m + 5) = slice s (s_start m + 1) (s_start m + 3) @ slice s (s_start m + 3) (s_start m + 5)"
    by (rule slice_split) auto
  moreover have "length (slice s (s_start m + 1) (s_start m + 3)) = 2" using k by (simp add: slice_def)
  ultimately have "slice s (s_start m + 3) (s_start m + 5) = [QUOTE, CHR '':'']"
    using t by (auto simp: numeral_2_eq_2 length_Suc_conv)
  then show b: "slice s (k_end m) (s_end m) = [QUOTE, CHR '':''] @ slice s (k_end m + 2) (s_end m)"
    using slice_split [of "k_end m" "k_end m + 2" "s_end m" s] k by (simp add: numeral_eq_Suc)
  have "slice s (s_start m) (s_end m) = slice s (s_start m) (s_start m + 1) @ slice s (s_start m + 1) (s_start m + 5) @ slice s (s_start m + 5) (s_end m)"
    using slice_split [of "s_start m" "s_start m + 1" "s_end m" s] slice_split [of "s_start m + 1" "s_start m + 5" "s_end m" s] k by simp
  then show "slice s (s_start m) (s_end m) = s ! s_start m # [CHR 0x7B, CHR 0x7D, QUOTE, CHR '':''] @ slice s (k_end m + 2) (s_end m)"
    using a k t by (simp add: numeral_eq_Suc)
qed

lemma splice_from_spliced:
  "slots_from s cursor ms \<Longrightarrow> length ks = length ms \<Longrightarrow> spliced (drop cursor s) ks (splice_from s cursor ms ks)"
proof (induction ms arbitrary: cursor ks)
  case Nil
  then show ?case by (simp add: spliced_nil)
next
  case (Cons m ms)
  then obtain k ks' where ks: "ks = k # ks'" "length ks' = length ms" by (cases ks) auto
  note sh = slot_shape [OF Cons.prems(1)]
  from Cons.prems(1) have le: "cursor \<le> s_start m" "s_start m \<le> s_end m" and d: "s ! s_start m \<in> {CHR '','', CHR 0x7B}"
    and next_slots: "slots_from s (s_end m) ms" by auto
  have "drop cursor s = slice s cursor (s_start m) @ slice s (s_start m) (s_end m) @ drop (s_end m) s"
    using drop_slice [OF le(1)] drop_slice [OF le(2)] by simp
  moreover note spliced_slot [OF d spliced_prepend [OF Cons.IH [OF next_slots ks(2)], of "slice s (k_end m + 2) (s_end m)"],
      of "slice s cursor (s_start m)" k]
  ultimately show ?case using sh ks(1) by simp
qed

text \<open>What is relied on of the matcher, and what follows for the code.\<close>

locale slot_matcher =
  fixes find_slots :: slot_finder
  assumes matches: "slots_from s 0 (find_slots s)"
begin

lemma splice_all: "length ks = length (find_slots s) \<Longrightarrow> spliced s ks (splice_empty_key_slots find_slots s ks)"
  using splice_from_spliced [OF matches] by (simp add: splice_empty_key_slots_def)

lemma fill_only_splices:
  assumes "malformed_fix_arguments env find_slots args tool schemas = Ok (Some fixed)"
  shows "\<exists>params ks. map_of schemas tool = Some params \<and> set ks \<subseteq> set params \<and> length ks = length (find_slots args)
    \<and> spliced args ks fixed \<and> parse_value env fixed \<noteq> None"
proof -
  from assms obtain params where params: "map_of schemas tool = Some params"
    by (auto simp: malformed_fix_arguments_def split: if_splits option.splits)
  let ?ks = "candidate_keys env find_slots args params"
  from assms params have ks: "length ?ks = length (find_slots args)" "fixed = splice_empty_key_slots find_slots args ?ks"
    "parse_value env fixed \<noteq> None"
    by (auto simp: malformed_fix_arguments_def Let_def split: if_splits)
  moreover have "set ?ks \<subseteq> set params" by (auto simp: candidate_keys_def Let_def)
  ultimately show ?thesis using params splice_all [OF ks(1)] by blast
qed

end

text \<open>The reference matcher: leftmost matches, white space after the colon taken greedily.\<close>

definition skip_spaces :: "string \<Rightarrow> nat \<Rightarrow> nat" where
  "skip_spaces s i = i + length (concat (takeWhile is_whitespace (chars (drop i s))))"

lemma skip_spaces_bounds: "i \<le> length s \<Longrightarrow> i \<le> skip_spaces s i \<and> skip_spaces s i \<le> length s"
proof -
  assume i: "i \<le> length s"
  have "length (concat (takeWhile P xs)) \<le> length (concat xs)" for P and xs :: "string list"
    by (induction xs) auto
  from this [of is_whitespace "chars (drop i s)"] i show ?thesis by (simp add: skip_spaces_def)
qed

function scan_slots_from :: "string \<Rightarrow> nat \<Rightarrow> slot list" where
  "scan_slots_from s i =
     (if i + 5 \<le> length s then
        (if s ! i \<in> {CHR '','', CHR 0x7B} \<and> slice s (i + 1) (i + 5) = [CHR 0x7B, CHR 0x7D, QUOTE, CHR '':'']
         then \<lparr>s_start = i, k_start = i + 1, k_end = i + 3, s_end = skip_spaces s (i + 5)\<rparr>
              # scan_slots_from s (skip_spaces s (i + 5))
         else scan_slots_from s (i + 1))
      else [])"
  by pat_completeness auto
termination
proof (relation "measure (\<lambda>(s, i). length s - i)", goal_cases)
  case (2 s i)
  with skip_spaces_bounds [of "i + 5" s] show ?case by auto
qed auto

declare scan_slots_from.simps [simp del]

definition scan_slots :: slot_finder where "scan_slots s = scan_slots_from s 0"

lemma slots_from_mono: "slots_from s j ms \<Longrightarrow> i \<le> j \<Longrightarrow> slots_from s i ms"
  by (cases ms) auto

lemma scan_slots_from_ok: "i \<le> length s \<Longrightarrow> slots_from s i (scan_slots_from s i)"
proof (induction s i rule: scan_slots_from.induct)
  case (1 s i)
  note b = skip_spaces_bounds [of "i + 5" s]
  show ?case
  proof (cases "i + 5 \<le> length s")
    case True
    with 1 b show ?thesis
      by (subst scan_slots_from.simps) (auto simp: slots_from_mono [of s "Suc i"] numeral_eq_Suc)
  qed (use 1 in \<open>simp add: scan_slots_from.simps\<close>)
qed

interpretation scan_slots: slot_matcher scan_slots
  by unfold_locales (simp add: scan_slots_def scan_slots_from_ok)

section \<open>The repair on slotted documents\<close>

text \<open>A document with slots, as a grammar of its own: entries with their key, and slots that have
  \<^verbatim>\<open>{}":\<close> where the key belongs. \<open>fill\<close> names the slots, left to right, which gives the entries of
  an ordinary object document.\<close>

datatype arg_entry = Known entry | Slot (slot_ws: string) (slot_value: string) (slot_ws_after: string)

fun arg_text :: "arg_entry \<Rightarrow> string" where
  "arg_text (Known e) = entry_text e"
| "arg_text (Slot w v w') = [CHR 0x7B, CHR 0x7D, QUOTE, CHR '':''] @ w @ v @ w'"

fun args_from :: "char \<Rightarrow> arg_entry list \<Rightarrow> string" where
  "args_from d [] = [CHR 0x7D]"
| "args_from d (e # es) = d # arg_text e @ args_from (CHR '','') es"

definition slotted_text :: "string \<Rightarrow> arg_entry list \<Rightarrow> string \<Rightarrow> string" where
  "slotted_text w es rest = w @ args_from (CHR 0x7B) es @ rest"

fun known_entries :: "arg_entry list \<Rightarrow> entry list" where
  "known_entries [] = []"
| "known_entries (Known e # es) = e # known_entries es"
| "known_entries (Slot w v w' # es) = known_entries es"

fun slot_count :: "arg_entry list \<Rightarrow> nat" where
  "slot_count [] = 0"
| "slot_count (Known e # es) = slot_count es"
| "slot_count (Slot w v w' # es) = Suc (slot_count es)"

definition named_slot :: "string \<Rightarrow> string \<Rightarrow> string \<Rightarrow> string \<Rightarrow> entry" where
  "named_slot k w v w' = \<lparr>e_w0 = [], e_key = k, e_w1 = [], e_w2 = w, e_value = v, e_w3 = w'\<rparr>"

fun fill :: "arg_entry list \<Rightarrow> string list \<Rightarrow> entry list" where
  "fill [] ks = []"
| "fill (Known e # es) ks = e # fill es ks"
| "fill (Slot w v w' # es) ks = named_slot (hd ks) w v w' # fill es (tl ks)"

text \<open>The offsets of the delimiters in front of the slots, where the text starts at \<open>p\<close>.\<close>

fun slot_starts :: "nat \<Rightarrow> arg_entry list \<Rightarrow> nat list" where
  "slot_starts p [] = []"
| "slot_starts p (Known e # es) = slot_starts (p + 1 + length (entry_text e)) es"
| "slot_starts p (Slot w v w' # es) = p # slot_starts (p + 1 + length (arg_text (Slot w v w'))) es"

lemma length_slot_starts: "length (slot_starts p es) = slot_count es"
  by (induction p es rule: slot_starts.induct) auto

text \<open>Splicing depends on the offsets of the slots only.\<close>

fun splice_at :: "string \<Rightarrow> nat \<Rightarrow> nat list \<Rightarrow> string list \<Rightarrow> string" where
  "splice_at s c [] ks = drop c s"
| "splice_at s c (p # ps) ks = slice s c (p + 1) @ QUOTE # hd ks @ splice_at s (p + 3) ps (tl ks)"

lemma slots_from_le: "slots_from s cursor ms \<Longrightarrow> cursor \<le> length s"
  by (cases ms) auto

lemma splice_from_at:
  "slots_from s cursor ms \<Longrightarrow> length ks = length ms \<Longrightarrow> c \<le> cursor \<Longrightarrow>
     slice s c cursor @ splice_from s cursor ms ks = splice_at s c (map s_start ms) ks"
proof (induction ms arbitrary: c cursor ks)
  case Nil
  then show ?case using drop_slice [of c cursor s] by simp
next
  case (Cons m ms)
  then obtain k ks' where ks: "ks = k # ks'" "length ks' = length ms" by (cases ks) auto
  from Cons.prems(1) have m: "cursor \<le> s_start m" "k_start m = s_start m + 1" "k_end m = s_start m + 3" "k_end m \<le> s_end m"
    and next_slots: "slots_from s (s_end m) ms" by (auto simp: numeral_eq_Suc)
  have "slice s c cursor @ slice s cursor (s_start m) @ slice s (s_start m) (k_start m) = slice s c (s_start m + 1)"
    using slice_split [of c cursor "s_start m + 1" s] slice_split [of cursor "s_start m" "s_start m + 1" s] m Cons.prems(3) by simp
  moreover from Cons.IH [OF next_slots ks(2) m(4)] have
    "slice s (k_end m) (s_end m) @ splice_from s (s_end m) ms ks' = splice_at s (s_start m + 3) (map s_start ms) ks'"
    using m(3) by simp
  ultimately show ?case using ks(1) by (simp add: append_assoc [symmetric] del: append_assoc)
qed

text \<open>On a slotted document it yields the text of the filled one.\<close>

lemma splice_at_filled:
  "splice_at (pre @ mid @ args_from d es @ rest) (length pre) (slot_starts (length pre + length mid) es) ks
     = mid @ args_from d (map Known (fill es ks)) @ rest"
proof (induction es arbitrary: pre mid d ks)
  case (Cons e es)
  show ?case
  proof (cases e)
    case (Known e')
    from Cons.IH [of pre "mid @ d # entry_text e'" "CHR '',''" ks] Known show ?thesis by (simp add: add.assoc)
  next
    case (Slot w v w')
    let ?pre = "pre @ mid @ [d, CHR 0x7B, CHR 0x7D]" and ?mid = "[QUOTE, CHR '':''] @ w @ v @ w'"
    have "slice (pre @ mid @ args_from d (e # es) @ rest) (length pre) (length pre + length mid + 1) = mid @ [d]"
      by (simp add: slice_def)
    moreover note Cons.IH [of ?pre ?mid "CHR '',''" "tl ks"]
    ultimately show ?thesis using Slot
      by (simp add: add.assoc numeral_eq_Suc named_slot_def entry_text_def entry_core_def key_token_def)
  qed
qed simp

lemma args_from_entries: "es \<noteq> [] \<Longrightarrow> args_from d (map Known es) = d # entries_text es"
  by (induction es arbitrary: d rule: entries_text.induct) auto

lemma fill_Nil_iff [simp]: "fill es ks = [] \<longleftrightarrow> es = []"
  by (cases es; cases "hd es") auto

lemma splice_slotted:
  assumes "slots_from args 0 (find_slots args)" "args = slotted_text w es rest" "es \<noteq> []"
    and "map s_start (find_slots args) = slot_starts (length w) es" "length ks = slot_count es"
  shows "splice_empty_key_slots find_slots args ks = object_text w (fill es ks) rest"
proof -
  from assms(4) have "length ks = length (find_slots args)"
    using length_slot_starts [of "length w" es] assms(5) by (metis length_map)
  from splice_from_at [OF assms(1) this le_refl]
  have "splice_empty_key_slots find_slots args ks = splice_at args 0 (slot_starts (length w) es) ks"
    by (simp add: splice_empty_key_slots_def slice_def assms(4))
  also have "\<dots> = object_text w (fill es ks) rest"
    using splice_at_filled [of "[]" w "CHR 0x7B" es rest ks] assms(3)
    by (simp add: assms(2) slotted_text_def args_from_entries object_text_def)
  finally show ?thesis .
qed

text \<open>The key of a slot under its mask.\<close>

definition SLOT_MARK :: string where "SLOT_MARK = CHR 0x00 # ''llama-proxy-slot''"

lemma masked_keys:
  assumes "those (map (entry_key decode) (known_entries es)) = Some names"
    and "decode (QUOTE # SENTINEL @ [QUOTE]) = Some SLOT_MARK"
  shows "\<exists>ks. those (map (entry_key decode) (fill es (replicate (slot_count es) SENTINEL))) = Some ks
    \<and> set ks = set names \<union> (if slot_count es = 0 then {} else {SLOT_MARK})"
proof -
  have mark: "entry_key decode (named_slot SENTINEL w v w') = Some SLOT_MARK" for w v w'
    using assms(2) by (simp add: entry_key_def decode_key_def key_token_def named_slot_def slice_def SENTINEL_def)
  show ?thesis using assms(1)
  proof (induction es arbitrary: names)
    case (Cons e es)
    then show ?case
    proof (cases e)
      case (Known e')
      with Cons.prems obtain k ns where "entry_key decode e' = Some k" "those (map (entry_key decode) (known_entries es)) = Some ns" "names = k # ns"
        by (auto split: option.splits)
      with Cons.IH [of ns] Known show ?thesis by auto
    next
      case (Slot w v w')
      with Cons.prems Cons.IH [of names] mark show ?thesis by auto
    qed
  qed simp
qed

lemma count_list_0_iff: "count_list xs x = 0 \<longleftrightarrow> x \<notin> set xs"
  by (induction xs) auto

lemma candidates_missing:
  assumes "slots_from args 0 (find_slots args)" "args = slotted_text w es rest" "0 < slot_count es"
    and "map s_start (find_slots args) = slot_starts (length w) es"
    and names: "those (map (entry_key (decode_string env)) (known_entries es)) = Some names"
    and mark: "decode_string env (QUOTE # SENTINEL @ [QUOTE]) = Some SLOT_MARK"
    and stream: "entry_stream env (object_text w (fill es (replicate (slot_count es) SENTINEL)) rest)
      = map_option entry_events (those (map (entry_key (decode_string env)) (fill es (replicate (slot_count es) SENTINEL))))"
  shows "candidate_keys env find_slots args params = filter (\<lambda>k. k \<notin> set names \<and> k \<noteq> SLOT_MARK) params"
proof -
  let ?ks = "replicate (slot_count es) SENTINEL"
  from assms(3) have es: "es \<noteq> []" by auto
  have n: "length (find_slots args) = slot_count es"
    using assms(4) length_slot_starts by (metis length_map)
  obtain keys where keys: "those (map (entry_key (decode_string env)) (fill es ?ks)) = Some keys"
    "set keys = insert SLOT_MARK (set names)" using masked_keys [OF names mark] assms(3) by auto
  have "top_level_key_count (entry_stream env) (splice_empty_key_slots find_slots args ?ks) k = count_list keys k" for k
    using splice_slotted [of args find_slots w es rest ?ks] assms(1,2,4) es stream keys(1)
    by (simp add: top_level_key_count_def visit_entry_events)
  then show ?thesis using n keys(2) by (auto simp: candidate_keys_def Let_def count_list_0_iff intro: filter_cong)
qed

section \<open>Properties\<close>

text \<open>C11. The slot repair never guesses. Take any arguments that are an object document with slots:
  entries with their keys, and slots that have \<^verbatim>\<open>{}":\<close> in the key's place, the pattern matching at
  exactly those. The missing keys are the schema's keys, in schema order, that no entry of the
  document has (a schema key that decodes to the mask itself counts as present). The outcome is then
  fixed: exactly as many missing keys as slots and a parsing result give the document with the slots
  named by them, left to right, every other byte unchanged; no missing key, fewer, more, or a result
  that does not parse are errors. Relied on of the JSON parser: the mask decodes to its character
  sequence and the stream over the masked document yields its entries.\<close>

theorem malformed_fill_exact:
  assumes "slots_from args 0 (find_slots args)" "args = slotted_text w es rest" "0 < slot_count es"
    and "map s_start (find_slots args) = slot_starts (length w) es"
    and "those (map (entry_key (decode_string env)) (known_entries es)) = Some names"
    and "decode_string env (QUOTE # SENTINEL @ [QUOTE]) = Some SLOT_MARK"
    and "entry_stream env (object_text w (fill es (replicate (slot_count es) SENTINEL)) rest)
      = map_option entry_events (those (map (entry_key (decode_string env)) (fill es (replicate (slot_count es) SENTINEL))))"
    and "map_of schemas tool = Some params"
  defines "missing \<equiv> filter (\<lambda>k. k \<notin> set names \<and> k \<noteq> SLOT_MARK) params"
  shows "malformed_fix_arguments env find_slots args tool schemas =
    (if missing = [] then Err (Rebuild ''no candidate keys'')
     else if length missing > slot_count es
       then Err (Rebuild (''ambiguous: '' @ digits (length missing) @ '' candidates for '' @ digits (slot_count es) @ '' slots''))
     else if length missing = slot_count es \<and> parse_value env (object_text w (fill es missing) rest) \<noteq> None
       then Ok (Some (object_text w (fill es missing) rest))
     else Err (Rebuild (''fill invalid: '' @ digits (slot_count es) @ '' slots, '' @ digits (length missing) @ '' candidate''
       @ (if length missing = 1 then [] else ''s''))))"
proof -
  from assms(3) have es: "es \<noteq> []" by auto
  have n: "length (find_slots args) = slot_count es"
    using assms(4) length_slot_starts by (metis length_map)
  then have "find_slots args \<noteq> []" using assms(3) by auto
  moreover have "candidate_keys env find_slots args params = missing"
    unfolding missing_def using candidates_missing [of args find_slots w es rest env names params] assms(1-7) by blast
  moreover have "length missing = slot_count es \<Longrightarrow>
      splice_empty_key_slots find_slots args missing = object_text w (fill es missing) rest"
    using splice_slotted [of args find_slots w es rest missing] assms(1,2,4) es by blast
  ultimately show ?thesis
    using n assms(8) by (auto simp: malformed_fix_arguments_def fill_invalid_def Let_def)
qed

lemma nopanic_each: "(\<And>x s. f x s \<noteq> None) \<Longrightarrow> each f xs s \<noteq> None"
proof (induction xs arbitrary: s)
  case (Cons x xs)
  from Cons.prems obtain r where "f x s = Some r" by blast
  with Cons.IH [OF Cons.prems] show ?case by (cases r) (auto simp: bind_run_def split: option.splits sum.splits)
qed simp

lemma nopanic_in_array: "(\<And>xs s. f xs s \<noteq> None) \<Longrightarrow> in_array f v s \<noteq> None"
  by (cases v) (auto simp: in_array_def bind_run_def split: option.splits sum.splits)

lemma nopanic_in_key: "(\<And>x s. f x s \<noteq> None) \<Longrightarrow> in_key k f v s \<noteq> None"
proof (cases v)
  case (JObj m)
  assume f: "\<And>x s. f x s \<noteq> None"
  show ?thesis
  proof (cases "map_of m k")
    case (Some x)
    from f [of x s] obtain r where "f x s = Some r" by blast
    with JObj Some show ?thesis by (cases r) (auto simp: in_key_def)
  qed (simp add: JObj in_key_def)
qed (auto simp: in_key_def)

lemma nopanic_andthen: "(\<And>x s. f x s \<noteq> None) \<Longrightarrow> (\<And>x s. g x s \<noteq> None) \<Longrightarrow> andthen f g v s \<noteq> None"
  by (auto simp: andthen_def bind_run_def split: option.splits sum.splits)

lemmas nopanic = nopanic_each nopanic_in_array nopanic_in_key nopanic_andthen

lemma nopanic_walk: "(\<And>x s. f x s \<noteq> None) \<Longrightarrow> walk f r \<noteq> None"
proof -
  assume "\<And>x s. f x s \<noteq> None"
  then have "in_key ''choices'' (in_array (each f)) r [] \<noteq> None" by (intro nopanic)
  then show ?thesis by (auto simp: walk_def bind_run_def split: option.splits sum.splits)
qed

lemma nopanic_function: "malformed_fix_function env find_slots schemas f s \<noteq> None"
  by (cases f) (auto simp: malformed_fix_function_def Let_def get_str_def split: option.splits sum.splits)

text \<open>The slot repair never panics, on any response and any request.\<close>

theorem malformed_fix_total: "fix_response_with_context env find_slots response request \<noteq> None"
proof (cases "extract_tool_schemas request = []")
  case False
  then show ?thesis unfolding fix_response_with_context_def fix_tool_calls_def Let_def
    by (simp only: if_False, intro nopanic_walk nopanic nopanic_function)
qed (simp add: fix_response_with_context_def)

definition sample_serde_env :: serde_env where
  "sample_serde_env = \<lparr>parse_value = (\<lambda>s. if s = [] then None else Some JNull), print_value = (\<lambda>_. Ok ''null''),
     display_value = (\<lambda>_. ''null''), decode_string = (\<lambda>_. None), entry_stream = (\<lambda>_. None)\<rparr>"

definition entry_a :: entry where
  "entry_a = \<lparr>e_w0 = [], e_key = ''a'', e_w1 = [], e_w2 = [], e_value = ''1'', e_w3 = []\<rparr>"

definition sample_doc :: "arg_entry list" where
  "sample_doc = [Known entry_a, Slot [] ''2'' []]"

definition masked_doc :: string where
  "masked_doc = object_text [] [entry_a, named_slot SENTINEL [] ''2'' []] []"

definition slot_doc_env :: serde_env where
  "slot_doc_env = \<lparr>parse_value = (\<lambda>s. if s = object_text [] [entry_a, named_slot ''b'' [] ''2'' []] [] then Some JNull else None),
     print_value = (\<lambda>_. Ok ''null''), display_value = (\<lambda>_. ''null''), decode_string = (\<lambda>_. Some SLOT_MARK),
     entry_stream = (\<lambda>s. if s = masked_doc then Some (entry_events [''a'', SLOT_MARK]) else None)\<rparr>"

lemma sample_doc_slots: "scan_slots (slotted_text [] sample_doc []) = [\<lparr>s_start = 6, k_start = 7, k_end = 9, s_end = 11\<rparr>]"
  by code_simp

lemma sample_doc_fields:
  "known_entries sample_doc = [entry_a]" "slot_count sample_doc = 1" "slot_starts 0 sample_doc = [6]"
  "fill sample_doc [k] = [entry_a, named_slot k [] ''2'' []]" "''b'' \<noteq> SLOT_MARK"
  by (simp_all add: sample_doc_def entry_text_def entry_core_def key_token_def entry_a_def SLOT_MARK_def)

lemma slot_doc_fields:
  "decode_string slot_doc_env = (\<lambda>_. Some SLOT_MARK)"
  "entry_stream slot_doc_env (object_text [] [entry_a, named_slot SENTINEL [] ''2'' []] []) = Some (entry_events [''a'', SLOT_MARK])"
  "parse_value slot_doc_env (object_text [] [entry_a, named_slot ''b'' [] ''2'' []] []) = Some JNull"
  by (simp_all add: slot_doc_env_def masked_doc_def)

text \<open>\<^verbatim>\<open>{"a":1,{}":2}\<close> against the schema keys \<^verbatim>\<open>a\<close> and \<^verbatim>\<open>b\<close> becomes \<^verbatim>\<open>{"a":1,"b":2}\<close>.\<close>

theorem malformed_fill_exact_witness:
  "malformed_fix_arguments slot_doc_env scan_slots (slotted_text [] sample_doc []) ''t'' [(''t'', [''a'', ''b''])]
     = Ok (Some (object_text [] [entry_a, named_slot ''b'' [] ''2'' []] []))"
proof -
  have "entry_key (\<lambda>_. Some SLOT_MARK) entry_a = Some ''a''"
    by (simp add: entry_key_def decode_key_def key_token_def entry_a_def slice_def)
  moreover have "entry_key (\<lambda>_. Some SLOT_MARK) (named_slot SENTINEL [] ''2'' []) = Some SLOT_MARK"
    by (simp add: entry_key_def decode_key_def key_token_def named_slot_def slice_def SENTINEL_def)
  moreover have "slots_from (slotted_text [] sample_doc []) 0 (scan_slots (slotted_text [] sample_doc []))"
    by (rule scan_slots.matches)
  ultimately have "malformed_fix_arguments slot_doc_env scan_slots (slotted_text [] sample_doc []) ''t'' [(''t'', [''a'', ''b''])]
      = Ok (Some (object_text [] (fill sample_doc [''b'']) []))"
    by (subst malformed_fill_exact [where w = "[]" and es = sample_doc and rest = "[]" and names = "[''a'']"
          and params = "[''a'', ''b'']" and find_slots = scan_slots and env = slot_doc_env])
      (simp_all only: sample_doc_slots, simp_all add: slot_doc_fields sample_doc_fields)
  then show ?thesis by (simp add: sample_doc_def)
qed

end
