(* ===== verification/Bad_Filepath_Fix.thy ===== *)
theory Bad_Filepath_Fix
  imports Malformed_Arguments_Fix
begin

text \<open>
  The repair of duplicated or broken \<^verbatim>\<open>filePath\<close> arguments,
  \<^verbatim>\<open>llama-proxy/src/fixes/toolcall_bad_filepath_fix.rs\<close>: a first-wins resolution where the
  arguments parse, and a guarded truncation after the first complete \<^verbatim>\<open>filePath\<close> value where they do
  not. String slices that panic off a character boundary are modelled as such (\<open>None\<close>).
\<close>

section \<open>Operations\<close>

definition SCHEMA_BODY_KEY :: string where "SCHEMA_BODY_KEY = ''content''"

fun swallow_scan :: "string list \<Rightarrow> bool" where
  "swallow_scan [] = False"
| "swallow_scan [c] = (c = [BACKSLASH])"
| "swallow_scan (c # d # ds) =
     (if c \<noteq> [BACKSLASH] then swallow_scan (d # ds) else if d = [QUOTE] then True else swallow_scan ds)"

text \<open>\<^verbatim>\<open>&value_raw[1..value_raw.len() - 1]\<close> panics where an end is not on a character boundary.\<close>

definition str_slice :: "string \<Rightarrow> nat \<Rightarrow> nat \<Rightarrow> string option" where
  "str_slice s i j =
     (if i \<le> j \<and> j \<le> length s \<and> is_char_boundary s i \<and> is_char_boundary s j then Some (slice s i j) else None)"

definition swallowed_quote_in_value :: "string \<Rightarrow> bool option" where
  "swallowed_quote_in_value value_raw =
     (if value_raw = [] then None
      else map_option (\<lambda>inner. swallow_scan (chars inner)) (str_slice value_raw 1 (length value_raw - 1)))"

fun any_repeated :: "string list \<Rightarrow> string list \<Rightarrow> bool" where
  "any_repeated seen [] = False"
| "any_repeated seen (k # ks) = (if k \<in> set seen then True else any_repeated (seen @ [k]) ks)"

definition has_foreign_duplicate :: "serde_env \<Rightarrow> string \<Rightarrow> bool" where
  "has_foreign_duplicate env args = (case depth1_keys (decode_string env) args of
       None \<Rightarrow> False
     | Some keys \<Rightarrow> any_repeated [] (filter (\<lambda>k. k \<noteq> ''filePath'') keys))"

definition is_malformed :: "serde_env \<Rightarrow> string \<Rightarrow> bool" where
  "is_malformed env args =
     (parse_value env args = None \<or> top_level_key_count (entry_stream env) args ''filePath'' > 1)"

definition is_valid_json :: "serde_env \<Rightarrow> string \<Rightarrow> bool" where
  "is_valid_json env s = (parse_value env s \<noteq> None)"

definition first_wins_filepath :: "serde_env \<Rightarrow> string \<Rightarrow> json option" where
  "first_wins_filepath env args = (case top_level_key_spans (decode_string env) args ''filePath'' of
       [] \<Rightarrow> None
     | first # rest \<Rightarrow>
         if rest = [] then None
         else Option.bind (str_slice args (fst (value_range first)) (snd (value_range first))) (parse_value env))"

text \<open>The value scan over characters, with the byte offset of the next one.\<close>

fun string_end_from :: "nat \<Rightarrow> string list \<Rightarrow> nat option" where
  "string_end_from pos [] = None"
| "string_end_from pos [c] = (if c = [BACKSLASH] then None else if c = [QUOTE] then Some (pos + 1) else None)"
| "string_end_from pos (c # d # ds) =
     (if c = [BACKSLASH] then string_end_from (pos + length c + length d) ds
      else if c = [QUOTE] then Some (pos + 1)
      else string_end_from (pos + length c) (d # ds))"

definition find_string_end :: "string \<Rightarrow> nat option" where
  "find_string_end s =
     (let skipped = takeWhile (\<lambda>c. is_whitespace c \<or> c = '':'') (chars s);
          rest = dropWhile (\<lambda>c. is_whitespace c \<or> c = '':'') (chars s) in
      case rest of
        [] \<Rightarrow> None
      | c # cs \<Rightarrow> if c = [QUOTE] then string_end_from (length (concat skipped) + 1) cs else None)"

definition filepath_key :: string where
  "filepath_key = QUOTE # ''filePath'' @ [QUOTE, CHR '':'']"

definition clip :: "string \<Rightarrow> string" where "clip s = truncate_snippet s 200 Chars"

definition truncate_after ::
  "serde_env \<Rightarrow> string \<Rightarrow> nat \<Rightarrow> (string, fix_error) result" where
  "truncate_after env args end_pos =
     (if list_ex (\<lambda>k. k = SCHEMA_BODY_KEY) (keys_after (decode_string env) args end_pos)
      then Err (Rebuild (''a schema-valid '' @ [QUOTE] @ SCHEMA_BODY_KEY @ [QUOTE]
             @ '' entry follows the first filePath value - truncating there would delete the file body: '' @ clip args))
      else (let result = take end_pos args @ [CHR 0x7D] in
            if is_valid_json env result then Ok result
            else Err (Rebuild (''schema-truncation candidate is still invalid JSON: '' @ clip result))))"

definition bad_filepath_fix_arguments :: "serde_env \<Rightarrow> string \<Rightarrow> string run" where
  "bad_filepath_fix_arguments env args = (case parse_value env args of
       Some json \<Rightarrow>
         (let json' = (case first_wins_filepath env args of
                         None \<Rightarrow> json
                       | Some first \<Rightarrow> (case json of
                             JObj m \<Rightarrow> JObj (jmap_insert ''filePath'' first m)
                           | _ \<Rightarrow> json)) in
          case print_value env json' of
            Inr s \<Rightarrow> Some (Ok s)
          | Inl e \<Rightarrow> Some (Err (Rebuild (''re-serializing parsed arguments failed: '' @ e))))
     | None \<Rightarrow>
         (case str_find args filepath_key of
            None \<Rightarrow> Some (Err (Parse (''unparseable arguments carry no repairable '' @ [QUOTE] @ ''filePath'' @ [QUOTE, CHR '':'', QUOTE]
                      @ ''<value>'' @ [QUOTE] @ '' pattern: '' @ clip args)))
          | Some start \<Rightarrow>
              (let after_colon = drop (start + length filepath_key) args in
               case find_string_end after_colon of
                 None \<Rightarrow> Some (Err (Parse (''first filePath value has no closing quote: '' @ clip args)))
               | Some value_end \<Rightarrow>
                   (case swallowed_quote_in_value (take value_end after_colon) of
                      None \<Rightarrow> None
                    | Some True \<Rightarrow> Some (Err (Parse (''first filePath value carries a swallowed quote (dangling backslash before a closing quote) - the value boundary is unknowable: '' @ clip args)))
                    | Some False \<Rightarrow> Some (truncate_after env args (start + length filepath_key + value_end))))))"

definition bad_filepath_function ::
  "serde_env \<Rightarrow> json \<Rightarrow> fix_action list \<Rightarrow> (json \<times> fix_action list) run" where
  "bad_filepath_function env function repairs = (case get_str function ''arguments'' of
       None \<Rightarrow> Some (Inr (function, repairs))
     | Some args \<Rightarrow>
         if is_malformed env args then
           (if has_foreign_duplicate env args then Some (Inr (function, repairs))
            else bind_run (bad_filepath_fix_arguments env args) (\<lambda>fixed.
                   (case index_set function ''arguments'' (JStr fixed) of
                      None \<Rightarrow> None
                    | Some function' \<Rightarrow> Some (Inr (function', repairs @ [Fixed args fixed])))))
         else Some (Inr (function, repairs)))"

definition apply_checked :: "serde_env \<Rightarrow> json \<Rightarrow> (json \<times> fix_action) run" where
  "apply_checked env response =
     walk (in_key ''message'' (in_key ''tool_calls'' (in_array (each (in_key ''function'' (bad_filepath_function env)))))) response"

definition bad_filepath_applies :: "serde_env \<Rightarrow> json \<Rightarrow> bool" where
  "bad_filepath_applies env response =
     is_some_and (list_ex (\<lambda>choice.
         is_some_and (list_ex (\<lambda>call.
             is_some_and (is_malformed env) (Option.bind (get call ''function'') (\<lambda>f. get_str f ''arguments''))))
           (Option.bind (get choice ''message'') (\<lambda>m. get_array m ''tool_calls''))))
       (get_array response ''choices'')"

definition bad_filepath_apply :: "serde_env \<Rightarrow> json \<Rightarrow> (json \<times> fix_action) option" where
  "bad_filepath_apply env response = (case apply_checked env response of
       None \<Rightarrow> None
     | Some (Inr outcome) \<Rightarrow> Some outcome
     | Some (Inl e) \<Rightarrow> Some (response, Failed (clip (display_value env response)) (fix_error_text e)))"

definition bad_filepath_fix :: "serde_env \<Rightarrow> response_fix" where
  "bad_filepath_fix env = \<lparr>rf_name = ''toolcall_bad_filepath'', rf_log_level = default_log_level,
     rf_applies = bad_filepath_applies env, rf_apply = bad_filepath_apply env,
     rf_applies_with_context = default_applies_with_context (bad_filepath_applies env),
     rf_apply_with_context = (\<lambda>response request. apply_checked env response)\<rparr>"

section \<open>The fix meets the contract\<close>

lemma bad_filepath_function_logs: "logs (bad_filepath_function env)"
  by (rule logsI) (auto simp: bad_filepath_function_def reports_refl reports_one bind_run_Ok
      split: option.splits if_splits)

lemma bad_filepath_function_wf: "keeps wf_json (bad_filepath_function env)"
  by (rule keepsI) (auto simp: bad_filepath_function_def bind_run_Ok split: option.splits if_splits
      dest: wf_json_set_str)

lemma bad_filepath_walk_logs:
  "logs (in_key ''message'' (in_key ''tool_calls'' (in_array (each (in_key ''function'' (bad_filepath_function env))))))"
  by (intro traversal_logs bad_filepath_function_logs)

lemma bad_filepath_walk_wf:
  "keeps wf_json (in_key ''message'' (in_key ''tool_calls'' (in_array (each (in_key ''function'' (bad_filepath_function env))))))"
  by (intro traversal_wf bad_filepath_function_wf)

interpretation bad_filepath: fix_contract "\<lambda>response request. apply_checked env response"
  by unfold_locales
    (auto simp: apply_checked_def dest: walk_unreported [OF bad_filepath_walk_logs] walk_frame
      walk_wf [OF bad_filepath_walk_wf])

section \<open>The value scan\<close>

lemma string_end_from_Some:
  "string_end_from pos cs = Some e \<Longrightarrow> length pre = pos \<Longrightarrow>
     pos < e \<and> e \<le> length (pre @ concat cs) \<and> (pre @ concat cs) ! (e - 1) = QUOTE"
proof (induction pos cs arbitrary: pre rule: string_end_from.induct)
  case (3 pos c d ds)
  show ?case
  proof (cases "c = [BACKSLASH]")
    case True
    with 3 show ?thesis using "3.IH"(1) [of "pre @ c @ d"] by (auto simp: add.assoc)
  next
    case False
    then show ?thesis
    proof (cases "c = [QUOTE]")
      case False
      with \<open>c \<noteq> [BACKSLASH]\<close> 3 show ?thesis using "3.IH"(2) [of "pre @ c"] by auto
    qed (use 3 in \<open>auto simp: nth_append\<close>)
  qed
qed (auto split: if_splits simp: nth_append)

lemma find_string_end_Some:
  assumes "find_string_end s = Some e"
  shows "2 \<le> e \<and> e \<le> length s \<and> s ! (e - 1) = QUOTE"
proof -
  let ?P = "\<lambda>c. is_whitespace c \<or> c = '':''"
  from assms obtain cs where cs: "dropWhile ?P (chars s) = [QUOTE] # cs"
    and e: "string_end_from (length (concat (takeWhile ?P (chars s))) + 1) cs = Some e"
    by (auto simp: find_string_end_def Let_def split: list.splits if_splits)
  let ?w = "concat (takeWhile ?P (chars s))"
  have s: "(?w @ [QUOTE]) @ concat cs = s"
    using cs concat_chars [of s] by (metis append.assoc append_Cons append_Nil concat.simps(2) concat_append takeWhile_dropWhile_id)
  have "length (?w @ [QUOTE]) = length ?w + 1" by simp
  from string_end_from_Some [OF e this] have "length ?w + 1 < e" "e \<le> length s" "s ! (e - 1) = QUOTE"
    unfolding s by blast+
  then show ?thesis by linarith
qed

text \<open>The swallowed-quote test panics exactly where the second byte of the raw value continues a
  character, which takes a non-ASCII white space in front of the value.\<close>

lemma swallowed_quote_panics:
  assumes "find_string_end s = Some e"
  shows "swallowed_quote_in_value (take e s) = None \<longleftrightarrow> e \<noteq> 2 \<and> is_cont (s ! 1)"
proof -
  note f = find_string_end_Some [OF assms]
  let ?v = "take e s"
  have len: "length ?v = e" using f by simp
  have "is_char_boundary ?v (e - 1)"
    using f len by (simp add: is_char_boundary_def is_cont_def)
  moreover have "is_char_boundary ?v 1 \<longleftrightarrow> \<not> is_cont (s ! 1)" using f len by (auto simp: is_char_boundary_def)
  moreover have "e = 2 \<Longrightarrow> \<not> is_cont (s ! 1)" using f by (auto simp: is_cont_def)
  ultimately show ?thesis using f len by (auto simp: swallowed_quote_in_value_def str_slice_def)
qed

section \<open>The cut\<close>

text \<open>Text in UTF-8: a continuation byte never follows an ASCII byte.\<close>

fun utf8_shaped :: "string \<Rightarrow> bool" where
  "utf8_shaped [] = True"
| "utf8_shaped [c] = True"
| "utf8_shaped (c # d # ds) = (((of_char c :: nat) < 128 \<longrightarrow> \<not> is_cont d) \<and> utf8_shaped (d # ds))"

lemma utf8_shaped_suffix: "utf8_shaped (x @ y) \<Longrightarrow> utf8_shaped y"
  by (induction x rule: utf8_shaped.induct) (auto elim: utf8_shaped.elims)

lemma utf8_shaped_tl: "utf8_shaped (c # s) \<Longrightarrow> utf8_shaped s"
  using utf8_shaped_suffix [of "[c]" s] by simp

lemma chars_ascii:
  assumes "utf8_shaped (c # s)" "(of_char c :: nat) < 128"
  shows "chars (c # s) = [c] # chars s"
  using assms by (cases s) auto

lemma string_body_drop_cont: "string_body s \<Longrightarrow> string_body (dropWhile is_cont s)"
proof (induction s rule: string_body.induct)
  case (sb_plain c s)
  then show ?case by (auto intro: string_body.sb_plain)
next
  case (sb_escape s c)
  moreover have "\<not> is_cont BACKSLASH" by (simp add: is_cont_def)
  ultimately show ?case by (auto intro: string_body.sb_escape)
qed (auto intro: string_body.sb_nil)

lemma chars_then_quote:
  "chars (c # s @ QUOTE # tail) = (c # takeWhile is_cont s) # chars (dropWhile is_cont s @ QUOTE # tail)"
proof -
  have "\<not> is_cont QUOTE" by (simp add: is_cont_def)
  then show ?thesis by (simp add: takeWhile_append_stop dropWhile_append_stop)
qed

lemma utf8_shaped_drop_cont: "utf8_shaped (s @ z) \<Longrightarrow> utf8_shaped (dropWhile is_cont s @ z)"
  by (metis append.assoc takeWhile_dropWhile_id utf8_shaped_suffix)

lemma string_end_from_body:
  "string_body t \<Longrightarrow> utf8_shaped (t @ QUOTE # tail) \<Longrightarrow>
     string_end_from pos (chars (t @ QUOTE # tail)) = Some (pos + length t + 1)"
proof (induction t arbitrary: pos rule: length_induct)
  case (1 t)
  have len: "length (takeWhile is_cont s) + length (dropWhile is_cont s) = length s" for s
    by (metis length_append takeWhile_dropWhile_id)
  show ?case using "1.prems"(1)
  proof (cases rule: string_body.cases)
    case sb_nil
    with "1.prems"(2) have "chars (t @ QUOTE # tail) = [QUOTE] # chars tail"
      using chars_ascii [of QUOTE tail] by (simp del: chars.simps)
    with sb_nil show ?thesis by (cases "chars tail") auto
  next
    case (sb_plain c s)
    let ?s = "dropWhile is_cont s"
    have "string_end_from (pos + length (c # takeWhile is_cont s)) (chars (?s @ QUOTE # tail))
        = Some (pos + length (c # takeWhile is_cont s) + length ?s + 1)"
      using "1.IH" [rule_format, of ?s] string_body_drop_cont [OF sb_plain(5)] "1.prems"(2) sb_plain(1)
        utf8_shaped_drop_cont [OF utf8_shaped_tl] length_dropWhile_le [of is_cont s]
      by (auto simp: less_Suc_eq_le)
    moreover obtain g gs where "chars (?s @ QUOTE # tail) = g # gs" by (cases "chars (?s @ QUOTE # tail)") auto
    ultimately show ?thesis using sb_plain chars_then_quote [of c s tail] len [of s] by simp
  next
    case (sb_escape s c)
    let ?s = "dropWhile is_cont s"
    have u: "utf8_shaped (c # s @ QUOTE # tail)" using "1.prems"(2) sb_escape(1) utf8_shaped_tl by simp
    have "string_end_from (pos + 1 + length (c # takeWhile is_cont s)) (chars (?s @ QUOTE # tail))
        = Some (pos + 1 + length (c # takeWhile is_cont s) + length ?s + 1)"
      using "1.IH" [rule_format, of ?s] string_body_drop_cont [OF sb_escape(2)] sb_escape(1)
        utf8_shaped_drop_cont [OF utf8_shaped_tl [OF u]] length_dropWhile_le [of is_cont s]
      by auto
    moreover have "chars (t @ QUOTE # tail) = [BACKSLASH] # (c # takeWhile is_cont s) # chars (?s @ QUOTE # tail)"
      using chars_ascii [of BACKSLASH "c # s @ QUOTE # tail"] "1.prems"(2) sb_escape(1) chars_then_quote [of c s tail]
      by simp
    ultimately show ?thesis using sb_escape(1) len [of s] by simp
  qed
qed

lemma white_chars: "white w \<Longrightarrow> chars w = map (\<lambda>c. [c]) w \<and> list_all (\<lambda>c. is_whitespace [c] \<and> \<not> is_cont c) w"
proof (induction w)
  case (Cons c w)
  then have "is_whitespace [c]" "\<not> is_cont c" by (auto simp: white_def is_ws_byte_def is_whitespace_def is_cont_def)
  moreover from Cons have "w = [] \<or> \<not> is_cont (hd w)" "chars w = map (\<lambda>c. [c]) w" "list_all (\<lambda>c. is_whitespace [c] \<and> \<not> is_cont c) w"
    by (cases w; auto simp: white_def)+
  ultimately show ?case using chars_append [of w "[c]"] by (auto simp: is_cont_def)
qed simp

lemma find_string_end_body:
  assumes "white w" "string_body t" "utf8_shaped (w @ QUOTE # t @ QUOTE # tail)"
  shows "find_string_end (w @ QUOTE # t @ QUOTE # tail) = Some (length w + length t + 2)"
proof -
  let ?P = "\<lambda>c. is_whitespace c \<or> c = '':''"
  note w = white_chars [OF assms(1)]
  have u: "utf8_shaped (QUOTE # t @ QUOTE # tail)" using assms(3) by (rule utf8_shaped_suffix)
  have "chars (w @ QUOTE # t @ QUOTE # tail) = chars w @ chars (QUOTE # t @ QUOTE # tail)"
    by (rule chars_append) (simp add: is_cont_def)
  also have "chars (QUOTE # t @ QUOTE # tail) = [QUOTE] # chars (t @ QUOTE # tail)" by (rule chars_ascii [OF u]) simp
  finally have c: "chars (w @ QUOTE # t @ QUOTE # tail) = map (\<lambda>c. [c]) w @ [QUOTE] # chars (t @ QUOTE # tail)" using w by simp
  have q: "\<not> is_whitespace [QUOTE]" by (simp add: is_whitespace_def)
  have split: "takeWhile ?P (xs @ y # ys) = xs \<and> dropWhile ?P (xs @ y # ys) = y # ys"
    if "\<forall>x \<in> set xs. ?P x" "\<not> ?P y" for xs y ys
    using that by (induction xs) auto
  have "\<forall>c \<in> set (map (\<lambda>c. [c]) w). ?P c" using w by (auto simp: list_all_iff)
  from split [OF this, of "[QUOTE]" "chars (t @ QUOTE # tail)"] have "takeWhile ?P (chars (w @ QUOTE # t @ QUOTE # tail)) = map (\<lambda>c. [c]) w"
    "dropWhile ?P (chars (w @ QUOTE # t @ QUOTE # tail)) = [QUOTE] # chars (t @ QUOTE # tail)"
    unfolding c using q by simp_all
  moreover have "concat (map (\<lambda>c. [c]) w) = w" by (induction w) auto
  ultimately show ?thesis
    using string_end_from_body [OF assms(2) utf8_shaped_tl [OF u], of "length w + 1"] by (simp add: find_string_end_def)
qed

lemma no_backslash_no_swallow: "BACKSLASH \<notin> set (concat cs) \<Longrightarrow> \<not> swallow_scan cs"
  by (induction cs rule: swallow_scan.induct) auto

lemma set_slice_subset: "set (slice s i j) \<subseteq> set s"
  using set_take_subset [of "j - i" "drop i s"] set_drop_subset [of i s] by (auto simp: slice_def)

lemma no_swallow_without_backslash:
  assumes "swallowed_quote_in_value v = Some q" "BACKSLASH \<notin> set v"
  shows "\<not> q"
proof -
  from assms(1) obtain i j where "q = swallow_scan (chars (slice v i j))"
    by (auto simp: swallowed_quote_in_value_def str_slice_def split: if_splits)
  moreover have "BACKSLASH \<notin> set (concat (chars (slice v i j)))" using assms(2) set_slice_subset [of v i j] by auto
  ultimately show ?thesis using no_backslash_no_swallow by blast
qed

lemma take_length_append: "take (length x) (x @ y) = x"
  by simp

lemma cut_here:
  assumes "white w" "string_body t" "utf8_shaped args" "args = pre @ filepath_key @ w @ QUOTE # t @ QUOTE # tail"
    and "str_find args filepath_key = Some (length pre)" "parse_value env args = None"
  defines "kept \<equiv> pre @ filepath_key @ w @ QUOTE # t @ [QUOTE]"
  shows "bad_filepath_fix_arguments env args \<noteq> None"
    and "bad_filepath_fix_arguments env args = Some (Ok fixed) \<Longrightarrow> truncate_after env args (length kept) = Ok fixed"
    and "BACKSLASH \<notin> set t \<Longrightarrow> bad_filepath_fix_arguments env args = Some (truncate_after env args (length kept))"
proof -
  let ?ac = "w @ QUOTE # t @ QUOTE # tail"
  let ?e = "length w + length t + 2"
  have ac: "drop (length pre + length filepath_key) args = ?ac" by (simp add: assms(4))
  have u: "utf8_shaped ?ac"
    using utf8_shaped_suffix [of "pre @ filepath_key" ?ac] assms(3) by (simp add: assms(4))
  have find: "find_string_end ?ac = Some ?e" by (rule find_string_end_body [OF assms(1,2) u])
  have pos: "length pre + length filepath_key + ?e = length kept" by (simp add: kept_def)
  have "\<not> is_cont (?ac ! 1)"
  proof (cases "?ac")
    case (Cons c s)
    have "(of_char c :: nat) < 128" using Cons assms(1) by (cases w) (auto simp: white_def is_ws_byte_def)
    moreover have "s \<noteq> []" using Cons by (cases w) auto
    ultimately show ?thesis using u Cons by (cases s) auto
  qed simp
  with swallowed_quote_panics [OF find] obtain q where
    q: "swallowed_quote_in_value (take ?e ?ac) = Some q" by auto
  have run: "bad_filepath_fix_arguments env args =
      (if q then Some (Err (Parse (''first filePath value carries a swallowed quote (dangling backslash before a closing quote) - the value boundary is unknowable: '' @ clip args)))
       else Some (truncate_after env args (length kept)))"
    using assms(5,6) ac find q pos by (simp add: bad_filepath_fix_arguments_def Let_def)
  show "bad_filepath_fix_arguments env args \<noteq> None" by (simp add: run)
  show "bad_filepath_fix_arguments env args = Some (Ok fixed) \<Longrightarrow> truncate_after env args (length kept) = Ok fixed"
    by (simp add: run split: if_splits)
  assume t: "BACKSLASH \<notin> set t"
  have v: "take ?e ?ac = w @ QUOTE # t @ [QUOTE]" by simp
  have "\<not> is_ws_byte BACKSLASH" by (simp add: is_ws_byte_def)
  then have "BACKSLASH \<notin> set w" using assms(1) unfolding white_def list_all_iff by blast
  with t have nb: "BACKSLASH \<notin> set (w @ QUOTE # t @ [QUOTE])" by simp
  from q have "swallowed_quote_in_value (w @ QUOTE # t @ [QUOTE]) = Some q" by (simp only: v)
  from no_swallow_without_backslash [OF this nb] have "\<not> q" .
  then show "bad_filepath_fix_arguments env args = Some (truncate_after env args (length kept))" by (simp add: run)
qed


section \<open>The first value wins\<close>

text \<open>Every span ends in front of white space or a delimiter.\<close>

definition span_ends_ok :: "string \<Rightarrow> key_span \<Rightarrow> bool" where
  "span_ends_ok b sp \<longleftrightarrow> snd (value_range sp) < length b \<and> \<not> is_cont (b ! snd (value_range sp))
     \<and> fst (value_range sp) \<le> snd (value_range sp)"

lemma ascii_not_cont: "(of_char c :: nat) < 128 \<Longrightarrow> \<not> is_cont c"
  by (simp add: is_cont_def)

lemma delim_after_ws:
  assumes "byte_at b (skip_ws b e) = Some c" "c = CHR 0x2C \<or> c = CHR 0x7D" "e \<le> length b"
  shows "e < length b \<and> \<not> is_cont (b ! e)"
proof (cases "e < length b \<and> is_ws_byte (b ! e)")
  case True
  then show ?thesis by (auto simp: is_ws_byte_def is_cont_def)
next
  case False
  then have "skip_ws b e = e" by (subst skip_ws.simps) auto
  with assms show ?thesis by (auto simp: byte_at_def is_cont_def split: if_splits)
qed

lemma scan_spans_loop_ends:
  "scan_spans_loop decode b key i out = Some sps \<Longrightarrow> list_all (span_ends_ok b) out \<Longrightarrow> list_all (span_ends_ok b) sps"
proof (induction decode b key i out rule: scan_spans_loop.induct)
  case (1 decode b key i out)
  from "1.prems"(1) obtain k v e where sp: "scan_span b i = Some (k, v, e)"
    by (auto simp: scan_spans_loop.simps [of decode b key i] split: option.splits)
  note bd = scan_span_bounds [OF sp]
  let ?out = "if span_hit decode key (slice b i k) then out @ [\<lparr>key_range = (i, k), value_range = (v, e)\<rparr>] else out"
  from "1.prems"(1) sp obtain c where c: "byte_at b (skip_ws b e) = Some c" "c = CHR 0x2C \<or> c = CHR 0x7D"
    by (auto simp: scan_spans_loop.simps [of decode b key i] Let_def split: option.splits if_splits)
  have "list_all (span_ends_ok b) ?out"
    using "1.prems"(2) delim_after_ws [OF c] bd by (auto simp: span_ends_ok_def [of b "\<lparr>key_range = (i, k), value_range = (v, e)\<rparr>"])
  then show ?case
    using "1.prems"(1) "1.IH" [OF sp refl refl refl refl c(1)] sp c
    by (auto simp: scan_spans_loop.simps [of decode b key i] Let_def split: if_splits)
qed

lemma top_level_key_spans_ends: "sp \<in> set (top_level_key_spans decode b key) \<Longrightarrow> span_ends_ok b sp"
proof -
  assume sp: "sp \<in> set (top_level_key_spans decode b key)"
  then obtain sps where "scan_spans decode b key = Some sps" "sp \<in> set sps"
    by (cases "scan_spans decode b key") (auto simp: top_level_key_spans_def)
  then show ?thesis
    by (auto simp: scan_spans_def Let_def list_all_iff split: if_splits option.splits dest: scan_spans_loop_ends)
qed

lemma str_slice_span:
  assumes "span_ends_ok b sp" "slice b (fst (value_range sp)) (snd (value_range sp)) = x # xs" "\<not> is_cont x"
  shows "str_slice b (fst (value_range sp)) (snd (value_range sp)) = Some (x # xs)"
proof -
  have "fst (value_range sp) < length b" "b ! fst (value_range sp) = x"
    using assms(2) by (auto simp: slice_def take_eq_Nil drop_eq_Nil)
      (metis append_take_drop_id drop_eq_Nil hd_append hd_drop_conv_nth linorder_not_less list.distinct(1) list.sel(1) take_Nil)+
  with assms show ?thesis by (auto simp: str_slice_def is_char_boundary_def span_ends_ok_def)
qed

section \<open>Properties\<close>

text \<open>The first duplicate wins: where the arguments are an object document with at least two
  \<^verbatim>\<open>filePath\<close> entries, the repaired text is the printed form of the parsed object with \<^verbatim>\<open>filePath\<close>
  set to the value of the first of them, not of the last one the parser keeps.\<close>

theorem first_filepath_wins:
  assumes "white w" "list_all wf_entry (e # es)"
    and dup: "filter (\<lambda>x. entry_key (decode_string env) x = Some ''filePath'') (e # es) = first # second # others"
    and parsed: "parse_value env (object_text w (e # es) []) = Some (JObj m)"
    and val: "parse_value env (e_value first) = Some v" "\<not> is_cont (hd (e_value first))"
    and out: "print_value env (JObj (jmap_insert ''filePath'' v m)) = Ok out"
  shows "bad_filepath_fix_arguments env (object_text w (e # es) []) = Some (Ok out)"
proof -
  let ?b = "object_text w (e # es) []"
  let ?sps = "top_level_key_spans (decode_string env) ?b ''filePath''"
  have texts: "map (span_texts ?b) ?sps = map (\<lambda>e. (key_token e, e_value e)) (first # second # others)"
    using scanners_object(1) [OF assms(1,2) refl] dup by simp
  then obtain sp sp2 rest where sps: "?sps = sp # sp2 # rest" by auto
  with texts have sl: "slice ?b (fst (value_range sp)) (snd (value_range sp)) = e_value first"
    by (simp add: span_texts_def)
  have "first \<in> set (e # es)" using dup by (metis filter_is_subset list.set_intros(1) subsetD)
  with assms(2) have "json_text (e_value first)" by (auto simp: list_all_iff wf_entry_def)
  then obtain x xs where x: "e_value first = x # xs" using json_text_hd by blast
  have "str_slice ?b (fst (value_range sp)) (snd (value_range sp)) = Some (e_value first)"
    using str_slice_span [of ?b sp x xs] top_level_key_spans_ends [of sp "decode_string env" ?b "''filePath''"] sps sl x val(2)
    by simp
  with sps val(1) have "first_wins_filepath env ?b = Some v" by (simp add: first_wins_filepath_def)
  with parsed out show ?thesis by (simp add: bad_filepath_fix_arguments_def)
qed

text \<open>C12. Truncation destroys no body it can read. Unparseable arguments have the form: text up to the
  first \<^verbatim>\<open>"filePath":\<close>, white space, a complete string value, then any number of readable entries with
  decodable keys, then anything that does not run on into the last value. Then the repair does not
  panic; whatever it returns is exactly the text up to and including that value, closed by a brace,
  it parses, and none of those entries is the \<^verbatim>\<open>content\<close> of the file. Conversely, where the value has
  no escapes and the entries are the whole readable tail, the repair succeeds exactly when the closed
  text parses and no entry is the \<^verbatim>\<open>content\<close>.\<close>

theorem truncation_keeps_body:
  assumes "parse_value env args = None" "utf8_shaped args"
    and "args = pre @ filepath_key @ w @ QUOTE # t @ QUOTE # w' @ following es rest"
    and "str_find args filepath_key = Some (length pre)"
    and "white w" "string_body t" "white w'" "list_all wf_entry es" "ends_here rest"
    and "map (entry_key (decode_string env)) es = map Some ks"
  defines "closed \<equiv> pre @ filepath_key @ w @ QUOTE # t @ [QUOTE, CHR 0x7D]"
  shows "bad_filepath_fix_arguments env args \<noteq> None
    \<and> (bad_filepath_fix_arguments env args = Some (Ok fixed) \<longrightarrow>
         fixed = closed \<and> parse_value env closed \<noteq> None \<and> ''content'' \<notin> set ks)
    \<and> (BACKSLASH \<notin> set t \<and> (\<forall>rest'. dropWhile is_ws_byte rest \<noteq> CHR 0x2C # rest') \<longrightarrow>
         (bad_filepath_fix_arguments env args = Some (Ok closed) \<longleftrightarrow> parse_value env closed \<noteq> None \<and> ''content'' \<notin> set ks))"
proof -
  let ?kept = "pre @ filepath_key @ w @ QUOTE # t @ [QUOTE]"
  let ?keys = "keys_after (decode_string env) args (length ?kept)"
  note cut = cut_here [OF assms(5,6,2,3,4,1)]
  have b: "args = ?kept @ w' @ following es rest" by (simp add: assms(3))
  note walk = keys_after_following [OF assms(7-10) b]
  have closed: "take (length ?kept) args @ [CHR 0x7D] = closed"
    using arg_cong [OF b, of "take (length ?kept)"] by (simp add: closed_def take_length_append)
  have trunc: "truncate_after env args (length ?kept) = Ok r \<longleftrightarrow> ''content'' \<notin> set ?keys \<and> parse_value env closed \<noteq> None \<and> r = closed" for r
    unfolding truncate_after_def Let_def closed
    by (auto simp: list_ex_iff is_valid_json_def SCHEMA_BODY_KEY_def)
  have ok: "fixed = closed \<and> parse_value env closed \<noteq> None \<and> ''content'' \<notin> set ks"
    if "bad_filepath_fix_arguments env args = Some (Ok fixed)"
    using cut(2) [OF that] walk(1) trunc by blast
  have conv: "bad_filepath_fix_arguments env args = Some (Ok closed) \<longleftrightarrow> parse_value env closed \<noteq> None \<and> ''content'' \<notin> set ks"
    if "BACKSLASH \<notin> set t" "\<forall>rest'. dropWhile is_ws_byte rest \<noteq> CHR 0x2C # rest'"
    using cut(3) [OF that(1)] walk(2) trunc [of closed] that(2) by auto
  from cut(1) ok conv show ?thesis by blast
qed

text \<open>C13. When the repair panics: exactly on unparseable arguments whose first \<^verbatim>\<open>filePath\<close> value has a
  closing quote and whose text after the colon has a multi-byte character in front, that is, where
  non-ASCII white space stands before the value.\<close>

theorem bad_filepath_panics_iff:
  "bad_filepath_fix_arguments env args = None \<longleftrightarrow>
     parse_value env args = None \<and> (\<exists>start value_end. str_find args filepath_key = Some start
       \<and> find_string_end (drop (start + length filepath_key) args) = Some value_end
       \<and> value_end \<noteq> 2 \<and> is_cont (drop (start + length filepath_key) args ! 1))"
proof (cases "parse_value env args")
  case None
  show ?thesis
  proof (cases "str_find args filepath_key")
    case start: (Some start)
    let ?ac = "drop (start + length filepath_key) args"
    show ?thesis
    proof (cases "find_string_end ?ac")
      case (Some e)
      from swallowed_quote_panics [OF this] None start Some show ?thesis
        by (auto simp: bad_filepath_fix_arguments_def Let_def simp del: nth_drop split: option.splits bool.splits)
    qed (use None start in \<open>simp add: bad_filepath_fix_arguments_def Let_def\<close>)
  qed (use None in \<open>simp add: bad_filepath_fix_arguments_def\<close>)
qed (auto simp: bad_filepath_fix_arguments_def Let_def split: sum.splits)

definition nbsp_args :: string where
  "nbsp_args = CHR 0x7B # filepath_key @ [CHR 0xC2, CHR 0xA0, QUOTE, CHR ''p'', QUOTE]"

text \<open>A response can make the repair panic: the arguments \<^verbatim>\<open>{"filePath":"p"\<close> with a no-break space
  (bytes C2 A0) after the colon are no JSON, and slicing the value's text cuts that character.\<close>

theorem bad_filepath_panics_on_nbsp:
  assumes "parse_value env nbsp_args = None"
  shows "bad_filepath_fix_arguments env nbsp_args = None"
proof -
  have f: "str_find nbsp_args filepath_key = Some 1"
    by (simp add: nbsp_args_def filepath_key_def starts_with_def)
  have d: "drop (1 + length filepath_key) nbsp_args = [CHR 0xC2, CHR 0xA0, QUOTE, CHR ''p'', QUOTE]"
    by (simp add: nbsp_args_def)
  have c: "chars [CHR 0xC2, CHR 0xA0, QUOTE, CHR ''p'', QUOTE] = [[CHR 0xC2, CHR 0xA0], [QUOTE], ''p'', [QUOTE]]"
    by (simp add: is_cont_def)
  have "find_string_end [CHR 0xC2, CHR 0xA0, QUOTE, CHR ''p'', QUOTE] = Some 5"
    unfolding find_string_end_def c by (simp add: is_whitespace_def)
  with f d show ?thesis unfolding bad_filepath_panics_iff using assms
    by (simp add: is_cont_def)
qed

definition reject_all_env :: serde_env where
  "reject_all_env = \<lparr>parse_value = (\<lambda>_. None), print_value = (\<lambda>_. Ok ''null''),
     display_value = (\<lambda>_. ''null''), decode_string = (\<lambda>_. None), entry_stream = (\<lambda>_. None)\<rparr>"

theorem bad_filepath_panics_on_nbsp_witness: "bad_filepath_fix_arguments reject_all_env nbsp_args = None"
  by (rule bad_filepath_panics_on_nbsp) (simp add: reject_all_env_def)

definition fp_entry :: "string \<Rightarrow> entry" where
  "fp_entry v = \<lparr>e_w0 = [], e_key = ''filePath'', e_w1 = [], e_w2 = [], e_value = v, e_w3 = []\<rparr>"

definition one_env :: serde_env where
  "one_env = \<lparr>parse_value = (\<lambda>s. if s = ''1'' then Some (JNum (PosInt 1)) else Some (JObj [])),
     print_value = (\<lambda>v. if v = JObj [(''filePath'', JNum (PosInt 1))] then Ok ''first'' else Err ''other''),
     display_value = (\<lambda>_. []), decode_string = (\<lambda>_. None), entry_stream = (\<lambda>_. None)\<rparr>"

lemma wf_fp_entry: "scalar_text v \<Longrightarrow> wf_entry (fp_entry v)"
  by (auto simp: wf_entry_def fp_entry_def white_def intro!: string_body.intros jt_scalar)

lemma fp_entry_key: "entry_key decode (fp_entry v) = Some ''filePath''"
  by (simp add: entry_key_def decode_key_def key_token_def fp_entry_def slice_def Let_def)

theorem first_filepath_wins_witness:
  "bad_filepath_fix_arguments one_env (object_text [] [fp_entry ''1'', fp_entry ''2''] []) = Some (Ok ''first'')"
proof (rule first_filepath_wins [where first = "fp_entry ''1''" and second = "fp_entry ''2''" and others = "[]"
      and m = "[]" and v = "JNum (PosInt 1)"])
  show "list_all wf_entry [fp_entry ''1'', fp_entry ''2'']"
    by (auto intro!: wf_fp_entry simp: scalar_text_def opens_def ends_literal_def closes_def is_ws_byte_def)
  show "parse_value one_env (object_text [] [fp_entry ''1'', fp_entry ''2''] []) = Some (JObj [])"
    by (simp add: one_env_def object_text_def)
  show "filter (\<lambda>x. entry_key (decode_string one_env) x = Some ''filePath'') [fp_entry ''1'', fp_entry ''2'']
      = [fp_entry ''1'', fp_entry ''2'']" by (simp add: fp_entry_key)
qed (simp_all add: white_def fp_entry_def one_env_def is_cont_def)

definition cut_args :: string where
  "cut_args = CHR 0x7B # filepath_key @ [QUOTE, CHR ''p'', QUOTE] @ following [entry_a] []"

definition cut_env :: serde_env where
  "cut_env = \<lparr>parse_value = (\<lambda>s. if s = cut_args then None else Some JNull), print_value = (\<lambda>_. Ok []),
     display_value = (\<lambda>_. []), decode_string = (\<lambda>_. None), entry_stream = (\<lambda>_. None)\<rparr>"

text \<open>\<^verbatim>\<open>{"filePath":"p","a":1\<close>, which is no JSON, is cut to \<^verbatim>\<open>{"filePath":"p"}\<close>.\<close>

theorem truncation_keeps_body_witness:
  "bad_filepath_fix_arguments cut_env cut_args = Some (Ok (CHR 0x7B # filepath_key @ [QUOTE, CHR ''p'', QUOTE, CHR 0x7D]))"
proof -
  have a: "cut_args = [CHR 0x7B] @ filepath_key @ [] @ QUOTE # ''p'' @ QUOTE # [] @ following [entry_a] []"
    by (simp add: cut_args_def)
  have e: "wf_entry entry_a"
    by (auto simp: wf_entry_def entry_a_def white_def scalar_text_def opens_def ends_literal_def closes_def is_ws_byte_def
        intro!: string_body.intros jt_scalar)
  have k: "map (entry_key (decode_string cut_env)) [entry_a] = map Some [''a'']"
    by (simp add: entry_key_def decode_key_def key_token_def entry_a_def slice_def)
  have u: "utf8_shaped cut_args"
    by (simp add: cut_args_def filepath_key_def entry_core_def key_token_def entry_a_def is_cont_def)
  have f: "str_find cut_args filepath_key = Some (length [CHR 0x7B])"
    by (simp add: cut_args_def filepath_key_def starts_with_def)
  have p: "parse_value cut_env cut_args = None" by (simp add: cut_env_def)
  have b: "string_body ''p''" by (intro string_body.intros) simp_all
  have c: "CHR 0x7B # filepath_key @ [QUOTE, CHR ''p'', QUOTE, CHR 0x7D] \<noteq> cut_args"
    by (simp add: cut_args_def)
  have w: "white []" "list_all wf_entry [entry_a]" "ends_here []" "BACKSLASH \<notin> set ''p''"
    using e by (simp_all add: white_def ends_here_def)
  have parses: "parse_value cut_env (CHR 0x7B # filepath_key @ [QUOTE, CHR ''p'', QUOTE, CHR 0x7D]) \<noteq> None"
    unfolding cut_env_def using c by simp
  note result = truncation_keeps_body [OF p u a f w(1) b w(1,2,3) k, THEN conjunct2, THEN conjunct2]
  have "bad_filepath_fix_arguments cut_env cut_args = Some (Ok ([CHR 0x7B] @ filepath_key @ [] @ QUOTE # ''p'' @ [QUOTE, CHR 0x7D]))"
    by (rule result [THEN mp, THEN iffD2]) (use w(4) parses in simp_all)
  then show ?thesis by simp
qed

end
