(* ===== verification/Fix_Registry.thy ===== *)
theory Fix_Registry
  imports Null_Index_Fix Malformed_Arguments_Fix Bad_Filepath_Fix Config
begin

text \<open>
  The fix registry, \<^verbatim>\<open>llama-proxy/src/fixes/registry.rs\<close>, and its construction from the
  configuration (\<^verbatim>\<open>fixes/mod.rs\<close>). A run of the registry threads the response and the log lines it
  emits; \<open>None\<close> is a panic of a fix. The enabled flags are a map from names, an association list in
  insertion order here, and configuration lookups do not depend on the order of the configuration's
  map.
\<close>

section \<open>Logging\<close>

datatype severity = SevTrace | SevDebug | SevInfo | SevWarn | SevError

record log_line =
  ll_severity :: severity
  ll_fix_name :: string
  ll_original :: "string option"
  ll_result :: "string option"
  ll_message :: string

definition log_fix_action :: "string \<Rightarrow> fix_action \<Rightarrow> fix_log_level \<Rightarrow> log_line list" where
  "log_fix_action name action level = (let line = (\<lambda>sev orig res msg.
        \<lparr>ll_severity = sev, ll_fix_name = name, ll_original = orig, ll_result = res, ll_message = msg\<rparr>) in
     case action of
       NotApplicable \<Rightarrow> [line SevTrace None None ''Fix did not apply'']
     | Fixed orig fixed \<Rightarrow> (case level of
           LogTrace \<Rightarrow> [line SevTrace (Some orig) (Some fixed) ''Detected and fixed malformed content'']
         | LogDebug \<Rightarrow> [line SevDebug (Some orig) None ''Detected malformed content (fixed)'',
                      line SevTrace (Some orig) (Some fixed) ''Successfully fixed malformed content'']
         | LogInfo \<Rightarrow> [line SevWarn (Some orig) None ''Detected malformed content'',
                     line SevInfo (Some orig) (Some fixed) ''Successfully fixed malformed content'']
         | LogWarn \<Rightarrow> [line SevWarn (Some orig) None ''Detected malformed content'',
                     line SevWarn (Some orig) (Some fixed) ''Successfully fixed malformed content''])
     | Failed orig attempted \<Rightarrow>
         [line SevWarn (Some orig) None ''Detected malformed content'',
          line SevError (Some orig) (Some attempted) ''Failed to fix malformed content''])"

section \<open>The registry\<close>

record fix_registry =
  fr_fixes :: "response_fix list"
  fr_enabled :: "(string \<times> bool) list"

definition registry_new :: fix_registry where
  "registry_new = \<lparr>fr_fixes = [], fr_enabled = []\<rparr>"

definition register :: "fix_registry \<Rightarrow> response_fix \<Rightarrow> fix_registry" where
  "register r rfix = \<lparr>fr_fixes = fr_fixes r @ [rfix], fr_enabled = jmap_insert (rf_name rfix) True (fr_enabled r)\<rparr>"

definition set_enabled :: "fix_registry \<Rightarrow> string \<Rightarrow> bool \<Rightarrow> fix_registry" where
  "set_enabled r name enabled =
     (if map_of (fr_enabled r) name \<noteq> None then r\<lparr>fr_enabled := jmap_insert name enabled (fr_enabled r)\<rparr> else r)"

definition is_enabled :: "fix_registry \<Rightarrow> string \<Rightarrow> bool" where
  "is_enabled r name = some_or (map_of (fr_enabled r) name) False"

definition get_fix :: "fix_registry \<Rightarrow> string \<Rightarrow> response_fix option" where
  "get_fix r name = find (\<lambda>f. rf_name f = name) (fr_fixes r)"

definition fixer_error_action :: "serde_env \<Rightarrow> json \<Rightarrow> fix_error \<Rightarrow> fix_action" where
  "fixer_error_action env response e =
     Failed (truncate_snippet (display_value env response) 200 Chars) (''fixer error: '' @ fix_error_text e)"

fun apply_each :: "fix_registry \<Rightarrow> response_fix list \<Rightarrow> json \<Rightarrow> log_line list \<Rightarrow> (json \<times> log_line list) option" where
  "apply_each r [] result log = Some (result, log)"
| "apply_each r (f # fs) result log =
     (if is_enabled r (rf_name f) \<and> rf_applies f result
      then (case rf_apply f result of
              None \<Rightarrow> None
            | Some (new_result, action) \<Rightarrow>
                apply_each r fs new_result (log @ log_fix_action (rf_name f) action (rf_log_level f)))
      else apply_each r fs result log)"

definition apply_fixes :: "fix_registry \<Rightarrow> json \<Rightarrow> (json \<times> log_line list) option" where
  "apply_fixes r response = apply_each r (fr_fixes r) response []"

fun apply_each_ctx ::
  "serde_env \<Rightarrow> fix_registry \<Rightarrow> json \<Rightarrow> response_fix list \<Rightarrow> json \<Rightarrow> log_line list \<Rightarrow> (json \<times> log_line list) option" where
  "apply_each_ctx env r request [] result log = Some (result, log)"
| "apply_each_ctx env r request (f # fs) result log =
     (if is_enabled r (rf_name f) \<and> rf_applies_with_context f result request
      then (case rf_apply_with_context f result request of
              None \<Rightarrow> None
            | Some (Inr (new_result, action)) \<Rightarrow>
                apply_each_ctx env r request fs new_result (log @ log_fix_action (rf_name f) action (rf_log_level f))
            | Some (Inl e) \<Rightarrow>
                apply_each_ctx env r request fs result
                  (log @ log_fix_action (rf_name f) (fixer_error_action env result e) (rf_log_level f)))
      else apply_each_ctx env r request fs result log)"

definition apply_fixes_with_context :: "serde_env \<Rightarrow> fix_registry \<Rightarrow> json \<Rightarrow> json \<Rightarrow> (json \<times> log_line list) option" where
  "apply_fixes_with_context env r response request = apply_each_ctx env r request (fr_fixes r) response []"

text \<open>Detection on a throw-away copy: the action a fix would have reported.\<close>

definition detect_action :: "serde_env \<Rightarrow> response_fix \<Rightarrow> json \<Rightarrow> json option \<Rightarrow> fix_action option" where
  "detect_action env f response request = (case request of
       Some req \<Rightarrow> (case rf_apply_with_context f response req of
           None \<Rightarrow> None
         | Some (Inr (_, action)) \<Rightarrow> Some action
         | Some (Inl e) \<Rightarrow> Some (fixer_error_action env response e))
     | None \<Rightarrow> map_option snd (rf_apply f response))"

fun detect_each :: "serde_env \<Rightarrow> fix_registry \<Rightarrow> json \<Rightarrow> json option \<Rightarrow> response_fix list \<Rightarrow> string list option" where
  "detect_each env r response request [] = Some []"
| "detect_each env r response request (f # fs) =
     (if \<not> is_enabled r (rf_name f) then detect_each env r response request fs
      else if \<not> (case request of Some req \<Rightarrow> rf_applies_with_context f response req | None \<Rightarrow> rf_applies f response)
      then detect_each env r response request fs
      else (case detect_action env f response request of
              None \<Rightarrow> None
            | Some action \<Rightarrow>
                map_option (\<lambda>names. if detected action then rf_name f # names else names)
                  (detect_each env r response request fs)))"

definition detect_fixes :: "serde_env \<Rightarrow> fix_registry \<Rightarrow> json \<Rightarrow> json option \<Rightarrow> string list option" where
  "detect_fixes env r response request = detect_each env r response request (fr_fixes r)"

definition base_name :: "string \<Rightarrow> string" where
  "base_name name = some_or (strip_suffix name ''_fix'') name"

definition module_entry :: "(string \<times> fix_module_config) list \<Rightarrow> string \<Rightarrow> fix_module_config option" where
  "module_entry config name = (case map_of config (base_name name) of
       Some c \<Rightarrow> Some c
     | None \<Rightarrow> map_of config (base_name name @ ''_fix''))"

fun configure_each :: "(string \<times> fix_module_config) list \<Rightarrow> response_fix list \<Rightarrow> (string \<times> bool) list \<Rightarrow> (string \<times> bool) list" where
  "configure_each config [] enabled = enabled"
| "configure_each config (f # fs) enabled =
     configure_each config fs (case module_entry config (rf_name f) of
         None \<Rightarrow> enabled
       | Some c \<Rightarrow> jmap_insert (rf_name f) (fm_enabled c) enabled)"

definition configure :: "fix_registry \<Rightarrow> (string \<times> fix_module_config) list \<Rightarrow> fix_registry" where
  "configure r config = r\<lparr>fr_enabled := configure_each config (fr_fixes r) (fr_enabled r)\<rparr>"

text \<open>The keys the configuration warns about: no registered fix has that name in either spelling.\<close>

definition unknown_keys :: "fix_registry \<Rightarrow> (string \<times> fix_module_config) list \<Rightarrow> string list" where
  "unknown_keys r config =
     filter (\<lambda>k. \<not> list_ex (\<lambda>f. base_name (rf_name f) = base_name k) (fr_fixes r)) (map fst config)"

section \<open>Construction\<close>

definition default_fixes :: "serde_env \<Rightarrow> slot_finder \<Rightarrow> response_fix list" where
  "default_fixes env find_slots = [null_index_fix, malformed_arguments_fix env find_slots, bad_filepath_fix env]"

definition create_default_registry :: "serde_env \<Rightarrow> slot_finder \<Rightarrow> fix_registry" where
  "create_default_registry env find_slots =
     register (register (register registry_new null_index_fix) (malformed_arguments_fix env find_slots)) (bad_filepath_fix env)"

fun register_each :: "(string \<times> fix_module_config) list \<Rightarrow> response_fix list \<Rightarrow> fix_registry \<Rightarrow> fix_registry" where
  "register_each modules [] r = r"
| "register_each modules (f # fs) r =
     register_each modules fs (case module_entry modules (rf_name f) of
         Some m \<Rightarrow> if \<not> fm_enabled m then r else register r f
       | None \<Rightarrow> register r f)"

definition create_registry_from_config :: "serde_env \<Rightarrow> slot_finder \<Rightarrow> fixes_config \<Rightarrow> fix_registry" where
  "create_registry_from_config env find_slots fixes_cfg =
     (if \<not> fc_enabled fixes_cfg then registry_new
      else register_each (fc_modules fixes_cfg) (default_fixes env find_slots) registry_new)"

section \<open>Facts\<close>

definition module_on :: "(string \<times> fix_module_config) list \<Rightarrow> string \<Rightarrow> bool" where
  "module_on modules name = is_none_or fm_enabled (module_entry modules name)"

lemma register_each_fixes:
  "fr_fixes (register_each modules fs r) = fr_fixes r @ filter (\<lambda>f. module_on modules (rf_name f)) fs"
  by (induction fs arbitrary: r) (auto simp: register_def module_on_def split: option.splits)

lemma register_each_enabled:
  "map_of (fr_enabled (register_each modules fs r)) n =
     (if \<exists>f \<in> set fs. rf_name f = n \<and> module_on modules n then Some True else map_of (fr_enabled r) n)"
  by (induction fs arbitrary: r)
    (auto simp: register_def module_on_def map_of_jmap_insert split: option.splits if_splits)

lemma configure_each_enabled:
  "map_of (configure_each config fs en) n =
     (if \<exists>f \<in> set fs. rf_name f = n \<and> module_entry config n \<noteq> None
      then map_option fm_enabled (module_entry config n) else map_of en n)"
  by (induction fs arbitrary: en) (auto simp: map_of_jmap_insert split: option.splits)

lemma default_names:
  "map rf_name (default_fixes env find_slots) = [''toolcall_null_index_fix'', ''toolcall_malformed_arguments'', ''toolcall_bad_filepath'']"
  by (simp add: default_fixes_def null_index_fix_def malformed_arguments_fix_def bad_filepath_fix_def)

lemma default_registry_fixes: "fr_fixes (create_default_registry env find_slots) = default_fixes env find_slots"
  by (simp add: create_default_registry_def default_fixes_def register_def registry_new_def)

lemma default_registry_enabled:
  "map_of (fr_enabled (create_default_registry env find_slots)) n =
     (if n \<in> set (map rf_name (default_fixes env find_slots)) then Some True else None)"
  by (auto simp: create_default_registry_def default_fixes_def register_def registry_new_def map_of_jmap_insert)

text \<open>Every fix the registry can hold meets the contract, in the context-aware form.\<close>

definition well_behaved :: "response_fix \<Rightarrow> bool" where
  "well_behaved f \<longleftrightarrow> fix_contract (rf_apply_with_context f)"

lemma default_well_behaved: "f \<in> set (default_fixes env find_slots) \<Longrightarrow> well_behaved f"
  by (auto simp: default_fixes_def well_behaved_def null_index_fix_def malformed_arguments_fix_def bad_filepath_fix_def
      intro: null_index.fix_contract_axioms malformed.fix_contract_axioms bad_filepath.fix_contract_axioms)

lemma apply_each_ctx_contract:
  "list_all well_behaved fs \<Longrightarrow> apply_each_ctx env r request fs response log = Some (result, log') \<Longrightarrow>
     (wf_json response \<longrightarrow> wf_json result) \<and> (\<forall>k. k \<noteq> ''choices'' \<longrightarrow> get result k = get response k)
     \<and> (\<exists>new. log' = log @ new \<and> ((\<forall>l \<in> set new. ll_severity l = SevTrace \<and> ll_original l = None) \<longrightarrow> result = response))"
proof (induction fs arbitrary: response log)
  case (Cons f fs)
  from Cons.prems(1) have fc: "fix_contract (rf_apply_with_context f)" and rest: "list_all well_behaved fs"
    by (auto simp: well_behaved_def [of f])
  show ?case
  proof (cases "is_enabled r (rf_name f) \<and> rf_applies_with_context f response request")
    case False
    with Cons.prems Cons.IH [OF rest] show ?thesis by simp
  next
    case True
    with Cons.prems(2) consider
      (ok) v a where "rf_apply_with_context f response request = Some (Inr (v, a))"
        "apply_each_ctx env r request fs v (log @ log_fix_action (rf_name f) a (rf_log_level f)) = Some (result, log')"
    | (err) e where "rf_apply_with_context f response request = Some (Inl e)"
        "apply_each_ctx env r request fs response
           (log @ log_fix_action (rf_name f) (fixer_error_action env response e) (rf_log_level f)) = Some (result, log')"
      by (auto split: option.splits sum.splits)
    then show ?thesis
    proof cases
      case ok
      note ih = Cons.IH [OF rest ok(2)]
      have "v = response" if "\<forall>l \<in> set (log_fix_action (rf_name f) a (rf_log_level f)). ll_severity l = SevTrace \<and> ll_original l = None"
      proof (cases a)
        case NotApplicable
        with ok(1) fix_contract.unreported_is_identity [OF fc] show ?thesis by simp
      qed (use that in \<open>auto simp: log_fix_action_def Let_def split: fix_log_level.splits\<close>)
      with ih fix_contract.keeps_wf [OF fc _ ok(1)] fix_contract.outside_choices [OF fc ok(1)] show ?thesis
        by (auto simp: ball_Un)
    next
      case err
      from Cons.IH [OF rest err(2)] show ?thesis by auto
    qed
  qed
qed simp

section \<open>Properties\<close>

text \<open>C9. The registry is fail-safe: running the configured fixes over any response touches nothing
  outside \<^verbatim>\<open>choices\<close>, keeps a well-formed value well-formed, and changes the response only if a log
  line above trace level says so; a fix that errors leaves the response it was given.\<close>

theorem registry_fail_safe:
  assumes "apply_fixes_with_context env (create_registry_from_config env find_slots cfg) response request = Some (result, log)"
  shows "(wf_json response \<longrightarrow> wf_json result) \<and> (\<forall>k. k \<noteq> ''choices'' \<longrightarrow> get result k = get response k)
    \<and> ((\<forall>l \<in> set log. ll_severity l = SevTrace \<and> ll_original l = None) \<longrightarrow> result = response)"
proof -
  have "list_all well_behaved (fr_fixes (create_registry_from_config env find_slots cfg))"
    using default_well_behaved
    by (auto simp: create_registry_from_config_def registry_new_def register_each_fixes list_all_iff)
  from apply_each_ctx_contract [OF this, of env _ request response "[]" result log]
  show ?thesis using assms by (auto simp: apply_fixes_with_context_def)
qed

theorem registry_fail_safe_witness:
  "get (JObj [(''id'', JNull)]) ''id'' = Some JNull \<and>
   (\<exists>result log. apply_fixes_with_context sample_serde_env
        (create_registry_from_config sample_serde_env scan_slots \<lparr>fc_enabled = True, fc_modules = []\<rparr>)
        (JObj [(''id'', JNull)]) JNull = Some (result, log) \<and> get result ''id'' = Some JNull)"
proof -
  let ?r = "create_registry_from_config sample_serde_env scan_slots \<lparr>fc_enabled = True, fc_modules = []\<rparr>"
  have "apply_fixes_with_context sample_serde_env ?r (JObj [(''id'', JNull)]) JNull = Some (JObj [(''id'', JNull)], [])"
    by (simp add: apply_fixes_with_context_def create_registry_from_config_def register_each_fixes registry_new_def register_def
        default_fixes_def null_index_fix_def malformed_arguments_fix_def bad_filepath_fix_def module_on_def module_entry_def
        default_applies_with_context_def null_index_applies_def malformed_applies_with_context_def any_choice_triggers_def
        bad_filepath_applies_def get_array_def)
  with registry_fail_safe [OF this] show ?thesis by auto
qed

text \<open>Both ways of honouring the configuration agree, for every order of its map: a fix is in the
  registry built from the configuration exactly when the default registry, configured by the same
  modules, has it enabled; the order is the default order; and nothing is built when fixes are
  switched off.\<close>

theorem registry_from_config_matches_configure:
  "map rf_name (fr_fixes (create_registry_from_config env find_slots cfg)) =
     (if fc_enabled cfg
      then filter (is_enabled (configure (create_default_registry env find_slots) (fc_modules cfg)))
             [''toolcall_null_index_fix'', ''toolcall_malformed_arguments'', ''toolcall_bad_filepath'']
      else [])"
proof -
  let ?names = "map rf_name (default_fixes env find_slots)"
  have on: "is_enabled (configure (create_default_registry env find_slots) (fc_modules cfg)) n = module_on (fc_modules cfg) n"
    if "n \<in> set ?names" for n
    using that
    by (auto simp: is_enabled_def configure_def configure_each_enabled default_registry_enabled default_registry_fixes
        module_on_def is_none_or_def split: option.splits)
  have "map rf_name (filter (\<lambda>f. module_on (fc_modules cfg) (rf_name f)) (default_fixes env find_slots))
      = filter (module_on (fc_modules cfg)) ?names"
    by (simp add: filter_map comp_def)
  also have "\<dots> = filter (is_enabled (configure (create_default_registry env find_slots) (fc_modules cfg))) ?names"
    using on by (intro filter_cong) auto
  finally show ?thesis
    by (simp add: create_registry_from_config_def register_each_fixes registry_new_def default_names)
qed

end
