(* ===== verification/Prompt_Cache.thy ===== *)
theory Prompt_Cache
  imports Prelude
begin

text \<open>
  The shared prompt file cache, \<^verbatim>\<open>llama-proxy/src/prompt_cache.rs\<close>: text and modification time of a
  file, re-read only when the time differs. A modification time is a number; what the file system
  answers for a path is a value of type \<open>file_state\<close>. The process-wide store maps paths to caches.
\<close>

type_synonym mtime = nat

text \<open>The answers of \<^verbatim>\<open>metadata\<close>, \<^verbatim>\<open>modified\<close> and \<^verbatim>\<open>read_to_string\<close> for one path at one moment.\<close>

record file_state =
  fs_stat :: "(mtime option, string) result"  \<comment> \<open>a stat error, or the time if the platform has it\<close>
  fs_text :: "(string, string) result"

datatype refresh_outcome =
    Reloaded string "mtime option"
  | Unchanged
  | Empty
  | RefreshFailed string

record prompt_file_cache =
  pc_text :: string
  pc_mtime :: "mtime option"

definition cache_new :: "string \<Rightarrow> mtime option \<Rightarrow> prompt_file_cache" where
  "cache_new initial_text initial_mtime = \<lparr>pc_text = initial_text, pc_mtime = initial_mtime\<rparr>"

definition cache_default :: prompt_file_cache where
  "cache_default = cache_new [] None"

definition read_and_store :: "file_state \<Rightarrow> mtime option \<Rightarrow> prompt_file_cache \<Rightarrow> refresh_outcome \<times> prompt_file_cache" where
  "read_and_store fs m c = (case fs_text fs of
       Inr t \<Rightarrow> if trim t = [] then (Empty, c) else (Reloaded t m, \<lparr>pc_text = t, pc_mtime = m\<rparr>)
     | Inl e \<Rightarrow> (RefreshFailed e, c))"

definition refresh :: "file_state \<Rightarrow> prompt_file_cache \<Rightarrow> refresh_outcome \<times> prompt_file_cache" where
  "refresh fs c = (case fs_stat fs of
       Inl e \<Rightarrow> (RefreshFailed e, c)
     | Inr (Some current) \<Rightarrow>
         if pc_mtime c = Some current then (Unchanged, c) else read_and_store fs (Some current) c
     | Inr None \<Rightarrow> read_and_store fs None c)"

type_synonym cache_store = "string \<Rightarrow> prompt_file_cache option"

definition shared :: "string \<Rightarrow> cache_store \<Rightarrow> prompt_file_cache \<times> cache_store" where
  "shared path store = (case store path of
       Some c \<Rightarrow> (c, store)
     | None \<Rightarrow> (cache_default, store(path \<mapsto> cache_default)))"

text \<open>One client's refresh through the store.\<close>

definition refresh_shared :: "string \<Rightarrow> file_state \<Rightarrow> cache_store \<Rightarrow> refresh_outcome \<times> cache_store" where
  "refresh_shared path fs store =
     (let (c, store1) = shared path store; (r, c') = refresh fs c in (r, store1(path \<mapsto> c')))"

section \<open>Facts\<close>

text \<open>The cache advances on a reload only, and then text and time belong together.\<close>

lemma refresh_cases:
  "refresh fs c = (r, c') \<Longrightarrow>
     (case r of Reloaded t m \<Rightarrow> fs_text fs = Inr t \<and> trim t \<noteq> [] \<and> fs_stat fs = Inr m \<and> c' = \<lparr>pc_text = t, pc_mtime = m\<rparr>
      | _ \<Rightarrow> c' = c)"
  by (auto simp: refresh_def read_and_store_def split: sum.splits option.splits if_splits)

text \<open>A sequence of file states seen by refreshes of one cache.\<close>

fun refreshes :: "file_state list \<Rightarrow> prompt_file_cache \<Rightarrow> prompt_file_cache" where
  "refreshes [] c = c"
| "refreshes (fs # fss) c = refreshes fss (snd (refresh fs c))"

definition seen :: "file_state list \<Rightarrow> prompt_file_cache \<Rightarrow> bool" where
  "seen fss c \<longleftrightarrow> c = cache_default
     \<or> (\<exists>fs \<in> set fss. fs_stat fs = Inr (pc_mtime c) \<and> fs_text fs = Inr (pc_text c) \<and> trim (pc_text c) \<noteq> [])"

lemma refreshes_seen: "seen done c \<Longrightarrow> seen (done @ fss) (refreshes fss c)"
proof (induction fss arbitrary: "done" c)
  case (Cons fs fss)
  obtain r c' where r: "refresh fs c = (r, c')" by fastforce
  have "seen (done @ [fs]) c'"
    using refresh_cases [OF r] Cons.prems by (cases r) (auto simp: seen_def)
  from Cons.IH [OF this] r show ?case by simp
qed simp

section \<open>Properties\<close>

text \<open>The cached text is never mixed up: after any sequence of refreshes of a fresh cache, its
  text and time are still empty or were read together, non-blank, at one of them; a refresh with the
  cached time reads nothing, and a blank file or an error keeps what was there.\<close>

theorem cache_pairs_text_and_mtime:
  "seen fss (refreshes fss cache_default)
   \<and> (\<forall>fs c m. fs_stat fs = Inr (Some m) \<and> pc_mtime c = Some m \<longrightarrow> refresh fs c = (Unchanged, c))
   \<and> (\<forall>fs c. fs_text fs = Inl err \<or> (\<exists>t. fs_text fs = Inr t \<and> trim t = []) \<longrightarrow> snd (refresh fs c) = c)"
  using refreshes_seen [of "[]" cache_default fss]
  by (auto simp: seen_def refresh_def read_and_store_def split: sum.splits option.splits)

theorem cache_pairs_text_and_mtime_witness:
  "refresh \<lparr>fs_stat = Inr (Some 3), fs_text = Inr ''new''\<rparr> \<lparr>pc_text = ''old'', pc_mtime = Some 3\<rparr>
     = (Unchanged, \<lparr>pc_text = ''old'', pc_mtime = Some 3\<rparr>)"
  using cache_pairs_text_and_mtime [of "[]" "[]"] by simp

end
