(* ===== verification/Reprompt.thy ===== *)
theory Reprompt
  imports Prompt_Cache Balancers
begin

text \<open>
  The reprompt engine, \<^verbatim>\<open>llama-proxy/src/proxy/reprompt.rs\<close>: when the backend stops without tool
  calls, it is asked to continue, a bounded number of times and within a time budget, and every
  assistant text seen is handed to the client.

  The environment (record \<open>reprompt_env\<close>) supplies what the program does not control: the clock at
  the start and before each round, whether a round's timer fires first, and the backend's answer to
  a POST. A panic is \<open>None\<close>. The guard a follow-up holds on the backend's counter is released before
  the follow-up returns, so it has no net effect on the node.
\<close>

section \<open>The engine\<close>

definition MAX_BUDGET_CAP :: duration where "MAX_BUDGET_CAP = from_secs (24 * 60 * 60)"

definition from_millis :: "u64 \<Rightarrow> duration" where "from_millis ms = unat ms * 1000000"

record reprompt_engine =
  en_prompt :: string
  en_prompt_file :: "string option"
  en_dynamic_prompt :: bool
  en_max_retries :: "32 word"
  en_max_total_ms :: u64
  en_done_sentinels :: "string list"
  en_log_stop_responses :: bool
  en_skip_read_only_requests :: bool

record reprompt_counters =
  skipped_read_only_total :: u64
  triggered_total :: u64
  exhausted_total :: u64

definition MUTATING_TOOL_NAMES :: "string list" where
  "MUTATING_TOOL_NAMES = [''apply_patch'', ''applypatch'', ''bash'', ''edit'', ''multiedit'', ''notebookedit'', ''patch'',
     ''run_command'', ''shell'', ''str_replace_editor'', ''task'', ''todowrite'', ''write'']"

definition reprompt_from_config ::
  "(string \<Rightarrow> (string, string) result) \<Rightarrow> reprompt_config \<Rightarrow> (reprompt_engine, string) result" where
  "reprompt_from_config read_file_text config =
     and_then (case rc_prompt_file config of
          Some path \<Rightarrow> (case read_file_text path of
              Inl e \<Rightarrow> Err (''reprompt: failed to read prompt_file '' @ APOS @ path @ APOS @ '': '' @ e)
            | Inr text \<Rightarrow> Ok (text, Some path))
        | None \<Rightarrow> (case rc_prompt config of
              Some inline \<Rightarrow> Ok (inline, None)
            | None \<Rightarrow> Err ''reprompt: neither prompt_file nor prompt is configured''))
       (\<lambda>(prompt, file).
          if trim prompt = [] then Err ''reprompt: prompt text is empty''
          else Ok \<lparr>en_prompt = prompt, en_prompt_file = file, en_dynamic_prompt = rc_dynamic_prompt config,
                   en_max_retries = rc_max_retries config, en_max_total_ms = rc_max_total_ms config,
                   en_done_sentinels = rc_done_sentinels config, en_log_stop_responses = rc_log_stop_responses config,
                   en_skip_read_only_requests = rc_skip_read_only_requests config\<rparr>)"

text \<open>The prompt to use, the engine's own copy and the shared cache after a possible reload.\<close>

definition resolve_prompt ::
  "(string \<Rightarrow> file_state) \<Rightarrow> reprompt_engine \<Rightarrow> cache_store \<Rightarrow> string \<times> reprompt_engine \<times> cache_store" where
  "resolve_prompt files en store =
     (if \<not> en_dynamic_prompt en then (en_prompt en, en, store)
      else case en_prompt_file en of
             None \<Rightarrow> (en_prompt en, en, store)
           | Some path \<Rightarrow>
               (case refresh_shared path (files path) store of
                  (Reloaded text m, store') \<Rightarrow> (text, en\<lparr>en_prompt := text\<rparr>, store')
                | (_, store') \<Rightarrow> (en_prompt en, en, store')))"

section \<open>Looking at responses\<close>

definition first_choice :: "json \<Rightarrow> json option" where
  "first_choice response = (case get_array response ''choices'' of
       Some (c # cs) \<Rightarrow> Some c
     | _ \<Rightarrow> None)"

definition has_tool_calls :: "json \<Rightarrow> bool" where
  "has_tool_calls choice =
     is_some_and (\<lambda>tcs. tcs \<noteq> []) (Option.bind (get choice ''message'') (\<lambda>m. get_array m ''tool_calls''))"

definition should_trigger :: "json \<Rightarrow> bool" where
  "should_trigger response = (case first_choice response of
       None \<Rightarrow> False
     | Some first \<Rightarrow>
         if some_or (get_str first ''finish_reason'') [] \<noteq> ''stop'' then False
         else \<not> has_tool_calls first)"

definition tool_name :: "json \<Rightarrow> string" where
  "tool_name tool =
     some_or (Option.bind (case Option.bind (get tool ''function'') (\<lambda>f. get f ''name'') of
                             Some n \<Rightarrow> Some n
                           | None \<Rightarrow> get tool ''name'') as_str) []"

definition request_is_read_only :: "json \<Rightarrow> bool" where
  "request_is_read_only request = (case get_array request ''tools'' of
       None \<Rightarrow> False
     | Some tools \<Rightarrow>
         if tools = [] then False
         else \<not> list_ex (\<lambda>tool. list_ex (\<lambda>kw. str_contains (to_ascii_lowercase (tool_name tool)) kw) MUTATING_TOOL_NAMES) tools)"

definition content_text :: "json \<Rightarrow> string" where
  "content_text message = (case get message ''content'' of
       Some (JStr s) \<Rightarrow> s
     | Some (JArr parts) \<Rightarrow> concat (List.map_filter (\<lambda>p. get_str p ''text'') parts)
     | _ \<Rightarrow> [])"

definition extract_assistant_text :: "json \<Rightarrow> string" where
  "extract_assistant_text response = (case Option.bind (first_choice response) (\<lambda>c. get c ''message'') of
       None \<Rightarrow> []
     | Some message \<Rightarrow>
         if trim (content_text message) \<noteq> [] then content_text message
         else some_or (Option.bind (case get message ''reasoning_content'' of
                                      Some r \<Rightarrow> Some r
                                    | None \<Rightarrow> get message ''reasoning_text'') as_str) [])"

definition has_assistant_message :: "json \<Rightarrow> bool" where
  "has_assistant_message response =
     is_some_and is_object (Option.bind (first_choice response) (\<lambda>c. get c ''message''))"

definition has_continuation :: "json \<Rightarrow> bool" where
  "has_continuation response = (case first_choice response of
       None \<Rightarrow> False
     | Some first \<Rightarrow> has_tool_calls first \<or> some_or (get_str first ''finish_reason'') ''stop'' \<noteq> ''stop'')"

section \<open>Writing the text\<close>

fun with_first :: "(json \<Rightarrow> json) \<Rightarrow> json list \<Rightarrow> json list" where
  "with_first f [] = []"
| "with_first f (x # xs) = f x # xs"

text \<open>\<^verbatim>\<open>None\<close> is the refusal (\<^verbatim>\<open>false\<close>): no message, or one that is neither an object nor null.\<close>

definition set_assistant_text :: "json \<Rightarrow> string \<Rightarrow> json option" where
  "set_assistant_text response text = (case Option.bind (first_choice response) (\<lambda>c. get c ''message'') of
       None \<Rightarrow> None
     | Some message \<Rightarrow>
         (case index_set message ''content'' (JStr text) of
            None \<Rightarrow> None
          | Some message' \<Rightarrow>
              Some (update_key ''choices'' (update_array (with_first (update_key ''message'' (\<lambda>_. message')))) response)))"

definition assistant_message :: "string \<Rightarrow> json" where
  "assistant_message text = JObj [(''role'', JStr ''assistant''), (''content'', JStr text)]"

text \<open>The forced write; indexing a first choice that is no object panics.\<close>

definition force_assistant_text :: "json \<Rightarrow> string \<Rightarrow> json option" where
  "force_assistant_text response text =
     (let response1 = (if is_object response then response else JObj []) in
      case first_choice response1 of
        Some c \<Rightarrow>
          (case index_set c ''message'' (assistant_message text) of
             None \<Rightarrow> None
           | Some c' \<Rightarrow> Some (update_key ''choices'' (update_array (with_first (\<lambda>_. c'))) response1))
      | None \<Rightarrow> index_set response1 ''choices''
                  (JArr [JObj [(''finish_reason'', JStr ''stop''), (''message'', assistant_message text)]]))"

definition SEPARATOR :: string where "SEPARATOR = [NEWLINE, NEWLINE]"

definition push_text :: "string list \<Rightarrow> string \<Rightarrow> string list" where
  "push_text collected text = (if trim text \<noteq> [] then collected @ [text] else collected)"

definition finish :: "json \<Rightarrow> string list \<Rightarrow> json option" where
  "finish clean_stop collected =
     (let text = join SEPARATOR collected in
      if text \<noteq> [] then
        (case set_assistant_text clean_stop text of
           Some r \<Rightarrow> Some r
         | None \<Rightarrow> force_assistant_text clean_stop text)
      else if \<not> has_assistant_message clean_stop then force_assistant_text clean_stop []
      else Some clean_stop)"

section \<open>The follow-up\<close>

definition f64_value :: "f64 \<Rightarrow> json" where
  "f64_value t = (if f64_is_finite t then JNum (Float t) else JNull)"

text \<open>The outer \<open>None\<close> is a panic (the request is neither an object nor null).\<close>

definition build_follow_up :: "string \<Rightarrow> json \<Rightarrow> json \<Rightarrow> 'c backend_node \<Rightarrow> json option option" where
  "build_follow_up prompt original_req stopped_resp backend =
     Option.bind (index_set original_req ''stream'' (JBool False)) (\<lambda>r1.
     (let r2 = (case r1 of JObj m \<Rightarrow> JObj (jmap_remove ''stream_options'' m) | _ \<Rightarrow> r1) in
      Option.bind (case n_model backend of None \<Rightarrow> Some r2 | Some model \<Rightarrow> index_set r2 ''model'' (JStr model)) (\<lambda>r3.
      Option.bind (case n_temperature backend of None \<Rightarrow> Some r3 | Some temp \<Rightarrow> index_set r3 ''temperature'' (f64_value temp)) (\<lambda>r4.
      (case get_array r4 ''messages'' of
         None \<Rightarrow> Some None
       | Some msgs \<Rightarrow>
           if msgs = [] then Some None
           else Some (Some (update_key ''messages'' (\<lambda>_. JArr (msgs
                  @ [assistant_message (extract_assistant_text stopped_resp),
                     JObj [(''role'', JStr ''user''), (''content'', JStr prompt)]])) r4)))))))"

record http_reply =
  hr_status :: nat
  hr_status_text :: string
  hr_text :: string
  hr_json :: "(json, string) result"

record reprompt_env =
  re_clock_max :: instant
  re_start :: instant
  re_clock :: "nat \<Rightarrow> instant"
  re_elapsed :: "nat \<Rightarrow> duration \<Rightarrow> bool"
  re_post :: "nat \<Rightarrow> string \<Rightarrow> (string \<times> string) list \<Rightarrow> json \<Rightarrow> (http_reply, string) result"

definition follow_up_url :: "'c backend_node \<Rightarrow> string \<Rightarrow> string" where
  "follow_up_url backend path_and_query = (case split_once (CHR 0x3F) path_and_query of
       Some (path, query) \<Rightarrow> base_url backend @ effective_path backend path @ [CHR 0x3F] @ query
     | None \<Rightarrow> base_url backend @ effective_path backend path_and_query)"

definition send_follow_up ::
  "reprompt_env \<Rightarrow> nat \<Rightarrow> json \<Rightarrow> 'c backend_node \<Rightarrow> string \<Rightarrow> (json, string) result" where
  "send_follow_up env attempt req backend path_and_query =
     and_then (re_post env attempt (follow_up_url backend path_and_query) (with_auth [] (n_api_key backend)) req) (\<lambda>reply.
       if \<not> (200 \<le> hr_status reply \<and> hr_status reply < 300)
       then Err (''reprompt backend returned '' @ hr_status_text reply @ '': '' @ hr_text reply)
       else hr_json reply)"

definition anthropic_has_continuation :: "string \<Rightarrow> string \<Rightarrow> bool" where
  "anthropic_has_continuation text sentinel = (\<not> str_contains text sentinel)"

section \<open>The loop\<close>

definition deadline_of :: "reprompt_env \<Rightarrow> reprompt_engine \<Rightarrow> instant" where
  "deadline_of env en =
     some_or (checked_add (re_clock_max env) (re_start env) (min (from_millis (en_max_total_ms en)) MAX_BUDGET_CAP)) (re_start env)"

text \<open>Rounds left, next attempt's number; the result comes with the number of follow-ups sent and
  whether the loop ran out of rounds.\<close>

fun reprompt_loop ::
  "reprompt_env \<Rightarrow> reprompt_engine \<Rightarrow> string \<Rightarrow> json \<Rightarrow> string \<Rightarrow> 'c backend_node \<Rightarrow> json
     \<Rightarrow> nat \<Rightarrow> nat \<Rightarrow> json \<Rightarrow> string list \<Rightarrow> (json \<times> nat \<times> bool) option" where
  "reprompt_loop env en prompt request pq backend clean_stop 0 attempt current collected =
     map_option (\<lambda>r. (r, 0, True)) (finish clean_stop collected)"
| "reprompt_loop env en prompt request pq backend clean_stop (Suc left) attempt current collected =
     (let remaining = deadline_of env en - re_clock env attempt in
      if remaining = 0 then map_option (\<lambda>r. (r, 0, False)) (finish clean_stop collected)
      else (case build_follow_up prompt request current backend of
        None \<Rightarrow> None
      | Some None \<Rightarrow> map_option (\<lambda>r. (r, 0, False)) (finish clean_stop collected)
      | Some (Some req) \<Rightarrow>
          if re_elapsed env attempt remaining then map_option (\<lambda>r. (r, 1, False)) (finish clean_stop collected)
          else (case send_follow_up env attempt req backend pq of
            Inl e \<Rightarrow> map_option (\<lambda>r. (r, 1, False)) (finish clean_stop collected)
          | Inr new_resp \<Rightarrow>
              (let new_text = extract_assistant_text new_resp; collected' = push_text collected new_text in
               if has_continuation new_resp then
                 (case set_assistant_text new_resp (join SEPARATOR collected') of
                    Some merged \<Rightarrow> Some (merged, 1, False)
                  | None \<Rightarrow> map_option (\<lambda>r. (r, 1, False)) (finish clean_stop collected'))
               else if list_ex (\<lambda>s. \<not> anthropic_has_continuation new_text s) (en_done_sentinels en)
               then map_option (\<lambda>r. (r, 1, False)) (finish clean_stop collected')
               else map_option (\<lambda>(r, n, ex). (r, Suc n, ex))
                      (reprompt_loop env en prompt request pq backend clean_stop left (Suc attempt) new_resp collected')))))"

record reprompt_outcome =
  ro_response :: json
  ro_sent :: nat
  ro_counters :: reprompt_counters
  ro_engine :: reprompt_engine
  ro_store :: cache_store

definition maybe_reprompt ::
  "reprompt_env \<Rightarrow> (string \<Rightarrow> file_state) \<Rightarrow> reprompt_engine \<Rightarrow> cache_store \<Rightarrow> reprompt_counters
     \<Rightarrow> json \<Rightarrow> json \<Rightarrow> string \<Rightarrow> 'c backend_node \<Rightarrow> reprompt_outcome option" where
  "maybe_reprompt env files en store cnt response request pq backend =
     (if \<not> should_trigger response
      then Some \<lparr>ro_response = response, ro_sent = 0, ro_counters = cnt, ro_engine = en, ro_store = store\<rparr>
      else if en_skip_read_only_requests en \<and> request_is_read_only request
      then Some \<lparr>ro_response = response, ro_sent = 0,
                 ro_counters = cnt\<lparr>skipped_read_only_total := skipped_read_only_total cnt + 1\<rparr>,
                 ro_engine = en, ro_store = store\<rparr>
      else
        (let cnt1 = cnt\<lparr>triggered_total := triggered_total cnt + 1\<rparr>;
             (prompt, en', store') = resolve_prompt files en store;
             collected = push_text [] (extract_assistant_text response) in
         map_option (\<lambda>(r, n, exhausted).
             \<lparr>ro_response = r, ro_sent = n,
              ro_counters = (if exhausted then cnt1\<lparr>exhausted_total := exhausted_total cnt1 + 1\<rparr> else cnt1),
              ro_engine = en', ro_store = store'\<rparr>)
           (reprompt_loop env en' prompt request pq backend response (unat (en_max_retries en)) 0 response collected)))"

section \<open>Facts\<close>

definition message_content :: "json \<Rightarrow> json option" where
  "message_content response =
     Option.bind (Option.bind (first_choice response) (\<lambda>c. get c ''message'')) (\<lambda>m. get m ''content'')"

lemma first_choice_Some:
  "first_choice r = Some c \<longleftrightarrow> (\<exists>cs. get r ''choices'' = Some (JArr (c # cs)))"
proof -
  have "first_choice r = Some c \<longleftrightarrow> (\<exists>cs. get_array r ''choices'' = Some (c # cs))"
    by (auto simp: first_choice_def split: option.splits list.splits)
  then show ?thesis by (simp add: get_array_Some)
qed

lemma first_choice_update:
  assumes "first_choice r = Some c"
  shows "first_choice (update_key ''choices'' (update_array (with_first f)) r) = Some (f c)"
proof -
  from assms obtain cs where "get r ''choices'' = Some (JArr (c # cs))" unfolding first_choice_Some by blast
  then have "get (update_key ''choices'' (update_array (with_first f)) r) ''choices'' = Some (JArr (f c # cs))"
    by (simp add: get_update_key)
  then show ?thesis unfolding first_choice_Some by blast
qed

lemma set_assistant_text_content:
  assumes "set_assistant_text r t = Some r'"
  shows "message_content r' = Some (JStr t)"
proof -
  from assms obtain c m m' where c: "first_choice r = Some c" "get c ''message'' = Some m"
    and m: "index_set m ''content'' (JStr t) = Some m'"
    and r': "r' = update_key ''choices'' (update_array (with_first (update_key ''message'' (\<lambda>_. m')))) r"
    by (auto simp: set_assistant_text_def bind_eq_Some_conv split: option.splits)
  have "get (update_key ''message'' (\<lambda>_. m') c) ''message'' = Some m'" using c(2) by (simp add: get_update_key)
  with first_choice_update [OF c(1)] index_set_get [OF m] r' show ?thesis by (simp add: message_content_def)
qed

lemma force_assistant_text_content:
  assumes "force_assistant_text r t = Some r'"
  shows "message_content r' = Some (JStr t)"
proof -
  let ?r = "if is_object r then r else JObj []"
  show ?thesis
  proof (cases "first_choice ?r")
    case (Some c)
    with assms obtain c' where c': "index_set c ''message'' (assistant_message t) = Some c'"
      "r' = update_key ''choices'' (update_array (with_first (\<lambda>_. c'))) ?r"
      by (auto simp: force_assistant_text_def Let_def split: option.splits)
    with first_choice_update [OF Some, of "\<lambda>_. c'"] index_set_get [OF c'(1)] show ?thesis
      by (simp add: message_content_def assistant_message_def)
  next
    case None
    with assms have "index_set ?r ''choices'' (JArr [JObj [(''finish_reason'', JStr ''stop''), (''message'', assistant_message t)]]) = Some r'"
      by (simp add: force_assistant_text_def Let_def)
    from index_set_get [OF this, of "''choices''"]
    have "get r' ''choices'' = Some (JArr [JObj [(''finish_reason'', JStr ''stop''), (''message'', assistant_message t)]])" by simp
    then have "first_choice r' = Some (JObj [(''finish_reason'', JStr ''stop''), (''message'', assistant_message t)])"
      unfolding first_choice_Some by blast
    then show ?thesis by (simp add: message_content_def assistant_message_def)
  qed
qed

lemma finish_content:
  "finish r collected = Some r' \<Longrightarrow> join SEPARATOR collected \<noteq> [] \<Longrightarrow> message_content r' = Some (JStr (join SEPARATOR collected))"
  by (auto simp: finish_def Let_def split: option.splits intro: set_assistant_text_content force_assistant_text_content)

lemma join_snoc_nonempty: "join sep (x # xs) \<noteq> [] \<Longrightarrow> join sep (x # xs @ ys) \<noteq> []"
proof (induction ys rule: rev_induct)
  case (snoc y ys)
  then have "join sep ((x # xs @ ys) @ [y]) = join sep (x # xs @ ys) @ sep @ y" by (intro join_snoc) simp
  with snoc show ?case by simp
qed simp

lemma join_nonempty: "x \<noteq> [] \<Longrightarrow> join sep (x # xs) \<noteq> []"
  by (cases xs) auto

text \<open>Collected text is only added to, and ends up in the returned message.\<close>

lemma reprompt_loop_content:
  "reprompt_loop env en prompt request pq backend clean_stop n attempt current (x # xs) = Some (r, sent, ex) \<Longrightarrow> x \<noteq> [] \<Longrightarrow>
     \<exists>more. message_content r = Some (JStr (join SEPARATOR (x # xs @ more)))"
proof (induction n arbitrary: attempt current xs r sent ex)
  case 0
  then show ?case by (auto dest!: finish_content simp: join_nonempty intro!: exI [of _ "[]"])
next
  case (Suc n)
  note ne = join_nonempty [OF Suc.prems(2), of SEPARATOR]
  have finished: "\<exists>more. message_content r = Some (JStr (join SEPARATOR (x # xs @ more)))"
    if "finish clean_stop (push_text (x # xs) t) = Some r \<or> finish clean_stop (x # xs) = Some r" for t
    using that finish_content [of clean_stop _ r] ne
    by (auto simp: push_text_def split: if_splits intro: exI [of _ "[]"] exI [of _ "[t]"])
  from Suc.prems(1) consider
      (fin) t where "finish clean_stop (push_text (x # xs) t) = Some r \<or> finish clean_stop (x # xs) = Some r"
    | (cont) v t where "set_assistant_text v (join SEPARATOR (push_text (x # xs) t)) = Some r"
    | (more) v sent' where "reprompt_loop env en prompt request pq backend clean_stop n (Suc attempt) v
          (push_text (x # xs) (extract_assistant_text v)) = Some (r, sent', ex)"
    by (auto simp: Let_def split: if_splits option.splits sum.splits)
  then show ?case
  proof cases
    case fin
    then show ?thesis by (rule finished)
  next
    case cont
    from set_assistant_text_content [OF this] show ?thesis
      by (auto simp: push_text_def split: if_splits intro: exI [of _ "[]"] exI [of _ "[t]"])
  next
    case more
    show ?thesis
    proof (cases "trim (extract_assistant_text v) = []")
      case True
      with more Suc.IH Suc.prems(2) show ?thesis by (simp add: push_text_def)
    next
      case False
      with more Suc.IH [of "Suc attempt" v "xs @ [extract_assistant_text v]" r sent' ex] Suc.prems(2)
      show ?thesis by (auto simp: push_text_def)
    qed
  qed
qed

lemma reprompt_loop_sent:
  "reprompt_loop env en prompt request pq backend clean_stop n attempt current collected = Some (r, sent, ex) \<Longrightarrow> sent \<le> n"
proof (induction n arbitrary: attempt current collected r sent ex)
  case (Suc n)
  then show ?case by (auto simp: Let_def split: if_splits option.splits sum.splits)
qed auto

lemma finish_total: "first_choice r = Some c \<Longrightarrow> is_object c \<Longrightarrow> \<exists>r'. finish r collected = Some r'"
proof -
  assume c: "first_choice r = Some c" "is_object c"
  then have "is_object r" by (cases r) (auto simp: first_choice_def get_array_def is_object_def)
  moreover from c(2) have "\<exists>c'. index_set c ''message'' (assistant_message t) = Some c'" for t
    using index_set_defined by blast
  ultimately have "\<exists>r'. force_assistant_text r t = Some r'" for t
    using c(1) by (fastforce simp: force_assistant_text_def Let_def split: option.splits)
  then show ?thesis by (auto simp: finish_def Let_def split: option.splits)
qed

lemma index_set_object: "is_object v \<or> is_null v \<Longrightarrow> \<exists>w. index_set v k x = Some w \<and> is_object w"
  by (cases v) (auto simp: is_object_def is_null_def)

lemma build_follow_up_total:
  assumes "is_object req \<or> is_null req"
  shows "\<exists>f. build_follow_up prompt req stopped backend = Some f"
proof -
  obtain r1 where r1: "index_set req ''stream'' (JBool False) = Some r1" "is_object r1" using index_set_object [OF assms] by blast
  let ?r2 = "case r1 of JObj m \<Rightarrow> JObj (jmap_remove ''stream_options'' m) | _ \<Rightarrow> r1"
  have o2: "is_object ?r2" using r1(2) by (cases r1) (auto simp: is_object_def)
  obtain r3 where r3: "(case n_model backend of None \<Rightarrow> Some ?r2 | Some model \<Rightarrow> index_set ?r2 ''model'' (JStr model)) = Some r3" "is_object r3"
    using o2 index_set_object [of ?r2 "''model''"] by (cases "n_model backend") auto
  obtain r4 where "(case n_temperature backend of None \<Rightarrow> Some r3 | Some t \<Rightarrow> index_set r3 ''temperature'' (f64_value t)) = Some r4"
    using r3(2) index_set_object [of r3 "''temperature''"] by (cases "n_temperature backend") auto
  with r1 r3 show ?thesis by (auto simp: build_follow_up_def Let_def split: option.splits)
qed

lemma reprompt_loop_total:
  assumes c: "first_choice clean_stop = Some c" "is_object c" and q: "is_object request \<or> is_null request"
  shows "\<exists>r. reprompt_loop env en prompt request pq backend clean_stop n attempt current collected = Some r"
proof (induction n arbitrary: attempt current collected)
  case 0
  then show ?case using finish_total [OF c] by (metis option.simps(9) reprompt_loop.simps(1))
next
  case (Suc n)
  have f: "\<exists>r'. finish clean_stop cs = Some r'" for cs using finish_total [OF c] by blast
  obtain fu where "build_follow_up prompt request current backend = Some fu" using build_follow_up_total [OF q] by blast
  moreover have "\<exists>r n' ex. reprompt_loop env en prompt request pq backend clean_stop n (Suc attempt) v cs = Some (r, n', ex)" for v cs
    using Suc.IH by (metis prod_cases3)
  ultimately show ?case using f
    by (cases fu) (auto simp: Let_def split: sum.splits option.splits, metis+)
qed

lemma should_trigger_choice: "should_trigger r \<Longrightarrow> \<exists>c. first_choice r = Some c \<and> is_object c"
proof -
  assume "should_trigger r"
  then obtain c where "first_choice r = Some c" "some_or (get_str c ''finish_reason'') [] = ''stop''"
    by (auto simp: should_trigger_def split: option.splits if_splits)
  moreover from this(2) have "is_object c" by (cases c) (auto simp: get_str_def is_object_def)
  ultimately show ?thesis by blast
qed

lemma maybe_reprompt_defined:
  assumes "is_object request \<or> is_null request"
  shows "\<exists>out. maybe_reprompt env files en store cnt response request pq backend = Some out"
proof (cases "should_trigger response")
  case True
  obtain c where c: "first_choice response = Some c" "is_object c" using should_trigger_choice True by blast
  obtain prompt en' store' where p: "resolve_prompt files en store = (prompt, en', store')" by (metis prod_cases3)
  obtain r where "reprompt_loop env en' prompt request pq backend response (unat (en_max_retries en)) 0 response
      (push_text [] (extract_assistant_text response)) = Some r"
    using reprompt_loop_total [OF c assms] by metis
  with p show ?thesis by (auto simp: maybe_reprompt_def Let_def)
qed (simp add: maybe_reprompt_def)

section \<open>Properties\<close>

text \<open>C15. The engine always answers and is bounded: for every backend and every clock, with a request
  that is a JSON object or null, it returns a response after at most \<^verbatim>\<open>max_retries\<close> follow-ups; where it does
  not act it returns the response as it was and sends nothing.\<close>

theorem reprompt_answers:
  assumes "is_object request \<or> is_null request"
  shows "\<exists>out. maybe_reprompt env files en store cnt response request pq backend = Some out
    \<and> ro_sent out \<le> unat (en_max_retries en)
    \<and> (\<not> should_trigger response \<or> (en_skip_read_only_requests en \<and> request_is_read_only request) \<longrightarrow>
         ro_response out = response \<and> ro_sent out = 0)"
proof (cases "should_trigger response \<and> \<not> (en_skip_read_only_requests en \<and> request_is_read_only request)")
  case False
  then show ?thesis by (auto simp: maybe_reprompt_def)
next
  case True
  obtain out where o: "maybe_reprompt env files en store cnt response request pq backend = Some out"
    using maybe_reprompt_defined [OF assms] by blast
  then have "ro_sent out \<le> unat (en_max_retries en)"
    using True by (auto simp: maybe_reprompt_def Let_def split_beta dest: reprompt_loop_sent)
  with o True show ?thesis by auto
qed

text \<open>C14. No assistant text is lost: once the engine acts on a response with a non-blank text, the
  message it returns carries that text first, followed by the later turns' texts, whatever happened
  in between: exhaustion, an expired budget, a failed or refused follow-up, a sentinel or a
  continuation.\<close>

theorem reprompt_keeps_text:
  assumes "should_trigger response" "\<not> (en_skip_read_only_requests en \<and> request_is_read_only request)"
    and "trim (extract_assistant_text response) \<noteq> []"
    and "maybe_reprompt env files en store cnt response request pq backend = Some out"
  shows "\<exists>more. message_content (ro_response out)
           = Some (JStr (join SEPARATOR (extract_assistant_text response # more)))"
proof -
  obtain prompt en' store' where p: "resolve_prompt files en store = (prompt, en', store')" by (metis prod_cases3)
  have "push_text [] (extract_assistant_text response) = [extract_assistant_text response]"
    using assms(3) by (simp add: push_text_def)
  with assms p obtain r n ex where l: "reprompt_loop env en' prompt request pq backend response (unat (en_max_retries en)) 0 response
      [extract_assistant_text response] = Some (r, n, ex)" "ro_response out = r"
    by (auto simp: maybe_reprompt_def Let_def)
  have "extract_assistant_text response \<noteq> []" using assms(3) by (auto simp: trim_def)
  from reprompt_loop_content [OF l(1) this] l(2) show ?thesis by simp
qed

text \<open>A prompt edit can be missed: when another client of the shared cache refreshes the same file
  first, the engine finds the time unchanged and keeps sending its own older copy, although the
  shared cache already holds the new text.\<close>

theorem resolve_prompt_misses_shared_reload:
  assumes "en_dynamic_prompt en" "en_prompt_file en = Some path"
    and "fs_stat (files path) = Ok (Some m)" "fs_text (files path) = Ok new_text" "trim new_text \<noteq> []"
    and "pc_mtime (fst (shared path store)) \<noteq> Some m"
  shows "let store' = snd (refresh_shared path (files path) store) in
     fst (resolve_prompt files en store') = en_prompt en
     \<and> map_option pc_text (store' path) = Some new_text"
  using assms
  by (auto simp: resolve_prompt_def refresh_shared_def shared_def refresh_def read_and_store_def Let_def split_beta
      split: option.splits)

section \<open>Witnesses\<close>

definition sample_engine :: reprompt_engine where
  "sample_engine = \<lparr>en_prompt = ''go'', en_prompt_file = Some ''p.md'', en_dynamic_prompt = True, en_max_retries = 2,
     en_max_total_ms = 30000, en_done_sentinels = [''DONE''], en_log_stop_responses = False, en_skip_read_only_requests = True\<rparr>"

definition sample_stop :: json where
  "sample_stop = JObj [(''choices'', JArr [JObj [(''finish_reason'', JStr ''stop''), (''message'', assistant_message ''hi'')]])]"

definition sample_files :: "string \<Rightarrow> file_state" where
  "sample_files path = \<lparr>fs_stat = Ok (Some 7), fs_text = Ok ''new''\<rparr>"

lemma sample_stop_triggers: "should_trigger sample_stop"
  by (simp add: sample_stop_def should_trigger_def first_choice_def get_array_def get_str_def has_tool_calls_def assistant_message_def)

lemma sample_stop_text: "extract_assistant_text sample_stop = ''hi''"
  by (simp add: sample_stop_def extract_assistant_text_def first_choice_def get_array_def assistant_message_def
      content_text_def trim_def is_cont_def is_whitespace_def)

definition sample_env :: reprompt_env where
  "sample_env = \<lparr>re_clock_max = 1000000000, re_start = 5, re_clock = (\<lambda>i. 5 + i), re_elapsed = (\<lambda>_ _. False),
     re_post = (\<lambda>_ _ _ _. Err ''refused'')\<rparr>"

abbreviation sample_run :: "reprompt_outcome option" where
  "sample_run \<equiv> maybe_reprompt sample_env sample_files sample_engine Map.empty
     \<lparr>skipped_read_only_total = 0, triggered_total = 0, exhausted_total = 0\<rparr> sample_stop (JObj []) ''/v1/chat/completions''
     (sample_node ''u'' 0 True 0)"

theorem reprompt_answers_witness: "\<exists>out. sample_run = Some out \<and> ro_sent out \<le> 2"
  using reprompt_answers [of "JObj []" sample_env sample_files sample_engine Map.empty
      "\<lparr>skipped_read_only_total = 0, triggered_total = 0, exhausted_total = 0\<rparr>" sample_stop "''/v1/chat/completions''"
      "sample_node ''u'' 0 True 0"]
  by (auto simp: is_object_def sample_engine_def)

theorem reprompt_keeps_text_witness:
  "\<exists>out more. sample_run = Some out \<and> message_content (ro_response out) = Some (JStr (join SEPARATOR (''hi'' # more)))"
proof -
  obtain out where o: "sample_run = Some out"
    using maybe_reprompt_defined [of "JObj []" sample_env sample_files sample_engine Map.empty
        "\<lparr>skipped_read_only_total = 0, triggered_total = 0, exhausted_total = 0\<rparr>" sample_stop
        "''/v1/chat/completions''" "sample_node ''u'' 0 True 0"]
    by (auto simp: is_object_def)
  have "\<not> (en_skip_read_only_requests sample_engine \<and> request_is_read_only (JObj []))"
    by (simp add: request_is_read_only_def get_array_def)
  moreover have "trim (extract_assistant_text sample_stop) \<noteq> []"
    unfolding sample_stop_text by (simp add: trim_def is_cont_def is_whitespace_def)
  ultimately show ?thesis
    using reprompt_keeps_text [OF sample_stop_triggers _ _ o] o unfolding sample_stop_text by blast
qed

theorem resolve_prompt_misses_shared_reload_witness:
  "fst (resolve_prompt sample_files sample_engine (snd (refresh_shared ''p.md'' (sample_files ''p.md'') Map.empty))) = ''go''"
  using resolve_prompt_misses_shared_reload [of sample_engine "''p.md''" sample_files 7 "''new''" Map.empty]
  by (simp add: sample_engine_def sample_files_def shared_def cache_default_def cache_new_def Let_def
      trim_def is_cont_def is_whitespace_def)

end
