(* ===== verification/Utf8_Text.thy ===== *)
theory Utf8_Text
  imports Prelude
begin

text \<open>
  The text operations of Rust's standard library the streaming code uses on raw bytes: the lossy
  UTF-8 decoding, \<^verbatim>\<open>str::lines\<close>, \<^verbatim>\<open>str::split\<close> on a string. The main fact is that an ASCII text seen
  after decoding, splitting and trimming stood literally in the bytes.
\<close>

section \<open>Lossy decoding\<close>

abbreviation between :: "nat \<Rightarrow> nat \<Rightarrow> nat \<Rightarrow> bool" where "between a b n \<equiv> a \<le> n \<and> n \<le> b"

definition nth_in :: "nat \<Rightarrow> nat \<Rightarrow> string \<Rightarrow> nat \<Rightarrow> bool" where
  "nth_in a b s i = (i < length s \<and> between a b (of_char (s ! i)))"

text \<open>The range a second byte must lie in, by the first byte of a three- or four-byte sequence.\<close>

definition second_low :: "nat \<Rightarrow> nat" where
  "second_low n = (if n = 0xE0 then 0xA0 else if n = 0xF0 then 0x90 else 0x80)"

definition second_high :: "nat \<Rightarrow> nat" where
  "second_high n = (if n = 0xED then 0x9F else if n = 0xF4 then 0x8F else 0xBF)"

text \<open>The length of the next piece and whether it is a well-formed character: an ill-formed piece is
  the longest prefix that could have started one.\<close>

definition utf8_step :: "string \<Rightarrow> nat \<times> bool" where
  "utf8_step s =
     (let n = of_char (hd s) :: nat in
      if n < 0x80 then (1, True)
      else if between 0xC2 0xDF n then (if nth_in 0x80 0xBF s 1 then (2, True) else (1, False))
      else if between 0xE0 0xEF n then
        (if \<not> nth_in (second_low n) (second_high n) s 1 then (1, False)
         else if nth_in 0x80 0xBF s 2 then (3, True) else (2, False))
      else if between 0xF0 0xF4 n then
        (if \<not> nth_in (second_low n) (second_high n) s 1 then (1, False)
         else if \<not> nth_in 0x80 0xBF s 2 then (2, False)
         else if nth_in 0x80 0xBF s 3 then (4, True) else (3, False))
      else (1, False))"

definition REPLACEMENT :: string where "REPLACEMENT = [CHR 0xEF, CHR 0xBF, CHR 0xBD]"

lemma utf8_step_pos: "0 < fst (utf8_step s)"
  by (simp add: utf8_step_def Let_def)

function from_utf8_lossy :: "string \<Rightarrow> string" where
  "from_utf8_lossy s =
     (if s = [] then []
      else (if snd (utf8_step s) then take (fst (utf8_step s)) s else REPLACEMENT)
           @ from_utf8_lossy (drop (fst (utf8_step s)) s))"
  by pat_completeness auto
termination
  by (relation "measure length") (use utf8_step_pos in auto)

declare from_utf8_lossy.simps [simp del]

section \<open>Lines and pieces\<close>

abbreviation CR :: char where "CR \<equiv> CHR 0x0D"

definition strip_cr :: "string \<Rightarrow> string" where
  "strip_cr s = some_or (strip_suffix s [CR]) s"

text \<open>\<^verbatim>\<open>str::lines\<close>: a final line without its newline keeps a trailing carriage return, an empty one is
  no line.\<close>

definition text_lines :: "string \<Rightarrow> string list" where
  "text_lines s = (let ps = split_on NEWLINE s in
     map strip_cr (butlast ps) @ (if last ps = [] then [] else [last ps]))"

text \<open>\<^verbatim>\<open>str::split\<close> on a non-empty string.\<close>

lemma str_find_lt: "str_find s p = Some i \<Longrightarrow> i + length p \<le> length s"
proof (induction s arbitrary: i)
  case Nil
  then show ?case by (auto split: if_splits)
next
  case (Cons c s)
  then show ?case by (fastforce split: if_splits simp: starts_with_def dest: arg_cong [of _ _ length])
qed

function split_str :: "string \<Rightarrow> string \<Rightarrow> string list" where
  "split_str sep s =
     (if sep = [] then [s]
      else case str_find s sep of
             None \<Rightarrow> [s]
           | Some i \<Rightarrow> take i s # split_str sep (drop (i + length sep) s))"
  by pat_completeness auto
termination
proof (relation "measure (\<lambda>(sep, s). length s)", goal_cases)
  case (2 sep s i)
  from str_find_lt [OF 2(2)] 2(1) show ?case by (cases sep) auto
qed simp

declare split_str.simps [simp del]

section \<open>What was seen stood in the bytes\<close>

lemma str_contains_append: "str_contains s p \<Longrightarrow> str_contains (a @ s) p" "str_contains s p \<Longrightarrow> str_contains (s @ b) p"
  using str_contains_mono [of s p a "[]"] str_contains_mono [of s p "[]" b] by simp_all

lemma str_contains_trans: "str_contains s t \<Longrightarrow> str_contains t p \<Longrightarrow> str_contains s p"
  by (metis str_contains_iff str_contains_mono)

lemma str_contains_refl [simp]: "str_contains s s"
  using str_contains_infix [of "[]" s "[]"] by simp

lemma trim_infix: "str_contains s (trim s)"
proof -
  have "\<exists>a b. xs = a @ rev (dropWhile P (rev (dropWhile P xs))) @ b" for P and xs :: "string list"
  proof -
    have "dropWhile P xs = rev (dropWhile P (rev (dropWhile P xs))) @ rev (takeWhile P (rev (dropWhile P xs)))"
      by (metis rev_append rev_rev_ident takeWhile_dropWhile_id)
    then show ?thesis by (metis takeWhile_dropWhile_id)
  qed
  then obtain a b where "chars s = a @ rev (dropWhile is_whitespace (rev (dropWhile is_whitespace (chars s)))) @ b" by blast
  from arg_cong [OF this, of concat] have "s = concat a @ trim s @ concat b" by (simp add: trim_def)
  then show ?thesis by (metis str_contains_infix)
qed

lemma split_on_infix: "x \<in> set (split_on c s) \<Longrightarrow> str_contains s x"
proof -
  have "\<exists>a b. s = a @ x @ b" if "x \<in> set (split_on c s)" for x
    using that
  proof (induction s arbitrary: x)
    case (Cons y s)
    obtain p ps where s: "split_on c s = p # ps" using split_on_nonempty [of c s] by (cases "split_on c s") auto
    have first: "\<exists>b. s = hd (split_on c s) @ b" for s
    proof (induction s)
      case (Cons z s)
      obtain q qs where "split_on c s = q # qs" using split_on_nonempty [of c s] by (cases "split_on c s") auto
      with Cons show ?case by auto
    qed simp
    consider "x = []" | "x = y # p" | "x \<in> set (split_on c s)" using Cons.prems s by (auto split: if_splits)
    then show ?case
    proof cases
      case 1
      then show ?thesis by auto
    next
      case 2
      moreover obtain b where "s = p @ b" using first [of s] s by auto
      ultimately have "y # s = [] @ x @ b" by simp
      then show ?thesis by blast
    next
      case 3
      then obtain a b where "s = a @ x @ b" using Cons.IH by blast
      then have "y # s = (y # a) @ x @ b" by simp
      then show ?thesis by blast
    qed
  qed simp
  then show "x \<in> set (split_on c s) \<Longrightarrow> str_contains s x" by (auto simp: str_contains_iff)
qed

lemma strip_cr_infix: "str_contains s (strip_cr s)"
  by (auto simp: strip_cr_def strip_suffix_Some_iff some_or_def str_contains_append split: option.splits)

lemma text_lines_infix: "x \<in> set (text_lines s) \<Longrightarrow> str_contains s x"
proof -
  assume "x \<in> set (text_lines s)"
  moreover have "last (split_on NEWLINE s) \<in> set (split_on NEWLINE s)" using split_on_nonempty by simp
  ultimately consider "x \<in> set (split_on NEWLINE s)"
    | y where "y \<in> set (split_on NEWLINE s)" "x = strip_cr y"
    by (auto simp: text_lines_def Let_def dest: in_set_butlastD split: if_splits)
  then show ?thesis by cases (use split_on_infix strip_cr_infix str_contains_trans in blast)+
qed

lemma split_str_infix: "x \<in> set (split_str sep s) \<Longrightarrow> str_contains s x"
proof (induction sep s rule: split_str.induct)
  case (1 sep s)
  show ?case
  proof (cases "sep = [] \<or> str_find s sep = None")
    case True
    with "1.prems" have "x = s" by (simp add: split_str.simps [of sep s] split: if_splits)
    then show ?thesis by simp
  next
    case False
    then obtain i where i: "sep \<noteq> []" "str_find s sep = Some i" by auto
    with "1.prems" consider "x = take i s" | "x \<in> set (split_str sep (drop (i + length sep) s))"
      by (auto simp: split_str.simps [of sep s])
    then show ?thesis
    proof cases
      case 1
      then have "s = [] @ x @ drop i s" by simp
      then show ?thesis by (metis str_contains_infix)
    next
      case 2
      with "1.IH" i have "str_contains (drop (i + length sep) s) x" by blast
      then show ?thesis by (metis append_take_drop_id str_contains_append(1))
    qed
  qed
qed

definition is_ascii :: "char \<Rightarrow> bool" where
  "is_ascii c = ((of_char c :: nat) < 0x80)"

lemma lossy_Cons_ascii: "is_ascii c \<Longrightarrow> from_utf8_lossy (c # s) = c # from_utf8_lossy s"
  by (simp add: from_utf8_lossy.simps [of "c # s"] utf8_step_def is_ascii_def)

lemma nth_in_not_ascii: "nth_in a b s i \<Longrightarrow> 0x80 \<le> a \<Longrightarrow> i < length s \<and> \<not> is_ascii (s ! i)"
  by (auto simp: nth_in_def is_ascii_def)

lemma second_low_ge: "0x80 \<le> second_low n"
  by (simp add: second_low_def)

text \<open>A piece that is not an ASCII byte has no ASCII byte, decoded or replaced.\<close>

lemma utf8_step_True:
  assumes "\<not> is_ascii (hd s)" "utf8_step s = (k, True)"
  shows "k = 2 \<and> nth_in 0x80 0xBF s 1
    \<or> k = 3 \<and> nth_in (second_low (of_char (hd s))) (second_high (of_char (hd s))) s 1 \<and> nth_in 0x80 0xBF s 2
    \<or> k = 4 \<and> nth_in (second_low (of_char (hd s))) (second_high (of_char (hd s))) s 1 \<and> nth_in 0x80 0xBF s 2
        \<and> nth_in 0x80 0xBF s 3"
  using assms unfolding utf8_step_def Let_def is_ascii_def by (simp split: if_splits)

lemma utf8_piece_not_ascii:
  assumes "s \<noteq> []" "\<not> is_ascii (hd s)" "utf8_step s = (k, True)"
  shows "\<forall>c \<in> set (take k s). \<not> is_ascii c"
proof -
  have 0: "\<not> is_ascii (s ! 0)" using assms by (simp add: hd_conv_nth)
  note cont = nth_in_not_ascii [of "0x80" "0xBF" s, OF _ order_refl]
  note second = nth_in_not_ascii [of "second_low (of_char (hd s))" "second_high (of_char (hd s))" s, OF _ second_low_ge]
  have below: "i = 0 \<or> i = 1 \<or> i = 2 \<or> i = 3" if "i < 4" for i :: nat using that by linarith
  from utf8_step_True [OF assms(2,3)] have "\<not> is_ascii (s ! i)" if "i < k" for i
  proof (elim disjE conjE)
    assume "k = 2" "nth_in 0x80 0xBF s 1"
    then show ?thesis using cont [of 1] 0 that below [of i] by auto
  next
    assume "k = 3" "nth_in (second_low (of_char (hd s))) (second_high (of_char (hd s))) s 1" "nth_in 0x80 0xBF s 2"
    then show ?thesis using second [of 1] cont [of 2] 0 that below [of i] by auto
  next
    assume "k = 4" "nth_in (second_low (of_char (hd s))) (second_high (of_char (hd s))) s 1" "nth_in 0x80 0xBF s 2"
      "nth_in 0x80 0xBF s 3"
    then show ?thesis using second [of 1] cont [of 2] cont [of 3] 0 that below [of i] by auto
  qed
  then show ?thesis by (auto simp: in_set_conv_nth)
qed

lemma lossy_head:
  assumes "s \<noteq> []" "\<not> is_ascii (hd s)"
  shows "\<exists>h k. from_utf8_lossy s = h @ from_utf8_lossy (drop k s) \<and> h \<noteq> [] \<and> 0 < k
           \<and> k = fst (utf8_step s) \<and> (\<forall>c \<in> set h. \<not> is_ascii c)"
proof -
  obtain k ok where k: "utf8_step s = (k, ok)" by force
  have "0 < k" using utf8_step_pos [of s] k by simp
  show ?thesis
  proof (cases ok)
    case True
    then have "from_utf8_lossy s = take k s @ from_utf8_lossy (drop k s)" "take k s \<noteq> []"
      using assms k \<open>0 < k\<close> by (auto simp: from_utf8_lossy.simps [of s])
    with utf8_piece_not_ascii [OF assms] k True \<open>0 < k\<close> show ?thesis by auto
  next
    case False
    then have "from_utf8_lossy s = REPLACEMENT @ from_utf8_lossy (drop k s)"
      using assms k by (simp add: from_utf8_lossy.simps [of s])
    moreover have "\<forall>c \<in> set REPLACEMENT. \<not> is_ascii c" "REPLACEMENT \<noteq> []" by (simp_all add: REPLACEMENT_def is_ascii_def)
    ultimately show ?thesis using k \<open>0 < k\<close> by auto
  qed
qed

lemma lossy_ascii_prefix: "from_utf8_lossy s = w @ b \<Longrightarrow> \<forall>c \<in> set w. is_ascii c \<Longrightarrow> \<exists>r. s = w @ r"
proof (induction w arbitrary: s)
  case (Cons c w)
  have "s \<noteq> []" using Cons.prems(1) by (auto simp: from_utf8_lossy.simps)
  moreover have "is_ascii (hd s)"
  proof (rule ccontr)
    assume "\<not> is_ascii (hd s)"
    from lossy_head [OF \<open>s \<noteq> []\<close> this] obtain h k
      where "from_utf8_lossy s = h @ from_utf8_lossy (drop k s)" "h \<noteq> []" "\<forall>c \<in> set h. \<not> is_ascii c" by blast
    with Cons.prems show False by (cases h) auto
  qed
  ultimately obtain s' where "s = c # s'" "from_utf8_lossy s' = w @ b"
    using Cons.prems(1) lossy_Cons_ascii by (cases s) auto
  with Cons.IH [of s'] Cons.prems(2) show ?case by auto
qed simp

lemma infix_after_run:
  assumes "a @ w @ b = h @ l" "w \<noteq> []" "\<forall>c \<in> set w. P c" "\<forall>c \<in> set h. \<not> P c"
  shows "\<exists>a'. l = a' @ w @ b"
proof -
  from assms(1) obtain u where "a = h @ u \<and> u @ w @ b = l \<or> a @ u = h \<and> w @ b = u @ l"
    unfolding append_eq_append_conv2 by blast
  then consider "u @ w @ b = l" | "a @ u = h" "w @ b = u @ l" by blast
  then show ?thesis
  proof cases
    case 2
    have "u = []"
    proof (rule ccontr)
      assume "u \<noteq> []"
      then have "hd w = hd u" using assms(2) 2(2) by (metis hd_append2)
      moreover have "\<not> P (hd u)" using assms(4) 2(1) \<open>u \<noteq> []\<close> by auto
      ultimately show False using assms(2,3) hd_in_set [of w] by metis
    qed
    with 2 have "l = [] @ w @ b" by simp
    then show ?thesis by blast
  qed blast
qed

lemma lossy_ascii_infix:
  assumes "str_contains (from_utf8_lossy s) w" "w \<noteq> []" "\<forall>c \<in> set w. is_ascii c"
  shows "str_contains s w"
  using assms(1)
proof (induction s rule: from_utf8_lossy.induct)
  case (1 s)
  from "1.prems" assms(2) have s: "s \<noteq> []" by (auto simp: from_utf8_lossy.simps str_contains_def)
  obtain a b where ab: "from_utf8_lossy s = a @ w @ b" using "1.prems" by (auto simp: str_contains_iff)
  show ?case
  proof (cases "is_ascii (hd s)")
    case True
    then obtain c s' where c: "s = c # s'" "is_ascii c" using s by (cases s) auto
    then have l: "from_utf8_lossy s = c # from_utf8_lossy s'" "fst (utf8_step s) = 1"
      by (simp_all add: lossy_Cons_ascii utf8_step_def is_ascii_def)
    show ?thesis
    proof (cases a)
      case Nil
      with ab lossy_ascii_prefix [of s w b] assms(3) obtain r where "s = [] @ w @ r" by auto
      then show ?thesis by (metis str_contains_infix)
    next
      case (Cons x a')
      with ab l have "str_contains (from_utf8_lossy s') w" by auto
      with "1.IH" s l c have "str_contains s' w" by simp
      with c show ?thesis using str_contains_append(1) [of s' w "[c]"] by simp
    qed
  next
    case False
    from lossy_head [OF s False] obtain h k where h: "from_utf8_lossy s = h @ from_utf8_lossy (drop k s)"
      "k = fst (utf8_step s)" "\<forall>c \<in> set h. \<not> is_ascii c" by blast
    with ab have "a @ w @ b = h @ from_utf8_lossy (drop k s)" by simp
    from infix_after_run [OF this assms(2,3) h(3)] have "str_contains (from_utf8_lossy (drop k s)) w" by auto
    with "1.IH" s h have "str_contains (drop k s) w" by simp
    then show ?thesis by (metis append_take_drop_id str_contains_append(1))
  qed
qed

end
