(* ===== verification/Sse_Framing.thy ===== *)
theory Sse_Framing
  imports Utf8_Text Fix_Core
begin

text \<open>
  The pass-through of a server-sent event stream, \<^verbatim>\<open>llama-proxy/src/proxy/streaming.rs\<close>: the byte
  framer (\<^verbatim>\<open>FramingState\<close>), the completion detection and the loop that hands blocks to the client
  (\<^verbatim>\<open>advance_stream\<close>).

  What the backend sends is the list of items its body stream yields, chunks or a transport error;
  the end of the list is the end of the body. A backend that falls silent is a proper prefix of such
  a list. The observer's channel is the pair of the sender's presence and the value sent.
\<close>

section \<open>The framer\<close>

definition PENDING_HIGH_WATER :: nat where "PENDING_HIGH_WATER = 1024 * 1024"

record framing_state =
  pending :: string
  scan_from :: nat
  cr_held :: bool

datatype framed =
    Events string nat
  | ForceFlush string
  | NoFrame

definition framing_new :: framing_state where
  "framing_new = \<lparr>pending = [], scan_from = 0, cr_held = False\<rparr>"

definition find_double_newline :: "string \<Rightarrow> nat option" where
  "find_double_newline buf = str_find buf [NEWLINE, NEWLINE]"

text \<open>The copy loop of \<^verbatim>\<open>push\<close>, on the slice that is left: what is appended, and whether the last byte
  was a carriage return.\<close>

function push_loop :: "string \<Rightarrow> string \<Rightarrow> string \<times> bool" where
  "push_loop acc rest = (case find_index (\<lambda>b. b = CR) rest of
       None \<Rightarrow> (acc @ rest, False)
     | Some idx \<Rightarrow>
         if idx + 1 < length rest
         then push_loop (acc @ take idx rest @ [NEWLINE])
                (drop (if rest ! (idx + 1) = NEWLINE then idx + 2 else idx + 1) rest)
         else (acc @ take idx rest, True))"
  by pat_completeness auto
termination by (relation "measure (\<lambda>(acc, rest). length rest)") auto

declare push_loop.simps [simp del]

definition push :: "string \<Rightarrow> framing_state \<Rightarrow> framing_state" where
  "push bytes s =
     (let start = (if cr_held s then pending s @ [NEWLINE] else pending s);
          rest = (if cr_held s \<and> bytes \<noteq> [] \<and> hd bytes = NEWLINE then tl bytes else bytes);
          (p, held) = push_loop start rest in
      s\<lparr>pending := p, cr_held := held\<rparr>)"

text \<open>The terminator scan from a cursor: the last terminator found and how many were found.\<close>

lemma find_double_newline_lt: "find_double_newline buf = Some i \<Longrightarrow> i + 2 \<le> length buf"
  using str_find_lt by (fastforce simp: find_double_newline_def)

function scan_terminators :: "string \<Rightarrow> nat \<Rightarrow> nat option \<Rightarrow> nat \<Rightarrow> nat option \<times> nat" where
  "scan_terminators buf cursor found events =
     (case find_double_newline (drop cursor buf) of
        None \<Rightarrow> (found, events)
      | Some rel \<Rightarrow> scan_terminators buf (min (cursor + rel + 2) (length buf)) (Some (cursor + rel)) (events + 1))"
  by pat_completeness auto
termination
proof (relation "measure (\<lambda>(buf, cursor, _, _). length buf - cursor)", goal_cases)
  case (2 buf cursor found events rel)
  from find_double_newline_lt [OF 2] show ?case by auto
qed simp

declare scan_terminators.simps [simp del]

definition take_framed :: "framing_state \<Rightarrow> framed \<times> framing_state" where
  "take_framed s =
     (if pending s = [] then (NoFrame, s)
      else
        (let start = min (scan_from s) (length (pending s) - 1);
             (found, events) = scan_terminators (pending s) start None 0 in
         case found of
           Some p \<Rightarrow>
             (let rest = drop (p + 2) (pending s) in
              (Events (take (p + 2) (pending s)) events, s\<lparr>pending := rest, scan_from := length rest - 1\<rparr>))
         | None \<Rightarrow>
             if length (pending s) > PENDING_HIGH_WATER
             then (ForceFlush (pending s @ (if cr_held s then [NEWLINE] else []) @ [NEWLINE, NEWLINE]),
                   s\<lparr>pending := [], scan_from := 0, cr_held := False\<rparr>)
             else (NoFrame, s\<lparr>scan_from := length (pending s) - 1\<rparr>)))"

definition framing_finish :: "framing_state \<Rightarrow> string option \<times> framing_state" where
  "framing_finish s =
     (let p = pending s @ (if cr_held s then [NEWLINE] else []);
          s' = s\<lparr>pending := [], scan_from := 0, cr_held := False\<rparr> in
      (if p = [] then None else Some p, s'))"

section \<open>Reading an event\<close>

definition strip_field :: "string \<Rightarrow> string \<Rightarrow> string option" where
  "strip_field line prefix = map_option (\<lambda>v. some_or (strip_prefix v '' '') v) (strip_prefix line prefix)"

fun split_lines :: "string list \<Rightarrow> string option \<Rightarrow> string list \<Rightarrow> string option \<times> string list" where
  "split_lines [] event_type payloads = (event_type, payloads)"
| "split_lines (line # ls) event_type payloads =
     (case strip_field line ''event:'' of
        Some v \<Rightarrow> split_lines ls (Some v) payloads
      | None \<Rightarrow> (case strip_field line ''data:'' of
            Some v \<Rightarrow> split_lines ls event_type (payloads @ [v])
          | None \<Rightarrow> split_lines ls event_type payloads))"

definition split_event :: "string \<Rightarrow> string option \<times> string list" where
  "split_event raw = split_lines (text_lines (from_utf8_lossy raw)) None []"

definition is_completion_event :: "string option \<Rightarrow> string list \<Rightarrow> bool" where
  "is_completion_event event_type payloads =
     (event_type = Some ''message_stop'' \<or> list_ex (\<lambda>p. trim p = ''[DONE]'') payloads)"

definition count_unparsed_payloads :: "serde_env \<Rightarrow> string list \<Rightarrow> nat" where
  "count_unparsed_payloads env payloads =
     length (filter (\<lambda>p. let t = trim p in
       t \<noteq> [] \<and> t \<noteq> ''[DONE]'' \<and> \<not> starts_with t '':'' \<and> parse_value env t = None) payloads)"

definition mentions_bridge_event :: "string \<Rightarrow> bool" where
  "mentions_bridge_event b = (str_contains b ''[DONE'' \<or> str_contains b ''message_stop'')"

section \<open>The end signal\<close>

datatype stream_end = Completed | BackendClosed | BackendError | Stalled | ClientGone

fun end_as_str :: "stream_end \<Rightarrow> string" where
  "end_as_str Completed = ''ok''"
| "end_as_str BackendClosed = ''truncated''"
| "end_as_str BackendError = ''truncated''"
| "end_as_str Stalled = ''stalled''"
| "end_as_str ClientGone = ''client_gone''"

text \<open>The one-shot channel: whether the stream still holds the sender, and the value sent.\<close>

record completion =
  tx_live :: bool
  tx_sent :: "stream_end option"

definition signal_end :: "stream_end \<Rightarrow> completion \<Rightarrow> completion" where
  "signal_end reason tx = (if tx_live tx then \<lparr>tx_live = False, tx_sent = Some reason\<rparr> else tx)"

definition resolve_end_reason :: "stream_end \<Rightarrow> completion \<Rightarrow> bool \<Rightarrow> stream_end" where
  "resolve_end_reason end_reason tx dropped = (case tx_sent tx of
       Some reason \<Rightarrow> reason
     | None \<Rightarrow> if dropped \<and> end_reason = Stalled then ClientGone else end_reason)"

definition raw_completes :: "string \<Rightarrow> bool" where
  "raw_completes raw = (case split_event raw of (event_type, payloads) \<Rightarrow> is_completion_event event_type payloads)"

definition detect_and_signal_completion :: "string \<Rightarrow> completion \<Rightarrow> bool \<times> completion" where
  "detect_and_signal_completion bytes tx =
     (if \<not> tx_live tx \<or> \<not> mentions_bridge_event bytes then (False, tx)
      else if list_ex raw_completes (split_str [NEWLINE, NEWLINE] (from_utf8_lossy bytes))
      then (True, signal_end Completed tx)
      else (False, tx))"

section \<open>The pass-through\<close>

type_synonym stream_item = "(string, string) result"

record pass_state =
  ps_items :: "stream_item list"     \<comment> \<open>what the body stream still yields\<close>
  ps_done :: bool                    \<comment> \<open>the fuse\<close>
  ps_framing :: framing_state
  ps_accumulated :: "string option"
  ps_completion :: completion
  ps_activity :: nat                 \<comment> \<open>activity signals sent\<close>
  ps_pending_error :: "string option"
  ps_completion_signaled :: bool
  ps_events_total :: u64             \<comment> \<open>the global event counter\<close>

definition fused_next :: "pass_state \<Rightarrow> stream_item option \<times> pass_state" where
  "fused_next s =
     (if ps_done s then (None, s)
      else case ps_items s of
             [] \<Rightarrow> (None, s\<lparr>ps_done := True\<rparr>)
           | item # items \<Rightarrow> (Some item, s\<lparr>ps_items := items, ps_done := \<not> is_ok item\<rparr>))"

definition activity :: "pass_state \<Rightarrow> pass_state" where
  "activity s = s\<lparr>ps_activity := ps_activity s + 1\<rparr>"

definition maybe_accumulate :: "string \<Rightarrow> pass_state \<Rightarrow> pass_state" where
  "maybe_accumulate bytes s = s\<lparr>ps_accumulated := map_option (\<lambda>acc. acc @ bytes) (ps_accumulated s)\<rparr>"

definition emit_block :: "string \<Rightarrow> pass_state \<Rightarrow> pass_state" where
  "emit_block out s =
     (let s1 = maybe_accumulate out s;
          (fired, tx) = detect_and_signal_completion out (ps_completion s1) in
      activity (s1\<lparr>ps_completion := tx, ps_completion_signaled := ps_completion_signaled s1 \<or> fired\<rparr>))"

datatype drained =
    NoError pass_state
  | Emit stream_item pass_state
  | EndNow pass_state

definition drain_error :: "pass_state \<Rightarrow> drained" where
  "drain_error s = (case ps_pending_error s of
       None \<Rightarrow> NoError s
     | Some err \<Rightarrow>
         (case framing_finish (ps_framing s) of
            (Some tail, f) \<Rightarrow> Emit (Ok tail) (emit_block tail (s\<lparr>ps_framing := f\<rparr>))
          | (None, f) \<Rightarrow>
              (let s1 = s\<lparr>ps_framing := f, ps_pending_error := None\<rparr> in
               if ps_completion_signaled s1 then EndNow s1
               else Emit (Err err) (s1\<lparr>ps_completion := signal_end BackendError (ps_completion s1)\<rparr>))))"

definition count_events :: "nat \<Rightarrow> pass_state \<Rightarrow> pass_state" where
  "count_events n s =
     (if ps_accumulated s \<noteq> None then s\<lparr>ps_events_total := ps_events_total s + of_nat n\<rparr> else s)"

text \<open>One call of \<^verbatim>\<open>advance_stream\<close>: an item and the state, or the end (with the state it is dropped
  in).\<close>

lemma fused_next_shorter: "fused_next s = (Some item, s') \<Longrightarrow> length (ps_items s') < length (ps_items s)"
  by (auto simp: fused_next_def split: if_splits list.splits)

lemma emit_block_items [simp]: "ps_items (emit_block out s) = ps_items s"
  by (simp add: emit_block_def maybe_accumulate_def activity_def Let_def split_beta)

lemma drain_NoError: "drain_error s = NoError s' \<Longrightarrow> s' = s \<and> ps_pending_error s = None"
  by (auto simp: drain_error_def Let_def split: option.splits prod.splits if_splits)

function advance_stream :: "pass_state \<Rightarrow> stream_item option \<times> pass_state" where
  "advance_stream s =
     (case take_framed (ps_framing s) of
        (Events out events, f) \<Rightarrow> (Some (Ok out), emit_block out (count_events events (s\<lparr>ps_framing := f\<rparr>)))
      | (ForceFlush out, f) \<Rightarrow> (Some (Ok out), emit_block out (count_events 1 (s\<lparr>ps_framing := f\<rparr>)))
      | (NoFrame, f) \<Rightarrow>
          (case drain_error (s\<lparr>ps_framing := f\<rparr>) of
             Emit item s1 \<Rightarrow> (Some item, s1)
           | EndNow s1 \<Rightarrow> (None, s1)
           | NoError s1 \<Rightarrow>
               (case fused_next s1 of
                  (None, s2) \<Rightarrow>
                    (case framing_finish (ps_framing s2) of
                       (Some tail, f2) \<Rightarrow> (Some (Ok tail), emit_block tail (s2\<lparr>ps_framing := f2\<rparr>))
                     | (None, f2) \<Rightarrow>
                         (None, activity (s2\<lparr>ps_framing := f2, ps_completion := signal_end BackendClosed (ps_completion s2)\<rparr>)))
                | (Some (Inl e), s2) \<Rightarrow> advance_stream (s2\<lparr>ps_pending_error := Some e\<rparr>)
                | (Some (Inr chunk), s2) \<Rightarrow>
                    (let s3 = activity s2 in
                     if chunk = [] then (Some (Ok chunk), s3)
                     else advance_stream (s3\<lparr>ps_framing := push chunk (ps_framing s3)\<rparr>)))))"
  by pat_completeness auto
termination
proof (relation "measure (\<lambda>s. length (ps_items s))", goal_cases)
  case (2 s)
  then show ?case by (auto dest!: drain_NoError fused_next_shorter [OF sym])
next
  case (3 s)
  then show ?case by (auto dest!: drain_NoError fused_next_shorter [OF sym] simp: activity_def)
qed simp

declare advance_stream.simps [simp del]

text \<open>The state a response starts in; the bytes are collected only when something reads them back.\<close>

definition pass_new :: "stream_item list \<Rightarrow> bool \<Rightarrow> u64 \<Rightarrow> pass_state" where
  "pass_new items accumulates events_total =
     \<lparr>ps_items = items, ps_done = False, ps_framing = framing_new,
      ps_accumulated = (if accumulates then Some [] else None),
      ps_completion = \<lparr>tx_live = True, tx_sent = None\<rparr>, ps_activity = 0, ps_pending_error = None,
      ps_completion_signaled = False, ps_events_total = events_total\<rparr>"

section \<open>The observer\<close>

text \<open>What wakes the observer. At a wake the channel holds the value sent, if any; \<open>dropped\<close> says that the
  body stream, and with it both senders, is gone.\<close>

datatype wake = WakeCompletion | WakeActivity | WakeTimeout

fun await_end :: "(wake \<times> completion \<times> bool) list \<Rightarrow> stream_end option" where
  "await_end [] = None"
| "await_end ((WakeCompletion, tx, dropped) # ws) =
     Some (case tx_sent tx of Some reason \<Rightarrow> reason | None \<Rightarrow> ClientGone)"
| "await_end ((WakeActivity, tx, dropped) # ws) =
     (if dropped then Some (resolve_end_reason ClientGone tx dropped) else await_end ws)"
| "await_end ((WakeTimeout, tx, dropped) # ws) = Some (resolve_end_reason Stalled tx dropped)"

record stream_totals =
  truncated_total :: u64
  stalled_total :: u64
  client_gone_total :: u64

fun tally_end :: "stream_end \<Rightarrow> stream_totals \<Rightarrow> stream_totals" where
  "tally_end Completed t = t"
| "tally_end BackendClosed t = t\<lparr>truncated_total := truncated_total t + 1\<rparr>"
| "tally_end BackendError t = t\<lparr>truncated_total := truncated_total t + 1\<rparr>"
| "tally_end Stalled t = t\<lparr>stalled_total := stalled_total t + 1\<rparr>"
| "tally_end ClientGone t = t\<lparr>client_gone_total := client_gone_total t + 1\<rparr>"

definition scan_unparsed_events :: "serde_env \<Rightarrow> string \<Rightarrow> u64 \<Rightarrow> u64" where
  "scan_unparsed_events env acc_text unparsed_total =
     unparsed_total + of_nat (length (filter (\<lambda>raw. count_unparsed_payloads env (snd (split_event raw)) > 0)
                               (split_str [NEWLINE, NEWLINE] acc_text)))"

end
