(* ===== verification/Sse_Pass.thy ===== *)
theory Sse_Pass
  imports Sse_Framing
begin

text \<open>
  Correctness of the pass-through of \<open>Sse_Framing\<close>. The framer's resumed scan finds exactly the
  events a scan of the whole buffer finds; the bytes delivered to the client are the backend's with
  line ends normalised, whatever the chunking; the end of the stream is signalled once and truly.
\<close>

section \<open>Line ends\<close>

text \<open>The specification: a carriage return, with a line feed after it or not, is one line feed.\<close>

fun normalize :: "string \<Rightarrow> string" where
  "normalize [] = []"
| "normalize (c # s) =
     (if c = CR then NEWLINE # (if s \<noteq> [] \<and> hd s = NEWLINE then normalize (tl s) else normalize s) else c # normalize s)"

text \<open>The same as a transducer: output so far and whether the last byte was a carriage return.\<close>

fun norm :: "bool \<Rightarrow> string \<Rightarrow> string \<times> bool" where
  "norm held [] = ([], held)"
| "norm held (c # s) =
     (if c = CR then ((if held then [NEWLINE] else []) @ fst (norm True s), snd (norm True s))
      else if held \<and> c = NEWLINE then (NEWLINE # fst (norm False s), snd (norm False s))
      else ((if held then [NEWLINE] else []) @ c # fst (norm False s), snd (norm False s)))"

definition held_lf :: "bool \<Rightarrow> string" where
  "held_lf held = (if held then [NEWLINE] else [])"

lemma held_lf_simps [simp]: "held_lf True = [NEWLINE]" "held_lf False = []"
  by (simp_all add: held_lf_def)

definition norm_end :: "bool \<Rightarrow> string \<Rightarrow> string" where
  "norm_end held s = fst (norm held s) @ held_lf (snd (norm held s))"

lemma norm_append:
  "norm held (a @ b) = (fst (norm held a) @ fst (norm (snd (norm held a)) b), snd (norm (snd (norm held a)) b))"
  by (induction a arbitrary: held) auto

lemma norm_end_append: "norm_end held (a @ b) = fst (norm held a) @ norm_end (snd (norm held a)) b"
  by (simp add: norm_end_def norm_append)

lemma norm_end_Nil [simp]: "norm_end held [] = held_lf held"
  by (simp add: norm_end_def)

lemma norm_True_Cons: "norm True (c # s) = (NEWLINE # fst (norm False (if c = NEWLINE then s else c # s)),
    snd (norm False (if c = NEWLINE then s else c # s)))"
  by simp

lemma norm_end_normalize: "norm_end False s = normalize s"
proof (induction s rule: length_induct)
  case (1 s)
  show ?case
  proof (cases s)
    case (Cons c t)
    show ?thesis
    proof (cases "c = CR")
      case False
      with 1 Cons show ?thesis by (simp add: norm_end_def)
    next
      case True
      show ?thesis
      proof (cases t)
        case Nil
        with Cons True show ?thesis by (simp add: norm_end_def)
      next
        case (Cons d u)
        have "norm_end False s = NEWLINE # norm_end False (if d = NEWLINE then u else d # u)"
          using \<open>s = c # t\<close> True Cons by (simp add: norm_end_def)
        with 1 \<open>s = c # t\<close> True Cons show ?thesis by auto
      qed
    qed
  qed simp
qed

lemma norm_length: "length (fst (norm held s)) + (if snd (norm held s) then 1 else 0) \<le> length s + (if held then 1 else 0)"
proof (induction s arbitrary: held)
  case (Cons c s)
  from Cons.IH [of True] Cons.IH [of False] show ?case by (auto split: if_splits)
qed simp

lemma find_index_split: "find_index (\<lambda>b. b = c) s = Some i \<Longrightarrow> s = take i s @ c # drop (Suc i) s \<and> c \<notin> set (take i s)"
  by (induction s arbitrary: i) (auto split: if_splits)

lemma norm_no_cr: "CR \<notin> set s \<Longrightarrow> norm False s = (s, False)"
  by (induction s) auto

lemma push_loop_norm: "push_loop acc rest = (acc @ fst (norm False rest), snd (norm False rest))"
proof (induction acc rest rule: push_loop.induct)
  case (1 acc rest)
  show ?case
  proof (cases "find_index (\<lambda>b. b = CR) rest")
    case None
    then have "CR \<notin> set rest" by (auto simp: find_index_None)
    with None norm_no_cr show ?thesis by (simp add: push_loop.simps [of acc rest])
  next
    case (Some i)
    from find_index_split [OF this] have r: "rest = take i rest @ CR # drop (Suc i) rest" and n: "CR \<notin> set (take i rest)" by auto
    have norm: "norm False rest = (take i rest @ fst (norm True (drop (Suc i) rest)), snd (norm True (drop (Suc i) rest)))"
      using norm_no_cr [OF n] by (subst r, subst norm_append) simp
    show ?thesis
    proof (cases "i + 1 < length rest")
      case False
      then have "drop (Suc i) rest = []" by simp
      with norm False Some show ?thesis by (simp add: push_loop.simps [of acc rest])
    next
      case True
      let ?rest = "drop (if rest ! (i + 1) = NEWLINE then i + 2 else i + 1) rest"
      have d: "drop (Suc i) rest = rest ! (i + 1) # drop (i + 2) rest" using True by (simp add: Cons_nth_drop_Suc)
      have r': "(if rest ! (i + 1) = NEWLINE then drop (i + 2) rest else rest ! (i + 1) # drop (i + 2) rest) = ?rest"
        using d by simp
      have "norm True (drop (Suc i) rest) = (NEWLINE # fst (norm False ?rest), snd (norm False ?rest))"
        unfolding d norm_True_Cons r' ..
      with "1.IH" [OF Some True] Some True norm show ?thesis by (simp add: push_loop.simps [of acc rest])
    qed
  qed
qed

lemma push_norm:
  "bytes \<noteq> [] \<Longrightarrow>
   push bytes s = s\<lparr>pending := pending s @ fst (norm (cr_held s) bytes), cr_held := snd (norm (cr_held s) bytes)\<rparr>"
  by (cases bytes) (auto simp: push_def push_loop_norm Let_def)

section \<open>Terminators\<close>

text \<open>The specification: the events of a buffer, each up to and with its blank line, and the tail.\<close>

function frames :: "string \<Rightarrow> string list \<times> string" where
  "frames buf = (case find_double_newline buf of
       None \<Rightarrow> ([], buf)
     | Some i \<Rightarrow> (take (i + 2) buf # fst (frames (drop (i + 2) buf)), snd (frames (drop (i + 2) buf))))"
  by pat_completeness auto
termination
proof (relation "measure length", goal_cases)
  case (2 buf i)
  from find_double_newline_lt [OF 2] show ?case by simp
next
  case (3 buf i)
  from find_double_newline_lt [OF 3] show ?case by simp
qed simp

declare frames.simps [simp del]

lemma frames_concat: "concat (fst (frames buf)) @ snd (frames buf) = buf"
proof (induction buf rule: frames.induct)
  case (1 buf)
  then show ?case by (cases "find_double_newline buf") (auto simp: frames.simps [of buf])
qed

lemma frames_tail: "find_double_newline (snd (frames buf)) = None"
proof (induction buf rule: frames.induct)
  case (1 buf)
  then show ?case by (cases "find_double_newline buf") (auto simp: frames.simps [of buf])
qed

lemma scan_terminators_frames:
  assumes "cursor \<le> length buf"
  shows "scan_terminators buf cursor found events =
    (let (evs, rest) = frames (drop cursor buf) in
     (if evs = [] then found else Some (length buf - length rest - 2), events + length evs))"
  using assms
proof (induction buf cursor found events rule: scan_terminators.induct)
  case (1 buf cursor found events)
  show ?case
  proof (cases "find_double_newline (drop cursor buf)")
    case None
    then show ?thesis by (simp add: scan_terminators.simps [of buf cursor] frames.simps [of "drop cursor buf"])
  next
    case (Some rel)
    with find_double_newline_lt [OF Some] "1.prems" have le: "cursor + rel + 2 \<le> length buf" by simp
    let ?c = "cursor + rel + 2"
    have split: "frames (drop cursor buf) = (take (rel + 2) (drop cursor buf) # fst (frames (drop ?c buf)), snd (frames (drop ?c buf)))"
      using Some by (simp add: frames.simps [of "drop cursor buf"] add.commute add.left_commute)
    have "scan_terminators buf cursor found events = scan_terminators buf ?c (Some (cursor + rel)) (events + 1)"
      using Some le by (simp add: scan_terminators.simps [of buf cursor])
    also have "\<dots> = (let (evs, rest) = frames (drop ?c buf) in
      (if evs = [] then Some (cursor + rel) else Some (length buf - length rest - 2), events + 1 + length evs))"
      using "1.IH" [OF Some] le by (simp add: min_def)
    finally have s: "scan_terminators buf cursor found events = \<dots>" .
    show ?thesis
    proof (cases "fst (frames (drop ?c buf)) = []")
      case True
      then have "snd (frames (drop ?c buf)) = drop ?c buf" using frames_concat [of "drop ?c buf"] by simp
      with s split True le show ?thesis by (simp add: split_beta)
    next
      case False
      with s split show ?thesis by (simp add: split_beta)
    qed
  qed
qed

section \<open>The resumed scan\<close>

text \<open>What the framer's debug assertion states, with the range of the frontier.\<close>

definition frontier_ok :: "framing_state \<Rightarrow> bool" where
  "frontier_ok s = ((scan_from s = 0 \<or> scan_from s < length (pending s))
     \<and> find_double_newline (take (scan_from s + 1) (pending s)) = None)"

lemma find_skip:
  "find_double_newline (take (Suc k) buf) = None \<Longrightarrow>
   find_double_newline buf = map_option ((+) k) (find_double_newline (drop k buf))"
proof (induction k arbitrary: buf)
  case 0
  then show ?case by (simp add: option.map_id0 [unfolded id_def])
next
  case (Suc k)
  show ?case
  proof (cases buf)
    case Nil
    then show ?thesis by (simp add: find_double_newline_def)
  next
    case (Cons c b)
    with Suc.prems have "find_double_newline (take (Suc k) b) = None"
      and "\<not> starts_with (c # b) [NEWLINE, NEWLINE]"
      by (auto simp: find_double_newline_def starts_with_def split: if_splits)
    with Suc.IH [of b] Cons show ?thesis
      by (simp add: find_double_newline_def option.map_comp comp_def)
  qed
qed

lemma find_none_take: "find_double_newline buf = None \<Longrightarrow> find_double_newline (take k buf) = None"
proof (induction buf arbitrary: k)
  case (Cons c b)
  then show ?case
    by (cases k; cases "k - 1") (auto simp: find_double_newline_def starts_with_def take_Cons' split: if_splits)
qed (simp add: find_double_newline_def)

lemma frames_skip:
  assumes "find_double_newline (take (Suc k) buf) = None" "k \<le> length buf"
  shows "frames buf = (case frames (drop k buf) of ([], r) \<Rightarrow> ([], buf) | (e # es, r) \<Rightarrow> ((take k buf @ e) # es, r))"
proof (cases "find_double_newline (drop k buf)")
  case None
  with find_skip [OF assms(1)] show ?thesis by (simp add: frames.simps [of buf] frames.simps [of "drop k buf"])
next
  case (Some i)
  with find_skip [OF assms(1)] have f: "find_double_newline buf = Some (k + i)" by simp
  have "take (k + i + 2) buf = take k buf @ take (i + 2) (drop k buf)"
    by (simp add: take_add [symmetric] add.assoc [symmetric])
  with f Some show ?thesis
    by (simp add: frames.simps [of buf] frames.simps [of "drop k buf"] add.commute add.left_commute)
qed

definition take_framed_spec :: "framing_state \<Rightarrow> framed \<times> framing_state" where
  "take_framed_spec s = (case frames (pending s) of
       (e # es, rest) \<Rightarrow> (Events (concat (e # es)) (length (e # es)), s\<lparr>pending := rest, scan_from := length rest - 1\<rparr>)
     | ([], _) \<Rightarrow>
         if length (pending s) > PENDING_HIGH_WATER
         then (ForceFlush (pending s @ held_lf (cr_held s) @ [NEWLINE, NEWLINE]),
               s\<lparr>pending := [], scan_from := 0, cr_held := False\<rparr>)
         else (NoFrame, s\<lparr>scan_from := length (pending s) - 1\<rparr>))"

lemma take_framed_exact:
  assumes "frontier_ok s"
  shows "take_framed s = take_framed_spec s"
proof (cases "pending s = []")
  case True
  with assms show ?thesis
    by (simp add: take_framed_def take_framed_spec_def frontier_ok_def frames.simps find_double_newline_def PENDING_HIGH_WATER_def)
next
  case False
  let ?b = "pending s" and ?k = "scan_from s"
  have k: "?k < length ?b" "min ?k (length ?b - 1) = ?k" using assms False by (auto simp: frontier_ok_def)
  have n: "find_double_newline (take (Suc ?k) ?b) = None" using assms by (simp add: frontier_ok_def)
  obtain evs rest where f: "frames (drop ?k ?b) = (evs, rest)" by force
  have scan: "scan_terminators ?b ?k None 0 = (if evs = [] then None else Some (length ?b - length rest - 2), length evs)"
    using scan_terminators_frames [of ?k ?b None 0] k f by simp
  show ?thesis
  proof (cases evs)
    case Nil
    with f frames_skip [OF n] k have "frames ?b = ([], ?b)" by simp
    with scan Nil False k show ?thesis by (simp add: take_framed_def take_framed_spec_def held_lf_def)
  next
    case (Cons e es)
    with f frames_skip [OF n] k have g: "frames ?b = ((take ?k ?b @ e) # es, rest)" by simp
    have c: "concat ((take ?k ?b @ e) # es) @ rest = ?b" using frames_concat [of ?b] g by simp
    have "2 \<le> length (concat (e # es))"
    proof -
      from f Cons obtain i where i: "find_double_newline (drop ?k ?b) = Some i" "e = take (i + 2) (drop ?k ?b)"
        by (auto simp: frames.simps [of "drop ?k ?b"] split: option.splits)
      with find_double_newline_lt [OF i(1)] show ?thesis by simp
    qed
    moreover have "length ?b = length (concat ((take ?k ?b @ e) # es)) + length rest" using arg_cong [OF c, of length] by simp
    ultimately have "length ?b - length rest - 2 + 2 = length (concat ((take ?k ?b @ e) # es))" by simp
    then have "take (length ?b - length rest - 2 + 2) ?b = concat ((take ?k ?b @ e) # es)"
      "drop (length ?b - length rest - 2 + 2) ?b = rest"
      using c by (metis append_eq_conv_conj)+
    with scan Cons False k g show ?thesis by (simp add: take_framed_def take_framed_spec_def Let_def)
  qed
qed

lemma frontier_take: "frontier_ok s \<Longrightarrow> frontier_ok (snd (take_framed s))"
proof -
  assume "frontier_ok s"
  then have t: "take_framed s = take_framed_spec s" by (rule take_framed_exact)
  obtain evs rest where f: "frames (pending s) = (evs, rest)" by force
  have r: "find_double_newline rest = None" using frames_tail [of "pending s"] f by simp
  show ?thesis
  proof (cases evs)
    case Nil
    then have "rest = pending s" using f frames_concat [of "pending s"] by simp
    with t f Nil r show ?thesis
      using find_none_take [OF r] by (cases "pending s") (auto simp: take_framed_spec_def frontier_ok_def find_double_newline_def)
  next
    case (Cons e es)
    with t f r show ?thesis
      using find_none_take [OF r] by (cases rest) (auto simp: take_framed_spec_def frontier_ok_def)
  qed
qed

lemma frontier_push: "frontier_ok s \<Longrightarrow> frontier_ok (push bytes s)"
proof -
  assume a: "frontier_ok s"
  obtain p h where p: "push bytes s = s\<lparr>pending := pending s @ p, cr_held := h\<rparr>"
  proof (cases "bytes = []")
    case True
    then have "push bytes s = s\<lparr>pending := pending s @ held_lf (cr_held s), cr_held := False\<rparr>"
      by (simp add: push_def push_loop_norm)
    then show thesis by (rule that)
  qed (use push_norm that in blast)
  show ?thesis
  proof (cases "scan_from s < length (pending s)")
    case True
    with a p show ?thesis by (simp add: frontier_ok_def)
  next
    case False
    then have "scan_from s = 0" using a by (simp add: frontier_ok_def)
    moreover have "find_double_newline (take (Suc 0) x) = None" for x
      by (cases x) (simp_all add: find_double_newline_def starts_with_def)
    ultimately show ?thesis using p by (simp add: frontier_ok_def del: take_append)
  qed
qed

text \<open>The framer under any sequence of its operations.\<close>

datatype framer_op = DoPush string | DoTake | DoFinish

fun framer_run :: "framer_op list \<Rightarrow> framing_state \<Rightarrow> framing_state" where
  "framer_run [] s = s"
| "framer_run (DoPush bytes # ops) s = framer_run ops (push bytes s)"
| "framer_run (DoTake # ops) s = framer_run ops (snd (take_framed s))"
| "framer_run (DoFinish # ops) s = framer_run ops (snd (framing_finish s))"

lemma frontier_empty: "frontier_ok (s\<lparr>pending := [], scan_from := 0, cr_held := h\<rparr>)"
  by (simp add: frontier_ok_def find_double_newline_def)

lemma frontier_run: "frontier_ok s \<Longrightarrow> frontier_ok (framer_run ops s)"
  by (induction ops s rule: framer_run.induct)
    (simp_all add: frontier_push frontier_take framing_finish_def Let_def frontier_empty)

lemma frontier_new: "frontier_ok framing_new"
  by (simp add: framing_new_def frontier_ok_def find_double_newline_def)

lemma take_twice_bounded:
  assumes "frontier_ok s"
  shows "length (pending (snd (take_framed (snd (take_framed s))))) \<le> PENDING_HIGH_WATER"
proof -
  have none: "length (pending (snd (take_framed t))) \<le> PENDING_HIGH_WATER"
    if "frontier_ok t" "fst (frames (pending t)) = []" for t
    using that by (auto simp: take_framed_exact take_framed_spec_def split: prod.splits)
  show ?thesis
  proof (cases "fst (frames (pending s)) = []")
    case True
    let ?t = "snd (take_framed s)"
    have "pending ?t = pending s \<or> pending ?t = []"
      using assms True by (auto simp: take_framed_exact take_framed_spec_def split: prod.splits)
    moreover have "fst (frames []) = []" by (simp add: frames.simps find_double_newline_def)
    ultimately have "fst (frames (pending ?t)) = []" using True by auto
    with none frontier_take [OF assms] show ?thesis by blast
  next
    case False
    then have "pending (snd (take_framed s)) = snd (frames (pending s))"
      using assms by (auto simp: take_framed_exact take_framed_spec_def split: prod.splits list.splits)
    then have "fst (frames (pending (snd (take_framed s)))) = []"
      using frames_tail [of "pending s"] by (simp add: frames.simps [of "snd (frames (pending s))"])
    with none frontier_take [OF assms] show ?thesis by blast
  qed
qed

section \<open>The bytes the client gets\<close>

text \<open>What a framer with \<open>p\<close> pending delivers for the bytes still to come: all of it with line ends
  normalised, cut only by forced flushes, each after more than the high-water mark and each adding a
  blank line.\<close>

inductive delivers :: "string \<Rightarrow> bool \<Rightarrow> string \<Rightarrow> string \<Rightarrow> bool" where
  to_end: "delivers p h input (p @ norm_end h input)"
| flush: "PENDING_HIGH_WATER < length (p @ norm_end h a) \<Longrightarrow> delivers [] False b out \<Longrightarrow>
    delivers p h (a @ b) (p @ norm_end h a @ [NEWLINE, NEWLINE] @ out)"

lemma delivers_prefix: "delivers p h input out \<Longrightarrow> delivers (o1 @ p) h input (o1 @ out)"
proof (induction p h input out rule: delivers.induct)
  case (to_end p h input)
  then show ?case using delivers.to_end [of "o1 @ p" h input] by simp
next
  case (flush p h a b out)
  then show ?case using delivers.flush [of "o1 @ p" h a b out] by simp
qed

lemma delivers_push:
  "delivers p' h' input out \<Longrightarrow> p' = p @ fst (norm h c) \<Longrightarrow> h' = snd (norm h c) \<Longrightarrow> delivers p h (c @ input) out"
proof (induction p' h' input out rule: delivers.induct)
  case (to_end p' h' input)
  then show ?case using delivers.to_end [of p h "c @ input"] by (simp add: norm_end_append)
next
  case (flush p' h' a b out)
  then show ?case using delivers.flush [of p h "c @ a" b out] by (simp add: norm_end_append)
qed

lemma delivers_flush:
  "delivers [] False input out \<Longrightarrow> PENDING_HIGH_WATER < length p \<Longrightarrow>
   delivers p h input (p @ held_lf h @ [NEWLINE, NEWLINE] @ out)"
  using delivers.flush [of p h "[]" input out] by simp

lemma delivers_segments:
  "delivers p h input out \<Longrightarrow> p = [] \<Longrightarrow> \<not> h \<Longrightarrow>
   \<exists>segs rest. input = concat segs @ rest
     \<and> out = concat (map (\<lambda>s. normalize s @ [NEWLINE, NEWLINE]) segs) @ normalize rest
     \<and> (\<forall>s \<in> set segs. PENDING_HIGH_WATER < length (normalize s))"
proof (induction p h input out rule: delivers.induct)
  case (to_end p h input)
  then have "input = concat [] @ input \<and> p @ norm_end h input = concat (map (\<lambda>s. normalize s @ [NEWLINE, NEWLINE]) []) @ normalize input"
    by (simp add: norm_end_normalize)
  then show ?case by (metis empty_iff list.set(1))
next
  case (flush p h a b out)
  then obtain segs rest where "b = concat segs @ rest"
    "out = concat (map (\<lambda>s. normalize s @ [NEWLINE, NEWLINE]) segs) @ normalize rest"
    "\<forall>s \<in> set segs. PENDING_HIGH_WATER < length (normalize s)" by auto
  with flush show ?case by (intro exI [of _ "a # segs"] exI [of _ rest]) (simp add: norm_end_normalize)
qed

lemma pass_fields [simp]:
  "ps_done (emit_block out s) = ps_done s" "ps_framing (emit_block out s) = ps_framing s"
  "ps_pending_error (emit_block out s) = ps_pending_error s"
  "ps_items (count_events n s) = ps_items s" "ps_done (count_events n s) = ps_done s"
  "ps_framing (count_events n s) = ps_framing s" "ps_pending_error (count_events n s) = ps_pending_error s"
  "ps_completion (count_events n s) = ps_completion s"
  "ps_completion_signaled (count_events n s) = ps_completion_signaled s"
  "ps_items (activity s) = ps_items s" "ps_done (activity s) = ps_done s" "ps_framing (activity s) = ps_framing s"
  "ps_pending_error (activity s) = ps_pending_error s" "ps_completion (activity s) = ps_completion s"
  "ps_completion_signaled (activity s) = ps_completion_signaled s"
  by (simp_all add: emit_block_def count_events_def activity_def maybe_accumulate_def Let_def split_beta)

lemma take_framed_cases:
  "take_framed f = (Events out n, f') \<Longrightarrow> pending f = out @ pending f' \<and> out \<noteq> [] \<and> cr_held f' = cr_held f"
  "take_framed f = (ForceFlush out, f') \<Longrightarrow> out = pending f @ held_lf (cr_held f) @ [NEWLINE, NEWLINE]
     \<and> PENDING_HIGH_WATER < length (pending f) \<and> pending f' = [] \<and> \<not> cr_held f'"
  "take_framed f = (NoFrame, f') \<Longrightarrow> pending f' = pending f \<and> cr_held f' = cr_held f"
  by (auto simp: take_framed_def Let_def held_lf_def split: if_splits prod.splits option.splits)

lemma framing_finish_cases:
  "framing_finish f = (Some out, f') \<Longrightarrow> out = pending f @ held_lf (cr_held f) \<and> out \<noteq> [] \<and> pending f' = [] \<and> \<not> cr_held f'"
  "framing_finish f = (None, f') \<Longrightarrow> pending f = [] \<and> \<not> cr_held f \<and> pending f' = [] \<and> \<not> cr_held f'"
  by (auto simp: framing_finish_def Let_def held_lf_def split: if_splits)

lemma fused_next_cases:
  "fused_next s = (None, s') \<Longrightarrow> (ps_done s \<or> ps_items s = []) \<and> s' = s\<lparr>ps_done := True\<rparr>"
  "fused_next s = (Some item, s') \<Longrightarrow> \<not> ps_done s \<and> (\<exists>items. ps_items s = item # items
     \<and> s' = s\<lparr>ps_items := items, ps_done := \<not> is_ok item\<rparr>)"
  by (auto simp: fused_next_def split: if_splits list.splits)

text \<open>One call of \<^verbatim>\<open>advance_stream\<close>, unrolled: what it answers and with which next state.\<close>

inductive advances :: "pass_state \<Rightarrow> stream_item option \<Rightarrow> pass_state \<Rightarrow> bool" where
  events: "take_framed (ps_framing s) = (Events out n, f) \<Longrightarrow>
    advances s (Some (Ok out)) (emit_block out (count_events n (s\<lparr>ps_framing := f\<rparr>)))"
| flushed: "take_framed (ps_framing s) = (ForceFlush out, f) \<Longrightarrow>
    advances s (Some (Ok out)) (emit_block out (count_events 1 (s\<lparr>ps_framing := f\<rparr>)))"
| err_tail: "take_framed (ps_framing s) = (NoFrame, f) \<Longrightarrow> ps_pending_error s = Some e \<Longrightarrow>
    framing_finish f = (Some tail, f') \<Longrightarrow> advances s (Some (Ok tail)) (emit_block tail (s\<lparr>ps_framing := f'\<rparr>))"
| err_hidden: "take_framed (ps_framing s) = (NoFrame, f) \<Longrightarrow> ps_pending_error s = Some e \<Longrightarrow>
    framing_finish f = (None, f') \<Longrightarrow> ps_completion_signaled s \<Longrightarrow>
    advances s None (s\<lparr>ps_framing := f', ps_pending_error := None\<rparr>)"
| err_shown: "take_framed (ps_framing s) = (NoFrame, f) \<Longrightarrow> ps_pending_error s = Some e \<Longrightarrow>
    framing_finish f = (None, f') \<Longrightarrow> \<not> ps_completion_signaled s \<Longrightarrow>
    advances s (Some (Err e))
      (s\<lparr>ps_framing := f', ps_pending_error := None, ps_completion := signal_end BackendError (ps_completion s)\<rparr>)"
| end_tail: "take_framed (ps_framing s) = (NoFrame, f) \<Longrightarrow> ps_pending_error s = None \<Longrightarrow>
    ps_done s \<or> ps_items s = [] \<Longrightarrow> framing_finish f = (Some tail, f') \<Longrightarrow>
    advances s (Some (Ok tail)) (emit_block tail (s\<lparr>ps_done := True, ps_framing := f'\<rparr>))"
| ended: "take_framed (ps_framing s) = (NoFrame, f) \<Longrightarrow> ps_pending_error s = None \<Longrightarrow>
    ps_done s \<or> ps_items s = [] \<Longrightarrow> framing_finish f = (None, f') \<Longrightarrow>
    advances s None (activity (s\<lparr>ps_done := True, ps_framing := f', ps_completion := signal_end BackendClosed (ps_completion s)\<rparr>))"
| read_error: "take_framed (ps_framing s) = (NoFrame, f) \<Longrightarrow> ps_pending_error s = None \<Longrightarrow>
    \<not> ps_done s \<Longrightarrow> ps_items s = Inl e # items \<Longrightarrow>
    advances (s\<lparr>ps_framing := f, ps_items := items, ps_done := True, ps_pending_error := Some e\<rparr>) r s' \<Longrightarrow> advances s r s'"
| read_empty: "take_framed (ps_framing s) = (NoFrame, f) \<Longrightarrow> ps_pending_error s = None \<Longrightarrow>
    \<not> ps_done s \<Longrightarrow> ps_items s = Inr [] # items \<Longrightarrow>
    advances s (Some (Ok [])) (activity (s\<lparr>ps_framing := f, ps_items := items, ps_done := False\<rparr>))"
| read_chunk: "take_framed (ps_framing s) = (NoFrame, f) \<Longrightarrow> ps_pending_error s = None \<Longrightarrow>
    \<not> ps_done s \<Longrightarrow> ps_items s = Inr chunk # items \<Longrightarrow> chunk \<noteq> [] \<Longrightarrow>
    advances ((activity (s\<lparr>ps_framing := f, ps_items := items, ps_done := False\<rparr>))\<lparr>ps_framing := push chunk f\<rparr>) r s' \<Longrightarrow>
    advances s r s'"

lemma advance_drain:
  assumes t: "take_framed (ps_framing s) = (NoFrame, f)" and e: "ps_pending_error s = Some e"
  shows "advances s (fst (advance_stream s)) (snd (advance_stream s))"
proof -
  obtain tail f' where fin: "framing_finish f = (tail, f')" by force
  show ?thesis
    using advances.err_hidden [OF t e] advances.err_shown [OF t e] advances.err_tail [OF t e] t e fin
    by (cases tail; cases "ps_completion_signaled s") (simp_all add: advance_stream.simps [of s] drain_error_def Let_def)
qed

lemma advance_end:
  assumes t: "take_framed (ps_framing s) = (NoFrame, f)" and n: "ps_pending_error s = None"
    and e: "ps_done s \<or> ps_items s = []"
  shows "advances s (fst (advance_stream s)) (snd (advance_stream s))"
proof -
  obtain tail f' where fin: "framing_finish f = (tail, f')" by force
  have "fused_next (s\<lparr>ps_framing := f\<rparr>) = (None, s\<lparr>ps_framing := f, ps_done := True\<rparr>)"
    using e by (auto simp: fused_next_def)
  then show ?thesis
    using advances.ended [OF t n e] advances.end_tail [OF t n e] t n fin
    by (cases tail) (simp_all add: advance_stream.simps [of s] drain_error_def)
qed

lemma advance_advances: "advances s (fst (advance_stream s)) (snd (advance_stream s))"
proof (induction s rule: advance_stream.induct)
  case (1 s)
  obtain fr f where t: "take_framed (ps_framing s) = (fr, f)" by force
  show ?case
  proof (cases fr)
    case NoFrame
    note t = t [unfolded NoFrame]
    show ?thesis
    proof (cases "ps_pending_error s \<noteq> None \<or> ps_done s \<or> ps_items s = []")
      case True
      with advance_drain [OF t] advance_end [OF t] show ?thesis by (cases "ps_pending_error s") auto
    next
      case False
      then have n: "ps_pending_error s = None" and d: "\<not> ps_done s" by simp_all
      obtain item items where it: "ps_items s = item # items" using False by (cases "ps_items s") auto
      have ne: "drain_error (s\<lparr>ps_framing := f\<rparr>) = NoError (s\<lparr>ps_framing := f\<rparr>)" using n by (simp add: drain_error_def)
      have fn: "fused_next (s\<lparr>ps_framing := f\<rparr>) = (Some item, s\<lparr>ps_framing := f, ps_items := items, ps_done := \<not> is_ok item\<rparr>)"
        using d it by (simp add: fused_next_def)
      show ?thesis
      proof (cases item)
        case (Inl e)
        with "1.IH"(1) [OF t [symmetric] refl ne fn [unfolded Inl, symmetric] refl refl]
          advances.read_error [OF t n d] it t ne fn show ?thesis by (simp add: advance_stream.simps [of s])
      next
        case (Inr chunk)
        with "1.IH"(2) [OF t [symmetric] refl ne fn [unfolded Inr, symmetric] refl refl refl]
          advances.read_chunk [OF t n d] advances.read_empty [OF t n d] it t ne fn show ?thesis
          by (cases "chunk = []") (simp_all add: advance_stream.simps [of s] Let_def)
      qed
    qed
  qed (use t advances.events advances.flushed in \<open>simp_all add: advance_stream.simps [of s]\<close>)
qed

section \<open>The whole stream\<close>

fun item_work :: "stream_item \<Rightarrow> nat" where
  "item_work (Inl e) = 2"
| "item_work (Inr c) = 1 + length c"

definition work :: "pass_state \<Rightarrow> nat" where
  "work s = sum_list (map item_work (ps_items s)) + length (pending (ps_framing s))
     + (if cr_held (ps_framing s) then 1 else 0) + (if ps_pending_error s = None then 0 else 1)"

lemma advances_work: "advances s r s' \<Longrightarrow> r \<noteq> None \<Longrightarrow> work s' < work s"
proof (induction s r s' rule: advances.induct)
  case (read_chunk s f chunk items r s')
  have "work s' < work ((activity (s\<lparr>ps_framing := f, ps_items := items, ps_done := False\<rparr>))\<lparr>ps_framing := push chunk f\<rparr>)"
    using read_chunk by simp
  also have "\<dots> < work s"
    using read_chunk norm_length [of "cr_held f" chunk] take_framed_cases(3) [OF read_chunk(1)]
    by (auto simp: work_def push_norm split: if_splits)
  finally show ?case .
qed (auto simp: work_def held_lf_def dest!: take_framed_cases framing_finish_cases split: if_splits)

text \<open>All items a client that reads to the end gets, and the state the stream is dropped in.\<close>

function pass_all :: "pass_state \<Rightarrow> stream_item list \<times> pass_state" where
  "pass_all s = (case advance_stream s of
       (None, s') \<Rightarrow> ([], s')
     | (Some item, s') \<Rightarrow> (let (items, s'') = pass_all s' in (item # items, s'')))"
  by pat_completeness auto
termination
proof (relation "measure work", goal_cases)
  case (2 s p s' item)
  then have "advance_stream s = (Some item, s')" by simp
  with advances_work [OF advance_advances [of s]] show ?case by simp
qed simp

declare pass_all.simps [simp del]

lemma pass_all_induct:
  assumes stop: "\<And>s s'. advances s None s' \<Longrightarrow> P s [] s'"
    and step: "\<And>s item s' items s''. advances s (Some item) s' \<Longrightarrow> P s' items s'' \<Longrightarrow> P s (item # items) s''"
  shows "P s (fst (pass_all s)) (snd (pass_all s))"
proof (induction s rule: pass_all.induct)
  case (1 s)
  obtain r s' where a: "advance_stream s = (r, s')" by force
  with advance_advances [of s] have adv: "advances s r s'" by simp
  show ?case
  proof (cases r)
    case None
    with a adv stop show ?thesis by (simp add: pass_all.simps [of s])
  next
    case (Some item)
    with a adv step 1 show ?thesis by (simp add: pass_all.simps [of s] split_beta Let_def)
  qed
qed

fun item_bytes :: "stream_item \<Rightarrow> string" where
  "item_bytes (Inr c) = c"
| "item_bytes (Inl e) = []"

definition bytes_of :: "stream_item list \<Rightarrow> string" where
  "bytes_of items = concat (map item_bytes items)"

definition errors_of :: "stream_item list \<Rightarrow> string list" where
  "errors_of items = concat (map (\<lambda>i. case i of Inl e \<Rightarrow> [e] | Inr _ \<Rightarrow> []) items)"

text \<open>What the body still yields before it ends or fails.\<close>

definition to_come :: "pass_state \<Rightarrow> string" where
  "to_come s = (if ps_done s then [] else bytes_of (takeWhile is_ok (ps_items s)))"

definition fused :: "pass_state \<Rightarrow> bool" where
  "fused s = (ps_pending_error s \<noteq> None \<longrightarrow> ps_done s)"

lemma advances_fused: "advances s r s' \<Longrightarrow> fused s \<Longrightarrow> fused s'"
  by (induction s r s' rule: advances.induct) (auto simp: fused_def)

abbreviation state_delivers :: "pass_state \<Rightarrow> string \<Rightarrow> bool" where
  "state_delivers s \<equiv> delivers (pending (ps_framing s)) (cr_held (ps_framing s)) (to_come s)"

lemma delivers_nothing: "delivers [] False [] out \<Longrightarrow> out = []"
  by (erule delivers.cases) auto

lemma delivers_tail: "delivers p h [] (p @ held_lf h)"
  using delivers.to_end [of p h "[]"] by simp

text \<open>The tail is the last block: nothing is to come after it.\<close>

lemma delivers_finish:
  assumes "take_framed f0 = (NoFrame, f)" "framing_finish f = (Some tail, f')" "delivers (pending f') (cr_held f') [] out"
  shows "delivers (pending f0) (cr_held f0) [] (tail @ out)"
  using assms delivers_tail [of "pending f0" "cr_held f0"] framing_finish_cases(1) [OF assms(2)]
    take_framed_cases(3) [OF assms(1)] delivers_nothing [of out] by simp

lemma delivers_over:
  assumes "take_framed f0 = (NoFrame, f)" "framing_finish f = (None, f')"
  shows "delivers (pending f0) (cr_held f0) [] []"
  using delivers_tail [of "[]" False] framing_finish_cases(2) [OF assms(2)] take_framed_cases(3) [OF assms(1)] by simp

lemma advances_delivers:
  "advances s r s' \<Longrightarrow> fused s \<Longrightarrow>
   (case r of None \<Rightarrow> state_delivers s [] | Some item \<Rightarrow> state_delivers s' out \<longrightarrow> state_delivers s (item_bytes item @ out))"
proof (induction s r s' rule: advances.induct)
  case (events s block n f)
  then show ?case using take_framed_cases(1) [OF events(1)] delivers_prefix [of "pending f"] by (simp add: to_come_def)
next
  case (flushed s block f)
  then show ?case using take_framed_cases(2) [OF flushed(1)] delivers_flush by (auto simp: to_come_def)
next
  case (err_tail s f e tail f')
  then show ?case using delivers_finish [OF err_tail(1,3)] by (simp add: to_come_def fused_def)
next
  case (err_hidden s f e f')
  then show ?case using delivers_over [OF err_hidden(1,3)] by (simp add: to_come_def fused_def)
next
  case (err_shown s f e f')
  then show ?case
    using delivers_over [OF err_shown(1,3)] framing_finish_cases(2) [OF err_shown(3)] delivers_nothing [of out]
    by (auto simp: to_come_def fused_def)
next
  case (end_tail s f tail f')
  then have "to_come s = []" by (auto simp: to_come_def bytes_of_def)
  with end_tail show ?case using delivers_finish [OF end_tail(1,4)] by (simp add: to_come_def)
next
  case (ended s f f')
  then have "to_come s = []" by (auto simp: to_come_def bytes_of_def)
  then show ?case using delivers_over [OF ended(1,4)] by simp
next
  case (read_error s f e items r s')
  then have "to_come s = []" by (simp add: to_come_def bytes_of_def)
  with read_error take_framed_cases(3) [OF read_error(1)] show ?case by (cases r) (simp_all add: to_come_def fused_def)
next
  case (read_empty s f items)
  with take_framed_cases(3) [OF read_empty(1)] show ?case by (simp add: to_come_def bytes_of_def)
next
  case (read_chunk s f chunk items r s')
  let ?s = "(activity (s\<lparr>ps_framing := f, ps_items := items, ps_done := False\<rparr>))\<lparr>ps_framing := push chunk f\<rparr>"
  have "to_come s = chunk @ to_come ?s" using read_chunk by (simp add: to_come_def bytes_of_def)
  then have "state_delivers ?s o1 \<Longrightarrow> state_delivers s o1" for o1
    using delivers_push [of "pending (push chunk f)" "cr_held (push chunk f)" "to_come ?s" o1 "pending f" "cr_held f" chunk]
      read_chunk(5) take_framed_cases(3) [OF read_chunk(1)] by (simp add: push_norm)
  with read_chunk show ?case by (cases r) (auto simp: fused_def)
qed

lemma pass_delivers: "fused s \<Longrightarrow> state_delivers s (bytes_of (fst (pass_all s)))"
proof -
  have "fused s \<longrightarrow> state_delivers s (bytes_of (fst (pass_all s)))"
  proof (rule pass_all_induct [where P = "\<lambda>s items s'. fused s \<longrightarrow> state_delivers s (bytes_of items)"], goal_cases)
    case (1 s s')
    then show ?case using advances_delivers [OF 1] by (simp add: bytes_of_def)
  next
    case (2 s item s' items s'')
    then show ?case using advances_delivers [OF 2(1)] advances_fused [OF 2(1)] by (simp add: bytes_of_def)
  qed
  then show "fused s \<Longrightarrow> state_delivers s (bytes_of (fst (pass_all s)))" by simp
qed

section \<open>The end signal\<close>

text \<open>Whether a block holds a terminal event, by its parsed fields alone.\<close>

definition block_completes :: "string \<Rightarrow> bool" where
  "block_completes block = list_ex raw_completes (split_str [NEWLINE, NEWLINE] (from_utf8_lossy block))"

lemma split_lines_event:
  "fst (split_lines ls t ps) = Some v \<Longrightarrow> t = Some v \<or> (\<exists>l \<in> set ls. strip_field l ''event:'' = Some v)"
proof (induction ls arbitrary: t ps)
  case (Cons l ls)
  then show ?case by (cases "strip_field l ''event:''"; cases "strip_field l ''data:''") fastforce+
qed simp

lemma split_lines_data:
  "p \<in> set (snd (split_lines ls t ps)) \<Longrightarrow> p \<in> set ps \<or> (\<exists>l \<in> set ls. strip_field l ''data:'' = Some p)"
proof (induction ls arbitrary: t ps)
  case (Cons l ls)
  then show ?case by (cases "strip_field l ''event:''"; cases "strip_field l ''data:''") fastforce+
qed simp

lemma strip_field_infix: "strip_field line prefix = Some v \<Longrightarrow> str_contains line v"
proof -
  assume "strip_field line prefix = Some v"
  then obtain r where r: "line = prefix @ r" "v = r \<or> r = '' '' @ v"
    by (auto simp: strip_field_def strip_prefix_Some_iff some_or_def split: option.splits)
  then show ?thesis using str_contains_append(1) [of v v prefix] str_contains_append(1) [of v v "prefix @ '' ''"] by auto
qed

lemma event_field_infix: "l \<in> set (text_lines (from_utf8_lossy raw)) \<Longrightarrow> strip_field l f = Some v \<Longrightarrow> str_contains (from_utf8_lossy raw) v"
  using text_lines_infix strip_field_infix str_contains_trans by blast

lemma raw_completes_mentions: "raw_completes raw \<Longrightarrow> mentions_bridge_event raw"
proof -
  assume "raw_completes raw"
  then have c: "fst (split_lines (text_lines (from_utf8_lossy raw)) None []) = Some ''message_stop''
      \<or> (\<exists>p \<in> set (snd (split_lines (text_lines (from_utf8_lossy raw)) None [])). trim p = ''[DONE]'')"
    by (simp add: raw_completes_def split_event_def is_completion_event_def list_ex_iff split_beta)
  from c consider "str_contains (from_utf8_lossy raw) ''message_stop''" | "str_contains (from_utf8_lossy raw) ''[DONE]''"
  proof
    assume "fst (split_lines (text_lines (from_utf8_lossy raw)) None []) = Some ''message_stop''"
    from split_lines_event [OF this] event_field_infix show thesis using that(1) by blast
  next
    assume "\<exists>p \<in> set (snd (split_lines (text_lines (from_utf8_lossy raw)) None [])). trim p = ''[DONE]''"
    then obtain p where p: "p \<in> set (snd (split_lines (text_lines (from_utf8_lossy raw)) None []))" "trim p = ''[DONE]''" by blast
    from split_lines_data [OF p(1)] have "str_contains (from_utf8_lossy raw) p" using event_field_infix by auto
    then show thesis using that(2) trim_infix [of p] p(2) str_contains_trans by metis
  qed
  then show ?thesis
  proof cases
    case 1
    then have "str_contains raw ''message_stop''" by (rule lossy_ascii_infix) (simp_all add: is_ascii_def)
    then show ?thesis by (simp add: mentions_bridge_event_def)
  next
    case 2
    then have "str_contains raw ''[DONE]''" by (rule lossy_ascii_infix) (simp_all add: is_ascii_def)
    moreover have "str_contains ''[DONE]'' ''[DONE''" by (simp add: str_contains_def starts_with_def)
    ultimately have "str_contains raw ''[DONE''" by (rule str_contains_trans)
    then show ?thesis by (simp add: mentions_bridge_event_def)
  qed
qed

lemma mentions_lossy: "mentions_bridge_event (from_utf8_lossy raw) \<Longrightarrow> mentions_bridge_event raw"
  using lossy_ascii_infix [of raw "''[DONE''"] lossy_ascii_infix [of raw "''message_stop''"]
  by (auto simp: mentions_bridge_event_def is_ascii_def)

lemma block_completes_mentions: "block_completes block \<Longrightarrow> mentions_bridge_event block"
proof -
  assume "block_completes block"
  then obtain raw where r: "raw \<in> set (split_str [NEWLINE, NEWLINE] (from_utf8_lossy block))" "mentions_bridge_event raw"
    using raw_completes_mentions by (auto simp: block_completes_def list_ex_iff)
  have "str_contains (from_utf8_lossy block) raw" using r(1) by (rule split_str_infix)
  with r(2) have "mentions_bridge_event (from_utf8_lossy block)"
    unfolding mentions_bridge_event_def using str_contains_trans by blast
  then show ?thesis by (rule mentions_lossy)
qed

lemma detect_exact:
  "detect_and_signal_completion block tx =
   (if tx_live tx \<and> block_completes block then (True, signal_end Completed tx) else (False, tx))"
  using block_completes_mentions [of block] by (auto simp: detect_and_signal_completion_def block_completes_def)

fun first_error :: "stream_item list \<Rightarrow> string option" where
  "first_error [] = None"
| "first_error (Inl e # items) = Some e"
| "first_error (Inr c # items) = first_error items"

definition future_error :: "pass_state \<Rightarrow> string option" where
  "future_error s = (case ps_pending_error s of Some e \<Rightarrow> Some e
     | None \<Rightarrow> if ps_done s then None else first_error (ps_items s))"

lemma block_completes_Nil [simp]: "\<not> block_completes []"
  by (simp add: block_completes_def from_utf8_lossy.simps split_str.simps [of _ "[]"] raw_completes_def split_event_def
      text_lines_def is_completion_event_def)

lemma emit_block_signals:
  "ps_completion (emit_block b s) =
     (if tx_live (ps_completion s) \<and> block_completes b then signal_end Completed (ps_completion s) else ps_completion s)"
  "ps_completion_signaled (emit_block b s) \<longleftrightarrow> ps_completion_signaled s \<or> tx_live (ps_completion s) \<and> block_completes b"
  by (auto simp: emit_block_def detect_exact maybe_accumulate_def activity_def Let_def)

lemma future_error_emit [simp]:
  "future_error (emit_block b s) = future_error s" "future_error (count_events n s) = future_error s"
  "future_error (s\<lparr>ps_framing := f\<rparr>) = future_error s" "future_error (activity s) = future_error s"
  by (simp_all add: future_error_def split: option.splits)

text \<open>A delivered block can only fire the completion signal.\<close>

lemma advances_block:
  "advances s r s' \<Longrightarrow> r = Some (Inr b) \<Longrightarrow>
     ps_completion s' = (if tx_live (ps_completion s) \<and> block_completes b then signal_end Completed (ps_completion s)
                         else ps_completion s)
     \<and> (ps_completion_signaled s' \<longleftrightarrow> ps_completion_signaled s \<or> tx_live (ps_completion s) \<and> block_completes b)
     \<and> future_error s' = future_error s"
proof (induction s r s' rule: advances.induct)
  case (end_tail s f tail f')
  then show ?case by (auto simp: emit_block_signals future_error_def)
qed (auto simp: emit_block_signals, auto simp: future_error_def)

lemma advances_error:
  "advances s r s' \<Longrightarrow> r = Some (Inl e) \<Longrightarrow> fused s \<Longrightarrow>
     future_error s = Some e \<and> \<not> ps_completion_signaled s \<and> ps_done s' \<and> ps_pending_error s' = None
     \<and> pending (ps_framing s') = [] \<and> \<not> cr_held (ps_framing s')
     \<and> ps_completion s' = signal_end BackendError (ps_completion s) \<and> ps_completion_signaled s' = ps_completion_signaled s"
proof (induction s r s' rule: advances.induct)
  case (err_shown s f e' f')
  then show ?case using framing_finish_cases(2) [OF err_shown(3)] by (auto simp: future_error_def fused_def)
qed (auto simp: future_error_def fused_def)

lemma advances_stop:
  "advances s r s' \<Longrightarrow> r = None \<Longrightarrow> fused s \<Longrightarrow>
     ps_completion_signaled s \<and> ps_completion s' = ps_completion s
     \<or> future_error s = None \<and> ps_completion s' = signal_end BackendClosed (ps_completion s)"
  by (induction s r s' rule: advances.induct) (auto simp: future_error_def fused_def)

definition quiet :: "pass_state \<Rightarrow> bool" where
  "quiet s = (ps_done s \<and> ps_pending_error s = None \<and> pending (ps_framing s) = [] \<and> \<not> cr_held (ps_framing s))"

lemma quiet_stops: "advances s r s' \<Longrightarrow> quiet s \<Longrightarrow> r = None"
  by (induction s r s' rule: advances.induct)
    (auto simp: quiet_def PENDING_HIGH_WATER_def dest!: take_framed_cases framing_finish_cases)

definition blocks_of :: "stream_item list \<Rightarrow> string list" where
  "blocks_of items = concat (map (\<lambda>i. case i of Inr b \<Rightarrow> [b] | Inl _ \<Rightarrow> []) items)"

definition completed_by :: "stream_item list \<Rightarrow> bool" where
  "completed_by items = list_ex block_completes (blocks_of items)"

text \<open>What the end of a run must report, by the state it starts in.\<close>

definition end_truth :: "pass_state \<Rightarrow> stream_item list \<Rightarrow> pass_state \<Rightarrow> bool" where
  "end_truth s items s' =
     (if tx_live (ps_completion s)
      then tx_sent (ps_completion s') = Some (if completed_by items then Completed
             else if future_error s \<noteq> None then BackendError else BackendClosed)
           \<and> errors_of items = (if completed_by items then [] else (case future_error s of None \<Rightarrow> [] | Some e \<Rightarrow> [e]))
      else tx_sent (ps_completion s') = tx_sent (ps_completion s)
           \<and> (ps_completion_signaled s \<or> future_error s = None \<longrightarrow> errors_of items = []))"

definition signal_ok :: "pass_state \<Rightarrow> bool" where
  "signal_ok s = (tx_live (ps_completion s) \<longrightarrow> \<not> ps_completion_signaled s)"

lemma pass_end_truth:
  "fused s \<and> signal_ok s \<longrightarrow> end_truth s (fst (pass_all s)) (snd (pass_all s)) \<and> (quiet s \<longrightarrow> fst (pass_all s) = [])"
proof (rule pass_all_induct [where P = "\<lambda>s items s'. fused s \<and> signal_ok s \<longrightarrow>
    end_truth s items s' \<and> (quiet s \<longrightarrow> items = [])"], goal_cases)
  case (1 s s')
  show ?case
    using advances_stop [OF 1 refl]
    by (auto simp: end_truth_def signal_ok_def completed_by_def blocks_of_def errors_of_def signal_end_def)
next
  case (2 s item s' items s'')
  show ?case
  proof (intro impI)
    assume ok: "fused s \<and> signal_ok s"
    then have f: "fused s'" using advances_fused 2(1) by blast
    have nq: "\<not> quiet s" using quiet_stops [OF 2(1)] by auto
    show "end_truth s (item # items) s'' \<and> (quiet s \<longrightarrow> item # items = [])"
    proof (cases item)
      case (Inr b)
      from advances_block [OF 2(1)] Inr have sg: "signal_ok s'" using ok by (auto simp: signal_ok_def signal_end_def)
      show ?thesis
        using advances_block [OF 2(1)] Inr 2(2) f sg nq ok
        by (auto simp: end_truth_def completed_by_def blocks_of_def errors_of_def signal_end_def split: if_splits)
    next
      case (Inl e)
      note er = advances_error [OF 2(1) _ conjunct1 [OF ok], of e]
      then have "signal_ok s'" "quiet s'" using Inl ok by (auto simp: signal_ok_def quiet_def)
      with er Inl 2(2) f nq ok show ?thesis
        by (auto simp: end_truth_def completed_by_def blocks_of_def errors_of_def signal_end_def signal_ok_def split: if_splits)
    qed
  qed
qed

section \<open>Properties\<close>

text \<open>The framer's resumed scan is exact. After any sequence of pushes, takes and finishes the
  debug assertion on the scan frontier holds, and \<^verbatim>\<open>take_framed\<close> releases exactly the complete events a
  scan of the whole buffer finds, with their number, keeping the tail; and two takes in a row leave no
  more than the high-water mark pending.\<close>

theorem framer_scan_exact:
  "let s = framer_run ops framing_new in
     frontier_ok s \<and> take_framed s = take_framed_spec s
     \<and> length (pending (snd (take_framed (snd (take_framed s))))) \<le> PENDING_HIGH_WATER"
  using frontier_run [OF frontier_new, of ops] take_framed_exact take_twice_bounded by (simp add: Let_def)

text \<open>C16. The pass-through delivers the backend's bytes. For every chunking of the body the client's
  blocks, put together, are the bytes received before the end or the first transport error with line
  ends normalised; the only other change is the blank line a forced flush adds, at most once per
  mebibyte without an event end.\<close>

theorem pass_through_bytes:
  "\<exists>segs rest. bytes_of (takeWhile is_ok items) = concat segs @ rest
     \<and> bytes_of (fst (pass_all (pass_new items acc total_events)))
         = concat (map (\<lambda>s. normalize s @ [NEWLINE, NEWLINE]) segs) @ normalize rest
     \<and> list_all (\<lambda>s. PENDING_HIGH_WATER < length (normalize s)) segs"
proof -
  let ?s = "pass_new items acc total_events"
  have "fused ?s" by (simp add: fused_def pass_new_def)
  from pass_delivers [OF this] have "delivers [] False (bytes_of (takeWhile is_ok items)) (bytes_of (fst (pass_all ?s)))"
    by (simp add: pass_new_def framing_new_def to_come_def)
  from delivers_segments [OF this] show ?thesis by (simp add: list_all_iff)
qed

text \<open>The end of a pass-through is reported once and truly. The value sent to the observer is
  \<^verbatim>\<open>Completed\<close> exactly when a delivered block holds a terminal event by its parsed fields (so the byte
  prefilter never misses one), \<^verbatim>\<open>BackendError\<close> when the body failed before that and \<^verbatim>\<open>BackendClosed\<close>
  otherwise; the client sees the transport error exactly when the answer had not completed.\<close>

theorem pass_end_reported:
  "let (out, s') = pass_all (pass_new items acc total_events) in
     tx_sent (ps_completion s') = Some (if completed_by out then Completed
       else if first_error items \<noteq> None then BackendError else BackendClosed)
     \<and> errors_of out = (if completed_by out then [] else (case first_error items of None \<Rightarrow> [] | Some e \<Rightarrow> [e]))"
proof -
  let ?s = "pass_new items acc total_events"
  have "fused ?s" "signal_ok ?s" "future_error ?s = first_error items" "tx_live (ps_completion ?s)"
    by (simp_all add: fused_def signal_ok_def future_error_def pass_new_def)
  with pass_end_truth [of ?s] show ?thesis by (simp add: end_truth_def split_beta)
qed

end
