(* ===== verification/Sse_Merge.thy ===== *)
theory Sse_Merge
  imports Sse_Framing
begin

text \<open>
  The merge of a recorded event stream into one response, \<^verbatim>\<open>llama-proxy/src/proxy/streaming.rs\<close> (from
  \<^verbatim>\<open>detect_format\<close> to \<^verbatim>\<open>merge_chunk\<close>) with the statistics fields' policy of \<^verbatim>\<open>stats/collector.rs\<close>
  (\<^verbatim>\<open>merge_stream_stats\<close>). It runs on bytes a backend sent, so every assignment through an index that
  panics on a value of the wrong type is modelled as such: the outer \<open>None\<close>.
\<close>

section \<open>Writing into values\<close>

definition MAX_TRACKED_BLOCK_INDEX :: nat where "MAX_TRACKED_BLOCK_INDEX = 100"

text \<open>\<^verbatim>\<open>get_mut(key)\<close> with a body that may panic.\<close>

definition at_key :: "string \<Rightarrow> (json \<Rightarrow> json option) \<Rightarrow> json \<Rightarrow> json option" where
  "at_key k f v = (case get v k of None \<Rightarrow> Some v | Some x \<Rightarrow> map_option (\<lambda>y. update_key k (\<lambda>_. y) v) (f x))"

definition when_some :: "'a option \<Rightarrow> ('a \<Rightarrow> 'b \<Rightarrow> 'b option) \<Rightarrow> 'b \<Rightarrow> 'b option" where
  "when_some x f v = (case x of None \<Rightarrow> Some v | Some y \<Rightarrow> f y v)"

text \<open>Append to a string field, or set it.\<close>

definition push_key :: "string \<Rightarrow> string \<Rightarrow> json \<Rightarrow> json option" where
  "push_key k s v = (case get v k of
       Some (JStr existing) \<Rightarrow> Some (update_key k (\<lambda>_. JStr (existing @ s)) v)
     | _ \<Rightarrow> index_set v k (JStr s))"

definition push_entry :: "string \<Rightarrow> string \<Rightarrow> (string \<times> json) list \<Rightarrow> (string \<times> json) list" where
  "push_entry k s m = (case map_of m k of
       Some (JStr existing) \<Rightarrow> jmap_insert k (JStr (existing @ s)) m
     | _ \<Rightarrow> jmap_insert k (JStr s) m)"

definition pad :: "nat \<Rightarrow> json list \<Rightarrow> json list" where
  "pad n xs = xs @ replicate (n - length xs) JNull"

section \<open>OpenAI chunks\<close>

definition seed_message :: json where
  "seed_message = JObj [(''role'', JStr ''assistant''), (''content'', JNull), (''tool_calls'', JNull)]"

definition seed_choice :: "json \<Rightarrow> json" where
  "seed_choice choice = (case choice of
       JObj m \<Rightarrow>
         (let m1 = jmap_remove ''delta'' m in
          if map_of m ''delta'' \<noteq> None \<or> map_of m1 ''message'' = None
          then JObj (jmap_insert ''message'' seed_message m1) else JObj m1)
     | _ \<Rightarrow> choice)"

definition merge_name :: "string \<Rightarrow> (string \<times> json) list \<Rightarrow> (string \<times> json) list" where
  "merge_name name m = (case map_of m ''name'' of
       Some (JStr existing) \<Rightarrow>
         if existing = [] then jmap_insert ''name'' (JStr name) m
         else if existing \<noteq> name then jmap_insert ''name'' (JStr (existing @ name)) m
         else m
     | _ \<Rightarrow> jmap_insert ''name'' (JStr name) m)"

definition merge_tool_call_slot :: "json \<Rightarrow> json \<Rightarrow> json option" where
  "merge_tool_call_slot slot new_call = (case get new_call ''function'' of
       None \<Rightarrow> Some slot
     | Some new_func \<Rightarrow>
         (case get slot ''function'' of
            None \<Rightarrow> index_set slot ''function'' new_func
          | Some (JObj acc_func) \<Rightarrow>
              (let f1 = (case get_str new_func ''name'' of
                           Some name \<Rightarrow> if name \<noteq> [] then merge_name name acc_func else acc_func
                         | None \<Rightarrow> acc_func);
                   f2 = (case get_str new_func ''arguments'' of
                           Some args \<Rightarrow> push_entry ''arguments'' args f1
                         | None \<Rightarrow> f1) in
               Some (update_key ''function'' (\<lambda>_. JObj f2) slot))
          | Some _ \<Rightarrow> Some slot))"

fun last_recorded :: "json list \<Rightarrow> nat option" where
  "last_recorded [] = None"
| "last_recorded (x # xs) = (case last_recorded xs of
     Some i \<Rightarrow> Some (Suc i) | None \<Rightarrow> if x \<noteq> JNull then Some 0 else None)"

definition merge_call :: "json \<Rightarrow> json list \<Rightarrow> json list option" where
  "merge_call new_call acc_arr = (case Option.bind (get new_call ''index'') as_u64 of
       Some idx \<Rightarrow>
         if idx > of_nat MAX_TRACKED_BLOCK_INDEX then Some acc_arr
         else
           (let i = unat idx; arr = pad (Suc i) acc_arr in
            if arr ! i = JNull then Some (arr[i := new_call])
            else map_option (\<lambda>slot. arr[i := slot]) (merge_tool_call_slot (arr ! i) new_call))
     | None \<Rightarrow>
         (case last_recorded acc_arr of
            Some i \<Rightarrow> map_option (\<lambda>slot. acc_arr[i := slot]) (merge_tool_call_slot (acc_arr ! i) new_call)
          | None \<Rightarrow> Some (acc_arr @ [new_call])))"

fun merge_calls :: "json list \<Rightarrow> json list \<Rightarrow> json list option" where
  "merge_calls [] acc_arr = Some acc_arr"
| "merge_calls (c # cs) acc_arr = Option.bind (merge_call c acc_arr) (merge_calls cs)"

definition merge_tool_calls :: "json \<Rightarrow> json \<Rightarrow> json option" where
  "merge_tool_calls tool_calls acc_tc =
     (if acc_tc = JNull then Some tool_calls
      else case (acc_tc, tool_calls) of
             (JArr acc_arr, JArr new_arr) \<Rightarrow> map_option JArr (merge_calls new_arr acc_arr)
           | _ \<Rightarrow> Some acc_tc)"

definition merge_delta :: "json \<Rightarrow> json \<Rightarrow> json option" where
  "merge_delta delta c0 =
     Option.bind (when_some (get_str delta ''role'') (\<lambda>r. at_key ''message'' (\<lambda>m. index_set m ''role'' (JStr r))) c0) (\<lambda>c1.
     Option.bind (when_some (get_str delta ''content'') (\<lambda>t. at_key ''message'' (push_key ''content'' t)) c1) (\<lambda>c2.
     Option.bind (when_some (get_str delta ''reasoning_text'') (\<lambda>t. at_key ''message'' (push_key ''reasoning_text'' t)) c2) (\<lambda>c3.
     Option.bind (when_some (get delta ''reasoning_opaque'')
        (\<lambda>x. at_key ''message'' (\<lambda>m. index_set m ''reasoning_opaque'' x)) c3) (\<lambda>c4.
     when_some (get delta ''tool_calls'')
        (\<lambda>x. at_key ''message'' (at_key ''tool_calls'' (merge_tool_calls x))) c4))))"

definition merge_choice :: "json \<Rightarrow> json \<Rightarrow> json option" where
  "merge_choice choice acc_choice =
     Option.bind (when_some (get choice ''delta'') merge_delta acc_choice) (\<lambda>c.
       case get choice ''finish_reason'' of
         Some finish \<Rightarrow> if finish \<noteq> JNull then index_set c ''finish_reason'' finish else Some c
       | None \<Rightarrow> Some c)"

fun merge_choices :: "nat \<Rightarrow> json list \<Rightarrow> json list \<Rightarrow> json list option" where
  "merge_choices i [] acc = Some acc"
| "merge_choices i (choice # cs) acc =
     (let acc1 = (if length acc = i then acc @ [seed_choice choice] else acc) in
      if i < length acc1
      then Option.bind (merge_choice choice (acc1 ! i)) (\<lambda>c. merge_choices (Suc i) cs (acc1[i := c]))
      else merge_choices (Suc i) cs acc1)"

definition set_when :: "bool \<Rightarrow> string \<Rightarrow> json \<Rightarrow> json \<Rightarrow> json option" where
  "set_when skip_null k x acc = (if skip_null \<and> x = JNull then Some acc else index_set acc k x)"

definition merge_stream_stats :: "json \<Rightarrow> json \<Rightarrow> json option" where
  "merge_stream_stats chunk a0 =
     Option.bind (when_some (get chunk ''usage'') (set_when False ''usage'') a0) (\<lambda>a1.
     Option.bind (when_some (get chunk ''model'') (set_when True ''model'') a1) (\<lambda>a2.
     Option.bind (when_some (get chunk ''timings'') (set_when False ''timings'') a2)
       (when_some (get chunk ''metrics'') (set_when True ''metrics''))))"

definition merge_into :: "json \<Rightarrow> json \<Rightarrow> json option" where
  "merge_into acc chunk =
     Option.bind (case (get_array acc ''choices'', get_array chunk ''choices'') of
         (Some acc_choices, Some chunk_choices) \<Rightarrow>
           map_option (\<lambda>cs. update_key ''choices'' (\<lambda>_. JArr cs) acc) (merge_choices 0 chunk_choices acc_choices)
       | _ \<Rightarrow> Some acc)
       (merge_stream_stats chunk)"

definition merge_chunk :: "json option \<Rightarrow> json \<Rightarrow> json option" where
  "merge_chunk acc chunk = (case acc of
       Some a \<Rightarrow> merge_into a chunk
     | None \<Rightarrow>
         Option.bind (if get_array chunk ''choices'' \<noteq> None
                      then Some (update_key ''choices'' (\<lambda>_. JArr []) chunk)
                      else index_set chunk ''choices'' (JArr []))
           (\<lambda>envelope. merge_into envelope chunk))"

fun merge_all :: "json option \<Rightarrow> json list \<Rightarrow> json option option" where
  "merge_all acc [] = Some acc"
| "merge_all acc (chunk # cs) = Option.bind (merge_chunk acc chunk) (\<lambda>a. merge_all (Some a) cs)"

section \<open>Events\<close>

datatype stream_format = OpenAI | Anthropic | Unknown

definition is_anthropic_event :: "string \<Rightarrow> bool" where
  "is_anthropic_event name = (name \<in> set [''message_start'', ''content_block_start'', ''content_block_delta'',
     ''content_block_stop'', ''message_delta'', ''message_stop'', ''ping'', ''error''])"

definition payload_format :: "json \<Rightarrow> stream_format option" where
  "payload_format json =
     (if get json ''choices'' \<noteq> None then Some OpenAI
      else if is_some_and is_anthropic_event (get_str json ''type'') then Some Anthropic
      else None)"

definition line_format :: "serde_env \<Rightarrow> string \<Rightarrow> stream_format option" where
  "line_format env line =
     (if is_some_and (\<lambda>t. t = ''message_start'' \<or> t = ''content_block_delta'') (strip_field line ''event:'')
      then Some Anthropic
      else Option.bind (Option.bind (strip_field line ''data:'') (parse_value env)) payload_format)"

fun first_format :: "serde_env \<Rightarrow> string list \<Rightarrow> stream_format" where
  "first_format env [] = Unknown"
| "first_format env (line # ls) = (case line_format env line of Some f \<Rightarrow> f | None \<Rightarrow> first_format env ls)"

definition detect_format :: "serde_env \<Rightarrow> string \<Rightarrow> stream_format" where
  "detect_format env data = first_format env (text_lines data)"

record sse_event =
  event_type :: "string option"
  event_data :: json

fun parse_event_lines :: "serde_env \<Rightarrow> string list \<Rightarrow> string option \<Rightarrow> sse_event list" where
  "parse_event_lines env [] t = []"
| "parse_event_lines env (line # ls) t =
     (if line = [] then parse_event_lines env ls None
      else case strip_field line ''event:'' of
        Some v \<Rightarrow> parse_event_lines env ls (Some v)
      | None \<Rightarrow>
          (case strip_field line ''data:'' of
             None \<Rightarrow> parse_event_lines env ls t
           | Some json_str \<Rightarrow>
               if trim json_str = ''[DONE]'' then parse_event_lines env ls t
               else (case parse_value env json_str of
                       Some json \<Rightarrow> \<lparr>event_type = t, event_data = json\<rparr> # parse_event_lines env ls t
                     | None \<Rightarrow> parse_event_lines env ls t)))"

definition parse_sse_events :: "serde_env \<Rightarrow> string \<Rightarrow> sse_event list" where
  "parse_sse_events env data = parse_event_lines env (text_lines data) None"

section \<open>Anthropic events\<close>

definition block_index :: "json \<Rightarrow> nat" where
  "block_index data = unat (some_or (Option.bind (get data ''index'') as_u64) 0)"

text \<open>Run the body on the message's content array, where it has one.\<close>

definition in_content :: "(json list \<Rightarrow> json list) \<Rightarrow> json \<Rightarrow> json" where
  "in_content f = update_key ''content'' (update_array f)"

definition block_type_of :: "json \<Rightarrow> string" where
  "block_type_of delta =
     (let t = some_or (get_str delta ''type'') ''text_delta'' in
      if t = ''thinking_delta'' then ''thinking'' else if t = ''input_json_delta'' then ''tool_use'' else ''text'')"

definition push_delta :: "json \<Rightarrow> (string \<times> string) \<Rightarrow> (string \<times> json) list \<Rightarrow> (string \<times> json) list" where
  "push_delta delta p m = (case get_str delta (fst p) of None \<Rightarrow> m | Some s \<Rightarrow> push_entry (snd p) s m)"

definition merge_block_delta :: "nat \<Rightarrow> json \<Rightarrow> json list \<Rightarrow> json list" where
  "merge_block_delta idx delta content =
     (let c1 = pad (Suc idx) content;
          c2 = (if c1 ! idx = JNull then c1[idx := JObj [(''type'', JStr (block_type_of delta))]] else c1) in
      case c2 ! idx of
        JObj m \<Rightarrow> c2[idx := JObj (push_delta delta (''partial_json'', ''input'')
                               (push_delta delta (''thinking'', ''thinking'')
                                 (push_delta delta (''text'', ''text'') m)))]
      | _ \<Rightarrow> c2)"

definition merge_message_delta :: "json \<Rightarrow> json \<Rightarrow> json option" where
  "merge_message_delta data message =
     Option.bind (when_some (Option.bind (get data ''delta'') (\<lambda>d. get_str d ''stop_reason''))
        (\<lambda>s m. index_set m ''stop_reason'' (JStr s)) message) (\<lambda>m1.
     when_some (get data ''usage'') (\<lambda>usage m.
        (case get m ''usage'' of
           None \<Rightarrow> index_set m ''usage'' usage
         | Some (JObj u) \<Rightarrow>
             Some (case get usage ''output_tokens'' of
                     None \<Rightarrow> m
                   | Some t \<Rightarrow> update_key ''usage'' (\<lambda>_. JObj (jmap_insert ''output_tokens'' t u)) m)
         | Some _ \<Rightarrow> Some m)) m1)"

definition merge_anthropic_event :: "sse_event \<Rightarrow> json \<Rightarrow> json option" where
  "merge_anthropic_event event message =
     (let data = event_data event;
          t = (case event_type event of Some v \<Rightarrow> v | None \<Rightarrow> some_or (get_str data ''type'') []) in
      if t = ''message_start'' then
        (case get data ''message'' of
           None \<Rightarrow> Some message
         | Some msg \<Rightarrow> if get msg ''content'' = None then index_set msg ''content'' (JArr []) else Some msg)
      else if t = ''content_block_start'' then
        (let idx = block_index data in
         if idx > MAX_TRACKED_BLOCK_INDEX then Some message
         else case get data ''content_block'' of
                None \<Rightarrow> Some message
              | Some block \<Rightarrow> Some (in_content (\<lambda>content. (pad (Suc idx) content)[idx := block]) message))
      else if t = ''content_block_delta'' then
        (let idx = block_index data in
         if idx > MAX_TRACKED_BLOCK_INDEX then Some message
         else case get data ''delta'' of
                None \<Rightarrow> Some message
              | Some delta \<Rightarrow> Some (in_content (merge_block_delta idx delta) message))
      else if t = ''message_delta'' then merge_message_delta data message
      else Some message)"

fun merge_anthropic_from :: "sse_event list \<Rightarrow> json \<Rightarrow> json option" where
  "merge_anthropic_from [] message = Some message"
| "merge_anthropic_from (e # es) message = Option.bind (merge_anthropic_event e message) (merge_anthropic_from es)"

definition merge_anthropic_events :: "sse_event list \<Rightarrow> json option" where
  "merge_anthropic_events events = merge_anthropic_from events (JObj [(''content'', JArr [])])"

definition parse_accumulated_sse :: "serde_env \<Rightarrow> string \<Rightarrow> json option option" where
  "parse_accumulated_sse env data =
     (let events = parse_sse_events env data in
      case detect_format env data of
        Anthropic \<Rightarrow> map_option Some (merge_anthropic_events events)
      | OpenAI \<Rightarrow> merge_all None (map event_data events)
      | Unknown \<Rightarrow> Some None)"

end
