(* ===== verification/Synthesis.thy ===== *)
theory Synthesis
  imports Sse_Merge Config
begin

text \<open>
  Synthesis of event streams from complete responses, \<^verbatim>\<open>llama-proxy/src/proxy/synthesis.rs\<close>: the OpenAI
  chunk sequence, the Anthropic frame sequence of an OpenAI completion, and the splitting of text.

  An event is its payload with an optional event name, or the final \<^verbatim>\<open>[DONE]\<close>. The paced delivery is
  I/O. Parameters: the clock's seconds for a response without \<^verbatim>\<open>created\<close>, and the generated identifiers
  of tool calls without one (the source draws a random UUID; \<open>fresh_id\<close> gives it by block index).
\<close>

section \<open>Splitting text\<close>

fun last_position :: "('a \<Rightarrow> bool) \<Rightarrow> 'a list \<Rightarrow> nat option" where
  "last_position P [] = None"
| "last_position P (x # xs) = (case last_position P xs of
     Some i \<Rightarrow> Some (Suc i) | None \<Rightarrow> if P x then Some 0 else None)"

text \<open>Where the next piece ends, in characters.\<close>

definition cut_of :: "nat \<Rightarrow> string list \<Rightarrow> nat" where
  "cut_of max_size rest =
     (let window = (if max max_size 1 < length rest then max max_size 1 else length rest) in
      if window < length rest
      then (case last_position is_whitespace (take window rest) of Some i \<Rightarrow> Suc i | None \<Rightarrow> window)
      else window)"

lemma cut_of_pos: "rest \<noteq> [] \<Longrightarrow> 0 < cut_of max_size rest"
  by (auto simp: cut_of_def Let_def split: option.splits)

function split_loop :: "nat \<Rightarrow> string list \<Rightarrow> string list" where
  "split_loop max_size rest =
     (if rest = [] then []
      else concat (take (cut_of max_size rest) rest) # split_loop max_size (drop (cut_of max_size rest) rest))"
  by pat_completeness auto
termination by (relation "measure (\<lambda>(n, rest). length rest)") (use cut_of_pos in auto)

declare split_loop.simps [simp del]

definition split_chars :: "string \<Rightarrow> nat \<Rightarrow> string list" where
  "split_chars text max_size =
     (if char_count text \<le> max_size then [text] else split_loop max_size (chars text))"

section \<open>OpenAI chunks\<close>

record stream_meta =
  sm_id :: string
  sm_created :: u64   \<comment> \<open>an \<^verbatim>\<open>i64\<close>\<close>
  sm_model :: string
  sm_extras :: "(string \<times> json) list"

record raw_completion =
  raw_meta :: stream_meta
  raw_choices :: "json list"
  raw_usage :: "json option"
  raw_timings :: "json option"

definition KNOWN_FIELDS :: "string list" where
  "KNOWN_FIELDS = [''id'', ''object'', ''created'', ''model'', ''choices'', ''usage'', ''timings'']"

definition check_raw_choice :: "json \<Rightarrow> (unit, string) result" where
  "check_raw_choice c = (case as_object c of
       None \<Rightarrow> Err ''choices[] entry is not an object''
     | Some co \<Rightarrow>
         if Option.bind (map_of co ''message'') as_object = None then Err ''choices[] entry has no message object''
         else if is_some_and (\<lambda>i. \<not> is_u64 i) (map_of co ''index'')
         then Err ''choices[].index is present but not a non-negative integer''
         else if is_some_and (\<lambda>f. f \<noteq> JNull \<and> \<not> is_string f) (map_of co ''finish_reason'')
         then Err ''choices[].finish_reason is present but not a string or null''
         else Ok ())"

fun check_raw_choices :: "json list \<Rightarrow> (unit, string) result" where
  "check_raw_choices [] = Ok ()"
| "check_raw_choices (c # cs) = (case check_raw_choice c of Inl e \<Rightarrow> Inl e | Inr _ \<Rightarrow> check_raw_choices cs)"

text \<open>The keys of a map are distinct, so collecting the unknown fields is a filter.\<close>

definition parse_raw_completion :: "u64 \<Rightarrow> json \<Rightarrow> (raw_completion, string) result" where
  "parse_raw_completion now raw = (case as_object raw of
       None \<Rightarrow> Err ''response is not a JSON object''
     | Some obj \<Rightarrow>
         (case Option.bind (map_of obj ''id'') as_str of
            None \<Rightarrow> Err ''response has no string id''
          | Some i \<Rightarrow>
         (case Option.bind (map_of obj ''model'') as_str of
            None \<Rightarrow> Err ''response has no string model''
          | Some model \<Rightarrow>
         (case Option.bind (map_of obj ''choices'') as_array of
            None \<Rightarrow> Err ''response has no choices array''
          | Some choices \<Rightarrow>
              if choices = [] then Err ''response has an empty choices array''
              else (case check_raw_choices choices of
                      Inl e \<Rightarrow> Inl e
                    | Inr _ \<Rightarrow> Ok
                        \<lparr>raw_meta = \<lparr>sm_id = i, sm_created = some_or (Option.bind (map_of obj ''created'') as_i64) now,
                                     sm_model = model, sm_extras = filter (\<lambda>(k, v). k \<notin> set KNOWN_FIELDS) obj\<rparr>,
                         raw_choices = choices,
                         raw_usage = (case map_of obj ''usage'' of Some u \<Rightarrow> if is_object u then Some u else None | None \<Rightarrow> None),
                         raw_timings = (case map_of obj ''timings'' of Some t \<Rightarrow> if is_object t then Some t else None | None \<Rightarrow> None)\<rparr>)))))"

definition i64_value :: "u64 \<Rightarrow> json" where
  "i64_value n = JNum (if n < 2 ^ 63 then PosInt n else NegInt n)"

definition put_all :: "(string \<times> json) list \<Rightarrow> (string \<times> json) list \<Rightarrow> (string \<times> json) list" where
  "put_all es m = fold (\<lambda>(k, v). jmap_insert k v) es m"

definition FINISH_EVENT :: string where "FINISH_EVENT = ''finish_reason''"

definition sse_envelope :: "stream_meta \<Rightarrow> string \<Rightarrow> json \<Rightarrow> u64 \<Rightarrow> (string \<times> json) list" where
  "sse_envelope meta event data idx =
     (let (delta, finish_reason) = (if event = FINISH_EVENT then (JObj [], data) else (JObj [(event, data)], JNull)) in
      put_all (sm_extras meta)
        [(''id'', JStr (sm_id meta)), (''object'', JStr ''chat.completion.chunk''), (''created'', i64_value (sm_created meta)),
         (''model'', JStr (sm_model meta)),
         (''choices'', JArr [JObj [(''index'', JNum (PosInt idx)), (''delta'', delta), (''finish_reason'', finish_reason)]])])"

datatype sse_out = Data "string option" json | Done

definition create_sse_event :: "json \<Rightarrow> sse_out" where "create_sse_event v = Data None v"

definition envelope_event :: "stream_meta \<Rightarrow> u64 \<Rightarrow> string \<Rightarrow> json \<Rightarrow> sse_out" where
  "envelope_event meta idx event data = create_sse_event (JObj (sse_envelope meta event data idx))"

definition option_list :: "('a \<Rightarrow> 'b) \<Rightarrow> 'a option \<Rightarrow> 'b list" where
  "option_list f x = (case x of None \<Rightarrow> [] | Some y \<Rightarrow> [f y])"

definition str_at :: "(string \<times> json) list \<Rightarrow> string \<Rightarrow> string option" where
  "str_at m k = Option.bind (map_of m k) as_str"

definition arr_at :: "(string \<times> json) list \<Rightarrow> string \<Rightarrow> json list option" where
  "arr_at m k = Option.bind (map_of m k) as_array"

definition choice_finish :: "json \<Rightarrow> (string \<times> json) list \<Rightarrow> string" where
  "choice_finish choice message = (case get_str choice ''finish_reason'' of
       Some f \<Rightarrow> f
     | None \<Rightarrow> if is_some_and (\<lambda>t. t \<noteq> []) (arr_at message ''tool_calls'') then ''tool_calls'' else ''stop'')"

definition content_events :: "stream_meta \<Rightarrow> u64 \<Rightarrow> nat \<Rightarrow> json option \<Rightarrow> sse_out list" where
  "content_events meta idx chunk_size content = (case content of
       Some (JStr text) \<Rightarrow>
         if text \<noteq> [] then map (\<lambda>t. envelope_event meta idx ''content'' (JStr t)) (split_chars text chunk_size) else []
     | Some v \<Rightarrow> if v \<noteq> JNull then [envelope_event meta idx ''content'' v] else []
     | None \<Rightarrow> [])"

definition synthesize_choice_chunks ::
  "stream_meta \<Rightarrow> json \<Rightarrow> u64 \<Rightarrow> json option \<Rightarrow> json option \<Rightarrow> nat \<Rightarrow> sse_out list" where
  "synthesize_choice_chunks meta choice idx usage timings chunk_size =
     (case Option.bind (get choice ''message'') as_object of
        None \<Rightarrow> []
      | Some message \<Rightarrow>
          option_list (\<lambda>r. envelope_event meta idx ''role'' (JStr r)) (str_at message ''role'')
          @ option_list (\<lambda>r. envelope_event meta idx ''reasoning_text'' (JStr r)) (str_at message ''reasoning_text'')
          @ option_list (\<lambda>r. envelope_event meta idx ''reasoning_opaque'' (JStr r)) (str_at message ''reasoning_opaque'')
          @ content_events meta idx chunk_size (map_of message ''content'')
          @ (case arr_at message ''tool_calls'' of
               Some tools \<Rightarrow> if tools \<noteq> [] then [envelope_event meta idx ''tool_calls'' (JArr tools)] else []
             | None \<Rightarrow> [])
          @ [create_sse_event (JObj
               (let e = sse_envelope meta FINISH_EVENT (JStr (choice_finish choice message)) idx;
                    e1 = (case usage of Some u \<Rightarrow> jmap_insert ''usage'' u e | None \<Rightarrow> e) in
                case timings of Some t \<Rightarrow> jmap_insert ''timings'' t e1 | None \<Rightarrow> e1))])"

fun synthesize_from :: "raw_completion \<Rightarrow> nat \<Rightarrow> nat \<Rightarrow> json list \<Rightarrow> sse_out list" where
  "synthesize_from parsed chunk_size pos [] = []"
| "synthesize_from parsed chunk_size pos (choice # cs) =
     synthesize_choice_chunks (raw_meta parsed) choice
       (some_or (Option.bind (get choice ''index'') as_u64) (of_nat pos))
       (if cs = [] then raw_usage parsed else None) (if cs = [] then raw_timings parsed else None) chunk_size
     @ synthesize_from parsed chunk_size (Suc pos) cs"

definition synthesize_openai_chunks :: "raw_completion \<Rightarrow> nat \<Rightarrow> sse_out list" where
  "synthesize_openai_chunks parsed chunk_size = synthesize_from parsed chunk_size 0 (raw_choices parsed) @ [Done]"

definition synthesize_streaming_response :: "u64 \<Rightarrow> json \<Rightarrow> nat \<Rightarrow> (sse_out list, string) result" where
  "synthesize_streaming_response now raw chunk_size =
     (case parse_raw_completion now raw of Inl e \<Rightarrow> Inl e | Inr parsed \<Rightarrow> Ok (synthesize_openai_chunks parsed chunk_size))"

section \<open>Anthropic frames\<close>

type_synonym frame = "string \<times> json"

definition map_openai_finish_to_stop :: "string \<Rightarrow> string" where
  "map_openai_finish_to_stop finish =
     (if finish = ''stop'' then ''end_turn'' else if finish = ''length'' then ''max_tokens''
      else if finish = ''tool_calls'' then ''tool_use'' else finish)"

definition usize_value :: "nat \<Rightarrow> json" where
  "usize_value n = JNum (PosInt (of_nat n))"

definition build_content_block_start_event :: "nat \<Rightarrow> string \<Rightarrow> json" where
  "build_content_block_start_event index block_type =
     JObj [(''type'', JStr ''content_block_start''), (''index'', usize_value index),
           (''content_block'', JObj [(''type'', JStr block_type), (''text'', JStr [])])]"

definition build_thinking_block_start_event :: "nat \<Rightarrow> string option \<Rightarrow> json" where
  "build_thinking_block_start_event index signature =
     JObj [(''type'', JStr ''content_block_start''), (''index'', usize_value index),
           (''content_block'', JObj ([(''type'', JStr ''thinking''), (''thinking'', JStr [])]
              @ option_list (\<lambda>s. (''signature'', JStr s)) signature))]"

definition block_delta_event :: "nat \<Rightarrow> string \<Rightarrow> string \<Rightarrow> string \<Rightarrow> json" where
  "block_delta_event index delta_type key text =
     JObj [(''type'', JStr ''content_block_delta''), (''index'', usize_value index),
           (''delta'', JObj [(''type'', JStr delta_type), (key, JStr text)])]"

definition build_signature_delta_event :: "nat \<Rightarrow> string \<Rightarrow> json" where
  "build_signature_delta_event index signature = block_delta_event index ''signature_delta'' ''signature'' signature"

definition build_content_block_delta_event :: "nat \<Rightarrow> string \<Rightarrow> string \<Rightarrow> json" where
  "build_content_block_delta_event index delta_type text = block_delta_event index delta_type ''text'' text"

definition build_thinking_block_delta_event :: "nat \<Rightarrow> string \<Rightarrow> json" where
  "build_thinking_block_delta_event index thinking = block_delta_event index ''thinking_delta'' ''thinking'' thinking"

definition build_tool_use_block_delta_event :: "nat \<Rightarrow> string \<Rightarrow> json" where
  "build_tool_use_block_delta_event index partial_json =
     block_delta_event index ''input_json_delta'' ''partial_json'' partial_json"

definition build_content_block_stop_event :: "nat \<Rightarrow> json" where
  "build_content_block_stop_event index = JObj [(''type'', JStr ''content_block_stop''), (''index'', usize_value index)]"

definition build_message_stop_event :: json where
  "build_message_stop_event = JObj [(''type'', JStr ''message_stop'')]"

definition raw_block_start_event :: "nat \<Rightarrow> json \<Rightarrow> json" where
  "raw_block_start_event index block =
     JObj [(''type'', JStr ''content_block_start''), (''index'', usize_value index), (''content_block'', block)]"

definition build_tool_use_block_start_event :: "nat \<Rightarrow> string \<Rightarrow> string \<Rightarrow> json" where
  "build_tool_use_block_start_event index i name =
     raw_block_start_event index (JObj [(''type'', JStr ''tool_use''), (''id'', JStr i), (''name'', JStr name), (''input'', JObj [])])"

text \<open>A block's frames: its start, its deltas, its stop.\<close>

definition block_frames :: "nat \<Rightarrow> json \<Rightarrow> json list \<Rightarrow> frame list" where
  "block_frames idx start deltas =
     (''content_block_start'', start) # map (\<lambda>d. (''content_block_delta'', d)) deltas
     @ [(''content_block_stop'', build_content_block_stop_event idx)]"

definition reasoning_frames :: "nat \<Rightarrow> nat \<Rightarrow> (string \<times> json) list \<Rightarrow> frame list list" where
  "reasoning_frames chunk_size idx message = (case str_at message ''reasoning_text'' of
       Some reasoning \<Rightarrow>
         if reasoning \<noteq> []
         then [block_frames idx (build_thinking_block_start_event idx None)
                 (map (build_thinking_block_delta_event idx) (split_chars reasoning chunk_size))]
         else []
     | None \<Rightarrow> [])"

definition content_frames :: "nat \<Rightarrow> nat \<Rightarrow> (string \<times> json) list \<Rightarrow> frame list list" where
  "content_frames chunk_size idx message = (case map_of message ''content'' of
       Some (JStr text) \<Rightarrow>
         if text \<noteq> []
         then [block_frames idx (build_content_block_start_event idx ''text'')
                 (map (build_content_block_delta_event idx ''text_delta'') (split_chars text chunk_size))]
         else []
     | Some v \<Rightarrow> if v \<noteq> JNull then [block_frames idx (raw_block_start_event idx v) []] else []
     | None \<Rightarrow> [])"

definition tool_frames :: "(nat \<Rightarrow> string) \<Rightarrow> nat \<Rightarrow> json \<Rightarrow> frame list" where
  "tool_frames fresh_id idx tc =
     (let field = (\<lambda>k. some_or (Option.bind (get tc ''function'') (\<lambda>f. get_str f k)) []) in
      block_frames idx
        (build_tool_use_block_start_event idx (some_or (get_str tc ''id'') (''toolu_'' @ fresh_id idx)) (field ''name''))
        [build_tool_use_block_delta_event idx (field ''arguments'')])"

fun tools_frames :: "(nat \<Rightarrow> string) \<Rightarrow> nat \<Rightarrow> json list \<Rightarrow> frame list list" where
  "tools_frames fresh_id idx [] = []"
| "tools_frames fresh_id idx (tc # tcs) = tool_frames fresh_id idx tc # tools_frames fresh_id (Suc idx) tcs"

text \<open>The blocks of one choice, numbered from \<open>idx\<close>; an empty choice gets an empty text block.\<close>

definition choice_blocks :: "(nat \<Rightarrow> string) \<Rightarrow> nat \<Rightarrow> nat \<Rightarrow> (string \<times> json) list \<Rightarrow> frame list list" where
  "choice_blocks fresh_id chunk_size idx message =
     (let r = reasoning_frames chunk_size idx message;
          c = content_frames chunk_size (idx + length r) message;
          t = tools_frames fresh_id (idx + length r + length c) (some_or (arr_at message ''tool_calls'') []);
          bs = r @ c @ t in
      if bs = [] then [block_frames idx (build_content_block_start_event idx ''text'') []] else bs)"

fun choices_blocks :: "(nat \<Rightarrow> string) \<Rightarrow> nat \<Rightarrow> nat \<Rightarrow> json list \<Rightarrow> frame list list option" where
  "choices_blocks fresh_id chunk_size idx [] = Some []"
| "choices_blocks fresh_id chunk_size idx (choice # cs) = (case Option.bind (get choice ''message'') as_object of
     None \<Rightarrow> None
   | Some message \<Rightarrow>
       (let bs = choice_blocks fresh_id chunk_size idx message in
        map_option (\<lambda>rest. bs @ rest) (choices_blocks fresh_id chunk_size (idx + length bs) cs)))"

definition claude_usage :: "json option \<Rightarrow> json" where
  "claude_usage usage = (case usage of
       Some (JObj u) \<Rightarrow>
         (let u1 = (case map_of u ''prompt_tokens'' of Some pt \<Rightarrow> jmap_insert ''input_tokens'' pt u | None \<Rightarrow> u) in
          JObj (case map_of u ''completion_tokens'' of Some ct \<Rightarrow> jmap_insert ''output_tokens'' ct u1 | None \<Rightarrow> u1))
     | _ \<Rightarrow> JObj [(''input_tokens'', JNum (PosInt 0)), (''output_tokens'', JNum (PosInt 0))])"

definition has_tool_use :: "json list \<Rightarrow> bool" where
  "has_tool_use choices = list_ex (\<lambda>c.
     is_some_and (\<lambda>m. some_or (arr_at m ''tool_calls'') [] \<noteq> []) (Option.bind (get c ''message'') as_object)) choices"

definition claude_stop_reason :: "json list \<Rightarrow> string" where
  "claude_stop_reason choices = (case get_str (last choices) ''finish_reason'' of
       Some f \<Rightarrow> map_openai_finish_to_stop f
     | None \<Rightarrow> if has_tool_use choices then ''tool_use'' else ''end_turn'')"

definition convert_openai_to_claude_sse :: "u64 \<Rightarrow> (nat \<Rightarrow> string) \<Rightarrow> json \<Rightarrow> nat \<Rightarrow> frame list" where
  "convert_openai_to_claude_sse now fresh_id raw chunk_size = (case parse_raw_completion now raw of
       Inl _ \<Rightarrow> []
     | Inr parsed \<Rightarrow>
         (let usage = claude_usage (raw_usage parsed) in
          case get (hd (raw_choices parsed)) ''message'' of
            None \<Rightarrow> []
          | Some first_msg \<Rightarrow>
              (let message = put_all (sm_extras (raw_meta parsed))
                     [(''id'', JStr (sm_id (raw_meta parsed))), (''type'', JStr ''message''),
                      (''role'', JStr (some_or (get_str first_msg ''role'') ''assistant'')),
                      (''model'', JStr (sm_model (raw_meta parsed))), (''content'', JArr []), (''stop_reason'', JNull),
                      (''stop_sequence'', JNull), (''usage'', usage)] in
               case choices_blocks fresh_id chunk_size 0 (raw_choices parsed) of
                 None \<Rightarrow> []
               | Some blocks \<Rightarrow>
                   (''message_start'', JObj [(''type'', JStr ''message_start''), (''message'', JObj message)])
                   # concat blocks
                   @ [(''message_delta'', JObj [(''type'', JStr ''message_delta''),
                        (''delta'', JObj [(''stop_reason'', JStr (claude_stop_reason (raw_choices parsed))), (''stop_sequence'', JNull)]), (''usage'', usage)]),
                      (''message_stop'', build_message_stop_event)])))"

end
