(* ===== verification/Sse_Merge_Correct.thy ===== *)
theory Sse_Merge_Correct
  imports Sse_Merge
begin

text \<open>
  Correctness of the merge of \<open>Sse_Merge\<close>: on chunks of the streaming shape it does not panic and
  the merged response carries, per choice, the deltas put together; fragments of tool calls are put
  together per index. Outside that shape it can panic, and the condition is stated.
\<close>

section \<open>Writing into values\<close>

lemma push_key_obj: "push_key k s (JObj m) = Some (JObj (push_entry k s m))"
  by (simp add: push_key_def push_entry_def split: option.splits json.splits)

lemma map_of_push_entry:
  "map_of (push_entry k s m) j =
     (if j = k then Some (JStr ((case map_of m k of Some (JStr e) \<Rightarrow> e | _ \<Rightarrow> []) @ s)) else map_of m j)"
  by (simp add: push_entry_def map_of_jmap_insert split: option.splits json.splits)

lemma update_key_collapse: "update_key k f (update_key k (\<lambda>_. y) v) = update_key k (\<lambda>_. f y) v"
proof (cases v)
  case (JObj m)
  have "jmap_insert k a (jmap_insert k b m) = jmap_insert k a m" for a b
    by (induction k b m rule: jmap_insert.induct) auto
  with JObj show ?thesis by (simp add: map_of_jmap_insert split: option.splits)
qed auto

lemma at_key_present: "get v k = Some x \<Longrightarrow> at_key k f v = map_option (\<lambda>y. update_key k (\<lambda>_. y) v) (f x)"
  by (simp add: at_key_def)

lemma at_key_after: "get v k = Some x \<Longrightarrow> at_key k f (update_key k (\<lambda>_. y) v) = map_option (\<lambda>z. update_key k (\<lambda>_. z) v) (f y)"
  by (simp add: at_key_def get_update_key update_key_collapse)

lemma update_key_self: "get v k = Some x \<Longrightarrow> update_key k (\<lambda>_. x) v = v"
  by (rule update_key_id) simp

section \<open>One message\<close>

text \<open>What a delta does to the message it is merged into.\<close>

definition put :: "'a option \<Rightarrow> ('a \<Rightarrow> 'm \<Rightarrow> 'm) \<Rightarrow> 'm \<Rightarrow> 'm" where
  "put x f m = (case x of None \<Rightarrow> m | Some y \<Rightarrow> f y m)"

definition merge_text :: "json \<Rightarrow> (string \<times> json) list \<Rightarrow> (string \<times> json) list" where
  "merge_text d m =
     put (get d ''reasoning_opaque'') (jmap_insert ''reasoning_opaque'')
       (put (get_str d ''reasoning_text'') (push_entry ''reasoning_text'')
         (put (get_str d ''content'') (push_entry ''content'')
           (put (get_str d ''role'') (\<lambda>r. jmap_insert ''role'' (JStr r)) m)))"

lemma when_some_message:
  assumes c: "get c ''message'' = Some m0" and f: "\<And>y. f y = at_key ''message'' (\<lambda>v. case v of JObj m \<Rightarrow> Some (JObj (g y m)) | _ \<Rightarrow> h y v)"
  shows "when_some x f (update_key ''message'' (\<lambda>_. JObj m) c) = Some (update_key ''message'' (\<lambda>_. JObj (put x g m)) c)"
  using at_key_after [OF c] by (simp add: when_some_def put_def f split: option.splits)

lemma index_set_cases: "(\<lambda>v. index_set v k x) = (\<lambda>v. case v of JObj m \<Rightarrow> Some (JObj (jmap_insert k x m)) | _ \<Rightarrow> index_set v k x)"
  by (rule ext) (simp split: json.splits)

lemma push_key_cases: "push_key k s = (\<lambda>v. case v of JObj m \<Rightarrow> Some (JObj (push_entry k s m)) | _ \<Rightarrow> push_key k s v)"
  by (rule ext) (simp add: push_key_obj split: json.splits)

lemma merge_delta_message:
  assumes "get c ''message'' = Some (JObj m)"
  shows "merge_delta d c =
    map_option (\<lambda>v. update_key ''message'' (\<lambda>_. v) c)
      (case get d ''tool_calls'' of
         None \<Rightarrow> Some (JObj (merge_text d m))
       | Some x \<Rightarrow> at_key ''tool_calls'' (merge_tool_calls x) (JObj (merge_text d m)))"
proof -
  have c: "c = update_key ''message'' (\<lambda>_. JObj m) c" using assms by (simp add: update_key_self)
  note step = when_some_message [OF assms]
  have 1: "when_some (get_str d ''role'') (\<lambda>r. at_key ''message'' (\<lambda>v. index_set v ''role'' (JStr r))) c
     = Some (update_key ''message'' (\<lambda>_. JObj (put (get_str d ''role'') (\<lambda>r. jmap_insert ''role'' (JStr r)) m)) c)"
    by (subst c, rule step) (subst index_set_cases, rule refl)
  have 2: "when_some (get_str d k) (\<lambda>t. at_key ''message'' (push_key k t)) (update_key ''message'' (\<lambda>_. JObj m') c)
     = Some (update_key ''message'' (\<lambda>_. JObj (put (get_str d k) (push_entry k) m')) c)" for k m'
    by (rule step) (subst push_key_cases, rule refl)
  have 3: "when_some (get d ''reasoning_opaque'') (\<lambda>x. at_key ''message'' (\<lambda>v. index_set v ''reasoning_opaque'' x))
       (update_key ''message'' (\<lambda>_. JObj m') c)
     = Some (update_key ''message'' (\<lambda>_. JObj (put (get d ''reasoning_opaque'') (jmap_insert ''reasoning_opaque'') m')) c)" for m'
    by (rule step) (subst index_set_cases, rule refl)
  show ?thesis
    unfolding merge_delta_def 1 bind.simps(2) 2 3 merge_text_def
    by (simp add: when_some_def at_key_after [OF assms] split: option.splits)
qed

section \<open>Tool calls\<close>

definition call_slot :: "json \<Rightarrow> bool" where
  "call_slot v = (is_object v \<or> v = JNull)"

lemma merge_slot_object:
  assumes "is_object slot"
  shows "\<exists>s. merge_tool_call_slot slot c = Some s \<and> is_object s"
proof -
  obtain m where m: "slot = JObj m" using assms by (auto simp: is_object_def elim: as_object.elims)
  show ?thesis
    by (auto simp: m merge_tool_call_slot_def is_object_def Let_def split: option.splits json.splits)
qed

lemma last_recorded_Some: "last_recorded xs = Some i \<Longrightarrow> i < length xs \<and> xs ! i \<noteq> JNull"
  by (induction xs arbitrary: i) (auto split: option.splits if_splits)

lemma pad_length [simp]: "length (pad n xs) = max n (length xs)"
  by (simp add: pad_def)

lemma pad_nth: "i < max n (length xs) \<Longrightarrow> pad n xs ! i = (if i < length xs then xs ! i else JNull)"
  by (auto simp: pad_def nth_append)

lemma pad_slots: "list_all call_slot xs \<Longrightarrow> list_all call_slot (pad n xs)"
  by (auto simp: pad_def call_slot_def list_all_iff)

lemma call_slot_update: "list_all call_slot xs \<Longrightarrow> call_slot x \<Longrightarrow> list_all call_slot (xs[i := x])"
  by (auto simp: list_all_iff dest!: subsetD [OF set_update_subset_insert])

lemma merge_call_slots:
  assumes "list_all call_slot xs" "is_object c"
  shows "\<exists>ys. merge_call c xs = Some ys \<and> list_all call_slot ys"
proof -
  have slot: "\<exists>s. merge_tool_call_slot (ys ! i) c = Some s \<and> call_slot s"
    if "list_all call_slot ys" "i < length ys" "ys ! i \<noteq> JNull" for ys i
    using that merge_slot_object [of "ys ! i" c] by (auto simp: list_all_length call_slot_def)
  have c: "call_slot c" using assms(2) by (simp add: call_slot_def)
  show ?thesis
  proof (cases "Option.bind (get c ''index'') as_u64")
    case (Some idx)
    let ?i = "unat idx" and ?arr = "pad (Suc (unat idx)) xs"
    have arr: "list_all call_slot ?arr" using assms(1) by (rule pad_slots)
    show ?thesis
    proof (cases "?arr ! ?i = JNull")
      case True
      with Some assms(1) arr c show ?thesis by (auto simp: merge_call_def Let_def call_slot_update)
    next
      case False
      have "?i < length ?arr" by (simp add: less_max_iff_disj)
      from slot [OF arr this False] obtain s where "merge_tool_call_slot (?arr ! ?i) c = Some s" "call_slot s" by blast
      with Some assms(1) arr False show ?thesis by (auto simp: merge_call_def Let_def call_slot_update)
    qed
  next
    case None
    show ?thesis
    proof (cases "last_recorded xs")
      case None
      with \<open>Option.bind _ _ = None\<close> assms(1) c show ?thesis by (simp add: merge_call_def)
    next
      case (Some i)
      from slot [OF assms(1)] last_recorded_Some [OF Some] obtain s
        where "merge_tool_call_slot (xs ! i) c = Some s" "call_slot s" by auto
      with \<open>Option.bind _ _ = None\<close> Some assms(1) show ?thesis by (auto simp: merge_call_def call_slot_update)
    qed
  qed
qed

lemma merge_calls_slots:
  "list_all call_slot xs \<Longrightarrow> list_all is_object cs \<Longrightarrow> \<exists>ys. merge_calls cs xs = Some ys \<and> list_all call_slot ys"
proof (induction cs arbitrary: xs)
  case (Cons c cs)
  then obtain ys where "merge_call c xs = Some ys" "list_all call_slot ys" using merge_call_slots by fastforce
  with Cons show ?case by auto
qed simp

definition calls_ok :: "json \<Rightarrow> bool" where
  "calls_ok v = (case v of JArr xs \<Rightarrow> list_all call_slot xs | _ \<Rightarrow> True)"

definition delta_ok :: "json \<Rightarrow> bool" where
  "delta_ok d = (case get d ''tool_calls'' of Some (JArr cs) \<Rightarrow> list_all is_object cs | _ \<Rightarrow> True)"

lemma merge_tool_calls_ok:
  assumes "calls_ok acc" "case x of JArr cs \<Rightarrow> list_all is_object cs | _ \<Rightarrow> True"
  shows "\<exists>y. merge_tool_calls x acc = Some y \<and> calls_ok y"
proof (cases "acc = JNull")
  case True
  with assms(2) show ?thesis by (auto simp: merge_tool_calls_def calls_ok_def call_slot_def list_all_iff split: json.splits)
next
  case False
  show ?thesis
  proof (cases "\<exists>a n. acc = JArr a \<and> x = JArr n")
    case True
    with assms merge_calls_slots show ?thesis by (fastforce simp: merge_tool_calls_def calls_ok_def)
  next
    case no: False
    with False assms(1) have "merge_tool_calls x acc = Some acc" by (auto simp: merge_tool_calls_def split: json.splits)
    with assms(1) show ?thesis by simp
  qed
qed

section \<open>One choice\<close>

definition choice_ok :: "json \<Rightarrow> bool" where
  "choice_ok c = (wf_json c \<and> is_object c \<and> (get c ''delta'' \<noteq> None \<or> get c ''message'' = None)
     \<and> is_none_or delta_ok (get c ''delta''))"

text \<open>The texts the deltas of a choice's chunks carry under a key, and its finish reasons.\<close>

definition delta_texts :: "string \<Rightarrow> json list \<Rightarrow> string list" where
  "delta_texts k cs = List.map_filter (\<lambda>c. Option.bind (get c ''delta'') (\<lambda>d. get_str d k)) cs"

definition finish_reasons :: "json list \<Rightarrow> json list" where
  "finish_reasons cs = filter (\<lambda>f. f \<noteq> JNull) (List.map_filter (\<lambda>c. get c ''finish_reason'') cs)"

definition text_value :: "string list \<Rightarrow> json" where
  "text_value ts = (if ts = [] then JNull else JStr (concat ts))"

text \<open>The accumulated choice carries what its chunks said.\<close>

definition msg_texts :: "json list \<Rightarrow> (string \<times> json) list \<Rightarrow> bool" where
  "msg_texts cs m = (map_of m ''content'' = Some (text_value (delta_texts ''content'' cs))
     \<and> map_of m ''reasoning_text''
         = (if delta_texts ''reasoning_text'' cs = [] then None else Some (text_value (delta_texts ''reasoning_text'' cs)))
     \<and> map_of m ''role'' = Some (JStr (last (''assistant'' # delta_texts ''role'' cs))))"

definition merged_calls :: "json list \<Rightarrow> json option" where
  "merged_calls cs = fold (\<lambda>c acc. case Option.bind (get c ''delta'') (\<lambda>d. get d ''tool_calls'') of
       None \<Rightarrow> acc | Some x \<Rightarrow> Option.bind acc (merge_tool_calls x)) cs (Some JNull)"

definition msg_carries :: "json list \<Rightarrow> (string \<times> json) list \<Rightarrow> bool" where
  "msg_carries cs m = (msg_texts cs m \<and> map_of m ''tool_calls'' = merged_calls cs \<and> is_some_and calls_ok (merged_calls cs))"

definition carries :: "json list \<Rightarrow> json \<Rightarrow> bool" where
  "carries cs c = (is_object c \<and> (\<exists>m. get c ''message'' = Some (JObj m) \<and> msg_carries cs m)
     \<and> (finish_reasons cs \<noteq> [] \<longrightarrow> get c ''finish_reason'' = Some (last (finish_reasons cs))))"

lemma map_filter_snoc: "List.map_filter f (xs @ [x]) = List.map_filter f xs @ (case f x of None \<Rightarrow> [] | Some y \<Rightarrow> [y])"
  by (simp add: List.map_filter_def split: option.splits)

lemma delta_texts_snoc:
  "delta_texts k (cs @ [c]) = delta_texts k cs @ (case Option.bind (get c ''delta'') (\<lambda>d. get_str d k) of None \<Rightarrow> [] | Some t \<Rightarrow> [t])"
  by (simp add: delta_texts_def map_filter_snoc)

lemma carries_seed:
  assumes "choice_ok ch"
  shows "carries [] (seed_choice ch)"
proof -
  from assms obtain m where m: "ch = JObj m" "keys_distinct m" by (cases ch) (auto simp: choice_ok_def is_object_def)
  have "map_of m ''delta'' \<noteq> None \<or> map_of (jmap_remove ''delta'' m) ''message'' = None"
    using assms m map_of_jmap_remove [OF m(2), of "''delta''"] by (auto simp: choice_ok_def)
  then have "seed_choice ch = JObj (jmap_insert ''message'' seed_message (jmap_remove ''delta'' m))"
    using m by (auto simp: seed_choice_def)
  then show ?thesis
    by (simp add: carries_def msg_carries_def msg_texts_def merged_calls_def is_object_def map_of_jmap_insert seed_message_def delta_texts_def List.map_filter_def
        text_value_def calls_ok_def finish_reasons_def)
qed

lemma merge_text_fields:
  "map_of (merge_text d m) ''content'' = (case get_str d ''content'' of None \<Rightarrow> map_of m ''content''
     | Some t \<Rightarrow> Some (JStr ((case map_of m ''content'' of Some (JStr e) \<Rightarrow> e | _ \<Rightarrow> []) @ t)))"
  "map_of (merge_text d m) ''reasoning_text'' = (case get_str d ''reasoning_text'' of None \<Rightarrow> map_of m ''reasoning_text''
     | Some t \<Rightarrow> Some (JStr ((case map_of m ''reasoning_text'' of Some (JStr e) \<Rightarrow> e | _ \<Rightarrow> []) @ t)))"
  "map_of (merge_text d m) ''role'' = (case get_str d ''role'' of None \<Rightarrow> map_of m ''role'' | Some r \<Rightarrow> Some (JStr r))"
  "map_of (merge_text d m) ''tool_calls'' = map_of m ''tool_calls''"
  by (simp_all add: merge_text_def put_def map_of_push_entry map_of_jmap_insert split: option.splits)

lemma msg_texts_delta:
  assumes "msg_texts cs m" "get ch ''delta'' = Some d"
  shows "msg_texts (cs @ [ch]) (merge_text d m)"
  using assms unfolding msg_texts_def merge_text_fields delta_texts_snoc
  by (auto simp: text_value_def split: option.splits if_splits)

lemma msg_texts_calls: "msg_texts cs m \<Longrightarrow> msg_texts cs (jmap_insert ''tool_calls'' y m)"
  by (simp add: msg_texts_def map_of_jmap_insert)

lemma merged_calls_snoc:
  "merged_calls (cs @ [ch]) = (case Option.bind (get ch ''delta'') (\<lambda>d. get d ''tool_calls'') of
     None \<Rightarrow> merged_calls cs | Some x \<Rightarrow> Option.bind (merged_calls cs) (merge_tool_calls x))"
  by (simp add: merged_calls_def split: option.splits)

text \<open>A delta keeps the message an object with its calls in order; only its own texts change.\<close>

lemma carries_delta:
  assumes "get c ''message'' = Some (JObj m)" "msg_carries cs m" "choice_ok ch"
  shows "\<exists>m'. when_some (get ch ''delta'') merge_delta c = Some (update_key ''message'' (\<lambda>_. JObj m') c)
    \<and> msg_carries (cs @ [ch]) m'"
proof (cases "get ch ''delta''")
  case None
  then have "msg_carries (cs @ [ch]) m"
    using assms(2) by (simp add: msg_carries_def msg_texts_def delta_texts_snoc merged_calls_snoc)
  with None assms(1) show ?thesis by (intro exI [of _ m]) (simp add: when_some_def update_key_self)
next
  case (Some d)
  let ?m = "merge_text d m"
  obtain tc where tc: "merged_calls cs = Some tc" "map_of ?m ''tool_calls'' = Some tc" "calls_ok tc" and txt_ok: "msg_texts (cs @ [ch]) ?m"
    using assms(2) Some msg_texts_delta by (auto simp: msg_carries_def merge_text_fields is_some_and_def split: option.splits)
  show ?thesis
  proof (cases "get d ''tool_calls''")
    case None
    with tc txt_ok Some have "msg_carries (cs @ [ch]) ?m" by (simp add: msg_carries_def merged_calls_snoc)
    with None Some assms(1) show ?thesis by (intro exI [of _ ?m]) (simp add: when_some_def merge_delta_message)
  next
    case calls: (Some x)
    from assms(3) Some calls have x: "case x of JArr cs \<Rightarrow> list_all is_object cs | _ \<Rightarrow> True"
      by (simp add: choice_ok_def delta_ok_def)
    from merge_tool_calls_ok [OF tc(3) x] obtain y where y: "merge_tool_calls x tc = Some y" "calls_ok y" by blast
    let ?m' = "jmap_insert ''tool_calls'' y ?m"
    have "merge_delta d c = Some (update_key ''message'' (\<lambda>_. JObj ?m') c)"
      using assms(1) calls tc y by (simp add: merge_delta_message at_key_def)
    moreover have "msg_carries (cs @ [ch]) ?m'"
      using msg_texts_calls [OF txt_ok] y tc Some calls by (simp add: msg_carries_def merged_calls_snoc map_of_jmap_insert)
    ultimately show ?thesis using Some by (auto simp: when_some_def)
  qed
qed

lemma finish_reasons_snoc:
  "finish_reasons (cs @ [ch]) = finish_reasons cs @ (case get ch ''finish_reason'' of
     Some f \<Rightarrow> if f \<noteq> JNull then [f] else [] | None \<Rightarrow> [])"
  by (simp add: finish_reasons_def map_filter_snoc split: option.splits)

lemma carries_merge:
  assumes "carries cs c" "choice_ok ch"
  shows "\<exists>c'. merge_choice ch c = Some c' \<and> carries (cs @ [ch]) c'"
proof -
  from assms(1) obtain m where m: "is_object c" "get c ''message'' = Some (JObj m)" "msg_carries cs m"
    by (auto simp: carries_def)
  from carries_delta [OF m(2,3) assms(2)] obtain m'
    where m': "when_some (get ch ''delta'') merge_delta c = Some (update_key ''message'' (\<lambda>_. JObj m') c)"
      "msg_carries (cs @ [ch]) m'" by blast
  let ?c = "update_key ''message'' (\<lambda>_. JObj m') c"
  have obj: "is_object ?c" using m(1) by (cases c) (auto simp: is_object_def split: option.splits)
  have msg: "get ?c ''message'' = Some (JObj m')" using m(2) by (simp add: get_update_key)
  show ?thesis
  proof (cases "\<exists>f. get ch ''finish_reason'' = Some f \<and> f \<noteq> JNull")
    case True
    then obtain f w where f: "get ch ''finish_reason'' = Some f" "f \<noteq> JNull" "index_set ?c ''finish_reason'' f = Some w"
      using obj index_set_defined [of ?c] by blast
    have "is_object w" using f(3) by (cases ?c) (auto simp: is_object_def)
    with f m' msg show ?thesis
      by (intro exI [of _ w]) (simp add: merge_choice_def carries_def finish_reasons_snoc index_set_get [OF f(3)])
  next
    case False
    then have "finish_reasons (cs @ [ch]) = finish_reasons cs" "merge_choice ch c = Some ?c"
      using m' by (auto simp: merge_choice_def finish_reasons_snoc split: option.splits)
    moreover have "finish_reasons cs \<noteq> [] \<longrightarrow> get ?c ''finish_reason'' = Some (last (finish_reasons cs))"
      using assms(1) by (simp add: carries_def get_update_key)
    ultimately show ?thesis using m' msg obj by (simp add: carries_def)
  qed
qed

section \<open>The whole stream\<close>

definition chunk_choices :: "json \<Rightarrow> json list" where
  "chunk_choices v = some_or (get_array v ''choices'') []"

text \<open>A chunk of the streaming shape.\<close>

definition chunk_ok :: "json \<Rightarrow> bool" where
  "chunk_ok v = (is_object v \<and> list_all choice_ok (chunk_choices v))"

text \<open>What the chunks say for the choice at one position, and the latest value of a top-level field.\<close>

definition choice_history :: "nat \<Rightarrow> json list \<Rightarrow> json list" where
  "choice_history i chunks =
     List.map_filter (\<lambda>v. if i < length (chunk_choices v) then Some (chunk_choices v ! i) else None) chunks"

fun latest :: "string \<Rightarrow> json list \<Rightarrow> json option" where
  "latest k [] = None"
| "latest k (v # vs) = (case latest k vs of Some x \<Rightarrow> Some x | None \<Rightarrow> get v k)"

lemma latest_snoc: "latest k (vs @ [v]) = (case get v k of Some x \<Rightarrow> Some x | None \<Rightarrow> latest k vs)"
  by (induction vs) (auto split: option.splits)

lemma choice_history_snoc:
  "choice_history i (vs @ [v]) = choice_history i vs @ (if i < length (chunk_choices v) then [chunk_choices v ! i] else [])"
  by (simp add: choice_history_def map_filter_snoc)

text \<open>Slots carry their histories; a choice without a slot has none.\<close>

definition slots_carry :: "(nat \<Rightarrow> json list) \<Rightarrow> json list \<Rightarrow> bool" where
  "slots_carry H acc = (\<forall>j. if j < length acc then carries (H j) (acc ! j) else H j = [])"

lemma slots_carry_seed: "slots_carry H acc \<Longrightarrow> choice_ok ch \<Longrightarrow> slots_carry H (acc @ [seed_choice ch])"
  using carries_seed unfolding slots_carry_def by (auto simp: nth_append not_less less_Suc_eq_le)

lemma slots_carry_update: "slots_carry H acc \<Longrightarrow> i < length acc \<Longrightarrow> carries h c \<Longrightarrow> slots_carry (H(i := h)) (acc[i := c])"
  by (simp add: slots_carry_def nth_list_update_if)

lemma merge_choices_carry:
  assumes "slots_carry H acc" "i \<le> length acc" "list_all choice_ok cs"
  shows "\<exists>acc'. merge_choices i cs acc = Some acc'
    \<and> slots_carry (\<lambda>j. H j @ (if i \<le> j \<and> j < i + length cs then [cs ! (j - i)] else [])) acc'"
  using assms
proof (induction cs arbitrary: H acc i)
  case Nil
  have "(\<lambda>j. H j @ (if i \<le> j \<and> j < i + length [] then [[] ! (j - i)] else [])) = H" by auto
  with Nil show ?case by simp
next
  case (Cons ch cs)
  let ?acc = "if length acc = i then acc @ [seed_choice ch] else acc"
  have sc: "slots_carry H ?acc" and i: "i < length ?acc" using Cons.prems slots_carry_seed by auto
  then have "carries (H i) (?acc ! i)" by (auto simp: slots_carry_def)
  with carries_merge Cons.prems(3) obtain c where c: "merge_choice ch (?acc ! i) = Some c" "carries (H i @ [ch]) c" by fastforce
  let ?H = "H(i := H i @ [ch])"
  have sc': "slots_carry ?H (?acc[i := c])" using sc i c(2) by (rule slots_carry_update)
  have l: "Suc i \<le> length (?acc[i := c])" using i by simp
  have ok: "list_all choice_ok cs" using Cons.prems(3) by simp
  from Cons.IH [OF sc' l ok] obtain acc' where a: "merge_choices (Suc i) cs (?acc[i := c]) = Some acc'"
    "slots_carry (\<lambda>j. ?H j @ (if Suc i \<le> j \<and> j < Suc i + length cs then [cs ! (j - Suc i)] else [])) acc'"
    by blast
  have "(\<lambda>j. ?H j @ (if Suc i \<le> j \<and> j < Suc i + length cs then [cs ! (j - Suc i)] else []))
      = (\<lambda>j. H j @ (if i \<le> j \<and> j < i + length (ch # cs) then [(ch # cs) ! (j - i)] else []))"
    by (rule ext) (auto simp: nth_Cons' Suc_diff_Suc le_Suc_eq)
  with a c i show ?case by (auto simp: Let_def)
qed

lemma set_when_object: "is_object a \<Longrightarrow> \<exists>b. set_when p k x a = Some b \<and> is_object b
    \<and> (\<forall>j. j \<noteq> k \<longrightarrow> get b j = get a j) \<and> (\<not> p \<longrightarrow> get b k = Some x)"
  by (cases a) (auto simp: set_when_def is_object_def map_of_jmap_insert)

lemma when_set_object: "is_object a \<Longrightarrow> \<exists>b. when_some x (set_when p k) a = Some b \<and> is_object b
    \<and> (\<forall>j. j \<noteq> k \<longrightarrow> get b j = get a j) \<and> (\<not> p \<longrightarrow> get b k = (case x of Some y \<Rightarrow> Some y | None \<Rightarrow> get a k))"
  using set_when_object by (cases x) (auto simp: when_some_def)

lemma merge_stats_object:
  assumes "is_object a"
  shows "\<exists>b. merge_stream_stats v a = Some b \<and> is_object b \<and> get b ''choices'' = get a ''choices''
    \<and> get b ''usage'' = (case get v ''usage'' of Some y \<Rightarrow> Some y | None \<Rightarrow> get a ''usage'')
    \<and> get b ''timings'' = (case get v ''timings'' of Some y \<Rightarrow> Some y | None \<Rightarrow> get a ''timings'')"
proof -
  from when_set_object [OF assms, of "get v ''usage''" False "''usage''"] obtain a1 where 1:
    "when_some (get v ''usage'') (set_when False ''usage'') a = Some a1" "is_object a1" "\<forall>j. j \<noteq> ''usage'' \<longrightarrow> get a1 j = get a j"
    "get a1 ''usage'' = (case get v ''usage'' of Some y \<Rightarrow> Some y | None \<Rightarrow> get a ''usage'')" by auto
  from when_set_object [OF 1(2), of "get v ''model''" True "''model''"] obtain a2 where 2:
    "when_some (get v ''model'') (set_when True ''model'') a1 = Some a2" "is_object a2" "\<forall>j. j \<noteq> ''model'' \<longrightarrow> get a2 j = get a1 j" by auto
  from when_set_object [OF 2(2), of "get v ''timings''" False "''timings''"] obtain a3 where 3:
    "when_some (get v ''timings'') (set_when False ''timings'') a2 = Some a3" "is_object a3" "\<forall>j. j \<noteq> ''timings'' \<longrightarrow> get a3 j = get a2 j"
    "get a3 ''timings'' = (case get v ''timings'' of Some y \<Rightarrow> Some y | None \<Rightarrow> get a2 ''timings'')" by auto
  from when_set_object [OF 3(2), of "get v ''metrics''" True "''metrics''"] obtain a4 where 4:
    "when_some (get v ''metrics'') (set_when True ''metrics'') a3 = Some a4" "is_object a4" "\<forall>j. j \<noteq> ''metrics'' \<longrightarrow> get a4 j = get a3 j" by auto
  from 1 2 3 4 show ?thesis by (intro exI [of _ a4]) (simp add: merge_stream_stats_def split: option.splits)
qed

definition merged :: "json list \<Rightarrow> json \<Rightarrow> bool" where
  "merged chunks acc = (is_object acc \<and> get acc ''usage'' = latest ''usage'' chunks \<and> get acc ''timings'' = latest ''timings'' chunks
     \<and> (\<exists>slots. get acc ''choices'' = Some (JArr slots) \<and> slots_carry (\<lambda>i. choice_history i chunks) slots))"

lemma merge_into_step:
  assumes "is_object acc" "get acc ''choices'' = Some (JArr slots)" "slots_carry H slots" "chunk_ok v"
  shows "\<exists>b slots'. merge_into acc v = Some b \<and> is_object b \<and> get b ''choices'' = Some (JArr slots')
    \<and> slots_carry (\<lambda>i. H i @ (if i < length (chunk_choices v) then [chunk_choices v ! i] else [])) slots'
    \<and> get b ''usage'' = (case get v ''usage'' of Some y \<Rightarrow> Some y | None \<Rightarrow> get acc ''usage'')
    \<and> get b ''timings'' = (case get v ''timings'' of Some y \<Rightarrow> Some y | None \<Rightarrow> get acc ''timings'')"
proof -
  have ok: "list_all choice_ok (chunk_choices v)" using assms(4) by (simp add: chunk_ok_def)
  from merge_choices_carry [OF assms(3) _ ok, of 0] obtain slots' where s: "merge_choices 0 (chunk_choices v) slots = Some slots'"
    "slots_carry (\<lambda>i. H i @ (if i < length (chunk_choices v) then [chunk_choices v ! i] else [])) slots'"
    by (auto cong: if_cong)
  let ?a = "update_key ''choices'' (\<lambda>_. JArr slots') acc"
  have a: "is_object ?a" "get ?a ''choices'' = Some (JArr slots')" "get ?a ''usage'' = get acc ''usage''" "get ?a ''timings'' = get acc ''timings''"
    using assms(1,2) by (cases acc; auto simp: is_object_def map_of_jmap_insert get_update_key split: option.splits)+
  have "merge_into acc v = merge_stream_stats v ?a"
  proof (cases "get_array v ''choices''")
    case None
    then have "slots' = slots" using s(1) by (simp add: chunk_choices_def)
    then show ?thesis using None assms(2) by (simp add: merge_into_def get_array_def update_key_self)
  next
    case (Some cs)
    then show ?thesis using assms(2) s(1) by (simp add: merge_into_def chunk_choices_def get_array_def)
  qed
  with merge_stats_object [OF a(1), of v] a s(2) show ?thesis by (auto split: option.splits)
qed

lemma merged_first: "chunk_ok v \<Longrightarrow> \<exists>a. merge_chunk None v = Some a \<and> merged [v] a"
proof -
  assume ok: "chunk_ok v"
  then obtain m where m: "v = JObj m" by (cases v) (auto simp: chunk_ok_def is_object_def)
  let ?e = "JObj (jmap_insert ''choices'' (JArr []) m)"
  have e: "merge_chunk None v = merge_into ?e v"
    by (auto simp: m merge_chunk_def get_array_def split: option.splits)
  have "slots_carry (\<lambda>_. []) []" by (simp add: slots_carry_def)
  from merge_into_step [OF _ _ this ok, of ?e] obtain b slots where "merge_into ?e v = Some b" "is_object b"
    "get b ''choices'' = Some (JArr slots)"
    "slots_carry (\<lambda>i. (if i < length (chunk_choices v) then [chunk_choices v ! i] else [])) slots"
    "get b ''usage'' = get v ''usage''" "get b ''timings'' = get v ''timings''"
    by (auto simp: is_object_def map_of_jmap_insert m split: option.splits)
  moreover have "choice_history i [v] = (if i < length (chunk_choices v) then [chunk_choices v ! i] else [])" for i
    using choice_history_snoc [of i "[]" v] by (simp add: choice_history_def List.map_filter_def)
  ultimately show ?thesis using e by (auto simp: merged_def split: option.splits)
qed

lemma merged_step: "merged vs a \<Longrightarrow> chunk_ok v \<Longrightarrow> \<exists>b. merge_chunk (Some a) v = Some b \<and> merged (vs @ [v]) b"
proof -
  assume m: "merged vs a" and ok: "chunk_ok v"
  then obtain slots where "is_object a" "get a ''choices'' = Some (JArr slots)" "slots_carry (\<lambda>i. choice_history i vs) slots"
    by (auto simp: merged_def)
  from merge_into_step [OF this ok] m show ?thesis
    by (auto simp: merged_def merge_chunk_def choice_history_snoc latest_snoc split: option.splits)
qed

lemma merged_all: "merged us a \<Longrightarrow> list_all chunk_ok vs \<Longrightarrow> \<exists>b. merge_all (Some a) vs = Some (Some b) \<and> merged (us @ vs) b"
proof (induction vs arbitrary: us a)
  case (Cons v vs)
  then obtain b where "merge_chunk (Some a) v = Some b" "merged (us @ [v]) b" using merged_step by fastforce
  with Cons show ?case by fastforce
qed simp

lemma merge_chunks_merged:
  assumes "chunks \<noteq> []" "list_all chunk_ok chunks"
  shows "\<exists>r. merge_all None chunks = Some (Some r) \<and> merged chunks r"
proof (cases chunks)
  case (Cons v vs)
  with assms(2) obtain a where "merge_chunk None v = Some a" "merged [v] a" using merged_first by fastforce
  moreover from this Cons assms(2) obtain b where "merge_all (Some a) vs = Some (Some b)" "merged chunks b"
    using merged_all [of "[v]" a vs] by auto
  ultimately show ?thesis using Cons by simp
qed (use assms in simp)

text \<open>Merging a recorded stream puts the deltas together. For every non-empty sequence of chunks of
  the streaming shape the merge does not panic, and in its result every choice position that occurs
  carries the concatenation of its content texts (null if there was none) and of its reasoning texts,
  its last role and finish reason and its merged tool calls; usage and timings are the latest sent.\<close>

theorem merge_concatenates_deltas:
  assumes "chunks \<noteq> []" "list_all chunk_ok chunks"
  shows "\<exists>r. merge_all None chunks = Some (Some r) \<and> merged chunks r"
  using assms by (rule merge_chunks_merged)

section \<open>Tool call fragments\<close>

definition slot_text :: "json \<Rightarrow> string" where
  "slot_text v = some_or (Option.bind (get v ''function'') (\<lambda>f. get_str f ''arguments'')) []"

definition text_at :: "json list \<Rightarrow> nat \<Rightarrow> string" where
  "text_at arr i = (if i < length arr then slot_text (arr ! i) else [])"

definition call_position :: "json \<Rightarrow> nat option" where
  "call_position c = map_option unat (Option.bind (get c ''index'') as_u64)"

definition call_ok :: "json \<Rightarrow> bool" where
  "call_ok v = (is_object v \<and> is_none_or is_object (get v ''function''))"

definition recorded :: "json list \<Rightarrow> bool" where
  "recorded arr = list_all (\<lambda>v. v = JNull \<or> call_ok v) arr"

lemma slot_text_merge:
  assumes "call_ok slot" "call_ok c"
  shows "\<exists>s. merge_tool_call_slot slot c = Some s \<and> call_ok s \<and> slot_text s = slot_text slot @ slot_text c"
proof (cases "get c ''function''")
  case None
  with assms show ?thesis by (simp add: merge_tool_call_slot_def slot_text_def)
next
  case (Some nf)
  obtain m where m: "slot = JObj m" using assms(1) by (cases slot) (auto simp: call_ok_def is_object_def)
  have nf: "is_object nf" using assms(2) Some by (simp add: call_ok_def)
  show ?thesis
  proof (cases "map_of m ''function''")
    case None
    with m Some nf show ?thesis
      by (simp add: merge_tool_call_slot_def slot_text_def call_ok_def is_object_def map_of_jmap_insert)
  next
    case (Some f)
    obtain af where af: "f = JObj af" using assms(1) m Some by (cases f) (auto simp: call_ok_def is_object_def)
    define f1 where "f1 = (case get_str nf ''name'' of Some name \<Rightarrow> if name \<noteq> [] then merge_name name af else af | None \<Rightarrow> af)"
    define f2 where "f2 = (case get_str nf ''arguments'' of Some args \<Rightarrow> push_entry ''arguments'' args f1 | None \<Rightarrow> f1)"
    have "map_of f1 ''arguments'' = map_of af ''arguments''"
      by (simp add: f1_def merge_name_def map_of_jmap_insert split: option.splits json.splits)
    then have "slot_text (JObj (jmap_insert ''function'' (JObj f2) m)) = slot_text slot @ slot_text c"
      using m af Some \<open>get c ''function'' = Some nf\<close>
      by (auto simp: f2_def slot_text_def map_of_jmap_insert map_of_push_entry get_str_def split: option.splits json.splits)
    moreover have "merge_tool_call_slot slot c = Some (JObj (jmap_insert ''function'' (JObj f2) m))"
      using m af Some \<open>get c ''function'' = Some nf\<close> by (simp add: merge_tool_call_slot_def f2_def f1_def Let_def cong: option.case_cong)
    ultimately show ?thesis by (simp add: call_ok_def is_object_def map_of_jmap_insert)
  qed
qed

lemma text_at_pad [simp]: "text_at (pad n arr) i = text_at arr i"
  by (auto simp: text_at_def pad_def nth_append slot_text_def)

lemma text_at_update: "i < length arr \<Longrightarrow> text_at (arr[i := v]) j = (if j = i then slot_text v else text_at arr j)"
  by (simp add: text_at_def)

lemma recorded_pad: "recorded arr \<Longrightarrow> recorded (pad n arr)"
  by (auto simp: recorded_def pad_def list_all_iff)

lemma recorded_update: "recorded arr \<Longrightarrow> call_ok v \<Longrightarrow> recorded (arr[i := v])"
  by (auto simp: recorded_def list_all_iff dest!: subsetD [OF set_update_subset_insert])

lemma merge_call_text:
  assumes "recorded arr" "call_ok c" "call_position c = Some i" "i \<le> MAX_TRACKED_BLOCK_INDEX"
  shows "\<exists>arr'. merge_call c arr = Some arr' \<and> recorded arr'
    \<and> (\<forall>j. text_at arr' j = text_at arr j @ (if j = i then slot_text c else []))"
proof -
  let ?arr = "pad (Suc i) arr"
  obtain idx where idx: "Option.bind (get c ''index'') as_u64 = Some idx" "unat idx = i"
    using assms(3) by (auto simp: call_position_def)
  have le: "\<not> idx > of_nat MAX_TRACKED_BLOCK_INDEX"
    using assms(4) idx(2) by (simp add: MAX_TRACKED_BLOCK_INDEX_def word_less_nat_alt)
  have r: "recorded ?arr" and i: "i < length ?arr" using recorded_pad assms(1) by (auto simp: less_max_iff_disj)
  have "\<exists>v. merge_call c arr = Some (?arr[i := v]) \<and> call_ok v \<and> slot_text v = text_at ?arr i @ slot_text c"
  proof (cases "?arr ! i = JNull")
    case True
    then have "text_at ?arr i = []" using i by (simp add: text_at_def slot_text_def del: text_at_pad)
    with True idx le assms(2) show ?thesis
      by (intro exI [of _ c]) (simp add: merge_call_def Let_def del: text_at_pad)
  next
    case False
    then have "call_ok (?arr ! i)" using r i by (auto simp: recorded_def list_all_length)
    from slot_text_merge [OF this assms(2)] False idx le i show ?thesis
      by (auto simp: merge_call_def Let_def text_at_def simp del: text_at_pad)
  qed
  then obtain v where "merge_call c arr = Some (?arr[i := v])" "call_ok v" "slot_text v = text_at arr i @ slot_text c" by auto
  with recorded_update [OF r] i show ?thesis by (auto simp: text_at_update)
qed

text \<open>Fragments of parallel tool calls are never mixed. Merging any interleaving of indexed fragments
  appends to each slot exactly the argument texts sent for its index, in their order.\<close>

theorem tool_fragments_by_index:
  assumes "recorded arr" "list_all (\<lambda>c. call_ok c \<and> (\<exists>i. call_position c = Some i \<and> i \<le> MAX_TRACKED_BLOCK_INDEX)) cs"
  shows "\<exists>arr'. merge_calls cs arr = Some arr' \<and> recorded arr'
    \<and> (\<forall>j. text_at arr' j = text_at arr j @ concat (map slot_text (filter (\<lambda>c. call_position c = Some j) cs)))"
  using assms
proof (induction cs arbitrary: arr)
  case (Cons c cs)
  then obtain i where i: "call_position c = Some i" "i \<le> MAX_TRACKED_BLOCK_INDEX" "call_ok c" by auto
  from merge_call_text [OF Cons.prems(1) i(3,1,2)] obtain a where a: "merge_call c arr = Some a" "recorded a"
    "\<forall>j. text_at a j = text_at arr j @ (if j = i then slot_text c else [])" by blast
  from Cons.IH [OF a(2)] Cons.prems(2) obtain b where b: "merge_calls cs a = Some b" "recorded b"
    "\<forall>j. text_at b j = text_at a j @ concat (map slot_text (filter (\<lambda>c. call_position c = Some j) cs))" by auto
  with a i show ?case by simp
qed simp

text \<open>The merge of a recorded stream can panic. A stream of OpenAI chunks whose first event carries a
  JSON value that is neither an object nor null panics at the write of the missing choices array.\<close>

theorem merge_panics_on_scalar_event:
  assumes "detect_format env data = OpenAI" "parse_sse_events env data = e # es"
    and "\<not> is_object (event_data e)" "event_data e \<noteq> JNull"
  shows "parse_accumulated_sse env data = None"
  using assms by (cases "event_data e") (auto simp: parse_accumulated_sse_def merge_chunk_def get_array_def is_object_def)

section \<open>Witnesses\<close>

definition sample_chunk :: "string \<Rightarrow> json" where
  "sample_chunk t = JObj [(''choices'', JArr [JObj [(''index'', JNum (PosInt 0)), (''delta'', JObj [(''content'', JStr t)]),
     (''finish_reason'', JNull)]])]"

theorem merge_concatenates_deltas_witness:
  "\<exists>r. merge_all None [sample_chunk ''a'', sample_chunk ''b''] = Some (Some r)
     \<and> merged [sample_chunk ''a'', sample_chunk ''b''] r"
  by (rule merge_concatenates_deltas)
    (simp_all add: sample_chunk_def chunk_ok_def chunk_choices_def get_array_def choice_ok_def delta_ok_def is_object_def
      keys_distinct_def)

definition sample_fragment :: "u64 \<Rightarrow> string \<Rightarrow> json" where
  "sample_fragment i t = JObj [(''index'', JNum (PosInt i)), (''function'', JObj [(''arguments'', JStr t)])]"

theorem tool_fragments_by_index_witness:
  "\<exists>arr. merge_calls [sample_fragment 1 ''x'', sample_fragment 0 ''a'', sample_fragment 1 ''y''] [] = Some arr
     \<and> text_at arr 0 = ''a'' \<and> text_at arr 1 = ''xy''"
proof -
  have r: "recorded []" by (simp add: recorded_def)
  have c: "list_all (\<lambda>c. call_ok c \<and> (\<exists>i. call_position c = Some i \<and> i \<le> MAX_TRACKED_BLOCK_INDEX))
      [sample_fragment 1 ''x'', sample_fragment 0 ''a'', sample_fragment 1 ''y'']"
    by (simp add: sample_fragment_def call_ok_def is_object_def call_position_def MAX_TRACKED_BLOCK_INDEX_def)
  from tool_fragments_by_index [OF r c] obtain arr
    where a: "merge_calls [sample_fragment 1 ''x'', sample_fragment 0 ''a'', sample_fragment 1 ''y''] [] = Some arr"
      "\<forall>j. text_at arr j = text_at [] j @ concat (map slot_text (filter (\<lambda>c. call_position c = Some j)
            [sample_fragment 1 ''x'', sample_fragment 0 ''a'', sample_fragment 1 ''y'']))" by blast
  have nil: "text_at [] j = []" for j by (simp add: text_at_def)
  have "text_at arr 0 = ''a''" "text_at arr 1 = ''xy''"
    unfolding a(2) [rule_format] nil
    by (simp_all add: sample_fragment_def call_position_def slot_text_def get_str_def)
  with a(1) show ?thesis by blast
qed

definition sample_parser :: serde_env where
  "sample_parser = \<lparr>parse_value = (\<lambda>s. if s = ''5'' then Some (JNum (PosInt 5))
       else if s = ''{}'' then Some (JObj [(''choices'', JArr [])]) else None),
     print_value = (\<lambda>v. Ok []), display_value = (\<lambda>v. []), decode_string = (\<lambda>s. None), entry_stream = (\<lambda>s. None)\<rparr>"

theorem merge_panics_on_scalar_event_witness:
  "parse_accumulated_sse sample_parser (''data: 5'' @ [NEWLINE] @ ''data: {}'' @ [NEWLINE]) = None"
  by (rule merge_panics_on_scalar_event [where e = "\<lparr>event_type = None, event_data = JNum (PosInt 5)\<rparr>"
        and es = "[\<lparr>event_type = None, event_data = JObj [(''choices'', JArr [])]\<rparr>]"])
    (simp_all add: detect_format_def parse_sse_events_def text_lines_def strip_cr_def strip_suffix_def ends_with_def
      line_format_def payload_format_def strip_field_def strip_prefix_def starts_with_def sample_parser_def
      trim_def is_cont_def is_whitespace_def is_object_def get_str_def some_or_def)

end
