(* ===== verification/Synthesis_Correct.thy ===== *)
theory Synthesis_Correct
  imports Synthesis Sse_Merge_Correct
begin

text \<open>
  Synthesised streams against the merge of recorded streams: splitting loses nothing, and merging the
  events synthesised from a completion gives back what the completion said, in both wire formats.
\<close>

section \<open>Splitting\<close>

lemma cut_of_le: "cut_of n rest \<le> length rest"
  and cut_of_size: "cut_of n rest \<le> max n 1"
proof -
  have lp: "last_position P xs = Some i \<Longrightarrow> i < length xs" for P and xs :: "string list" and i
    by (induction xs arbitrary: i) (auto split: option.splits if_splits)
  show "cut_of n rest \<le> length rest" "cut_of n rest \<le> max n 1"
    by (auto simp: cut_of_def Let_def not_less split: option.splits dest!: lp)
qed

lemma split_loop_concat: "concat (split_loop n rest) = concat rest"
proof (induction n rest rule: split_loop.induct)
  case (1 n rest)
  show ?case
  proof (cases "rest = []")
    case False
    with 1 have "concat (split_loop n rest) = concat (take (cut_of n rest) rest) @ concat (drop (cut_of n rest) rest)"
      by (simp add: split_loop.simps [of n rest])
    then show ?thesis by (metis append_take_drop_id concat_append)
  qed (simp add: split_loop.simps)
qed

lemma split_chars_concat: "concat (split_chars s n) = s"
  by (simp add: split_chars_def split_loop_concat)

text \<open>A run of whole characters splits back into exactly those characters.\<close>

lemma chars_concat_drop: "chars (concat (drop k (chars s))) = drop k (chars s)"
proof (induction k arbitrary: s)
  case (Suc k)
  show ?case
  proof (cases s)
    case (Cons b bs)
    then show ?thesis using Suc [of "dropWhile is_cont bs"] by simp
  qed simp
qed simp

lemma chars_concat_segment: "chars (concat (take j (drop k (chars s)))) = take j (drop k (chars s))"
  using chars_take [of j "concat (drop k (chars s))"] by (simp add: chars_concat_drop)

lemma split_loop_pieces:
  "p \<in> set (split_loop n rest) \<Longrightarrow> rest = drop k (chars s) \<Longrightarrow> p \<noteq> [] \<and> char_count p \<le> max n 1"
proof (induction n rest arbitrary: k rule: split_loop.induct)
  case (1 n rest)
  let ?c = "cut_of n rest"
  have ne: "rest \<noteq> []" using 1(2) by (auto simp: split_loop.simps [of n rest] split: if_splits)
  with 1(2) consider "p = concat (take ?c rest)" | "p \<in> set (split_loop n (drop ?c rest))"
    by (auto simp: split_loop.simps [of n rest])
  then show ?case
  proof cases
    case 1
    with \<open>rest = drop k (chars s)\<close> have "chars p = take ?c rest" using chars_concat_segment by simp
    moreover have "take ?c rest \<noteq> []" using ne cut_of_pos [OF ne] by simp
    ultimately show ?thesis using cut_of_size [of n rest] by (auto simp: char_count_def)
  next
    case 2
    from "1.IH" [OF ne 2, of "?c + k"] \<open>rest = drop k (chars s)\<close> show ?thesis by simp
  qed
qed

lemma split_chars_pieces:
  assumes "s \<noteq> []" "p \<in> set (split_chars s n)"
  shows "p \<noteq> [] \<and> char_count p \<le> max n 1"
proof (cases "char_count s \<le> n")
  case True
  with assms show ?thesis by (simp add: split_chars_def)
next
  case False
  with assms show ?thesis using split_loop_pieces [of p n "chars s" 0 s] by (simp add: split_chars_def)
qed

text \<open>Splitting a text for streaming loses nothing and respects the budget: the pieces put together
  are the text, and for a non-empty text no piece is empty or longer than the configured number of
  characters (one, if that is zero).\<close>

theorem split_chars_exact:
  "concat (split_chars s n) = s
   \<and> (s = [] \<or> list_all (\<lambda>p. p \<noteq> [] \<and> char_count p \<le> max n 1) (split_chars s n))"
  using split_chars_concat [of s n] split_chars_pieces [of s _ n] by (auto simp: list_all_iff)

section \<open>Envelopes\<close>

lemma put_all_other: "k \<notin> fst ` set es \<Longrightarrow> map_of (put_all es m) k = map_of m k"
  by (induction es arbitrary: m) (auto simp: put_all_def map_of_jmap_insert)

definition meta_ok :: "stream_meta \<Rightarrow> bool" where
  "meta_ok meta = (fst ` set (sm_extras meta) \<inter> set KNOWN_FIELDS = {})"

lemma parse_meta_ok: "parse_raw_completion now raw = Inr p \<Longrightarrow> meta_ok (raw_meta p)"
  by (auto simp: parse_raw_completion_def meta_ok_def split: option.splits if_splits sum.splits)

definition delta_choice :: "u64 \<Rightarrow> string \<times> json \<Rightarrow> json" where
  "delta_choice idx p = JObj [(''index'', JNum (PosInt idx)), (''delta'', JObj [p]), (''finish_reason'', JNull)]"

definition finish_choice :: "u64 \<Rightarrow> string \<Rightarrow> json" where
  "finish_choice idx f = JObj [(''index'', JNum (PosInt idx)), (''delta'', JObj []), (''finish_reason'', JStr f)]"

lemma envelope_fields:
  assumes "meta_ok meta"
  shows "e \<noteq> FINISH_EVENT \<Longrightarrow> map_of (sse_envelope meta e d idx) ''choices'' = Some (JArr [delta_choice idx (e, d)])"
    and "map_of (sse_envelope meta FINISH_EVENT (JStr f) idx) ''choices'' = Some (JArr [finish_choice idx f])"
    and "map_of (sse_envelope meta e d idx) ''usage'' = None" "map_of (sse_envelope meta e d idx) ''timings'' = None"
proof -
  have "k \<in> set KNOWN_FIELDS \<Longrightarrow> k \<notin> fst ` set (sm_extras meta)" for k using assms by (auto simp: meta_ok_def)
  then have x: "map_of (put_all (sm_extras meta) m) k = map_of m k" if "k \<in> set KNOWN_FIELDS" for m k
    using that put_all_other by blast
  show "e \<noteq> FINISH_EVENT \<Longrightarrow> map_of (sse_envelope meta e d idx) ''choices'' = Some (JArr [delta_choice idx (e, d)])"
    "map_of (sse_envelope meta FINISH_EVENT (JStr f) idx) ''choices'' = Some (JArr [finish_choice idx f])"
    "map_of (sse_envelope meta e d idx) ''usage'' = None" "map_of (sse_envelope meta e d idx) ''timings'' = None"
    by (auto simp: sse_envelope_def x KNOWN_FIELDS_def delta_choice_def finish_choice_def)
qed

section \<open>The OpenAI round trip\<close>

text \<open>The deltas of one choice, in their order.\<close>

definition text_pieces :: "(string \<times> json) list \<Rightarrow> nat \<Rightarrow> (string \<times> json) list" where
  "text_pieces message n =
     option_list (\<lambda>r. (''role'', JStr r)) (str_at message ''role'')
     @ option_list (\<lambda>r. (''reasoning_text'', JStr r)) (str_at message ''reasoning_text'')
     @ option_list (\<lambda>r. (''reasoning_opaque'', JStr r)) (str_at message ''reasoning_opaque'')
     @ (case str_at message ''content'' of
          Some t \<Rightarrow> if t \<noteq> [] then map (\<lambda>p. (''content'', JStr p)) (split_chars t n) else [] | None \<Rightarrow> [])"

definition pieces :: "(string \<times> json) list \<Rightarrow> nat \<Rightarrow> (string \<times> json) list" where
  "pieces message n = text_pieces message n
     @ (case arr_at message ''tool_calls'' of Some (t # ts) \<Rightarrow> [(''tool_calls'', JArr (t # ts))] | _ \<Rightarrow> [])"

definition plain_content :: "(string \<times> json) list \<Rightarrow> bool" where
  "plain_content message = is_none_or (\<lambda>v. v = JNull \<or> is_string v) (map_of message ''content'')"

fun payloads :: "sse_out list \<Rightarrow> json list" where
  "payloads [] = []"
| "payloads (Data e v # es) = v # payloads es"
| "payloads (Done # es) = payloads es"

lemma payloads_append [simp]: "payloads (xs @ ys) = payloads xs @ payloads ys"
  by (induction xs rule: payloads.induct) auto

lemma payloads_envelopes [simp]:
  "payloads (map (\<lambda>(e, d). envelope_event meta idx e d) ps) = map (\<lambda>(e, d). JObj (sse_envelope meta e d idx)) ps"
  by (induction ps) (auto simp: envelope_event_def create_sse_event_def)

definition final_chunk :: "stream_meta \<Rightarrow> u64 \<Rightarrow> string \<Rightarrow> json option \<Rightarrow> json option \<Rightarrow> json" where
  "final_chunk meta idx f usage timings = JObj
     (let e = sse_envelope meta FINISH_EVENT (JStr f) idx;
          e1 = (case usage of Some u \<Rightarrow> jmap_insert ''usage'' u e | None \<Rightarrow> e) in
      case timings of Some t \<Rightarrow> jmap_insert ''timings'' t e1 | None \<Rightarrow> e1)"

lemma choice_chunks_pieces:
  assumes "get choice ''message'' = Some (JObj message)" "plain_content message"
  shows "payloads (synthesize_choice_chunks meta choice idx usage timings n) =
    map (\<lambda>(e, d). JObj (sse_envelope meta e d idx)) (pieces message n)
    @ [final_chunk meta idx (choice_finish choice message) usage timings]"
proof -
  let ?env = "\<lambda>p. envelope_event meta idx (fst p) (snd p)"
  have "content_events meta idx n (map_of message ''content'') =
      map ?env (case str_at message ''content'' of
        Some t \<Rightarrow> if t \<noteq> [] then map (\<lambda>p. (''content'', JStr p)) (split_chars t n) else [] | None \<Rightarrow> [])"
    using assms(2)
    by (auto simp: content_events_def plain_content_def str_at_def is_string_def split: option.splits json.splits)
  then have "synthesize_choice_chunks meta choice idx usage timings n =
      map ?env (pieces message n) @ [create_sse_event (final_chunk meta idx (choice_finish choice message) usage timings)]"
    using assms(1)
    by (auto simp: synthesize_choice_chunks_def pieces_def text_pieces_def option_list_def final_chunk_def split: option.splits list.splits)
  then show ?thesis by (simp add: create_sse_event_def split_beta' payloads_envelopes [unfolded split_beta'])
qed

lemma history_pieces:
  assumes "meta_ok meta" "\<forall>p \<in> set ps. fst p \<noteq> FINISH_EVENT"
  shows "choice_history 0 (map (\<lambda>(e, d). JObj (sse_envelope meta e d idx)) ps @ [final_chunk meta idx f u t])
    = map (delta_choice idx) ps @ [finish_choice idx f]"
proof -
  have c: "chunk_choices (JObj (sse_envelope meta e d idx)) = [delta_choice idx (e, d)]" if "e \<noteq> FINISH_EVENT" for e d
    using envelope_fields(1) [OF assms(1) that] by (simp add: chunk_choices_def get_array_def)
  have f: "chunk_choices (final_chunk meta idx f u t) = [finish_choice idx f]"
    using envelope_fields(2) [OF assms(1)]
    by (simp add: chunk_choices_def get_array_def final_chunk_def Let_def map_of_jmap_insert split: option.splits)
  have "choice_history 0 (map (\<lambda>(e, d). JObj (sse_envelope meta e d idx)) ps) = map (delta_choice idx) ps"
    using assms(2) c by (induction ps) (auto simp: choice_history_def List.map_filter_def)
  then show ?thesis using f by (simp add: choice_history_snoc)
qed

lemma delta_texts_pieces: "delta_texts k (map (delta_choice idx) ps @ [finish_choice idx f])
    = List.map_filter (\<lambda>p. if fst p = k then as_str (snd p) else None) ps"
proof -
  have "Option.bind (get (delta_choice idx p) ''delta'') (\<lambda>d. get_str d k) = (if fst p = k then as_str (snd p) else None)" for p
    by (cases p) (simp add: delta_choice_def get_str_def)
  then show ?thesis
    by (simp add: delta_texts_snoc) (simp add: delta_texts_def List.map_filter_def finish_choice_def get_str_def filter_map comp_def)
qed

lemma finish_pieces: "finish_reasons (map (delta_choice idx) ps @ [finish_choice idx f]) = [JStr f]"
  by (simp add: finish_reasons_snoc finish_choice_def)
    (simp add: finish_reasons_def List.map_filter_def delta_choice_def filter_map comp_def)

lemma text_pieces_keys: "p \<in> set (text_pieces message n) \<Longrightarrow>
    (\<exists>s. snd p = JStr s) \<and> fst p \<in> {''role'', ''reasoning_text'', ''reasoning_opaque'', ''content''}"
  by (auto simp: text_pieces_def option_list_def split: option.splits if_splits)

lemma calls_pieces:
  "\<forall>p \<in> set ps. fst p \<noteq> ''tool_calls'' \<Longrightarrow> merged_calls (map (delta_choice idx) ps) = Some JNull"
proof (induction ps rule: rev_induct)
  case (snoc p ps)
  then show ?case by (cases p) (auto simp: merged_calls_snoc delta_choice_def)
qed (simp add: merged_calls_def)

definition last_calls :: "(string \<times> json) list \<Rightarrow> json" where
  "last_calls message = (case arr_at message ''tool_calls'' of Some (t # ts) \<Rightarrow> JArr (t # ts) | _ \<Rightarrow> JNull)"

lemma pieces_calls: "merged_calls (map (delta_choice idx) (pieces message n) @ [finish_choice idx f]) = Some (last_calls message)"
proof -
  have t: "merged_calls (map (delta_choice idx) (text_pieces message n)) = Some JNull"
    using text_pieces_keys by (intro calls_pieces) fastforce
  show ?thesis
  proof (cases "\<exists>t ts. arr_at message ''tool_calls'' = Some (t # ts)")
    case True
    then obtain t ts where c: "arr_at message ''tool_calls'' = Some (t # ts)" by blast
    then have "map (delta_choice idx) (pieces message n) =
        map (delta_choice idx) (text_pieces message n) @ [delta_choice idx (''tool_calls'', JArr (t # ts))]" by (simp add: pieces_def)
    with t c show ?thesis
      unfolding merged_calls_snoc by (simp add: merged_calls_snoc finish_choice_def delta_choice_def merge_tool_calls_def last_calls_def)
  next
    case False
    then have "pieces message n = text_pieces message n" "last_calls message = JNull"
      by (auto simp: pieces_def last_calls_def split: option.splits list.splits)
    with t show ?thesis by (simp add: merged_calls_snoc finish_choice_def)
  qed
qed

lemma map_filter_append: "List.map_filter f (xs @ ys) = List.map_filter f xs @ List.map_filter f ys"
  by (simp add: List.map_filter_def)

definition piece_history :: "u64 \<Rightarrow> (string \<times> json) list \<Rightarrow> nat \<Rightarrow> string \<Rightarrow> json list" where
  "piece_history idx message n f = map (delta_choice idx) (pieces message n) @ [finish_choice idx f]"

lemma pieces_texts:
  "delta_texts ''content'' (piece_history idx message n f)
     = (case str_at message ''content'' of Some t \<Rightarrow> if t \<noteq> [] then split_chars t n else [] | None \<Rightarrow> [])"
  "delta_texts ''reasoning_text'' (piece_history idx message n f) = option_list id (str_at message ''reasoning_text'')"
  "delta_texts ''role'' (piece_history idx message n f) = option_list id (str_at message ''role'')"
  unfolding piece_history_def delta_texts_pieces
  by (auto simp: pieces_def text_pieces_def option_list_def map_filter_append List.map_filter_def comp_def filter_map
      split: option.splits list.splits)

text \<open>What the merged message says of the original one.\<close>

definition same_message :: "(string \<times> json) list \<Rightarrow> (string \<times> json) list \<Rightarrow> bool" where
  "same_message message m = (
     map_of m ''content'' = Some (case str_at message ''content'' of Some t \<Rightarrow> if t \<noteq> [] then JStr t else JNull | None \<Rightarrow> JNull)
     \<and> map_of m ''reasoning_text'' = map_option JStr (str_at message ''reasoning_text'')
     \<and> map_of m ''role'' = Some (JStr (some_or (str_at message ''role'') ''assistant''))
     \<and> map_of m ''tool_calls'' = Some (last_calls message))"

lemma split_chars_not_Nil: "t \<noteq> [] \<Longrightarrow> split_chars t n \<noteq> []"
  using split_chars_concat [of t n] by auto

lemma carries_pieces:
  assumes "carries (piece_history idx message n f) c"
  shows "\<exists>m. get c ''message'' = Some (JObj m) \<and> same_message message m \<and> get c ''finish_reason'' = Some (JStr f)"
proof -
  let ?H = "piece_history idx message n f"
  from assms obtain m where m: "get c ''message'' = Some (JObj m)" "msg_texts ?H m" "map_of m ''tool_calls'' = merged_calls ?H"
    by (auto simp: carries_def msg_carries_def)
  have "same_message message m"
    using m(2,3) split_chars_not_Nil split_chars_concat
    by (auto simp: same_message_def msg_texts_def pieces_texts pieces_calls [folded piece_history_def] text_value_def
        option_list_def split: option.splits)
  moreover have "get c ''finish_reason'' = Some (JStr f)"
    using assms by (simp add: carries_def finish_pieces [of idx "pieces message n" f, folded piece_history_def])
  ultimately show ?thesis using m(1) by blast
qed

lemma wf_delta_choice: "wf_json v \<Longrightarrow> wf_json (delta_choice idx (k, v))"
  by (simp add: delta_choice_def keys_distinct_def)

lemma pieces_ok:
  assumes "wf_json (JObj message)" "is_none_or (list_all is_object) (arr_at message ''tool_calls'')" "p \<in> set (pieces message n)"
  shows "choice_ok (delta_choice idx p)" "fst p \<noteq> FINISH_EVENT"
proof -
  have calls: "p = (''tool_calls'', JArr ts) \<Longrightarrow> arr_at message ''tool_calls'' = Some ts \<Longrightarrow> choice_ok (delta_choice idx p)" for ts
  proof -
    assume p: "p = (''tool_calls'', JArr ts)" and a: "arr_at message ''tool_calls'' = Some ts"
    then have "map_of message ''tool_calls'' = Some (JArr ts)" by (auto simp: arr_at_def bind_eq_Some_conv elim: as_array.elims)
    then have "wf_json (JArr ts)" using wf_json_get [OF assms(1), of "''tool_calls''" "JArr ts"] by simp
    with p a assms(2) wf_delta_choice [of "JArr ts"] show ?thesis
      by (simp add: choice_ok_def delta_choice_def delta_ok_def is_object_def)
  qed
  from assms(3) consider "p \<in> set (text_pieces message n)" | ts where "p = (''tool_calls'', JArr ts)" "arr_at message ''tool_calls'' = Some ts"
    by (auto simp: pieces_def split: option.splits list.splits)
  then show "choice_ok (delta_choice idx p)" "fst p \<noteq> FINISH_EVENT"
  proof (atomize (full), cases)
    case 1
    obtain k v where kv: "p = (k, v)" by force
    with text_pieces_keys [OF 1] obtain t where "p = (k, JStr t)" "k \<noteq> ''tool_calls''" "k \<noteq> FINISH_EVENT"
      by (auto simp: FINISH_EVENT_def)
    then show "choice_ok (delta_choice idx p) \<and> fst p \<noteq> FINISH_EVENT"
      using wf_delta_choice [of "JStr t" idx k] by (simp add: choice_ok_def delta_choice_def delta_ok_def is_object_def)
  qed (use calls in \<open>simp add: FINISH_EVENT_def\<close>)
qed

lemma envelopes_ok:
  assumes "meta_ok meta" "wf_json (JObj message)" "is_none_or (list_all is_object) (arr_at message ''tool_calls'')"
  shows "list_all chunk_ok (map (\<lambda>(e, d). JObj (sse_envelope meta e d idx)) (pieces message n) @ [final_chunk meta idx f u t])"
proof -
  have "chunk_ok (JObj (sse_envelope meta (fst p) (snd p) idx))" if "p \<in> set (pieces message n)" for p
    using pieces_ok [OF assms(2,3) that] envelope_fields(1) [OF assms(1), of "fst p" "snd p" idx]
    by (simp add: chunk_ok_def chunk_choices_def get_array_def is_object_def)
  moreover have "chunk_ok (final_chunk meta idx f u t)"
    using envelope_fields(2) [OF assms(1)]
    by (simp add: chunk_ok_def chunk_choices_def get_array_def is_object_def final_chunk_def Let_def map_of_jmap_insert
        choice_ok_def finish_choice_def delta_ok_def keys_distinct_def split: option.splits)
  ultimately show ?thesis by (auto simp: list_all_iff)
qed

lemma latest_envelopes:
  assumes "meta_ok meta"
  shows "latest ''usage'' (map (\<lambda>(e, d). JObj (sse_envelope meta e d idx)) ps @ [final_chunk meta idx f u t]) = u"
    and "latest ''timings'' (map (\<lambda>(e, d). JObj (sse_envelope meta e d idx)) ps @ [final_chunk meta idx f u t]) = t"
proof -
  note env = envelope_fields(3,4) [OF assms]
  have "latest k (map (\<lambda>(e, d). JObj (sse_envelope meta e d idx)) ps) = None" if "k = ''usage'' \<or> k = ''timings''" for k
    using that env by (induction ps) auto
  then show "latest ''usage'' (map (\<lambda>(e, d). JObj (sse_envelope meta e d idx)) ps @ [final_chunk meta idx f u t]) = u"
    "latest ''timings'' (map (\<lambda>(e, d). JObj (sse_envelope meta e d idx)) ps @ [final_chunk meta idx f u t]) = t"
    using env by (simp_all add: latest_snoc final_chunk_def Let_def map_of_jmap_insert split: option.splits)
qed

lemma openai_chunks_merge:
  assumes "wf_json raw" "parse_raw_completion now raw = Ok p" "raw_choices p = [choice]"
    and "get choice ''message'' = Some (JObj message)" "plain_content message"
    and "is_none_or (list_all is_object) (arr_at message ''tool_calls'')"
  shows "\<exists>r c cs m. merge_all None (payloads (synthesize_openai_chunks p n)) = Some (Some r)
    \<and> get_array r ''choices'' = Some (c # cs) \<and> get c ''message'' = Some (JObj m) \<and> same_message message m
    \<and> get c ''finish_reason'' = Some (JStr (choice_finish choice message))
    \<and> get r ''usage'' = raw_usage p \<and> get r ''timings'' = raw_timings p"
proof -
  let ?meta = "raw_meta p" and ?f = "choice_finish choice message"
  let ?idx = "some_or (Option.bind (get choice ''index'') as_u64) 0"
  let ?vs = "map (\<lambda>(e, d). JObj (sse_envelope ?meta e d ?idx)) (pieces message n) @ [final_chunk ?meta ?idx ?f (raw_usage p) (raw_timings p)]"
  have meta: "meta_ok ?meta" using assms(2) by (rule parse_meta_ok)
  have "get raw ''choices'' = Some (JArr [choice])"
    using assms(2,3) by (cases raw)
      (auto simp: parse_raw_completion_def bind_eq_Some_conv split: option.splits if_splits sum.splits elim!: as_array.elims)
  then have wf: "wf_json (JObj message)" using wf_json_get [OF assms(1)] wf_json_get [OF _ assms(4)] by fastforce
  have vs: "payloads (synthesize_openai_chunks p n) = ?vs"
    using choice_chunks_pieces [OF assms(4,5)] assms(3) by (simp add: synthesize_openai_chunks_def)
  obtain r where r: "merge_all None ?vs = Some (Some r)" "merged ?vs r"
    using merge_chunks_merged [OF _ envelopes_ok [OF meta wf assms(6)]] by blast
  from r(2) obtain slots where s: "get r ''choices'' = Some (JArr slots)" "slots_carry (\<lambda>i. choice_history i ?vs) slots"
    and ut: "get r ''usage'' = raw_usage p" "get r ''timings'' = raw_timings p"
    using latest_envelopes [OF meta] by (auto simp: merged_def)
  have h: "choice_history 0 ?vs = piece_history ?idx message n ?f"
    unfolding piece_history_def using history_pieces [OF meta] pieces_ok(2) [OF wf assms(6)] by blast
  then have "slots \<noteq> []" using s(2) by (auto simp: slots_carry_def piece_history_def)
  then obtain c cs where c: "slots = c # cs" by (cases slots) auto
  then have "carries (piece_history ?idx message n ?f) c" using s(2) h by (auto simp: slots_carry_def dest!: spec [of _ 0])
  from carries_pieces [OF this] show ?thesis using vs r(1) s(1) c ut by (auto simp: get_array_def)
qed

text \<open>C17. The OpenAI stream made from a complete response says what the response said. For a completion
  with one choice, merging the synthesised chunks does not panic and gives back the role, the whole
  content and reasoning text, the tool calls unchanged, the finish reason (derived where it was
  missing), the usage and the timings, whatever the chunk size.\<close>

theorem openai_stream_round_trip:
  assumes "wf_json raw" "parse_raw_completion now raw = Ok p" "raw_choices p = [choice]"
    and "get choice ''message'' = Some (JObj message)" "plain_content message"
    and "is_none_or (list_all is_object) (arr_at message ''tool_calls'')"
  shows "\<exists>r c cs m. merge_all None (payloads (synthesize_openai_chunks p n)) = Some (Some r)
    \<and> get_array r ''choices'' = Some (c # cs) \<and> get c ''message'' = Some (JObj m) \<and> same_message message m
    \<and> get c ''finish_reason'' = Some (JStr (choice_finish choice message))
    \<and> get r ''usage'' = raw_usage p \<and> get r ''timings'' = raw_timings p"
  using assms by (rule openai_chunks_merge)

end
