(* ===== verification/Claude_Stream.thy ===== *)
theory Claude_Stream
  imports Synthesis_Correct
begin

text \<open>
  The Anthropic frames synthesised from an OpenAI completion against the merge of Anthropic events:
  each block's frames rebuild exactly one content block, at the index the frames carry.
\<close>

section \<open>Frames as events\<close>

fun as_event :: "frame \<Rightarrow> sse_event" where
  "as_event (t, d) = \<lparr>event_type = Some t, event_data = d\<rparr>"

lemma merge_anthropic_append:
  "merge_anthropic_from (es @ fs) m = Option.bind (merge_anthropic_from es m) (merge_anthropic_from fs)"
  by (induction es arbitrary: m) (auto split: bind_splits)

lemma update_key_at: "get v k = Some x \<Longrightarrow> update_key k f v = update_key k (\<lambda>_. f x) v"
  by (cases v) (auto split: option.splits)

lemma block_index_usize: "idx \<le> MAX_TRACKED_BLOCK_INDEX \<Longrightarrow> get d ''index'' = Some (usize_value idx) \<Longrightarrow> block_index d = idx"
  by (simp add: block_index_def usize_value_def MAX_TRACKED_BLOCK_INDEX_def take_bit_nat_eq_self unat_of_nat unsigned_of_nat)

text \<open>Appending one block to a message's content.\<close>

definition with_content :: "json list \<Rightarrow> json \<Rightarrow> json" where
  "with_content arr = update_key ''content'' (\<lambda>_. JArr arr)"

lemma with_content_get: "get msg ''content'' = Some x \<Longrightarrow> get (with_content arr msg) ''content'' = Some (JArr arr)"
  by (simp add: with_content_def get_update_key)

lemma with_content_twice [simp]: "with_content a (with_content b msg) = with_content a msg"
  by (simp add: with_content_def update_key_collapse)

lemma in_content_at: "get msg ''content'' = Some (JArr arr) \<Longrightarrow> in_content f msg = with_content (f arr) msg"
  unfolding in_content_def with_content_def by (subst update_key_at) auto

lemma merge_start:
  assumes "get msg ''content'' = Some (JArr arr)" "length arr \<le> MAX_TRACKED_BLOCK_INDEX"
  shows "merge_anthropic_event (as_event (''content_block_start'', raw_block_start_event (length arr) b)) msg
    = Some (with_content (arr @ [b]) msg)"
proof -
  have "(pad (Suc (length arr)) arr)[length arr := b] = arr @ [b]" by (simp add: pad_def)
  then show ?thesis
    using assms block_index_usize [OF assms(2), of "raw_block_start_event (length arr) b"]
    by (simp add: merge_anthropic_event_def raw_block_start_event_def in_content_at)
qed

lemma merge_stop: "merge_anthropic_event (as_event (''content_block_stop'', build_content_block_stop_event i)) msg = Some msg"
  by (simp add: merge_anthropic_event_def)

definition delta_field :: "string \<Rightarrow> string \<Rightarrow> bool" where
  "delta_field key field = ((key, field) \<in> {(''text'', ''text''), (''thinking'', ''thinking''), (''partial_json'', ''input'')})"

lemma merge_delta_frame:
  assumes "get msg ''content'' = Some (JArr (arr @ [JObj m]))" "length arr \<le> MAX_TRACKED_BLOCK_INDEX" "delta_field key field"
  shows "merge_anthropic_event (as_event (''content_block_delta'', block_delta_event (length arr) ty key s)) msg
    = Some (with_content (arr @ [JObj (push_entry field s m)]) msg)"
proof -
  let ?d = "JObj [(''type'', JStr ty), (key, JStr s)]"
  have "merge_block_delta (length arr) ?d (arr @ [JObj m]) = arr @ [JObj (push_entry field s m)]"
    using assms(3)
    by (auto simp: merge_block_delta_def pad_def push_delta_def get_str_def delta_field_def)
  then show ?thesis
    using assms block_index_usize [OF assms(2), of "block_delta_event (length arr) ty key s"]
    by (simp add: merge_anthropic_event_def block_delta_event_def in_content_at)
qed

lemma merge_delta_frames:
  assumes "get msg ''content'' = Some (JArr (arr @ [JObj m]))" "length arr \<le> MAX_TRACKED_BLOCK_INDEX" "delta_field key field"
  shows "merge_anthropic_from (map (\<lambda>s. as_event (''content_block_delta'', block_delta_event (length arr) ty key s)) parts) msg
    = Some (with_content (arr @ [JObj (fold (push_entry field) parts m)]) msg)"
  using assms(1)
proof (induction parts arbitrary: msg m)
  case Nil
  then show ?case by (simp add: with_content_def update_key_self)
next
  case (Cons s parts)
  note d = merge_delta_frame [OF Cons.prems assms(2,3)]
  from Cons.IH [OF with_content_get [OF Cons.prems]] d show ?case by simp
qed

lemma fold_push_entry:
  "map_of m k = Some (JStr e) \<Longrightarrow> fold (push_entry k) parts m = jmap_insert k (JStr (e @ concat parts)) m"
proof (induction parts arbitrary: m e)
  case Nil
  then show ?case by (simp add: jmap_insert_id)
next
  case (Cons s parts)
  have "push_entry k s m = jmap_insert k (JStr (e @ s)) m" using Cons.prems by (simp add: push_entry_def)
  moreover have "jmap_insert k a (jmap_insert k b m) = jmap_insert k a m" for a b :: json
    by (induction k b m rule: jmap_insert.induct) auto
  ultimately show ?case using Cons.IH [of "jmap_insert k (JStr (e @ s)) m" "e @ s"] by (simp add: map_of_jmap_insert)
qed

section \<open>Blocks\<close>

text \<open>The frames of one block, merged into a message with as many blocks as their index says, append
  the block.\<close>

definition renders :: "nat \<Rightarrow> frame list \<Rightarrow> json \<Rightarrow> bool" where
  "renders idx fs v = (\<forall>msg arr. idx \<le> MAX_TRACKED_BLOCK_INDEX \<longrightarrow> length arr = idx \<longrightarrow> get msg ''content'' = Some (JArr arr) \<longrightarrow>
     merge_anthropic_from (map as_event fs) msg = Some (with_content (arr @ [v]) msg))"

lemma renders_raw: "renders idx (block_frames idx (raw_block_start_event idx v) []) v"
  using merge_start merge_stop by (auto simp: renders_def block_frames_def simp del: as_event.simps)

lemma renders_deltas:
  assumes "delta_field key field"
  shows "renders idx (block_frames idx (raw_block_start_event idx (JObj m)) (map (block_delta_event idx ty key) parts))
    (JObj (fold (push_entry field) parts m))"
proof (unfold renders_def, intro allI impI)
  fix msg arr
  assume i: "idx \<le> MAX_TRACKED_BLOCK_INDEX" "length arr = idx" "get msg ''content'' = Some (JArr arr)"
  note start = merge_start [OF i(3), where b = "JObj m", unfolded i(2), OF i(1)]
  have "length arr \<le> MAX_TRACKED_BLOCK_INDEX" using i by simp
  note deltas = merge_delta_frames [OF with_content_get [OF i(3)] this assms, where m = m and ty = ty and parts = parts, unfolded i(2)]
  show "merge_anthropic_from (map as_event (block_frames idx (raw_block_start_event idx (JObj m))
      (map (block_delta_event idx ty key) parts))) msg = Some (with_content (arr @ [JObj (fold (push_entry field) parts m)]) msg)"
    using start deltas merge_stop
    by (simp add: block_frames_def merge_anthropic_append comp_def del: as_event.simps)
qed

definition text_block :: "string \<Rightarrow> json" where
  "text_block t = JObj [(''type'', JStr ''text''), (''text'', JStr t)]"

definition thinking_block :: "string \<Rightarrow> json" where
  "thinking_block t = JObj [(''type'', JStr ''thinking''), (''thinking'', JStr t)]"

definition tool_block :: "string \<Rightarrow> string \<Rightarrow> string \<Rightarrow> json" where
  "tool_block i name args = JObj [(''type'', JStr ''tool_use''), (''id'', JStr i), (''name'', JStr name), (''input'', JStr args)]"

lemma renders_text:
  "renders idx (block_frames idx (build_content_block_start_event idx ''text'')
     (map (build_content_block_delta_event idx ''text_delta'') parts)) (text_block (concat parts))"
  using renders_deltas [of "''text''" "''text''" idx "[(''type'', JStr ''text''), (''text'', JStr [])]" "''text_delta''" parts]
  by (simp add: fold_push_entry text_block_def delta_field_def build_content_block_start_event_def raw_block_start_event_def
      build_content_block_delta_event_def [abs_def])

lemma renders_thinking:
  "renders idx (block_frames idx (build_thinking_block_start_event idx None)
     (map (build_thinking_block_delta_event idx) parts)) (thinking_block (concat parts))"
  using renders_deltas [of "''thinking''" "''thinking''" idx "[(''type'', JStr ''thinking''), (''thinking'', JStr [])]" "''thinking_delta''" parts]
  by (simp add: fold_push_entry thinking_block_def delta_field_def build_thinking_block_start_event_def raw_block_start_event_def
      build_thinking_block_delta_event_def [abs_def] option_list_def)

lemma renders_tool:
  "renders idx (block_frames idx (build_tool_use_block_start_event idx i name) [build_tool_use_block_delta_event idx args])
     (tool_block i name args)"
  using renders_deltas [of "''partial_json''" "''input''" idx
      "[(''type'', JStr ''tool_use''), (''id'', JStr i), (''name'', JStr name), (''input'', JObj [])]" "''input_json_delta''" "[args]"]
  by (simp add: push_entry_def tool_block_def delta_field_def build_tool_use_block_start_event_def
      build_tool_use_block_delta_event_def)

text \<open>The content blocks a choice stands for.\<close>

definition reasoning_values :: "(string \<times> json) list \<Rightarrow> json list" where
  "reasoning_values message = (case str_at message ''reasoning_text'' of
     Some r \<Rightarrow> if r \<noteq> [] then [thinking_block r] else [] | None \<Rightarrow> [])"

definition content_values :: "(string \<times> json) list \<Rightarrow> json list" where
  "content_values message = (case map_of message ''content'' of
     Some (JStr t) \<Rightarrow> if t \<noteq> [] then [text_block t] else []
   | Some v \<Rightarrow> if v \<noteq> JNull then [v] else []
   | None \<Rightarrow> [])"

definition tool_value :: "(nat \<Rightarrow> string) \<Rightarrow> nat \<Rightarrow> json \<Rightarrow> json" where
  "tool_value fresh_id idx tc = tool_block (some_or (get_str tc ''id'') (''toolu_'' @ fresh_id idx))
     (some_or (Option.bind (get tc ''function'') (\<lambda>f. get_str f ''name'')) [])
     (some_or (Option.bind (get tc ''function'') (\<lambda>f. get_str f ''arguments'')) [])"

fun tool_values :: "(nat \<Rightarrow> string) \<Rightarrow> nat \<Rightarrow> json list \<Rightarrow> json list" where
  "tool_values fresh_id idx [] = []"
| "tool_values fresh_id idx (tc # tcs) = tool_value fresh_id idx tc # tool_values fresh_id (Suc idx) tcs"

definition choice_values :: "(nat \<Rightarrow> string) \<Rightarrow> nat \<Rightarrow> (string \<times> json) list \<Rightarrow> json list" where
  "choice_values fresh_id idx message =
     (let r = reasoning_values message; c = content_values message;
          vs = r @ c @ tool_values fresh_id (idx + length r + length c) (some_or (arr_at message ''tool_calls'') []) in
      if vs = [] then [text_block []] else vs)"

fun choices_values :: "(nat \<Rightarrow> string) \<Rightarrow> nat \<Rightarrow> json list \<Rightarrow> json list" where
  "choices_values fresh_id idx [] = []"
| "choices_values fresh_id idx (choice # cs) =
     (let vs = choice_values fresh_id idx (some_or (Option.bind (get choice ''message'') as_object) []) in
      vs @ choices_values fresh_id (idx + length vs) cs)"

fun renders_all :: "nat \<Rightarrow> frame list list \<Rightarrow> json list \<Rightarrow> bool" where
  "renders_all idx [] [] = True"
| "renders_all idx (b # bs) (v # vs) = (renders idx b v \<and> renders_all (Suc idx) bs vs)"
| "renders_all idx _ _ = False"

lemma renders_all_length: "renders_all idx bs vs \<Longrightarrow> length bs = length vs"
  by (induction idx bs vs rule: renders_all.induct) auto

lemma renders_all_append:
  "renders_all idx bs vs \<Longrightarrow> renders_all (idx + length bs) cs ws \<Longrightarrow> renders_all idx (bs @ cs) (vs @ ws)"
  by (induction idx bs vs rule: renders_all.induct) auto

lemma merge_renders:
  assumes "renders_all (length arr) bs vs" "get msg ''content'' = Some (JArr arr)"
    and "length arr + length vs \<le> Suc MAX_TRACKED_BLOCK_INDEX"
  shows "merge_anthropic_from (map as_event (concat bs)) msg = Some (with_content (arr @ vs) msg)"
  using assms
proof (induction "length arr" bs vs arbitrary: arr msg rule: renders_all.induct)
  case 1
  then show ?case by (simp add: with_content_def update_key_self)
next
  case (2 b bs v vs)
  then have "merge_anthropic_from (map as_event b) msg = Some (with_content (arr @ [v]) msg)" by (simp add: renders_def)
  moreover have "merge_anthropic_from (map as_event (concat bs)) (with_content (arr @ [v]) msg) = Some (with_content (arr @ v # vs) msg)"
    using "2.hyps" [of "arr @ [v]" "with_content (arr @ [v]) msg"] 2 with_content_get by simp
  ultimately show ?case by (simp add: merge_anthropic_append)
qed auto

lemma renders_reasoning: "renders_all idx (reasoning_frames n idx message) (reasoning_values message)"
  using renders_thinking [of idx] split_chars_concat
  by (auto simp: reasoning_frames_def reasoning_values_def split: option.splits) metis

lemma renders_content: "renders_all idx (content_frames n idx message) (content_values message)"
proof -
  have "renders idx (block_frames idx (build_content_block_start_event idx ''text'')
      (map (build_content_block_delta_event idx ''text_delta'') (split_chars t n))) (text_block t)" for t
    using renders_text [of idx "split_chars t n"] by (simp add: split_chars_concat)
  then show ?thesis
    by (simp add: content_frames_def content_values_def renders_raw split: option.splits json.splits)
qed

lemma renders_tools: "renders_all idx (tools_frames fresh_id idx tcs) (tool_values fresh_id idx tcs)"
  by (induction tcs arbitrary: idx) (simp_all add: tool_frames_def tool_value_def renders_tool Let_def)

lemma renders_choice: "renders_all idx (choice_blocks fresh_id n idx message) (choice_values fresh_id idx message)"
proof -
  let ?r = "reasoning_frames n idx message" and ?rv = "reasoning_values message" and ?cv = "content_values message"
  let ?c = "content_frames n (idx + length ?r) message"
  let ?tools = "some_or (arr_at message ''tool_calls'') []"
  have r: "renders_all idx ?r ?rv" and c: "renders_all (idx + length ?r) ?c ?cv"
    by (rule renders_reasoning, rule renders_content)
  have l: "length ?r = length ?rv" "length ?c = length ?cv" using renders_all_length r c by blast+
  have all: "renders_all idx (?r @ ?c @ tools_frames fresh_id (idx + length ?r + length ?c) ?tools)
      (?rv @ ?cv @ tool_values fresh_id (idx + length ?rv + length ?cv) ?tools)"
    using renders_all_append [OF r] renders_all_append [OF c] renders_tools l by simp
  have "renders_all idx [block_frames idx (build_content_block_start_event idx ''text'') []] [text_block []]"
    using renders_text [of idx "[]"] by simp
  with all renders_all_length [OF all] show ?thesis
    by (auto simp: choice_blocks_def choice_values_def Let_def)
qed

lemma renders_choices:
  assumes "list_all (\<lambda>c. Option.bind (get c ''message'') as_object \<noteq> None) cs"
  shows "\<exists>bs. choices_blocks fresh_id n idx cs = Some bs \<and> renders_all idx bs (choices_values fresh_id idx cs)"
  using assms
proof (induction cs arbitrary: idx)
  case (Cons c cs)
  then obtain message where m: "Option.bind (get c ''message'') as_object = Some message" by auto
  note r = renders_choice [of idx fresh_id n message]
  from Cons.IH [of "idx + length (choice_blocks fresh_id n idx message)"] Cons.prems obtain bs
    where "choices_blocks fresh_id n (idx + length (choice_blocks fresh_id n idx message)) cs = Some bs"
      "renders_all (idx + length (choice_blocks fresh_id n idx message)) bs
         (choices_values fresh_id (idx + length (choice_blocks fresh_id n idx message)) cs)" by auto
  with renders_all_append [OF r] renders_all_length [OF r] m show ?case by (simp add: Let_def)
qed simp

section \<open>The Anthropic round trip\<close>

lemma check_raw_choices_messages:
  "check_raw_choices cs = Inr u \<Longrightarrow> list_all (\<lambda>c. Option.bind (get c ''message'') as_object \<noteq> None) cs"
proof (induction cs)
  case (Cons c cs)
  then have "check_raw_choice c = Inr ()" "check_raw_choices cs = Inr u" by (auto split: sum.splits)
  with Cons.IH show ?case by (cases c) (auto simp: check_raw_choice_def split: if_splits)
qed simp

lemma parse_choices:
  assumes "parse_raw_completion now raw = Inr p"
  shows "raw_choices p \<noteq> []" "list_all (\<lambda>c. Option.bind (get c ''message'') as_object \<noteq> None) (raw_choices p)"
  using assms check_raw_choices_messages
  by (auto simp: parse_raw_completion_def split: option.splits if_splits sum.splits)

lemma claude_usage_object: "\<exists>u. claude_usage x = JObj u"
  by (simp add: claude_usage_def Let_def split: option.splits json.splits)

text \<open>The closing delta sets the stop reason; the usage it repeats is the message's own.\<close>

lemma merge_closing:
  assumes "msg = JObj m" "map_of m ''usage'' = Some (JObj u)"
  shows "\<exists>r. merge_anthropic_from (map as_event [(''message_delta'', JObj [(''type'', JStr ''message_delta''),
        (''delta'', JObj [(''stop_reason'', JStr s), (''stop_sequence'', JNull)]), (''usage'', JObj u)]),
      (''message_stop'', build_message_stop_event)]) msg = Some r
    \<and> get r ''stop_reason'' = Some (JStr s) \<and> get r ''usage'' = Some (JObj u) \<and> get r ''content'' = get msg ''content''"
  using assms
  by (auto simp: merge_anthropic_event_def merge_message_delta_def when_some_def get_str_def map_of_jmap_insert jmap_insert_id
      split: option.splits)

lemma with_content_object: "is_object v \<Longrightarrow> \<exists>m. with_content arr v = JObj m \<and> (\<forall>k. k \<noteq> ''content'' \<longrightarrow> map_of m k = get v k)"
  by (cases v) (auto simp: with_content_def is_object_def map_of_jmap_insert split: option.splits)

text \<open>C18. The Anthropic stream made from an OpenAI completion says what the completion said. Merging the
  synthesised frames does not panic and gives a message whose content is, for every choice in order,
  its reasoning as a thinking block, its text as a text block and its tool calls as tool-use blocks with
  the raw arguments, each whole; the stop reason and the usage are the completion's.\<close>

theorem claude_stream_round_trip:
  assumes "parse_raw_completion now raw = Ok p" "''content'' \<notin> fst ` set (sm_extras (raw_meta p))"
    and "length (choices_values fresh_id 0 (raw_choices p)) \<le> Suc MAX_TRACKED_BLOCK_INDEX"
  shows "\<exists>r. merge_anthropic_events (map as_event (convert_openai_to_claude_sse now fresh_id raw n)) = Some r
    \<and> get r ''content'' = Some (JArr (choices_values fresh_id 0 (raw_choices p)))
    \<and> get r ''stop_reason'' = Some (JStr (claude_stop_reason (raw_choices p)))
    \<and> get r ''usage'' = Some (claude_usage (raw_usage p))"
proof -
  let ?meta = "raw_meta p" and ?cs = "raw_choices p" and ?vs = "choices_values fresh_id 0 (raw_choices p)"
  note pc = parse_choices [OF assms(1)]
  obtain u where u: "claude_usage (raw_usage p) = JObj u" using claude_usage_object by blast
  obtain first_msg where fm: "get (hd ?cs) ''message'' = Some first_msg" using pc by (cases ?cs) (auto simp: bind_eq_Some_conv)
  obtain bs where bs: "choices_blocks fresh_id n 0 ?cs = Some bs" "renders_all 0 bs ?vs" using renders_choices [OF pc(2)] by blast
  define message where "message = put_all (sm_extras ?meta)
     [(''id'', JStr (sm_id ?meta)), (''type'', JStr ''message''), (''role'', JStr (some_or (get_str first_msg ''role'') ''assistant'')),
      (''model'', JStr (sm_model ?meta)), (''content'', JArr []), (''stop_reason'', JNull), (''stop_sequence'', JNull), (''usage'', JObj u)]"
  define closing where "closing = [(''message_delta'', JObj [(''type'', JStr ''message_delta''),
        (''delta'', JObj [(''stop_reason'', JStr (claude_stop_reason ?cs)), (''stop_sequence'', JNull)]), (''usage'', JObj u)]),
      (''message_stop'', build_message_stop_event)]"
  have frames: "convert_openai_to_claude_sse now fresh_id raw n =
      (''message_start'', JObj [(''type'', JStr ''message_start''), (''message'', JObj message)]) # concat bs @ closing"
    using assms(1) u fm bs(1) by (simp add: convert_openai_to_claude_sse_def message_def closing_def Let_def)
  have "''usage'' \<notin> fst ` set (sm_extras ?meta)"
    using parse_meta_ok [OF assms(1)] by (auto simp: meta_ok_def KNOWN_FIELDS_def)
  with assms(2) have mc: "map_of message ''content'' = Some (JArr [])" "map_of message ''usage'' = Some (JObj u)"
    by (simp_all add: message_def put_all_other)
  have body: "merge_anthropic_from (map as_event (concat bs)) (JObj message) = Some (with_content ?vs (JObj message))"
    using merge_renders [of "[]" bs ?vs "JObj message"] bs(2) mc(1) assms(3) by simp
  obtain m where m: "with_content ?vs (JObj message) = JObj m" "map_of m ''usage'' = Some (JObj u)"
    using with_content_object [of "JObj message" ?vs] mc by (auto simp: is_object_def)
  have "merge_anthropic_events (map as_event (convert_openai_to_claude_sse now fresh_id raw n))
      = merge_anthropic_from (map as_event closing) (JObj m)"
    using mc(1) body m(1) by (simp add: frames merge_anthropic_events_def merge_anthropic_append merge_anthropic_event_def)
  moreover have "get (JObj m) ''content'' = Some (JArr ?vs)" using with_content_get [of "JObj message" "JArr []" ?vs] mc(1) m(1) by simp
  ultimately show ?thesis
    using merge_closing [OF refl m(2), of "claude_stop_reason ?cs"] u unfolding closing_def by auto
qed

section \<open>Witnesses\<close>

definition sample_completion :: json where
  "sample_completion = JObj [(''id'', JStr ''c1''), (''model'', JStr ''m''), (''created'', JNum (PosInt 7)),
     (''choices'', JArr [JObj [(''index'', JNum (PosInt 0)), (''finish_reason'', JStr ''stop''),
        (''message'', JObj [(''role'', JStr ''assistant''), (''content'', JStr ''hi'')])]])]"

lemma sample_completion_parses:
  "\<exists>p. parse_raw_completion 0 sample_completion = Ok p \<and> sm_extras (raw_meta p) = []
     \<and> raw_choices p = [JObj [(''index'', JNum (PosInt 0)), (''finish_reason'', JStr ''stop''),
          (''message'', JObj [(''role'', JStr ''assistant''), (''content'', JStr ''hi'')])]]"
  by (simp add: parse_raw_completion_def sample_completion_def check_raw_choice_def is_u64_def is_string_def KNOWN_FIELDS_def)

theorem claude_stream_round_trip_witness:
  "\<exists>r. merge_anthropic_events (map as_event (convert_openai_to_claude_sse 0 (\<lambda>_. []) sample_completion 1)) = Some r
     \<and> get r ''content'' = Some (JArr [text_block ''hi'']) \<and> get r ''stop_reason'' = Some (JStr ''end_turn'')"
proof -
  obtain p where p: "parse_raw_completion 0 sample_completion = Ok p" "sm_extras (raw_meta p) = []"
    "raw_choices p = [JObj [(''index'', JNum (PosInt 0)), (''finish_reason'', JStr ''stop''),
          (''message'', JObj [(''role'', JStr ''assistant''), (''content'', JStr ''hi'')])]]"
    using sample_completion_parses by blast
  have v: "choices_values (\<lambda>_. []) 0 (raw_choices p) = [text_block ''hi'']"
    by (simp add: p(3) choice_values_def reasoning_values_def content_values_def str_at_def arr_at_def)
  have "claude_stop_reason (raw_choices p) = ''end_turn''"
    by (simp add: p(3) claude_stop_reason_def get_str_def map_openai_finish_to_stop_def)
  with claude_stream_round_trip [OF p(1), of "\<lambda>_. []" 1] p(2) v show ?thesis by auto
qed

theorem openai_stream_round_trip_witness:
  "\<exists>p r c cs m. parse_raw_completion 0 sample_completion = Ok p
     \<and> merge_all None (payloads (synthesize_openai_chunks p 1)) = Some (Some r)
     \<and> get_array r ''choices'' = Some (c # cs) \<and> get c ''message'' = Some (JObj m) \<and> map_of m ''content'' = Some (JStr ''hi'')"
proof -
  let ?m = "[(''role'', JStr ''assistant''), (''content'', JStr ''hi'')]"
  obtain p where p: "parse_raw_completion 0 sample_completion = Ok p"
    "raw_choices p = [JObj [(''index'', JNum (PosInt 0)), (''finish_reason'', JStr ''stop''), (''message'', JObj ?m)]]"
    using sample_completion_parses by blast
  have "wf_json sample_completion" by (simp add: sample_completion_def keys_distinct_def)
  moreover have "plain_content ?m" "is_none_or (list_all is_object) (arr_at ?m ''tool_calls'')"
    by (simp_all add: plain_content_def is_string_def arr_at_def)
  ultimately show ?thesis
    using openai_stream_round_trip [OF _ p, of ?m 1] p(1) by (auto simp: same_message_def str_at_def)
qed

end
