(* ===== verification/Http_Forward.thy ===== *)
theory Http_Forward
  imports Fix_Registry Reprompt Grouped_Balancer
begin

text \<open>
  The request and response rewriting of the proxy handler, \<^verbatim>\<open>llama-proxy/src/proxy/handler.rs\<close>: error
  envelopes, body decoding under the size cap, header forwarding, content-type classification and the
  rewrite of the outgoing request body.

  Header names are the lower-case names of \<^verbatim>\<open>http::HeaderName\<close>; a header map is the list its
  iteration yields. Parameters: \<open>serde_env\<close> for \<^verbatim>\<open>serde_json\<close>'s parser and printer, \<open>codecs\<close> for the
  decoders of \<^verbatim>\<open>flate2\<close>, \<^verbatim>\<open>brotli\<close> and \<^verbatim>\<open>zstd\<close>.
\<close>

section \<open>Responses\<close>

type_synonym headers = "(string \<times> string) list"

text \<open>A body is bytes, or a value that the framework prints as JSON.\<close>

datatype reply_body = Raw string | Printed json

record reply =
  status :: nat
  reply_headers :: headers
  reply_body :: reply_body

definition json_reply :: "nat \<Rightarrow> headers \<Rightarrow> json \<Rightarrow> reply" where
  "json_reply st hs v = \<lparr>status = st, reply_headers = hs, reply_body = Printed v\<rparr>"

definition is_success :: "nat \<Rightarrow> bool" where "is_success st = (200 \<le> st \<and> st < 300)"
definition is_server_error :: "nat \<Rightarrow> bool" where "is_server_error st = (500 \<le> st \<and> st < 600)"

definition err_envelope :: "string \<Rightarrow> string \<Rightarrow> json" where
  "err_envelope kind msg = JObj [(''error'', JObj [(''type'', JStr kind), (''message'', JStr msg)])]"

definition is_length_limit_error :: "string \<Rightarrow> bool" where
  "is_length_limit_error e = (e = ''length limit exceeded'')"

definition body_read_error :: "string \<Rightarrow> string \<Rightarrow> reply" where
  "body_read_error e cap_label =
     (if is_length_limit_error e
      then json_reply 413 [] (err_envelope ''request_body_too_large'' (''Request body exceeds the '' @ cap_label @ '' limit''))
      else json_reply 400 [] (err_envelope ''invalid_request_json'' (''Failed to read request body: '' @ e)))"

definition at_capacity_response :: "u64 \<Rightarrow> reply" where
  "at_capacity_response max_requests = json_reply 429 [(''retry-after'', ''5'')] (JObj [(''error'', JObj
     [(''type'', JStr ''too_many_requests''),
      (''message'', JStr (''Server at capacity ('' @ digits (unat max_requests) @ '' concurrent requests). Increase max_concurrent_requests in config.yaml or scale with additional backend nodes'')),
      (''retry_after'', JNum (PosInt 5))])])"

definition get_extension :: "string option \<Rightarrow> string" where
  "get_extension content_type = (case content_type of
       Some ct \<Rightarrow>
         (let l = to_ascii_lowercase ct in
          if str_contains l ''application/json'' then ''json''
          else if str_contains l ''application/xml'' \<or> str_contains l ''text/xml'' then ''xml''
          else ''txt'')
     | None \<Rightarrow> ''txt'')"

section \<open>Decoding a body\<close>

datatype decompressed = Passthrough string | Decoded string

datatype decompress_error = Decode string | PayloadTooLarge nat

definition MAX_DECOMPRESSED_BYTES :: nat where "MAX_DECOMPRESSED_BYTES = 64 * 1024 * 1024"

text \<open>A decoder yields bytes until its input ends or it fails; \<^verbatim>\<open>zstd\<close>'s constructor may fail first.\<close>

type_synonym decoder = "string \<Rightarrow> string \<times> string option"

record codecs =
  gz_decoder :: decoder
  zlib_decoder :: decoder
  deflate_decoder :: decoder
  brotli_decoder :: decoder
  zstd_header :: "string \<Rightarrow> string option"
  zstd_decoder :: decoder

text \<open>\<^verbatim>\<open>take(limit).read_to_end\<close>: once the limit is reached the decoder is not asked again.\<close>

definition take_read :: "nat \<Rightarrow> string \<times> string option \<Rightarrow> string \<times> string option" where
  "take_read limit r = (take limit (fst r), if limit \<le> length (fst r) then None else snd r)"

definition cap_breached :: decompress_error where "cap_breached = PayloadTooLarge MAX_DECOMPRESSED_BYTES"

definition decoded_within_cap :: "string \<Rightarrow> (decompressed, decompress_error) result" where
  "decoded_within_cap out = (if length out > MAX_DECOMPRESSED_BYTES then Err cap_breached else Ok (Decoded out))"

definition read_codec ::
  "decoder \<Rightarrow> string \<Rightarrow> (string \<Rightarrow> (decompressed, decompress_error) result) \<Rightarrow> (decompressed, decompress_error) result" where
  "read_codec d body failed = (case take_read (Suc MAX_DECOMPRESSED_BYTES) (d body) of
       (out, None) \<Rightarrow> decoded_within_cap out
     | (out, Some e) \<Rightarrow> if length out > MAX_DECOMPRESSED_BYTES then Err cap_breached else failed e)"

definition decode_body_bytes :: "codecs \<Rightarrow> string \<Rightarrow> string option \<Rightarrow> (decompressed, decompress_error) result" where
  "decode_body_bytes cs body content_encoding = (case content_encoding of
       None \<Rightarrow> Ok (Passthrough body)
     | Some enc \<Rightarrow>
         (let l = to_ascii_lowercase enc in
          if l = ''gzip'' then
            read_codec (gz_decoder cs) body (\<lambda>e. Err (Decode (''gzip decompression failed: '' @ e)))
          else if l = ''deflate'' then
            read_codec (zlib_decoder cs) body (\<lambda>zlib_err.
              read_codec (deflate_decoder cs) body (\<lambda>raw_err.
                Err (Decode (''deflate decompression failed: zlib: '' @ zlib_err @ ''; raw-deflate: '' @ raw_err))))
          else if l = ''br'' then
            read_codec (brotli_decoder cs) body (\<lambda>e. Err (Decode (''brotli decompression failed: '' @ e)))
          else if l = ''zstd'' then
            (case zstd_header cs body of
               None \<Rightarrow> read_codec (zstd_decoder cs) body (\<lambda>e. Err (Decode (''zstd decompression failed: '' @ e)))
             | Some e \<Rightarrow> Err (Decode (''zstd decompression failed: '' @ e)))
          else Ok (Passthrough body)))"

definition decompress_error_response :: "decompress_error \<Rightarrow> reply" where
  "decompress_error_response e = (case e of
       PayloadTooLarge limit_bytes \<Rightarrow> json_reply 413 [] (err_envelope ''backend_payload_too_large''
         (''Backend response expands beyond the '' @ digits (limit_bytes div (1024 * 1024)) @ '' MiB decompression cap''))
     | Decode message \<Rightarrow> json_reply 502 [] (err_envelope ''backend_decompress_error''
         (''Failed to decompress response: '' @ message)))"

section \<open>Headers\<close>

definition is_hop_by_hop_header :: "string \<Rightarrow> bool" where
  "is_hop_by_hop_header name =
     (name \<in> set [''connection'', ''proxy-authenticate'', ''proxy-authorization'', ''te'', ''trailer'', ''upgrade''])"

definition copies_header :: "bool \<Rightarrow> string \<Rightarrow> bool" where
  "copies_header body_was_decoded name =
     (\<not> (name = ''content-length'' \<or> name = ''transfer-encoding'' \<or> is_hop_by_hop_header name)
      \<and> \<not> (body_was_decoded \<and> name = ''content-encoding''))"

definition forward_response :: "nat \<Rightarrow> headers \<Rightarrow> string \<Rightarrow> bool \<Rightarrow> reply" where
  "forward_response st hs body body_was_decoded =
     \<lparr>status = st, reply_headers = filter (\<lambda>(name, v). copies_header body_was_decoded name) hs, reply_body = Raw body\<rparr>"

definition anthropic_sse_error_response :: reply where
  "anthropic_sse_error_response = \<lparr>status = 200, reply_headers = [(''content-type'', ''text/event-stream'')],
     reply_body = Raw (''event: error'' @ [NEWLINE]
       @ ''data: {'' @ [QUOTE] @ ''type'' @ [QUOTE] @ '':'' @ [QUOTE] @ ''error'' @ [QUOTE] @ '','' @ [QUOTE] @ ''error'' @ [QUOTE]
       @ '':{'' @ [QUOTE] @ ''type'' @ [QUOTE] @ '':'' @ [QUOTE] @ ''api_error'' @ [QUOTE] @ '','' @ [QUOTE] @ ''message'' @ [QUOTE] @ '':'' @ [QUOTE]
       @ ''The proxy failed to convert the backend response into an Anthropic streaming response'' @ [QUOTE] @ ''}}'' @ [NEWLINE, NEWLINE]
       @ ''data: [DONE]'' @ [NEWLINE, NEWLINE])\<rparr>"

definition forwards_to_backend :: "string \<Rightarrow> bool" where
  "forwards_to_backend name =
     (name \<noteq> ''host'' \<and> name \<noteq> ''content-length'' \<and> name \<noteq> ''authorization'' \<and> name \<noteq> ''accept-encoding'')"

text \<open>\<^verbatim>\<open>get(name)\<close> then \<^verbatim>\<open>to_str().ok()\<close>: the first value, if it is visible ASCII.\<close>

definition header_str :: "headers \<Rightarrow> string \<Rightarrow> string option" where
  "header_str hs name = Option.bind (map_of hs name) (\<lambda>v.
     if list_all (\<lambda>c. (32 \<le> (of_char c :: nat) \<and> (of_char c :: nat) < 127) \<or> (of_char c :: nat) = 9) v then Some v else None)"

section \<open>Paths and content types\<close>

definition OPTIONAL_CLIENT_ENDPOINTS :: "string list" where
  "OPTIONAL_CLIENT_ENDPOINTS = [''/api/models/vram-estimate'']"

definition is_optional_client_404 :: "string \<Rightarrow> nat \<Rightarrow> bool" where
  "is_optional_client_404 path st =
     (st = 404 \<and> some_or (strip_suffix path ''/'') path \<in> set OPTIONAL_CLIENT_ENDPOINTS)"

definition is_json_content_type :: "string \<Rightarrow> bool" where
  "is_json_content_type content_type =
     (let media = (case split_once (CHR 0x3B) content_type of Some (m, _) \<Rightarrow> m | None \<Rightarrow> content_type);
          media_type = to_ascii_lowercase (trim media) in
      media_type = ''application/json'' \<or> ends_with media_type ''+json'')"

definition completion_shaped_path :: "string \<Rightarrow> bool" where
  "completion_shaped_path path =
     (starts_with path ''/completions'' \<or> str_contains path ''/chat/completions'' \<or> str_contains path ''/v1/messages'')"

definition looks_like_completion_request :: "json \<Rightarrow> string \<Rightarrow> bool" where
  "looks_like_completion_request body routed_path =
     (completion_shaped_path routed_path \<or> is_some_and (\<lambda>msgs. msgs \<noteq> []) (get_array body ''messages''))"

section \<open>The outgoing body\<close>

definition ensure_usage_on_stream :: "json \<Rightarrow> json" where
  "ensure_usage_on_stream json = (case json of
       JObj m \<Rightarrow>
         (case map_of m ''stream_options'' of
            None \<Rightarrow> JObj (jmap_insert ''stream_options'' (JObj [(''include_usage'', JBool True)]) m)
          | Some (JObj opts) \<Rightarrow>
              if map_of opts ''include_usage'' = None
              then JObj (jmap_insert ''stream_options'' (JObj (jmap_insert ''include_usage'' (JBool True) opts)) m)
              else json
          | Some _ \<Rightarrow> json)
     | _ \<Rightarrow> json)"

definition as_bool :: "json \<Rightarrow> bool option" where
  "as_bool v = (case v of JBool b \<Rightarrow> Some b | _ \<Rightarrow> None)"

definition wants_stream :: "json \<Rightarrow> bool" where
  "wants_stream v = some_or (Option.bind (get v ''stream'') as_bool) False"

definition without_stream_options :: "json \<Rightarrow> json" where
  "without_stream_options json = (case json of JObj m \<Rightarrow> JObj (jmap_remove ''stream_options'' m) | _ \<Rightarrow> json)"

text \<open>The rewritten value and whether the stream flag is kept; \<open>None\<close> is a panic.\<close>

definition override_value :: "'c backend_node \<Rightarrow> bool \<Rightarrow> json \<Rightarrow> (json \<times> bool) option" where
  "override_value backend allow_stream json =
     (let keep_stream = (allow_stream \<and> wants_stream json) in
      Option.bind (if keep_stream then Some (ensure_usage_on_stream json)
                   else map_option without_stream_options (index_set json ''stream'' (JBool False))) (\<lambda>j1.
      Option.bind (case n_model backend of None \<Rightarrow> Some j1 | Some model \<Rightarrow> index_set j1 ''model'' (JStr model)) (\<lambda>j2.
      Option.bind (case n_temperature backend of None \<Rightarrow> Some j2 | Some temp \<Rightarrow> index_set j2 ''temperature'' (f64_value temp)) (\<lambda>j3.
      Some (j3, keep_stream)))))"

definition apply_backend_overrides_bytes ::
  "serde_env \<Rightarrow> string \<Rightarrow> 'c backend_node \<Rightarrow> bool \<Rightarrow> string \<Rightarrow> (string \<times> bool) option" where
  "apply_backend_overrides_bytes env body backend allow_stream path = (case parse_value env body of
       None \<Rightarrow> Some (body, False)
     | Some json \<Rightarrow>
         if \<not> looks_like_completion_request json (effective_path backend path) then Some (body, False)
         else map_option (\<lambda>(j, keep_stream). (case print_value env j of Inr s \<Rightarrow> s | Inl _ \<Rightarrow> body, keep_stream))
                (override_value backend allow_stream json))"

section \<open>Facts\<close>

text \<open>Decoding without the bound: what the attempts for an encoding would give in full.\<close>

datatype decode_outcome = Whole string | Oversized | Corrupt | Untouched string

fun outcome_of :: "(decompressed, decompress_error) result \<Rightarrow> decode_outcome" where
  "outcome_of (Inr (Decoded out)) = Whole out"
| "outcome_of (Inr (Passthrough out)) = Untouched out"
| "outcome_of (Inl (PayloadTooLarge n)) = Oversized"
| "outcome_of (Inl (Decode e)) = Corrupt"

fun settle :: "(string \<times> string option) list \<Rightarrow> decode_outcome" where
  "settle [] = Corrupt"
| "settle ((out, err) # rs) =
     (if length out > MAX_DECOMPRESSED_BYTES then Oversized else if err = None then Whole out else settle rs)"

definition attempts :: "codecs \<Rightarrow> string \<Rightarrow> string \<Rightarrow> (string \<times> string option) list option" where
  "attempts cs enc body =
     (if enc = ''gzip'' then Some [gz_decoder cs body]
      else if enc = ''deflate'' then Some [zlib_decoder cs body, deflate_decoder cs body]
      else if enc = ''br'' then Some [brotli_decoder cs body]
      else if enc = ''zstd'' then Some (if zstd_header cs body = None then [zstd_decoder cs body] else [])
      else None)"

lemma outcome_read_codec:
  "outcome_of (read_codec d body failed) =
     (if length (fst (d body)) > MAX_DECOMPRESSED_BYTES then Oversized
      else case snd (d body) of None \<Rightarrow> Whole (fst (d body)) | Some e \<Rightarrow> outcome_of (failed e))"
  by (auto simp: read_codec_def take_read_def decoded_within_cap_def cap_breached_def split: option.splits)

lemma settle_single: "settle [r] = (if length (fst r) > MAX_DECOMPRESSED_BYTES then Oversized
    else case snd r of None \<Rightarrow> Whole (fst r) | Some e \<Rightarrow> Corrupt)"
  by (cases r) (auto split: option.splits)

lemma get_ensure_usage: "k \<noteq> ''stream_options'' \<Longrightarrow> get (ensure_usage_on_stream v) k = get v k"
  by (simp add: ensure_usage_on_stream_def map_of_jmap_insert split: json.splits option.splits)

lemma ensure_usage_object: "is_object v \<Longrightarrow> is_object (ensure_usage_on_stream v)"
  by (cases v) (simp_all add: ensure_usage_on_stream_def is_object_def split: json.splits option.splits)

lemma get_without_stream_options:
  "wf_json v \<Longrightarrow> get (without_stream_options v) k = (if k = ''stream_options'' then None else get v k)"
  by (cases v) (auto simp: without_stream_options_def map_of_jmap_remove)

lemma wants_stream_object: "wants_stream v \<Longrightarrow> is_object v \<and> get v ''stream'' = Some (JBool True)"
  by (cases v) (auto simp: wants_stream_def is_object_def as_bool_def split: option.splits json.splits bind_splits)

text \<open>A write on an object, or no write.\<close>

lemma optional_set:
  assumes "is_object v"
  shows "\<exists>w. (case x of None \<Rightarrow> Some v | Some y \<Rightarrow> index_set v k (f y)) = Some w \<and> is_object w
    \<and> (\<forall>j. get w j = (if j = k \<and> x \<noteq> None then map_option f x else get v j))"
  using assms by (cases v; cases x) (auto simp: is_object_def map_of_jmap_insert)

definition stream_options_sent :: "bool \<Rightarrow> json option \<Rightarrow> json option" where
  "stream_options_sent keep_stream client = (if \<not> keep_stream then None else case client of
       None \<Rightarrow> Some (JObj [(''include_usage'', JBool True)])
     | Some (JObj opts) \<Rightarrow> Some (JObj (if map_of opts ''include_usage'' = None then jmap_insert ''include_usage'' (JBool True) opts else opts))
     | Some v \<Rightarrow> Some v)"

text \<open>The fields of the body sent, by key.\<close>

definition sent_field :: "'c backend_node \<Rightarrow> bool \<Rightarrow> json \<Rightarrow> string \<Rightarrow> json option" where
  "sent_field backend keep_stream json k =
     (if k = ''temperature'' \<and> n_temperature backend \<noteq> None then map_option f64_value (n_temperature backend)
      else if k = ''model'' \<and> n_model backend \<noteq> None then map_option JStr (n_model backend)
      else if k = ''stream'' then Some (JBool keep_stream)
      else if k = ''stream_options'' then stream_options_sent keep_stream (get json ''stream_options'')
      else get json k)"

lemma kept_stream_base:
  assumes "wants_stream json"
  shows "is_object (ensure_usage_on_stream json)
    \<and> (\<forall>k. get (ensure_usage_on_stream json) k = (if k = ''stream'' then Some (JBool True)
         else if k = ''stream_options'' then stream_options_sent True (get json ''stream_options'') else get json k))"
proof -
  have *: "is_object json" "get json ''stream'' = Some (JBool True)" using wants_stream_object [OF assms] by auto
  then have "get (ensure_usage_on_stream json) ''stream_options'' = stream_options_sent True (get json ''stream_options'')"
    by (cases json)
      (auto simp: ensure_usage_on_stream_def stream_options_sent_def is_object_def map_of_jmap_insert split: option.splits json.splits)
  with * show ?thesis using get_ensure_usage ensure_usage_object by simp
qed

lemma dropped_stream_base:
  assumes "is_object json \<or> json = JNull"
  shows "\<exists>w. index_set json ''stream'' (JBool False) = Some w \<and> is_object (without_stream_options w)
    \<and> (wf_json json \<longrightarrow> (\<forall>k. get (without_stream_options w) k = (if k = ''stream'' then Some (JBool False)
         else if k = ''stream_options'' then None else get json k)))"
proof -
  from assms obtain w where w: "index_set json ''stream'' (JBool False) = Some w" "is_object w"
    by (cases json) (auto simp: is_object_def)
  have "wf_json json \<Longrightarrow> wf_json w" using wf_json_index_set [OF _ _ w(1)] by simp
  moreover have "is_object (without_stream_options w)" using w(2) by (cases w) (auto simp: without_stream_options_def is_object_def)
  ultimately show ?thesis using w(1) get_without_stream_options [of w] index_set_get [OF w(1)] by auto
qed

lemma override_fields:
  assumes "is_object j1"
  shows "\<exists>j2 j3. (case n_model backend of None \<Rightarrow> Some j1 | Some model \<Rightarrow> index_set j1 ''model'' (JStr model)) = Some j2
    \<and> (case n_temperature backend of None \<Rightarrow> Some j2 | Some temp \<Rightarrow> index_set j2 ''temperature'' (f64_value temp)) = Some j3
    \<and> is_object j3
    \<and> (\<forall>k. get j3 k = (if k = ''temperature'' \<and> n_temperature backend \<noteq> None then map_option f64_value (n_temperature backend)
         else if k = ''model'' \<and> n_model backend \<noteq> None then map_option JStr (n_model backend) else get j1 k))"
proof -
  obtain j2 where j2: "(case n_model backend of None \<Rightarrow> Some j1 | Some y \<Rightarrow> index_set j1 ''model'' (JStr y)) = Some j2" "is_object j2"
    "\<forall>j. get j2 j = (if j = ''model'' \<and> n_model backend \<noteq> None then map_option JStr (n_model backend) else get j1 j)"
    using optional_set [OF assms, where x = "n_model backend" and k = "''model''" and f = JStr] by blast
  obtain j3 where "(case n_temperature backend of None \<Rightarrow> Some j2 | Some y \<Rightarrow> index_set j2 ''temperature'' (f64_value y)) = Some j3"
    "is_object j3" "\<forall>j. get j3 j = (if j = ''temperature'' \<and> n_temperature backend \<noteq> None then map_option f64_value (n_temperature backend) else get j2 j)"
    using optional_set [OF j2(2), where x = "n_temperature backend" and k = "''temperature''" and f = f64_value] by blast
  with j2 show ?thesis by auto
qed

lemma override_value_spec:
  assumes "is_object json \<or> json = JNull"
  shows "\<exists>j. override_value backend allow_stream json = Some (j, allow_stream \<and> wants_stream json)
    \<and> is_object j \<and> (wf_json json \<longrightarrow> (\<forall>k. get j k = sent_field backend (allow_stream \<and> wants_stream json) json k))"
proof (cases "allow_stream \<and> wants_stream json")
  case True
  then have b: "is_object (ensure_usage_on_stream json)"
    "\<forall>k. get (ensure_usage_on_stream json) k = (if k = ''stream'' then Some (JBool True)
         else if k = ''stream_options'' then stream_options_sent True (get json ''stream_options'') else get json k)"
    using kept_stream_base [of json] by blast+
  from override_fields [OF b(1), of backend] b(2) True show ?thesis
    by (auto simp: override_value_def sent_field_def)
next
  case False
  from dropped_stream_base [OF assms] obtain w where w: "index_set json ''stream'' (JBool False) = Some w"
    "is_object (without_stream_options w)"
    "wf_json json \<longrightarrow> (\<forall>k. get (without_stream_options w) k = (if k = ''stream'' then Some (JBool False)
         else if k = ''stream_options'' then None else get json k))" by blast
  from override_fields [OF w(2), of backend] w False show ?thesis
    by (auto simp: override_value_def sent_field_def stream_options_sent_def)
qed

lemma override_value_panics:
  "\<not> is_object json \<Longrightarrow> json \<noteq> JNull \<Longrightarrow> override_value backend allow_stream json = None"
  by (cases json) (auto simp: override_value_def is_object_def wants_stream_def Let_def)

section \<open>Properties\<close>

text \<open>C19. What the backend is sent, on every JSON body (keys of an object distinct, as a parsed map has
  them). A body that is not JSON, or that does not look like a completion request for the node's own
  path, leaves byte for byte as it came. Of the others, an object (or null, which becomes one) is
  rewritten in four fields only: \<^verbatim>\<open>stream\<close> is what the proxy will act on, \<^verbatim>\<open>stream_options\<close> is dropped
  unless the stream is kept and then asks for usage without overriding the client, and the node's \<^verbatim>\<open>model\<close>
  and \<^verbatim>\<open>temperature\<close> replace the client's where the node has them; every other field is as it was. A body
  that is neither makes the handler panic.\<close>

theorem backend_overrides_exact:
  assumes "is_none_or wf_json (parse_value env body)"
  shows "case parse_value env body of
      Some json \<Rightarrow>
        if \<not> looks_like_completion_request json (effective_path backend path)
        then apply_backend_overrides_bytes env body backend allow_stream path = Some (body, False)
        else if is_object json \<or> json = JNull
        then \<exists>j. apply_backend_overrides_bytes env body backend allow_stream path
               = Some (case print_value env j of Inr s \<Rightarrow> s | Inl _ \<Rightarrow> body, allow_stream \<and> wants_stream json)
             \<and> is_object j
             \<and> (\<forall>k. get j k = sent_field backend (allow_stream \<and> wants_stream json) json k)
             \<and> (\<forall>k. k \<notin> {''model'', ''temperature'', ''stream'', ''stream_options''} \<longrightarrow> get j k = get json k)
        else apply_backend_overrides_bytes env body backend allow_stream path = None
    | None \<Rightarrow> apply_backend_overrides_bytes env body backend allow_stream path = Some (body, False)"
proof (cases "parse_value env body")
  case (Some json)
  have frame: "k \<notin> {''model'', ''temperature'', ''stream'', ''stream_options''} \<Longrightarrow> sent_field backend b json k = get json k" for k b
    by (simp add: sent_field_def)
  show ?thesis
  proof (cases "is_object json \<or> json = JNull")
    case True
    with assms Some obtain j where j: "override_value backend allow_stream json = Some (j, allow_stream \<and> wants_stream json)"
      "is_object j" "\<forall>k. get j k = sent_field backend (allow_stream \<and> wants_stream json) json k"
      using override_value_spec [OF True, of backend allow_stream] by auto
    have kept: "\<forall>k. k \<notin> {''model'', ''temperature'', ''stream'', ''stream_options''} \<longrightarrow> get j k = get json k"
      using j(3) frame by simp
    show ?thesis
    proof (cases "looks_like_completion_request json (effective_path backend path)")
      case looks: True
      have sent: "apply_backend_overrides_bytes env body backend allow_stream path
          = Some (case print_value env j of Inr s \<Rightarrow> s | Inl _ \<Rightarrow> body, allow_stream \<and> wants_stream json)"
        using Some looks j(1) by (simp add: apply_backend_overrides_bytes_def)
      show ?thesis
        unfolding Some option.case using looks True
        by (simp only: not_True_eq_False if_False if_True)
          (intro exI [of _ j] conjI sent j(2,3) kept)
    qed (use Some in \<open>simp add: apply_backend_overrides_bytes_def\<close>)
  qed (use Some override_value_panics [of json backend allow_stream] in
      \<open>simp add: apply_backend_overrides_bytes_def\<close>)
qed (simp add: apply_backend_overrides_bytes_def)

text \<open>A request can make the handler panic: a body that is JSON but neither an object nor null, sent to
  a path shaped like a completion route, and nothing else.\<close>

theorem backend_overrides_panics_iff:
  "apply_backend_overrides_bytes env body backend allow_stream path = None
   \<longleftrightarrow> is_some_and (\<lambda>json. \<not> is_object json \<and> json \<noteq> JNull \<and> completion_shaped_path (effective_path backend path)) (parse_value env body)"
proof (cases "parse_value env body")
  case (Some json)
  show ?thesis
  proof (cases "is_object json \<or> json = JNull")
    case True
    with override_value_spec [OF True, of backend allow_stream] Some show ?thesis
      by (auto simp: apply_backend_overrides_bytes_def)
  next
    case False
    then have "get_array json ''messages'' = None" by (cases json) (auto simp: get_array_def is_object_def)
    with False Some override_value_panics [of json backend allow_stream] show ?thesis
      by (auto simp: apply_backend_overrides_bytes_def looks_like_completion_request_def)
  qed
qed (simp add: apply_backend_overrides_bytes_def)

text \<open>Reading a compressed body through the bounded reader is decoding it in full and then looking at
  the size: with a supported encoding the result is the first attempt's whole output if that fits the cap
  and has no error, a refusal if it is larger, and the next attempt (raw deflate after zlib) or an error
  otherwise; so no decoded body is larger than the cap and none is a truncation. Without a supported
  encoding the body is untouched.\<close>

theorem bounded_decode_exact:
  "outcome_of (decode_body_bytes cs body enc) = (case Option.bind enc (\<lambda>e. attempts cs (to_ascii_lowercase e) body) of
     Some rs \<Rightarrow> settle rs
   | None \<Rightarrow> Untouched body)"
proof (cases enc)
  case (Some e)
  have "outcome_of (read_codec (zlib_decoder cs) body (\<lambda>e1. read_codec (deflate_decoder cs) body (\<lambda>e2. Err (Decode (m e1 e2)))))
      = settle [zlib_decoder cs body, deflate_decoder cs body]" for m
    by (cases "zlib_decoder cs body") (auto simp: outcome_read_codec settle_single split: option.splits)
  with Some show ?thesis
    by (simp add: decode_body_bytes_def attempts_def Let_def outcome_read_codec settle_single split: option.splits)
qed (simp add: decode_body_bytes_def)

section \<open>Witness\<close>

definition sample_serde :: serde_env where
  "sample_serde = \<lparr>parse_value = (\<lambda>_. Some (JObj [(''stream'', JBool True), (''messages'', JArr [JNull])])),
     print_value = (\<lambda>_. Ok ''{}''), display_value = (\<lambda>_. []), decode_string = (\<lambda>_. None), entry_stream = (\<lambda>_. None)\<rparr>"

theorem backend_overrides_exact_witness:
  "apply_backend_overrides_bytes sample_serde ''x'' (sample_node ''http://b'' 0 True 0) True ''/x'' = Some (''{}'', True)"
  using backend_overrides_exact [where env = sample_serde and body = "''x''" and backend = "sample_node ''http://b'' 0 True 0"
      and path = "''/x''" and allow_stream = True]
  by (auto simp: sample_serde_def keys_distinct_def is_object_def looks_like_completion_request_def get_array_def wants_stream_def
      as_bool_def)

end
