(* ===== verification/Anthropic_Api.thy ===== *)
theory Anthropic_Api
  imports Synthesis
begin

text \<open>
  The typed API messages and the conversions between the two wire formats,
  \<^verbatim>\<open>llama-proxy/src/api/openai.rs\<close>, and the Anthropic stream synthesised from a typed message
  (\<^verbatim>\<open>synthesize_anthropic_chunks\<close> of \<^verbatim>\<open>proxy/synthesis.rs\<close>).

  The derived deserialisers are modelled on objects by their field attributes. On an array they read the
  fields by position; that form is the parameter \<open>seq_forms\<close>. Parameters: \<open>serde_env\<close> for the parser and
  printer of argument texts, \<open>fresh_id\<close> for the random identifiers, by call position.
\<close>

section \<open>OpenAI responses\<close>

record function_call =
  fc_name :: string
  fc_arguments :: string

record tool_call =
  tc_id :: "string option"
  tc_call_type :: "string option"
  tc_index :: "32 word option"
  tc_function :: function_call

record response_message =
  rm_role :: string
  rm_content :: "string option"
  rm_tool_calls :: "tool_call list option"
  rm_reasoning_text :: "string option"
  rm_reasoning_opaque :: "string option"

record delta =
  d_role :: "string option"
  d_content :: "string option"
  d_tool_calls :: "tool_call list option"
  d_reasoning_text :: "string option"
  d_reasoning_opaque :: "string option"

record choice =
  ch_index :: "32 word"
  ch_message :: "response_message option"
  ch_delta :: "delta option"
  ch_finish_reason :: "string option"

record completion_tokens_details =
  ctd_reasoning_tokens :: "u64 option"
  ctd_accepted_prediction_tokens :: "u64 option"
  ctd_rejected_prediction_tokens :: "u64 option"

record usage =
  us_prompt_tokens :: u64
  us_completion_tokens :: u64
  us_total_tokens :: u64
  us_completion_tokens_details :: "completion_tokens_details option"

record timings =
  tm_prompt_n :: "u64 option"
  tm_prompt_ms :: "f64 option"
  tm_prompt_per_token_ms :: "f64 option"
  tm_prompt_per_second :: "f64 option"
  tm_predicted_n :: "u64 option"
  tm_predicted_ms :: "f64 option"
  tm_predicted_per_token_ms :: "f64 option"
  tm_predicted_per_second :: "f64 option"
  tm_cache_n :: "u64 option"

record chat_completion_response =
  cr_id :: string
  cr_object :: string
  cr_created :: u64   \<comment> \<open>an \<^verbatim>\<open>i64\<close>\<close>
  cr_model :: string
  cr_choices :: "choice list"
  cr_usage :: "usage option"
  cr_timings :: "timings option"

text \<open>\<^verbatim>\<open>deserialize_arguments\<close>: a string, null, or any other value as its printed form.\<close>

definition deserialize_arguments :: "serde_env \<Rightarrow> json \<Rightarrow> (string, string) result" where
  "deserialize_arguments env v = (case v of JStr s \<Rightarrow> Ok s | JNull \<Rightarrow> Ok ''{}'' | _ \<Rightarrow> print_value env v)"

section \<open>Anthropic messages\<close>

datatype content_block =
    Text string
  | Thinking string "string option"
  | ToolUse string string json
  | ToolResult string json "bool option"
  | Other json

record anthropic_usage =
  au_input_tokens :: u64
  au_output_tokens :: u64

record anthropic_message =
  am_id :: string
  am_message_type :: string
  am_role :: string
  am_content :: "content_block list"
  am_model :: string
  am_stop_reason :: "string option"
  am_stop_sequence :: "string option"
  am_usage :: anthropic_usage

text \<open>The four known shapes, as they are read from the wire.\<close>

datatype wire_block =
    WText string
  | WThinking string "string option"
  | WToolUse string string json
  | WToolResult string json "bool option"

record seq_forms =
  block_seq :: "json list \<Rightarrow> wire_block option"
  usage_seq :: "json list \<Rightarrow> anthropic_usage option"
  message_seq :: "json list \<Rightarrow> anthropic_message option"

text \<open>A field: required; or optional, where absence and null both mean nothing; or with a default.\<close>

definition req_str :: "(string \<times> json) list \<Rightarrow> string \<Rightarrow> string option" where
  "req_str m k = Option.bind (map_of m k) as_str"

definition opt_field :: "(json \<Rightarrow> 'a option) \<Rightarrow> (string \<times> json) list \<Rightarrow> string \<Rightarrow> 'a option option" where
  "opt_field f m k = (case map_of m k of None \<Rightarrow> Some None | Some JNull \<Rightarrow> Some None | Some v \<Rightarrow> map_option Some (f v))"

definition json_bool :: "json \<Rightarrow> bool option" where
  "json_bool v = (case v of JBool b \<Rightarrow> Some b | _ \<Rightarrow> None)"

definition tagged_block :: "(string \<times> json) list \<Rightarrow> wire_block option" where
  "tagged_block m = Option.bind (req_str m ''type'') (\<lambda>t.
     if t = ''text'' then map_option WText (req_str m ''text'')
     else if t = ''thinking'' then
       Option.bind (req_str m ''thinking'') (\<lambda>x. map_option (WThinking x) (opt_field as_str m ''signature''))
     else if t = ''tool_use'' then
       Option.bind (req_str m ''id'') (\<lambda>i. Option.bind (req_str m ''name'') (\<lambda>n. map_option (WToolUse i n) (map_of m ''input'')))
     else if t = ''tool_result'' then
       Option.bind (req_str m ''tool_use_id'') (\<lambda>i. Option.bind (map_of m ''content'') (\<lambda>c.
         map_option (WToolResult i c) (opt_field json_bool m ''is_error'')))
     else None)"

definition wire_of_value :: "seq_forms \<Rightarrow> json \<Rightarrow> wire_block option" where
  "wire_of_value sf v = (case v of JObj m \<Rightarrow> tagged_block m | JArr xs \<Rightarrow> block_seq sf xs | _ \<Rightarrow> None)"

definition deserialize_block :: "seq_forms \<Rightarrow> json \<Rightarrow> content_block" where
  "deserialize_block sf raw = (case wire_of_value sf raw of
       Some (WText t) \<Rightarrow> Text t
     | Some (WThinking t sig) \<Rightarrow> Thinking t sig
     | Some (WToolUse i n x) \<Rightarrow> ToolUse i n x
     | Some (WToolResult i c e) \<Rightarrow> ToolResult i c e
     | None \<Rightarrow> Other raw)"

definition opt_value :: "('a \<Rightarrow> json) \<Rightarrow> 'a option \<Rightarrow> json" where
  "opt_value f x = (case x of None \<Rightarrow> JNull | Some v \<Rightarrow> f v)"

fun serialize_block :: "content_block \<Rightarrow> json" where
  "serialize_block (Text t) = JObj [(''type'', JStr ''text''), (''text'', JStr t)]"
| "serialize_block (Thinking t sig) =
     JObj [(''type'', JStr ''thinking''), (''thinking'', JStr t), (''signature'', opt_value JStr sig)]"
| "serialize_block (ToolUse i n x) =
     JObj [(''type'', JStr ''tool_use''), (''id'', JStr i), (''name'', JStr n), (''input'', x)]"
| "serialize_block (ToolResult i c e) =
     JObj [(''type'', JStr ''tool_result''), (''tool_use_id'', JStr i), (''content'', c), (''is_error'', opt_value JBool e)]"
| "serialize_block (Other v) = v"

definition u64_field :: "(string \<times> json) list \<Rightarrow> string \<Rightarrow> u64 option" where
  "u64_field m k = (case map_of m k of None \<Rightarrow> Some 0 | Some v \<Rightarrow> as_u64 v)"

definition usage_of_value :: "seq_forms \<Rightarrow> json \<Rightarrow> anthropic_usage option" where
  "usage_of_value sf v = (case v of
       JObj m \<Rightarrow> Option.bind (u64_field m ''input_tokens'') (\<lambda>i. Option.bind (u64_field m ''output_tokens'') (\<lambda>out.
         Some \<lparr>au_input_tokens = i, au_output_tokens = out\<rparr>))
     | JArr xs \<Rightarrow> usage_seq sf xs
     | _ \<Rightarrow> None)"

definition default_usage :: anthropic_usage where
  "default_usage = \<lparr>au_input_tokens = 0, au_output_tokens = 0\<rparr>"

definition message_of_value :: "seq_forms \<Rightarrow> json \<Rightarrow> anthropic_message option" where
  "message_of_value sf v = (case v of
       JObj m \<Rightarrow>
         Option.bind (req_str m ''id'') (\<lambda>i. Option.bind (req_str m ''type'') (\<lambda>ty. Option.bind (req_str m ''role'') (\<lambda>role.
         Option.bind (case map_of m ''content'' of None \<Rightarrow> Some [] | Some c \<Rightarrow> map_option (map (deserialize_block sf)) (as_array c)) (\<lambda>content.
         Option.bind (req_str m ''model'') (\<lambda>model. Option.bind (opt_field as_str m ''stop_reason'') (\<lambda>sr.
         Option.bind (opt_field as_str m ''stop_sequence'') (\<lambda>sq.
         Option.bind (case map_of m ''usage'' of None \<Rightarrow> Some default_usage | Some u \<Rightarrow> usage_of_value sf u) (\<lambda>u.
           Some \<lparr>am_id = i, am_message_type = ty, am_role = role, am_content = content, am_model = model,
                 am_stop_reason = sr, am_stop_sequence = sq, am_usage = u\<rparr>))))))))
     | JArr xs \<Rightarrow> message_seq sf xs
     | _ \<Rightarrow> None)"

section \<open>From Anthropic to OpenAI\<close>

record collected =
  content_parts :: "string list"
  calls :: "tool_call list"
  reasoning_parts :: "string list"
  opaque :: "string option"

definition text_parts :: "json list \<Rightarrow> string list" where
  "text_parts parts = List.map_filter (\<lambda>p. if get_str p ''type'' = Some ''text'' then get_str p ''text'' else None) parts"

definition tool_result_text :: "json \<Rightarrow> string list" where
  "tool_result_text content = (case content of
       JStr s \<Rightarrow> [s]
     | JArr parts \<Rightarrow> (let texts = text_parts parts in if texts = [] then [] else [join [NEWLINE] texts])
     | _ \<Rightarrow> [])"

definition print_or :: "serde_env \<Rightarrow> json \<Rightarrow> string" where
  "print_or env v = (case print_value env v of Inr s \<Rightarrow> s | Inl _ \<Rightarrow> ''{}'')"

fun collect_block :: "serde_env \<Rightarrow> content_block \<Rightarrow> collected \<Rightarrow> collected" where
  "collect_block env (Text t) c = c\<lparr>content_parts := content_parts c @ [t]\<rparr>"
| "collect_block env (Thinking t sig) c =
     c\<lparr>reasoning_parts := reasoning_parts c @ [t], opaque := (if opaque c = None then sig else opaque c)\<rparr>"
| "collect_block env (ToolUse i n x) c = c\<lparr>calls := calls c @
     [\<lparr>tc_id = Some i, tc_call_type = Some ''function'', tc_index = Some (of_nat (length (calls c))),
       tc_function = \<lparr>fc_name = n, fc_arguments = print_or env x\<rparr>\<rparr>]\<rparr>"
| "collect_block env (ToolResult i x e) c = c\<lparr>content_parts := content_parts c @ tool_result_text x\<rparr>"
| "collect_block env (Other v) c = c"

definition collect_blocks :: "serde_env \<Rightarrow> content_block list \<Rightarrow> collected" where
  "collect_blocks env bs = fold (collect_block env) bs \<lparr>content_parts = [], calls = [], reasoning_parts = [], opaque = None\<rparr>"

definition joined :: "string list \<Rightarrow> string option" where
  "joined parts = (if parts = [] then None else Some (join [NEWLINE] parts))"

definition stop_to_finish :: "string \<Rightarrow> string" where
  "stop_to_finish reason =
     (if reason = ''end_turn'' then ''stop'' else if reason = ''max_tokens'' then ''length''
      else if reason = ''stop_sequence'' then ''stop'' else if reason = ''tool_use'' then ''tool_calls'' else reason)"

text \<open>The sum of the token counts wraps, as in a release build.\<close>

definition response_of_message :: "serde_env \<Rightarrow> anthropic_message \<Rightarrow> chat_completion_response" where
  "response_of_message env msg =
     (let c = collect_blocks env (am_content msg) in
      \<lparr>cr_id = am_id msg, cr_object = ''chat.completion'', cr_created = 0, cr_model = am_model msg,
       cr_choices = [\<lparr>ch_index = 0,
         ch_message = Some \<lparr>rm_role = am_role msg, rm_content = joined (content_parts c),
           rm_tool_calls = (if calls c = [] then None else Some (calls c)),
           rm_reasoning_text = joined (reasoning_parts c), rm_reasoning_opaque = opaque c\<rparr>,
         ch_delta = None, ch_finish_reason = map_option stop_to_finish (am_stop_reason msg)\<rparr>],
       cr_usage = Some \<lparr>us_prompt_tokens = au_input_tokens (am_usage msg), us_completion_tokens = au_output_tokens (am_usage msg),
         us_total_tokens = au_input_tokens (am_usage msg) + au_output_tokens (am_usage msg), us_completion_tokens_details = None\<rparr>,
       cr_timings = None\<rparr>)"

section \<open>From OpenAI to Anthropic\<close>

fun tool_uses :: "serde_env \<Rightarrow> (nat \<Rightarrow> string) \<Rightarrow> nat \<Rightarrow> tool_call list \<Rightarrow> content_block list" where
  "tool_uses env fresh_id n [] = []"
| "tool_uses env fresh_id n (tc # tcs) =
     ToolUse (some_or (tc_id tc) (''toolu_'' @ fresh_id n)) (fc_name (tc_function tc))
       (some_or (parse_value env (fc_arguments (tc_function tc))) (JObj []))
     # tool_uses env fresh_id (Suc n) tcs"

definition message_blocks :: "serde_env \<Rightarrow> (nat \<Rightarrow> string) \<Rightarrow> response_message \<Rightarrow> content_block list" where
  "message_blocks env fresh_id m =
     (let blocks = option_list (\<lambda>r. Thinking r None) (rm_reasoning_text m)
                   @ (case rm_content m of Some t \<Rightarrow> if t \<noteq> [] then [Text t] else [] | None \<Rightarrow> [])
                   @ tool_uses env fresh_id 0 (some_or (rm_tool_calls m) []) in
      if blocks = [] then [Text []] else blocks)"

definition first_of :: "'a list \<Rightarrow> 'a option" where
  "first_of xs = (case xs of [] \<Rightarrow> None | x # _ \<Rightarrow> Some x)"

definition message_of_response :: "serde_env \<Rightarrow> (nat \<Rightarrow> string) \<Rightarrow> chat_completion_response \<Rightarrow> anthropic_message" where
  "message_of_response env fresh_id resp =
     \<lparr>am_id = cr_id resp, am_message_type = ''message'', am_role = ''assistant'',
      am_content = (case Option.bind (first_of (cr_choices resp)) ch_message of
         Some m \<Rightarrow> message_blocks env fresh_id m | None \<Rightarrow> [Text []]),
      am_model = cr_model resp,
      am_stop_reason = map_option map_openai_finish_to_stop (Option.bind (first_of (cr_choices resp)) ch_finish_reason),
      am_stop_sequence = None,
      am_usage = (case cr_usage resp of
         Some u \<Rightarrow> \<lparr>au_input_tokens = us_prompt_tokens u, au_output_tokens = us_completion_tokens u\<rparr>
       | None \<Rightarrow> default_usage)\<rparr>"

section \<open>The synthesised stream\<close>

definition build_message_start_event :: "anthropic_message \<Rightarrow> json" where
  "build_message_start_event msg = JObj [(''type'', JStr ''message_start''), (''message'', JObj
     [(''id'', JStr (am_id msg)), (''type'', JStr ''message''), (''role'', JStr (am_role msg)), (''model'', JStr (am_model msg)),
      (''content'', JArr []), (''stop_reason'', JNull), (''stop_sequence'', JNull),
      (''usage'', JObj [(''input_tokens'', JNum (PosInt (au_input_tokens (am_usage msg)))), (''output_tokens'', JNum (PosInt 0))])])]"

definition is_tool_use :: "content_block \<Rightarrow> bool" where
  "is_tool_use b = (case b of ToolUse _ _ _ \<Rightarrow> True | _ \<Rightarrow> False)"

definition derive_stop_reason :: "anthropic_message \<Rightarrow> string" where
  "derive_stop_reason msg = (if list_ex is_tool_use (am_content msg) then ''tool_use'' else ''end_turn'')"

definition build_message_delta_event :: "anthropic_message \<Rightarrow> json" where
  "build_message_delta_event msg = JObj [(''type'', JStr ''message_delta''),
     (''delta'', JObj [(''stop_reason'', JStr (some_or (am_stop_reason msg) (derive_stop_reason msg))),
                     (''stop_sequence'', opt_value JStr (am_stop_sequence msg))]),
     (''usage'', JObj [(''output_tokens'', JNum (PosInt (au_output_tokens (am_usage msg))))])]"

fun anthropic_block_frames :: "serde_env \<Rightarrow> nat \<Rightarrow> nat \<Rightarrow> content_block \<Rightarrow> frame list" where
  "anthropic_block_frames env n idx (Text t) =
     block_frames idx (build_content_block_start_event idx ''text'')
       (map (build_content_block_delta_event idx ''text_delta'') (split_chars t n))"
| "anthropic_block_frames env n idx (Thinking t sig) =
     block_frames idx (build_thinking_block_start_event idx sig)
       (map (build_thinking_block_delta_event idx) (split_chars t n) @ option_list (build_signature_delta_event idx) sig)"
| "anthropic_block_frames env n idx (ToolUse i name x) =
     block_frames idx (build_tool_use_block_start_event idx i name) [build_tool_use_block_delta_event idx (print_or env x)]"
| "anthropic_block_frames env n idx (ToolResult i c e) =
     block_frames idx (raw_block_start_event idx (JObj ([(''type'', JStr ''tool_result''), (''tool_use_id'', JStr i), (''content'', c)]
       @ option_list (\<lambda>b. (''is_error'', JBool b)) e))) []"
| "anthropic_block_frames env n idx (Other v) = block_frames idx (raw_block_start_event idx v) []"

fun anthropic_blocks :: "serde_env \<Rightarrow> nat \<Rightarrow> nat \<Rightarrow> content_block list \<Rightarrow> frame list list" where
  "anthropic_blocks env n idx [] = []"
| "anthropic_blocks env n idx (b # bs) = anthropic_block_frames env n idx b # anthropic_blocks env n (Suc idx) bs"

definition synthesize_anthropic_chunks :: "serde_env \<Rightarrow> anthropic_message \<Rightarrow> nat \<Rightarrow> frame list" where
  "synthesize_anthropic_chunks env msg n =
     (''message_start'', build_message_start_event msg)
     # concat (anthropic_blocks env n 0 (am_content msg))
     @ [(''message_delta'', build_message_delta_event msg), (''message_stop'', build_message_stop_event)]"

end
