(* ===== verification/Anthropic_Stream.thy ===== *)
theory Anthropic_Stream
  imports Anthropic_Api Claude_Stream
begin

text \<open>
  The typed Anthropic messages: rereading what was written, the conversion to the OpenAI shape and back,
  and the stream synthesised from a message against the merge of Anthropic events.
\<close>

section \<open>Content blocks on the wire\<close>

lemma opt_field_written:
  "map_of m k = Some (opt_value f x) \<Longrightarrow> (\<And>v. g (f v) = Some v) \<Longrightarrow> (\<And>v. f v \<noteq> JNull) \<Longrightarrow> opt_field g m k = Some x"
  by (cases x) (auto simp: opt_field_def opt_value_def split: json.splits, metis+)

fun block_known :: "content_block \<Rightarrow> bool" where
  "block_known (Other v) = False"
| "block_known _ = True"

lemma reread_known: "block_known b \<Longrightarrow> deserialize_block sf (serialize_block b) = b"
proof (cases b)
  case (Thinking t sig)
  have "opt_field as_str [(''type'', JStr ''thinking''), (''thinking'', JStr t), (''signature'', opt_value JStr sig)] ''signature'' = Some sig"
    by (rule opt_field_written) auto
  with Thinking show ?thesis by (simp add: deserialize_block_def wire_of_value_def tagged_block_def req_str_def)
next
  case (ToolResult i c e)
  have "opt_field json_bool [(''type'', JStr ''tool_result''), (''tool_use_id'', JStr i), (''content'', c), (''is_error'', opt_value JBool e)] ''is_error'' = Some e"
    by (rule opt_field_written) (auto simp: json_bool_def)
  with ToolResult show ?thesis by (simp add: deserialize_block_def wire_of_value_def tagged_block_def req_str_def)
qed (auto simp: deserialize_block_def wire_of_value_def tagged_block_def req_str_def)

text \<open>A content block survives reading and writing: what is read from any value, written and read
  again is the same block, and a block of an unknown shape is written back as the value it was.\<close>

theorem content_block_reread:
  "deserialize_block sf (serialize_block (deserialize_block sf v)) = deserialize_block sf v
   \<and> (wire_of_value sf v = None \<longleftrightarrow> deserialize_block sf v = Other v)
   \<and> (deserialize_block sf v = Other v \<or> block_known (deserialize_block sf v))"
proof -
  have *: "deserialize_block sf v = Other v \<or> block_known (deserialize_block sf v)"
    by (simp add: deserialize_block_def split: option.splits wire_block.splits)
  then have "deserialize_block sf (serialize_block (deserialize_block sf v)) = deserialize_block sf v"
    using reread_known by auto
  with * show ?thesis by (auto simp: deserialize_block_def split: option.splits wire_block.splits)
qed

section \<open>There and back\<close>

definition texts_of :: "content_block list \<Rightarrow> string list" where
  "texts_of bs = concat (map (\<lambda>b. case b of Text t \<Rightarrow> [t] | ToolResult _ c _ \<Rightarrow> tool_result_text c | _ \<Rightarrow> []) bs)"

definition thoughts_of :: "content_block list \<Rightarrow> string list" where
  "thoughts_of bs = concat (map (\<lambda>b. case b of Thinking t _ \<Rightarrow> [t] | _ \<Rightarrow> []) bs)"

definition call_of :: "serde_env \<Rightarrow> tool_call \<Rightarrow> content_block \<Rightarrow> bool" where
  "call_of env tc b = (case b of ToolUse i n x \<Rightarrow>
     tc_id tc = Some i \<and> fc_name (tc_function tc) = n \<and> fc_arguments (tc_function tc) = print_or env x | _ \<Rightarrow> False)"

lemma collect_fold:
  "let r = fold (collect_block env) bs c in
     content_parts r = content_parts c @ texts_of bs \<and> reasoning_parts r = reasoning_parts c @ thoughts_of bs
     \<and> (\<exists>tcs. calls r = calls c @ tcs \<and> list_all2 (call_of env) tcs (filter is_tool_use bs))"
proof (induction bs arbitrary: c)
  case Nil
  then show ?case by (simp add: texts_of_def thoughts_of_def)
next
  case (Cons b bs)
  show ?case using Cons.IH [of "collect_block env b c"]
    by (cases b) (auto simp: Let_def texts_of_def thoughts_of_def is_tool_use_def call_of_def)
qed

text \<open>The printer and parser agree on the tool inputs of a message.\<close>

definition inputs_reparse :: "serde_env \<Rightarrow> content_block list \<Rightarrow> bool" where
  "inputs_reparse env bs = list_all (\<lambda>b. case b of ToolUse i n x \<Rightarrow> parse_value env (print_or env x) = Some x | _ \<Rightarrow> True) bs"

lemma tool_uses_back:
  "list_all2 (call_of env) tcs bs \<Longrightarrow> inputs_reparse env bs \<Longrightarrow> tool_uses env fresh_id n tcs = bs"
  by (induction tcs bs arbitrary: n rule: list_all2_induct)
    (auto simp: call_of_def inputs_reparse_def split: content_block.splits)

definition canonical_blocks :: "content_block list \<Rightarrow> content_block list" where
  "canonical_blocks bs =
     (let cs = option_list (\<lambda>t. Thinking t None) (joined (thoughts_of bs))
             @ (if join [NEWLINE] (texts_of bs) \<noteq> [] then [Text (join [NEWLINE] (texts_of bs))] else [])
             @ filter is_tool_use bs in
      if cs = [] then [Text []] else cs)"

definition canonical_stop :: "string \<Rightarrow> string" where
  "canonical_stop r = (if r \<in> set [''stop_sequence'', ''stop''] then ''end_turn'' else if r = ''length'' then ''max_tokens''
     else if r = ''tool_calls'' then ''tool_use'' else r)"

lemma finish_back: "map_openai_finish_to_stop (stop_to_finish r) = canonical_stop r"
  by (simp add: map_openai_finish_to_stop_def stop_to_finish_def canonical_stop_def)

lemma there_and_back:
  assumes "inputs_reparse env (am_content msg)"
  shows "message_of_response env fresh_id (response_of_message env msg) = msg
    \<lparr>am_message_type := ''message'', am_role := ''assistant'', am_content := canonical_blocks (am_content msg),
     am_stop_reason := map_option canonical_stop (am_stop_reason msg), am_stop_sequence := None\<rparr>"
proof -
  let ?bs = "am_content msg" and ?c = "collect_blocks env (am_content msg)"
  obtain tcs where c: "content_parts ?c = texts_of ?bs" "reasoning_parts ?c = thoughts_of ?bs" "calls ?c = tcs"
    "list_all2 (call_of env) tcs (filter is_tool_use ?bs)"
    using collect_fold [of env ?bs "\<lparr>content_parts = [], calls = [], reasoning_parts = [], opaque = None\<rparr>"]
    by (auto simp: collect_blocks_def Let_def)
  have "inputs_reparse env (filter is_tool_use ?bs)" using assms by (auto simp: inputs_reparse_def list_all_iff)
  from tool_uses_back [OF c(4) this] have uses: "tool_uses env fresh_id 0 tcs = filter is_tool_use ?bs" .
  have "rm_content m = joined (texts_of ?bs) \<Longrightarrow> rm_reasoning_text m = joined (thoughts_of ?bs) \<Longrightarrow>
      rm_tool_calls m = (if tcs = [] then None else Some tcs) \<Longrightarrow> message_blocks env fresh_id m = canonical_blocks ?bs" for m
    using uses by (auto simp: message_blocks_def canonical_blocks_def Let_def joined_def)
  moreover have "(\<lambda>r. map_openai_finish_to_stop (stop_to_finish r)) = canonical_stop" by (simp add: fun_eq_iff finish_back)
  ultimately show ?thesis
    using c by (simp add: message_of_response_def response_of_message_def Let_def first_of_def option.map_comp comp_def)
qed

text \<open>A canonical message is its own canonical form.\<close>

lemma canonical_blocks_idem: "canonical_blocks (canonical_blocks bs) = canonical_blocks bs"
proof -
  define th ts us where "th = joined (thoughts_of bs)" and "ts = join [NEWLINE] (texts_of bs)" and "us = filter is_tool_use bs"
  have uses: "texts_of us = []" "thoughts_of us = []" "filter is_tool_use us = us"
    unfolding us_def by (induction bs) (auto simp: texts_of_def thoughts_of_def is_tool_use_def split: content_block.splits)
  have append: "texts_of (xs @ ys) = texts_of xs @ texts_of ys" "thoughts_of (xs @ ys) = thoughts_of xs @ thoughts_of ys" for xs ys
    by (simp_all add: texts_of_def thoughts_of_def)
  have one: "texts_of [Text t] = [t]" "thoughts_of [Text t] = []" "texts_of [Thinking t s] = []" "thoughts_of [Thinking t s] = [t]"
    "texts_of [] = []" "thoughts_of [] = []" "\<not> is_tool_use (Text t)" "\<not> is_tool_use (Thinking t s)"
    "texts_of (Thinking t s # xs) = texts_of xs" "thoughts_of (Thinking t s # xs) = t # thoughts_of xs"
    "texts_of (Text t # xs) = t # texts_of xs" "thoughts_of (Text t # xs) = thoughts_of xs" for t s xs
    by (simp_all add: texts_of_def thoughts_of_def is_tool_use_def)
  have c: "canonical_blocks bs = (let cs = option_list (\<lambda>t. Thinking t None) th @ (if ts \<noteq> [] then [Text ts] else []) @ us
      in if cs = [] then [Text []] else cs)"
    by (simp add: canonical_blocks_def th_def ts_def us_def)
  show ?thesis
    by (cases th; cases "ts = []"; cases "us = []")
      (simp_all add: c canonical_blocks_def [of "_ # _"] canonical_blocks_def [of us] Let_def append one uses option_list_def joined_def)
qed

lemma canonical_inputs_reparse: "inputs_reparse env bs \<Longrightarrow> inputs_reparse env (canonical_blocks bs)"
  by (auto simp: inputs_reparse_def list_all_iff canonical_blocks_def Let_def option_list_def split: option.splits if_splits)

lemma canonical_stop_idem: "canonical_stop (canonical_stop r) = canonical_stop r"
  by (simp add: canonical_stop_def)

text \<open>C21. Converting an Anthropic message to the OpenAI shape and back gives exactly its canonical form,
  where every tool input reads back from its printed text. Kept: the identifier, the model, the token counts,
  and every tool use in order with its identifier, name and input. Joined: the texts (those of tool results
  included) become one text block, the thoughts one thinking block in front of it. Lost, as the two formats
  have it: thinking signatures, blocks of other types, the stop sequence and the order of texts against tool
  uses; the stop reason keeps only what both formats name. Nothing more is lost by converting again: the
  canonical form comes back unchanged.\<close>

theorem anthropic_openai_round_trip:
  assumes "inputs_reparse env (am_content msg)"
  defines "canonical \<equiv> msg
    \<lparr>am_message_type := ''message'', am_role := ''assistant'', am_content := canonical_blocks (am_content msg),
     am_stop_reason := map_option canonical_stop (am_stop_reason msg), am_stop_sequence := None\<rparr>"
  shows "message_of_response env fresh_id (response_of_message env msg) = canonical
    \<and> message_of_response env fresh_id (response_of_message env canonical) = canonical"
proof
  show "message_of_response env fresh_id (response_of_message env msg) = canonical"
    unfolding canonical_def by (rule there_and_back [OF assms(1)])
  have "inputs_reparse env (am_content canonical)"
    using canonical_inputs_reparse [OF assms(1)] by (simp add: canonical_def)
  from there_and_back [OF this] show "message_of_response env fresh_id (response_of_message env canonical) = canonical"
    by (simp add: canonical_def canonical_blocks_idem canonical_stop_idem option.map_comp comp_def)
qed

section \<open>The stream of a message\<close>

text \<open>A block as the merge of its frames rebuilds it: as written, with a tool's input as its text.\<close>

fun streamed_block :: "serde_env \<Rightarrow> content_block \<Rightarrow> json" where
  "streamed_block env (Text t) = text_block t"
| "streamed_block env (Thinking t sig) =
     JObj ([(''type'', JStr ''thinking''), (''thinking'', JStr t)] @ option_list (\<lambda>s. (''signature'', JStr s)) sig)"
| "streamed_block env (ToolUse i n x) = tool_block i n (print_or env x)"
| "streamed_block env (ToolResult i c e) =
     JObj ([(''type'', JStr ''tool_result''), (''tool_use_id'', JStr i), (''content'', c)] @ option_list (\<lambda>b. (''is_error'', JBool b)) e)"
| "streamed_block env (Other v) = v"

lemma merge_signature:
  assumes "get msg ''content'' = Some (JArr (arr @ [JObj m]))" "length arr \<le> MAX_TRACKED_BLOCK_INDEX"
  shows "merge_anthropic_event (as_event (''content_block_delta'', build_signature_delta_event (length arr) s)) msg = Some msg"
proof -
  let ?d = "JObj [(''type'', JStr ''signature_delta''), (''signature'', JStr s)]"
  have "merge_block_delta (length arr) ?d (arr @ [JObj m]) = arr @ [JObj m]"
    by (simp add: merge_block_delta_def pad_def push_delta_def get_str_def)
  then show ?thesis
    using assms block_index_usize [OF assms(2), of "build_signature_delta_event (length arr) s"]
    by (simp add: merge_anthropic_event_def build_signature_delta_event_def block_delta_event_def in_content_at with_content_def update_key_self)
qed

text \<open>A signature frame after the deltas changes nothing: the start carried it.\<close>

lemma renders_signature:
  assumes "renders idx (block_frames idx start ds) (JObj m)"
  shows "renders idx (block_frames idx start (ds @ option_list (build_signature_delta_event idx) sig)) (JObj m)"
proof (unfold renders_def, intro allI impI)
  fix msg arr
  assume i: "idx \<le> MAX_TRACKED_BLOCK_INDEX" "length arr = idx" "get msg ''content'' = Some (JArr arr)"
  define opened where "opened = (''content_block_start'', start) # map (\<lambda>d. (''content_block_delta'', d)) ds"
  let ?r = "with_content (arr @ [JObj m]) msg"
  let ?stop = "(''content_block_stop'', build_content_block_stop_event idx)"
  have "merge_anthropic_from (map as_event (block_frames idx start ds)) msg = Some ?r" using assms i by (simp add: renders_def)
  moreover have "block_frames idx start ds = opened @ [?stop]" by (simp add: block_frames_def opened_def)
  moreover have "merge_anthropic_from [as_event ?stop] = Some"
    using merge_stop by (simp add: fun_eq_iff del: as_event.simps)
  ultimately have "merge_anthropic_from (map as_event opened) msg = Some ?r"
    by (simp only: map_append list.map(1,2) merge_anthropic_append bind_runit)
  moreover have "merge_anthropic_event (as_event (''content_block_delta'', build_signature_delta_event idx s)) ?r = Some ?r" for s
    using merge_signature [OF with_content_get [OF i(3)], where arr = arr and m = m and s = s] i(1,2) by simp
  moreover have "block_frames idx start (ds @ option_list (build_signature_delta_event idx) sig)
      = opened @ (option_list (\<lambda>s. (''content_block_delta'', build_signature_delta_event idx s)) sig @ [?stop])"
    by (simp add: block_frames_def opened_def option_list_def split: option.splits)
  moreover have "merge_anthropic_event (as_event ?stop) ?r = Some ?r" by (rule merge_stop)
  ultimately show "merge_anthropic_from (map as_event (block_frames idx start (ds @ option_list (build_signature_delta_event idx) sig))) msg = Some ?r"
    by (cases sig) (simp_all only: map_append merge_anthropic_append list.map option_list_def option.case append.simps
        bind.bind_lunit merge_anthropic_from.simps)
qed

lemma renders_thinking_signed:
  "renders idx (block_frames idx (build_thinking_block_start_event idx sig) (map (build_thinking_block_delta_event idx) parts))
     (JObj ([(''type'', JStr ''thinking''), (''thinking'', JStr (concat parts))] @ option_list (\<lambda>s. (''signature'', JStr s)) sig))"
proof -
  let ?m = "[(''type'', JStr ''thinking''), (''thinking'', JStr [])] @ option_list (\<lambda>s. (''signature'', JStr s)) sig"
  have "fold (push_entry ''thinking'') parts ?m = [(''type'', JStr ''thinking''), (''thinking'', JStr (concat parts))]
      @ option_list (\<lambda>s. (''signature'', JStr s)) sig"
    by (subst fold_push_entry [of _ _ "[]"]) auto
  with renders_deltas [of "''thinking''" "''thinking''" idx ?m "''thinking_delta''" parts] show ?thesis
    by (simp add: delta_field_def build_thinking_block_start_event_def raw_block_start_event_def build_thinking_block_delta_event_def [abs_def])
qed

lemma renders_block: "renders idx (anthropic_block_frames env n idx b) (streamed_block env b)"
proof (cases b)
  case (Text t)
  then show ?thesis using renders_text [of idx "split_chars t n"] by (simp add: split_chars_concat)
next
  case (Thinking t sig)
  then show ?thesis using renders_signature [OF renders_thinking_signed [of idx sig "split_chars t n"], of sig]
    by (simp add: split_chars_concat)
qed (simp_all add: renders_tool renders_raw)

lemma renders_blocks: "renders_all idx (anthropic_blocks env n idx bs) (map (streamed_block env) bs)"
  by (induction bs arbitrary: idx) (simp_all add: renders_block)

text \<open>C20. The Anthropic stream made from an Anthropic message says what the message said. Merging the
  synthesised frames does not panic and gives a message with the same identifier, role and model, whose
  content is each block as it was written (a tool's input as its printed text), with the stop reason (derived
  where it was missing) and both token counts.\<close>

theorem anthropic_stream_round_trip:
  assumes "length (am_content msg) \<le> Suc MAX_TRACKED_BLOCK_INDEX"
  shows "\<exists>r. merge_anthropic_events (map as_event (synthesize_anthropic_chunks env msg n)) = Some r
    \<and> get r ''content'' = Some (JArr (map (streamed_block env) (am_content msg)))
    \<and> get r ''stop_reason'' = Some (JStr (some_or (am_stop_reason msg) (derive_stop_reason msg)))
    \<and> get r ''usage'' = Some (JObj [(''input_tokens'', JNum (PosInt (au_input_tokens (am_usage msg)))),
         (''output_tokens'', JNum (PosInt (au_output_tokens (am_usage msg))))])
    \<and> get r ''id'' = Some (JStr (am_id msg)) \<and> get r ''role'' = Some (JStr (am_role msg)) \<and> get r ''model'' = Some (JStr (am_model msg))"
proof -
  define start where "start = JObj [(''id'', JStr (am_id msg)), (''type'', JStr ''message''), (''role'', JStr (am_role msg)),
      (''model'', JStr (am_model msg)), (''content'', JArr []), (''stop_reason'', JNull), (''stop_sequence'', JNull),
      (''usage'', JObj [(''input_tokens'', JNum (PosInt (au_input_tokens (am_usage msg)))), (''output_tokens'', JNum (PosInt 0))])]"
  have "merge_anthropic_from (map as_event (concat (anthropic_blocks env n 0 (am_content msg)))) start
      = Some (with_content (map (streamed_block env) (am_content msg)) start)"
    using merge_renders [of "[]" "anthropic_blocks env n 0 (am_content msg)" "map (streamed_block env) (am_content msg)" start]
      renders_blocks [of 0] assms by (simp add: start_def)
  moreover have "merge_anthropic_event (as_event (''message_start'', build_message_start_event msg)) m = Some start" for m
    by (simp add: merge_anthropic_event_def build_message_start_event_def start_def)
  ultimately show ?thesis
    by (simp add: merge_anthropic_events_def synthesize_anthropic_chunks_def merge_anthropic_append start_def with_content_def
        merge_anthropic_event_def build_message_delta_event_def merge_message_delta_def when_some_def get_str_def)
qed

section \<open>Witnesses\<close>

definition sample_parser :: serde_env where
  "sample_parser = \<lparr>parse_value = (\<lambda>s. if s = ''1'' then Some (JNum (PosInt 1)) else None),
     print_value = (\<lambda>v. if v = JNum (PosInt 1) then Ok ''1'' else Err ''?''), display_value = (\<lambda>_. []),
     decode_string = (\<lambda>_. None), entry_stream = (\<lambda>_. None)\<rparr>"

definition sample_message :: anthropic_message where
  "sample_message = \<lparr>am_id = ''m'', am_message_type = ''message'', am_role = ''assistant'',
     am_content = [Text ''a'', ToolUse ''t'' ''f'' (JNum (PosInt 1)), Text ''b''], am_model = ''x'', am_stop_reason = None,
     am_stop_sequence = None, am_usage = \<lparr>au_input_tokens = 3, au_output_tokens = 4\<rparr>\<rparr>"

theorem anthropic_openai_round_trip_witness:
  "am_content (message_of_response sample_parser (\<lambda>_. []) (response_of_message sample_parser sample_message))
     = [Text ([CHR ''a''] @ [NEWLINE] @ [CHR ''b'']), ToolUse ''t'' ''f'' (JNum (PosInt 1))]"
  by (subst anthropic_openai_round_trip [THEN conjunct1])
    (simp_all add: inputs_reparse_def sample_message_def sample_parser_def print_or_def canonical_blocks_def texts_of_def
      thoughts_of_def joined_def option_list_def is_tool_use_def)

theorem anthropic_stream_round_trip_witness:
  "\<exists>r. merge_anthropic_events (map as_event (synthesize_anthropic_chunks sample_parser sample_message 1)) = Some r
     \<and> get r ''stop_reason'' = Some (JStr ''tool_use'')"
proof -
  have "length (am_content sample_message) \<le> Suc MAX_TRACKED_BLOCK_INDEX"
    by (simp add: sample_message_def MAX_TRACKED_BLOCK_INDEX_def)
  from anthropic_stream_round_trip [OF this, of sample_parser 1] show ?thesis
    by (auto simp: sample_message_def derive_stop_reason_def is_tool_use_def)
qed

end
