(* ===== verification/Augment.thy ===== *)
theory Augment
  imports Anthropic_Api Reprompt
begin

text \<open>
  Request augmentation, \<^verbatim>\<open>llama-proxy/src/augment.rs\<close>, with the Anthropic injection of
  \<^verbatim>\<open>proxy/handler.rs\<close> (\<^verbatim>\<open>inject_into_anthropic\<close>) and the request types of \<^verbatim>\<open>api/openai.rs\<close> it works on.

  Parameters: the HTTP client builder, the answers of the file system, the answer of the augment backend,
  and the derived conversions of \<^verbatim>\<open>ChatCompletionRequest\<close>. The outer \<open>None\<close> of an injection is a panic.
\<close>

section \<open>The client\<close>

record 'c augment_backend =
  aug_url :: string
  aug_model :: string
  aug_prompt_file :: string
  aug_request_prompt_file :: string
  aug_http_client :: 'c

definition augment_from_config ::
  "(duration \<Rightarrow> ('c, string) result) \<Rightarrow> augment_backend_config \<Rightarrow> ('c augment_backend, string) result" where
  "augment_from_config build config = and_then (build (from_secs (ab_timeout_secs config))) (\<lambda>client.
     Ok \<lparr>aug_url = trim_end_matches (CHR ''/'') (ab_url config), aug_model = ab_model config,
         aug_prompt_file = ab_prompt_file config, aug_request_prompt_file = ab_request_prompt_file config,
         aug_http_client = client\<rparr>)"

definition load_request_prompt :: "(string \<Rightarrow> file_state) \<Rightarrow> 'c augment_backend \<Rightarrow> (string, string) result" where
  "load_request_prompt files ab = fs_text (files (aug_request_prompt_file ab))"

definition load_backend_prompt :: "(string \<Rightarrow> file_state) \<Rightarrow> 'c augment_backend \<Rightarrow> cache_store \<Rightarrow> string \<times> cache_store" where
  "load_backend_prompt files ab store =
     (let path = aug_prompt_file ab; (r, store') = refresh_shared path (files path) store in
      (case r of
         Reloaded t _ \<Rightarrow> t
       | Empty \<Rightarrow> []
       | Unchanged \<Rightarrow> (case store' path of Some c \<Rightarrow> pc_text c | None \<Rightarrow> [])
       | RefreshFailed _ \<Rightarrow> [], store'))"

definition MAX_CHARS :: nat where "MAX_CHARS = 300"

definition clip_error_body :: "string \<Rightarrow> string" where
  "clip_error_body body =
     (let cs = chars body; kept = concat (take MAX_CHARS cs) in
      if drop MAX_CHARS cs \<noteq> [] then kept @ ''...'' else kept)"

definition extract_response_text :: "serde_env \<Rightarrow> json \<Rightarrow> (string, string) result" where
  "extract_response_text env body =
     (case Option.bind (get_array body ''choices'') (\<lambda>cs. Option.bind (first_of cs) (\<lambda>c.
             Option.bind (get c ''message'') (\<lambda>m. get_str m ''content''))) of
        Some content \<Rightarrow> Ok content
      | None \<Rightarrow>
          (let text = join [NEWLINE] (text_parts (some_or (get_array body ''content'') [])) in
           if text \<noteq> [] then Ok text
           else Err (''Could not extract text from augment backend response: '' @ clip_error_body (display_value env body))))"

definition augmentation_request :: "'c augment_backend \<Rightarrow> string \<Rightarrow> json" where
  "augmentation_request ab combined = JObj [(''model'', JStr (aug_model ab)),
     (''messages'', JArr [JObj [(''role'', JStr ''user''), (''content'', JStr combined)]]), (''stream'', JBool False)]"

definition get_augmentation ::
  "serde_env \<Rightarrow> (string \<Rightarrow> file_state) \<Rightarrow> (string \<Rightarrow> json \<Rightarrow> (http_reply, string) result)
     \<Rightarrow> 'c augment_backend \<Rightarrow> cache_store \<Rightarrow> string \<Rightarrow> (string, string) result \<times> cache_store" where
  "get_augmentation env files post ab store user_content =
     (let (backend_prompt, store') = load_backend_prompt files ab store;
          combined = backend_prompt @ [NEWLINE, NEWLINE] @ user_content;
          url = aug_url ab @ ''/v1/chat/completions'' in
      (and_then (post url (augmentation_request ab combined)) (\<lambda>response.
         if \<not> (200 \<le> hr_status response \<and> hr_status response < 300)
         then Err (''Augment backend returned '' @ hr_status_text response @ '': '' @ clip_error_body (hr_text response))
         else and_then (hr_json response) (extract_response_text env)),
       store'))"

section \<open>The user's text\<close>

definition is_user :: "json \<Rightarrow> bool" where
  "is_user msg = (get_str msg ''role'' = Some ''user'')"

definition message_parts :: "json \<Rightarrow> string list" where
  "message_parts msg = (if \<not> is_user msg then [] else case get msg ''content'' of
       Some (JStr s) \<Rightarrow> [s]
     | Some (JArr blocks) \<Rightarrow> text_parts blocks
     | _ \<Rightarrow> [])"

definition user_parts :: "json list \<Rightarrow> string list" where
  "user_parts messages = concat (map message_parts messages)"

definition extract_user_content_from_json :: "json \<Rightarrow> string" where
  "extract_user_content_from_json req = (case get_array req ''messages'' of
       None \<Rightarrow> []
     | Some messages \<Rightarrow> join [NEWLINE] (user_parts messages))"

section \<open>Injection into a raw request\<close>

definition augment_block :: "string \<Rightarrow> string \<Rightarrow> string" where
  "augment_block request_prompt augmentation = [NEWLINE, NEWLINE] @ request_prompt @ [NEWLINE, NEWLINE] @ augmentation"

definition is_text_part :: "json \<Rightarrow> bool" where
  "is_text_part p = (get_str p ''type'' = Some ''text'')"

definition append_to_parts :: "string \<Rightarrow> json list \<Rightarrow> json list" where
  "append_to_parts block parts =
     (let fresh = parts @ [JObj [(''type'', JStr ''text''), (''text'', JStr block)]] in
      case last_position is_text_part parts of
        None \<Rightarrow> fresh
      | Some i \<Rightarrow>
          (case get (parts ! i) ''text'' of
             Some (JStr text) \<Rightarrow> parts[i := update_key ''text'' (\<lambda>_. JStr (text @ block)) (parts ! i)]
           | _ \<Rightarrow> fresh))"

definition append_block_to_message :: "serde_env \<Rightarrow> json \<Rightarrow> string \<Rightarrow> (json, string) result option" where
  "append_block_to_message env msg block = (case get msg ''content'' of
       None \<Rightarrow> map_option Ok (index_set msg ''content'' (JStr block))
     | Some JNull \<Rightarrow> map_option Ok (index_set msg ''content'' (JStr block))
     | Some (JStr existing) \<Rightarrow> Some (Ok (update_key ''content'' (\<lambda>_. JStr (existing @ block)) msg))
     | Some (JArr parts) \<Rightarrow> Some (Ok (update_key ''content'' (\<lambda>_. JArr (append_to_parts block parts)) msg))
     | Some v \<Rightarrow> Some (Err (''augment injection: unsupported message content type: '' @ display_value env v)))"

definition inject_into_messages :: "serde_env \<Rightarrow> string \<Rightarrow> json list \<Rightarrow> (json list, string) result option" where
  "inject_into_messages env block messages = (case last_position is_user messages of
       Some idx \<Rightarrow> map_option (map_sum id (\<lambda>m. messages[idx := m])) (append_block_to_message env (messages ! idx) block)
     | None \<Rightarrow> Some (Ok (if messages \<noteq> [] then messages @ [JObj [(''role'', JStr ''system''), (''content'', JStr block)]] else messages)))"

definition normalize_stop :: "json \<Rightarrow> json" where
  "normalize_stop request = (case get request ''stop'' of
       Some (JStr s) \<Rightarrow> update_key ''stop'' (\<lambda>_. JArr [JStr s]) request
     | _ \<Rightarrow> request)"

definition inject_augmentation_value :: "serde_env \<Rightarrow> json \<Rightarrow> string \<Rightarrow> string \<Rightarrow> (json, string) result option" where
  "inject_augmentation_value env request request_prompt augmentation =
     (if \<not> is_object request then Some (Err ''augment injection: request body is not a JSON object'')
      else (let r1 = normalize_stop request; block = augment_block request_prompt augmentation in
            case get_array r1 ''messages'' of
              None \<Rightarrow> Some (Err (''augment injection: request has no '' @ [QUOTE] @ ''messages'' @ [QUOTE] @ '' array''))
            | Some messages \<Rightarrow>
                map_option (map_sum id (\<lambda>ms. update_key ''messages'' (\<lambda>_. JArr ms) r1)) (inject_into_messages env block messages)))"

text \<open>The typed shim: \<open>to_value\<close> and \<open>from_value\<close> are the derived conversions of the request type.\<close>

definition inject_augmentation ::
  "serde_env \<Rightarrow> ('r \<Rightarrow> (json, string) result) \<Rightarrow> (json \<Rightarrow> ('r, string) result) \<Rightarrow> 'r \<Rightarrow> string \<Rightarrow> string \<Rightarrow> ('r, string) result option" where
  "inject_augmentation env to_value from_value request request_prompt augmentation = (case to_value request of
       Inl e \<Rightarrow> Some (Err e)
     | Inr v \<Rightarrow> map_option (\<lambda>r. and_then r from_value) (inject_augmentation_value env v request_prompt augmentation))"

section \<open>Injection into an Anthropic request\<close>

record anthropic_tool =
  at_name :: string
  at_description :: "string option"
  at_input_schema :: json

record anthropic_message_content =
  amc_role :: string
  amc_content :: "content_block list"

record anthropic_message_request =
  ar_model :: "string option"
  ar_messages :: "anthropic_message_content list"
  ar_system :: "string option"
  ar_max_tokens :: "32 word"
  ar_stream :: "bool option"
  ar_temperature :: "32 word option"   \<comment> \<open>an \<^verbatim>\<open>f32\<close> bit pattern\<close>
  ar_top_p :: "32 word option"
  ar_tools :: "anthropic_tool list option"
  ar_tool_choice :: "json option"
  ar_extra :: "string \<Rightarrow> json option"

definition inject_into_anthropic :: "anthropic_message_request \<Rightarrow> string \<Rightarrow> string \<Rightarrow> anthropic_message_request" where
  "inject_into_anthropic request request_prompt augmentation =
     (if augmentation = [] then request
      else (let suffix = augment_block request_prompt augmentation; ms = ar_messages request in
            case last_position (\<lambda>m. amc_role m = ''user'') ms of
              Some idx \<Rightarrow> request\<lparr>ar_messages := ms[idx := (ms ! idx)\<lparr>amc_content := amc_content (ms ! idx) @ [Text suffix]\<rparr>]\<rparr>
            | None \<Rightarrow> if ms \<noteq> [] then request\<lparr>ar_messages := ms[0 := (ms ! 0)\<lparr>amc_content := Text suffix # amc_content (ms ! 0)\<rparr>]\<rparr>
                      else request))"

section \<open>Facts\<close>

lemma last_position_None: "last_position P xs = None \<longleftrightarrow> \<not> list_ex P xs"
  by (induction xs) (auto split: option.splits)

lemma last_position_SomeD:
  "last_position P xs = Some i \<Longrightarrow>
     \<exists>ys zs. xs = ys @ (xs ! i) # zs \<and> length ys = i \<and> P (xs ! i) \<and> \<not> list_ex P zs"
proof (induction xs arbitrary: i)
  case (Cons x xs)
  show ?case
  proof (cases "last_position P xs")
    case None
    with Cons.prems have "i = 0" "P x" "\<not> list_ex P xs" by (auto simp: last_position_None split: if_splits)
    then show ?thesis by (intro exI [of _ "[]"] exI [of _ xs]) auto
  next
    case (Some j)
    with Cons.prems have i: "i = Suc j" by simp
    from Cons.IH [OF Some] obtain ys zs where "xs = ys @ xs ! j # zs" "length ys = j" "P (xs ! j)" "\<not> list_ex P zs" by auto
    with i show ?thesis by (intro exI [of _ "x # ys"] exI [of _ zs]) auto
  qed
qed simp

lemma text_parts_append [simp]: "text_parts (xs @ ys) = text_parts xs @ text_parts ys"
  by (simp add: text_parts_def map_filter_def)

lemma text_parts_Cons [simp]:
  "text_parts (x # xs) = (if is_text_part x then option_list id (get_str x ''text'') else []) @ text_parts xs"
  by (auto simp: text_parts_def map_filter_def is_text_part_def option_list_def split: option.splits)

lemma text_parts_Nil [simp]: "text_parts [] = []"
  by (simp add: text_parts_def map_filter_def)

lemma text_parts_none: "\<not> list_ex is_text_part xs \<Longrightarrow> text_parts xs = []"
  by (induction xs) auto

lemma user_parts_none: "\<not> list_ex is_user ms \<Longrightarrow> user_parts ms = []"
  by (induction ms) (auto simp: user_parts_def message_parts_def)

text \<open>The block at the end of the texts: on the last one, or as a new one.\<close>

definition extended :: "string \<Rightarrow> string list \<Rightarrow> string list \<Rightarrow> bool" where
  "extended block ps ps' \<longleftrightarrow> ps' = ps @ [block] \<or> (\<exists>qs t. ps = qs @ [t] \<and> ps' = qs @ [t @ block])"

lemma extended_prefix: "extended block ps ps' \<Longrightarrow> extended block (qs @ ps) (qs @ ps')"
  by (auto simp: extended_def)

lemma extended_join: "extended block ps ps' \<Longrightarrow> \<exists>sep. join [NEWLINE] ps' = join [NEWLINE] ps @ sep @ block \<and> sep \<in> {[], [NEWLINE]}"
proof -
  assume "extended block ps ps'"
  then consider "ps' = ps @ [block]" | qs t where "ps = qs @ [t]" "ps' = qs @ [t @ block]" by (auto simp: extended_def)
  then show ?thesis
  proof cases
    case 1
    then show ?thesis by (cases "ps = []") (auto simp: join_snoc)
  next
    case 2
    then show ?thesis by (cases "qs = []") (auto simp: join_snoc)
  qed
qed

lemma append_to_parts_extended: "extended block (text_parts parts) (text_parts (append_to_parts block parts))"
proof (cases "\<exists>i t. last_position is_text_part parts = Some i \<and> get (parts ! i) ''text'' = Some (JStr t)")
  case True
  then obtain i t where i: "last_position is_text_part parts = Some i" "get (parts ! i) ''text'' = Some (JStr t)" by blast
  let ?p = "update_key ''text'' (\<lambda>_. JStr (t @ block)) (parts ! i)"
  from last_position_SomeD [OF i(1)] obtain ys zs where
    d: "parts = ys @ parts ! i # zs" "length ys = i" "is_text_part (parts ! i)" "\<not> list_ex is_text_part zs" by blast
  have p: "is_text_part ?p" "get_str ?p ''text'' = Some (t @ block)"
    using d(3) i(2) by (auto simp: is_text_part_def get_str_def get_update_key)
  have "parts[i := ?p] = ys @ ?p # zs" using d(1,2) by (metis list_update_length)
  with i p have "text_parts (append_to_parts block parts) = text_parts ys @ [t @ block]"
    by (simp add: append_to_parts_def text_parts_none [OF d(4)] option_list_def)
  moreover have "text_parts parts = text_parts ys @ [t]"
    using i(2) d(3) text_parts_none [OF d(4)] by (subst d(1)) (simp add: option_list_def get_str_def)
  ultimately show ?thesis by (auto simp: extended_def)
next
  case False
  then have "append_to_parts block parts = parts @ [JObj [(''type'', JStr ''text''), (''text'', JStr block)]]"
    by (auto simp: append_to_parts_def Let_def split: option.splits json.splits)
  then show ?thesis by (simp add: extended_def is_text_part_def get_str_def option_list_def)
qed

definition unsupported_content :: "json \<Rightarrow> bool" where
  "unsupported_content msg = (case get msg ''content'' of
     Some (JBool _) \<Rightarrow> True | Some (JNum _) \<Rightarrow> True | Some (JObj _) \<Rightarrow> True | _ \<Rightarrow> False)"

text \<open>What the content becomes, as a relation between the old and the new value: the block ends the last
  text part that has a text, every other key of that part and every other part the same, or it is a new
  text part behind all of them where the last text part, if any, has no text.\<close>

inductive appended_parts :: "string \<Rightarrow> json list \<Rightarrow> json list \<Rightarrow> bool" where
  on_last_text: "is_text_part p \<Longrightarrow> get p ''text'' = Some (JStr t) \<Longrightarrow> \<not> list_ex is_text_part after \<Longrightarrow>
    get q ''text'' = Some (JStr (t @ block)) \<Longrightarrow> (\<forall>k. k \<noteq> ''text'' \<longrightarrow> get q k = get p k) \<Longrightarrow>
    appended_parts block (before @ p # after) (before @ q # after)"
| as_new_part: "\<not> list_ex is_text_part parts \<or> (\<exists>before p after. parts = before @ p # after \<and> is_text_part p
      \<and> \<not> list_ex is_text_part after \<and> get_str p ''text'' = None) \<Longrightarrow>
    appended_parts block parts (parts @ [JObj [(''type'', JStr ''text''), (''text'', JStr block)]])"

inductive appended :: "string \<Rightarrow> json option \<Rightarrow> json option \<Rightarrow> bool" where
  no_content: "appended block None (Some (JStr block))"
| null_content: "appended block (Some JNull) (Some (JStr block))"
| text_content: "appended block (Some (JStr s)) (Some (JStr (s @ block)))"
| parts_content: "appended_parts block parts parts' \<Longrightarrow> appended block (Some (JArr parts)) (Some (JArr parts'))"

lemma append_to_parts_appended: "appended_parts block parts (append_to_parts block parts)"
proof (cases "last_position is_text_part parts")
  case None
  then have "\<not> list_ex is_text_part parts" by (simp add: last_position_None)
  with None show ?thesis by (simp add: append_to_parts_def as_new_part)
next
  case (Some i)
  from last_position_SomeD [OF Some] obtain ys zs where
    d: "parts = ys @ parts ! i # zs" "length ys = i" "is_text_part (parts ! i)" "\<not> list_ex is_text_part zs" by blast
  show ?thesis
  proof (cases "\<exists>t. get (parts ! i) ''text'' = Some (JStr t)")
    case True
    then obtain t where t: "get (parts ! i) ''text'' = Some (JStr t)" by blast
    let ?q = "update_key ''text'' (\<lambda>_. JStr (t @ block)) (parts ! i)"
    have "appended_parts block (ys @ parts ! i # zs) (ys @ ?q # zs)"
      by (rule on_last_text [OF d(3) t d(4)]) (simp_all add: get_update_key t)
    moreover have "append_to_parts block parts = ys @ ?q # zs"
      using Some t d(1,2) by (simp add: append_to_parts_def) (metis list_update_length)
    ultimately show ?thesis using d(1) by simp
  next
    case False
    then have "get_str (parts ! i) ''text'' = None"
      by (cases "get (parts ! i) ''text''"; cases "the (get (parts ! i) ''text'')") (auto simp: get_str_def)
    with d have "appended_parts block parts (parts @ [JObj [(''type'', JStr ''text''), (''text'', JStr block)]])"
      by (intro as_new_part) blast
    moreover have "append_to_parts block parts = parts @ [JObj [(''type'', JStr ''text''), (''text'', JStr block)]]"
      using Some False by (auto simp: append_to_parts_def Let_def split: option.splits json.splits)
    ultimately show ?thesis by simp
  qed
qed

lemma append_block_cases:
  assumes "is_user msg"
  shows "if unsupported_content msg then \<exists>e. append_block_to_message env msg block = Some (Err e)
    else \<exists>m. append_block_to_message env msg block = Some (Ok m) \<and> is_user m
      \<and> (\<forall>k. k \<noteq> ''content'' \<longrightarrow> get m k = get msg k) \<and> extended block (message_parts msg) (message_parts m)
      \<and> appended block (get msg ''content'') (get m ''content'')"
proof -
  have set: "\<exists>m. index_set msg ''content'' (JStr block) = Some m \<and> is_user m \<and> (\<forall>k. k \<noteq> ''content'' \<longrightarrow> get m k = get msg k)
      \<and> message_parts m = [block] \<and> get m ''content'' = Some (JStr block)"
    using assms by (cases msg) (auto simp: is_user_def get_str_def message_parts_def map_of_jmap_insert)
  have upd: "is_user (update_key ''content'' f msg)" for f using assms by (simp add: is_user_def get_str_def get_update_key)
  note grown = appended.intros parts_content [OF append_to_parts_appended]
  show ?thesis
    using assms set upd append_to_parts_extended [of block] grown
    by (cases "get msg ''content''"; cases "the (get msg ''content'')")
      (auto simp: unsupported_content_def append_block_to_message_def message_parts_def get_update_key extended_def)
qed

lemma last_position_split: "P x \<Longrightarrow> \<not> list_ex P zs \<Longrightarrow> last_position P (ys @ x # zs) = Some (length ys)"
  by (induction ys) (auto simp: last_position_None [symmetric])

lemma normalize_stop_get: "k \<noteq> ''stop'' \<Longrightarrow> get (normalize_stop v) k = get v k"
  by (simp add: normalize_stop_def get_update_key split: option.splits json.splits)

section \<open>Properties\<close>

text \<open>C25. The augmentation lands at the end of the user's text and nowhere else. Take a request whose
  messages have a last user message. The injection never panics; it fails exactly when that message's content
  is a boolean, a number or an object. Otherwise the messages before and after it are the same, of the message
  itself only the content differs, and the new content is fixed: no content or null becomes the block, a string
  gets it at its end, in a list of parts the last text part gets it at the end of its text and every other
  part (an image, say) and every other key stays, or it is a new text part at the end where the last text part
  has no text. So the text the proxy extracts is the text before with the block at its end. A string \<^verbatim>\<open>stop\<close>
  becomes the list of that string; every other field of the request is unchanged.\<close>

theorem augmentation_lands_last:
  assumes "get_array request ''messages'' = Some (before @ msg # after)" "is_user msg" "\<not> list_ex is_user after"
  shows "if unsupported_content msg
    then \<exists>e. inject_augmentation_value env request prompt aug = Some (Err e)
    else \<exists>r m sep. inject_augmentation_value env request prompt aug = Some (Ok r)
      \<and> get_array r ''messages'' = Some (before @ m # after)
      \<and> (\<forall>k. k \<noteq> ''content'' \<longrightarrow> get m k = get msg k)
      \<and> appended (augment_block prompt aug) (get msg ''content'') (get m ''content'')
      \<and> extract_user_content_from_json r = extract_user_content_from_json request @ sep @ augment_block prompt aug
      \<and> sep \<in> {[], [NEWLINE]}
      \<and> get r ''stop'' = (case get request ''stop'' of Some (JStr s) \<Rightarrow> Some (JArr [JStr s]) | v \<Rightarrow> v)
      \<and> (\<forall>k. k \<notin> {''messages'', ''stop''} \<longrightarrow> get r k = get request k)"
proof -
  let ?b = "augment_block prompt aug" and ?ms = "before @ msg # after"
  have last: "last_position is_user ?ms = Some (length before)" by (rule last_position_split [OF assms(2,3)])
  have obj: "is_object request" using assms(1) by (cases request) (auto simp: get_array_def is_object_def)
  have ms: "get_array (normalize_stop request) ''messages'' = Some ?ms" using assms(1) by (simp add: get_array_def normalize_stop_get)
  show ?thesis
  proof (cases "unsupported_content msg")
    case True
    with append_block_cases [OF assms(2), of env ?b] obj ms last show ?thesis
      by (auto simp: inject_augmentation_value_def inject_into_messages_def Let_def)
  next
    case False
    with append_block_cases [OF assms(2), of env ?b] obtain m where m: "append_block_to_message env msg ?b = Some (Ok m)"
      "is_user m" "\<forall>k. k \<noteq> ''content'' \<longrightarrow> get m k = get msg k" "extended ?b (message_parts msg) (message_parts m)"
      "appended ?b (get msg ''content'') (get m ''content'')" by auto
    define r where "r = update_key ''messages'' (\<lambda>_. JArr (before @ m # after)) (normalize_stop request)"
    have inj: "inject_augmentation_value env request prompt aug = Some (Ok r)"
      using obj ms last m(1) by (simp add: inject_augmentation_value_def inject_into_messages_def Let_def r_def)
    have rm: "get_array r ''messages'' = Some (before @ m # after)"
      using ms by (auto simp: r_def get_array_def get_update_key bind_eq_Some_conv)
    have users: "user_parts (before @ x # after) = user_parts before @ message_parts x" for x
      using user_parts_none [OF assms(3)] by (simp add: user_parts_def)
    have "extended ?b (user_parts ?ms) (user_parts (before @ m # after))"
      using extended_prefix [OF m(4), of "user_parts before"] by (simp only: users)
    from extended_join [OF this] obtain sep where
      "extract_user_content_from_json r = extract_user_content_from_json request @ sep @ ?b" "sep \<in> {[], [NEWLINE]}"
      using assms(1) rm by (auto simp: extract_user_content_from_json_def)
    moreover have "get r ''stop'' = (case get request ''stop'' of Some (JStr s) \<Rightarrow> Some (JArr [JStr s]) | v \<Rightarrow> v)"
      by (simp add: r_def get_update_key normalize_stop_def split: option.splits json.splits)
    moreover have "\<forall>k. k \<notin> {''messages'', ''stop''} \<longrightarrow> get r k = get request k"
      by (simp add: r_def get_update_key normalize_stop_get)
    ultimately show ?thesis using False inj rm m(3,5) by auto
  qed
qed

definition sample_request :: json where
  "sample_request = JObj [(''model'', JStr ''m''),
     (''messages'', JArr [JObj [(''role'', JStr ''user''), (''content'', JStr ''hi'')],
                          JObj [(''role'', JStr ''assistant''), (''content'', JStr ''ho'')]])]"

definition stop_request :: json where
  "stop_request = JObj [(''model'', JStr ''m''), (''stop'', JStr ''x''),
     (''messages'', JArr [JObj [(''role'', JStr ''user''), (''content'', JStr ''hi'')],
                          JObj [(''role'', JStr ''assistant''), (''content'', JStr ''ho'')]])]"

theorem augmentation_lands_last_witness:
  "\<forall>env. \<exists>r m sep. inject_augmentation_value env stop_request ''p'' ''a'' = Some (Ok r)
     \<and> extract_user_content_from_json r = ''hi'' @ sep @ augment_block ''p'' ''a'' \<and> get r ''model'' = Some (JStr ''m'')
     \<and> get r ''stop'' = Some (JArr [JStr ''x''])"
proof
  fix env
  let ?u = "JObj [(''role'', JStr ''user''), (''content'', JStr ''hi'')]"
  let ?ms = "[JObj [(''role'', JStr ''assistant''), (''content'', JStr ''ho'')]]"
  have "get_array stop_request ''messages'' = Some ([] @ ?u # ?ms)" "is_user ?u" "\<not> list_ex is_user ?ms"
    by (simp_all add: stop_request_def get_array_def is_user_def get_str_def)
  note lands = augmentation_lands_last [OF this, of env "''p''" "''a''"]
  have "\<not> unsupported_content ?u" "extract_user_content_from_json stop_request = ''hi''"
    "get stop_request ''model'' = Some (JStr ''m'')" "get stop_request ''stop'' = Some (JStr ''x'')"
    by (simp_all add: stop_request_def get_array_def is_user_def get_str_def unsupported_content_def
        extract_user_content_from_json_def user_parts_def message_parts_def)
  with lands show "\<exists>r m sep. inject_augmentation_value env stop_request ''p'' ''a'' = Some (Ok r)
     \<and> extract_user_content_from_json r = ''hi'' @ sep @ augment_block ''p'' ''a'' \<and> get r ''model'' = Some (JStr ''m'')
     \<and> get r ''stop'' = Some (JArr [JStr ''x''])"
    by (auto simp del: append.simps)
qed

end
