(* ===== verification/Kv_Labels.thy ===== *)
theory Kv_Labels
  imports Utf8_Text Json_Value Backend_Node
begin

text \<open>
  The KV-cache report: the label parser \<^verbatim>\<open>llama-proxy/src/proxy/kv_labels.rs\<close>, and from
  \<^verbatim>\<open>llama-proxy/src/proxy/compat.rs\<close> the scrape of a backend's metrics stream with its cache of outcomes.

  The parsers step over characters; all the characters they act on are ASCII, so the model steps over
  bytes. A label map is an association list written by \<open>jmap_insert\<close>: the sources read it by key only.
  Parameters: the answer to the metrics request (or the timeout) and the clock.
\<close>

section \<open>One line\<close>

type_synonym labels = "(string \<times> string) list"

definition METRIC_NAME :: string where "METRIC_NAME = ''vllm:cache_config_info''"
definition ENGINE_LABEL :: string where "ENGINE_LABEL = ''engine''"

text \<open>\<open>q\<close>: inside quotes; \<open>e\<close>: after a backslash.\<close>

fun label_set_scan :: "bool \<Rightarrow> bool \<Rightarrow> string \<Rightarrow> string option" where
  "label_set_scan q e [] = None"
| "label_set_scan q e (ch # cs) =
     (if e then map_option (Cons ch) (label_set_scan q False cs)
      else if ch = BACKSLASH \<and> q then map_option (Cons ch) (label_set_scan q True cs)
      else if ch = QUOTE then map_option (Cons ch) (label_set_scan (\<not> q) False cs)
      else if ch = CHR 0x7D \<and> \<not> q then Some []
      else map_option (Cons ch) (label_set_scan q False cs))"

definition label_set_inner :: "string \<Rightarrow> string option" where
  "label_set_inner rest = label_set_scan False False rest"

fun unescape :: "bool \<Rightarrow> string \<Rightarrow> string" where
  "unescape e [] = []"
| "unescape e (ch # cs) =
     (if e then (if ch = CHR ''n'' then NEWLINE else if ch = CHR ''r'' then CR else if ch = CHR ''t'' then CHR 0x09 else ch) # unescape False cs
      else if ch = BACKSLASH then unescape True cs
      else ch # unescape False cs)"

definition unquote :: "string \<Rightarrow> string option" where
  "unquote quoted = Option.bind (strip_prefix quoted [QUOTE]) (\<lambda>s. Option.bind (strip_suffix s [QUOTE]) (\<lambda>inner.
     Some (if BACKSLASH \<notin> set inner then inner else unescape False inner)))"

definition insert_pair :: "string \<Rightarrow> labels \<Rightarrow> labels" where
  "insert_pair pair ls = (case split_once (CHR ''='') pair of
       None \<Rightarrow> ls
     | Some (name, val) \<Rightarrow>
         (case unquote (trim val) of
            None \<Rightarrow> ls
          | Some v \<Rightarrow> if trim name \<noteq> [] then jmap_insert (trim name) v ls else ls))"

text \<open>The segments between the commas outside quotes; \<open>start\<close> is the one being read.\<close>

fun split_pairs :: "bool \<Rightarrow> bool \<Rightarrow> string \<Rightarrow> string \<Rightarrow> string list" where
  "split_pairs q e start [] = [start]"
| "split_pairs q e start (ch # cs) =
     (if e then split_pairs q False (start @ [ch]) cs
      else if ch = BACKSLASH \<and> q then split_pairs q True (start @ [ch]) cs
      else if ch = QUOTE then split_pairs (\<not> q) False (start @ [ch]) cs
      else if ch = CHR '','' \<and> \<not> q then start # split_pairs q False [] cs
      else split_pairs q False (start @ [ch]) cs)"

definition parse_label_pairs :: "string \<Rightarrow> labels" where
  "parse_label_pairs inner = fold insert_pair (split_pairs False False [] inner) []"

definition cache_config_labels :: "string \<Rightarrow> labels option" where
  "cache_config_labels line0 =
     (let line = trim line0 in
      if starts_with line ''#'' then None
      else Option.bind (strip_prefix line METRIC_NAME) (\<lambda>r. Option.bind (strip_prefix r [CHR 0x7B]) (\<lambda>rest.
           Option.bind (label_set_inner rest) (\<lambda>inner.
             (let ls = parse_label_pairs inner in if ls \<noteq> [] then Some ls else None)))))"

fun best_series :: "string list \<Rightarrow> (string \<times> labels) option \<Rightarrow> (string \<times> labels) option" where
  "best_series [] best = best"
| "best_series (line # ls) best = (case cache_config_labels line of
     None \<Rightarrow> best_series ls best
   | Some labels \<Rightarrow>
       (let engine = some_or (map_of labels ENGINE_LABEL) [];
            wins = (case best of Some (lowest, _) \<Rightarrow> engine < lowest | None \<Rightarrow> True) in
        best_series ls (if wins then Some (engine, labels) else best)))"

definition parse_cache_config_info :: "string \<Rightarrow> labels option" where
  "parse_cache_config_info body = map_option snd (best_series (text_lines body) None)"

section \<open>The scrape\<close>

definition KV_SCAN_CEILING_BYTES :: nat where "KV_SCAN_CEILING_BYTES = 16 * 1024 * 1024"
definition KV_RETRY_BACKOFF :: duration where "KV_RETRY_BACKOFF = from_secs 30"

datatype scrape = Found labels | Absent | ScrapeFailed string

lemma split_once_shorter: "split_once c s = Some (a, b) \<Longrightarrow> length b < length s"
  using split_once_Some by fastforce

function scan_complete_lines :: "string \<Rightarrow> labels option \<times> string" where
  "scan_complete_lines pending = (case split_once NEWLINE pending of
     None \<Rightarrow> (None, pending)
   | Some (line, rest) \<Rightarrow>
       (case parse_cache_config_info (from_utf8_lossy (line @ [NEWLINE])) of
          Some info \<Rightarrow> (Some info, rest)
        | None \<Rightarrow> scan_complete_lines rest))"
  by pat_completeness auto
termination by (relation "measure length") (auto dest: split_once_shorter)

declare scan_complete_lines.simps [simp del]

fun scrape_chunks :: "string \<Rightarrow> nat \<Rightarrow> (string, string) result list \<Rightarrow> scrape" where
  "scrape_chunks pending scanned [] = Absent"
| "scrape_chunks pending scanned (Inl e # items) = ScrapeFailed ''stream error''"
| "scrape_chunks pending scanned (Inr chunk # items) =
     (let scanned' = scanned + length chunk in
      if scanned' > KV_SCAN_CEILING_BYTES then ScrapeFailed ''scan ceiling exceeded''
      else (case scan_complete_lines (pending @ chunk) of
              (Some info, _) \<Rightarrow> Found info
            | (None, pending') \<Rightarrow> scrape_chunks pending' scanned' items))"

text \<open>The backend's answer: a transport error, or a status with the items of the body.\<close>

type_synonym metrics_answer = "(nat \<times> (string, string) result list, string) result"

definition scrape_kv_stream :: "metrics_answer \<Rightarrow> scrape" where
  "scrape_kv_stream answer = (case answer of
       Inl e \<Rightarrow> ScrapeFailed ''transport error''
     | Inr (st, items) \<Rightarrow>
         if \<not> (200 \<le> st \<and> st < 300) then ScrapeFailed ''non-2xx response'' else scrape_chunks [] 0 items)"

text \<open>\<open>None\<close> is the expiry of the two second limit.\<close>

definition scrape_kv_cache_info :: "metrics_answer option \<Rightarrow> scrape" where
  "scrape_kv_cache_info answer = (case answer of Some a \<Rightarrow> scrape_kv_stream a | None \<Rightarrow> ScrapeFailed ''timeout'')"

datatype kv_lookup = Known "labels option" | LookupFailed instant

record kv_state =
  kv_info :: "string \<Rightarrow> kv_lookup option"
  kv_warned :: "string list"

definition warn_kv_scrape_failed_once :: "string \<Rightarrow> kv_state \<Rightarrow> kv_state" where
  "warn_kv_scrape_failed_once url st = (if url \<in> set (kv_warned st) then st else st\<lparr>kv_warned := url # kv_warned st\<rparr>)"

text \<open>\<open>now\<close> is the clock at the look-up, \<open>later\<close> after the scrape; \<open>ask\<close> yields the answer of the backend.\<close>

definition kv_cache_info_with_backoff ::
  "instant \<Rightarrow> instant \<Rightarrow> metrics_answer option \<Rightarrow> duration \<Rightarrow> string \<Rightarrow> kv_state \<Rightarrow> labels option \<times> kv_state" where
  "kv_cache_info_with_backoff now later answer retry_backoff url st =
     (let scrape_now = (case scrape_kv_cache_info answer of
            Found info \<Rightarrow> (Some info, st\<lparr>kv_info := (kv_info st)(url \<mapsto> Known (Some info))\<rparr>)
          | Absent \<Rightarrow> (None, st\<lparr>kv_info := (kv_info st)(url \<mapsto> Known None)\<rparr>)
          | ScrapeFailed reason \<Rightarrow>
              (let st1 = warn_kv_scrape_failed_once url st in (None, st1\<lparr>kv_info := (kv_info st1)(url \<mapsto> LookupFailed later)\<rparr>))) in
      case kv_info st url of
        Some (Known info) \<Rightarrow> (info, st)
      | Some (LookupFailed last_attempt) \<Rightarrow> if now - last_attempt < retry_backoff then (None, st) else scrape_now
      | None \<Rightarrow> scrape_now)"

definition kv_cache_info :: "instant \<Rightarrow> instant \<Rightarrow> metrics_answer option \<Rightarrow> string \<Rightarrow> kv_state \<Rightarrow> labels option \<times> kv_state" where
  "kv_cache_info now later answer = kv_cache_info_with_backoff now later answer KV_RETRY_BACKOFF"

section \<open>Scanning by chunks\<close>

definition complete_lines :: "string \<Rightarrow> string list" where
  "complete_lines bytes = map (\<lambda>l. l @ [NEWLINE]) (butlast (split_on NEWLINE bytes))"

fun first_info :: "string list \<Rightarrow> labels option" where
  "first_info [] = None"
| "first_info (l # ls) = (case parse_cache_config_info (from_utf8_lossy l) of Some i \<Rightarrow> Some i | None \<Rightarrow> first_info ls)"

lemma first_info_append: "first_info (xs @ ys) = (case first_info xs of Some i \<Rightarrow> Some i | None \<Rightarrow> first_info ys)"
  by (induction xs) (auto split: option.splits)

lemma split_on_pieces: "split_on c s = butlast (split_on c s) @ [last (split_on c s)]"
  using split_on_nonempty by simp

lemma split_on_absent: "c \<notin> set s \<Longrightarrow> split_on c s = [s]"
  by (induction s) auto

lemma last_split_on: "c \<notin> set (last (split_on c s))"
proof (induction s)
  case (Cons x s)
  obtain p ps where "split_on c s = p # ps" using split_on_nonempty by (meson list.exhaust)
  with Cons show ?case by (auto split: if_splits)
qed simp

lemma split_on_append_last: "split_on c (a @ b) = butlast (split_on c a) @ split_on c (last (split_on c a) @ b)"
proof (induction a)
  case (Cons x a)
  obtain p ps where a: "split_on c a = p # ps" using split_on_nonempty by (meson list.exhaust)
  obtain q qs where b: "split_on c (last (p # ps) @ b) = q # qs" using split_on_nonempty by (meson list.exhaust)
  show ?case
  proof (cases "ps = []")
    case True
    with Cons a b show ?thesis by (cases "x = c") auto
  next
    case False
    with Cons a b show ?thesis by (cases "x = c"; cases ps) auto
  qed
qed simp

lemma complete_lines_append: "complete_lines (a @ b) = complete_lines a @ complete_lines (last (split_on NEWLINE a) @ b)"
  using split_on_nonempty by (simp add: complete_lines_def split_on_append_last [of _ a b] butlast_append)

lemma split_once_None: "split_once c s = None \<longleftrightarrow> c \<notin> set s"
  by (induction s) auto

lemma scan_complete_lines_spec:
  "fst (scan_complete_lines p) = first_info (complete_lines p)
   \<and> (first_info (complete_lines p) = None \<longrightarrow> snd (scan_complete_lines p) = last (split_on NEWLINE p))"
proof (induction p rule: scan_complete_lines.induct)
  case (1 p)
  show ?case
  proof (cases "split_once NEWLINE p")
    case None
    then have "split_on NEWLINE p = [p]" by (simp add: split_once_None split_on_absent)
    with None show ?thesis by (subst (1 2) scan_complete_lines.simps) (simp add: complete_lines_def)
  next
    case (Some lr)
    obtain line rest where lr: "lr = (line, rest)" by fastforce
    with Some split_once_Some have p: "p = line @ NEWLINE # rest" "NEWLINE \<notin> set line" by blast+
    have s: "split_on NEWLINE p = line # split_on NEWLINE rest" using p by (simp add: split_on_append split_on_absent)
    with split_on_nonempty have "complete_lines p = (line @ [NEWLINE]) # complete_lines rest"
      "last (split_on NEWLINE p) = last (split_on NEWLINE rest)" by (simp_all add: complete_lines_def)
    with 1 Some lr show ?thesis by (subst (1 2) scan_complete_lines.simps) (simp split: option.splits)
  qed
qed

lemma scrape_chunks_spec:
  assumes "first_info (complete_lines seen) = None" "n + length (concat chunks) \<le> KV_SCAN_CEILING_BYTES"
  shows "scrape_chunks (last (split_on NEWLINE seen)) n (map Inr chunks)
    = (case first_info (complete_lines (seen @ concat chunks)) of Some info \<Rightarrow> Found info | None \<Rightarrow> Absent)"
  using assms
proof (induction chunks arbitrary: seen n)
  case (Cons chunk chunks)
  let ?p = "last (split_on NEWLINE seen) @ chunk"
  note spec = scan_complete_lines_spec [of ?p]
  have lines: "first_info (complete_lines (seen @ chunk)) = first_info (complete_lines ?p)"
    using Cons.prems(1) by (simp add: complete_lines_append [of seen chunk] first_info_append)
  have le: "n + length chunk \<le> KV_SCAN_CEILING_BYTES" using Cons.prems(2) by simp
  show ?case
  proof (cases "first_info (complete_lines ?p)")
    case None
    with spec have "scan_complete_lines ?p = (None, last (split_on NEWLINE (seen @ chunk)))"
      using split_on_nonempty by (simp add: prod_eq_iff split_on_append_last [of _ seen chunk])
    with le Cons.IH [of "seen @ chunk" "n + length chunk"] Cons.prems None lines show ?thesis by simp
  next
    case (Some info)
    with lines have "first_info (complete_lines (seen @ chunk @ concat chunks)) = Some info"
      using complete_lines_append [of "seen @ chunk" "concat chunks"] by (simp add: first_info_append)
    moreover obtain rest where "scan_complete_lines ?p = (Some info, rest)" using spec Some by (metis prod.collapse)
    ultimately show ?thesis using le by simp
  qed
qed simp

section \<open>Printed series\<close>

fun escape :: "string \<Rightarrow> string" where
  "escape [] = []"
| "escape (c # cs) =
     (if c = NEWLINE then [BACKSLASH, CHR ''n''] else if c = BACKSLASH \<or> c = QUOTE then [BACKSLASH, c] else [c]) @ escape cs"

definition print_label :: "string \<times> string \<Rightarrow> string" where
  "print_label p = fst p @ [CHR ''='', QUOTE] @ escape (snd p) @ [QUOTE]"

definition print_series :: "labels \<Rightarrow> string" where
  "print_series ls = METRIC_NAME @ [CHR 0x7B] @ join [CHR '',''] (map print_label ls) @ [CHR 0x7D] @ '' 1''"

definition name_char :: "char \<Rightarrow> bool" where
  "name_char c = (c = CHR ''_'' \<or> (48 \<le> (of_char c :: nat) \<and> (of_char c :: nat) \<le> 57)
     \<or> (65 \<le> (of_char c :: nat) \<and> (of_char c :: nat) \<le> 90) \<or> (97 \<le> (of_char c :: nat) \<and> (of_char c :: nat) \<le> 122))"

definition label_name :: "string \<Rightarrow> bool" where
  "label_name s = (s \<noteq> [] \<and> list_all name_char s)"

lemma unescape_escape: "unescape False (escape v) = v"
  by (induction v) auto

lemma escape_plain: "BACKSLASH \<notin> set (escape v) \<Longrightarrow> escape v = v"
  by (induction v) (auto split: if_splits)

lemma unquote_printed: "unquote ([QUOTE] @ escape v @ [QUOTE]) = Some v"
proof -
  have "strip_prefix ([QUOTE] @ escape v @ [QUOTE]) [QUOTE] = Some (escape v @ [QUOTE])"
    "strip_suffix (escape v @ [QUOTE]) [QUOTE] = Some (escape v)"
    by (simp_all add: strip_prefix_Some_iff strip_suffix_Some_iff)
  then show ?thesis using unescape_escape [of v] escape_plain [of v] by (auto simp: unquote_def)
qed

lemma scan_escaped:
  "label_set_scan True False (escape v @ r) = map_option (\<lambda>x. escape v @ x) (label_set_scan True False r)"
  by (induction v) (auto simp: option.map_comp comp_def option.map_ident)

lemma pairs_escaped: "split_pairs True False st (escape v @ r) = split_pairs True False (st @ escape v) r"
  by (induction v arbitrary: st) auto

lemma name_char_special:
  "name_char c \<Longrightarrow> c \<notin> {BACKSLASH, QUOTE, CHR 0x7D, CHR '','', CHR ''='', NEWLINE, CR}"
  by (auto simp: name_char_def)

lemma scan_name: "list_all name_char n \<Longrightarrow> label_set_scan False False (n @ r) = map_option (\<lambda>x. n @ x) (label_set_scan False False r)"
  by (induction n; cases "label_set_scan False False r") (auto dest!: name_char_special)

lemma pairs_name: "list_all name_char n \<Longrightarrow> split_pairs False False st (n @ r) = split_pairs False False (st @ n) r"
  by (induction n arbitrary: st) (auto dest!: name_char_special)

lemma scan_label:
  "label_name (fst p) \<Longrightarrow> label_set_scan False False (print_label p @ r) = map_option (\<lambda>x. print_label p @ x) (label_set_scan False False r)"
  by (cases "label_set_scan False False r") (simp_all add: print_label_def label_name_def scan_name scan_escaped)

lemma pairs_label:
  "label_name (fst p) \<Longrightarrow> split_pairs False False [] (print_label p @ r) = split_pairs False False (print_label p) r"
  by (simp add: print_label_def label_name_def pairs_name pairs_escaped)

lemma scan_labels:
  "list_all (\<lambda>p. label_name (fst p)) ls \<Longrightarrow>
     label_set_scan False False (join [CHR '',''] (map print_label ls) @ CHR 0x7D # r) = Some (join [CHR '',''] (map print_label ls))"
proof (induction ls)
  case (Cons p ls)
  show ?case
  proof (cases "ls = []")
    case True
    with Cons.prems show ?thesis by (simp add: scan_label)
  next
    case False
    with Cons show ?thesis by (simp add: join_Cons scan_label)
  qed
qed simp

lemma pairs_labels:
  "list_all (\<lambda>p. label_name (fst p)) ls \<Longrightarrow> ls \<noteq> [] \<Longrightarrow>
     split_pairs False False [] (join [CHR '',''] (map print_label ls)) = map print_label ls"
proof (induction ls)
  case (Cons p ls)
  show ?case
  proof (cases "ls = []")
    case True
    with Cons.prems show ?thesis using pairs_label [of p "[]"] by simp
  next
    case False
    with Cons show ?thesis by (simp add: join_Cons pairs_label)
  qed
qed simp

lemma chars_snoc: "\<not> is_cont d \<Longrightarrow> chars (s @ [d]) = chars s @ [[d]]"
  by (simp add: chars_append)

definition solid :: "char \<Rightarrow> bool" where
  "solid c = (33 \<le> (of_char c :: nat) \<and> (of_char c :: nat) < 127)"

lemma solid_scalar: "solid c \<Longrightarrow> \<not> is_cont c \<and> \<not> is_whitespace [c]"
  by (simp add: solid_def is_cont_def is_whitespace_def)

lemma trim_solid:
  assumes "solid (hd s)" "solid (last s)" "s \<noteq> []" "list_all (\<lambda>c. \<not> is_cont c) (take 1 (tl s))"
  shows "trim s = s"
proof -
  obtain w d where s: "s = w @ [d]" "solid d" using assms by (metis append_butlast_last_id)
  have "\<exists>cs. chars s = [hd s] # cs"
    using assms(3,4) by (cases s; cases "tl s") auto
  then obtain cs where cs: "chars s = [hd s] # cs" by blast
  have "chars s = chars w @ [[d]]" using s chars_snoc solid_scalar by blast
  then have "dropWhile is_whitespace (rev (chars s)) = rev (chars s)" using s(2) solid_scalar by simp
  moreover have "dropWhile is_whitespace (chars s) = chars s" using cs assms(1) solid_scalar by simp
  ultimately show ?thesis by (simp add: trim_def)
qed

definition label_ok :: "string \<times> string \<Rightarrow> bool" where
  "label_ok p = (label_name (fst p) \<and> (snd p = [] \<or> \<not> is_cont (hd (snd p))))"

definition series_ok :: "labels \<Rightarrow> bool" where
  "series_ok ls = (ls \<noteq> [] \<and> list_all label_ok ls \<and> distinct (map fst ls))"

lemma name_char_solid: "name_char c \<Longrightarrow> solid c"
  by (auto simp: name_char_def solid_def)

lemma trim_name: "label_name n \<Longrightarrow> trim n = n"
proof (rule trim_solid)
  assume n: "label_name n"
  then have all: "\<And>c. c \<in> set n \<Longrightarrow> solid c" and "n \<noteq> []" by (auto simp: label_name_def list_all_iff name_char_solid)
  then show "solid (hd n)" "solid (last n)" "n \<noteq> []" by simp_all
  have "set (take 1 (tl n)) \<subseteq> set n" by (meson list.set_sel(2) \<open>n \<noteq> []\<close> in_set_takeD subsetI)
  with all solid_scalar show "list_all (\<lambda>c. \<not> is_cont c) (take 1 (tl n))" by (auto simp: list_all_iff)
qed

lemma trim_quoted:
  assumes "v = [] \<or> \<not> is_cont (hd v)"
  shows "trim (QUOTE # escape v @ [QUOTE]) = QUOTE # escape v @ [QUOTE]"
proof (rule trim_solid)
  show "list_all (\<lambda>c. \<not> is_cont c) (take 1 (tl (QUOTE # escape v @ [QUOTE])))"
    using assms by (cases v) (auto simp: is_cont_def)
qed (simp_all add: solid_def)

lemma insert_printed: "label_ok p \<Longrightarrow> insert_pair (print_label p) ls = jmap_insert (fst p) (snd p) ls"
proof -
  assume ok: "label_ok p"
  have once: "CHR ''='' \<notin> set n \<Longrightarrow> split_once (CHR ''='') (n @ CHR ''='' # r) = Some (n, r)" for n r
    by (induction n) auto
  have "CHR ''='' \<notin> set (fst p)" using ok name_char_special by (fastforce simp: label_ok_def label_name_def list_all_iff)
  from once [OF this] have "split_once (CHR ''='') (print_label p) = Some (fst p, QUOTE # escape (snd p) @ [QUOTE])"
    by (simp add: print_label_def)
  moreover have "trim (fst p) = fst p" "fst p \<noteq> []" using ok trim_name by (auto simp: label_ok_def label_name_def)
  ultimately show ?thesis using ok trim_quoted [of "snd p"] unquote_printed [of "snd p"] by (simp add: insert_pair_def label_ok_def)
qed

lemma fold_insert_printed:
  "list_all label_ok ls \<Longrightarrow> distinct (map fst (acc @ ls)) \<Longrightarrow> fold insert_pair (map print_label ls) acc = acc @ ls"
proof (induction ls arbitrary: acc)
  case (Cons p ls)
  then have "insert_pair (print_label p) acc = acc @ [p]" by (simp add: insert_printed jmap_insert_absent)
  with Cons show ?case by simp
qed simp

lemma cache_config_labels_printed:
  assumes "series_ok ls"
  shows "cache_config_labels (print_series ls) = Some ls"
proof -
  let ?inner = "join [CHR '',''] (map print_label ls)"
  have ok: "list_all (\<lambda>p. label_name (fst p)) ls" using assms by (auto simp: series_ok_def label_ok_def list_all_iff)
  have "trim (print_series ls) = print_series ls"
    by (rule trim_solid) (simp_all add: print_series_def METRIC_NAME_def solid_def is_cont_def)
  moreover have "strip_prefix (print_series ls) METRIC_NAME = Some ([CHR 0x7B] @ ?inner @ [CHR 0x7D] @ '' 1'')"
    "strip_prefix ([CHR 0x7B] @ ?inner @ [CHR 0x7D] @ '' 1'') [CHR 0x7B] = Some (?inner @ [CHR 0x7D] @ '' 1'')"
    unfolding strip_prefix_Some_iff by (simp_all add: print_series_def)
  moreover have "\<not> starts_with (print_series ls) ''#''" by (simp add: print_series_def METRIC_NAME_def starts_with_def)
  moreover have "label_set_inner (?inner @ [CHR 0x7D] @ '' 1'') = Some ?inner" using scan_labels [OF ok] by (simp add: label_set_inner_def)
  moreover have "parse_label_pairs ?inner = ls"
    using pairs_labels [OF ok] fold_insert_printed [of ls "[]"] assms by (simp add: parse_label_pairs_def series_ok_def)
  ultimately show ?thesis using assms by (simp add: cache_config_labels_def series_ok_def)
qed

lemma newline_free: "series_ok ls \<Longrightarrow> NEWLINE \<notin> set (print_series ls)"
proof -
  assume ok: "series_ok ls"
  have esc: "NEWLINE \<notin> set (escape v)" for v by (induction v) auto
  have "NEWLINE \<notin> set (print_label p)" if "p \<in> set ls" for p
    using that ok esc name_char_special by (fastforce simp: print_label_def series_ok_def label_ok_def label_name_def list_all_iff)
  then have "NEWLINE \<notin> set (join [CHR '',''] (map print_label ls))"
  proof (induction ls)
    case (Cons p ls)
    then show ?case by (cases "ls = []") (auto simp: join_Cons)
  qed simp
  then show ?thesis by (simp add: print_series_def METRIC_NAME_def)
qed

lemma text_lines_printed:
  "list_all (\<lambda>l. NEWLINE \<notin> set l \<and> last l \<noteq> CR \<and> l \<noteq> []) ls \<Longrightarrow> text_lines (concat (map (\<lambda>l. l @ [NEWLINE]) ls)) = ls"
proof -
  assume ls: "list_all (\<lambda>l. NEWLINE \<notin> set l \<and> last l \<noteq> CR \<and> l \<noteq> []) ls"
  then have "split_on NEWLINE (concat (map (\<lambda>l. l @ [NEWLINE]) ls)) = ls @ [[]]"
    by (induction ls) (auto simp: split_on_append split_on_absent)
  moreover have "map strip_cr ls = ls"
    using ls by (intro map_idI) (auto simp: strip_cr_def strip_suffix_def ends_with_iff list_all_iff)
  ultimately show ?thesis by (simp add: text_lines_def)
qed

definition engine_of :: "labels \<Rightarrow> string" where
  "engine_of ls = some_or (map_of ls ENGINE_LABEL) []"

fun lowest_series :: "labels list \<Rightarrow> labels \<Rightarrow> labels" where
  "lowest_series [] b = b"
| "lowest_series (ls # lss) b = lowest_series lss (if engine_of ls < engine_of b then ls else b)"

lemma best_series_printed:
  "list_all series_ok lss \<Longrightarrow> best_series (map print_series lss) (Some (engine_of b, b))
     = Some (engine_of (lowest_series lss b), lowest_series lss b)"
  by (induction lss arbitrary: b) (auto simp: cache_config_labels_printed engine_of_def [symmetric])

lemma lowest_series_spec:
  "lowest_series lss b \<in> set (b # lss) \<and> (\<forall>ls \<in> set (b # lss). engine_of (lowest_series lss b) \<le> engine_of ls)"
proof (induction lss arbitrary: b)
  case (Cons ls lss)
  let ?c = "if engine_of ls < engine_of b then ls else b"
  have "engine_of ?c \<le> engine_of ls" "engine_of ?c \<le> engine_of b" by auto
  with Cons.IH [of ?c] show ?case by (auto intro: order.trans)
qed simp

lemma kv_labels_line: "series_ok ls \<Longrightarrow> parse_cache_config_info (print_series ls @ [NEWLINE]) = Some ls"
  using text_lines_printed [of "[print_series ls]"] newline_free [of ls] cache_config_labels_printed [of ls]
  by (simp add: parse_cache_config_info_def print_series_def [of ls])

section \<open>Properties\<close>

text \<open>The label parser inverts the metrics format. For a body of series lines printed with arbitrary
  values (quotes, backslashes, commas, braces and line breaks escaped as the format says), the result is the
  label set of one of the series, with every name and value exactly as printed, and no series has a smaller
  engine label.\<close>

theorem kv_labels_round_trip:
  assumes "list_all series_ok (ls # lss)"
  shows "\<exists>r \<in> set (ls # lss). parse_cache_config_info (concat (map (\<lambda>l. print_series l @ [NEWLINE]) (ls # lss))) = Some r
    \<and> list_all (\<lambda>l. engine_of r \<le> engine_of l) (ls # lss)"
proof -
  have "last (print_series l) = CHR ''1''" "print_series l \<noteq> []" for l by (simp_all add: print_series_def)
  then have "text_lines (concat (map (\<lambda>l. l @ [NEWLINE]) (map print_series (ls # lss)))) = map print_series (ls # lss)"
    using assms newline_free by (intro text_lines_printed) (auto simp: list_all_iff)
  then have "parse_cache_config_info (concat (map (\<lambda>l. print_series l @ [NEWLINE]) (ls # lss)))
      = map_option snd (best_series (map print_series (ls # lss)) None)"
    by (simp add: parse_cache_config_info_def comp_def)
  also have "\<dots> = Some (lowest_series lss ls)"
    using assms best_series_printed [of lss ls] by (simp add: cache_config_labels_printed engine_of_def [symmetric])
  finally show ?thesis using lowest_series_spec [of lss ls] by (auto simp: list_all_iff)
qed

text \<open>The scrape does not depend on how the metrics stream was cut into chunks: below the ceiling the
  result is the first complete line the parser accepts, or the absence of the gauge. (So a last line without
  its newline is not read, and the engine label does not choose between series on different lines.)\<close>

theorem scrape_chunking_irrelevant:
  assumes "length (concat chunks) \<le> KV_SCAN_CEILING_BYTES"
  shows "scrape_kv_stream (Ok (200, map Inr chunks))
    = (case first_info (complete_lines (concat chunks)) of Some info \<Rightarrow> Found info | None \<Rightarrow> Absent)"
  using scrape_chunks_spec [of "[]" 0 chunks] assms by (simp add: scrape_kv_stream_def complete_lines_def)

section \<open>Witnesses\<close>

definition sample_series :: "string \<Rightarrow> labels" where
  "sample_series e = [(ENGINE_LABEL, e), (''block_size'', ''16'')]"

theorem kv_labels_round_trip_witness:
  "\<exists>r \<in> set [sample_series ''1'', sample_series ''0'']. parse_cache_config_info
     (concat (map (\<lambda>l. print_series l @ [NEWLINE]) [sample_series ''1'', sample_series ''0''])) = Some r
     \<and> list_all (\<lambda>l. engine_of r \<le> engine_of l) [sample_series ''1'', sample_series ''0'']"
  by (rule kv_labels_round_trip)
    (simp add: sample_series_def series_ok_def label_ok_def label_name_def name_char_def ENGINE_LABEL_def is_cont_def)

theorem scrape_chunking_irrelevant_witness:
  "scrape_kv_stream (Ok (200, map Inr [''vllm'', '':x''])) = Absent"
  by (subst scrape_chunking_irrelevant) (simp_all add: KV_SCAN_CEILING_BYTES_def complete_lines_def)

section \<open>The scrape against the parser\<close>

lemma lossy_ascii: "list_all is_ascii s \<Longrightarrow> from_utf8_lossy s = s"
proof (induction s)
  case Nil
  then show ?case by (subst from_utf8_lossy.simps) simp
qed (simp add: lossy_Cons_ascii)

text \<open>The first line decides, whatever engine a later one names; and a series on a last line without a
  newline is not seen, though the parser reads it.\<close>

lemma scrape_first_line_wins:
  assumes "series_ok ls" "list_all is_ascii (print_series ls)" "length (print_series ls @ NEWLINE # rest) \<le> KV_SCAN_CEILING_BYTES"
  shows "scrape_kv_stream (Ok (200, [Inr (print_series ls @ NEWLINE # rest)])) = Found ls"
    and "scrape_kv_stream (Ok (200, [Inr (print_series ls)])) = Absent"
    and "parse_cache_config_info (print_series ls) = Some ls"
proof -
  have n: "NEWLINE \<notin> set (print_series ls)" using assms(1) by (rule newline_free)
  have "complete_lines (print_series ls @ NEWLINE # rest) = (print_series ls @ [NEWLINE]) # complete_lines rest"
    using n split_on_nonempty by (simp add: complete_lines_def split_on_append split_on_absent)
  moreover have "from_utf8_lossy (print_series ls @ [NEWLINE]) = print_series ls @ [NEWLINE]"
    using assms(2) by (intro lossy_ascii) (simp add: is_ascii_def)
  ultimately show "scrape_kv_stream (Ok (200, [Inr (print_series ls @ NEWLINE # rest)])) = Found ls"
    using scrape_chunks_spec [of "[]" 0 "[print_series ls @ NEWLINE # rest]"] assms(3) kv_labels_line [OF assms(1)]
    by (simp add: scrape_kv_stream_def complete_lines_def)
  show "scrape_kv_stream (Ok (200, [Inr (print_series ls)])) = Absent"
    using scrape_chunks_spec [of "[]" 0 "[print_series ls]"] assms(3) n
    by (simp add: scrape_kv_stream_def complete_lines_def split_on_absent)
  have "print_series ls \<noteq> []" by (simp add: print_series_def)
  with n show "parse_cache_config_info (print_series ls) = Some ls"
    by (simp add: parse_cache_config_info_def text_lines_def split_on_absent cache_config_labels_printed [OF assms(1)])
qed

end
