(* ===== verification/Context_Window.thy ===== *)
theory Context_Window
  imports Kv_Labels Fix_Core Grouped_Balancer
begin

text \<open>
  The context-window cache \<^verbatim>\<open>llama-proxy/src/proxy/context.rs\<close>, the start-up probes
  \<^verbatim>\<open>llama-proxy/src/backends/preflight.rs\<close>, and the remaining parts of \<^verbatim>\<open>llama-proxy/src/proxy/compat.rs\<close>.

  The process-wide statics are the fields of \<open>ctx_state\<close>; a cache that was never initialised is an empty
  one. Parameters: the network (\<open>net\<close> answers a GET with its headers), the clock at each read, whether a
  \<^verbatim>\<open>try_write\<close> finds the lock free, and the client builder. Preflight runs its probes concurrently; they
  are taken in the order of the list.
\<close>

section \<open>Choosing an entry\<close>

definition entry_score :: "json \<Rightarrow> (string \<times> u64) option" where
  "entry_score e = Option.bind (get_str e ''id'') (\<lambda>i. Option.bind (Option.bind (get e ''max_model_len'') as_u64) (\<lambda>n. Some (i, n)))"

definition scored :: "json list \<Rightarrow> (string \<times> u64) list" where
  "scored entries = List.map_filter entry_score entries"

definition name_matches :: "string \<Rightarrow> string \<Rightarrow> bool" where
  "name_matches name i = (starts_with i name \<or> starts_with name i)"

definition better :: "nat \<times> u64 \<Rightarrow> nat \<times> u64 \<Rightarrow> bool" where
  "better a b = (fst b < fst a \<or> (fst a = fst b \<and> snd b < snd a))"

fun best_match :: "string \<Rightarrow> (string \<times> u64) list \<Rightarrow> (nat \<times> u64) option \<Rightarrow> (nat \<times> u64) option" where
  "best_match name [] best = best"
| "best_match name ((i, n) # es) best =
     (if name_matches name i \<and> is_none_or (\<lambda>b. better (length i, n) b) best
      then best_match name es (Some (length i, n)) else best_match name es best)"

definition max_u64 :: "u64 list \<Rightarrow> u64 option" where
  "max_u64 ns = (if ns = [] then None else Some (fold max (tl ns) (hd ns)))"

definition select_max_model_len :: "json list \<Rightarrow> string option \<Rightarrow> u64 option" where
  "select_max_model_len entries model_name =
     (case Option.bind model_name (\<lambda>name. best_match name (scored entries) None) of
        Some (_, n) \<Rightarrow> Some n
      | None \<Rightarrow> max_u64 (map snd (scored entries)))"

section \<open>The cache\<close>

record cache_entry =
  ce_value :: u64
  ce_fetched_at :: instant

record ctx_state =
  ctx_cache :: "string \<Rightarrow> cache_entry option"
  ctx_evictions :: u64
  ctx_stale_skips :: u64
  ctx_probe_timeouts :: u64
  ctx_warned :: "string list"

definition CONTEXT_CACHE_TTL :: duration where "CONTEXT_CACHE_TTL = from_secs 600"

definition entry_is_fresh :: "instant \<Rightarrow> instant \<Rightarrow> duration \<Rightarrow> bool" where
  "entry_is_fresh now fetched_at ttl = (now - fetched_at < ttl)"

definition invalidate_context_cache :: "bool \<Rightarrow> string \<Rightarrow> ctx_state \<Rightarrow> bool \<times> ctx_state" where
  "invalidate_context_cache lock_free url st =
     (if \<not> lock_free then (False, st)
      else if ctx_cache st url \<noteq> None
      then (True, st\<lparr>ctx_cache := (ctx_cache st)(url := None), ctx_evictions := ctx_evictions st + 1\<rparr>)
      else (False, st))"

definition note_context_probe_timeout :: "ctx_state \<Rightarrow> ctx_state" where
  "note_context_probe_timeout st = st\<lparr>ctx_probe_timeouts := ctx_probe_timeouts st + 1\<rparr>"

definition cache_result :: "bool \<Rightarrow> instant \<Rightarrow> string \<Rightarrow> u64 \<Rightarrow> ctx_state \<Rightarrow> ctx_state" where
  "cache_result lock_free now url v st =
     (if lock_free then st\<lparr>ctx_cache := (ctx_cache st)(url \<mapsto> \<lparr>ce_value = v, ce_fetched_at = now\<rparr>)\<rparr>
      else st\<lparr>ctx_stale_skips := ctx_stale_skips st + 1\<rparr>)"

text \<open>The answer to a GET: status, its text, the server header, and the body or its read error.\<close>

record get_reply =
  g_status :: nat
  g_status_text :: string
  g_server :: "string option"
  g_body :: "(string, string) result"

type_synonym net = "string \<Rightarrow> (string \<times> string) list \<Rightarrow> (get_reply, string) result"

definition reply_json :: "serde_env \<Rightarrow> get_reply \<Rightarrow> json option" where
  "reply_json env r = (case g_body r of Inr s \<Rightarrow> parse_value env s | Inl _ \<Rightarrow> None)"

definition fetch_from_props :: "serde_env \<Rightarrow> net \<Rightarrow> string \<Rightarrow> string option \<Rightarrow> u64 option" where
  "fetch_from_props env net url api_key = (case net (node_url url ''/props'' None) (with_auth [] api_key) of
       Inr resp \<Rightarrow> Option.bind (reply_json env resp) (\<lambda>props. Option.bind (get props ''default_generation_settings'') (\<lambda>s.
         Option.bind (get s ''n_ctx'') as_u64))
     | Inl _ \<Rightarrow> None)"

definition fetch_from_models :: "serde_env \<Rightarrow> net \<Rightarrow> string \<Rightarrow> string option \<Rightarrow> string option \<Rightarrow> u64 option" where
  "fetch_from_models env net url api_key model_name = (case net (node_url url ''/v1/models'' None) (with_auth [] api_key) of
       Inr resp \<Rightarrow> Option.bind (reply_json env resp) (\<lambda>models. Option.bind (get_array models ''data'') (\<lambda>arr.
         select_max_model_len arr model_name))
     | Inl _ \<Rightarrow> None)"

definition fetch_context_total ::
  "serde_env \<Rightarrow> net \<Rightarrow> instant \<Rightarrow> instant \<Rightarrow> bool \<Rightarrow> string \<Rightarrow> string option \<Rightarrow> string option \<Rightarrow> ctx_state \<Rightarrow> u64 option \<times> ctx_state" where
  "fetch_context_total env net now later lock_free url api_key model_name st =
     (case ctx_cache st url of
        Some e \<Rightarrow> if entry_is_fresh now (ce_fetched_at e) CONTEXT_CACHE_TTL then (Some (ce_value e), st) else
          (case or_else (fetch_from_props env net url api_key) (fetch_from_models env net url api_key model_name) of
             Some n \<Rightarrow> (Some n, cache_result lock_free later url n st) | None \<Rightarrow> (None, st))
      | None \<Rightarrow>
          (case or_else (fetch_from_props env net url api_key) (fetch_from_models env net url api_key model_name) of
             Some n \<Rightarrow> (Some n, cache_result lock_free later url n st) | None \<Rightarrow> (None, st)))"

record context_probe =
  cp_base_url :: string
  cp_is_llama_cpp :: bool
  cp_max_model_len :: "u64 option"
  cp_api_key :: "string option"

definition cache_context_from_preflight ::
  "serde_env \<Rightarrow> net \<Rightarrow> instant \<Rightarrow> bool \<Rightarrow> context_probe \<Rightarrow> ctx_state \<Rightarrow> u64 option \<times> ctx_state" where
  "cache_context_from_preflight env net later lock_free probe st =
     (let url = cp_base_url probe in
      case ctx_cache st url of
        Some e \<Rightarrow> (Some (ce_value e), st)
      | None \<Rightarrow>
          (case (if cp_is_llama_cpp probe then fetch_from_props env net url (cp_api_key probe) else cp_max_model_len probe) of
             Some n \<Rightarrow> (Some n, cache_result lock_free later url n st)
           | None \<Rightarrow> (None, st)))"

text \<open>The warning is logged when the second component is true.\<close>

definition warn_context_fetch_failed_once :: "string \<Rightarrow> ctx_state \<Rightarrow> bool \<times> ctx_state" where
  "warn_context_fetch_failed_once url st =
     (if url \<in> set (ctx_warned st) then (False, st) else (True, st\<lparr>ctx_warned := url # ctx_warned st\<rparr>))"

section \<open>Preflight\<close>

definition PREFLIGHT_TIMEOUT_CAP_SECS :: u64 where "PREFLIGHT_TIMEOUT_CAP_SECS = 10"
definition MODELS_MAX_BYTES :: nat where "MODELS_MAX_BYTES = 2 * 1024 * 1024"

record models_result =
  mr_model_ids :: "string list"
  mr_max_model_len :: "u64 option"
  mr_is_llama_cpp :: bool

text \<open>The parser's own message is not modelled; it is only logged.\<close>

definition fetch_models :: "serde_env \<Rightarrow> (get_reply, string) result \<Rightarrow> string option \<Rightarrow> (models_result, string) result" where
  "fetch_models env answer model_name = and_then answer (\<lambda>resp.
     if \<not> (200 \<le> g_status resp \<and> g_status resp < 300) then Err (''/v1/models returned HTTP '' @ g_status_text resp)
     else and_then (g_body resp) (\<lambda>bytes.
       if length bytes > MODELS_MAX_BYTES
       then Err (''/v1/models payload is '' @ digits (length bytes) @ '' bytes, over the '' @ digits MODELS_MAX_BYTES @ ''-byte cap'')
       else (case parse_value env bytes of
               None \<Rightarrow> Err ''invalid JSON''
             | Some body \<Rightarrow> Ok
                 \<lparr>mr_model_ids = (case get_array body ''data'' of Some arr \<Rightarrow> List.map_filter (\<lambda>m. get_str m ''id'') arr | None \<Rightarrow> []),
                  mr_max_model_len = Option.bind (get_array body ''data'') (\<lambda>arr. select_max_model_len arr model_name),
                  mr_is_llama_cpp = is_some_and (\<lambda>s. str_contains s ''llama.cpp'') (g_server resp)\<rparr>)))"

definition build_preflight_client ::
  "('cert, 'ident, 'c, string) client_env \<Rightarrow> u64 \<Rightarrow> tls_config option \<Rightarrow> ('c, string) result" where
  "build_preflight_client cenv timeout_seconds tls = build_node_client cenv (min timeout_seconds PREFLIGHT_TIMEOUT_CAP_SECS) tls"

definition auto_model :: "string option \<Rightarrow> string list \<Rightarrow> string option" where
  "auto_model configured model_ids = (case model_ids of [i] \<Rightarrow> if configured = None then Some i else None | _ \<Rightarrow> None)"

text \<open>One node's probe: its discovered model if it answered, and the context cache.\<close>

definition probe_node ::
  "('cert, 'ident, 'c, string) client_env \<Rightarrow> serde_env \<Rightarrow> net \<Rightarrow> instant \<Rightarrow> bool \<Rightarrow> backend_node_config \<Rightarrow> ctx_state
     \<Rightarrow> string option option \<times> ctx_state" where
  "probe_node cenv env net later lock_free cfg st =
     (let url = trim_end_matches (CHR ''/'') (nc_url cfg);
          models_url = node_url url ''/v1/models'' (nc_strip_path_prefix cfg) in
      case build_preflight_client cenv (nc_timeout_seconds cfg) (nc_tls cfg) of
        Inl e \<Rightarrow> (None, st)
      | Inr client \<Rightarrow>
          (case fetch_models env (net models_url (with_auth [] (nc_api_key cfg))) (nc_model cfg) of
             Inl e \<Rightarrow> (None, st)
           | Inr r \<Rightarrow>
               (let probe = \<lparr>cp_base_url = url, cp_is_llama_cpp = mr_is_llama_cpp r, cp_max_model_len = mr_max_model_len r,
                             cp_api_key = nc_api_key cfg\<rparr> in
                (Some (auto_model (nc_model cfg) (mr_model_ids r)), snd (cache_context_from_preflight env net later lock_free probe st)))))"

definition apply_auto_model :: "string option option \<Rightarrow> backend_node_config \<Rightarrow> backend_node_config" where
  "apply_auto_model outcome cfg = (case outcome of Some (Some m) \<Rightarrow> cfg\<lparr>nc_model := Some m\<rparr> | _ \<Rightarrow> cfg)"

fun preflight_nodes ::
  "('cert, 'ident, 'c, string) client_env \<Rightarrow> serde_env \<Rightarrow> net \<Rightarrow> instant \<Rightarrow> bool \<Rightarrow> backend_node_config list \<Rightarrow> ctx_state
     \<Rightarrow> backend_node_config list \<times> ctx_state" where
  "preflight_nodes cenv env net later lock_free [] st = ([], st)"
| "preflight_nodes cenv env net later lock_free (cfg # cfgs) st =
     (let (outcome, st1) = probe_node cenv env net later lock_free cfg st;
          (rest, st2) = preflight_nodes cenv env net later lock_free cfgs st1 in
      (apply_auto_model outcome cfg # rest, st2))"

fun run_preflight_multi ::
  "('cert, 'ident, 'c, string) client_env \<Rightarrow> serde_env \<Rightarrow> net \<Rightarrow> instant \<Rightarrow> bool \<Rightarrow> backends_config \<Rightarrow> ctx_state
     \<Rightarrow> backends_config \<times> ctx_state" where
  "run_preflight_multi cenv env net later lock_free [] st = ([], st)"
| "run_preflight_multi cenv env net later lock_free ((name, grp) # groups) st =
     (let (nodes, st1) = preflight_nodes cenv env net later lock_free (gc_nodes grp) st;
          (rest, st2) = run_preflight_multi cenv env net later lock_free groups st1 in
      ((name, grp\<lparr>gc_nodes := nodes\<rparr>) # rest, st2))"

definition run_preflight_single ::
  "('cert, 'ident, 'c, string) client_env \<Rightarrow> serde_env \<Rightarrow> net \<Rightarrow> instant \<Rightarrow> bool \<Rightarrow> backend_config \<Rightarrow> ctx_state \<Rightarrow> ctx_state" where
  "run_preflight_single cenv env net later lock_free backend st =
     (let url = backend_config_base_url backend;
          models_url = node_url url ''/v1/models'' (bc_strip_path_prefix backend) in
      case build_preflight_client cenv (bc_timeout_seconds backend) (bc_tls backend) of
        Inl e \<Rightarrow> st
      | Inr client \<Rightarrow>
          (let (llama, len) = (case fetch_models env (net models_url (with_auth [] (bc_api_key backend))) (bc_model backend) of
                 Inr r \<Rightarrow> (mr_is_llama_cpp r, mr_max_model_len r) | Inl e \<Rightarrow> (False, None)) in
           snd (cache_context_from_preflight env net later lock_free
             \<lparr>cp_base_url = url, cp_is_llama_cpp = llama, cp_max_model_len = len, cp_api_key = bc_api_key backend\<rparr> st)))"

section \<open>The estimate endpoint\<close>

definition SHIM_PATH :: string where "SHIM_PATH = ''/api/models/vram-estimate''"

definition is_vram_estimate_path :: "string \<Rightarrow> bool" where
  "is_vram_estimate_path path = (some_or (strip_suffix path ''/'') path = SHIM_PATH)"

text \<open>The shim's own client may be missing (it could not be built), and the whole probe has a time limit.\<close>

definition resolve_context_length ::
  "serde_env \<Rightarrow> net option \<Rightarrow> bool \<Rightarrow> instant \<Rightarrow> instant \<Rightarrow> bool \<Rightarrow> 'c backend_node \<Rightarrow> ctx_state \<Rightarrow> u64 option \<times> ctx_state" where
  "resolve_context_length env probe_net in_time now later lock_free n st = (case probe_net of
       None \<Rightarrow> (None, st)
     | Some net \<Rightarrow>
         if in_time then fetch_context_total env net now later lock_free (base_url n) (n_api_key n) (n_model n) st else (None, st))"

definition CONTEXT_NOTE :: string where
  "CONTEXT_NOTE = ''reported by llama-proxy from the backend'' @ [CHR 0x27] @ ''s own advertised context window''"

definition MEMORY_LABELS :: "string list" where
  "MEMORY_LABELS = [''num_gpu_blocks'', ''block_size'', ''kv_cache_size_tokens'', ''kv_cache_max_concurrency'',
     ''gpu_memory_utilization'', ''cache_dtype'', ''enable_prefix_caching'']"

definition build_vram_estimate_body :: "string \<Rightarrow> u64 \<Rightarrow> labels option \<Rightarrow> json" where
  "build_vram_estimate_body model context_length kv = JObj
     ([(''model'', JStr model), (''context_length'', JNum (PosInt context_length)), (''model_max_context'', JNum (PosInt context_length)),
       (''context_note'', JStr CONTEXT_NOTE)]
      @ (case kv of
           None \<Rightarrow> []
         | Some ls \<Rightarrow> [(''vllm'', JObj (List.map_filter (\<lambda>l. map_option (\<lambda>v. (l, JStr v)) (map_of ls l)) MEMORY_LABELS))]))"

section \<open>Facts on the choice\<close>

lemma better_irrefl: "\<not> better a a"
  by (simp add: better_def)

lemma better_trans: "better a b \<Longrightarrow> better b c \<Longrightarrow> better a c"
  by (auto simp: better_def)

lemma not_better_trans: "\<not> better a b \<Longrightarrow> \<not> better b c \<Longrightarrow> \<not> better a c"
  by (auto simp: better_def)

lemma best_match_spec:
  "(case best_match name es best of
      None \<Rightarrow> best = None \<and> (\<forall>(i, n) \<in> set es. \<not> name_matches name i)
    | Some b \<Rightarrow> (best = Some b \<or> (\<exists>(i, n) \<in> set es. name_matches name i \<and> b = (length i, n)))
        \<and> (\<forall>(i, n) \<in> set es. name_matches name i \<longrightarrow> \<not> better (length i, n) b)
        \<and> is_none_or (\<lambda>b0. \<not> better b0 b) best)"
proof (induction name es best rule: best_match.induct)
  case (1 name best)
  then show ?case by (cases best) (auto simp: better_irrefl)
next
  case (2 name i n es best)
  show ?case
  proof (cases "name_matches name i \<and> is_none_or (\<lambda>b. better (length i, n) b) best")
    case True
    with 2(1) obtain b where b: "best_match name es (Some (length i, n)) = Some b" by (auto split: option.splits)
    with 2(1) True have "\<not> better (length i, n) b" by simp
    then have "is_none_or (\<lambda>b0. \<not> better b0 b) best" using True by (cases best) (auto dest: better_trans)
    with 2(1) True b show ?thesis by auto
  next
    case False
    then show ?thesis
    proof (cases "best_match name es best")
      case (Some b)
      have "name_matches name i \<Longrightarrow> \<not> better (length i, n) b"
        using False Some 2(2) [OF False] by (cases best) (auto dest: not_better_trans)
      with Some 2(2) [OF False] False show ?thesis by auto
    qed (use False 2(2) in auto)
  qed
qed

lemma fold_max_spec: "fold max ns (m :: u64) \<in> set (m # ns) \<and> (\<forall>n \<in> set (m # ns). n \<le> fold max ns m)"
proof (induction ns arbitrary: m)
  case (Cons n ns)
  from Cons.IH [of "max n m"] show ?case by (auto simp: max_def split: if_splits)
qed simp

lemma max_u64_spec: "case max_u64 ns of None \<Rightarrow> ns = [] | Some m \<Rightarrow> m \<in> set ns \<and> (\<forall>n \<in> set ns. n \<le> m)"
  using fold_max_spec [of "tl ns" "hd ns"] by (cases ns) (auto simp: max_u64_def)

section \<open>Histories of the cache\<close>

text \<open>What the backend says when it is asked.\<close>

definition told :: "serde_env \<Rightarrow> net \<Rightarrow> string \<Rightarrow> string option \<Rightarrow> string option \<Rightarrow> u64 option" where
  "told env net url api_key model = or_else (fetch_from_props env net url api_key) (fetch_from_models env net url api_key model)"

definition told_probe :: "serde_env \<Rightarrow> net \<Rightarrow> context_probe \<Rightarrow> u64 option" where
  "told_probe env net probe =
     (if cp_is_llama_cpp probe then fetch_from_props env net (cp_base_url probe) (cp_api_key probe) else cp_max_model_len probe)"

definition report :: "string \<Rightarrow> u64 option \<Rightarrow> instant \<Rightarrow> (string \<times> u64 \<times> instant) list" where
  "report url v t = (case v of Some n \<Rightarrow> [(url, n, t)] | None \<Rightarrow> [])"

text \<open>The states after any sequence of operations, with the reports received and not evicted since.\<close>

inductive ctx_reach :: "(string \<times> u64 \<times> instant) list \<Rightarrow> ctx_state \<Rightarrow> bool" where
  start: "ctx_cache st = (\<lambda>_. None) \<Longrightarrow> ctx_reach [] st"
| fetch: "ctx_reach rs st \<Longrightarrow> fetch_context_total env net now later lock_free url key model st = (r, st')
    \<Longrightarrow> ctx_reach (report url (told env net url key model) later @ rs) st'"
| preflight: "ctx_reach rs st \<Longrightarrow> cache_context_from_preflight env net later lock_free probe st = (r, st')
    \<Longrightarrow> ctx_reach (report (cp_base_url probe) (told_probe env net probe) later @ rs) st'"
| evict: "ctx_reach rs st \<Longrightarrow> invalidate_context_cache lock_free url st = (b, st')
    \<Longrightarrow> ctx_reach (if lock_free then filter (\<lambda>(u, _). u \<noteq> url) rs else rs) st'"
| timeout: "ctx_reach rs st \<Longrightarrow> ctx_reach rs (note_context_probe_timeout st)"
| warn: "ctx_reach rs st \<Longrightarrow> warn_context_fetch_failed_once url st = (b, st') \<Longrightarrow> ctx_reach rs st'"

definition reported :: "(string \<times> u64 \<times> instant) list \<Rightarrow> ctx_state \<Rightarrow> bool" where
  "reported rs st = (\<forall>url e. ctx_cache st url = Some e \<longrightarrow> (url, ce_value e, ce_fetched_at e) \<in> set rs)"

lemma reported_mono: "reported rs st \<Longrightarrow> reported (qs @ rs) st"
  by (auto simp: reported_def)

lemma reported_cache_result: "reported rs st \<Longrightarrow> reported ((url, n, t) # rs) (cache_result lock_free t url n st)"
  by (auto simp: reported_def cache_result_def)

lemma fetch_cases:
  "fetch_context_total env net now later lock_free url key model st =
     (case ctx_cache st url of
        Some e \<Rightarrow> if entry_is_fresh now (ce_fetched_at e) CONTEXT_CACHE_TTL then (Some (ce_value e), st)
          else (told env net url key model, case told env net url key model of None \<Rightarrow> st | Some n \<Rightarrow> cache_result lock_free later url n st)
      | None \<Rightarrow> (told env net url key model, case told env net url key model of None \<Rightarrow> st | Some n \<Rightarrow> cache_result lock_free later url n st))"
  by (simp add: fetch_context_total_def told_def split: option.splits)

lemma reported_answer:
  "reported rs st \<Longrightarrow> reported (report url v t @ rs) (case v of None \<Rightarrow> st | Some n \<Rightarrow> cache_result lock_free t url n st)"
  by (cases v) (simp_all add: report_def reported_cache_result)

lemma ctx_reach_reported: "ctx_reach rs st \<Longrightarrow> reported rs st"
proof (induction rule: ctx_reach.induct)
  case (fetch rs st env net now later lock_free url key model r st')
  have "st' = st \<or> st' = (case told env net url key model of None \<Rightarrow> st | Some n \<Rightarrow> cache_result lock_free later url n st)"
    using fetch.hyps(2) by (auto simp: fetch_cases split: option.splits if_splits)
  then show ?case using reported_mono [OF fetch.IH] reported_answer [OF fetch.IH] by blast
next
  case (preflight rs st env net later lock_free probe r st')
  have "st' = st \<or> st' = (case told_probe env net probe of None \<Rightarrow> st | Some n \<Rightarrow> cache_result lock_free later (cp_base_url probe) n st)"
    using preflight.hyps(2) by (auto simp: cache_context_from_preflight_def told_probe_def Let_def split: option.splits if_splits)
  then show ?case using reported_mono [OF preflight.IH] reported_answer [OF preflight.IH] by blast
next
  case (evict rs st lock_free url b st')
  then show ?case by (auto simp: reported_def invalidate_context_cache_def split: if_splits)
qed (auto simp: reported_def note_context_probe_timeout_def warn_context_fetch_failed_once_def split: if_splits)

section \<open>Properties\<close>

text \<open>C27. The context window the proxy reports is one the backend reported. After any sequence of fetches,
  preflight fills, evictions and contended writes, a fetch answers with what the backend says when asked, or
  with a value that backend gave less than ten minutes ago and that no eviction has removed since.\<close>

theorem context_value_was_reported:
  assumes "ctx_reach rs st" "fetch_context_total env net now later lock_free url key model st = (r, st')"
  shows "r = told env net url key model
    \<or> (\<exists>v t. r = Some v \<and> (url, v, t) \<in> set rs \<and> now - t < CONTEXT_CACHE_TTL)"
proof -
  from ctx_reach_reported [OF assms(1)] assms(2) show ?thesis
    by (auto simp: fetch_cases reported_def entry_is_fresh_def split: option.splits if_splits)
qed

text \<open>Which entry of a model list gives the context window. With a configured name that some usable entry
  matches it is the entry with the longest matching identifier, the larger window on ties; otherwise it is
  the largest window of the usable entries, and none if there is none. So the order of the list is irrelevant.\<close>

theorem select_max_model_len_exact:
  "case select_max_model_len entries model_name of
     None \<Rightarrow> scored entries = []
   | Some n \<Rightarrow>
       if list_ex (\<lambda>(i, _). is_some_and (\<lambda>name. name_matches name i) model_name) (scored entries)
       then (\<exists>i. (i, n) \<in> set (scored entries) \<and> is_some_and (\<lambda>name. name_matches name i) model_name
         \<and> list_all (\<lambda>(j, m). \<not> (is_some_and (\<lambda>name. name_matches name j) model_name \<and> better (length j, m) (length i, n))) (scored entries))
       else n \<in> set (map snd (scored entries)) \<and> list_all (\<lambda>m. m \<le> n) (map snd (scored entries))"
proof -
  have mx: "max_u64 (map snd (scored entries)) = Some n \<Longrightarrow>
      n \<in> set (map snd (scored entries)) \<and> list_all (\<lambda>m. m \<le> n) (map snd (scored entries))" for n
    using max_u64_spec [of "map snd (scored entries)"] by (simp add: list_all_iff)
  have mn: "max_u64 (map snd (scored entries)) = None \<Longrightarrow> scored entries = []" by (simp add: max_u64_def split: if_splits)
  show ?thesis
  proof (cases "Option.bind model_name (\<lambda>name. best_match name (scored entries) None)")
    case None
    then have "\<not> list_ex (\<lambda>(i, _). is_some_and (\<lambda>name. name_matches name i) model_name) (scored entries)"
      using best_match_spec [where es = "scored entries" and best = None] by (cases model_name) (fastforce simp: list_ex_iff split: option.splits)+
    with None mx mn show ?thesis by (auto simp: select_max_model_len_def split: option.splits)
  next
    case (Some b)
    then obtain name where name: "model_name = Some name" "best_match name (scored entries) None = Some b" by (cases model_name) auto
    with best_match_spec [where name = name and es = "scored entries" and best = None] obtain i n where
      "(i, n) \<in> set (scored entries)" "name_matches name i" "b = (length i, n)"
      "\<forall>(j, m) \<in> set (scored entries). name_matches name j \<longrightarrow> \<not> better (length j, m) b" by auto
    with Some name show ?thesis by (auto simp: select_max_model_len_def list_ex_iff list_all_iff)
  qed
qed

section \<open>Witness\<close>

definition window_env :: serde_env where
  "window_env = \<lparr>parse_value = (\<lambda>_. Some (JObj [(''default_generation_settings'', JObj [(''n_ctx'', JNum (PosInt 4096))])])),
     print_value = (\<lambda>_. Err []), display_value = (\<lambda>_. []), decode_string = (\<lambda>_. None), entry_stream = (\<lambda>_. None)\<rparr>"

definition up_net :: net where
  "up_net url hs = Ok \<lparr>g_status = 200, g_status_text = ''200 OK'', g_server = None, g_body = Ok ''{}''\<rparr>"

definition down_net :: net where "down_net url hs = Err ''refused''"

definition cold_state :: ctx_state where
  "cold_state = \<lparr>ctx_cache = (\<lambda>_. None), ctx_evictions = 0, ctx_stale_skips = 0, ctx_probe_timeouts = 0, ctx_warned = []\<rparr>"

definition warm_state :: ctx_state where
  "warm_state = snd (fetch_context_total window_env up_net 5 6 True ''u'' None None cold_state)"

lemma warm_reached: "ctx_reach [(''u'', 4096, 6)] warm_state"
proof -
  have "ctx_reach (report ''u'' (told window_env up_net ''u'' None None) 6 @ []) warm_state"
  proof (rule ctx_reach.fetch)
    show "ctx_reach [] cold_state" by (rule ctx_reach.start) (simp add: cold_state_def)
    show "fetch_context_total window_env up_net 5 6 True ''u'' None None cold_state
        = (fst (fetch_context_total window_env up_net 5 6 True ''u'' None None cold_state), warm_state)" by (simp add: warm_state_def)
  qed
  then show ?thesis by (simp add: report_def told_def fetch_from_props_def up_net_def window_env_def reply_json_def or_else_def)
qed

theorem context_value_was_reported_witness:
  "\<exists>r st'. fetch_context_total window_env down_net 100 101 True ''u'' None None warm_state = (r, st')
     \<and> (r = told window_env down_net ''u'' None None \<or> (\<exists>v t. r = Some v \<and> (''u'', v, t) \<in> set [(''u'', 4096, 6)] \<and> 100 - t < CONTEXT_CACHE_TTL))"
  using context_value_was_reported [OF warm_reached, of window_env down_net 100 101 True "''u''" None None] by (metis prod.exhaust_sel)

end
