(* ===== verification/Float64.thy ===== *)
theory Float64
  imports Config
begin

text \<open>
  Binary64 arithmetic on bit patterns, as far as the statistics of \<^verbatim>\<open>llama-proxy\<close> use Rust's \<^verbatim>\<open>f64\<close>:
  conversion from integers, multiplication, division and comparison. A finite result is the exact
  rational rounded to the nearest pattern, ties to the even one; every operation computes.
\<close>

section \<open>Rounding\<close>

fun bit_length :: "nat \<Rightarrow> nat" where
  "bit_length n = (if n = 0 then 0 else Suc (bit_length (n div 2)))"

declare bit_length.simps [simp del]

definition up :: "int \<Rightarrow> nat" where "up e = 2 ^ nat e"

text \<open>The binary exponent of \<open>n / d\<close>, both positive.\<close>

definition log_ratio :: "nat \<Rightarrow> nat \<Rightarrow> int" where
  "log_ratio n d = (let k = int (bit_length n) - int (bit_length d) in if d * up k \<le> n * up (- k) then k else k - 1)"

definition unit_exponent :: "nat \<Rightarrow> nat \<Rightarrow> int" where
  "unit_exponent n d = max (log_ratio n d - 52) (- 1074)"

definition round_even :: "nat \<Rightarrow> nat \<Rightarrow> nat" where
  "round_even n d = (let q = n div d; r = n mod d in if d < 2 * r \<or> (2 * r = d \<and> odd q) then q + 1 else q)"

definition F64_INF :: nat where "F64_INF = 0x7FF0000000000000"
definition F64_NAN :: f64 where "F64_NAN = 0x7FF8000000000000"

text \<open>The magnitude bits of the nearest value: a carry out of the fraction moves into the exponent.\<close>

definition round_ratio :: "nat \<Rightarrow> nat \<Rightarrow> nat" where
  "round_ratio n d =
     (let e = unit_exponent n d in min F64_INF (nat (e + 1074) * 2 ^ 52 + round_even (n * up (- e)) (d * up e)))"

section \<open>Fields\<close>

definition magnitude :: "f64 \<Rightarrow> nat" where "magnitude x = unat x mod 2 ^ 63"
definition negative :: "f64 \<Rightarrow> bool" where "negative x = (2 ^ 63 \<le> unat x)"
definition is_nan :: "f64 \<Rightarrow> bool" where "is_nan x = (F64_INF < magnitude x)"

definition signed :: "bool \<Rightarrow> nat \<Rightarrow> f64" where
  "signed s m = of_nat (m + (if s then 2 ^ 63 else 0))"

text \<open>A finite magnitude is \<open>fst * 2 ^ snd\<close>.\<close>

definition decode_magnitude :: "nat \<Rightarrow> nat \<times> int" where
  "decode_magnitude m = (let e = m div 2 ^ 52; f = m mod 2 ^ 52 in
     if e = 0 then (f, - 1074) else (2 ^ 52 + f, int e - 1075))"

section \<open>Operations\<close>

definition f64_of_nat :: "nat \<Rightarrow> f64" where
  "f64_of_nat n = (if n = 0 then 0 else signed False (round_ratio n 1))"

definition f64_of_int :: "int \<Rightarrow> f64" where
  "f64_of_int i = (if i = 0 then 0 else signed (i < 0) (round_ratio (nat \<bar>i\<bar>) 1))"

definition f64_mul :: "f64 \<Rightarrow> f64 \<Rightarrow> f64" where
  "f64_mul x y =
     (let s = (negative x \<noteq> negative y); a = magnitude x; b = magnitude y in
      if is_nan x \<or> is_nan y then F64_NAN
      else if a = F64_INF \<or> b = F64_INF then (if a = 0 \<or> b = 0 then F64_NAN else signed s F64_INF)
      else if a = 0 \<or> b = 0 then signed s 0
      else (let (m, e) = decode_magnitude a; (n, f) = decode_magnitude b in
            signed s (round_ratio (m * n * up (e + f)) (up (- (e + f))))))"

definition f64_div :: "f64 \<Rightarrow> f64 \<Rightarrow> f64" where
  "f64_div x y =
     (let s = (negative x \<noteq> negative y); a = magnitude x; b = magnitude y in
      if is_nan x \<or> is_nan y then F64_NAN
      else if a = F64_INF then (if b = F64_INF then F64_NAN else signed s F64_INF)
      else if b = F64_INF then signed s 0
      else if b = 0 then (if a = 0 then F64_NAN else signed s F64_INF)
      else if a = 0 then signed s 0
      else (let (m, e) = decode_magnitude a; (n, f) = decode_magnitude b in
            signed s (round_ratio (m * up (e - f)) (n * up (f - e)))))"

text \<open>The order of the values that are not NaN: both zeros have key 0.\<close>

definition order_key :: "f64 \<Rightarrow> int" where
  "order_key x = (if negative x then - int (magnitude x) else int (magnitude x))"

definition f64_gt :: "f64 \<Rightarrow> f64 \<Rightarrow> bool" where
  "f64_gt x y = (\<not> is_nan x \<and> \<not> is_nan y \<and> order_key y < order_key x)"

definition f64_ge :: "f64 \<Rightarrow> f64 \<Rightarrow> bool" where
  "f64_ge x y = (\<not> is_nan x \<and> \<not> is_nan y \<and> order_key y \<le> order_key x)"

section \<open>Facts\<close>

lemma up_pos [simp]: "0 < up e" "up e \<noteq> 0"
  by (simp_all add: up_def)

lemma bit_length_bounds: "0 < n \<Longrightarrow> 2 ^ (bit_length n - 1) \<le> n \<and> n < 2 ^ bit_length n \<and> 0 < bit_length n"
proof (induction n rule: bit_length.induct)
  case (1 n)
  show ?case
  proof (cases "n div 2 = 0")
    case True
    with 1 have "n = 1" by auto
    then show ?thesis by (simp add: bit_length.simps)
  next
    case False
    with 1 have IH: "2 ^ (bit_length (n div 2) - 1) \<le> n div 2" "n div 2 < 2 ^ bit_length (n div 2)" "0 < bit_length (n div 2)"
      by auto
    have b: "bit_length n = Suc (bit_length (n div 2))" using 1 by (simp add: bit_length.simps [of n])
    obtain k where k: "bit_length (n div 2) = Suc k" using IH(3) by (cases "bit_length (n div 2)") auto
    with IH(1,2) b show ?thesis by auto
  qed
qed

lemma bit_length_numeral [simp]:
  "bit_length 0 = 0" "bit_length (Suc 0) = 1" "bit_length 1 = 1"
  "bit_length (numeral (num.Bit0 n)) = Suc (bit_length (numeral n))"
  "bit_length (numeral (num.Bit1 n)) = Suc (bit_length (numeral n))"
  by (simp_all add: bit_length.simps [of 0] bit_length.simps [of 1] bit_length.simps [of "Suc 0"]
      bit_length.simps [of "numeral (num.Bit0 n)"] bit_length.simps [of "numeral (num.Bit1 n)"])

lemmas f64_compute = f64_mul_def f64_div_def f64_of_nat_def round_ratio_def unit_exponent_def log_ratio_def up_def
  signed_def round_even_def F64_INF_def magnitude_def negative_def is_nan_def decode_magnitude_def Let_def

text \<open>Rounding is to the nearest, ties to even.\<close>

lemma round_even_nearest:
  assumes "0 < d"
  shows "2 * (round_even n d * d) \<le> 2 * n + d" "2 * n \<le> 2 * (round_even n d * d) + d"
    "2 * (round_even n d * d) = 2 * n + d \<or> 2 * n = 2 * (round_even n d * d) + d \<Longrightarrow> even (round_even n d)"
proof -
  define q r p where d: "q = n div d" "r = n mod d" "p = q * d"
  have n: "n = p + r" and r: "r < d" using assms by (simp_all add: d)
  have "round_even n d * d = p + d \<and> round_even n d = q + 1 \<and> (d < 2 * r \<or> 2 * r = d \<and> odd q)
      \<or> round_even n d * d = p \<and> round_even n d = q \<and> (2 * r < d \<or> 2 * r = d \<and> even q)"
    by (auto simp: round_even_def Let_def d)
  then show "2 * (round_even n d * d) \<le> 2 * n + d" "2 * n \<le> 2 * (round_even n d * d) + d"
    "2 * (round_even n d * d) = 2 * n + d \<or> 2 * n = 2 * (round_even n d * d) + d \<Longrightarrow> even (round_even n d)"
    unfolding n using r by auto
qed

lemma round_even_exact: "0 < d \<Longrightarrow> round_even (k * d) d = k"
  by (simp add: round_even_def)

lemma round_ratio_bound: "round_ratio n d \<le> F64_INF"
  by (simp add: round_ratio_def Let_def)

lemma signed_magnitude: "m \<le> F64_INF \<Longrightarrow> magnitude (signed s m) = m \<and> (negative (signed s m) \<longleftrightarrow> s)"
proof -
  assume m: "m \<le> F64_INF"
  then have "m + (if s then 2 ^ 63 else 0) < 2 ^ 64" by (auto simp: F64_INF_def)
  then have "unat (signed s m) = m + (if s then 2 ^ 63 else 0)"
    unfolding signed_def unat_of_nat by (simp add: take_bit_nat_eq_self)
  with m show ?thesis by (auto simp: magnitude_def negative_def F64_INF_def)
qed

lemma order_key_0 [simp]: "order_key 0 = 0" "is_nan 0 = False" "magnitude 0 = 0"
  by (simp_all add: order_key_def magnitude_def is_nan_def F64_INF_def)

lemma f64_gt_0_nonzero: "f64_gt v 0 \<Longrightarrow> v \<noteq> 0"
  by (auto simp: f64_gt_def)

lemma f64_of_nat_pos: "f64_gt (f64_of_nat n) 0 \<Longrightarrow> 0 < n"
  by (cases n) (auto simp: f64_of_nat_def f64_gt_def)

end
