(* ===== verification/Collector.thy ===== *)
theory Collector
  imports Float64 Fix_Core
begin

text \<open>
  The metrics of one request, \<^verbatim>\<open>llama-proxy/src/stats/collector.rs\<close>, and the export gate of
  \<^verbatim>\<open>llama-proxy/src/exporters/mod.rs\<close>. A sample is read off the response body (OpenAI or Anthropic usage,
  llama.cpp \<^verbatim>\<open>timings\<close>, vLLM \<^verbatim>\<open>metrics\<close>), the request and the wall clock.

  Parameters: the fresh identifier and the timestamp of a sample. Rates are binary64 patterns
  (\<open>Float64\<close>); lengths and message counts are natural numbers. Log lines are dropped.
\<close>

section \<open>The sample\<close>

record request_metrics =
  m_request_id :: string
  m_timestamp :: nat
  m_model :: string
  m_group_name :: "string option"
  m_client_id :: "string option"
  m_conversation_id :: "string option"
  m_prompt_tokens :: "u64 option"
  m_completion_tokens :: "u64 option"
  m_total_tokens :: u64
  m_prompt_tps :: "f64 option"
  m_generation_tps :: "f64 option"
  m_prompt_ms :: f64
  m_generation_ms :: f64
  m_total_tps :: f64
  m_decode_tps_min :: f64
  m_cached_tokens :: "u64 option"
  m_cache_creation_tokens :: "u64 option"
  m_has_timing_split :: bool
  m_queue_ms :: "f64 option"
  m_mean_itl_ms :: "f64 option"
  m_context_total :: "u64 option"
  m_context_used :: "u64 option"
  m_context_percent :: "f64 option"
  m_input_messages :: nat
  m_input_len :: nat
  m_output_len :: nat
  m_streaming :: bool
  m_stream_incomplete :: bool
  m_stream_end :: "string option"
  m_finish_reason :: string
  m_duration_ms :: f64
  m_reasoning_tokens :: "u64 option"
  m_accepted_prediction_tokens :: "u64 option"
  m_rejected_prediction_tokens :: "u64 option"
  m_concurrent_requests :: "u64 option"

definition metrics_new :: "string \<Rightarrow> nat \<Rightarrow> request_metrics" where
  "metrics_new fresh_id now = \<lparr>m_request_id = fresh_id, m_timestamp = now, m_model = ''unknown'', m_group_name = None,
     m_client_id = None, m_conversation_id = None, m_prompt_tokens = None, m_completion_tokens = None, m_total_tokens = 0,
     m_prompt_tps = None, m_generation_tps = None, m_prompt_ms = 0, m_generation_ms = 0, m_total_tps = 0,
     m_decode_tps_min = 0, m_cached_tokens = None, m_cache_creation_tokens = None, m_has_timing_split = False,
     m_queue_ms = None, m_mean_itl_ms = None, m_context_total = None, m_context_used = None, m_context_percent = None,
     m_input_messages = 0, m_input_len = 0, m_output_len = 0, m_streaming = False, m_stream_incomplete = False,
     m_stream_end = None, m_finish_reason = ''unknown'', m_duration_ms = 0, m_reasoning_tokens = None,
     m_accepted_prediction_tokens = None, m_rejected_prediction_tokens = None, m_concurrent_requests = None\<rparr>"

section \<open>Numbers\<close>

definition saturating_add :: "u64 \<Rightarrow> u64 \<Rightarrow> u64" where
  "saturating_add a b = (if a + b < a then - 1 else a + b)"

definition as_f64 :: "json \<Rightarrow> f64 option" where
  "as_f64 v = (case v of
       JNum (PosInt n) \<Rightarrow> Some (f64_of_nat (unat n))
     | JNum (NegInt n) \<Rightarrow> Some (f64_of_int (sint n))
     | JNum (Float f) \<Rightarrow> Some f
     | _ \<Rightarrow> None)"

definition u64_at :: "json \<Rightarrow> string \<Rightarrow> u64 option" where
  "u64_at v k = Option.bind (get v k) as_u64"

definition f64_at :: "json \<Rightarrow> string \<Rightarrow> f64 option" where
  "f64_at v k = Option.bind (get v k) as_f64"

definition THOUSAND :: f64 where "THOUSAND = 0x408F400000000000"
definition HUNDRED :: f64 where "HUNDRED = 0x4059000000000000"
definition MIN_POSITIVE :: f64 where "MIN_POSITIVE = 0x0010000000000000"

definition finite_rate :: "f64 \<Rightarrow> f64" where
  "finite_rate v = (if f64_is_finite v then v else 0)"

definition finite_rate_opt :: "f64 \<Rightarrow> f64 option" where
  "finite_rate_opt v = (if f64_is_finite v \<and> f64_gt v 0 then Some v else None)"

definition keep :: "('a \<Rightarrow> bool) \<Rightarrow> 'a option \<Rightarrow> 'a option" where
  "keep P x = Option.bind x (\<lambda>v. if P v then Some v else None)"

section \<open>Usage\<close>

definition usage_counts :: "json \<Rightarrow> request_metrics \<Rightarrow> request_metrics" where
  "usage_counts usage m = (case u64_at usage ''prompt_tokens'' of
       Some prompt \<Rightarrow>
         (let completion = u64_at usage ''completion_tokens'' in
          m\<lparr>m_prompt_tokens := Some prompt, m_completion_tokens := completion,
            m_total_tokens := some_or (u64_at usage ''total_tokens'') (saturating_add prompt (some_or completion 0)),
            m_cached_tokens := Option.bind (get usage ''prompt_tokens_details'') (\<lambda>d. u64_at d ''cached_tokens'')\<rparr>)
     | None \<Rightarrow>
         (case u64_at usage ''input_tokens'' of
            Some input \<Rightarrow>
              (let completion = u64_at usage ''output_tokens'';
                   cached = u64_at usage ''cache_read_input_tokens'';
                   creation = u64_at usage ''cache_creation_input_tokens'' in
               m\<lparr>m_prompt_tokens := Some input, m_completion_tokens := completion,
                 m_total_tokens := saturating_add input (some_or completion 0),
                 m_cached_tokens := cached, m_cache_creation_tokens := creation,
                 m_context_used := Some (saturating_add (saturating_add input (some_or cached 0)) (some_or creation 0))\<rparr>)
          | None \<Rightarrow> m))"

definition extract_usage :: "json \<Rightarrow> request_metrics \<Rightarrow> request_metrics" where
  "extract_usage response m = (case get response ''usage'' of
       None \<Rightarrow> m
     | Some usage \<Rightarrow>
         (let m1 = usage_counts usage m in
          case get usage ''completion_tokens_details'' of
            None \<Rightarrow> m1
          | Some details \<Rightarrow> m1\<lparr>m_reasoning_tokens := u64_at details ''reasoning_tokens'',
              m_accepted_prediction_tokens := u64_at details ''accepted_prediction_tokens'',
              m_rejected_prediction_tokens := u64_at details ''rejected_prediction_tokens''\<rparr>))"

section \<open>Timings\<close>

text \<open>\<^verbatim>\<open>tokens as f64 / ms * 1000.0\<close>.\<close>

definition rate :: "u64 \<Rightarrow> f64 \<Rightarrow> f64" where
  "rate tokens ms = f64_mul (f64_div (f64_of_nat (unat tokens)) ms) THOUSAND"

definition saturating_sub :: "u64 \<Rightarrow> u64 \<Rightarrow> u64" where
  "saturating_sub a b = (if b \<le> a then a - b else 0)"

definition corrected_prompt_tps :: "u64 option \<Rightarrow> u64 option \<Rightarrow> f64 \<Rightarrow> f64 option" where
  "corrected_prompt_tps prompt_n cache_n prompt_ms = (case (prompt_n, cache_n) of
       (Some n, Some cached) \<Rightarrow> if 0 < cached \<and> f64_gt prompt_ms 0 then Some (rate (saturating_sub n cached) prompt_ms) else None
     | _ \<Rightarrow> None)"

definition timings_counts :: "json \<Rightarrow> request_metrics \<Rightarrow> request_metrics" where
  "timings_counts timings m =
     (if some_or (m_prompt_tokens m) 0 = 0 \<and> some_or (m_completion_tokens m) 0 = 0
      then (let p = u64_at timings ''prompt_n''; c = u64_at timings ''predicted_n'' in
            m\<lparr>m_prompt_tokens := p, m_completion_tokens := c, m_total_tokens := saturating_add (some_or p 0) (some_or c 0)\<rparr>)
      else m)"

definition llama_timings :: "json \<Rightarrow> request_metrics \<Rightarrow> request_metrics" where
  "llama_timings timings m =
     (let prompt_ms = some_or (map_option finite_rate (f64_at timings ''prompt_ms'')) 0;
          prompt_n = u64_at timings ''prompt_n''; cache_n = u64_at timings ''cache_n'' in
      timings_counts timings
        (m\<lparr>m_prompt_ms := prompt_ms,
           m_generation_ms := some_or (map_option finite_rate (f64_at timings ''predicted_ms'')) 0,
           m_generation_tps := Option.bind (f64_at timings ''predicted_per_second'') finite_rate_opt,
           m_prompt_tps := Option.bind
             (case corrected_prompt_tps prompt_n cache_n prompt_ms of Some r \<Rightarrow> Some r | None \<Rightarrow> f64_at timings ''prompt_per_second'')
             finite_rate_opt,
           m_context_used := (if prompt_n = None then m_context_used m else prompt_n),
           m_cached_tokens := cache_n\<rparr>))"

text \<open>A duration vLLM reports counts when it is finite and normal.\<close>

definition vllm_field :: "json \<Rightarrow> string \<Rightarrow> f64 option" where
  "vllm_field vm k = keep (\<lambda>v. f64_is_finite v \<and> f64_ge v MIN_POSITIVE) (f64_at vm k)"

definition computed_tokens :: "u64 \<Rightarrow> u64 option \<Rightarrow> bool \<Rightarrow> u64 option" where
  "computed_tokens prompt_tokens cached cache_is_a_subset = (case cached of
       Some c \<Rightarrow> if cache_is_a_subset \<and> 0 < c \<and> c < prompt_tokens then Some (prompt_tokens - c) else None
     | None \<Rightarrow> None)"

definition vllm_prefill :: "json \<Rightarrow> f64 \<Rightarrow> request_metrics \<Rightarrow> request_metrics" where
  "vllm_prefill response ttft m =
     (let m1 = m\<lparr>m_prompt_ms := ttft\<rparr> in
      case keep (\<lambda>p. 0 < p) (m_prompt_tokens m1) of
        None \<Rightarrow> m1
      | Some prompt_tokens \<Rightarrow>
          (let subset = is_some_and (\<lambda>u. get u ''prompt_tokens'' \<noteq> None) (get response ''usage'');
               numerator = some_or (computed_tokens prompt_tokens (m_cached_tokens m1) subset) prompt_tokens in
           m1\<lparr>m_prompt_tps := finite_rate_opt (rate numerator ttft)\<rparr>))"

definition vllm_decode :: "f64 \<Rightarrow> request_metrics \<Rightarrow> request_metrics" where
  "vllm_decode gen_ms m =
     (let m1 = m\<lparr>m_generation_ms := gen_ms\<rparr> in
      case keep (\<lambda>c. 0 < c) (m_completion_tokens m1) of
        None \<Rightarrow> m1
      | Some c \<Rightarrow> m1\<lparr>m_generation_tps := finite_rate_opt (rate c gen_ms)\<rparr>)"

definition extract_vllm_usage :: "json \<Rightarrow> request_metrics \<Rightarrow> request_metrics" where
  "extract_vllm_usage response m = (case keep (\<lambda>v. v \<noteq> JNull) (get response ''metrics'') of
       None \<Rightarrow> m
     | Some vm \<Rightarrow>
         (let m1 = m\<lparr>m_queue_ms := vllm_field vm ''queue_time_ms'', m_mean_itl_ms := vllm_field vm ''mean_itl_ms''\<rparr>;
              m2 = (case vllm_field vm ''time_to_first_token_ms'' of Some ttft \<Rightarrow> vllm_prefill response ttft m1 | None \<Rightarrow> m1) in
          case vllm_field vm ''generation_time_ms'' of Some gen_ms \<Rightarrow> vllm_decode gen_ms m2 | None \<Rightarrow> m2))"

definition extract_timings :: "json \<Rightarrow> request_metrics \<Rightarrow> request_metrics" where
  "extract_timings response m = (case get response ''timings'' of
       Some timings \<Rightarrow> llama_timings timings m
     | None \<Rightarrow>
         extract_vllm_usage response
           (if m_context_used m = None
            then (case keep (\<lambda>p. 0 < p) (m_prompt_tokens m) of Some p \<Rightarrow> m\<lparr>m_context_used := Some p\<rparr> | None \<Rightarrow> m)
            else m))"

section \<open>Lengths\<close>

definition response_lengths :: "json \<Rightarrow> request_metrics \<Rightarrow> request_metrics" where
  "response_lengths response m = (case get_array response ''choices'' of
       Some [] \<Rightarrow> m
     | Some (c # cs) \<Rightarrow>
         (let m1 = m\<lparr>m_finish_reason := some_or (get_str c ''finish_reason'') ''unknown''\<rparr> in
          case Option.bind (get c ''message'') (\<lambda>x. get_str x ''content'') of
            Some content \<Rightarrow> m1\<lparr>m_output_len := length content\<rparr>
          | None \<Rightarrow> m1)
     | None \<Rightarrow>
         (case get_str response ''stop_reason'' of
            Some stop \<Rightarrow>
              (let m1 = m\<lparr>m_finish_reason := stop\<rparr> in
               case get_array response ''content'' of
                 Some items \<Rightarrow> m1\<lparr>m_output_len := sum_list (map length (List.map_filter (\<lambda>i. get_str i ''text'') items))\<rparr>
               | None \<Rightarrow> m1)
          | None \<Rightarrow> m))"

definition message_len :: "json \<Rightarrow> nat" where
  "message_len m = (case get m ''content'' of
       Some (JStr s) \<Rightarrow> length s
     | Some (JArr parts) \<Rightarrow> sum_list (map length (List.map_filter (\<lambda>p. get_str p ''text'') parts))
     | _ \<Rightarrow> 0)"

definition extract_length_fallbacks :: "json \<Rightarrow> json \<Rightarrow> request_metrics \<Rightarrow> request_metrics" where
  "extract_length_fallbacks response request m =
     (let m1 = response_lengths response m in
      case get_array request ''messages'' of
        Some messages \<Rightarrow> m1\<lparr>m_input_messages := length messages, m_input_len := sum_list (map message_len messages)\<rparr>
      | None \<Rightarrow> m1)"

section \<open>Collection\<close>

definition response_model :: "json \<Rightarrow> string option" where
  "response_model response = (case get_str response ''model'' of
       Some model \<Rightarrow> Some model
     | None \<Rightarrow> Option.bind (get response ''message'') (\<lambda>m. get_str m ''model''))"

definition overall_rates :: "request_metrics \<Rightarrow> request_metrics" where
  "overall_rates m =
     (let m1 = m\<lparr>m_has_timing_split := (m_prompt_tps m \<noteq> None \<or> m_generation_tps m \<noteq> None)\<rparr>;
          m2 = (if f64_gt (m_duration_ms m1) 0 \<and> 0 < m_total_tokens m1
                then m1\<lparr>m_total_tps := finite_rate (rate (m_total_tokens m1) (m_duration_ms m1))\<rparr> else m1);
          counted = some_or (m_completion_tokens m2) 0 in
      if f64_gt (m_duration_ms m2) 0 \<and> f64_gt (f64_of_nat (unat counted)) 0
      then m2\<lparr>m_decode_tps_min := finite_rate (rate counted (m_duration_ms m2))\<rparr> else m2)"

definition from_response :: "string \<Rightarrow> nat \<Rightarrow> json \<Rightarrow> json \<Rightarrow> bool \<Rightarrow> f64 \<Rightarrow> request_metrics" where
  "from_response fresh_id now response request streaming duration_ms =
     (let m0 = metrics_new fresh_id now;
          m1 = m0\<lparr>m_streaming := streaming, m_duration_ms := duration_ms, m_model := some_or (response_model response) (m_model m0)\<rparr> in
      extract_length_fallbacks response request (overall_rates (extract_timings response (extract_usage response m1))))"

definition calculate_context_percent :: "request_metrics \<Rightarrow> request_metrics" where
  "calculate_context_percent m = (case (m_context_used m, m_context_total m) of
       (Some used, Some total_ctx) \<Rightarrow>
         if 0 < total_ctx
         then m\<lparr>m_context_percent := Some (f64_mul (f64_div (f64_of_nat (unat used)) (f64_of_nat (unat total_ctx))) HUNDRED)\<rparr>
         else m
     | _ \<Rightarrow> m)"

definition has_throughput_signal :: "request_metrics \<Rightarrow> bool" where
  "has_throughput_signal m =
     (0 < m_total_tokens m \<or> f64_gt (m_total_tps m) 0 \<or> is_some_and (\<lambda>v. f64_gt v 0) (m_prompt_tps m)
      \<or> is_some_and (\<lambda>v. f64_gt v 0) (m_generation_tps m))"

definition stream_end_label :: "request_metrics \<Rightarrow> string" where
  "stream_end_label m = (case m_stream_end m of
       Some e \<Rightarrow> e
     | None \<Rightarrow> if \<not> m_streaming m then ''sync'' else ''unknown'')"

section \<open>Slots\<close>

record slot_metrics =
  slot_id :: u64
  sl_n_tokens :: u64
  sl_n_ctx :: u64
  sl_is_processing :: bool

record context_info =
  total_context :: u64
  used_context :: u64
  ci_slots :: "slot_metrics list"

definition json_is_true :: "json option \<Rightarrow> bool" where
  "json_is_true v = (case v of Some (JBool b) \<Rightarrow> b | _ \<Rightarrow> False)"

definition slot_of :: "json \<Rightarrow> slot_metrics" where
  "slot_of slot = \<lparr>slot_id = some_or (u64_at slot ''id'') 0, sl_n_tokens = some_or (u64_at slot ''n_tokens'') 0,
     sl_n_ctx = some_or (u64_at slot ''n_ctx'') 0, sl_is_processing = json_is_true (get slot ''is_processing'')\<rparr>"

definition add_slot :: "json \<Rightarrow> context_info \<Rightarrow> context_info" where
  "add_slot slot ci = (let s = slot_of slot in
     ci\<lparr>total_context := saturating_add (total_context ci) (sl_n_ctx s),
        used_context := saturating_add (used_context ci) (sl_n_tokens s), ci_slots := ci_slots ci @ [s]\<rparr>)"

definition from_slots_response :: "json \<Rightarrow> context_info option" where
  "from_slots_response response =
     map_option (\<lambda>slots. fold add_slot slots \<lparr>total_context = 0, used_context = 0, ci_slots = []\<rparr>) (as_array response)"

section \<open>The export gate\<close>

record export_counters =
  exports_skipped_total :: u64
  prefill_implausible_total :: u64

definition WARN_SAMPLE_INTERVAL :: u64 where "WARN_SAMPLE_INTERVAL = 100"

definition warns_at :: "u64 \<Rightarrow> bool" where
  "warns_at occurrence = (occurrence = 1 \<or> occurrence mod WARN_SAMPLE_INTERVAL = 0)"

definition log_sample_and_should_export :: "request_metrics \<Rightarrow> f64 \<Rightarrow> export_counters \<Rightarrow> bool \<times> export_counters" where
  "log_sample_and_should_export m max_plausible cnt =
     (if has_throughput_signal m
      then (True, if f64_gt max_plausible 0 \<and> is_some_and (\<lambda>v. f64_gt v max_plausible) (m_prompt_tps m)
                  then cnt\<lparr>prefill_implausible_total := prefill_implausible_total cnt + 1\<rparr> else cnt)
      else (False, cnt\<lparr>exports_skipped_total := exports_skipped_total cnt + 1\<rparr>))"

section \<open>Facts\<close>

lemma unat_saturating_add: "unat (saturating_add a b) = min (2 ^ 64 - 1) (unat a + unat b)"
proof (cases "a + b < a")
  case True
  then have "2 ^ 64 \<le> unat a + unat b" using no_olen_add_nat [of a b] by (auto simp: not_le)
  moreover have "unat (- 1 :: u64) = 2 ^ 64 - 1" by simp
  ultimately show ?thesis using True by (simp add: saturating_add_def)
next
  case False
  then have "unat (a + b) = unat a + unat b" "unat a + unat b < 2 ^ 64"
    using no_olen_add_nat [of a b] by (auto simp: not_less unat_plus_if_size word_size)
  with False show ?thesis by (simp add: saturating_add_def)
qed

lemma finite_0 [simp]: "f64_is_finite 0"
  by (simp add: f64_is_finite_def)

lemma finite_rate_finite [simp]: "f64_is_finite (finite_rate v)"
  by (simp add: finite_rate_def)

text \<open>The rates of a sample that may be written out: a present speed is finite and positive, every
  duration is finite.\<close>

definition speed :: "f64 option \<Rightarrow> bool" where
  "speed x = is_none_or (\<lambda>v. f64_is_finite v \<and> f64_gt v 0) x"

definition usable :: "request_metrics \<Rightarrow> bool" where
  "usable m \<longleftrightarrow> speed (m_prompt_tps m) \<and> speed (m_generation_tps m) \<and> f64_is_finite (m_prompt_ms m)
     \<and> f64_is_finite (m_generation_ms m) \<and> f64_is_finite (m_total_tps m) \<and> f64_is_finite (m_decode_tps_min m)
     \<and> is_none_or f64_is_finite (m_queue_ms m) \<and> is_none_or f64_is_finite (m_mean_itl_ms m)"

lemma speed_finite_rate_opt [simp]: "speed (finite_rate_opt v)"
  by (simp add: speed_def finite_rate_opt_def)

lemma speed_bind [simp]: "speed (Option.bind x finite_rate_opt)"
  by (cases x) (simp_all add: speed_def finite_rate_opt_def)

lemma speed_None [simp]: "speed None"
  by (simp add: speed_def)

lemma vllm_field_finite: "vllm_field vm k = Some v \<Longrightarrow> f64_is_finite v"
  by (auto simp: vllm_field_def keep_def bind_eq_Some_conv split: if_splits)

lemma vllm_field_none_or [simp]: "is_none_or f64_is_finite (vllm_field vm k)"
  by (cases "vllm_field vm k") (auto dest: vllm_field_finite)

lemma usage_usable: "usable m \<Longrightarrow> usable (extract_usage response m) \<and> m_total_tps (extract_usage response m) = m_total_tps m
    \<and> m_duration_ms (extract_usage response m) = m_duration_ms m"
  by (auto simp: extract_usage_def usage_counts_def usable_def Let_def split: option.splits)

lemma llama_usable: "usable m \<Longrightarrow> usable (llama_timings t m) \<and> m_total_tps (llama_timings t m) = m_total_tps m"
  by (cases "f64_at t ''prompt_ms''"; cases "f64_at t ''predicted_ms''")
    (auto simp: llama_timings_def timings_counts_def usable_def Let_def)

lemma prefill_usable: "usable m \<Longrightarrow> f64_is_finite v \<Longrightarrow> usable (vllm_prefill r v m) \<and> m_total_tps (vllm_prefill r v m) = m_total_tps m"
  by (auto simp: vllm_prefill_def usable_def Let_def split: option.splits)

lemma decode_usable: "usable m \<Longrightarrow> f64_is_finite v \<Longrightarrow> usable (vllm_decode v m) \<and> m_total_tps (vllm_decode v m) = m_total_tps m"
  by (auto simp: vllm_decode_def usable_def Let_def split: option.splits)

lemma vllm_usable: "usable m \<Longrightarrow> usable (extract_vllm_usage r m) \<and> m_total_tps (extract_vllm_usage r m) = m_total_tps m"
proof (cases "keep (\<lambda>v. v \<noteq> JNull) (get r ''metrics'')")
  case (Some vm)
  assume u: "usable m"
  define m1 where "m1 = m\<lparr>m_queue_ms := vllm_field vm ''queue_time_ms'', m_mean_itl_ms := vllm_field vm ''mean_itl_ms''\<rparr>"
  define m2 where "m2 = (case vllm_field vm ''time_to_first_token_ms'' of Some ttft \<Rightarrow> vllm_prefill r ttft m1 | None \<Rightarrow> m1)"
  have "usable m1 \<and> m_total_tps m1 = m_total_tps m" using u by (simp add: m1_def usable_def)
  then have "usable m2 \<and> m_total_tps m2 = m_total_tps m"
    using prefill_usable [of m1] by (auto simp: m2_def dest: vllm_field_finite split: option.splits)
  moreover have "extract_vllm_usage r m = (case vllm_field vm ''generation_time_ms'' of Some g \<Rightarrow> vllm_decode g m2 | None \<Rightarrow> m2)"
    unfolding extract_vllm_usage_def Some option.case Let_def m1_def [symmetric] m2_def [symmetric] ..
  ultimately show ?thesis using decode_usable [of m2] by (auto dest: vllm_field_finite split: option.splits)
qed (simp add: extract_vllm_usage_def)

lemma timings_usable: "usable m \<Longrightarrow> usable (extract_timings r m) \<and> m_total_tps (extract_timings r m) = m_total_tps m"
proof -
  assume u: "usable m"
  then have "usable (m\<lparr>m_context_used := x\<rparr>)" for x by (simp add: usable_def)
  with u llama_usable [of m] vllm_usable show ?thesis
    by (auto simp: extract_timings_def split: option.splits)
qed

lemma lengths_keep:
  "m_prompt_tps (extract_length_fallbacks r q m) = m_prompt_tps m" "m_generation_tps (extract_length_fallbacks r q m) = m_generation_tps m"
  "m_total_tokens (extract_length_fallbacks r q m) = m_total_tokens m" "m_total_tps (extract_length_fallbacks r q m) = m_total_tps m"
  "m_has_timing_split (extract_length_fallbacks r q m) = m_has_timing_split m" "usable (extract_length_fallbacks r q m) = usable m"
  by (auto simp: extract_length_fallbacks_def response_lengths_def usable_def Let_def split: option.splits list.splits)

lemma overall_spec:
  assumes "usable m" "m_total_tps m = 0"
  shows "usable (overall_rates m)" "f64_gt (m_total_tps (overall_rates m)) 0 \<Longrightarrow> 0 < m_total_tokens (overall_rates m)"
    "m_has_timing_split (overall_rates m) \<longleftrightarrow> m_prompt_tps (overall_rates m) \<noteq> None \<or> m_generation_tps (overall_rates m) \<noteq> None"
  using assms f64_gt_0_nonzero by (auto simp: overall_rates_def usable_def Let_def split: if_splits)

definition present :: "'a option \<Rightarrow> bool" where
  "present x = (x \<noteq> None)"

section \<open>Properties\<close>

text \<open>C30. What reaches an exporter is a measurement. Whatever the backend sends, infinities, negative or
  subnormal numbers and wrong types included, no rate or duration of a sample is infinite or NaN, a speed
  that is present is positive, the split flag says exactly whether a speed is present, and the export gate
  lets a sample through exactly when it has a token total or a speed.\<close>

theorem sample_is_exportable:
  "let m = from_response fresh_id now response request streaming duration_ms in
    usable m \<and> (m_has_timing_split m \<longleftrightarrow> present (m_prompt_tps m) \<or> present (m_generation_tps m))
    \<and> (fst (log_sample_and_should_export m max_plausible cnt) \<longleftrightarrow>
         0 < m_total_tokens m \<or> present (m_prompt_tps m) \<or> present (m_generation_tps m))"
proof -
  define m where "m = from_response fresh_id now response request streaming duration_ms"
  define m1 where "m1 = (metrics_new fresh_id now)\<lparr>m_streaming := streaming, m_duration_ms := duration_ms,
      m_model := some_or (response_model response) (m_model (metrics_new fresh_id now))\<rparr>"
  define m3 where "m3 = extract_timings response (extract_usage response m1)"
  have "usable m1" "m_total_tps m1 = 0" by (simp_all add: m1_def metrics_new_def usable_def)
  then have u: "usable m3" "m_total_tps m3 = 0"
    using usage_usable [of m1 response] timings_usable [of "extract_usage response m1" response] by (simp_all add: m3_def)
  have m: "m = extract_length_fallbacks response request (overall_rates m3)"
    by (simp add: m_def from_response_def m1_def m3_def Let_def)
  note o = overall_spec [OF u]
  have "is_some_and (\<lambda>v. f64_gt v 0) x \<longleftrightarrow> x \<noteq> None" if "speed x" for x
    using that by (cases x) (auto simp: speed_def)
  then have "has_throughput_signal m \<longleftrightarrow> 0 < m_total_tokens m \<or> present (m_prompt_tps m) \<or> present (m_generation_tps m)"
    using o(1,2) by (auto simp: has_throughput_signal_def m lengths_keep usable_def present_def)
  with o have "usable m \<and> (m_has_timing_split m \<longleftrightarrow> present (m_prompt_tps m) \<or> present (m_generation_tps m))
    \<and> (fst (log_sample_and_should_export m max_plausible cnt) \<longleftrightarrow>
         0 < m_total_tokens m \<or> present (m_prompt_tps m) \<or> present (m_generation_tps m))"
    by (simp add: m lengths_keep log_sample_and_should_export_def present_def)
  then show ?thesis unfolding m_def [symmetric] by simp
qed

lemma min_min_add: "min k (min k a + b) = min k (a + (b :: nat))"
  by (simp add: min_def)

text \<open>Token totals and slot totals saturate instead of wrapping.\<close>

theorem slot_totals_saturate:
  "from_slots_response (JArr slots) = Some ci \<Longrightarrow>
     unat (total_context ci) = min (2 ^ 64 - 1) (sum_list (map (\<lambda>s. unat (sl_n_ctx (slot_of s))) slots))
     \<and> unat (used_context ci) = min (2 ^ 64 - 1) (sum_list (map (\<lambda>s. unat (sl_n_tokens (slot_of s))) slots))
     \<and> ci_slots ci = map slot_of slots"
proof -
  have "unat (total_context (fold add_slot slots c)) = min (2 ^ 64 - 1) (unat (total_context c) + sum_list (map (\<lambda>s. unat (sl_n_ctx (slot_of s))) slots))
     \<and> unat (used_context (fold add_slot slots c)) = min (2 ^ 64 - 1) (unat (used_context c) + sum_list (map (\<lambda>s. unat (sl_n_tokens (slot_of s))) slots))
     \<and> ci_slots (fold add_slot slots c) = ci_slots c @ map slot_of slots" for c
  proof (induction slots arbitrary: c)
    case Nil
    have "unat (w :: u64) \<le> 2 ^ 64 - 1" for w using unsigned_less [of w, where ?'a = nat] by simp
    then show ?case by simp
  next
    case (Cons s slots)
    show ?case using Cons.IH [of "add_slot s c"] by (simp add: add_slot_def Let_def unat_saturating_add min_min_add add.assoc)
  qed
  moreover assume "from_slots_response (JArr slots) = Some ci"
  ultimately show ?thesis by (auto simp: from_slots_response_def)
qed

text \<open>The gate drops some samples that carry measured counts: a reported \<^verbatim>\<open>total_tokens\<close> of zero beside seven
  completion tokens leaves a positive decode floor and no signal.\<close>

definition zero_total :: json where
  "zero_total = JObj [(''usage'', JObj [(''prompt_tokens'', JNum (PosInt 5)), (''completion_tokens'', JNum (PosInt 7)),
     (''total_tokens'', JNum (PosInt 0))])]"

lemma rate_7: "rate 7 THOUSAND = 0x401C000000000000"
proof -
  have fields: "magnitude 0x401C000000000000 = 4619567317775286272" "decode_magnitude 4619567317775286272 = (7881299347898368, - 50)"
    "magnitude THOUSAND = 4652007308841189376" "decode_magnitude 4652007308841189376 = (8796093022208000, - 43)"
    "magnitude 0x3F7CAC083126E979 = 4574720472685930873" "decode_magnitude 4574720472685930873 = (8070450532247929, - 60)"
    by (simp_all add: magnitude_def decode_magnitude_def THOUSAND_def Let_def)
  have signs: "\<not> negative 0x401C000000000000" "\<not> negative THOUSAND" "\<not> negative 0x3F7CAC083126E979"
    "\<not> is_nan 0x401C000000000000" "\<not> is_nan THOUSAND" "\<not> is_nan 0x3F7CAC083126E979"
    by (simp_all add: negative_def THOUSAND_def is_nan_def F64_INF_def magnitude_def)
  have e: "unit_exponent 7881299347898368 1125899906842624000 = - 60" "unit_exponent 70988433612780847961559007232000 10141204801825835211973625643008 = - 50"
    by (simp_all add: unit_exponent_def log_ratio_def up_def)
  have r: "round_ratio 7881299347898368 1125899906842624000 = 4574720472685930873" "round_ratio 70988433612780847961559007232000 10141204801825835211973625643008 = 4619567317775286272"
    by (simp_all add: round_ratio_def e up_def round_even_def F64_INF_def Let_def)
  have "f64_of_nat 7 = 0x401C000000000000" by (simp add: f64_compute)
  moreover have "f64_div 0x401C000000000000 THOUSAND = 0x3F7CAC083126E979"
    by (simp add: f64_div_def signs fields r F64_INF_def up_def signed_def)
  moreover have "f64_mul 0x3F7CAC083126E979 THOUSAND = 0x401C000000000000"
    by (simp add: f64_mul_def signs fields r F64_INF_def up_def signed_def)
  ultimately show ?thesis by (simp add: rate_def)
qed

theorem floor_without_signal:
  "\<exists>m. m = from_response [] 0 zero_total (JObj []) False THOUSAND \<and> m_completion_tokens m = Some 7
     \<and> f64_gt (m_decode_tps_min m) 0 \<and> \<not> has_throughput_signal m"
proof -
  have gt: "f64_gt THOUSAND 0" "f64_gt 0x401C000000000000 0" "f64_is_finite 0x401C000000000000" "\<not> f64_gt 0 0"
    by (simp_all add: f64_gt_def order_key_def THOUSAND_def is_nan_def magnitude_def negative_def F64_INF_def f64_is_finite_def)
  have "f64_of_nat 7 = 0x401C000000000000" by (simp add: f64_compute)
  with gt rate_7 show ?thesis
    by (simp add: from_response_def zero_total_def extract_usage_def usage_counts_def u64_at_def extract_timings_def
        extract_vllm_usage_def keep_def metrics_new_def overall_rates_def finite_rate_def extract_length_fallbacks_def
        response_lengths_def get_array_def get_str_def has_throughput_signal_def response_model_def Let_def)
qed

end
