(* ===== verification/Proxy_State.thy ===== *)
theory Proxy_State
  imports Http_Forward Augment Context_Window Anthropic_Stream Sse_Pass Collector
begin

text \<open>
  The shared state of the proxy (\<^verbatim>\<open>ProxyState\<close> of \<^verbatim>\<open>llama-proxy/src/proxy/server.rs\<close>, with the process-wide
  statics its handler reads) and the operations on it that every request path shares: selecting and
  releasing a backend, the health marks, the page of \<^verbatim>\<open>/proxy/metrics\<close>
  (\<^verbatim>\<open>llama-proxy/src/proxy/handler.rs\<close>).

  A request is handled as one sequence of steps: operations of other requests in between are not
  interleaved here (the racing atomics of the balancer are the subject of \<open>Priority_Free_Concurrent\<close>).
  Two fields have no counterpart in the code: the list of what was sent to backends and the list of
  samples handed to the exporters.
\<close>

section \<open>Selecting a backend\<close>

text \<open>The trait object \<^verbatim>\<open>Arc<dyn LoadBalancer>\<close>: one strategy over the nodes, or named groups.\<close>

datatype 'c dispatcher = Single "'c balancer" | Grouped "'c backend_group list"

text \<open>A guard as the handler sees it: the node, by group and index, and the group's name.\<close>

record ticket =
  tk_group :: nat
  tk_node :: nat
  tk_name :: "string option"

definition dispatch ::
  "instant \<Rightarrow> 'c dispatcher \<Rightarrow> string option \<Rightarrow> ((ticket, no_matching_backend) result \<times> 'c dispatcher) option" where
  "dispatch now d model = (case d of
       Single b \<Rightarrow> map_option (\<lambda>(g, b'). (Ok \<lparr>tk_group = 0, tk_node = g_node g, tk_name = group_name g\<rparr>, Single b')) (balancer_select now b)
     | Grouped gs \<Rightarrow> map_option (\<lambda>(r, gs').
           (map_sum id (\<lambda>(i, g). \<lparr>tk_group = i, tk_node = g_node g, tk_name = group_name g\<rparr>) r, Grouped gs'))
         (grouped_select now gs model))"

definition balancers :: "'c dispatcher \<Rightarrow> 'c balancer list" where
  "balancers d = (case d of Single b \<Rightarrow> [b] | Grouped gs \<Rightarrow> map bg_balancer gs)"

definition node_of :: "ticket \<Rightarrow> 'c dispatcher \<Rightarrow> 'c backend_node" where
  "node_of tk d = balancer_nodes (balancers d ! tk_group tk) ! tk_node tk"

definition map_nodes :: "('c backend_node list \<Rightarrow> 'c backend_node list) \<Rightarrow> 'c balancer \<Rightarrow> 'c balancer" where
  "map_nodes f b = set_balancer_nodes (f (balancer_nodes b)) b"

definition on_node :: "('c backend_node \<Rightarrow> 'c backend_node) \<Rightarrow> ticket \<Rightarrow> 'c dispatcher \<Rightarrow> 'c dispatcher" where
  "on_node f tk d =
     (let upd = map_nodes (\<lambda>ns. ns[tk_node tk := f (ns ! tk_node tk)]) in
      case d of
        Single b \<Rightarrow> Single (upd b)
      | Grouped gs \<Rightarrow> Grouped (gs[tk_group tk := (gs ! tk_group tk)\<lparr>bg_balancer := upd (bg_balancer (gs ! tk_group tk))\<rparr>]))"

text \<open>Dropping the guard.\<close>

definition release :: "ticket \<Rightarrow> 'c dispatcher \<Rightarrow> 'c dispatcher" where
  "release = on_node busy_drop"

section \<open>The state\<close>

record outgoing =
  og_url :: string
  og_method :: string
  og_headers :: headers
  og_body :: string

record stream_counters =
  sse_events_total :: u64
  sse_unparsed_events_total :: u64
  stream_truncated_total :: u64
  stream_stalled_total :: u64
  fix_unrepaired_total :: u64
  stream_compressed_total :: u64
  stream_client_gone_total :: u64
  passthrough_streams_total :: u64

record 'c proxy_state =
  load_balancer_state :: "'c dispatcher"
  concurrent_requests :: u64
  backend_streaming_fallback_hits :: u64
  openai_stream_passthrough_total :: u64
  backend_nonsse_when_streamed_for :: u64
  anthropic_buffered_responses_total :: u64
  anthropic_buffered_notice_once :: bool
  vram_estimate_served_total :: u64
  vram_estimate_unknown_total :: u64
  rejected_requests :: u64
  permits :: "nat option"        \<comment> \<open>free permits of the semaphore, if there is one\<close>
  stream_stats :: stream_counters
  context_windows :: ctx_state
  kv_cache :: kv_state
  reprompt_state :: "reprompt_engine option"
  reprompt_totals :: reprompt_counters
  prompt_store :: cache_store
  exports :: export_counters
  sent :: "outgoing list"
  exported :: "request_metrics list"

record 'c handler_config =
  hc_config :: app_config
  hc_registry :: fix_registry
  hc_augment :: "'c augment_backend option"
  hc_dump :: bool

section \<open>Health\<close>

definition failure_cooldown :: "app_config \<Rightarrow> string option \<Rightarrow> duration" where
  "failure_cooldown cfg routed_via =
     from_secs (case Option.bind routed_via (\<lambda>name. Option.bind (ac_backends cfg) (\<lambda>bs. map_of bs name)) of
                  Some grp \<Rightarrow> gc_failure_cooldown_secs grp
                | None \<Rightarrow> 30)"

record health_clock =
  hk_max :: instant
  hk_now :: instant
  hk_lock_free :: bool   \<comment> \<open>whether the context cache could be locked\<close>

definition mark_backend_failed :: "health_clock \<Rightarrow> app_config \<Rightarrow> ticket \<Rightarrow> 'c proxy_state \<Rightarrow> 'c proxy_state" where
  "mark_backend_failed hk cfg tk st =
     (let url = base_url (node_of tk (load_balancer_state st)) in
      st\<lparr>load_balancer_state := on_node (mark_failed (hk_max hk) (hk_now hk) (failure_cooldown cfg (tk_name tk))) tk (load_balancer_state st),
         context_windows := snd (invalidate_context_cache (hk_lock_free hk) url (context_windows st))\<rparr>)"

definition observe_backend_outcome :: "health_clock \<Rightarrow> app_config \<Rightarrow> ticket \<Rightarrow> nat \<Rightarrow> 'c proxy_state \<Rightarrow> 'c proxy_state" where
  "observe_backend_outcome hk cfg tk st_code st =
     (if st_code = 429 \<or> is_server_error st_code then mark_backend_failed hk cfg tk st
      else if is_success st_code then st\<lparr>load_balancer_state := on_node mark_healthy tk (load_balancer_state st)\<rparr>
      else st)"

section \<open>The metrics page\<close>

text \<open>Name, help text and kind of every family, in the order of the page.\<close>

definition METRIC_FAMILIES :: "(string \<times> string \<times> string) list" where
  "METRIC_FAMILIES = [
    (''llama_proxy_backend_streaming_fallback_total'',
        ''Times the backend streamed although the proxy requested stream:false. The expected path in ''
      @ ''passthrough mode is NOT counted here.'',
      ''counter''),
    (''llama_proxy_concurrent_requests'',
        ''Current in-flight requests'',
      ''gauge''),
    (''llama_proxy_rejected_requests_total'',
        ''Requests rejected at capacity'',
      ''counter''),
    (''llama_proxy_openai_stream_passthrough_total'',
        ''OpenAI requests routed onward with stream:true intact. Counted at the routing decision, so it ''
      @ ''moves even with stats.enabled: false - use this as the passthrough mode probe.'',
      ''counter''),
    (''llama_proxy_backend_nonsse_when_streamed_total'',
        ''Passthrough asked for stream:true and the backend answered 2xx with JSON instead of ''
      @ ''text/event-stream. The backend does not stream; the proxy is not at fault.'',
      ''counter''),
    (''llama_proxy_anthropic_buffered_responses_total'',
        ''/v1/messages responses served buffered with synthesized SSE under streaming: passthrough. The ''
      @ ''log notice fires once per process; this keeps counting.'',
      ''counter''),
    (''llama_proxy_passthrough_streams_total'',
        ''Pass-through SSE responses framed by the proxy; denominator for the ratios below. Requires ''
      @ ''accumulation (stats.enabled or dump), unlike openai_stream_passthrough_total. Excludes ''
      @ ''compressed responses.'',
      ''counter''),
    (''llama_proxy_passthrough_sse_events_total'',
        ''SSE events framed on those streams. Counted only while accumulation is on (stats.enabled or ''
      @ ''dump).'',
      ''counter''),
    (''llama_proxy_passthrough_sse_unparsed_events_total'',
        ''Framed SSE events whose data payload was not valid JSON, forwarded verbatim and unanalyzed. ''
      @ ''Denominator: passthrough_sse_events_total.'',
      ''counter''),
    (''llama_proxy_passthrough_stream_truncated_total'',
        ''Streams where the backend ended without [DONE]/message_stop. Denominator: ''
      @ ''passthrough_streams_total.'',
      ''counter''),
    (''llama_proxy_passthrough_stream_stalled_total'',
        ''Streams the stats observer gave up on after 90s without a chunk. The client transfer is not cut ''
      @ ''by this. Denominator: passthrough_streams_total.'',
      ''counter''),
    (''llama_proxy_passthrough_stream_client_gone_total'',
        ''Streams where the client disconnected before completion. Normal, not a defect; counted so ''
      @ ''truncation can be read against real traffic.'',
      ''counter''),
    (''llama_proxy_passthrough_fix_unrepaired_total'',
        ''Fix detections reported and NOT repaired. Detections, not responses - one response can add ''
      @ ''several. Denominator: passthrough_streams_total.'',
      ''counter''),
    (''llama_proxy_passthrough_compressed_responses_total'',
        ''Responses bypassed entirely because Content-Encoding was not identity. Not counted in any other ''
      @ ''passthrough_* metric.'',
      ''counter''),
    (''llama_proxy_metrics_export_skipped_total'',
        ''Metric samples excluded from every exporter because the backend reported no token count and no ''
      @ ''rate: a stream the client abandoned before usage/timings arrived, or a backend error body. They ''
      @ ''are logged at WARN instead. Spans the buffered and pass-through paths, and is NOT the same as ''
      @ ''passthrough_stream_client_gone_total - a client-gone stream that did carry usage is exported ''
      @ ''and is not counted here. Remote token totals under-count backend work by this amount.'',
      ''counter''),
    (''llama_proxy_context_cache_stale_skips_total'',
        ''Context-cache refreshes skipped because the write lock was held when a fresh value arrived; the ''
      @ ''cache keeps its previous value, so context_total can read stale. Not a defect signal on its own ''
      @ ''- it explains context_percent jumps. Spans the buffered and pass-through paths.'',
      ''counter''),
    (''llama_proxy_vram_estimate_served_total'',
        ''POST /api/models/vram-estimate requests the proxy answered itself instead of forwarding a 404. ''
      @ ''The success path logs at debug, so this counter is the only operator-visible proof the shim is ''
      @ ''working.'',
      ''counter''),
    (''llama_proxy_vram_estimate_unknown_total'',
        ''Same endpoint, answered with the proxy'' @ [CHR 0x27] @ ''s own 404 because the backend advertised no context ''
      @ ''window on /props or /v1/models. The client then falls back to its own default window; this is ''
      @ ''the number that says so.'',
      ''counter''),
    (''llama_proxy_context_probe_timeout_total'',
        ''Request-path context probes that hit the 2s bound because the backend accepted /props or ''
      @ ''/v1/models and never replied in time. The response is no longer delayed by this; the counter ''
      @ ''says how often it would have been. Resets on restart.'',
      ''counter''),
    (''llama_proxy_reprompt_skipped_read_only_total'',
        ''Requests the reprompt engine declined because they expose no mutating tool (read-only ''
      @ ''subagent). The skip logs at debug, so this counter is the only operator-visible signal of it.'',
      ''counter''),
    (''llama_proxy_reprompt_triggered_total'',
        ''Premature stops (finish_reason=stop, no tool_calls) the reprompt engine acted on by entering ''
      @ ''its retry loop. Includes loops that later exhausted.'',
      ''counter''),
    (''llama_proxy_reprompt_exhausted_total'',
        ''Reprompt loops that ran out of rounds or the wall-clock budget and returned the collected text ''
      @ ''unchanged. A subset of reprompt_triggered_total.'',
      ''counter''),
    (''llama_proxy_context_cache_evictions_total'',
        ''Times a cached context window was evicted because its backend was marked failed, so the next ''
      @ ''request re-probes the (possibly restarted) backend instead of serving a stale window. Fast path ''
      @ ''for a backend restarted with a new -c; the cache TTL is the backstop. Resets on restart.'',
      ''counter''),
    (''llama_proxy_stats_prefill_implausible_total'',
        ''Exported samples whose prefill rate exceeded stats.max_plausible_prefill_tps (default 50000 ''
      @ ''tok/s; 0 or negative disables the canary ENTIRELY, counter included '' @ [CHR 0xE2] @ [CHR 0x80] @ [CHR 0x94] @ '' this is not a log-only ''
      @ ''mute; and a threshold set ABOVE your engine'' @ [CHR 0x27] @ ''s real rate never fires at all, which is a third ''
      @ ''way a zero is not evidence of health, alongside the sampling and stats-off cases named below). ''
      @ ''Counted exactly, but only the first occurrence and then one in a fixed interval emit a WARN, ''
      @ ''and that interval is printed on the WARN line itself, so the absence of log lines is not ''
      @ ''evidence of health. A CANARY, not a fault counter: a full prefix-cache hit is counted with its ''
      @ ''prefix un-discounted by design and trips it legitimately, and a threshold set below your ''
      @ ''engine'' @ [CHR 0x27] @ ''s real prefill rate trips on healthy traffic forever. Unlike ''
      @ ''llama_proxy_metrics_export_skipped_total, a sample counted here WAS exported and WAS printed at ''
      @ ''INFO '' @ [CHR 0xE2] @ [CHR 0x80] @ [CHR 0x94] @ '' only the WARN line is sampled. Counts only while the stats path runs, which means ''
      @ ''stats.enabled: true '' @ [CHR 0xE2] @ [CHR 0x80] @ [CHR 0x94] @ '' with stats off the sample is never built, so the counter sits at zero and ''
      @ ''that silence is NOT evidence of health. Resets on restart; never exported to InfluxDB.'',
      ''counter'')]"

definition print_family :: "string \<times> string \<times> string \<Rightarrow> u64 \<Rightarrow> string" where
  "print_family fam v = (case fam of (name, help_text, kind) \<Rightarrow>
     ''# HELP '' @ name @ '' '' @ help_text @ [NEWLINE] @ ''# TYPE '' @ name @ '' '' @ kind @ [NEWLINE]
     @ name @ '' '' @ digits (unat v) @ [NEWLINE])"

text \<open>The scrape itself is counted in the gauge and taken off again.\<close>

definition metric_values :: "'c proxy_state \<Rightarrow> u64 list" where
  "metric_values st =
     [backend_streaming_fallback_hits st, saturating_sub (concurrent_requests st) 1, rejected_requests st,
      openai_stream_passthrough_total st, backend_nonsse_when_streamed_for st, anthropic_buffered_responses_total st,
      passthrough_streams_total (stream_stats st), sse_events_total (stream_stats st),
      sse_unparsed_events_total (stream_stats st), stream_truncated_total (stream_stats st),
      stream_stalled_total (stream_stats st), stream_client_gone_total (stream_stats st),
      fix_unrepaired_total (stream_stats st), stream_compressed_total (stream_stats st),
      exports_skipped_total (exports st), ctx_stale_skips (context_windows st), vram_estimate_served_total st,
      vram_estimate_unknown_total st, ctx_probe_timeouts (context_windows st), skipped_read_only_total (reprompt_totals st),
      triggered_total (reprompt_totals st), exhausted_total (reprompt_totals st), ctx_evictions (context_windows st),
      prefill_implausible_total (exports st)]"

definition metrics_page :: "'c proxy_state \<Rightarrow> string" where
  "metrics_page st = concat (map2 print_family METRIC_FAMILIES (metric_values st))"

definition metrics_reply :: "'c proxy_state \<Rightarrow> reply" where
  "metrics_reply st = \<lparr>status = 200, reply_headers = [(''content-type'', ''text/plain; version=0.0.4'')],
     reply_body = Raw (metrics_page st)\<rparr>"

section \<open>Facts\<close>

text \<open>The busy counters of every node, balancer by balancer.\<close>

definition loads :: "'c dispatcher \<Rightarrow> u64 list list" where
  "loads d = map (\<lambda>b. map active_requests (balancer_nodes b)) (balancers d)"

definition bump :: "(u64 \<Rightarrow> u64) \<Rightarrow> ticket \<Rightarrow> u64 list list \<Rightarrow> u64 list list" where
  "bump f tk ls = ls[tk_group tk := (ls ! tk_group tk)[tk_node tk := f (ls ! tk_group tk ! tk_node tk)]]"

definition dispatcher_bounded :: "'c dispatcher \<Rightarrow> bool" where
  "dispatcher_bounded d = list_all (\<lambda>b. loads_bounded (balancer_nodes b)) (balancers d)"

definition valid_ticket :: "ticket \<Rightarrow> 'c dispatcher \<Rightarrow> bool" where
  "valid_ticket tk d \<longleftrightarrow> tk_group tk < length (loads d) \<and> tk_node tk < length (loads d ! tk_group tk)
     \<and> (\<forall>b. d = Single b \<longrightarrow> tk_group tk = 0)"

lemma nodes_map_nodes [simp]: "balancer_nodes (map_nodes f b) = f (balancer_nodes b)"
  by (cases b) (simp_all add: map_nodes_def)

lemma balancers_on_node:
  assumes "valid_ticket tk d"
  shows "balancers (on_node f tk d) = (balancers d)[tk_group tk :=
    map_nodes (\<lambda>ns. ns[tk_node tk := f (ns ! tk_node tk)]) (balancers d ! tk_group tk)]"
  using assms by (cases d) (auto simp: on_node_def balancers_def valid_ticket_def loads_def Let_def map_update)

lemma loads_on_node:
  assumes "valid_ticket tk d" "\<And>n. active_requests (f n) = h (active_requests n)"
  shows "loads (on_node f tk d) = bump h tk (loads d)"
  using assms unfolding loads_def balancers_on_node [OF assms(1)] bump_def
  by (auto simp: map_update valid_ticket_def loads_def)

lemma bump_id [simp]: "bump (\<lambda>x. x) tk ls = ls"
  by (simp add: bump_def)

lemma loads_mark:
  assumes "valid_ticket tk d"
  shows "loads (on_node (mark_failed m now cd) tk d) = loads d" "loads (on_node mark_healthy tk d) = loads d"
  using loads_on_node [OF assms, of "mark_failed m now cd" "\<lambda>x. x"] loads_on_node [OF assms, of mark_healthy "\<lambda>x. x"]
  by (simp_all add: mark_failed_def mark_healthy_def Let_def)

lemma shape_loads: "loads d = loads d' \<Longrightarrow> length (balancers d) = length (balancers d')"
  unfolding loads_def by (metis length_map)

lemma is_Single_on_node: "(\<exists>b. on_node f tk d = Single b) \<longleftrightarrow> (\<exists>b. d = Single b)"
  by (cases d) (auto simp: on_node_def Let_def)

lemma map_sum_eq:
  "map_sum f g r = Inr y \<longleftrightarrow> (\<exists>x. r = Inr x \<and> y = g x)" "map_sum f g r = Inl e \<longleftrightarrow> (\<exists>x. r = Inl x \<and> e = f x)"
  by (cases r; auto)+

lemma dispatch_claims:
  assumes "dispatcher_bounded d" "dispatch now d model = Some (Ok tk, d')"
  shows "valid_ticket tk d \<and> valid_ticket tk d' \<and> loads d' = bump (\<lambda>x. x + 1) tk (loads d)
    \<and> loads d ! tk_group tk ! tk_node tk < - 1"
proof (cases d)
  case (Single b)
  with assms obtain g b' where s: "balancer_select now b = Some (g, b')" "tk = \<lparr>tk_group = 0, tk_node = g_node g, tk_name = group_name g\<rparr>"
    "d' = Single b'" by (auto simp: dispatch_def)
  have lb: "loads_bounded (balancer_nodes b)" using assms(1) Single by (simp add: dispatcher_bounded_def balancers_def)
  from any.select_claims [OF lb s(1)] lb Single s show ?thesis
    by (auto simp: valid_ticket_def loads_def balancers_def bump_def claim_at_def map_update loads_bounded_def list_all_length)
next
  case (Grouped gs)
  with assms obtain i g gs' where s: "grouped_select now gs model = Some (Ok (i, g), gs')"
    "tk = \<lparr>tk_group = i, tk_node = g_node g, tk_name = group_name g\<rparr>" "d' = Grouped gs'"
    by (auto simp: dispatch_def map_sum_eq)
  from s(1) obtain g0 b' where g: "find_group gs model = Some i" "balancer_select now (bg_balancer (gs ! i)) = Some (g0, b')"
    "g_node g = g_node g0" "gs' = gs[i := (gs ! i)\<lparr>bg_balancer := b'\<rparr>]"
    by (auto simp: grouped_select_def split: option.splits)
  have i: "i < length gs" using g(1) by (auto simp: find_group_def or_else_def find_index_Some split: option.splits)
  have lb: "loads_bounded (balancer_nodes (bg_balancer (gs ! i)))"
    using assms(1) Grouped i by (simp add: dispatcher_bounded_def balancers_def list_all_length)
  from any.select_claims [OF lb g(2)] lb Grouped s g i show ?thesis
    by (auto simp: valid_ticket_def loads_def balancers_def bump_def claim_at_def map_update loads_bounded_def list_all_length)
qed

lemma valid_ticket_cong:
  "valid_ticket tk d \<Longrightarrow> loads d' = loads d \<Longrightarrow> (\<exists>b. d' = Single b) = (\<exists>b. d = Single b) \<Longrightarrow> valid_ticket tk d'"
  by (auto simp: valid_ticket_def)

lemma release_undoes:
  assumes "valid_ticket tk d" "loads d = bump (\<lambda>x. x + 1) tk ls" "ls ! tk_group tk ! tk_node tk < - 1"
  shows "loads (release tk d) = ls"
proof -
  have l: "tk_group tk < length ls" "tk_node tk < length (ls ! tk_group tk)"
    using assms(1,2) by (auto simp: valid_ticket_def bump_def)
  have "active_requests (busy_drop n) = (if active_requests n = 0 then 0 else active_requests n - 1)" for n :: "'c backend_node"
    by (simp add: busy_drop_def unclaim_def claim_def Let_def)
  then have "loads (release tk d) = bump (\<lambda>x. if x = 0 then 0 else x - 1) tk (loads d)"
    unfolding release_def by (intro loads_on_node [OF assms(1)])
  moreover have "ls ! tk_group tk ! tk_node tk + 1 \<noteq> 0" using unat_claim assms(3)
    by (metis add.inverse_unique order_less_irrefl add.commute)
  ultimately show ?thesis using l by (simp add: assms(2) bump_def)
qed

lemma dispatch_refused:
  "dispatch now d model = Some (Err e, d') \<Longrightarrow> d' = d"
  by (cases d) (auto simp: dispatch_def grouped_select_def map_sum_eq split: option.splits)

lemma metrics_page_complete: "length METRIC_FAMILIES = length (metric_values st)"
  by (simp add: METRIC_FAMILIES_def metric_values_def)

end
