(* ===== verification/Handler.thy ===== *)
theory Handler
  imports Proxy_State
begin

text \<open>
  The request handler, \<^verbatim>\<open>ProxyHandler::handle\<close> and the functions it calls in
  \<^verbatim>\<open>llama-proxy/src/proxy/handler.rs\<close>, with the hand-over to the streaming path
  (\<^verbatim>\<open>handle_streaming_response\<close> of \<^verbatim>\<open>proxy/streaming.rs\<close>).

  The nesting of the definitions is the nesting of the scopes that release something when they are left:
  the in-flight gauge (\<open>handle\<close>), the claim on a backend (\<open>serve\<close>), the capacity permit (\<open>forward\<close>).
  A panic is an absent answer; the scopes still release. A streamed answer takes claim and permit with it,
  \<open>body_dropped\<close> gives them back.

  Parameters (\<open>handler_env\<close>): the HTTP client, the request body reader, \<^verbatim>\<open>serde\<close>'s derived conversions of the
  request types, clocks and time limits, fresh identifiers, files, and the answers of the other services.
\<close>

section \<open>The environment\<close>

record request =
  rq_method :: string
  rq_path :: string
  rq_query :: "string option"
  rq_headers :: headers
  rq_body :: string

record backend_reply =
  br_status :: nat
  br_headers :: headers
  br_items :: "stream_item list"

record ('c, 'r) handler_env =
  he_serde :: serde_env
  he_forms :: seq_forms
  he_codecs :: codecs
  he_to_bytes :: "string \<Rightarrow> nat \<Rightarrow> (string, string) result"
  he_send :: "'c \<Rightarrow> outgoing \<Rightarrow> (backend_reply, string) result"
  he_select_at :: instant
  he_health :: health_clock
  he_probe_at :: instant
  he_probe_later :: instant
  he_lock_free :: bool
  he_in_time :: bool
  he_probe_net :: "net option"
  he_node_net :: net
  he_kv_answer :: "metrics_answer option"
  he_files :: "string \<Rightarrow> file_state"
  he_augment_post :: "string \<Rightarrow> json \<Rightarrow> (http_reply, string) result"
  he_from_anthropic :: "json \<Rightarrow> anthropic_message_request option"
  he_anthropic_bytes :: "anthropic_message_request \<Rightarrow> string option"
  he_from_openai :: "json \<Rightarrow> ('r, string) result"
  he_to_openai :: "'r \<Rightarrow> (json, string) result"
  he_openai_bytes :: "'r \<Rightarrow> string option"
  he_reprompt :: reprompt_env
  he_unix_time :: u64
  he_fresh_id :: "nat \<Rightarrow> string"
  he_metric_id :: string
  he_metric_time :: nat
  he_elapsed_ms :: f64
  he_debug :: "string option \<Rightarrow> string"

text \<open>\<^verbatim>\<open>Response::bytes\<close>: all items, or the first error.\<close>

fun collect_items :: "stream_item list \<Rightarrow> (string, string) result" where
  "collect_items [] = Ok []"
| "collect_items (Inl e # items) = Err e"
| "collect_items (Inr bytes # items) = and_then (collect_items items) (\<lambda>rest. Ok (bytes @ rest))"

text \<open>What an answer holds while its body is alive: the backend claim, and a permit if one was taken.\<close>

record held =
  hd_ticket :: ticket
  hd_permit :: bool

datatype answer =
    Buffered reply
  | Chunks "sse_out list"
  | Frames "frame list"
  | Framed held nat headers pass_state
  | Verbatim held nat headers "stream_item list"

fun holds :: "answer \<Rightarrow> held option" where
  "holds (Framed h st hs p) = Some h"
| "holds (Verbatim h st hs items) = Some h"
| "holds _ = None"

section \<open>Local endpoints\<close>

definition handle_vram_estimate ::
  "('c, 'r) handler_env \<Rightarrow> string \<Rightarrow> ticket \<Rightarrow> 'c proxy_state \<Rightarrow> reply \<times> 'c proxy_state" where
  "handle_vram_estimate env body tk st =
     (let node = node_of tk (load_balancer_state st);
          model = some_or (Option.bind (parse_value (he_serde env) body) (\<lambda>j. get_str j ''model'')) [];
          (window, ctx) = resolve_context_length (he_serde env) (he_probe_net env) (he_in_time env) (he_probe_at env)
                            (he_probe_later env) (he_lock_free env) node (context_windows st);
          (info, kv) = kv_cache_info (he_probe_at env) (he_probe_later env) (he_kv_answer env) (base_url node) (kv_cache st);
          st1 = st\<lparr>context_windows := ctx, kv_cache := kv\<rparr> in
      case window of
        None \<Rightarrow>
          (json_reply 404 [] (err_envelope ''vram_estimate_context_unknown''
             (''Backend '' @ base_url node @ '' advertises no context window; cannot estimate for model ''
              @ he_debug env (if model = [] then None else Some model))),
           st1\<lparr>vram_estimate_unknown_total := vram_estimate_unknown_total st1 + 1\<rparr>)
      | Some context_length \<Rightarrow>
          (json_reply 200 [] (build_vram_estimate_body model context_length info),
           st1\<lparr>vram_estimate_served_total := vram_estimate_served_total st1 + 1\<rparr>))"

definition backend_url :: "'c backend_node \<Rightarrow> string \<Rightarrow> string option \<Rightarrow> string" where
  "backend_url node path query =
     base_url node @ effective_path node path @ (case query of Some q \<Rightarrow> ''?'' @ q | None \<Rightarrow> [])"

text \<open>Sending records the request; the answer is the client's.\<close>

definition send_to_backend ::
  "('c, 'r) handler_env \<Rightarrow> ticket \<Rightarrow> outgoing \<Rightarrow> 'c proxy_state \<Rightarrow> (backend_reply, string) result \<times> 'c proxy_state" where
  "send_to_backend env tk og st =
     (he_send env (n_http_client (node_of tk (load_balancer_state st))) og, st\<lparr>sent := sent st @ [og]\<rparr>)"

definition passthrough_headers :: "headers \<Rightarrow> headers" where
  "passthrough_headers hs = filter (\<lambda>(name, v). \<not> (name = ''host'' \<or> name = ''authorization'')) hs"

definition passthrough_answer :: "codecs \<Rightarrow> backend_reply \<Rightarrow> reply" where
  "passthrough_answer cs resp = (case collect_items (br_items resp) of
       Inl e \<Rightarrow> json_reply 502 [] (err_envelope ''backend_read_error'' (''Failed to read response: '' @ e))
     | Inr raw_body \<Rightarrow>
         (case decode_body_bytes cs raw_body (header_str (br_headers resp) ''content-encoding'') of
            Inr (Decoded body) \<Rightarrow> forward_response (br_status resp) (br_headers resp) body True
          | Inr (Passthrough body) \<Rightarrow> forward_response (br_status resp) (br_headers resp) body False
          | Inl e \<Rightarrow> decompress_error_response e))"

definition proxy_passthrough ::
  "('c, 'r) handler_env \<Rightarrow> app_config \<Rightarrow> ticket \<Rightarrow> request \<Rightarrow> 'c proxy_state \<Rightarrow> reply \<times> 'c proxy_state" where
  "proxy_passthrough env cfg tk rq st =
     (let node = node_of tk (load_balancer_state st) in
      case he_to_bytes env (rq_body rq) (1024 * 1024 * 10) of
        Inl e \<Rightarrow> (body_read_error e ''10 MiB'', st)
      | Inr body \<Rightarrow>
          (let og = \<lparr>og_url = backend_url node (rq_path rq) (rq_query rq), og_method = rq_method rq,
                     og_headers = with_auth (passthrough_headers (rq_headers rq)) (n_api_key node), og_body = body\<rparr> in
           case send_to_backend env tk og st of
             (Inl e, st1) \<Rightarrow> (json_reply 502 [] (err_envelope ''backend_connect_error'' (''Backend error: '' @ e)),
                              mark_backend_failed (he_health env) cfg tk st1)
           | (Inr resp, st1) \<Rightarrow> (passthrough_answer (he_codecs env) resp,
                                observe_backend_outcome (he_health env) cfg tk (br_status resp) st1)))"

datatype route_decision = Handled reply | Forward string

text \<open>The monitoring request is rebuilt: \<^verbatim>\<open>HeaderMap::insert\<close> replaces an earlier value of the same name.\<close>

definition reinserted :: "headers \<Rightarrow> headers" where
  "reinserted hs = fold (\<lambda>(name, v) acc. jmap_insert name v acc) hs []"

definition route ::
  "('c, 'r) handler_env \<Rightarrow> app_config \<Rightarrow> ticket \<Rightarrow> request \<Rightarrow> string \<Rightarrow> 'c proxy_state \<Rightarrow> route_decision \<times> 'c proxy_state" where
  "route env cfg tk rq body st =
     (let routed = effective_path (node_of tk (load_balancer_state st)) (rq_path rq) in
      if rq_method rq = ''POST'' \<and> (is_vram_estimate_path (rq_path rq) \<or> is_vram_estimate_path routed)
      then (let (r, st1) = handle_vram_estimate env body tk st in (Handled r, st1))
      else if rq_method rq = ''GET'' \<and> routed \<in> set [''/props'', ''/slots'', ''/v1/health'', ''/v1/models'', ''/metrics'']
      then (let (r, st1) = proxy_passthrough env cfg tk (rq\<lparr>rq_headers := reinserted (rq_headers rq), rq_body := body\<rparr>) st in
            (Handled r, st1))
      else if rq_method rq = ''GET'' \<and> routed = ''/proxy/metrics'' then (Handled (metrics_reply st), st)
      else (Forward body, st))"

section \<open>Statistics\<close>

definition enriched_sample ::
  "('c, 'r) handler_env \<Rightarrow> ticket \<Rightarrow> request_metrics \<Rightarrow> 'c proxy_state \<Rightarrow> request_metrics \<times> 'c proxy_state" where
  "enriched_sample env tk m st =
     (let node = node_of tk (load_balancer_state st); url = base_url node in
      if \<not> has_throughput_signal m then (m, st)
      else if \<not> he_in_time env
      then (m, st\<lparr>context_windows := snd (warn_context_fetch_failed_once url (note_context_probe_timeout (context_windows st)))\<rparr>)
      else (case fetch_context_total (he_serde env) (he_node_net env) (he_probe_at env) (he_probe_later env) (he_lock_free env)
                   url (n_api_key node) (n_model node) (context_windows st) of
              (Some window, ctx) \<Rightarrow> (calculate_context_percent (m\<lparr>m_context_total := Some window\<rparr>), st\<lparr>context_windows := ctx\<rparr>)
            | (None, ctx) \<Rightarrow> (m, st\<lparr>context_windows := snd (warn_context_fetch_failed_once url ctx)\<rparr>)))"

definition emit_metrics ::
  "('c, 'r) handler_env \<Rightarrow> app_config \<Rightarrow> ticket \<Rightarrow> json option \<Rightarrow> json option \<Rightarrow> 'c proxy_state \<Rightarrow> 'c proxy_state" where
  "emit_metrics env cfg tk response request st =
     (case (response, request) of
        (Some json, Some req) \<Rightarrow>
          if \<not> st_enabled (ac_stats cfg) then st
          else (let m = (from_response (he_metric_id env) (he_metric_time env) json req False (he_elapsed_ms env))\<lparr>m_group_name := tk_name tk\<rparr>;
                    (m1, st1) = enriched_sample env tk m st;
                    m2 = m1\<lparr>m_concurrent_requests := Some (concurrent_requests st1)\<rparr>;
                    (export, cnt) = log_sample_and_should_export m2 (st_max_plausible_prefill_tps (ac_stats cfg)) (exports st1);
                    st2 = st1\<lparr>exports := cnt\<rparr> in
                if export then st2\<lparr>exported := exported st2 @ [m2]\<rparr> else st2)
      | _ \<Rightarrow> st)"

section \<open>The buffered answer\<close>

definition path_and_query :: "request \<Rightarrow> string" where
  "path_and_query rq = rq_path rq @ (case rq_query rq of Some q \<Rightarrow> ''?'' @ q | None \<Rightarrow> [])"

text \<open>The outer \<open>None\<close> is a panic of the engine.\<close>

definition reprompted ::
  "('c, 'r) handler_env \<Rightarrow> ticket \<Rightarrow> request \<Rightarrow> json option \<Rightarrow> bool \<Rightarrow> json option \<Rightarrow> 'c proxy_state
     \<Rightarrow> (json option \<times> 'c proxy_state) option" where
  "reprompted env tk rq request is_anthropic parsed st =
     (case (reprompt_state st, request, parsed) of
        (Some engine, Some req, Some current) \<Rightarrow>
          if is_anthropic then Some (parsed, st)
          else map_option (\<lambda>out. (Some (ro_response out),
                 st\<lparr>reprompt_state := Some (ro_engine out), reprompt_totals := ro_counters out, prompt_store := ro_store out\<rparr>))
               (maybe_reprompt (he_reprompt env) (he_files env) engine (prompt_store st) (reprompt_totals st) current req
                 (path_and_query rq) (node_of tk (load_balancer_state st)))
      | _ \<Rightarrow> Some (parsed, st))"

definition fixed :: "('c, 'r) handler_env \<Rightarrow> fix_registry \<Rightarrow> json option \<Rightarrow> json option \<Rightarrow> json option option" where
  "fixed env registry request response = (case response of
       None \<Rightarrow> Some None
     | Some json \<Rightarrow> map_option (\<lambda>(j, log). Some j)
         (case request of
            Some req \<Rightarrow> apply_fixes_with_context (he_serde env) registry json req
          | None \<Rightarrow> apply_fixes registry json))"

text \<open>The synthesised stream for a client that asked for one, if the value allows it.\<close>

definition synthesized :: "('c, 'r) handler_env \<Rightarrow> app_config \<Rightarrow> bool \<Rightarrow> json \<Rightarrow> answer option" where
  "synthesized env cfg is_anthropic json =
     (let size = unat (sy_chunk_size_chars (ac_synthesis cfg)) in
      if is_anthropic
      then Some (case message_of_value (he_forms env) json of
             Some msg \<Rightarrow> Frames (synthesize_anthropic_chunks (he_serde env) msg size)
           | None \<Rightarrow>
               (let frames = convert_openai_to_claude_sse (he_unix_time env) (he_fresh_id env) json size in
                if frames = [] then Buffered anthropic_sse_error_response else Frames frames))
      else (case synthesize_streaming_response (he_unix_time env) json size of
              Inr chunks \<Rightarrow> Some (Chunks chunks)
            | Inl e \<Rightarrow> None))"

definition final_bytes :: "serde_env \<Rightarrow> json option \<Rightarrow> string \<Rightarrow> string" where
  "final_bytes serde response body = (case response of
       Some json \<Rightarrow> (case print_value serde json of Inr bytes \<Rightarrow> bytes | Inl e \<Rightarrow> body)
     | None \<Rightarrow> body)"

definition buffered_answer ::
  "('c, 'r) handler_env \<Rightarrow> app_config \<Rightarrow> bool \<Rightarrow> bool \<Rightarrow> backend_reply \<Rightarrow> json option \<Rightarrow> string \<Rightarrow> bool \<Rightarrow> answer" where
  "buffered_answer env cfg wants_sse is_anthropic resp response body decoded =
     (let plain = Buffered (forward_response (br_status resp) (br_headers resp) (final_bytes (he_serde env) response body) decoded) in
      case response of
        Some json \<Rightarrow>
          if wants_sse \<and> is_success (br_status resp)
          then (case synthesized env cfg is_anthropic json of Some ans \<Rightarrow> ans | None \<Rightarrow> plain) else plain
      | None \<Rightarrow> plain)"

text \<open>The body as read and decoded, or the reply that says why not.\<close>

definition decoded_body :: "codecs \<Rightarrow> backend_reply \<Rightarrow> (string \<times> bool, reply) sum" where
  "decoded_body cs resp = (case collect_items (br_items resp) of
       Inl e \<Rightarrow> Inr (json_reply 502 [] (err_envelope ''backend_read_error'' (''Failed to read backend response: '' @ e)))
     | Inr raw_body \<Rightarrow>
         (case decode_body_bytes cs raw_body (header_str (br_headers resp) ''content-encoding'') of
            Inr (Decoded body) \<Rightarrow> Inl (body, True)
          | Inr (Passthrough body) \<Rightarrow> Inl (body, False)
          | Inl e \<Rightarrow> Inr (decompress_error_response e)))"

definition handle_non_streaming_response ::
  "('c, 'r) handler_env \<Rightarrow> 'c handler_config \<Rightarrow> ticket \<Rightarrow> request \<Rightarrow> json option \<Rightarrow> bool \<Rightarrow> bool \<Rightarrow> backend_reply
     \<Rightarrow> 'c proxy_state \<Rightarrow> answer option \<times> 'c proxy_state" where
  "handle_non_streaming_response env hc tk rq request wants_sse is_anthropic resp st =
     (case decoded_body (he_codecs env) resp of
        Inr error_reply \<Rightarrow> (Some (Buffered error_reply), st)
      | Inl (body, decoded) \<Rightarrow>
          (let content_type = some_or (header_str (br_headers resp) ''content-type'') ''unknown'';
               parsed = (if is_json_content_type content_type then parse_value (he_serde env) body else None) in
           case reprompted env tk rq request is_anthropic parsed st of
             None \<Rightarrow> (None, st)
           | Some (answered, st1) \<Rightarrow>
               (case fixed env (hc_registry hc) request answered of
                  None \<Rightarrow> (None, st1)
                | Some response \<Rightarrow>
                    (Some (buffered_answer env (hc_config hc) wants_sse is_anthropic resp response body decoded),
                     emit_metrics env (hc_config hc) tk response request st1))))"

section \<open>The streamed answer\<close>

text \<open>\<^verbatim>\<open>HeaderMap\<close>'s owning iterator names only the first value of a header; the others are skipped.\<close>

fun first_values :: "string list \<Rightarrow> headers \<Rightarrow> headers" where
  "first_values names [] = []"
| "first_values names ((name, v) # hs) =
     (if name \<in> set names then first_values names hs else (name, v) # first_values (name # names) hs)"

definition streamed_headers :: "headers \<Rightarrow> headers" where
  "streamed_headers hs = filter (\<lambda>(name, v). name \<noteq> ''content-length'') (first_values [] hs)"

definition handle_streaming_response ::
  "'c handler_config \<Rightarrow> held \<Rightarrow> backend_reply \<Rightarrow> 'c proxy_state \<Rightarrow> answer \<times> 'c proxy_state" where
  "handle_streaming_response hc h resp st =
     (let encoding = some_or (header_str (br_headers resp) ''content-encoding'') ''identity'';
          hs = streamed_headers (br_headers resp); totals = stream_stats st in
      if to_ascii_lowercase encoding \<noteq> ''identity''
      then (Verbatim h (br_status resp) hs (br_items resp),
            st\<lparr>stream_stats := totals\<lparr>stream_compressed_total := stream_compressed_total totals + 1\<rparr>\<rparr>)
      else (let accumulates = (st_enabled (ac_stats (hc_config hc)) \<or> hc_dump hc) in
            (Framed h (br_status resp) hs (pass_new (br_items resp) accumulates (sse_events_total totals)),
             if accumulates
             then st\<lparr>stream_stats := totals\<lparr>passthrough_streams_total := passthrough_streams_total totals + 1\<rparr>\<rparr> else st)))"

section \<open>Forwarding\<close>

text \<open>What augmentation gives: nothing, the text with the request prompt, or the reply that ends the request.\<close>

datatype augmented = NoAugmentation | Augmentation string string | AugmentFailed reply

definition augmentation_of ::
  "('c, 'r) handler_env \<Rightarrow> 'c augment_backend option \<Rightarrow> json option \<Rightarrow> 'c proxy_state \<Rightarrow> augmented \<times> 'c proxy_state" where
  "augmentation_of env augment request st = (case (augment, request) of
       (Some ab, Some req) \<Rightarrow>
         (let user_content = extract_user_content_from_json req in
          if user_content = [] then (NoAugmentation, st)
          else (let (r, store) = get_augmentation (he_serde env) (he_files env) (he_augment_post env) ab (prompt_store st) user_content;
                    st1 = st\<lparr>prompt_store := store\<rparr> in
                case r of
                  Inr aug \<Rightarrow>
                    (if aug = [] then NoAugmentation
                     else Augmentation aug (case load_request_prompt (he_files env) ab of Inr p \<Rightarrow> p | Inl e \<Rightarrow> []), st1)
                | Inl e \<Rightarrow>
                    (AugmentFailed (json_reply 502 [] (err_envelope ''augment_backend_error'' (''Augment backend error: '' @ e))), st1)))
     | _ \<Rightarrow> (NoAugmentation, st))"

definition or_original :: "string \<Rightarrow> string option \<Rightarrow> string" where
  "or_original body bytes = (case bytes of Some b \<Rightarrow> b | None \<Rightarrow> body)"

text \<open>The injected body; whatever cannot be converted leaves the original bytes. \<open>None\<close> is a panic.\<close>

definition enriched ::
  "('c, 'r) handler_env \<Rightarrow> bool \<Rightarrow> json \<Rightarrow> string \<Rightarrow> string \<Rightarrow> string \<Rightarrow> string option" where
  "enriched env is_anthropic req body aug prompt =
     (if is_anthropic
      then Some (case he_from_anthropic env req of
             Some typed \<Rightarrow> or_original body (he_anthropic_bytes env (inject_into_anthropic typed prompt aug))
           | None \<Rightarrow> body)
      else (case he_from_openai env req of
              Inl e \<Rightarrow> Some body
            | Inr typed \<Rightarrow>
                map_option (\<lambda>r. case r of Inr injected \<Rightarrow> or_original body (he_openai_bytes env injected) | Inl e \<Rightarrow> body)
                  (inject_augmentation (he_serde env) (he_to_openai env) (he_from_openai env) typed prompt aug)))"

definition enriched_body ::
  "('c, 'r) handler_env \<Rightarrow> bool \<Rightarrow> json option \<Rightarrow> string \<Rightarrow> augmented \<Rightarrow> string option" where
  "enriched_body env is_anthropic request body augmentation = (case (augmentation, request) of
       (Augmentation aug prompt, Some req) \<Rightarrow> enriched env is_anthropic req body aug prompt
     | _ \<Rightarrow> Some body)"

definition is_event_stream :: "backend_reply \<Rightarrow> bool" where
  "is_event_stream resp = is_some_and (\<lambda>ct. str_contains ct ''text/event-stream'') (header_str (br_headers resp) ''content-type'')"

definition outgoing_request :: "'c backend_node \<Rightarrow> request \<Rightarrow> string \<Rightarrow> outgoing" where
  "outgoing_request node rq body =
     \<lparr>og_url = backend_url node (rq_path rq) (rq_query rq), og_method = rq_method rq,
      og_headers = with_auth (filter (\<lambda>(name, v). forwards_to_backend name) (rq_headers rq)) (n_api_key node),
      og_body = body\<rparr>"

text \<open>The backend answered.\<close>

definition deliver ::
  "('c, 'r) handler_env \<Rightarrow> 'c handler_config \<Rightarrow> held \<Rightarrow> request \<Rightarrow> json option \<Rightarrow> bool \<Rightarrow> bool \<Rightarrow> backend_reply
     \<Rightarrow> 'c proxy_state \<Rightarrow> answer option \<times> 'c proxy_state" where
  "deliver env hc h rq request is_anthropic expected_streaming resp st =
     (let st1 = observe_backend_outcome (he_health env) (hc_config hc) (hd_ticket h) (br_status resp) st in
      if is_event_stream resp
      then (let st2 = (if expected_streaming then st1
                       else st1\<lparr>backend_streaming_fallback_hits := backend_streaming_fallback_hits st1 + 1\<rparr>);
                (ans, st3) = handle_streaming_response hc h resp st2 in (Some ans, st3))
      else (let st2 = (if expected_streaming \<and> is_success (br_status resp)
                       then st1\<lparr>backend_nonsse_when_streamed_for := backend_nonsse_when_streamed_for st1 + 1\<rparr> else st1);
                wants_sse = is_some_and wants_stream request in
            handle_non_streaming_response env hc (hd_ticket h) rq request wants_sse is_anthropic resp st2))"

definition exchange ::
  "('c, 'r) handler_env \<Rightarrow> 'c handler_config \<Rightarrow> held \<Rightarrow> request \<Rightarrow> json option \<Rightarrow> string \<Rightarrow> bool
     \<Rightarrow> 'c proxy_state \<Rightarrow> answer option \<times> 'c proxy_state" where
  "exchange env hc h rq request enriched_bytes is_anthropic st =
     (let node = node_of (hd_ticket h) (load_balancer_state st);
          passthrough = is_passthrough (ac_streaming (hc_config hc));
          allow_stream = (passthrough \<and> \<not> is_anthropic);
          st1 = (if passthrough \<and> is_anthropic
                 then st\<lparr>anthropic_buffered_responses_total := anthropic_buffered_responses_total st + 1,
                         anthropic_buffered_notice_once := True\<rparr> else st) in
      case apply_backend_overrides_bytes (he_serde env) enriched_bytes node allow_stream (rq_path rq) of
        None \<Rightarrow> (None, st1)
      | Some (final_body, sent_stream_true) \<Rightarrow>
          (let expected_streaming = (allow_stream \<and> sent_stream_true);
               st2 = (if expected_streaming
                      then st1\<lparr>openai_stream_passthrough_total := openai_stream_passthrough_total st1 + 1\<rparr> else st1) in
           case send_to_backend env (hd_ticket h) (outgoing_request node rq final_body) st2 of
             (Inl e, st3) \<Rightarrow>
               (Some (Buffered (json_reply 502 [] (err_envelope ''backend_connect_error'' (''Failed to connect to backend: '' @ e)))),
                mark_backend_failed (he_health env) (hc_config hc) (hd_ticket h) st3)
           | (Inr resp, st3) \<Rightarrow> deliver env hc h rq request is_anthropic expected_streaming resp st3))"

definition augment_and_exchange ::
  "('c, 'r) handler_env \<Rightarrow> 'c handler_config \<Rightarrow> held \<Rightarrow> request \<Rightarrow> json option \<Rightarrow> string \<Rightarrow> bool
     \<Rightarrow> 'c proxy_state \<Rightarrow> answer option \<times> 'c proxy_state" where
  "augment_and_exchange env hc h rq request body is_anthropic st =
     (case augmentation_of env (hc_augment hc) request st of
        (AugmentFailed error_reply, st1) \<Rightarrow> (Some (Buffered error_reply), st1)
      | (augmentation, st1) \<Rightarrow>
          (case enriched_body env is_anthropic request body augmentation of
             None \<Rightarrow> (None, st1)
           | Some bytes \<Rightarrow> exchange env hc h rq request bytes is_anthropic st1))"

section \<open>The scopes\<close>

text \<open>The permit: taken, or none needed, or none free.\<close>

datatype admission = Admitted bool | AtCapacity

definition admit :: "app_config \<Rightarrow> 'c proxy_state \<Rightarrow> admission \<times> 'c proxy_state" where
  "admit cfg st =
     (if 0 < sc_max_concurrent_requests (ac_server cfg)
      then (case permits st of
              Some (Suc n) \<Rightarrow> (Admitted True, st\<lparr>permits := Some n\<rparr>)
            | Some 0 \<Rightarrow> (AtCapacity, st\<lparr>rejected_requests := rejected_requests st + 1\<rparr>)
            | None \<Rightarrow> (Admitted False, st))
      else (Admitted False, st))"

definition permit_dropped :: "bool \<Rightarrow> 'c proxy_state \<Rightarrow> 'c proxy_state" where
  "permit_dropped taken st = (if taken then st\<lparr>permits := map_option Suc (permits st)\<rparr> else st)"

definition guard_dropped :: "ticket \<Rightarrow> 'c proxy_state \<Rightarrow> 'c proxy_state" where
  "guard_dropped tk st = st\<lparr>load_balancer_state := release tk (load_balancer_state st)\<rparr>"

definition keeps_body :: "answer option \<Rightarrow> bool" where
  "keeps_body ans = is_some_and (\<lambda>a. holds a \<noteq> None) ans"

definition forward ::
  "('c, 'r) handler_env \<Rightarrow> 'c handler_config \<Rightarrow> ticket \<Rightarrow> request \<Rightarrow> json option \<Rightarrow> string \<Rightarrow> bool
     \<Rightarrow> 'c proxy_state \<Rightarrow> answer option \<times> 'c proxy_state" where
  "forward env hc tk rq request body is_anthropic st =
     (case admit (hc_config hc) st of
        (AtCapacity, st1) \<Rightarrow> (Some (Buffered (at_capacity_response (sc_max_concurrent_requests (ac_server (hc_config hc))))), st1)
      | (Admitted taken, st1) \<Rightarrow>
          (let (ans, st2) = augment_and_exchange env hc \<lparr>hd_ticket = tk, hd_permit = taken\<rparr> rq request body is_anthropic st1 in
           (ans, if keeps_body ans then st2 else permit_dropped taken st2)))"

definition serve ::
  "('c, 'r) handler_env \<Rightarrow> 'c handler_config \<Rightarrow> request \<Rightarrow> json option \<Rightarrow> string \<Rightarrow> 'c proxy_state
     \<Rightarrow> answer option \<times> 'c proxy_state" where
  "serve env hc rq request body st =
     (let requested = Option.bind request (\<lambda>j. get_str j ''model'') in
      case dispatch (he_select_at env) (load_balancer_state st) requested of
        None \<Rightarrow> (None, st)
      | Some (Inl e, d) \<Rightarrow>
          (Some (Buffered (json_reply 503 [] (err_envelope ''no_backend'' (''No backend for model: '' @ he_debug env (requested_model e))))),
           st\<lparr>load_balancer_state := d\<rparr>)
      | Some (Inr tk, d) \<Rightarrow>
          (let st1 = st\<lparr>load_balancer_state := d\<rparr>;
               routed = effective_path (node_of tk d) (rq_path rq);
               is_anthropic = (starts_with (rq_path rq) ''/v1/messages'' \<or> starts_with routed ''/v1/messages'');
               (ans, st2) = (case route env (hc_config hc) tk rq body st1 of
                   (Handled r, s) \<Rightarrow> (Some (Buffered r), s)
                 | (Forward b, s) \<Rightarrow> forward env hc tk rq request b is_anthropic s) in
           (ans, if keeps_body ans then st2 else guard_dropped tk st2)))"

definition prepare_request :: "('c, 'r) handler_env \<Rightarrow> string \<Rightarrow> (reply, string \<times> json option) sum" where
  "prepare_request env body = (case he_to_bytes env body (1024 * 1024 * 100) of
       Inl e \<Rightarrow> Inl (body_read_error e ''100 MiB'')
     | Inr bytes \<Rightarrow> Inr (bytes, parse_value (he_serde env) bytes))"

definition handle ::
  "('c, 'r) handler_env \<Rightarrow> 'c handler_config \<Rightarrow> request \<Rightarrow> 'c proxy_state \<Rightarrow> answer option \<times> 'c proxy_state" where
  "handle env hc rq st =
     (let st1 = st\<lparr>concurrent_requests := concurrent_requests st + 1\<rparr>;
          (ans, st2) = (case prepare_request env (rq_body rq) of
              Inl r \<Rightarrow> (Some (Buffered r), st1)
            | Inr (body, request) \<Rightarrow> serve env hc rq request body st1) in
      (ans, st2\<lparr>concurrent_requests := concurrent_requests st2 - 1\<rparr>))"

text \<open>The client has read the body to its end, or has gone.\<close>

definition body_dropped :: "answer option \<Rightarrow> 'c proxy_state \<Rightarrow> 'c proxy_state" where
  "body_dropped ans st = (case Option.bind ans holds of
       Some h \<Rightarrow> permit_dropped (hd_permit h) (guard_dropped (hd_ticket h) st)
     | None \<Rightarrow> st)"
end
