(* ===== verification/Handler_Correct.thy ===== *)
theory Handler_Correct
  imports Handler
begin

text \<open>
  What the request handler of \<open>Handler\<close> keeps: the accounting of gauge, permits and claims over every way
  a request can end, what is sent to a backend, which health marks a backend gets, and which answers may
  be streamed.
\<close>

section \<open>Frames\<close>

text \<open>From one state to another: gauge, permits and busy counters unchanged, \<open>new\<close> sent.\<close>

definition frame :: "outgoing list \<Rightarrow> 'c proxy_state \<Rightarrow> 'c proxy_state \<Rightarrow> bool" where
  "frame new st st' \<longleftrightarrow> concurrent_requests st' = concurrent_requests st \<and> permits st' = permits st
     \<and> loads (load_balancer_state st') = loads (load_balancer_state st)
     \<and> (\<exists>b. load_balancer_state st' = Single b) = (\<exists>b. load_balancer_state st = Single b)
     \<and> sent st' = sent st @ new"

lemma frame_refl [simp]: "frame [] st st"
  by (simp add: frame_def)

lemma frame_trans: "frame a st st1 \<Longrightarrow> frame b st1 st2 \<Longrightarrow> frame (a @ b) st st2"
  by (simp add: frame_def)

lemma frame_then: "frame a st st1 \<Longrightarrow> frame [] st1 st2 \<Longrightarrow> frame a st st2"
  using frame_trans [of a st st1 "[]" st2] by simp

lemma frame_after: "frame [] st st1 \<Longrightarrow> frame a st1 st2 \<Longrightarrow> frame a st st2"
  using frame_trans [of "[]" st st1 a st2] by simp

lemma frame_valid: "frame a st st' \<Longrightarrow> valid_ticket tk (load_balancer_state st) \<Longrightarrow> valid_ticket tk (load_balancer_state st')"
  by (auto simp: frame_def intro: valid_ticket_cong)

named_theorems frames

lemma frame_marked [frames]:
  "valid_ticket tk (load_balancer_state st) \<Longrightarrow> frame [] st (mark_backend_failed hk cfg tk st)"
  by (auto simp: frame_def mark_backend_failed_def Let_def loads_mark is_Single_on_node)

lemma frame_observed [frames]:
  "valid_ticket tk (load_balancer_state st) \<Longrightarrow> frame [] st (observe_backend_outcome hk cfg tk code st)"
  using frame_marked [of tk st hk cfg] by (auto simp: observe_backend_outcome_def frame_def loads_mark is_Single_on_node)

lemma frame_vram [frames]: "frame [] st (snd (handle_vram_estimate env body tk st))"
  by (auto simp: handle_vram_estimate_def frame_def Let_def split: prod.splits option.splits)

lemma frame_send: "frame [og] st (snd (send_to_backend env tk og st))"
  by (simp add: send_to_backend_def frame_def)

lemma frame_enriched_sample: "frame [] st (snd (enriched_sample env tk m st))"
  by (auto simp: enriched_sample_def frame_def Let_def split: prod.splits option.splits)

lemma frame_metrics [frames]: "frame [] st (emit_metrics env cfg tk response request st)"
proof -
  have "frame [] st st1" if "enriched_sample env tk m st = (m1, st1)" for m m1 st1
    using frame_enriched_sample [of st env tk m] that by simp
  then show ?thesis
    by (auto simp: emit_metrics_def Let_def frame_def split: option.splits prod.splits)
qed

lemma frame_reprompted [frames]: "reprompted env tk rq request a parsed st = Some (r, st') \<Longrightarrow> frame [] st st'"
  by (auto simp: reprompted_def frame_def split: option.splits if_splits)

lemma frame_non_streaming [frames]:
  "frame [] st (snd (handle_non_streaming_response env hc tk rq request w a resp st))"
proof -
  have "frame [] st1 (emit_metrics env cfg tk r request st1)" for cfg st1 r by (rule frame_metrics)
  then show ?thesis
    by (auto simp: handle_non_streaming_response_def Let_def split: sum.splits option.splits prod.splits
        dest!: frame_reprompted intro: frame_then)
qed

lemma frame_streaming [frames]: "frame [] st (snd (handle_streaming_response hc h resp st))"
  by (simp add: handle_streaming_response_def frame_def Let_def)

lemma frame_augmentation [frames]: "frame [] st (snd (augmentation_of env ab request st))"
  by (auto simp: augmentation_of_def frame_def Let_def split: option.splits prod.splits sum.splits)

lemma streaming_holds: "holds (fst (handle_streaming_response hc h resp st)) = Some h"
  by (simp add: handle_streaming_response_def Let_def)

lemma buffered_holds [simp]: "holds (buffered_answer env cfg w a resp response body d) = None"
  by (auto simp: buffered_answer_def synthesized_def Let_def split: option.splits sum.splits)

lemma non_streaming_holds: "Option.bind (fst (handle_non_streaming_response env hc tk rq request w a resp st)) holds = None"
  by (auto simp: handle_non_streaming_response_def Let_def split: sum.splits option.splits prod.splits)

section \<open>The exchange with the backend\<close>

lemma frame_deliver:
  assumes "valid_ticket (hd_ticket h) (load_balancer_state st)"
  shows "frame [] st (snd (deliver env hc h rq request a x resp st))"
    "Option.bind (fst (deliver env hc h rq request a x resp st)) holds \<in> {None, Some h}"
proof -
  let ?st1 = "observe_backend_outcome (he_health env) (hc_config hc) (hd_ticket h) (br_status resp) st"
  have o: "frame [] st ?st1" by (rule frame_observed [OF assms])
  then have f: "frame [] st (?st1\<lparr>backend_streaming_fallback_hits := n\<rparr>)" "frame [] st (?st1\<lparr>backend_nonsse_when_streamed_for := m\<rparr>)"
    for n m by (simp_all add: frame_def)
  show "frame [] st (snd (deliver env hc h rq request a x resp st))"
    by (simp add: deliver_def Let_def split_beta frame_then [OF o frame_streaming] frame_then [OF o frame_non_streaming]
        frame_then [OF f(1) frame_streaming] frame_then [OF f(2) frame_non_streaming])
  show "Option.bind (fst (deliver env hc h rq request a x resp st)) holds \<in> {None, Some h}"
    by (simp add: deliver_def Let_def split_beta streaming_holds non_streaming_holds)
qed

lemma exchange_cases:
  assumes "valid_ticket (hd_ticket h) (load_balancer_state st)"
  shows "\<exists>new. frame new st (snd (exchange env hc h rq request bytes a st))
    \<and> (new = [] \<or> (\<exists>b. new = [outgoing_request (node_of (hd_ticket h) (load_balancer_state st)) rq b]))
    \<and> Option.bind (fst (exchange env hc h rq request bytes a st)) holds \<in> {None, Some h}"
proof -
  let ?node = "node_of (hd_ticket h) (load_balancer_state st)" and ?p = "is_passthrough (ac_streaming (hc_config hc))"
  define st1 where "st1 = (if ?p \<and> a
      then st\<lparr>anthropic_buffered_responses_total := anthropic_buffered_responses_total st + 1, anthropic_buffered_notice_once := True\<rparr> else st)"
  have f1: "frame [] st st1" by (simp add: st1_def frame_def)
  show ?thesis
  proof (cases "apply_backend_overrides_bytes (he_serde env) bytes ?node (?p \<and> \<not> a) (rq_path rq)")
    case None
    then have "exchange env hc h rq request bytes a st = (None, st1)" by (simp add: exchange_def Let_def st1_def)
    with f1 show ?thesis by auto
  next
    case (Some bs)
    obtain b s where bs: "bs = (b, s)" by fastforce
    define st2 where "st2 = (if (?p \<and> \<not> a) \<and> s
        then st1\<lparr>openai_stream_passthrough_total := openai_stream_passthrough_total st1 + 1\<rparr> else st1)"
    define og where "og = outgoing_request ?node rq b"
    have f2: "frame [] st st2" using f1 by (simp add: st2_def frame_def)
    obtain r st3 where send: "send_to_backend env (hd_ticket h) og st2 = (r, st3)" by fastforce
    then have f3: "frame [og] st st3" using frame_after [OF f2 frame_send] by (metis snd_conv)
    note v = frame_valid [OF f3 assms]
    have e: "exchange env hc h rq request bytes a st = (case (r, st3) of
        (Inl e, st3) \<Rightarrow> (Some (Buffered (json_reply 502 [] (err_envelope ''backend_connect_error'' (''Failed to connect to backend: '' @ e)))),
                mark_backend_failed (he_health env) (hc_config hc) (hd_ticket h) st3)
      | (Inr resp, st3) \<Rightarrow> deliver env hc h rq request a ((?p \<and> \<not> a) \<and> s) resp st3)"
      unfolding send [symmetric] by (simp only: exchange_def Let_def Some bs option.case prod.case st1_def st2_def og_def)
    show ?thesis
    proof (cases r)
      case (Inl err)
      with e frame_then [OF f3 frame_marked [OF v]] show ?thesis by (auto simp: og_def)
    next
      case (Inr resp)
      define x where "x = deliver env hc h rq request a ((?p \<and> \<not> a) \<and> s) resp st3"
      have "frame [og] st (snd x)" "Option.bind (fst x) holds \<in> {None, Some h}"
        unfolding x_def by (rule frame_then [OF f3 frame_deliver(1) [OF v]], rule frame_deliver(2) [OF v])
      moreover have "exchange env hc h rq request bytes a st = x" using e Inr by (simp add: x_def)
      ultimately show ?thesis by (auto simp: og_def)
    qed
  qed
qed

lemma augment_cases:
  assumes "valid_ticket (hd_ticket h) (load_balancer_state st)"
  shows "\<exists>new. frame new st (snd (augment_and_exchange env hc h rq request body a st))
    \<and> (new = [] \<or> (\<exists>b. new = [outgoing_request (node_of (hd_ticket h) (load_balancer_state st)) rq b]))
    \<and> Option.bind (fst (augment_and_exchange env hc h rq request body a st)) holds \<in> {None, Some h}"
proof -
  obtain g st1 where g: "augmentation_of env (hc_augment hc) request st = (g, st1)" by fastforce
  have f: "frame [] st st1" using frame_augmentation [of st env "hc_augment hc" request] g by simp
  have lb: "load_balancer_state st1 = load_balancer_state st"
    using g by (auto simp: augmentation_of_def Let_def split: option.splits prod.splits sum.splits if_splits)
  have "valid_ticket (hd_ticket h) (load_balancer_state st1)" using assms lb by simp
  note x = exchange_cases [OF this, of env hc rq request _ a, unfolded lb]
  show ?thesis
  proof (cases "\<exists>r. g = AugmentFailed r")
    case True
    with f g show ?thesis by (auto simp: augment_and_exchange_def)
  next
    case False
    then have e: "augment_and_exchange env hc h rq request body a st = (case enriched_body env a request body g of
         None \<Rightarrow> (None, st1) | Some bytes \<Rightarrow> exchange env hc h rq request bytes a st1)"
      using g by (cases g) (simp_all add: augment_and_exchange_def)
    show ?thesis
    proof (cases "enriched_body env a request body g")
      case None
      with e f show ?thesis by auto
    next
      case (Some bytes)
      with e have "augment_and_exchange env hc h rq request body a st = exchange env hc h rq request bytes a st1" by simp
      then show ?thesis using x [of bytes] frame_after [OF f] by metis
    qed
  qed
qed

section \<open>What is sent\<close>

text \<open>No \<^verbatim>\<open>host\<close> header, and no authorisation but the node's own key.\<close>

definition confined :: "string option \<Rightarrow> outgoing \<Rightarrow> bool" where
  "confined key og \<longleftrightarrow> ''host'' \<notin> fst ` set (og_headers og)
     \<and> (\<forall>v. (''authorization'', v) \<in> set (og_headers og) \<longrightarrow> (\<exists>k. key = Some k \<and> v = ''Bearer '' @ k))"

lemma confined_with_auth:
  "\<forall>(name, v) \<in> set hs. name \<noteq> ''host'' \<and> name \<noteq> ''authorization'' \<Longrightarrow> og_headers og = with_auth hs key \<Longrightarrow> confined key og"
  by (auto simp: confined_def with_auth_def split: option.splits)

lemma confined_outgoing: "confined (n_api_key node) (outgoing_request node rq b)"
  by (rule confined_with_auth [where hs = "filter (\<lambda>(name, v). forwards_to_backend name) (rq_headers rq)"])
    (auto simp: outgoing_request_def forwards_to_backend_def)

lemma passthrough_cases:
  assumes "valid_ticket tk (load_balancer_state st)"
  shows "\<exists>new. frame new st (snd (proxy_passthrough env cfg tk rq st))
    \<and> (new = [] \<or> (\<exists>og. new = [og] \<and> og_method og = rq_method rq \<and> confined (n_api_key (node_of tk (load_balancer_state st))) og))"
proof (cases "he_to_bytes env (rq_body rq) (1024 * 1024 * 10)")
  case (Inl e)
  then show ?thesis by (intro exI [of _ "[]"]) (simp add: proxy_passthrough_def Let_def)
next
  case (Inr body)
  let ?node = "node_of tk (load_balancer_state st)"
  define og where "og = \<lparr>og_url = backend_url ?node (rq_path rq) (rq_query rq), og_method = rq_method rq,
      og_headers = with_auth (passthrough_headers (rq_headers rq)) (n_api_key ?node), og_body = body\<rparr>"
  obtain r st1 where send: "send_to_backend env tk og st = (r, st1)" by fastforce
  then have f: "frame [og] st st1" using frame_send [of og st env tk] by simp
  note v = frame_valid [OF f assms]
  have "confined (n_api_key ?node) og"
    by (rule confined_with_auth [where hs = "passthrough_headers (rq_headers rq)"]) (auto simp: og_def passthrough_headers_def)
  moreover have "og_method og = rq_method rq" by (simp add: og_def)
  moreover have "frame [og] st (snd (proxy_passthrough env cfg tk rq st))"
    using Inr send frame_then [OF f frame_marked [OF v]] frame_then [OF f frame_observed [OF v]]
    by (cases r) (simp_all add: proxy_passthrough_def Let_def og_def)
  ultimately show ?thesis by blast
qed

lemma route_cases:
  assumes "valid_ticket tk (load_balancer_state st)"
  shows "\<exists>new. frame new st (snd (route env cfg tk rq body st))
    \<and> (new = [] \<or> (\<exists>og. new = [og] \<and> og_method og = ''GET'' \<and> confined (n_api_key (node_of tk (load_balancer_state st))) og))
    \<and> (\<forall>b. fst (route env cfg tk rq body st) = Forward b \<longrightarrow> new = [] \<and> snd (route env cfg tk rq body st) = st)"
proof -
  let ?rq = "rq\<lparr>rq_headers := reinserted (rq_headers rq), rq_body := body\<rparr>"
  let ?routed = "effective_path (node_of tk (load_balancer_state st)) (rq_path rq)"
  define vram where "vram \<longleftrightarrow> rq_method rq = ''POST'' \<and> (is_vram_estimate_path (rq_path rq) \<or> is_vram_estimate_path ?routed)"
  define monitors where "monitors \<longleftrightarrow> ?routed \<in> set [''/props'', ''/slots'', ''/v1/health'', ''/v1/models'', ''/metrics'']"
  have e: "route env cfg tk rq body st =
      (if vram then (let (r, st1) = handle_vram_estimate env body tk st in (Handled r, st1))
       else if rq_method rq = ''GET'' \<and> monitors then (let (r, st1) = proxy_passthrough env cfg tk ?rq st in (Handled r, st1))
       else if rq_method rq = ''GET'' \<and> ?routed = ''/proxy/metrics'' then (Handled (metrics_reply st), st)
       else (Forward body, st))"
    by (simp only: route_def Let_def vram_def monitors_def)
  consider "vram" | "\<not> vram" "rq_method rq = ''GET''" "monitors" | "\<not> vram" "\<not> (rq_method rq = ''GET'' \<and> monitors)" by blast
  then show ?thesis
  proof cases
    case 1
    with frame_vram [of st env body tk] show ?thesis
      unfolding e by (intro exI [of _ "[]"]) (simp add: split_beta Let_def)
  next
    case 2
    with passthrough_cases [OF assms, of env cfg ?rq] show ?thesis
      unfolding e by (auto simp: split_beta Let_def)
  next
    case 3
    then show ?thesis unfolding e by (intro exI [of _ "[]"]) auto
  qed
qed

text \<open>Keys of all nodes; the claimed node is one of them.\<close>

definition api_keys :: "'c dispatcher \<Rightarrow> string option set" where
  "api_keys d = (\<Union>b \<in> set (balancers d). n_api_key ` set (balancer_nodes b))"

lemma dispatch_key:
  assumes "dispatcher_bounded d" "dispatch now d model = Some (Inr tk, d')"
  shows "n_api_key (node_of tk d') \<in> api_keys d"
proof (cases d)
  case (Single b)
  with assms obtain g b' where s: "balancer_select now b = Some (g, b')" "tk_group tk = 0" "tk_node tk = g_node g" "d' = Single b'"
    by (auto simp: dispatch_def)
  have lb: "loads_bounded (balancer_nodes b)" using assms(1) Single by (simp add: dispatcher_bounded_def balancers_def)
  from any.select_claims [OF lb s(1)] s Single show ?thesis
    by (auto simp: api_keys_def node_of_def balancers_def claim_at_def claim_def)
next
  case (Grouped gs)
  with assms obtain i g gs' where s: "grouped_select now gs model = Some (Inr (i, g), gs')" "tk_group tk = i" "tk_node tk = g_node g"
    "d' = Grouped gs'" by (auto simp: dispatch_def map_sum_eq)
  from s(1) obtain g0 b' where g: "find_group gs model = Some i" "balancer_select now (bg_balancer (gs ! i)) = Some (g0, b')"
    "g_node g = g_node g0" "gs' = gs[i := (gs ! i)\<lparr>bg_balancer := b'\<rparr>]"
    by (auto simp: grouped_select_def split: option.splits)
  have i: "i < length gs" using g(1) by (auto simp: find_group_def or_else_def find_index_Some split: option.splits)
  then have "gs ! i \<in> set gs" by simp
  have lb: "loads_bounded (balancer_nodes (bg_balancer (gs ! i)))"
    using assms(1) Grouped i by (simp add: dispatcher_bounded_def balancers_def list_all_length)
  from any.select_claims [OF lb g(2)] s g i \<open>gs ! i \<in> set gs\<close> Grouped show ?thesis
    by (auto simp: api_keys_def node_of_def balancers_def claim_at_def claim_def intro!: bexI [of _ "gs ! i"])
qed

section \<open>The scopes\<close>

text \<open>A scope is left: nothing kept unless the answer's body keeps it, and then at most one permit.\<close>

definition left_with :: "held option \<Rightarrow> nat option \<Rightarrow> nat option \<Rightarrow> bool" where
  "left_with kept before after = (case kept of
       Some h \<Rightarrow> if hd_permit h then \<exists>n. before = Some (Suc n) \<and> after = Some n else after = before
     | None \<Rightarrow> after = before)"

lemma admit_cases:
  "admit cfg st = (AtCapacity, st1) \<Longrightarrow> 0 < sc_max_concurrent_requests (ac_server cfg) \<and> permits st = Some 0 \<and> frame [] st st1"
  "admit cfg st = (Admitted taken, st1) \<Longrightarrow>
     (if taken then \<exists>n. permits st = Some (Suc n) \<and> st1 = st\<lparr>permits := Some n\<rparr> else st1 = st)
     \<and> \<not> (0 < sc_max_concurrent_requests (ac_server cfg) \<and> permits st = Some 0)"
  by (auto simp: admit_def frame_def split: if_splits option.splits nat.splits)

lemma keeps_body_iff: "keeps_body ans \<longleftrightarrow> Option.bind ans holds \<noteq> None"
  by (cases ans) (simp_all add: keeps_body_def)

lemma forward_cases:
  fixes st :: "'c proxy_state"
  assumes "valid_ticket tk (load_balancer_state st)" "forward env hc tk rq request body a st = (ans, st')"
  shows "\<exists>new. frame new (st\<lparr>permits := permits st'\<rparr>) st'
    \<and> (new = [] \<or> (\<exists>b. new = [outgoing_request (node_of tk (load_balancer_state st)) rq b])
         \<and> \<not> (0 < sc_max_concurrent_requests (ac_server (hc_config hc)) \<and> permits st = Some 0))
    \<and> is_none_or (\<lambda>h. hd_ticket h = tk) (Option.bind ans holds)
    \<and> left_with (Option.bind ans holds) (permits st) (permits st')"
proof (cases "admit (hc_config hc) st")
  case (Pair d st1)
  show ?thesis
  proof (cases d)
    case AtCapacity
    with Pair assms(2) have "ans = Some (Buffered (at_capacity_response (sc_max_concurrent_requests (ac_server (hc_config hc)))))" "st' = st1"
      by (simp_all add: forward_def)
    with admit_cases(1) [of "hc_config hc" st st1] Pair AtCapacity show ?thesis
      by (intro exI [of _ "[]"]) (simp add: left_with_def frame_def)
  next
    case (Admitted taken)
    let ?h = "\<lparr>hd_ticket = tk, hd_permit = taken\<rparr>"
    note adm = admit_cases(2) [OF Pair [unfolded Admitted]]
    have lb: "load_balancer_state st1 = load_balancer_state st" "concurrent_requests st1 = concurrent_requests st" "sent st1 = sent st"
      using adm by (auto split: if_splits)
    obtain ans2 st2 where x: "augment_and_exchange env hc ?h rq request body a st1 = (ans2, st2)" by fastforce
    have "valid_ticket (hd_ticket ?h) (load_balancer_state st1)" using assms(1) lb by simp
    from augment_cases [OF this, of env hc rq request body a] x lb obtain new where
      n: "frame new st1 st2" "new = [] \<or> (\<exists>b. new = [outgoing_request (node_of tk (load_balancer_state st)) rq b])"
      "Option.bind ans2 holds \<in> {None, Some ?h}" by auto
    have r: "ans = ans2" "st' = (if keeps_body ans2 then st2 else permit_dropped taken st2)"
      using assms(2) Pair Admitted x by (auto simp: forward_def)
    have "frame new (st\<lparr>permits := permits st'\<rparr>) st'" using n(1) r lb by (auto simp: frame_def permit_dropped_def)
    moreover have "left_with (Option.bind ans holds) (permits st) (permits st')"
      using n(1,3) r adm by (auto simp: left_with_def keeps_body_iff permit_dropped_def frame_def split: if_splits)
    ultimately show ?thesis using n r adm by auto
  qed
qed

text \<open>One request served on a claimed backend; \<open>new\<close> is what it sent.\<close>

definition may_send :: "'c handler_config \<Rightarrow> 'c proxy_state \<Rightarrow> outgoing list \<Rightarrow> bool" where
  "may_send hc st new \<longleftrightarrow> length new \<le> 1 \<and> (\<forall>og \<in> set new. (\<exists>key \<in> api_keys (load_balancer_state st). confined key og)
     \<and> (0 < sc_max_concurrent_requests (ac_server (hc_config hc)) \<and> permits st = Some 0 \<longrightarrow> og_method og = ''GET''))"

lemma serve_cases:
  fixes st :: "'c proxy_state"
  assumes "dispatcher_bounded (load_balancer_state st)" "serve env hc rq request body st = (ans, st')"
  shows "\<exists>new. concurrent_requests st' = concurrent_requests st \<and> sent st' = sent st @ new \<and> may_send hc st new
    \<and> left_with (Option.bind ans holds) (permits st) (permits st')
    \<and> (case Option.bind ans holds of
         None \<Rightarrow> loads (load_balancer_state st') = loads (load_balancer_state st)
       | Some h \<Rightarrow> loads (load_balancer_state st') = bump (\<lambda>x. x + 1) (hd_ticket h) (loads (load_balancer_state st))
           \<and> loads (release (hd_ticket h) (load_balancer_state st')) = loads (load_balancer_state st))"
proof (cases "dispatch (he_select_at env) (load_balancer_state st) (Option.bind request (\<lambda>j. get_str j ''model''))")
  case None
  with assms(2) show ?thesis by (intro exI [of _ "[]"]) (simp add: serve_def Let_def left_with_def may_send_def)
next
  case (Some rd)
  obtain r d where rd: "rd = (r, d)" by fastforce
  show ?thesis
  proof (cases r)
    case (Inl e)
    with Some rd dispatch_refused have "d = load_balancer_state st" by blast
    with assms(2) Some rd Inl show ?thesis
      by (intro exI [of _ "[]"]) (auto simp: serve_def Let_def left_with_def may_send_def)
  next
    case (Inr tk)
    note claims = dispatch_claims [OF assms(1) Some [unfolded rd Inr]]
    note key = dispatch_key [OF assms(1) Some [unfolded rd Inr]]
    define st1 where "st1 = st\<lparr>load_balancer_state := d\<rparr>"
    define an where "an = (starts_with (rq_path rq) ''/v1/messages'' \<or> starts_with (effective_path (node_of tk d) (rq_path rq)) ''/v1/messages'')"
    have v: "valid_ticket tk (load_balancer_state st1)" using claims by (simp add: st1_def)
    obtain dec st2 where rt: "route env (hc_config hc) tk rq body st1 = (dec, st2)" by fastforce
    from route_cases [OF v, of env "hc_config hc" rq body] rt obtain new1 where
      n1: "frame new1 st1 st2" "new1 = [] \<or> (\<exists>og. new1 = [og] \<and> og_method og = ''GET'' \<and> confined (n_api_key (node_of tk d)) og)"
      "\<And>b. dec = Forward b \<Longrightarrow> new1 = [] \<and> st2 = st1" by (auto simp: st1_def)
    define x where "x = (case dec of Handled r \<Rightarrow> (Some (Buffered r), st2) | Forward b \<Rightarrow> forward env hc tk rq request b an st2)"
    obtain ans3 st3 where x3: "x = (ans3, st3)" by fastforce
    have "serve env hc rq request body st = (case x of (a, s) \<Rightarrow> (a, if keeps_body a then s else guard_dropped tk s))"
      by (simp only: serve_def Let_def Some rd Inr option.case prod.case sum.case st1_def [symmetric] rt an_def x_def)
    with assms(2) x3 have res: "ans = ans3" "st' = (if keeps_body ans3 then st3 else guard_dropped tk st3)" by auto
    have main: "\<exists>new. frame new (st1\<lparr>permits := permits st3\<rparr>) st3 \<and> may_send hc st new
        \<and> is_none_or (\<lambda>h. hd_ticket h = tk) (Option.bind ans3 holds) \<and> left_with (Option.bind ans3 holds) (permits st) (permits st3)"
    proof (cases dec)
      case (Handled rep)
      with x3 have "ans3 = Some (Buffered rep)" "st3 = st2" by (simp_all add: x_def)
      with n1(1,2) key show ?thesis
        by (intro exI [of _ new1]) (auto simp: left_with_def may_send_def frame_def st1_def)
    next
      case (Forward b)
      with n1(3) x3 have "forward env hc tk rq request b an st1 = (ans3, st3)" by (simp add: x_def)
      from forward_cases [OF v this] key confined_outgoing show ?thesis
        by (fastforce simp: st1_def may_send_def)
    qed
    then obtain new where n: "frame new (st1\<lparr>permits := permits st3\<rparr>) st3" "may_send hc st new"
      "is_none_or (\<lambda>h. hd_ticket h = tk) (Option.bind ans3 holds)" "left_with (Option.bind ans3 holds) (permits st) (permits st3)" by blast
    have l3: "loads (load_balancer_state st3) = bump (\<lambda>x. x + 1) tk (loads (load_balancer_state st))"
      using n(1) claims by (simp add: frame_def st1_def)
    have v3: "valid_ticket tk (load_balancer_state st3)"
      using frame_valid [OF n(1)] v by simp
    have rel: "loads (release tk (load_balancer_state st3)) = loads (load_balancer_state st)"
      by (rule release_undoes [OF v3 l3]) (use claims in simp)
    show ?thesis
      using n res l3 rel by (intro exI [of _ new]) (auto simp: keeps_body_iff guard_dropped_def frame_def st1_def split: option.splits)
  qed
qed

section \<open>Answers and health marks\<close>

lemma buffered_stream_success:
  "buffered_answer env cfg w a resp response body d = ans \<Longrightarrow> ans = Chunks cs \<or> ans = Frames fs \<Longrightarrow> is_success (br_status resp)"
  by (auto simp: buffered_answer_def Let_def split: option.splits if_splits)

lemma deliver_stream_success:
  assumes "fst (deliver env hc h rq request a x resp st) = Some ans" "ans = Chunks cs \<or> ans = Frames fs"
  shows "is_success (br_status resp)"
proof (cases "is_event_stream resp")
  case True
  then have "fst (deliver env hc h rq request a x resp st) = Some (fst (handle_streaming_response hc h resp
      (let st1 = observe_backend_outcome (he_health env) (hc_config hc) (hd_ticket h) (br_status resp) st in
       if x then st1 else st1\<lparr>backend_streaming_fallback_hits := backend_streaming_fallback_hits st1 + 1\<rparr>)))"
    by (simp add: deliver_def Let_def split_beta)
  with assms(1) have "holds ans = Some h" using streaming_holds by (metis option.inject)
  with assms(2) show ?thesis by auto
next
  case False
  with assms obtain st2 w where
    n: "fst (handle_non_streaming_response env hc (hd_ticket h) rq request w a resp st2) = Some ans"
    by (auto simp: deliver_def Let_def split_beta)
  then show ?thesis
    using assms(2) buffered_stream_success
    by (fastforce simp: handle_non_streaming_response_def Let_def split: sum.splits option.splits prod.splits)
qed

lemma lb_non_streaming [simp]:
  "load_balancer_state (snd (handle_non_streaming_response env hc tk rq request w a resp st)) = load_balancer_state st"
proof -
  have e: "load_balancer_state (snd (enriched_sample env tk m s)) = load_balancer_state s" for m and s :: "'a proxy_state"
    by (auto simp: enriched_sample_def Let_def split: prod.splits option.splits)
  have m: "load_balancer_state (emit_metrics env cfg tk r request s) = load_balancer_state s" for cfg r and s :: "'a proxy_state"
  proof -
    have "load_balancer_state s1 = load_balancer_state s" if "enriched_sample env tk x s = (y, s1)" for x y s1
      using e [of x s] that by simp
    then show ?thesis by (auto simp: emit_metrics_def Let_def split: option.splits prod.splits)
  qed
  have "reprompted env tk rq request a p s = Some (r, s') \<Longrightarrow> load_balancer_state s' = load_balancer_state s" for p r and s s' :: "'a proxy_state"
    by (auto simp: reprompted_def split: option.splits if_splits)
  with m show ?thesis
    by (auto simp: handle_non_streaming_response_def Let_def split: sum.splits option.splits prod.splits)
qed

lemma lb_streaming [simp]: "load_balancer_state (snd (handle_streaming_response hc h resp st)) = load_balancer_state st"
  by (simp add: handle_streaming_response_def Let_def)

lemma lb_deliver:
  "load_balancer_state (snd (deliver env hc h rq request a x resp st)) =
     load_balancer_state (observe_backend_outcome (he_health env) (hc_config hc) (hd_ticket h) (br_status resp) st)"
  by (simp add: deliver_def Let_def split_beta)

lemma node_of_on_node:
  assumes "valid_ticket tk d"
  shows "node_of tk (on_node f tk d) = f (node_of tk d)"
  using assms unfolding node_of_def balancers_on_node [OF assms] by (auto simp: valid_ticket_def loads_def)

text \<open>The mark a backend gets for one forwarded request.\<close>

definition outcome_mark :: "health_clock \<Rightarrow> duration \<Rightarrow> (backend_reply, string) result \<Rightarrow> 'c backend_node \<Rightarrow> 'c backend_node" where
  "outcome_mark hk cooldown answer n =
     (let failed = mark_failed (hk_max hk) (hk_now hk) cooldown n in
      case answer of
        Inl e \<Rightarrow> failed
      | Inr resp \<Rightarrow>
          if br_status resp = 429 \<or> is_server_error (br_status resp) then failed
          else if is_success (br_status resp) then mark_healthy n else n)"

lemma node_of_observed:
  "valid_ticket tk (load_balancer_state st) \<Longrightarrow>
     node_of tk (load_balancer_state (observe_backend_outcome hk cfg tk (br_status resp) st)) =
       outcome_mark hk (failure_cooldown cfg (tk_name tk)) (Inr resp) (node_of tk (load_balancer_state st))"
  by (simp add: observe_backend_outcome_def mark_backend_failed_def outcome_mark_def Let_def node_of_on_node)

section \<open>Properties\<close>

text \<open>C28. The accounting of a request survives every way it can end: an error reply, a refusal, a buffered or
  streamed answer, and a panic in the middle. When the handler returns the gauge is where it was. Once the
  answer's body is gone, so are all permits and the busy counter of every node of every group; until then a
  streamed answer holds exactly one claim, on one node, and the permit it took, if it took one; any other
  answer holds nothing.\<close>

theorem handle_accounting:
  assumes "dispatcher_bounded (load_balancer_state st)"
  shows "case handle env hc rq st of (ans, st') \<Rightarrow>
    concurrent_requests st' = concurrent_requests st
    \<and> permits (body_dropped ans st') = permits st
    \<and> loads (load_balancer_state (body_dropped ans st')) = loads (load_balancer_state st)
    \<and> (case Option.bind ans holds of
         None \<Rightarrow> body_dropped ans st' = st'
       | Some h \<Rightarrow> loads (load_balancer_state st') = bump (\<lambda>x. x + 1) (hd_ticket h) (loads (load_balancer_state st))
           \<and> permits st = (if hd_permit h then map_option Suc (permits st') else permits st'))"
proof -
  let ?st1 = "st\<lparr>concurrent_requests := concurrent_requests st + 1\<rparr>"
  show ?thesis
  proof (cases "prepare_request env (rq_body rq)")
    case (Inl r)
    then show ?thesis by (simp add: handle_def Let_def body_dropped_def)
  next
    case (Inr p)
    obtain body request where p: "p = (body, request)" by fastforce
    obtain ans st2 where s: "serve env hc rq request body ?st1 = (ans, st2)" by fastforce
    have b: "dispatcher_bounded (load_balancer_state ?st1)" using assms by simp
    note c = serve_cases [OF b s]
    have h: "handle env hc rq st = (ans, st2\<lparr>concurrent_requests := concurrent_requests st2 - 1\<rparr>)"
      using Inr p s by (simp add: handle_def)
    show ?thesis
      using c by (cases "Option.bind ans holds")
        (auto simp: h body_dropped_def permit_dropped_def guard_dropped_def left_with_def split: if_splits)
  qed
qed

definition sample_proxy :: "unit proxy_state" where
  "sample_proxy = \<lparr>load_balancer_state = Single (PF \<lparr>pf_nodes = [sample_node ''u'' 0 True 0], pf_all_cooled_fallbacks = 0\<rparr>),
     concurrent_requests = 0, backend_streaming_fallback_hits = 0, openai_stream_passthrough_total = 0,
     backend_nonsse_when_streamed_for = 0, anthropic_buffered_responses_total = 0, anthropic_buffered_notice_once = False,
     vram_estimate_served_total = 0, vram_estimate_unknown_total = 0, rejected_requests = 0, permits = Some 2,
     stream_stats = \<lparr>sse_events_total = 0, sse_unparsed_events_total = 0, stream_truncated_total = 0, stream_stalled_total = 0,
       fix_unrepaired_total = 0, stream_compressed_total = 0, stream_client_gone_total = 0, passthrough_streams_total = 0\<rparr>,
     context_windows = cold_state, kv_cache = \<lparr>kv_info = Map.empty, kv_warned = []\<rparr>, reprompt_state = None,
     reprompt_totals = \<lparr>skipped_read_only_total = 0, triggered_total = 0, exhausted_total = 0\<rparr>, prompt_store = Map.empty,
     exports = \<lparr>exports_skipped_total = 0, prefill_implausible_total = 0\<rparr>, sent = [], exported = []\<rparr>"

lemma sample_proxy_bounded: "dispatcher_bounded (load_balancer_state sample_proxy)"
  by (simp add: sample_proxy_def dispatcher_bounded_def balancers_def loads_bounded_def sample_node_def word_less_nat_alt)

theorem handle_accounting_witness:
  "\<forall>(env :: (unit, unit) handler_env) hc rq. case handle env hc rq sample_proxy of (ans, st') \<Rightarrow>
     concurrent_requests st' = 0 \<and> permits (body_dropped ans st') = Some 2
     \<and> loads (load_balancer_state (body_dropped ans st')) = [[0]]"
proof (intro allI)
  fix env :: "(unit, unit) handler_env" and hc rq
  have "concurrent_requests sample_proxy = 0" "permits sample_proxy = Some 2" "loads (load_balancer_state sample_proxy) = [[0]]"
    by (simp_all add: sample_proxy_def loads_def balancers_def sample_node_def)
  with handle_accounting [OF sample_proxy_bounded, of env hc rq]
  show "case handle env hc rq sample_proxy of (ans, st') \<Rightarrow>
     concurrent_requests st' = 0 \<and> permits (body_dropped ans st') = Some 2
     \<and> loads (load_balancer_state (body_dropped ans st')) = [[0]]" by auto
qed

text \<open>C29. What reaches a backend. One client request leads to at most one request of the handler's own to a
  backend, made with the node's key or none: no authorisation of the client and no host header is passed
  on, whichever route is taken. With the limit armed and no permit free only monitoring \<^verbatim>\<open>GET\<close>s are sent.\<close>

theorem handle_sends_confined:
  assumes "dispatcher_bounded (load_balancer_state st)"
  shows "\<exists>new. sent (snd (handle env hc rq st)) = sent st @ new \<and> length new \<le> 1
    \<and> (\<forall>og \<in> set new. (\<exists>key \<in> api_keys (load_balancer_state st). confined key og)
         \<and> (0 < sc_max_concurrent_requests (ac_server (hc_config hc)) \<and> permits st = Some 0 \<longrightarrow> og_method og = ''GET''))"
proof (cases "prepare_request env (rq_body rq)")
  case (Inl r)
  then show ?thesis by (intro exI [of _ "[]"]) (simp add: handle_def Let_def)
next
  case (Inr p)
  let ?st1 = "st\<lparr>concurrent_requests := concurrent_requests st + 1\<rparr>"
  obtain body request where p: "p = (body, request)" by fastforce
  obtain ans st2 where s: "serve env hc rq request body ?st1 = (ans, st2)" by fastforce
  have b: "dispatcher_bounded (load_balancer_state ?st1)" using assms by simp
  have h: "handle env hc rq st = (ans, st2\<lparr>concurrent_requests := concurrent_requests st2 - 1\<rparr>)"
    using Inr p s by (simp add: handle_def)
  from serve_cases [OF b s] show ?thesis by (auto simp: h may_send_def)
qed

theorem handle_sends_confined_witness:
  "\<forall>(env :: (unit, unit) handler_env) hc rq. length (sent (snd (handle env hc rq sample_proxy))) \<le> 1
     \<and> (\<forall>og \<in> set (sent (snd (handle env hc rq sample_proxy))). ''authorization'' \<notin> fst ` set (og_headers og))"
proof (intro allI)
  fix env :: "(unit, unit) handler_env" and hc rq
  have "sent sample_proxy = []" "api_keys (load_balancer_state sample_proxy) = {None}"
    by (simp_all add: sample_proxy_def api_keys_def balancers_def sample_node_def)
  with handle_sends_confined [OF sample_proxy_bounded, of env hc rq]
  show "length (sent (snd (handle env hc rq sample_proxy))) \<le> 1
     \<and> (\<forall>og \<in> set (sent (snd (handle env hc rq sample_proxy))). ''authorization'' \<notin> fst ` set (og_headers og))"
    by (auto simp: confined_def)
qed

text \<open>A backend is marked by what it did, and an error is never turned into a stream. For a request the
  override step lets through, the node's health after the exchange is decided by the transport result and
  the status alone: a failed connection, a 429 or a 5xx starts the group's cooldown, a 2xx ends it,
  anything else leaves it. A synthesised stream is answered only over a 2xx of the backend.\<close>

theorem exchange_marks_backend:
  assumes "valid_ticket (hd_ticket h) (load_balancer_state st)"
    and "node = node_of (hd_ticket h) (load_balancer_state st)"
    and "apply_backend_overrides_bytes (he_serde env) bytes node (is_passthrough (ac_streaming (hc_config hc)) \<and> \<not> a) (rq_path rq) = Some (b, s)"
    and "answer = he_send env (n_http_client node) (outgoing_request node rq b)"
    and "exchange env hc h rq request bytes a st = (ans, st')"
  shows "node_of (hd_ticket h) (load_balancer_state st') =
      outcome_mark (he_health env) (failure_cooldown (hc_config hc) (tk_name (hd_ticket h))) answer node
    \<and> ((\<exists>cs. ans = Some (Chunks cs)) \<or> (\<exists>fs. ans = Some (Frames fs)) \<longrightarrow> (\<exists>resp. answer = Ok resp \<and> is_success (br_status resp)))"
proof -
  let ?p = "is_passthrough (ac_streaming (hc_config hc))"
  define st1 where "st1 = (if ?p \<and> a
      then st\<lparr>anthropic_buffered_responses_total := anthropic_buffered_responses_total st + 1, anthropic_buffered_notice_once := True\<rparr> else st)"
  define st2 where "st2 = (if (?p \<and> \<not> a) \<and> s
      then st1\<lparr>openai_stream_passthrough_total := openai_stream_passthrough_total st1 + 1\<rparr> else st1)"
  define st3 where "st3 = st2\<lparr>sent := sent st2 @ [outgoing_request node rq b]\<rparr>"
  have lb: "load_balancer_state st2 = load_balancer_state st" by (simp add: st2_def st1_def)
  then have lb3: "load_balancer_state st3 = load_balancer_state st" by (simp add: st3_def)
  have send: "send_to_backend env (hd_ticket h) (outgoing_request node rq b) st2 = (answer, st3)"
    by (simp add: send_to_backend_def lb st3_def assms(2,4))
  have e: "exchange env hc h rq request bytes a st = (case answer of
        Inl e \<Rightarrow> (Some (Buffered (json_reply 502 [] (err_envelope ''backend_connect_error'' (''Failed to connect to backend: '' @ e)))),
                mark_backend_failed (he_health env) (hc_config hc) (hd_ticket h) st3)
      | Inr resp \<Rightarrow> deliver env hc h rq request a ((?p \<and> \<not> a) \<and> s) resp st3)"
    using assms(3) send unfolding exchange_def Let_def assms(2) [symmetric] st1_def [symmetric]
    by (simp only: option.case prod.case st2_def split: sum.splits)
  have v: "valid_ticket (hd_ticket h) (load_balancer_state st3)" using assms(1) lb3 by simp
  show ?thesis
  proof (cases answer)
    case (Inl err)
    with e assms(5) v show ?thesis
      by (auto simp: mark_backend_failed_def outcome_mark_def Let_def node_of_on_node lb3 assms(2))
  next
    case (Inr resp)
    define x where "x = deliver env hc h rq request a ((?p \<and> \<not> a) \<and> s) resp st3"
    have x: "x = (ans, st')" using e assms(5) Inr by (simp add: x_def)
    have "node_of (hd_ticket h) (load_balancer_state (snd x)) = outcome_mark (he_health env)
        (failure_cooldown (hc_config hc) (tk_name (hd_ticket h))) answer node"
      unfolding x_def lb_deliver Inr node_of_observed [OF v] by (simp add: lb3 assms(2))
    moreover have "is_success (br_status resp)" if "ans = Some (Chunks cs) \<or> ans = Some (Frames fs)" for cs fs
      using that deliver_stream_success [of env hc h rq request a "(?p \<and> \<not> a) \<and> s" resp st3] x unfolding x_def by auto
    ultimately show ?thesis using x Inr by auto
  qed
qed

definition sample_ticket :: ticket where
  "sample_ticket = \<lparr>tk_group = 0, tk_node = 0, tk_name = None\<rparr>"

definition refusing :: "(unit, unit) handler_env \<Rightarrow> (unit, unit) handler_env" where
  "refusing env = env\<lparr>he_serde := (he_serde env)\<lparr>parse_value := \<lambda>_. None\<rparr>, he_send := \<lambda>_ _. Err ''refused''\<rparr>"

theorem exchange_marks_backend_witness:
  "\<forall>env hc rq. \<not> healthy (node_of sample_ticket (load_balancer_state
     (snd (exchange (refusing env) hc \<lparr>hd_ticket = sample_ticket, hd_permit = False\<rparr> rq None ''x'' True sample_proxy))))"
proof (intro allI)
  fix env :: "(unit, unit) handler_env" and hc rq
  let ?h = "\<lparr>hd_ticket = sample_ticket, hd_permit = False\<rparr>"
  let ?node = "node_of (hd_ticket ?h) (load_balancer_state sample_proxy)"
  obtain ans st' where x: "exchange (refusing env) hc ?h rq None ''x'' True sample_proxy = (ans, st')" by fastforce
  have v: "valid_ticket (hd_ticket ?h) (load_balancer_state sample_proxy)"
    by (simp add: valid_ticket_def sample_ticket_def sample_proxy_def loads_def balancers_def sample_node_def)
  have o: "apply_backend_overrides_bytes (he_serde (refusing env)) ''x'' ?node
      (is_passthrough (ac_streaming (hc_config hc)) \<and> \<not> True) (rq_path rq) = Some (''x'', False)"
    by (simp add: apply_backend_overrides_bytes_def refusing_def)
  have "node_of (hd_ticket ?h) (load_balancer_state st') = outcome_mark (he_health (refusing env))
      (failure_cooldown (hc_config hc) (tk_name (hd_ticket ?h))) (Err ''refused'') ?node"
    using exchange_marks_backend [OF v refl o refl x] by (simp add: refusing_def)
  then show "\<not> healthy (node_of sample_ticket (load_balancer_state (snd (exchange (refusing env) hc ?h rq None ''x'' True sample_proxy))))"
    by (simp add: x outcome_mark_def mark_failed_def Let_def)
qed

end
