(* ===== verification/Influx.thy ===== *)
theory Influx
  imports Collector Config
begin

text \<open>
  The InfluxDB exporter, built with its \<^verbatim>\<open>influxdb\<close> feature: the point made of a sample
  (\<^verbatim>\<open>exporters/influxdb.rs\<close>), the bounded queue with its retry worker (\<^verbatim>\<open>exporters/influxdb/worker.rs\<close>), and the
  exporter manager (\<^verbatim>\<open>exporters/mod.rs\<close>).

  The queue is shared by request tasks, flush waiters and the worker thread. It is a step function over an
  explicit state: a label names the thread that acts and what its environment answers, and a history is a list
  of labels, so every interleaving is one. A step of the worker is one channel operation, one write attempt or
  one pass over the waiters under their lock; sleeping changes nothing and is no step. Parameters: the client
  crate's point builder and its write, \<^verbatim>\<open>timestamp_nanos_opt\<close>, the URL parser.
\<close>

section \<open>Points\<close>

definition is_unsafe :: "char \<Rightarrow> bool" where
  "is_unsafe ch = ((of_char ch :: nat) < 0x20 \<or> ch = CHR 0x7F \<or> ch = CHR '','' \<or> ch = CHR ''='' \<or> ch = CHR '' '')"

text \<open>Every compared scalar is ASCII, so the rewriting is by bytes. The counter is \<^verbatim>\<open>TAG_SANITIZE_TOTAL\<close>.\<close>

definition tag_value :: "string \<Rightarrow> u64 \<Rightarrow> string \<times> u64" where
  "tag_value raw cnt = (if \<not> list_ex is_unsafe raw then (raw, cnt)
     else (map (\<lambda>ch. if is_unsafe ch then CHR ''_'' else ch) raw, cnt + 1))"

datatype field_value = Field_Float f64 | Field_Bool bool

record data_point =
  dp_measurement :: string
  dp_tags :: "(string \<times> string) list"
  dp_fields :: "(string \<times> field_value) list"
  dp_timestamp :: int

datatype export_error = Connection_Error string | Auth_Error string | Write_Error string | Config_Error string
  | Other_Error string

record influx_env =
  timestamp_nanos :: "nat \<Rightarrow> int option"
  build_point :: "data_point \<Rightarrow> (data_point, string) result"

fun sanitized_tags :: "(string \<times> string) list \<Rightarrow> u64 \<Rightarrow> (string \<times> string) list \<times> u64" where
  "sanitized_tags [] cnt = ([], cnt)"
| "sanitized_tags ((k, v) # ts) cnt = (let (v', cnt') = tag_value v cnt; (rest, cnt'') = sanitized_tags ts cnt'
     in ((k, v') # rest, cnt''))"

definition optional_tag :: "string \<Rightarrow> string option \<Rightarrow> (string \<times> string) list" where
  "optional_tag k v = (case v of None \<Rightarrow> [] | Some s \<Rightarrow> [(k, s)])"

definition bool_text :: "bool \<Rightarrow> string" where "bool_text b = (if b then ''true'' else ''false'')"

text \<open>The tags in the order of the builder calls; the second and fourth are not rewritten.\<close>

definition point_tags :: "request_metrics \<Rightarrow> u64 \<Rightarrow> (string \<times> string) list \<times> u64" where
  "point_tags m cnt =
     (let (model, cnt1) = tag_value (m_model m) cnt;
          (fin, cnt2) = tag_value (m_finish_reason m) cnt1;
          (rest, cnt3) = sanitized_tags (optional_tag ''client_id'' (m_client_id m)
             @ optional_tag ''conversation_id'' (m_conversation_id m) @ optional_tag ''group_name'' (m_group_name m)) cnt2
      in ([(''model'', model), (''streaming'', bool_text (m_streaming m)), (''finish_reason'', fin),
           (''stream_end'', stream_end_label m)] @ rest, cnt3))"

definition u64_float :: "u64 \<Rightarrow> field_value" where "u64_float n = Field_Float (f64_of_nat (unat n))"

definition optional_count :: "string \<Rightarrow> u64 option \<Rightarrow> (string \<times> field_value) list" where
  "optional_count k v = (case v of None \<Rightarrow> [] | Some n \<Rightarrow> [(k, u64_float n)])"

definition optional_float :: "string \<Rightarrow> f64 option \<Rightarrow> (string \<times> field_value) list" where
  "optional_float k v = (case v of None \<Rightarrow> [] | Some x \<Rightarrow> [(k, Field_Float x)])"

definition point_fields :: "request_metrics \<Rightarrow> (string \<times> field_value) list" where
  "point_fields m =
     [(''total_tokens'', u64_float (m_total_tokens m)), (''total_tps'', Field_Float (m_total_tps m)),
      (''decode_tps_min'', Field_Float (m_decode_tps_min m)), (''has_timing_split'', Field_Bool (m_has_timing_split m)),
      (''prompt_ms'', Field_Float (m_prompt_ms m)), (''generation_ms'', Field_Float (m_generation_ms m)),
      (''duration_ms'', Field_Float (m_duration_ms m)), (''stream_incomplete'', Field_Bool (m_stream_incomplete m)),
      (''input_len'', Field_Float (f64_of_nat (m_input_len m))), (''output_len'', Field_Float (f64_of_nat (m_output_len m)))]
     @ optional_count ''prompt_tokens'' (m_prompt_tokens m) @ optional_count ''completion_tokens'' (m_completion_tokens m)
     @ optional_float ''prompt_tps'' (m_prompt_tps m) @ optional_float ''generation_tps'' (m_generation_tps m)
     @ optional_count ''cached_tokens'' (m_cached_tokens m) @ optional_count ''cache_creation_tokens'' (m_cache_creation_tokens m)
     @ optional_count ''reasoning_tokens'' (m_reasoning_tokens m)
     @ optional_count ''accepted_prediction_tokens'' (m_accepted_prediction_tokens m)
     @ optional_count ''rejected_prediction_tokens'' (m_rejected_prediction_tokens m)
     @ optional_count ''context_used'' (m_context_used m) @ optional_count ''context_total'' (m_context_total m)
     @ optional_float ''context_percent'' (m_context_percent m)"

definition build_data_point ::
  "influx_env \<Rightarrow> request_metrics \<Rightarrow> u64 \<Rightarrow> (data_point option, export_error) result \<times> u64" where
  "build_data_point env m cnt = (case timestamp_nanos env (m_timestamp m) of
       None \<Rightarrow> (Ok None, cnt)
     | Some nanos \<Rightarrow>
         (let (tags, cnt') = point_tags m cnt in
          (case build_point env \<lparr>dp_measurement = ''llama_request'', dp_tags = tags, dp_fields = point_fields m, dp_timestamp = nanos\<rparr> of
             Inl e \<Rightarrow> Err (Write_Error (''Failed to build data point: '' @ e))
           | Inr p \<Rightarrow> Ok (Some p), cnt')))"

section \<open>Queue and worker\<close>

definition CAPACITY :: nat where "CAPACITY = 1024"
definition RETRY_DELAYS_MS :: "nat list" where "RETRY_DELAYS_MS = [100, 500, 2000]"

text \<open>Where a finished write or an acknowledgement returns to: the main loop, a drain for a ping, the exit
  drain.\<close>

datatype resume = To_Main | To_Drain | To_Exit

datatype worker_pc =
    Take_Ping                                  \<comment> \<open>\<^verbatim>\<open>drains.try_recv()\<close>\<close>
  | Take_Sample                                \<comment> \<open>\<^verbatim>\<open>poll_samples\<close> of the main loop\<close>
  | Draining bool                              \<comment> \<open>\<^verbatim>\<open>poll_samples\<close> of \<^verbatim>\<open>drain_queue\<close>; true in the exit drain\<close>
  | Building request_metrics resume            \<comment> \<open>\<^verbatim>\<open>write_with_retry\<close>, before the first attempt\<close>
  | Attempting request_metrics data_point nat resume   \<comment> \<open>with the number of the attempt\<close>
  | Acking resume                              \<comment> \<open>empty queue seen, waiters not yet swept\<close>
  | Leaving                                    \<comment> \<open>behind the exit drain\<close>
  | Returning                                  \<comment> \<open>last sweep done, receivers not yet dropped\<close>
  | Gone

record queue_state =
  q_samples :: "request_metrics list"     \<comment> \<open>the bounded channel, oldest first\<close>
  q_open :: bool                          \<comment> \<open>\<^verbatim>\<open>samples_tx\<close> still holds its sender\<close>
  q_handle :: bool                        \<comment> \<open>the \<^verbatim>\<open>WriterQueue\<close> and with it \<^verbatim>\<open>drains_tx\<close> exists\<close>
  q_pings :: nat
  q_waiters :: "nat list"                 \<comment> \<open>tickets, by waiter\<close>
  q_quit :: "nat list"                    \<comment> \<open>waiters whose receiver is gone\<close>
  q_acked :: "nat list"
  q_worker :: worker_pc
  q_retries :: u64
  q_dropped :: u64
  q_sanitized :: u64
  q_written :: "request_metrics list"     \<comment> \<open>history: delivered samples\<close>
  q_lost :: "request_metrics list"        \<comment> \<open>history: accepted samples given up\<close>
  q_accepted :: "request_metrics list"    \<comment> \<open>history: samples answered with \<^verbatim>\<open>Queued\<close>\<close>
  q_refused :: "request_metrics list"     \<comment> \<open>history: samples answered with \<^verbatim>\<open>Dropped\<close>\<close>

definition spawn :: queue_state where
  "spawn = \<lparr>q_samples = [], q_open = True, q_handle = True, q_pings = 0, q_waiters = [], q_quit = [], q_acked = [],
     q_worker = Take_Ping, q_retries = 0, q_dropped = 0, q_sanitized = 0, q_written = [], q_lost = [], q_accepted = [], q_refused = []\<rparr>"

datatype send_outcome = Queued | Dropped | Shut_Down

definition enqueue :: "request_metrics \<Rightarrow> queue_state \<Rightarrow> send_outcome \<times> queue_state" where
  "enqueue m q =
     (if \<not> q_open q \<or> q_worker q = Gone then (Shut_Down, q)
      else if CAPACITY \<le> length (q_samples q) then (Dropped, q\<lparr>q_dropped := q_dropped q + 1, q_refused := q_refused q @ [m]\<rparr>)
      else (Queued, q\<lparr>q_samples := q_samples q @ [m], q_accepted := q_accepted q @ [m]\<rparr>))"

text \<open>The sweep: a failed send removes the slot by swapping in the last one, which is looked at next.\<close>

function ack_waiters :: "nat list \<Rightarrow> nat \<Rightarrow> nat list \<Rightarrow> nat list \<times> nat list" where
  "ack_waiters quit i slots =
     (if i < length slots
      then if slots ! i \<in> set quit
           then ack_waiters quit i (if Suc i = length slots then butlast slots else (butlast slots)[i := last slots])
           else (let (slots', acked) = ack_waiters quit (Suc i) slots in (slots', slots ! i # acked))
      else (slots, []))"
  by pat_completeness auto

termination
  by (relation "measure (\<lambda>(quit, i, slots). 2 * length slots - i)") auto

declare ack_waiters.simps [simp del]

definition swept :: "queue_state \<Rightarrow> queue_state" where
  "swept q = (let (slots, acked) = ack_waiters (q_quit q) 0 (q_waiters q)
     in q\<lparr>q_waiters := slots, q_acked := q_acked q @ acked\<rparr>)"

fun resumed :: "resume \<Rightarrow> worker_pc" where
  "resumed To_Main = Take_Ping"
| "resumed To_Drain = Draining False"
| "resumed To_Exit = Draining True"

text \<open>Giving an accepted sample up: counted, and the worker goes on.\<close>

definition give_up :: "request_metrics \<Rightarrow> resume \<Rightarrow> queue_state \<Rightarrow> queue_state" where
  "give_up m r q = q\<lparr>q_dropped := q_dropped q + 1, q_lost := q_lost q @ [m], q_worker := resumed r\<rparr>"

text \<open>\<open>ok\<close> is the answer of \<^verbatim>\<open>write_once\<close>, where the step is an attempt.\<close>

definition worker_step :: "influx_env \<Rightarrow> bool \<Rightarrow> queue_state \<Rightarrow> queue_state" where
  "worker_step env ok q = (case q_worker q of
       Take_Ping \<Rightarrow>
         if 0 < q_pings q then q\<lparr>q_pings := q_pings q - 1, q_worker := Draining False\<rparr>
         else if \<not> q_handle q then q\<lparr>q_worker := Draining True\<rparr>
         else q\<lparr>q_worker := Take_Sample\<rparr>
     | Take_Sample \<Rightarrow> (case q_samples q of
           m # ms \<Rightarrow> q\<lparr>q_samples := ms, q_worker := Building m To_Main\<rparr>
         | [] \<Rightarrow> if q_open q then q\<lparr>q_worker := Acking To_Main\<rparr> else q\<lparr>q_worker := Draining True\<rparr>)
     | Draining exit \<Rightarrow> (case q_samples q of
           m # ms \<Rightarrow> q\<lparr>q_samples := ms, q_worker := Building m (if exit then To_Exit else To_Drain)\<rparr>
         | [] \<Rightarrow> if q_open q then q\<lparr>q_worker := Acking (if exit then To_Exit else To_Drain)\<rparr>
             else q\<lparr>q_worker := (if exit then Leaving else Take_Ping)\<rparr>)
     | Building m r \<Rightarrow> (case build_data_point env m (q_sanitized q) of
           (Inr (Some p), cnt) \<Rightarrow> q\<lparr>q_sanitized := cnt, q_worker := Attempting m p 0 r\<rparr>
         | (_, cnt) \<Rightarrow> give_up m r (q\<lparr>q_sanitized := cnt\<rparr>))
     | Attempting m p n r \<Rightarrow>
         if ok then q\<lparr>q_written := q_written q @ [m], q_worker := resumed r\<rparr>
         else if n < length RETRY_DELAYS_MS then q\<lparr>q_retries := q_retries q + 1, q_worker := Attempting m p (n + 1) r\<rparr>
         else give_up m r q
     | Acking r \<Rightarrow> (swept q)\<lparr>q_worker := (case r of To_Exit \<Rightarrow> Leaving | _ \<Rightarrow> Take_Ping)\<rparr>
     | Leaving \<Rightarrow> (swept q)\<lparr>q_worker := Returning\<rparr>
     | Returning \<Rightarrow> q\<lparr>q_worker := Gone\<rparr>
     | Gone \<Rightarrow> q)"

text \<open>The two halves of \<^verbatim>\<open>flush\<close> before it waits: register the ticket, then ping; no worker means no wait.\<close>

definition flush_register :: "nat \<Rightarrow> queue_state \<Rightarrow> queue_state" where
  "flush_register w q = q\<lparr>q_waiters := q_waiters q @ [w]\<rparr>"

definition flush_ping :: "queue_state \<Rightarrow> bool \<times> queue_state" where
  "flush_ping q = (if q_handle q \<and> q_worker q \<noteq> Gone then (True, q\<lparr>q_pings := q_pings q + 1\<rparr>) else (False, q))"

text \<open>A waiter that timed out removes its slot, its receiver goes with it.\<close>

definition flush_timeout :: "nat \<Rightarrow> queue_state \<Rightarrow> queue_state" where
  "flush_timeout w q = (case find_index (\<lambda>x. x = w) (q_waiters q) of
       None \<Rightarrow> q\<lparr>q_quit := w # q_quit q\<rparr>
     | Some i \<Rightarrow> q\<lparr>q_quit := w # q_quit q, q_waiters := (if Suc i = length (q_waiters q) then butlast (q_waiters q)
         else (butlast (q_waiters q))[i := last (q_waiters q)])\<rparr>)"

text \<open>\<^verbatim>\<open>shutdown\<close> before its join, and \<^verbatim>\<open>Drop\<close>.\<close>

definition close_samples :: "queue_state \<Rightarrow> queue_state" where
  "close_samples q = q\<lparr>q_open := False\<rparr>"

definition drop_queue :: "queue_state \<Rightarrow> queue_state" where
  "drop_queue q = (close_samples q)\<lparr>q_handle := False\<rparr>"

datatype label = Enqueue request_metrics | Register nat | Ping | Received nat | Timed_Out nat | Close | Drop_Handle | Worker bool

text \<open>A waiter that got its answer returns, and its receiver goes.\<close>

definition qstep :: "influx_env \<Rightarrow> label \<Rightarrow> queue_state \<Rightarrow> queue_state" where
  "qstep env l q = (case l of
       Enqueue m \<Rightarrow> snd (enqueue m q)
     | Register w \<Rightarrow> flush_register w q
     | Ping \<Rightarrow> snd (flush_ping q)
     | Received w \<Rightarrow> if w \<in> set (q_acked q) then q\<lparr>q_quit := w # q_quit q\<rparr> else q
     | Timed_Out w \<Rightarrow> flush_timeout w q
     | Close \<Rightarrow> close_samples q
     | Drop_Handle \<Rightarrow> drop_queue q
     | Worker ok \<Rightarrow> worker_step env ok q)"

definition qrun :: "influx_env \<Rightarrow> label list \<Rightarrow> queue_state \<Rightarrow> queue_state" where
  "qrun env ls q = fold (qstep env) ls q"

section \<open>Exporter and manager\<close>

definition checked_client_url :: "loader_env \<Rightarrow> string \<Rightarrow> (unit, export_error) result" where
  "checked_client_url env url = (case parse_url env url of
       Inl e \<Rightarrow> Err (Config_Error (''influxdb.url is not a valid URL: '' @ e))
     | Inr u \<Rightarrow> if url_scheme u = ''http'' \<or> url_scheme u = ''https'' then Ok ()
         else Err (Config_Error (''influxdb.url must be an http or https URL: '' @ url)))"

definition influx_new :: "loader_env \<Rightarrow> influxdb_config \<Rightarrow> (queue_state, export_error) result" where
  "influx_new env c = map_sum id (\<lambda>_. spawn) (checked_client_url env (ic_url c))"

definition influx_export :: "request_metrics \<Rightarrow> queue_state \<Rightarrow> (unit, export_error) result \<times> queue_state" where
  "influx_export m q = (case enqueue m q of
       (Shut_Down, q') \<Rightarrow> (Err (Other_Error ''exporter shut down''), q')
     | (_, q') \<Rightarrow> (Ok (), q'))"

text \<open>The manager holds the exporter exactly when the configuration enables it.\<close>

definition manager_from_config :: "loader_env \<Rightarrow> influxdb_config \<Rightarrow> (queue_state list, export_error) result" where
  "manager_from_config env c = (if ic_enabled c then map_sum id (\<lambda>q. [q]) (influx_new env c) else Ok [])"

definition export_all :: "request_metrics \<Rightarrow> queue_state list \<Rightarrow> queue_state list" where
  "export_all m qs = map (\<lambda>q. snd (influx_export m q)) qs"

definition shutdown_all :: "queue_state list \<Rightarrow> queue_state list" where
  "shutdown_all qs = map close_samples qs"

end
