(* ===== verification/Influx_Correct.thy ===== *)
theory Influx_Correct
  imports Influx "HOL-Library.Multiset"
begin

text \<open>
  What the exporter promises: every accepted sample is written or counted as lost, in order, the queue stays
  within its capacity, a closed queue is drained before the worker leaves, no tag can forge a line. And what it
  does not: a flush can return before an earlier sample was written.
\<close>

section \<open>Tags\<close>

lemma tag_value_safe: "list_all (\<lambda>c. \<not> is_unsafe c) (fst (tag_value raw n)) \<and> length (fst (tag_value raw n)) = length raw"
proof -
  have "\<not> is_unsafe (CHR ''_'')" by (simp add: is_unsafe_def)
  then show ?thesis by (auto simp: tag_value_def list_all_iff list_ex_iff)
qed

lemma sanitized_tags_safe:
  "list_all (\<lambda>t. list_all (\<lambda>c. \<not> is_unsafe c) (snd t)) (fst (sanitized_tags ts n))
   \<and> map fst (fst (sanitized_tags ts n)) = map fst ts"
proof (induction ts n rule: sanitized_tags.induct)
  case (2 k v ts n)
  then show ?case using tag_value_safe [of v n] by (auto split: prod.splits)
qed simp

lemma optional_lookup:
  "map_of (optional_count k v) j = (if j = k then map_option u64_float v else None)"
  "map_of (optional_float k w) j = (if j = k then map_option Field_Float w else None)"
  by (cases v; simp add: optional_count_def) (cases w; simp add: optional_float_def)

lemma map_of_skip: "\<lbrakk>map_of xs k = None; map_of ys k = v\<rbrakk> \<Longrightarrow> map_of (xs @ ys) k = v"
  by (simp add: map_add_def)

lemma map_of_hit: "map_of ys k = None \<Longrightarrow> map_of (xs @ ys) k = map_of xs k"
  by (simp add: map_add_def split: option.split)

lemma point_fields_lookup:
  "map_of (point_fields m) ''prompt_tps'' = map_option Field_Float (m_prompt_tps m)"
  "map_of (point_fields m) ''generation_tps'' = map_option Field_Float (m_generation_tps m)"
  "map_of (point_fields m) ''prompt_tokens'' = map_option u64_float (m_prompt_tokens m)"
proof -
  have none: "map_of (a @ b) k = None" if "map_of a k = None" "map_of b k = None" for a b :: "(string \<times> field_value) list" and k
    using that by (simp add: map_add_def)
  show "map_of (point_fields m) ''prompt_tps'' = map_option Field_Float (m_prompt_tps m)"
    unfolding point_fields_def
    by ((rule map_of_skip, (simp add: optional_lookup; fail))+, subst map_of_hit; (intro none)?; simp add: optional_lookup)
  show "map_of (point_fields m) ''generation_tps'' = map_option Field_Float (m_generation_tps m)"
    unfolding point_fields_def
    by ((rule map_of_skip, (simp add: optional_lookup; fail))+, subst map_of_hit; (intro none)?; simp add: optional_lookup)
  show "map_of (point_fields m) ''prompt_tokens'' = map_option u64_float (m_prompt_tokens m)"
    unfolding point_fields_def
    by ((rule map_of_skip, (simp add: optional_lookup; fail))+, subst map_of_hit; (intro none)?; simp add: optional_lookup)
qed

text \<open>No field of a sample can forge a line. Whatever bytes the backend or a client put into the model name,
  the finish reason, the ids or the group, no tag of the point contains a control character, comma, equals sign
  or space; the tags that are always written are there, and a rate the backend did not report is absent from
  the fields, not zero.\<close>

theorem point_tags_unforgeable:
  assumes "list_all (\<lambda>c. \<not> is_unsafe c) (stream_end_label m)"
  shows "list_all (\<lambda>t. list_all (\<lambda>c. \<not> is_unsafe c) (snd t)) (fst (point_tags m n))
    \<and> {''model'', ''streaming'', ''finish_reason'', ''stream_end''} \<subseteq> set (map fst (fst (point_tags m n)))
    \<and> map_of (point_fields m) ''prompt_tps'' = map_option Field_Float (m_prompt_tps m)
    \<and> map_of (point_fields m) ''generation_tps'' = map_option Field_Float (m_generation_tps m)
    \<and> map_of (point_fields m) ''prompt_tokens'' = map_option u64_float (m_prompt_tokens m)"
proof (intro conjI)
  have t: "list_all (\<lambda>c. \<not> is_unsafe c) v" if "tag_value raw k = (v, k')" for raw k v k'
    using tag_value_safe [of raw k] that by simp
  have r: "list_all (\<lambda>t. list_all (\<lambda>c. \<not> is_unsafe c) (snd t)) rest" if "sanitized_tags ts k = (rest, k')" for ts k rest k'
    using sanitized_tags_safe [of ts k] that by simp
  have b: "list_all (\<lambda>c. \<not> is_unsafe c) (bool_text x)" for x by (simp add: bool_text_def is_unsafe_def)
  show "list_all (\<lambda>t. list_all (\<lambda>c. \<not> is_unsafe c) (snd t)) (fst (point_tags m n))"
    using assms b by (simp add: point_tags_def Let_def t r split: prod.split)
  show "{''model'', ''streaming'', ''finish_reason'', ''stream_end''} \<subseteq> set (map fst (fst (point_tags m n)))"
    by (auto simp: point_tags_def Let_def split: prod.splits)
qed (simp_all add: point_fields_lookup)

definition sample_metrics :: request_metrics where
  "sample_metrics = (metrics_new ''r1'' 7)\<lparr>m_model := ''m'' @ [CHR 0x0A] @ ''forged,x=1'', m_client_id := Some ''a b''\<rparr>"

theorem point_tags_unforgeable_witness:
  "list_all (\<lambda>c. \<not> is_unsafe c) (stream_end_label sample_metrics)
   \<and> list_all (\<lambda>t. list_all (\<lambda>c. \<not> is_unsafe c) (snd t)) (fst (point_tags sample_metrics 0))
   \<and> map_of (point_fields sample_metrics) ''prompt_tps'' = None"
proof -
  have h: "list_all (\<lambda>c. \<not> is_unsafe c) (stream_end_label sample_metrics)"
    by (simp add: sample_metrics_def metrics_new_def stream_end_label_def is_unsafe_def)
  from point_tags_unforgeable [OF h, of 0] h show ?thesis
    by (simp add: sample_metrics_def metrics_new_def)
qed

definition sample_env :: influx_env where
  "sample_env = \<lparr>timestamp_nanos = (\<lambda>t. Some (int t)), build_point = Inr\<rparr>"

lemma sample_builds: "\<exists>p t. build_data_point sample_env m n = (Inr (Some p), t)"
  by (simp add: build_data_point_def sample_env_def split: prod.split)

section \<open>Accounting\<close>

lemma shuffles_snoc: "h \<in> shuffles xs ys \<Longrightarrow> h @ [x] \<in> shuffles (xs @ [x]) ys"
proof (induction xs ys arbitrary: h rule: shuffles.induct)
  case (1 ys)
  then show ?case by (induction ys arbitrary: h) auto
next
  case (3 a xs b ys)
  then show ?case by auto
qed simp

lemma shuffles_snoc_right: "h \<in> shuffles xs ys \<Longrightarrow> h @ [y] \<in> shuffles xs (ys @ [y])"
  using shuffles_snoc [of h ys xs y] by (simp add: shuffles_commutes)

fun in_hand :: "worker_pc \<Rightarrow> request_metrics list" where
  "in_hand (Building m r) = [m]"
| "in_hand (Attempting m p n r) = [m]"
| "in_hand _ = []"

text \<open>Past the last look at the queue, and on the way there.\<close>

definition left_queue :: "worker_pc \<Rightarrow> bool" where
  "left_queue pc = (pc \<in> {Leaving, Returning, Gone})"

fun exiting :: "worker_pc \<Rightarrow> bool" where
  "exiting (Draining e) = e"
| "exiting (Building m r) = (r = To_Exit)"
| "exiting (Attempting m p n r) = (r = To_Exit)"
| "exiting (Acking r) = (r = To_Exit)"
| "exiting pc = left_queue pc"

fun attempts_ok :: "worker_pc \<Rightarrow> bool" where
  "attempts_ok (Attempting m p n r) = (n \<le> length RETRY_DELAYS_MS)"
| "attempts_ok _ = True"

definition lifecycle_ok :: "queue_state \<Rightarrow> bool" where
  "lifecycle_ok q = ((exiting (q_worker q) \<longrightarrow> \<not> q_open q) \<and> (left_queue (q_worker q) \<longrightarrow> q_samples q = [])
     \<and> (q_handle q \<or> \<not> q_open q) \<and> attempts_ok (q_worker q) \<and> q_worker q \<noteq> Acking To_Exit)"

definition accounted :: "queue_state \<Rightarrow> bool" where
  "accounted q = (length (q_samples q) \<le> CAPACITY
     \<and> (\<exists>h. h \<in> shuffles (q_written q) (q_lost q) \<and> q_accepted q = h @ in_hand (q_worker q) @ q_samples q)
     \<and> q_dropped q = of_nat (length (q_refused q) + length (q_lost q)))"

lemma resumed_simps [simp]: "in_hand (resumed r) = []" "attempts_ok (resumed r)" "\<not> left_queue (resumed r)"
  "exiting (resumed r) = (r = To_Exit)" "resumed r \<noteq> Acking r'" "resumed r \<noteq> Gone"
  by (cases r; simp add: left_queue_def)+

lemma left_queue_simps [simp]: "left_queue Leaving" "left_queue Returning" "left_queue Gone" "\<not> left_queue (Draining e)"
  "\<not> left_queue (Building m r)" "\<not> left_queue (Attempting m p n r)" "\<not> left_queue (Acking r)" "\<not> left_queue Take_Ping"
  "\<not> left_queue Take_Sample"
  by (simp_all add: left_queue_def)

lemma swept_fields [simp]:
  "q_samples (swept q) = q_samples q" "q_open (swept q) = q_open q" "q_handle (swept q) = q_handle q"
  "q_written (swept q) = q_written q" "q_lost (swept q) = q_lost q" "q_accepted (swept q) = q_accepted q"
  "q_refused (swept q) = q_refused q" "q_dropped (swept q) = q_dropped q" "q_pings (swept q) = q_pings q"
  "q_worker (swept q) = q_worker q"
  by (simp_all add: swept_def split: prod.splits)

lemma give_up_accounted:
  assumes "accounted q" "in_hand (q_worker q) = [m]"
  shows "accounted (give_up m r q)"
  using assms shuffles_snoc_right by (fastforce simp: accounted_def give_up_def)

lemma written_accounted:
  assumes "accounted q" "in_hand (q_worker q) = [m]"
  shows "accounted (q\<lparr>q_written := q_written q @ [m], q_worker := resumed r\<rparr>)"
  using assms shuffles_snoc by (fastforce simp: accounted_def)

lemma worker_step_accounted: "accounted q \<Longrightarrow> accounted (worker_step env ok q)"
proof (cases "q_worker q")
  case (Building m r)
  assume a: "accounted q"
  obtain x t where b: "build_data_point env m (q_sanitized q) = (x, t)" by (cases "build_data_point env m (q_sanitized q)")
  have a': "accounted (q\<lparr>q_sanitized := t\<rparr>)" using a by (simp add: accounted_def)
  show ?thesis
  proof (cases "\<exists>p. x = Ok (Some p)")
    case True
    then show ?thesis using Building b a by (auto simp: worker_step_def accounted_def)
  next
    case False
    then have "worker_step env ok q = give_up m r (q\<lparr>q_sanitized := t\<rparr>)"
      using Building b by (auto simp: worker_step_def split: sum.splits option.splits)
    with give_up_accounted [OF a', of m r] Building show ?thesis by simp
  qed
next
  case (Attempting m p n r)
  assume a: "accounted q"
  with Attempting give_up_accounted [OF a, of m r] written_accounted [OF a, of m r] show ?thesis
    by (auto simp: worker_step_def accounted_def)
qed (auto simp: worker_step_def accounted_def split: list.splits resume.splits)

lemma qstep_accounted: "accounted q \<Longrightarrow> accounted (qstep env l q)"
proof (cases l)
  case (Enqueue m)
  assume a: "accounted q"
  then obtain h where "h \<in> shuffles (q_written q) (q_lost q)" "q_accepted q = h @ in_hand (q_worker q) @ q_samples q"
    by (auto simp: accounted_def)
  with a Enqueue show ?thesis by (auto simp: qstep_def enqueue_def accounted_def)
next
  case (Worker ok)
  then show "accounted q \<Longrightarrow> accounted (qstep env l q)" by (simp add: qstep_def worker_step_accounted)
qed (auto simp: qstep_def flush_register_def flush_ping_def flush_timeout_def close_samples_def drop_queue_def
    accounted_def split: option.splits)

lemma qrun_accounted: "accounted q \<Longrightarrow> accounted (qrun env ls q)"
  unfolding qrun_def by (induction ls arbitrary: q) (auto intro: qstep_accounted)

lemma spawn_accounted: "accounted spawn"
  by (simp add: accounted_def spawn_def)

text \<open>C37. Nothing accepted disappears. In every interleaving of requests, flushes, time-outs, shutdown and the
  worker, with every write outcome: the queue holds at most its capacity; the accepted samples are, in order, the
  handled ones, the one in hand and the queued ones, where the handled ones are the written and the lost samples
  merged in order; and the drop counter is the number of refused and lost samples.\<close>

theorem queue_accounting:
  "let q = qrun env ls spawn in
     length (q_samples q) \<le> CAPACITY
     \<and> (\<exists>h. h \<in> shuffles (q_written q) (q_lost q) \<and> q_accepted q = h @ in_hand (q_worker q) @ q_samples q)
     \<and> q_dropped q = of_nat (length (q_refused q) + length (q_lost q))"
  using qrun_accounted [OF spawn_accounted, of env ls] by (simp add: accounted_def Let_def)


section \<open>Shutdown\<close>

lemma worker_step_lifecycle: "lifecycle_ok q \<Longrightarrow> lifecycle_ok (worker_step env ok q)"
  by (cases "q_worker q")
    (auto simp: worker_step_def lifecycle_ok_def give_up_def RETRY_DELAYS_MS_def
      split: list.splits sum.splits option.splits prod.splits resume.splits if_splits)

lemma qstep_lifecycle:
  assumes "lifecycle_ok q"
  shows "lifecycle_ok (qstep env l q)"
proof (cases l)
  case (Enqueue m)
  with assms show ?thesis by (cases "q_worker q") (auto simp: qstep_def enqueue_def lifecycle_ok_def)
next
  case (Worker ok)
  then show ?thesis using assms by (simp add: qstep_def worker_step_lifecycle)
qed (use assms in \<open>auto simp: qstep_def flush_register_def flush_ping_def flush_timeout_def close_samples_def
      drop_queue_def lifecycle_ok_def split: option.splits\<close>)

lemma qrun_lifecycle: "lifecycle_ok q \<Longrightarrow> lifecycle_ok (qrun env ls q)"
  unfolding qrun_def by (induction ls arbitrary: q) (auto intro: qstep_lifecycle)

lemma spawn_lifecycle: "lifecycle_ok spawn"
  by (simp add: lifecycle_ok_def spawn_def)

fun pc_work :: "worker_pc \<Rightarrow> nat" where
  "pc_work Gone = 0"
| "pc_work Returning = 1"
| "pc_work Leaving = 2"
| "pc_work (Draining e) = (if e then 3 else 6)"
| "pc_work Take_Sample = 4"
| "pc_work Take_Ping = 5"
| "pc_work (Acking r) = 6"
| "pc_work (Building m r) = 5 + (case r of To_Main \<Rightarrow> 5 | To_Drain \<Rightarrow> 6 | To_Exit \<Rightarrow> 3)"
| "pc_work (Attempting m p n r) = 4 - n + (case r of To_Main \<Rightarrow> 5 | To_Drain \<Rightarrow> 6 | To_Exit \<Rightarrow> 3)"

text \<open>How many steps of its own the worker of a closed queue still takes at most.\<close>

definition work :: "queue_state \<Rightarrow> nat" where
  "work q = 7 * length (q_samples q) + 2 * q_pings q + pc_work (q_worker q)"

lemma pc_work_resumed: "pc_work (resumed r) = (case r of To_Main \<Rightarrow> 5 | To_Drain \<Rightarrow> 6 | To_Exit \<Rightarrow> 3)"
  by (cases r) simp_all

lemma swept_work: "work (swept q) = work q"
  by (simp add: work_def)

lemma worker_step_work:
  assumes "lifecycle_ok q" "\<not> q_open q" "q_worker q \<noteq> Gone"
  shows "work (worker_step env ok q) < work q"
proof (cases "q_worker q")
  case (Building m r)
  then show ?thesis
    by (auto simp: worker_step_def work_def give_up_def pc_work_resumed
        split: sum.splits option.splits prod.splits resume.splits)
next
  case (Attempting m p n r)
  then show ?thesis using assms
    by (auto simp: worker_step_def work_def give_up_def pc_work_resumed RETRY_DELAYS_MS_def lifecycle_ok_def
        split: resume.splits)
qed (use assms in \<open>auto simp: worker_step_def work_def split: list.splits resume.splits\<close>)

fun is_turn :: "label \<Rightarrow> bool" where
  "is_turn (Worker ok) = True"
| "is_turn _ = False"

definition worker_turns :: "label list \<Rightarrow> nat" where
  "worker_turns ls = length (filter is_turn ls)"

definition ping_count :: "label list \<Rightarrow> nat" where
  "ping_count ls = length (filter (\<lambda>l. l = Ping) ls)"

lemma worker_step_closed: "\<not> q_open q \<Longrightarrow> \<not> q_open (worker_step env ok q)"
  by (cases "q_worker q")
    (auto simp: worker_step_def give_up_def split: list.splits sum.splits prod.splits option.splits)

lemma qstep_closed: "\<not> q_open q \<Longrightarrow> \<not> q_open (qstep env l q)"
  by (cases l) (auto simp: qstep_def enqueue_def flush_register_def flush_ping_def flush_timeout_def close_samples_def
      drop_queue_def worker_step_closed split: option.splits)

lemma qstep_gone: "q_worker q = Gone \<Longrightarrow> q_worker (qstep env l q) = Gone"
  by (cases l) (auto simp: qstep_def enqueue_def flush_register_def flush_ping_def flush_timeout_def close_samples_def
      drop_queue_def worker_step_def split: option.splits)

lemma qrun_gone: "q_worker q = Gone \<Longrightarrow> q_worker (qrun env ls q) = Gone"
  unfolding qrun_def by (induction ls arbitrary: q) (auto intro: qstep_gone)

lemma qstep_work:
  assumes "lifecycle_ok q" "\<not> q_open q" "q_worker q \<noteq> Gone"
  shows "work (qstep env l q) + worker_turns [l] \<le> work q + 2 * ping_count [l]"
proof (cases l)
  case (Worker ok)
  with worker_step_work [OF assms, of env ok] show ?thesis
    by (simp add: qstep_def worker_turns_def ping_count_def)
qed (use assms in \<open>auto simp: qstep_def enqueue_def flush_register_def flush_ping_def flush_timeout_def
      close_samples_def drop_queue_def worker_turns_def ping_count_def work_def split: option.splits\<close>)

lemma qrun_work:
  assumes "lifecycle_ok q" "\<not> q_open q"
  shows "q_worker (qrun env ls q) = Gone \<or> work (qrun env ls q) + worker_turns ls \<le> work q + 2 * ping_count ls"
  using assms
proof (induction ls arbitrary: q)
  case Nil
  then show ?case by (simp add: qrun_def worker_turns_def ping_count_def)
next
  case (Cons l ls)
  have r: "qrun env (l # ls) q = qrun env ls (qstep env l q)" by (simp add: qrun_def)
  show ?case
  proof (cases "q_worker q = Gone")
    case True
    then show ?thesis by (simp add: qrun_gone)
  next
    case False
    with qstep_work [of q env l] Cons.IH [of "qstep env l q"] Cons.prems qstep_lifecycle qstep_closed show ?thesis
      unfolding r by (fastforce simp: worker_turns_def ping_count_def split: if_splits)
  qed
qed

lemma work_zero: "\<lbrakk>lifecycle_ok q; work q = 0\<rbrakk> \<Longrightarrow> q_worker q = Gone"
  by (cases "q_worker q") (auto simp: work_def split: if_splits resume.splits)

lemma exporter_drains:
  assumes "\<not> q_open (qrun env ls spawn)"
    and "work (qrun env ls spawn) + 2 * ping_count ls' \<le> worker_turns ls'"
  shows "let q = qrun env ls' (qrun env ls spawn) in
    q_worker q = Gone \<and> q_samples q = [] \<and> q_accepted q \<in> shuffles (q_written q) (q_lost q)"
proof -
  let ?q = "qrun env ls spawn" and ?q' = "qrun env ls' (qrun env ls spawn)"
  have l: "lifecycle_ok ?q" "lifecycle_ok ?q'" by (simp_all add: qrun_lifecycle spawn_lifecycle)
  have "q_worker ?q' = Gone"
    using qrun_work [OF l(1) assms(1), of env ls'] assms(2) work_zero [OF l(2)] by linarith
  moreover have "accounted ?q'" by (simp add: qrun_accounted spawn_accounted)
  ultimately show ?thesis using l(2) by (auto simp: accounted_def lifecycle_ok_def Let_def)
qed

text \<open>Shutdown drains and ends. From every reachable state whose sample sender is closed, whatever requests,
  flushes and time-outs still do and whatever the writes answer: after as many worker steps as \<open>work\<close> counts, and
  two more for each later ping, the worker is gone, the queue is empty, and every sample ever accepted has been
  written or counted as lost, none is left behind.\<close>

theorem closed_queue_drains:
  assumes "\<not> q_open (qrun env ls spawn)"
    and "work (qrun env ls spawn) + 2 * ping_count ls' \<le> worker_turns ls'"
  shows "let q = qrun env ls' (qrun env ls spawn) in
    q_worker q = Gone \<and> q_samples q = [] \<and> q_accepted q \<in> shuffles (q_written q) (q_lost q)"
  by (rule exporter_drains [OF assms])

theorem closed_queue_drains_witness:
  "let q = qrun sample_env (Enqueue sample_metrics # replicate 12 (Worker False))
        (qrun sample_env [Enqueue sample_metrics, Close] spawn)
   in q_worker q = Gone \<and> q_samples q = [] \<and> q_accepted q \<in> shuffles (q_written q) (q_lost q)"
  by (rule closed_queue_drains)
    (simp_all add: qrun_def qstep_def enqueue_def spawn_def CAPACITY_def close_samples_def work_def worker_turns_def
      ping_count_def)

section \<open>Flush\<close>

definition sweeping :: "worker_pc \<Rightarrow> bool" where
  "sweeping pc = (left_queue pc \<or> (\<exists>r. pc = Acking r))"

definition guarded :: "nat \<Rightarrow> nat \<Rightarrow> queue_state \<Rightarrow> bool" where
  "guarded k w q = (accounted q \<and> lifecycle_ok q \<and> k \<le> length (q_accepted q)
     \<and> (w \<in> set (q_acked q) \<or> sweeping (q_worker q) \<longrightarrow> k \<le> length (q_written q) + length (q_lost q)))"

lemma sweeping_simps [simp]: "sweeping (Acking r)" "\<not> sweeping (Draining e)" "\<not> sweeping (Building m r)"
  "\<not> sweeping (Attempting m p n r)" "\<not> sweeping Take_Ping" "\<not> sweeping Take_Sample" "sweeping Leaving" "sweeping Returning"
  "sweeping Gone" "\<not> sweeping (resumed r)"
  by (auto simp: sweeping_def left_queue_def) (cases r; simp)+

lemma accounted_handled:
  assumes "accounted q"
  shows "length (q_accepted q) = length (q_written q) + length (q_lost q) + length (in_hand (q_worker q)) + length (q_samples q)"
  using assms by (auto simp: accounted_def dest: length_shuffles)

lemma qstep_guarded:
  assumes "guarded k w q"
  shows "guarded k w (qstep env l q)"
proof -
  have acc: "accounted (qstep env l q)" and lif: "lifecycle_ok (qstep env l q)"
    using assms by (simp_all add: guarded_def qstep_accounted qstep_lifecycle)
  have h: "length (q_accepted q) = length (q_written q) + length (q_lost q) + length (in_hand (q_worker q)) + length (q_samples q)"
    using assms accounted_handled by (simp add: guarded_def)
  have "k \<le> length (q_accepted (qstep env l q))
    \<and> (w \<in> set (q_acked (qstep env l q)) \<or> sweeping (q_worker (qstep env l q))
       \<longrightarrow> k \<le> length (q_written (qstep env l q)) + length (q_lost (qstep env l q)))"
  proof (cases l)
    case (Worker ok)
    show ?thesis using assms h unfolding Worker
      by (cases "q_worker q")
        (auto simp: qstep_def worker_step_def give_up_def guarded_def
          split: list.splits sum.splits option.splits prod.splits resume.splits if_splits)
  qed (use assms h in \<open>auto simp: qstep_def enqueue_def flush_register_def flush_ping_def flush_timeout_def
        close_samples_def drop_queue_def guarded_def split: option.splits\<close>)
  with acc lif show ?thesis by (simp add: guarded_def)
qed

lemma qrun_guarded: "guarded k w q \<Longrightarrow> guarded k w (qrun env ls q)"
  unfolding qrun_def by (induction ls arbitrary: q) (auto intro: qstep_guarded)

text \<open>What a flush promises. When a flush begins while the worker is not between an empty look at the queue
  and its sweep, and its ticket is answered later, then in every interleaving every sample accepted before the
  flush began has been written or counted as lost by then.\<close>

theorem flush_guarantee:
  assumes "w \<notin> set (q_acked (qrun env ls spawn))" "\<not> sweeping (q_worker (qrun env ls spawn))"
    and "w \<in> set (q_acked (qrun env ls' (qrun env ls spawn)))"
  shows "length (q_accepted (qrun env ls spawn))
    \<le> length (q_written (qrun env ls' (qrun env ls spawn))) + length (q_lost (qrun env ls' (qrun env ls spawn)))"
proof -
  have "guarded (length (q_accepted (qrun env ls spawn))) w (qrun env ls spawn)"
    using assms by (simp add: guarded_def qrun_accounted spawn_accounted qrun_lifecycle spawn_lifecycle)
  from qrun_guarded [OF this, of env ls'] assms(3) show ?thesis by (simp add: guarded_def)
qed

theorem flush_guarantee_witness:
  "length (q_accepted (qrun sample_env [Enqueue sample_metrics] spawn))
    \<le> length (q_written (qrun sample_env ([Register 0, Ping] @ replicate 6 (Worker True)) (qrun sample_env [Enqueue sample_metrics] spawn)))
      + length (q_lost (qrun sample_env ([Register 0, Ping] @ replicate 6 (Worker True)) (qrun sample_env [Enqueue sample_metrics] spawn)))"
proof (rule flush_guarantee)
  obtain p t where b: "build_data_point sample_env sample_metrics 0 = (Inr (Some p), t)" using sample_builds by blast
  have s: "qrun sample_env [Enqueue sample_metrics] spawn = spawn\<lparr>q_samples := [sample_metrics], q_accepted := [sample_metrics]\<rparr>"
    by (simp add: qrun_def qstep_def enqueue_def spawn_def CAPACITY_def)
  show "0 \<notin> set (q_acked (qrun sample_env [Enqueue sample_metrics] spawn))"
    and "\<not> sweeping (q_worker (qrun sample_env [Enqueue sample_metrics] spawn))"
    unfolding s by (simp_all add: spawn_def)
  show "0 \<in> set (q_acked (qrun sample_env ([Register 0, Ping] @ replicate 6 (Worker True)) (qrun sample_env [Enqueue sample_metrics] spawn)))"
    unfolding s by (simp add: qrun_def qstep_def spawn_def flush_register_def flush_ping_def worker_step_def b
        swept_def ack_waiters.simps numeral_eq_Suc)
qed

text \<open>And where it breaks. The ``provable ack point'' is not one: between the worker's empty look at the queue
  and its sweep, a request task enqueues a sample and a flush registers its ticket; the sweep answers the ticket,
  and the flush returns with the earlier sample neither written nor lost.\<close>

theorem flush_acknowledged_early:
  "let q = qrun env [Worker True, Worker True, Enqueue m, Register w, Ping, Worker True] spawn in
     q_acked q = [w] \<and> q_samples q = [m] \<and> q_accepted q = [m] \<and> q_written q = [] \<and> q_lost q = []"
  by (simp add: qrun_def qstep_def worker_step_def spawn_def enqueue_def CAPACITY_def flush_register_def flush_ping_def
      swept_def ack_waiters.simps Let_def)


lemma qstep_gone_acked: "q_worker q = Gone \<Longrightarrow> q_acked (qstep env l q) = q_acked q"
  by (cases l) (auto simp: qstep_def enqueue_def flush_register_def flush_ping_def flush_timeout_def close_samples_def
      drop_queue_def worker_step_def split: option.splits)

lemma qrun_gone_acked: "q_worker q = Gone \<Longrightarrow> q_acked (qrun env ls q) = q_acked q"
  unfolding qrun_def by (induction ls arbitrary: q) (auto simp: qstep_gone_acked qstep_gone)

text \<open>A flush that comes after the last sweep. While the worker returns, a ticket is still registered and the
  ping still accepted, so the flush waits for an answer; but in no continuation is the ticket ever answered, and
  the flush sits out its whole minute on a queue that was empty and closed all along.\<close>

theorem flush_left_waiting:
  "let q = qrun env [Close, Worker True, Worker True, Worker True, Worker True, Register w] spawn;
       q' = qrun env ls (qrun env [Ping, Worker True] q)
   in fst (flush_ping q) \<and> q_samples q = [] \<and> w \<in> set (q_waiters q) \<and> w \<notin> set (q_acked q')"
proof -
  let ?q = "qrun env [Close, Worker True, Worker True, Worker True, Worker True, Register w] spawn"
  have q: "?q = spawn\<lparr>q_open := False, q_worker := Returning, q_waiters := [w]\<rparr>"
    by (simp add: qrun_def qstep_def worker_step_def spawn_def close_samples_def flush_register_def swept_def
        ack_waiters.simps)
  have p: "q_worker (qrun env [Ping, Worker True] ?q) = Gone" "q_acked (qrun env [Ping, Worker True] ?q) = []"
    unfolding q by (simp_all add: qrun_def qstep_def worker_step_def spawn_def flush_ping_def)
  have "w \<notin> set (q_acked (qrun env ls (qrun env [Ping, Worker True] ?q)))"
    using qrun_gone_acked [OF p(1), of env ls] p(2) by simp
  moreover have "fst (flush_ping ?q) \<and> q_samples ?q = [] \<and> w \<in> set (q_waiters ?q)"
    unfolding q by (simp add: flush_ping_def spawn_def)
  ultimately show ?thesis by (simp add: Let_def)
qed

end
