(* ===== verification/Text_Format.thy ===== *)
theory Text_Format
  imports Float64 Utf8_Text
begin

text \<open>
  What Rust's formatting macros print, as far as the sources use them: \<^verbatim>\<open>f64\<close> with a fixed number of decimals
  (the exact value rounded to nearest, ties to even), padding to a number of scalars, and cuts of a text on
  scalar boundaries.
\<close>

section \<open>Numbers\<close>

text \<open>\<open>n\<close> is the value in units of the last decimal.\<close>

definition point_digits :: "nat \<Rightarrow> nat \<Rightarrow> string" where
  "point_digits k n = digits (n div 10 ^ k)
     @ (if k = 0 then [] else (let f = digits (n mod 10 ^ k) in ''.'' @ replicate (k - length f) (CHR ''0'') @ f))"

definition fixed_units :: "nat \<Rightarrow> nat \<Rightarrow> nat" where
  "fixed_units k a = (let (m, e) = decode_magnitude a in round_even (m * 10 ^ k * up e) (up (- e)))"

definition fixed_text :: "nat \<Rightarrow> f64 \<Rightarrow> string" where
  "fixed_text k x = (if is_nan x then ''NaN''
     else (if negative x then ''-'' else [])
       @ (if magnitude x = F64_INF then ''inf'' else point_digits k (fixed_units k (magnitude x))))"

section \<open>Further arithmetic\<close>

text \<open>The finite value as an integer multiple of \<open>2 ^ e\<close>, for \<open>e\<close> not above its own exponent.\<close>

definition scaled_value :: "f64 \<Rightarrow> int \<Rightarrow> int" where
  "scaled_value x e = (let (m, f) = decode_magnitude (magnitude x) in
     (if negative x then - 1 else 1) * int (m * up (f - e)))"

definition f64_add :: "f64 \<Rightarrow> f64 \<Rightarrow> f64" where
  "f64_add x y =
     (if is_nan x \<or> is_nan y then F64_NAN
      else if magnitude x = F64_INF then
        (if magnitude y = F64_INF \<and> negative x \<noteq> negative y then F64_NAN else x)
      else if magnitude y = F64_INF then y
      else if magnitude x = 0 \<and> magnitude y = 0 then signed (negative x \<and> negative y) 0
      else (let e = min (snd (decode_magnitude (magnitude x))) (snd (decode_magnitude (magnitude y)));
                v = scaled_value x e + scaled_value y e
            in if v = 0 then 0 else signed (v < 0) (round_ratio (nat \<bar>v\<bar> * up e) (up (- e)))))"

text \<open>\<^verbatim>\<open>f64::round\<close> followed by a saturating cast to an unsigned integer: halves go away from zero, NaN and
  negative values give 0. \<open>lim\<close> is the largest value of the type.\<close>

definition f64_round_to_nat :: "nat \<Rightarrow> f64 \<Rightarrow> nat" where
  "f64_round_to_nat lim x = (if is_nan x \<or> negative x then 0 else if magnitude x = F64_INF then lim
     else (let (m, e) = decode_magnitude (magnitude x) in min lim ((2 * m * up e + up (- e)) div (2 * up (- e)))))"

definition f64_min :: "f64 \<Rightarrow> f64 \<Rightarrow> f64" where
  "f64_min x y = (if is_nan x then y else if is_nan y then x else if f64_gt x y then y else x)"

section \<open>Padding\<close>

definition pad_left :: "nat \<Rightarrow> string \<Rightarrow> string" where
  "pad_left w s = replicate (w - char_count s) (CHR '' '') @ s"

definition pad_right :: "nat \<Rightarrow> string \<Rightarrow> string" where
  "pad_right w s = s @ replicate (w - char_count s) (CHR '' '')"

section \<open>White space\<close>

text \<open>\<^verbatim>\<open>str::split_whitespace\<close>.\<close>

fun white_split :: "string list \<Rightarrow> string \<Rightarrow> string list" where
  "white_split [] acc = (if acc = [] then [] else [acc])"
| "white_split (c # cs) acc =
     (if is_whitespace c then (if acc = [] then white_split cs [] else acc # white_split cs [])
      else white_split cs (acc @ c))"

definition split_whitespace :: "string \<Rightarrow> string list" where
  "split_whitespace s = white_split (chars s) []"

section \<open>Scalar boundaries\<close>

text \<open>The offsets of \<^verbatim>\<open>char_indices\<close>.\<close>

fun char_starts :: "nat \<Rightarrow> string list \<Rightarrow> nat list" where
  "char_starts i [] = []"
| "char_starts i (c # cs) = i # char_starts (i + length c) cs"

definition char_indices :: "string \<Rightarrow> nat list" where
  "char_indices s = char_starts 0 (chars s)"

text \<open>The longest run of leading scalars that fits a budget of bytes, and of trailing ones.\<close>

fun fitting :: "nat \<Rightarrow> string list \<Rightarrow> string list" where
  "fitting budget [] = []"
| "fitting budget (c # cs) = (if budget < length c then [] else c # fitting (budget - length c) cs)"

section \<open>Facts\<close>

lemma length_fitting: "length (concat (fitting b cs)) \<le> b"
  by (induction b cs rule: fitting.induct) auto

lemma fitting_prefix: "\<exists>r. cs = fitting b cs @ r"
  by (induction b cs rule: fitting.induct) auto

lemma digit_codes: "c \<in> set (digits n) \<Longrightarrow> 48 \<le> (of_char c :: nat) \<and> (of_char c :: nat) \<le> 57"
proof (induction n rule: digits.induct)
  case (1 n)
  show ?case
  proof (cases "n < 10")
    case True
    then show ?thesis using 1 by (simp add: digits.simps [of n])
  next
    case False
    with 1 consider "c \<in> set (digits (n div 10))" | "c = char_of (48 + n mod 10)" by (auto simp: digits.simps [of n])
    then show ?thesis using 1 False by cases simp_all
  qed
qed

text \<open>The bytes a number can be printed with.\<close>

definition number_byte :: "char \<Rightarrow> bool" where
  "number_byte c = ((48 \<le> (of_char c :: nat) \<and> (of_char c :: nat) \<le> 57) \<or> c \<in> set ''.-NaNinf'')"

lemma digits_number_bytes: "c \<in> set (digits n) \<Longrightarrow> number_byte c"
  using digit_codes by (simp add: number_byte_def)

lemma fixed_text_bytes: "c \<in> set (fixed_text k x) \<Longrightarrow> number_byte c"
  by (auto simp: fixed_text_def point_digits_def Let_def digits_number_bytes split: if_splits)
    (auto simp: number_byte_def)


end
