(* ===== verification/Stats_Format.thy ===== *)
theory Stats_Format
  imports Text_Format Collector
begin

text \<open>
  The renderings of a sample (\<^verbatim>\<open>stats/formatter.rs\<close>) and of a request (\<^verbatim>\<open>stats/request_log.rs\<close>) for the log.
  Parameters: the cell widths of the \<^verbatim>\<open>unicode-width\<close> crate, the time stamp's text, and serde's JSON text of
  a sample.
\<close>

record render_env =
  str_width :: "string \<Rightarrow> nat"
  char_width :: "string \<Rightarrow> nat option"       \<comment> \<open>of one scalar\<close>
  time_text :: "nat \<Rightarrow> string"
  metrics_json :: "request_metrics \<Rightarrow> string option"

section \<open>Cells\<close>

definition token_cell :: "u64 option \<Rightarrow> string" where
  "token_cell t = (case t of None \<Rightarrow> ''n/a'' | Some n \<Rightarrow> u64_text n)"

definition BOX_INNER :: nat where "BOX_INNER = 66"

definition box_char :: "nat \<Rightarrow> string" where "box_char b = [CHR 0xE2, CHR 0x94, char_of b]"

abbreviation VBAR :: string where "VBAR \<equiv> box_char 0x82"

definition spaces :: "nat \<Rightarrow> string" where "spaces n = replicate n (CHR '' '')"

definition box_row :: "render_env \<Rightarrow> string \<Rightarrow> string" where
  "box_row env content = VBAR @ content @ spaces (BOX_INNER - str_width env content) @ VBAR @ [NEWLINE]"

fun width_run :: "render_env \<Rightarrow> nat \<Rightarrow> nat \<Rightarrow> string list \<Rightarrow> string" where
  "width_run env budget used [] = []"
| "width_run env budget used (c # cs) = (let w = some_or (char_width env c) 0 in
     if budget < used + w then [] else c @ width_run env budget (used + w) cs)"

definition truncate_to_width :: "render_env \<Rightarrow> string \<Rightarrow> nat \<Rightarrow> string" where
  "truncate_to_width env s max_cells = (if str_width env s \<le> max_cells then s
     else width_run env (max_cells - 3) 0 (chars s) @ ''...'')"

definition labeled_row :: "render_env \<Rightarrow> string \<Rightarrow> string \<Rightarrow> string" where
  "labeled_row env label value = (let head = '' '' @ pad_right 6 label @ '' '' in
     box_row env (head @ truncate_to_width env value (BOX_INNER - char_count head)))"

section \<open>The box\<close>

definition optional_row :: "render_env \<Rightarrow> string \<Rightarrow> string option \<Rightarrow> string" where
  "optional_row env label v = (case v of None \<Rightarrow> [] | Some s \<Rightarrow> labeled_row env label s)"

definition pretty_identity_lines :: "render_env \<Rightarrow> request_metrics \<Rightarrow> string" where
  "pretty_identity_lines env m = labeled_row env ''Model:'' (m_model m)
     @ labeled_row env ''Time:'' (time_text env (m_timestamp m))
     @ optional_row env ''Client:'' (m_client_id m) @ optional_row env ''Conv:'' (m_conversation_id m)"

definition positive_rate :: "f64 option \<Rightarrow> bool" where
  "positive_rate v = is_some_and (\<lambda>x. f64_gt x 0) v"

definition tps_side :: "f64 option \<Rightarrow> string" where
  "tps_side v = (case v of Some x \<Rightarrow> if f64_gt x 0 then pad_left 6 (fixed_text 2 x) else ''   n/a'' | None \<Rightarrow> ''   n/a'')"

definition ms_side :: "f64 \<Rightarrow> string" where
  "ms_side v = (if f64_gt v 0 then pad_left 7 (fixed_text 1 v) else ''    n/a'')"

definition floor_side :: "f64 \<Rightarrow> string" where
  "floor_side v = (if f64_gt v 0 then pad_left 8 (fixed_text 2 v) else ''     n/a'')"

definition tps_tier :: "request_metrics \<Rightarrow> nat" where
  "tps_tier m = (if positive_rate (m_generation_tps m) then 1 else if f64_gt (m_decode_tps_min m) 0 then 2 else 3)"

definition speed_row :: "render_env \<Rightarrow> string \<Rightarrow> f64 option \<Rightarrow> f64 \<Rightarrow> string" where
  "speed_row env label tps ms =
     box_row env (label @ pad_left 8 (tps_side tps) @ '' tokens/sec ('' @ ms_side ms @ ''ms)'')"

definition pretty_performance_lines :: "render_env \<Rightarrow> request_metrics \<Rightarrow> string" where
  "pretty_performance_lines env m =
     (let prompt_row = speed_row env ''   Prompt Processing: '' (m_prompt_tps m) (m_prompt_ms m);
          prefill_measured = positive_rate (m_prompt_tps m)
      in if tps_tier m = 1 then prompt_row @ speed_row env ''   Generation:        '' (m_generation_tps m) (m_generation_ms m)
         else (if prefill_measured then prompt_row else [])
           @ box_row env (''   Decode (floor):    '' @ floor_side (m_decode_tps_min m) @ '' tokens/sec (wall-bounded)'')
           @ box_row env (''   Work rate:         '' @ pad_left 8 (fixed_text 2 (m_total_tps m)) @ '' tokens/sec (all tokens/wall)'')
           @ box_row env (if prefill_measured then ''   (no backend decode rate: prefill measured, floor is a bound)''
               else ''   (no backend split: decode is a floor, work is cost)''))"

definition pretty_tokens_lines :: "render_env \<Rightarrow> request_metrics \<Rightarrow> string" where
  "pretty_tokens_lines env m =
     box_row env (''   Input: '' @ pad_left 6 (token_cell (m_prompt_tokens m)) @ '' '' @ VBAR @ '' Output: ''
         @ pad_left 6 (token_cell (m_completion_tokens m)) @ '' '' @ VBAR @ '' Total: '' @ pad_left 6 (u64_text (m_total_tokens m)))
     @ (case m_reasoning_tokens m of None \<Rightarrow> [] | Some r \<Rightarrow> box_row env (''   Reasoning Tokens: '' @ u64_text r))"

definition context_text :: "request_metrics \<Rightarrow> string" where
  "context_text m = (case (m_context_used m, m_context_total m, m_context_percent m) of
       (Some u, Some t, Some pct) \<Rightarrow> u64_text u @ ''/'' @ u64_text t @ '' ('' @ fixed_text 1 pct @ ''%)''
     | (Some u, Some t, None) \<Rightarrow> u64_text u @ ''/'' @ u64_text t
     | _ \<Rightarrow> ''N/A'')"

definition pretty_badge :: "request_metrics \<Rightarrow> string option" where
  "pretty_badge m = (if m_stream_end m = Some ''truncated'' then Some ''TRUNCATED (backend ended without a completion event)''
     else if m_stream_end m = Some ''stalled'' then Some ''STALLED (stream timed out before completion)''
     else if m_stream_end m = Some ''client_gone'' then None else Some ''ok'')"

definition pretty_footer_lines :: "render_env \<Rightarrow> request_metrics \<Rightarrow> string" where
  "pretty_footer_lines env m =
     labeled_row env ''Context:'' (context_text m) @ labeled_row env ''Finish:'' (m_finish_reason m)
     @ (if m_streaming m then optional_row env ''Stream:'' (pretty_badge m) else [])
     @ labeled_row env ''Duration:'' (fixed_text 1 (m_duration_ms m) @ ''ms'')
     @ optional_row env ''Concurrent:'' (map_option u64_text (m_concurrent_requests m))"

definition box_rule :: "nat \<Rightarrow> nat \<Rightarrow> string" where
  "box_rule l r = box_char l @ concat (replicate BOX_INNER (box_char 0x80)) @ box_char r @ [NEWLINE]"

definition format_pretty :: "render_env \<Rightarrow> request_metrics \<Rightarrow> string" where
  "format_pretty env m =
     (let separator = box_rule 0x9C 0xA4 in
      box_rule 0x8C 0x90 @ box_row env '' LLM Request Metrics'' @ separator @ pretty_identity_lines env m @ separator
      @ box_row env '' Performance'' @ pretty_performance_lines env m @ separator
      @ box_row env '' Tokens'' @ pretty_tokens_lines env m @ separator @ pretty_footer_lines env m @ box_rule 0x94 0x98)"

definition format_json :: "render_env \<Rightarrow> request_metrics \<Rightarrow> string" where
  "format_json env m = some_or (metrics_json env m) ''{}''"

section \<open>The compact line\<close>

definition MAX_FREE_FORM_CHARS :: nat where "MAX_FREE_FORM_CHARS = 64"
definition MAX_FINISH_CELLS :: nat where "MAX_FINISH_CELLS = 24"

text \<open>\<^verbatim>\<open>char::is_control\<close> of one scalar: U+0000 to U+001F and U+007F to U+009F.\<close>

definition is_control :: "string \<Rightarrow> bool" where
  "is_control c = (case map (of_char :: char \<Rightarrow> nat) c of
       [a] \<Rightarrow> a < 32 \<or> a = 127
     | [a, b] \<Rightarrow> a = 194 \<and> 128 \<le> b \<and> b \<le> 159
     | _ \<Rightarrow> False)"

definition is_line_separator :: "string \<Rightarrow> bool" where
  "is_line_separator c = (c = [CHR 0xE2, CHR 0x80, CHR 0xA8] \<or> c = [CHR 0xE2, CHR 0x80, CHR 0xA9])"

definition free_form :: "string \<Rightarrow> string" where
  "free_form value = concat (map (\<lambda>c. if is_control c \<or> is_line_separator c \<or> c = ''='' then '' '' else c)
     (take MAX_FREE_FORM_CHARS (chars value)))"

definition pad_cells :: "render_env \<Rightarrow> string \<Rightarrow> nat \<Rightarrow> string" where
  "pad_cells env s cells = s @ spaces (cells - str_width env s)"

definition rate_group :: "request_metrics \<Rightarrow> string" where
  "rate_group m =
     (if tps_tier m = 1 then
        ''pp='' @ pad_left 8 (fixed_text 3 (f64_div (some_or (m_prompt_tps m) 0) (f64_of_nat 1000))) @ ''k tg=''
          @ pad_left 7 (fixed_text 1 (some_or (m_generation_tps m) 0))
      else if tps_tier m = 2 then ''pp=     n/a tg>='' @ pad_left 7 (fixed_text 1 (m_decode_tps_min m))
      else ''pp=     n/a tg=     n/a'')"

definition stream_badge :: "request_metrics \<Rightarrow> string" where
  "stream_badge m = (if \<not> m_streaming m then ''sync''
     else if m_stream_end m = Some ''truncated'' then ''trunc''
     else if m_stream_end m = Some ''stalled'' then ''stalled''
     else if m_stream_end m = Some ''client_gone'' then ''gone''
     else if m_stream_end m = Some ''ok'' then ''ok''
     else if m_stream_incomplete m then ''trunc'' else ''ok'')"

definition finish_cell :: "render_env \<Rightarrow> string \<Rightarrow> string" where
  "finish_cell env reason = (let v = free_form reason in
     if trim v = [] \<or> trim v = ''unknown'' then ''n/a'' else truncate_to_width env v MAX_FINISH_CELLS)"

definition compact_head :: "render_env \<Rightarrow> request_metrics \<Rightarrow> string list" where
  "compact_head env m =
     [''model='' @ pad_cells env (truncate_to_width env (free_form (m_model m)) 16) 16,
      rate_group m,
      ''dur='' @ pad_left 7 (fixed_text 0 (if f64_is_finite (m_duration_ms m)
          then f64_min (m_duration_ms m) (f64_of_nat 9999999) else F64_NAN)) @ ''ms'',
      ''ctx='' @ pad_left 6 (token_cell (m_context_used m)) @ ''/'' @ pad_left 6 (token_cell (m_context_total m)),
      ''tok='' @ pad_left 6 (token_cell (m_prompt_tokens m)) @ ''/'' @ pad_left 6 (token_cell (m_completion_tokens m)),
      ''stream='' @ pad_cells env (stream_badge m) 7,
      ''finish='' @ pad_cells env (finish_cell env (m_finish_reason m)) 10]"

definition compact_tail :: "request_metrics \<Rightarrow> string list" where
  "compact_tail m =
     (case m_group_name m of None \<Rightarrow> [] | Some g \<Rightarrow> [''group='' @ free_form g])
     @ (if tps_tier m \<noteq> 1 \<and> f64_gt (m_total_tps m) 0 then [''work='' @ fixed_text 2 (m_total_tps m)] else [])
     @ (case m_queue_ms m of None \<Rightarrow> [] | Some q \<Rightarrow> if f64_ge q (f64_of_nat 1) then [''queue='' @ fixed_text 0 q @ ''ms''] else [])
     @ (case m_concurrent_requests m of None \<Rightarrow> [] | Some c \<Rightarrow> [''concurrent='' @ u64_text c])
     @ (case m_cached_tokens m of None \<Rightarrow> [] | Some c \<Rightarrow> if 0 < c then [''cache='' @ u64_text c] else [])"

definition format_compact :: "render_env \<Rightarrow> request_metrics \<Rightarrow> string" where
  "format_compact env m = trim_end (join '' '' (compact_head env m) @ '' '' @ join '' '' (compact_tail m))"

definition format_metrics :: "render_env \<Rightarrow> request_metrics \<Rightarrow> stats_format \<Rightarrow> string" where
  "format_metrics env m fmt = (case fmt of StatsPretty \<Rightarrow> format_pretty env m | StatsJson \<Rightarrow> format_json env m
     | StatsCompact \<Rightarrow> format_compact env m)"

section \<open>The request line\<close>

text \<open>\<^verbatim>\<open>extract_message_content\<close>: no text part is no content.\<close>

definition part_text :: "json \<Rightarrow> string list" where
  "part_text part = (if get_str part ''type'' = Some ''text'' then (case get_str part ''text'' of None \<Rightarrow> [] | Some t \<Rightarrow> [t])
     else [])"

definition extract_message_content :: "json \<Rightarrow> string option" where
  "extract_message_content msg = (case get msg ''content'' of
       None \<Rightarrow> None
     | Some content \<Rightarrow> (case as_str content of
           Some text \<Rightarrow> Some text
         | None \<Rightarrow> (case as_array content of
               None \<Rightarrow> None
             | Some parts \<Rightarrow> (let texts = concat (map part_text parts) in if texts = [] then None else Some (join '' '' texts)))))"

definition normalize_whitespace :: "string \<Rightarrow> string" where
  "normalize_whitespace s = join '' '' (split_whitespace
     (map (\<lambda>c. if c = NEWLINE \<or> c = CR \<or> c = CHR 0x09 then CHR '' '' else c) s))"

definition truncate_message :: "string \<Rightarrow> string" where
  "truncate_message s = (if length s \<le> 100 then s
     else (let head_end = last (0 # takeWhile (\<lambda>i. i \<le> 25) (char_indices s));
               tail_start = last (length s # takeWhile (\<lambda>i. length s - 75 \<le> i) (rev (char_indices s)))
           in take head_end s @ '' ... '' @ drop tail_start s))"

fun first_user_message :: "json list \<Rightarrow> bool \<Rightarrow> string option" where
  "first_user_message [] pending = (if pending then Some ''<unparseable>'' else None)"
| "first_user_message (msg # ms) pending =
     (if some_or (get_str msg ''role'') [] \<noteq> ''user'' then first_user_message ms pending
      else (case extract_message_content msg of
          Some content \<Rightarrow> Some (truncate_message (normalize_whitespace content))
        | None \<Rightarrow> first_user_message ms True))"

definition extract_first_user_message :: "json \<Rightarrow> string option" where
  "extract_first_user_message req = (case get_array req ''messages'' of
       None \<Rightarrow> None
     | Some ms \<Rightarrow> first_user_message ms False)"

definition get_bool :: "json \<Rightarrow> string \<Rightarrow> bool option" where
  "get_bool v k = (case get v k of Some (JBool b) \<Rightarrow> Some b | _ \<Rightarrow> None)"

definition format_request_log :: "json \<Rightarrow> string" where
  "format_request_log req =
     [CHR 0xE2, CHR 0x86, CHR 0x92] @ '' '' @ join '' ''
       ([''model='' @ some_or (get_str req ''model'') ''unknown'',
         ''msgs='' @ digits (length (some_or (get_array req ''messages'') []))]
        @ (if some_or (get_bool req ''stream'') False then [''stream''] else [])
        @ (case get_array req ''tools'' of None \<Rightarrow> [] | Some t \<Rightarrow> if 0 < length t then [''tools='' @ digits (length t)] else [])
        @ (case extract_first_user_message req of None \<Rightarrow> [] | Some msg \<Rightarrow> [[QUOTE] @ msg @ [QUOTE]]))"

end
