(* ===== verification/Stats_Format_Correct.thy ===== *)
theory Stats_Format_Correct
  imports Stats_Format
begin

text \<open>
  The compact line cannot be forged: whatever text a backend or a configuration puts into a sample, the line is one
  line of printable scalars whose equals signs are its own. The request line's excerpt is a prefix and a suffix of the
  message on scalar boundaries.
\<close>

section \<open>Printable text\<close>

text \<open>A scalar of valid UTF-8: ASCII alone, or a leading byte with continuations.\<close>

definition scalar_ok :: "string \<Rightarrow> bool" where
  "scalar_ok c = (c \<noteq> [] \<and> \<not> is_cont (hd c) \<and> (of_char (hd c) < (128 :: nat) \<longrightarrow> length c = 1))"

definition wf_text :: "string \<Rightarrow> bool" where
  "wf_text s = list_all scalar_ok (chars s)"

definition printable :: "string \<Rightarrow> bool" where
  "printable c = (scalar_ok c \<and> \<not> is_control c \<and> \<not> is_line_separator c)"

definition safe :: "string \<Rightarrow> bool" where
  "safe s = list_all printable (chars s)"

definition equals_signs :: "string \<Rightarrow> nat" where
  "equals_signs s = count_list s (CHR ''='')"

lemma hd_chars: "s \<noteq> [] \<Longrightarrow> hd (hd (chars s)) = hd s"
  by (cases s) auto

lemma safe_wf: "safe s \<Longrightarrow> wf_text s"
  by (auto simp: safe_def wf_text_def printable_def list_all_iff)

lemma wf_text_hd: "wf_text s \<Longrightarrow> s = [] \<or> \<not> is_cont (hd s)"
  by (cases s) (auto simp: wf_text_def scalar_ok_def)

lemma chars_append_wf: "wf_text y \<Longrightarrow> chars (x @ y) = chars x @ chars y"
  by (rule chars_append [OF wf_text_hd])

lemma safe_append [intro]: "\<lbrakk>safe x; safe y\<rbrakk> \<Longrightarrow> safe (x @ y)"
  using chars_append_wf [OF safe_wf, of y x] by (simp add: safe_def)

lemma safe_Nil [simp]: "safe []"
  by (simp add: safe_def)

definition plain_byte :: "char \<Rightarrow> bool" where
  "plain_byte c = (32 \<le> (of_char c :: nat) \<and> (of_char c :: nat) < 127)"

lemma plain_not_cont: "plain_byte c \<Longrightarrow> \<not> is_cont c"
  by (simp add: plain_byte_def is_cont_def)

lemma chars_plain: "list_all plain_byte s \<Longrightarrow> chars s = map (\<lambda>c. [c]) s"
proof (induction s)
  case (Cons c s)
  then have "takeWhile is_cont s = []" "dropWhile is_cont s = s"
    using plain_not_cont by (cases s; simp)+
  with Cons show ?case by simp
qed simp

lemma safe_plain: "list_all plain_byte s \<Longrightarrow> safe s"
  by (auto simp: safe_def chars_plain list_all_iff printable_def scalar_ok_def plain_not_cont is_control_def
      is_line_separator_def plain_byte_def)

lemma safe_Cons [simp]: "\<lbrakk>plain_byte c; safe s\<rbrakk> \<Longrightarrow> safe (c # s)"
  using safe_append [of "[c]" s] safe_plain [of "[c]"] by simp

lemma safe_appendI [simp]: "\<lbrakk>safe x; safe y\<rbrakk> \<Longrightarrow> safe (x @ y)"
  by (rule safe_append)

lemma equals_append [simp]: "equals_signs (x @ y) = equals_signs x + equals_signs y"
  by (simp add: equals_signs_def)

lemma equals_simps [simp]: "equals_signs [] = 0" "equals_signs (c # s) = (if c = CHR ''='' then 1 else 0) + equals_signs s"
  by (simp_all add: equals_signs_def)

lemma equals_none: "CHR ''='' \<notin> set s \<Longrightarrow> equals_signs s = 0"
  by (simp add: equals_signs_def)

section \<open>Cells\<close>

lemma number_byte_plain: "number_byte c \<Longrightarrow> plain_byte c \<and> c \<noteq> CHR ''=''"
  by (auto simp: number_byte_def plain_byte_def)

lemma safe_number:
  assumes "\<And>c. c \<in> set s \<Longrightarrow> number_byte c"
  shows "safe s \<and> equals_signs s = 0"
  using assms number_byte_plain by (auto simp: list_all_iff intro!: safe_plain equals_none)

lemma safe_fixed [simp]: "safe (fixed_text k x)" "equals_signs (fixed_text k x) = 0"
  using safe_number [of "fixed_text k x"] fixed_text_bytes by blast+

lemma safe_u64 [simp]: "safe (u64_text n)" "equals_signs (u64_text n) = 0"
  using safe_number [of "u64_text n"] digits_number_bytes by (auto simp: u64_text_def)

lemma safe_spaces [simp]: "safe (replicate n (CHR '' ''))" "equals_signs (replicate n (CHR '' '')) = 0"
    "safe (spaces n)" "equals_signs (spaces n) = 0"
proof -
  have "list_all plain_byte (replicate n (CHR '' ''))" by (simp add: list_all_iff plain_byte_def)
  then show "safe (replicate n (CHR '' ''))" by (rule safe_plain)
  then show "safe (spaces n)" by (simp add: spaces_def)
  show "equals_signs (replicate n (CHR '' '')) = 0" by (rule equals_none) simp
  then show "equals_signs (spaces n) = 0" by (simp add: spaces_def)
qed

lemma safe_pad_left [simp]: "safe s \<Longrightarrow> safe (pad_left w s)" "equals_signs (pad_left w s) = equals_signs s"
  by (auto simp: pad_left_def)

lemma safe_pad_cells [simp]: "safe s \<Longrightarrow> safe (pad_cells env s n)" "equals_signs (pad_cells env s n) = equals_signs s"
  by (auto simp: pad_cells_def)

lemma safe_token_cell [simp]: "safe (token_cell t)" "equals_signs (token_cell t) = 0"
  by (auto simp: token_cell_def plain_byte_def intro: safe_plain split: option.split)

lemma scalar_equals: "scalar_ok c \<Longrightarrow> c \<noteq> ''='' \<Longrightarrow> hd c \<noteq> CHR ''=''"
  by (cases c) (auto simp: scalar_ok_def)

lemma chars_tail_cont: "c \<in> set (chars s) \<Longrightarrow> list_all is_cont (tl c)"
  by (induction s rule: chars.induct) (auto simp: list_all_iff dest: set_takeWhileD)

lemma concat_scalars: "list_all (\<lambda>c. scalar_ok c \<and> list_all is_cont (tl c)) cs \<Longrightarrow> chars (concat cs) = cs"
proof (induction cs)
  case (Cons c cs)
  then have c: "scalar_ok c" "list_all is_cont (tl c)" and r: "chars (concat cs) = cs" by auto
  have w: "wf_text (concat cs)" using Cons.prems r by (auto simp: wf_text_def list_all_iff)
  have "chars c = [c]" using c by (cases c) (auto simp: scalar_ok_def takeWhile_eq_all_conv dropWhile_eq_Nil_conv list_all_iff)
  then show ?case using chars_append_wf [OF w, of c] r by simp
qed simp

definition clean :: "string \<Rightarrow> string" where
  "clean c = (if is_control c \<or> is_line_separator c \<or> c = ''='' then '' '' else c)"

lemma clean_scalar:
  assumes "scalar_ok c" "list_all is_cont (tl c)"
  shows "printable (clean c) \<and> list_all is_cont (tl (clean c)) \<and> CHR ''='' \<notin> set (clean c)"
proof (cases "is_control c \<or> is_line_separator c \<or> c = ''=''")
  case True
  then show ?thesis by (simp add: clean_def printable_def scalar_ok_def is_cont_def is_control_def is_line_separator_def)
next
  case False
  have "CHR ''='' \<notin> set (tl c)" using assms(2) by (auto simp: list_all_iff is_cont_def)
  moreover have "hd c \<noteq> CHR ''=''" using scalar_equals [OF assms(1)] False by simp
  ultimately have "CHR ''='' \<notin> set c" using assms(1) by (cases c) (auto simp: scalar_ok_def)
  with False assms show ?thesis by (simp add: clean_def printable_def)
qed

lemma free_form_chars:
  assumes "wf_text s"
  shows "chars (free_form s) = map clean (take MAX_FREE_FORM_CHARS (chars s))"
    and "list_all (\<lambda>c. printable c \<and> list_all is_cont (tl c) \<and> CHR ''='' \<notin> set c)
        (map clean (take MAX_FREE_FORM_CHARS (chars s)))"
proof -
  let ?cs = "map clean (take MAX_FREE_FORM_CHARS (chars s))"
  have k: "scalar_ok c \<and> list_all is_cont (tl c)" if "c \<in> set (take MAX_FREE_FORM_CHARS (chars s))" for c
    using assms that chars_tail_cont by (auto simp: wf_text_def list_all_iff dest!: in_set_takeD)
  then show a: "list_all (\<lambda>c. printable c \<and> list_all is_cont (tl c) \<and> CHR ''='' \<notin> set c) ?cs"
    using clean_scalar by (auto simp: list_all_iff)
  have "free_form s = concat ?cs" by (simp add: free_form_def clean_def [abs_def])
  with a show "chars (free_form s) = ?cs"
    by (simp only:) (rule concat_scalars, auto simp: list_all_iff printable_def)
qed

lemma safe_free_form [simp]: "wf_text s \<Longrightarrow> safe (free_form s)" "wf_text s \<Longrightarrow> equals_signs (free_form s) = 0"
proof -
  assume w: "wf_text s"
  from free_form_chars [OF w] show "safe (free_form s)" by (auto simp: safe_def list_all_iff)
  have "CHR ''='' \<notin> set (concat (chars (free_form s)))"
    using free_form_chars [OF w] by (auto simp: list_all_iff)
  then show "equals_signs (free_form s) = 0" by (intro equals_none) simp
qed

lemma width_run_prefix: "\<exists>n. width_run env b u cs = concat (take n cs)"
proof (induction b u cs rule: width_run.induct)
  case (2 env b u c cs)
  show ?case
  proof (cases "b < u + some_or (char_width env c) 0")
    case True
    then show ?thesis by (intro exI [of _ 0]) (simp add: Let_def)
  next
    case False
    with 2 obtain n where "width_run env b (u + some_or (char_width env c) 0) cs = concat (take n cs)" by auto
    with False show ?thesis by (intro exI [of _ "Suc n"]) (simp add: Let_def)
  qed
qed simp

lemma chars_take_chars: "wf_text s \<Longrightarrow> chars (concat (take n (chars s))) = take n (chars s)"
  using chars_tail_cont [of _ s] by (intro concat_scalars) (auto simp: wf_text_def list_all_iff dest!: in_set_takeD)

lemma truncate_safe:
  assumes "safe s" "equals_signs s = 0"
  shows "safe (truncate_to_width env s n)" "equals_signs (truncate_to_width env s n) = 0"
proof -
  obtain k where k: "width_run env (n - 3) 0 (chars s) = concat (take k (chars s))" using width_run_prefix by blast
  have "safe (concat (take k (chars s)))"
    using chars_take_chars [OF safe_wf [OF assms(1)]] assms(1) by (auto simp: safe_def list_all_iff dest: in_set_takeD)
  moreover have "safe ''...''" by (rule safe_plain) (simp add: plain_byte_def)
  ultimately show "safe (truncate_to_width env s n)" using assms(1) k by (auto simp: truncate_to_width_def)
  have "concat (take k (chars s)) @ concat (drop k (chars s)) = s"
    by (metis append_take_drop_id concat_append concat_chars)
  then have "equals_signs (concat (take k (chars s))) \<le> equals_signs s"
    by (metis equals_append le_add1)
  then show "equals_signs (truncate_to_width env s n) = 0" using assms(2) k by (simp add: truncate_to_width_def)
qed

section \<open>The line\<close>

lemma join_safe: "list_all safe xs \<Longrightarrow> safe (join '' '' xs)"
proof (induction xs rule: induct_list012)
  case (3 x y ys)
  then show ?case by (simp add: plain_byte_def)
qed auto

lemma join_equals: "equals_signs (join '' '' xs) = sum_list (map equals_signs xs)"
  by (induction xs rule: induct_list012) auto

lemma trim_end_safe:
  assumes "safe s"
  shows "safe (trim_end s)" "equals_signs (trim_end s) = equals_signs s"
proof -
  define t where "t = rev (takeWhile is_whitespace (rev (chars s)))"
  define p where "p = rev (dropWhile is_whitespace (rev (chars s)))"
  have c: "chars s = p @ t" unfolding p_def t_def by (metis rev_append rev_rev_ident takeWhile_dropWhile_id)
  then have p: "p = take (length p) (chars s)" by simp
  have e: "trim_end s = concat p" by (simp add: trim_end_def p_def)
  show "safe (trim_end s)" unfolding e
    using chars_take_chars [OF safe_wf [OF assms], of "length p"] p assms c by (auto simp: safe_def list_all_iff)
  have "CHR ''='' \<notin> set c" if "c \<in> set t" for c
  proof -
    have w: "is_whitespace c" using that by (auto simp: t_def dest: set_takeWhileD)
    show ?thesis
    proof
      assume "CHR ''='' \<in> set c"
      then have "61 \<in> set (map (of_char :: char \<Rightarrow> nat) c)" by force
      with w show False by (auto simp: is_whitespace_def split: list.splits)
    qed
  qed
  then have "equals_signs (concat t) = 0" by (intro equals_none) auto
  then show "equals_signs (trim_end s) = equals_signs s"
    using c e by (metis add.right_neutral concat_append concat_chars equals_append)
qed

lemma finish_cell_safe:
  assumes "wf_text s"
  shows "safe (finish_cell env s)" "equals_signs (finish_cell env s) = 0"
  using truncate_safe [of "free_form s"] assms by (simp_all add: finish_cell_def Let_def plain_byte_def)

lemma rate_group_safe: "safe (rate_group m)" "equals_signs (rate_group m) = 2"
  by (simp_all add: rate_group_def plain_byte_def)

lemma badge_safe: "safe (stream_badge m)" "equals_signs (stream_badge m) = 0"
  by (simp_all add: stream_badge_def plain_byte_def)

lemma head_safe:
  assumes "wf_text (m_model m)" "wf_text (m_finish_reason m)"
  shows "list_all safe (compact_head env m)" "sum_list (map equals_signs (compact_head env m)) = 8"
  using assms by (simp_all add: compact_head_def plain_byte_def badge_safe rate_group_safe finish_cell_safe truncate_safe)

lemma tail_safe:
  assumes "\<forall>g. m_group_name m = Some g \<longrightarrow> wf_text g"
  shows "list_all safe (compact_tail m)" "sum_list (map equals_signs (compact_tail m)) = length (compact_tail m)"
  using assms by (simp_all add: compact_tail_def plain_byte_def split: option.split)

text \<open>C31. Nobody but the formatter writes columns. Whatever texts a sample carries as model, finish reason and group,
  its compact log line is a single line of printable scalars, and its equals signs are exactly those of the eight
  head cells and of the cells of the tail: no text of a backend forges a line or a column.\<close>

theorem compact_line_unforgeable:
  assumes "wf_text (m_model m)" "wf_text (m_finish_reason m)" "\<forall>g. m_group_name m = Some g \<longrightarrow> wf_text g"
  shows "let line = format_compact env m in
    (\<forall>c \<in> set (chars line). \<not> is_control c \<and> \<not> is_line_separator c) \<and> NEWLINE \<notin> set line
    \<and> equals_signs line = 8 + length (compact_tail m)"
proof -
  let ?all = "join '' '' (compact_head env m) @ '' '' @ join '' '' (compact_tail m)"
  have s: "safe ?all" using head_safe [OF assms(1,2)] tail_safe [OF assms(3)]
    by (intro safe_append join_safe) (simp_all add: plain_byte_def)
  have "equals_signs ?all = 8 + length (compact_tail m)"
    using head_safe [OF assms(1,2)] tail_safe [OF assms(3)] by (simp add: join_equals)
  with trim_end_safe [OF s] have e: "equals_signs (format_compact env m) = 8 + length (compact_tail m)"
    and p: "safe (format_compact env m)" by (simp_all add: format_compact_def)
  have "NEWLINE \<notin> set c" if "c \<in> set (chars (format_compact env m))" for c
  proof -
    have "printable c" "list_all is_cont (tl c)" using p that chars_tail_cont by (auto simp: safe_def list_all_iff)
    then show ?thesis by (cases c) (auto simp: printable_def scalar_ok_def is_control_def list_all_iff is_cont_def)
  qed
  then have "NEWLINE \<notin> set (format_compact env m)" by (metis UN_E concat_chars set_concat)
  with p e show ?thesis by (auto simp: Let_def safe_def list_all_iff printable_def)
qed

definition sample_render :: render_env where
  "sample_render = \<lparr>str_width = char_count, char_width = (\<lambda>c. Some 1), time_text = (\<lambda>t. digits t), metrics_json = (\<lambda>m. None)\<rparr>"

definition sample_row :: request_metrics where
  "sample_row = (metrics_new ''r1'' 7)\<lparr>m_model := ''m'' @ [NEWLINE] @ ''ctx=1'', m_group_name := Some ''g tok=2''\<rparr>"

theorem compact_line_unforgeable_witness:
  "NEWLINE \<notin> set (format_compact sample_render sample_row) \<and> equals_signs (format_compact sample_render sample_row) = 9"
proof -
  have "length (compact_tail sample_row) = 1"
    by (simp add: compact_tail_def sample_row_def metrics_new_def f64_gt_def)
  moreover have "wf_text (m_model sample_row)" "wf_text (m_finish_reason sample_row)"
    "\<forall>g. m_group_name sample_row = Some g \<longrightarrow> wf_text g"
    by (simp_all add: sample_row_def metrics_new_def wf_text_def scalar_ok_def is_cont_def)
  ultimately show ?thesis
    using compact_line_unforgeable [of sample_row sample_render] by (simp add: Let_def)
qed

text \<open>The two displays disagree on a stream without an end label: the default box calls it fine.\<close>

lemma pretty_badge_hides_truncation:
  "\<lbrakk>m_streaming m; m_stream_incomplete m; m_stream_end m = None\<rbrakk>
   \<Longrightarrow> pretty_badge m = Some ''ok'' \<and> stream_badge m = ''trunc''"
  by (simp add: pretty_badge_def stream_badge_def)

section \<open>Excerpts\<close>

lemma char_starts_boundary:
  "i \<in> set (char_starts k (chars s)) \<Longrightarrow> k \<le> i \<and> i < k + length s \<and> (i = k \<or> \<not> is_cont (s ! (i - k)))"
proof (induction s arbitrary: k rule: chars.induct)
  case (2 b bs)
  let ?t = "takeWhile is_cont bs" and ?d = "dropWhile is_cont bs"
  show ?case
  proof (cases "i = k")
    case False
    with 2 have m: "i \<in> set (char_starts (k + Suc (length ?t)) (chars ?d))" by simp
    note h = "2.IH" [OF m, THEN conjunct1] "2.IH" [OF m, THEN conjunct2, THEN conjunct1]
      "2.IH" [OF m, THEN conjunct2, THEN conjunct2]
    have n: "bs ! (length ?t + j) = ?d ! j" for j
      by (metis nth_append_length_plus takeWhile_dropWhile_id)
    obtain j where j: "i = k + Suc (length ?t) + j" using h(1) le_Suc_ex by blast
    have "\<not> is_cont (?d ! j)"
      using h(2,3) j hd_dropWhile [of is_cont bs] by (cases j) (auto simp: hd_conv_nth)
    moreover have "length bs = length ?t + length ?d" by (metis length_append takeWhile_dropWhile_id)
    ultimately show ?thesis using h j n by simp
  qed simp
qed simp

lemma char_indices_boundary: "i \<in> set (char_indices s) \<Longrightarrow> i < length s \<and> is_char_boundary s i"
  using char_starts_boundary [of i 0 s] by (auto simp: char_indices_def is_char_boundary_def)

lemma last_takeWhile: "last (x # takeWhile P xs) = x \<or> (last (x # takeWhile P xs) \<in> set xs \<and> P (last (x # takeWhile P xs)))"
  by (metis last.simps last_in_set set_takeWhileD)

text \<open>The excerpt of a message in the request log is the message itself up to 100 bytes, and otherwise at most its first
  25 and its last 75 bytes around a mark, both cut on scalar boundaries and never overlapping.\<close>

theorem truncate_message_bounds:
  "length s \<le> 100 \<and> truncate_message s = s
   \<or> (\<exists>a mid b. s = a @ mid @ b \<and> truncate_message s = a @ '' ... '' @ b \<and> length a \<le> 25 \<and> length b \<le> 75
       \<and> is_char_boundary s (length a) \<and> is_char_boundary s (length (a @ mid)))"
proof (cases "length s \<le> 100")
  case False
  define i where "i = last (0 # takeWhile (\<lambda>i. i \<le> 25) (char_indices s))"
  define j where "j = last (length s # takeWhile (\<lambda>i. length s - 75 \<le> i) (rev (char_indices s)))"
  have z: "is_char_boundary s 0" "is_char_boundary s (length s)" by (simp_all add: is_char_boundary_def)
  have i: "i \<le> 25" "is_char_boundary s i"
    using last_takeWhile [of 0 "\<lambda>i. i \<le> 25" "char_indices s"] char_indices_boundary [of i s] z unfolding i_def by auto
  have j: "length s - 75 \<le> j" "j \<le> length s" "is_char_boundary s j"
    using last_takeWhile [of "length s" "\<lambda>i. length s - 75 \<le> i" "rev (char_indices s)"] char_indices_boundary [of j s] z
    unfolding j_def by (auto simp: less_imp_le)
  have ij: "i \<le> j" using i j False by simp
  then have "s = take i s @ drop i (take j s) @ drop j s"
    by (metis append.assoc append_take_drop_id take_take min.absorb1)
  moreover have "truncate_message s = take i s @ '' ... '' @ drop j s"
    using False by (simp add: truncate_message_def i_def j_def Let_def)
  moreover have "length (take i s @ drop i (take j s)) = j" "length (take i s) = i" "length (drop j s) \<le> 75"
    using i j ij False by simp_all
  ultimately show ?thesis using i j by metis
qed (simp add: truncate_message_def)

end
