(* ===== verification/Jsonc.thy ===== *)
theory Jsonc
  imports Utf8_Text
begin

text \<open>
  JSON with comments, as the model switcher reads it
  (\<^verbatim>\<open>opencode/helpers/model-switcher/src/config.rs\<close>): \<open>strip_jsonc\<close> removes the comments and the trailing
  commas before the text is given to the parser, \<open>line_start_depths\<close> finds the nesting depth of each line.

  The sources walk over scalars; every byte they compare with is ASCII, so the walk is over bytes here, and
  over scalars (\<open>chars\<close>) where white space is looked at. A text is described independently as a list of
  tokens, and \<open>strip_jsonc_exact\<close> says what is left of it.
\<close>

abbreviation SLASH :: char where "SLASH \<equiv> CHR 0x2F"
abbreviation STAR :: char where "STAR \<equiv> CHR 0x2A"
abbreviation COMMA :: char where "COMMA \<equiv> CHR 0x2C"
abbreviation SPACE :: char where "SPACE \<equiv> CHR 0x20"

section \<open>The operations\<close>

text \<open>The inner loop of a block comment: \<open>prev\<close> is the scalar before, the comment ends after \<^verbatim>\<open>*/\<close>.\<close>

fun after_block :: "char \<Rightarrow> string \<Rightarrow> string" where
  "after_block prev [] = []"
| "after_block prev (n # s) = (if prev = STAR \<and> n = SLASH then s else after_block n s)"

lemma length_after_block: "length (after_block prev s) \<le> length s"
  by (induction prev s rule: after_block.induct) (auto simp: le_SucI)

lemma length_after_block_lt [termination_simp]: "length (after_block prev (tl s)) < Suc (length s)"
  using length_after_block [of prev "tl s"] by simp

definition peek :: "string \<Rightarrow> char \<Rightarrow> bool" where
  "peek s c = (case s of [] \<Rightarrow> False | n # _ \<Rightarrow> n = c)"

lemma peek_simps [simp]: "\<not> peek [] c" "peek (n # s) c = (n = c)"
  by (simp_all add: peek_def)

fun strip_comments :: "bool \<Rightarrow> string \<Rightarrow> string" where
  "strip_comments in_str [] = []"
| "strip_comments True (c # s) =
     (if c = BACKSLASH then (case s of [] \<Rightarrow> [c] | n # r \<Rightarrow> c # n # strip_comments True r)
      else c # strip_comments (c \<noteq> QUOTE) s)"
| "strip_comments False (c # s) =
     (if c = QUOTE then c # strip_comments True s
      else if c = SLASH \<and> peek s SLASH then strip_comments False (dropWhile (\<lambda>n. n \<noteq> NEWLINE) s)
      else if c = SLASH \<and> peek s STAR then SPACE # strip_comments False (after_block (CHR 0x00) (tl s))
      else c # strip_comments False s)"

definition closes_next :: "string \<Rightarrow> bool" where
  "closes_next s = (case dropWhile is_whitespace (chars s) of [] \<Rightarrow> False | n # _ \<Rightarrow> n = ''}'' \<or> n = '']'')"

fun drop_commas :: "bool \<Rightarrow> string \<Rightarrow> string" where
  "drop_commas in_str [] = []"
| "drop_commas True (c # s) =
     (if c = BACKSLASH \<and> s \<noteq> [] then c # hd s # drop_commas True (tl s)
      else c # drop_commas (c \<noteq> QUOTE) s)"
| "drop_commas False (c # s) =
     (if c = QUOTE then c # drop_commas True s
      else if c = COMMA then (if closes_next s then drop_commas False s else c # drop_commas False s)
      else c # drop_commas False s)"

definition remove_trailing_commas :: "string \<Rightarrow> string" where
  "remove_trailing_commas src = drop_commas False src"

definition strip_jsonc :: "string \<Rightarrow> string" where
  "strip_jsonc src = remove_trailing_commas (strip_comments False src)"

definition parse_jsonc :: "(string \<Rightarrow> ('v, string) result) \<Rightarrow> string \<Rightarrow> ('v, string list) result" where
  "parse_jsonc from_str src = (case from_str (strip_jsonc src) of
       Inl e \<Rightarrow> Err [''not valid JSONC'', e]
     | Inr v \<Rightarrow> Ok v)"

text \<open>The scan of one line: depth, whether inside a string and whether inside a block comment.\<close>

fun scan_depth :: "nat \<Rightarrow> bool \<Rightarrow> bool \<Rightarrow> string \<Rightarrow> nat \<times> bool \<times> bool" where
  "scan_depth depth in_str in_block [] = (depth, in_str, in_block)"
| "scan_depth depth in_str True (c # s) =
     (if c = STAR \<and> peek s SLASH then scan_depth depth in_str False (tl s) else scan_depth depth in_str True s)"
| "scan_depth depth True False (c # s) =
     (if c = BACKSLASH then scan_depth depth True False (tl s) else scan_depth depth (c \<noteq> QUOTE) False s)"
| "scan_depth depth False False (c # s) =
     (if c = QUOTE then scan_depth depth True False s
      else if c = SLASH \<and> peek s SLASH then (depth, False, False)
      else if c = SLASH \<and> peek s STAR then scan_depth depth False True (tl s)
      else if c = CHR ''{'' \<or> c = CHR ''['' then scan_depth (depth + 1) False False s
      else if c = CHR ''}'' \<or> c = CHR '']'' then scan_depth (depth - 1) False False s
      else scan_depth depth False False s)"

fun line_depths :: "nat \<times> bool \<times> bool \<Rightarrow> string list \<Rightarrow> nat list" where
  "line_depths st [] = []"
| "line_depths (depth, in_str, in_block) (l # ls) = depth # line_depths (scan_depth depth in_str in_block l) ls"

definition line_start_depths :: "string \<Rightarrow> nat list" where
  "line_start_depths content = line_depths (0, False, False) (text_lines content)"

section \<open>Tokens\<close>

datatype jsonc_token =
    Mark char                \<comment> \<open>a byte outside strings and comments\<close>
  | Quoted string            \<comment> \<open>a string literal, with its raw body\<close>
  | Line_Comment string
  | Block_Comment string

fun render :: "jsonc_token \<Rightarrow> string" where
  "render (Mark c) = [c]"
| "render (Quoted b) = QUOTE # b @ [QUOTE]"
| "render (Line_Comment t) = SLASH # SLASH # t"
| "render (Block_Comment t) = SLASH # STAR # t @ [STAR, SLASH]"

abbreviation render_all :: "jsonc_token list \<Rightarrow> string" where "render_all ts \<equiv> concat (map render ts)"

text \<open>Every quote of a literal's body is escaped, and the body does not end inside an escape.\<close>

fun closed_body :: "string \<Rightarrow> bool" where
  "closed_body [] = True"
| "closed_body (c # s) = (if c = BACKSLASH then (case s of [] \<Rightarrow> False | n # r \<Rightarrow> closed_body r)
     else c \<noteq> QUOTE \<and> closed_body s)"

fun no_close :: "string \<Rightarrow> bool" where
  "no_close (a # b # s) = (\<not> (a = STAR \<and> b = SLASH) \<and> no_close (b # s))"
| "no_close _ = True"

fun wf_token :: "jsonc_token \<Rightarrow> bool" where
  "wf_token (Mark c) = (is_ascii c \<and> c \<noteq> QUOTE \<and> c \<noteq> SLASH)"
| "wf_token (Quoted b) = closed_body b"
| "wf_token (Line_Comment t) = (NEWLINE \<notin> set t)"
| "wf_token (Block_Comment t) = no_close t"

text \<open>A line comment ends with its line.\<close>

fun wf_tokens :: "jsonc_token list \<Rightarrow> bool" where
  "wf_tokens [] = True"
| "wf_tokens (Line_Comment t # ts) = (wf_token (Line_Comment t) \<and> (ts = [] \<or> hd ts = Mark NEWLINE) \<and> wf_tokens ts)"
| "wf_tokens (t # ts) = (wf_token t \<and> wf_tokens ts)"

fun uncomment :: "jsonc_token \<Rightarrow> jsonc_token list" where
  "uncomment (Line_Comment t) = []"
| "uncomment (Block_Comment t) = [Mark SPACE]"
| "uncomment t = [t]"

definition white_token :: "jsonc_token \<Rightarrow> bool" where
  "white_token t = (case t of Mark c \<Rightarrow> is_whitespace [c] | _ \<Rightarrow> False)"

definition closer_follows :: "jsonc_token list \<Rightarrow> bool" where
  "closer_follows ts = (case dropWhile white_token ts of
       [] \<Rightarrow> False | t # _ \<Rightarrow> t = Mark (CHR ''}'') \<or> t = Mark (CHR '']''))"

fun without_trailing :: "jsonc_token list \<Rightarrow> jsonc_token list" where
  "without_trailing [] = []"
| "without_trailing (t # ts) =
     (if t = Mark COMMA \<and> closer_follows ts then without_trailing ts else t # without_trailing ts)"

text \<open>What the parser is to see: no comment, and no comma whose next token closes an array or an object.\<close>

definition plain_tokens :: "jsonc_token list \<Rightarrow> jsonc_token list" where
  "plain_tokens ts = without_trailing (concat (map uncomment ts))"

section \<open>Facts\<close>

lemma strip_comments_body:
  "closed_body b \<Longrightarrow> strip_comments True (b @ QUOTE # r) = b @ QUOTE # strip_comments False r"
proof (induction b rule: closed_body.induct)
  case (2 c s)
  show ?case
  proof (cases "c = BACKSLASH")
    case True
    with 2 obtain n q where "s = n # q" "closed_body q" by (auto split: list.splits)
    with 2 True show ?thesis by simp
  qed (use 2 in auto)
qed simp

lemma after_block_close: "no_close (prev # t) \<Longrightarrow> after_block prev (t @ STAR # SLASH # r) = r"
proof (induction t arbitrary: prev)
  case (Cons c t)
  then show ?case by (cases t) auto
qed simp

lemma no_close_null: "no_close (CHR 0x00 # t) = no_close t"
  by (cases t) auto

lemma dropWhile_to_newline: "NEWLINE \<notin> set t \<Longrightarrow> dropWhile (\<lambda>n. n \<noteq> NEWLINE) (t @ s) = dropWhile (\<lambda>n. n \<noteq> NEWLINE) s"
  by (induction t) auto

lemma wf_tokens_Cons: "wf_tokens (t # ts) \<Longrightarrow> wf_token t \<and> wf_tokens ts"
  by (cases t) auto

lemma strip_comments_tokens:
  "wf_tokens ts \<Longrightarrow> strip_comments False (render_all ts) = render_all (concat (map uncomment ts))"
proof (induction ts)
  case (Cons t ts)
  then have wf: "wf_token t" "wf_tokens ts" by (auto dest: wf_tokens_Cons)
  note IH = Cons.IH [OF wf(2)]
  show ?case
  proof (cases t)
    case (Mark c)
    with wf IH show ?thesis by simp
  next
    case (Quoted b)
    with wf IH strip_comments_body [of b "render_all ts"] show ?thesis by simp
  next
    case (Line_Comment u)
    with Cons.prems have n: "NEWLINE \<notin> set u" "ts = [] \<or> hd ts = Mark NEWLINE" by simp_all
    then have "dropWhile (\<lambda>n. n \<noteq> NEWLINE) (render_all ts) = render_all ts" by (cases ts) auto
    with n Line_Comment IH show ?thesis by (simp add: dropWhile_to_newline)
  next
    case (Block_Comment u)
    with wf IH after_block_close [of "CHR 0x00" u "render_all ts"] show ?thesis by (simp add: no_close_null)
  qed
qed simp

lemma plain_after_uncomment:
  "wf_tokens ts \<Longrightarrow> t \<in> set (concat (map uncomment ts)) \<Longrightarrow> wf_token t \<and> (\<forall>u. t \<noteq> Line_Comment u \<and> t \<noteq> Block_Comment u)"
proof (induction ts)
  case (Cons a ts)
  then show ?case by (cases a) (auto dest: wf_tokens_Cons simp: is_ascii_def)
qed simp

definition commentless :: "jsonc_token list \<Rightarrow> bool" where
  "commentless ts = list_all (\<lambda>t. wf_token t \<and> (\<forall>u. t \<noteq> Line_Comment u \<and> t \<noteq> Block_Comment u)) ts"

lemma commentless_Cons [simp]:
  "commentless (Mark c # ts) = (wf_token (Mark c) \<and> commentless ts)"
  "commentless (Quoted b # ts) = (closed_body b \<and> commentless ts)"
  "\<not> commentless (Line_Comment u # ts)" "\<not> commentless (Block_Comment u # ts)" "commentless []"
  by (auto simp: commentless_def)

lemma drop_commas_body:
  "closed_body b \<Longrightarrow> drop_commas True (b @ QUOTE # r) = b @ QUOTE # drop_commas False r"
proof (induction b rule: closed_body.induct)
  case (2 c s)
  show ?case
  proof (cases "c = BACKSLASH")
    case True
    with 2 obtain n q where "s = n # q" "closed_body q" by (auto split: list.splits)
    with 2 True show ?thesis by simp
  qed (use 2 in auto)
qed simp

lemma cont_not_ascii: "is_ascii c \<Longrightarrow> \<not> is_cont c"
  by (simp add: is_ascii_def is_cont_def)

lemma is_cont_quote [simp]: "\<not> is_cont QUOTE"
  by (simp add: is_cont_def)

lemma chars_ascii_Cons: "(s = [] \<or> \<not> is_cont (hd s)) \<Longrightarrow> chars (c # s) = [c] # chars s"
  using chars_append [of s "[c]"] by simp

lemma render_head: "commentless ts \<Longrightarrow> render_all ts = [] \<or> \<not> is_cont (hd (render_all ts))"
  by (cases ts; cases "hd ts") (auto simp: cont_not_ascii)

lemma closes_next_tokens: "commentless ts \<Longrightarrow> closes_next (render_all ts) = closer_follows ts"
proof (induction ts)
  case Nil
  show ?case by (simp add: closes_next_def closer_follows_def)
next
  case (Cons t ts)
  show ?case
  proof (cases t)
    case (Mark c)
    with Cons.prems have "chars (c # render_all ts) = [c] # chars (render_all ts)"
      by (intro chars_ascii_Cons render_head) simp
    with Mark Cons show ?thesis
      by (auto simp: closes_next_def closer_follows_def white_token_def)
  next
    case (Quoted b)
    define r where "r = b @ QUOTE # render_all ts"
    have "\<not> is_whitespace (QUOTE # takeWhile is_cont r)" "QUOTE # takeWhile is_cont r \<noteq> ''}''"
      "QUOTE # takeWhile is_cont r \<noteq> '']''"
      by (auto simp: is_whitespace_def split: list.splits)
    with Quoted show ?thesis by (simp add: closes_next_def closer_follows_def white_token_def flip: r_def)
  qed (use Cons in auto)
qed

lemma drop_commas_tokens: "commentless ts \<Longrightarrow> drop_commas False (render_all ts) = render_all (without_trailing ts)"
proof (induction ts)
  case (Cons t ts)
  show ?case
  proof (cases t)
    case (Mark c)
    with Cons closes_next_tokens [of ts] show ?thesis by auto
  next
    case (Quoted b)
    with Cons drop_commas_body [of b "render_all ts"] show ?thesis by simp
  qed (use Cons in auto)
qed simp

text \<open>C40. What reaches the parser. For every text written as a sequence of tokens (bytes outside literals,
  string literals, line comments that end with their line, block comments), \<open>strip_jsonc\<close> returns exactly the
  tokens without the line comments, with a space for each block comment, and without the commas whose next
  non-blank token closes an array or object: literals that contain comment marks, quotes or commas are
  untouched.\<close>

theorem strip_jsonc_exact:
  assumes "wf_tokens ts"
  shows "strip_jsonc (render_all ts) = render_all (plain_tokens ts)"
proof -
  have "commentless (concat (map uncomment ts))"
    unfolding commentless_def list_all_iff using plain_after_uncomment [OF assms] by blast
  then show ?thesis
    by (simp add: strip_jsonc_def remove_trailing_commas_def plain_tokens_def strip_comments_tokens [OF assms]
        drop_commas_tokens)
qed

definition sample_tokens :: "jsonc_token list" where
  "sample_tokens = [Mark (CHR ''{''), Line_Comment ('' a '' @ [QUOTE]), Mark NEWLINE, Quoted (''a//b'' @ [BACKSLASH, QUOTE]),
     Mark (CHR '':''), Block_Comment ''*'', Quoted ''/*,}'', Mark COMMA, Mark NEWLINE, Mark (CHR ''}'')]"

theorem strip_jsonc_exact_witness:
  "wf_tokens sample_tokens \<and>
   strip_jsonc (render_all sample_tokens) = ''{'' @ [NEWLINE, QUOTE] @ ''a//b'' @ [BACKSLASH, QUOTE, QUOTE] @ '': ''
     @ [QUOTE] @ ''/*,}'' @ [QUOTE, NEWLINE] @ ''}''"
proof
  show wf: "wf_tokens sample_tokens" by (simp add: sample_tokens_def is_ascii_def)
  show "strip_jsonc (render_all sample_tokens) = ''{'' @ [NEWLINE, QUOTE] @ ''a//b'' @ [BACKSLASH, QUOTE, QUOTE] @ '': ''
     @ [QUOTE] @ ''/*,}'' @ [QUOTE, NEWLINE] @ ''}''"
    unfolding strip_jsonc_exact [OF wf]
    by (simp add: sample_tokens_def plain_tokens_def closer_follows_def white_token_def is_whitespace_def)
qed

end
