(* ===== verification/Model_Config.thy ===== *)
theory Model_Config
  imports Jsonc Json_Value
begin

text \<open>
  The file edits of the model switcher, \<^verbatim>\<open>opencode/helpers/model-switcher/src/config.rs\<close>: the line editors for
  \<^verbatim>\<open>opencode.jsonc\<close>, the frontmatter editor for \<^verbatim>\<open>agents/*.md\<close>, and the operations that read and write those
  files. A slice at positions found by the sources is \<open>take\<close> and \<open>drop\<close>: every position is before or after an
  ASCII byte or the end of a trimmed prefix, a scalar boundary.

  The file system is a record: what reading a path gives, what listing a directory gives, and for a path whose
  next write fails the error and what is then in the file. The JSON parser is the parameter \<open>from_str\<close>. An
  error is the chain of context messages, outermost first.
\<close>

section \<open>Strings\<close>

definition trim_start :: "string \<Rightarrow> string" where
  "trim_start s = concat (dropWhile is_whitespace (chars s))"

definition trim_matches :: "char \<Rightarrow> string \<Rightarrow> string" where
  "trim_matches c s = trim_end_matches c (dropWhile (\<lambda>x. x = c) s)"

fun str_rfind :: "char \<Rightarrow> string \<Rightarrow> nat option" where
  "str_rfind c [] = None"
| "str_rfind c (x # s) = (case str_rfind c s of Some i \<Rightarrow> Some (Suc i) | None \<Rightarrow> if x = c then Some 0 else None)"

definition quoted :: "string \<Rightarrow> string" where "quoted s = QUOTE # s @ [QUOTE]"

definition is_digit :: "char \<Rightarrow> bool" where "is_digit c = (48 \<le> (of_char c :: nat) \<and> (of_char c :: nat) \<le> 57)"

definition leading_ws :: "string \<Rightarrow> nat" where
  "leading_ws s = length s - length (trim_start s)"

definition leading_digits :: "string \<Rightarrow> nat" where
  "leading_digits s = length (takeWhile is_digit s)"

definition substr :: "string \<Rightarrow> nat \<Rightarrow> nat \<Rightarrow> string" where
  "substr s a b = drop a (take b s)"

section \<open>Line editors\<close>

definition map_lines :: "(nat \<Rightarrow> string \<Rightarrow> string) \<Rightarrow> string \<Rightarrow> string \<times> nat" where
  "map_lines f content =
     (let ls = text_lines content; ns = map (\<lambda>(i, l). f i l) (enumerate 0 ls)
      in (join [NEWLINE] ns @ (if ends_with content [NEWLINE] then [NEWLINE] else []),
          length (filter (\<lambda>(n, l). n \<noteq> l) (zip ns ls))))"

function find_key_from :: "string \<Rightarrow> string \<Rightarrow> nat \<Rightarrow> (nat \<times> nat) option" where
  "find_key_from s key pos = (let pat = quoted key in
     case str_find (drop pos s) pat of
       None \<Rightarrow> None
     | Some off \<Rightarrow>
         let start = pos + off; after = start + length pat; rest = drop after s; ws = leading_ws rest
         in if starts_with (drop ws rest) '':'' then Some (start, after + ws + 1) else find_key_from s key after)"
  by pat_completeness auto

termination
proof (relation "measure (\<lambda>(s, key, pos). length s - pos)")
  fix s key pos pat off start after rest ws
  assume "pat = quoted key" "str_find (drop pos s) pat = Some off" "start = pos + off" "after = start + length pat"
  moreover from this have "off + length pat \<le> length (drop pos s)" by (intro str_find_lt) simp
  ultimately show "((s, key, after), (s, key, pos)) \<in> measure (\<lambda>(s, key, pos). length s - pos)"
    by (auto simp: quoted_def)
qed simp

declare find_key_from.simps [simp del]

definition find_key :: "string \<Rightarrow> string \<Rightarrow> (nat \<times> nat) option" where
  "find_key s key = find_key_from s key 0"

text \<open>The loop of \<^verbatim>\<open>bracket_span\<close>: one scalar's effect on depth, string and escape state, then the index
  of the bracket that brings the depth back to zero. The depth is at least one whenever a closing bracket
  lowers it, since the span starts at an opening one.\<close>

definition bracket_next :: "char \<Rightarrow> char \<Rightarrow> nat \<times> bool \<times> bool \<Rightarrow> char \<Rightarrow> nat \<times> bool \<times> bool" where
  "bracket_next op cl st c = (case st of (depth, in_str, esc) \<Rightarrow>
     if in_str then
       (if esc then (depth, True, False) else if c = BACKSLASH then (depth, True, True) else (depth, c \<noteq> QUOTE, False))
     else if c = QUOTE then (depth, True, esc)
     else if c = op then (depth + 1, False, esc)
     else if c = cl then (depth - 1, False, esc)
     else (depth, False, esc))"

fun bracket_scan :: "char \<Rightarrow> char \<Rightarrow> nat \<times> bool \<times> bool \<Rightarrow> string \<Rightarrow> nat option" where
  "bracket_scan op cl st [] = None"
| "bracket_scan op cl st (c # s) = (let st' = bracket_next op cl st c in
     if \<not> fst (snd st) \<and> c \<noteq> QUOTE \<and> c \<noteq> op \<and> c = cl \<and> fst st' = 0 then Some 0
     else map_option Suc (bracket_scan op cl st' s))"

definition bracket_span :: "string \<Rightarrow> nat \<Rightarrow> char \<Rightarrow> char \<Rightarrow> (nat \<times> nat) option" where
  "bracket_span s from op cl = (let start = from + leading_ws (drop from s) in
     if \<not> starts_with (drop start s) [op] then None
     else map_option (\<lambda>i. (start, start + i)) (bracket_scan op cl (0, False, False) (drop start s)))"

definition object_after_key :: "string \<Rightarrow> string \<Rightarrow> (nat \<times> nat) option" where
  "object_after_key s key = Option.bind (find_key s key) (\<lambda>(_, after). bracket_span s after (CHR ''{'') (CHR ''}''))"

definition insert_entry :: "string \<Rightarrow> string \<Rightarrow> string" where
  "insert_entry obj entry = (let close = length obj - 1 in
     if trim (substr obj 1 close) = [] then ''{ '' @ entry @ '' }''
     else let body_end = length (trim_end (take close obj)) in
       take body_end obj @ '', '' @ entry @ drop body_end obj)"

definition remove_entry :: "string \<Rightarrow> nat \<Rightarrow> nat \<Rightarrow> string" where
  "remove_entry obj key_start value_end =
     (let comma_before = (case str_rfind COMMA (take key_start obj) of
            Some comma \<Rightarrow> if trim (substr obj (comma + 1) key_start) = [] then Some comma else None
          | None \<Rightarrow> None)
      in case comma_before of
        Some comma \<Rightarrow> take comma obj @ drop value_end obj
      | None \<Rightarrow> (let after = drop value_end obj; ws = leading_ws after in
          if starts_with (drop ws after) '','' then
            (let rest = drop (ws + 1) after in take key_start obj @ drop (leading_ws rest) rest)
          else take key_start obj @ drop value_end obj))"

text \<open>The number after a colon: where it starts and where its digits end.\<close>

definition number_span :: "string \<Rightarrow> nat \<Rightarrow> nat \<times> nat" where
  "number_span obj after = (let num_start = after + leading_ws (drop after obj) in
     (num_start, num_start + leading_digits (drop num_start obj)))"

definition set_number_in_object :: "string \<Rightarrow> string \<Rightarrow> u64 option \<Rightarrow> string" where
  "set_number_in_object obj key val = (case (find_key obj key, val) of
       (Some (_, after), Some v) \<Rightarrow>
         (let (num_start, num_end) = number_span obj after in take num_start obj @ digits (unat v) @ drop num_end obj)
     | (None, Some v) \<Rightarrow> (case if key = ''input'' then find_key obj ''context'' else None of
           Some (_, after) \<Rightarrow> (let (_, num_end) = number_span obj after in
             take num_end obj @ '', '' @ quoted key @ '': '' @ digits (unat v) @ drop num_end obj)
         | None \<Rightarrow> insert_entry obj (quoted key @ '': '' @ digits (unat v)))
     | (Some (key_start, after), None) \<Rightarrow>
         (let (_, num_end) = number_span obj after in remove_entry obj key_start num_end)
     | (None, None) \<Rightarrow> obj)"

definition splice :: "string \<Rightarrow> nat \<times> nat \<Rightarrow> string \<Rightarrow> string" where
  "splice line span replacement = (case span of (s, e) \<Rightarrow> take s line @ replacement @ drop (e + 1) line)"

text \<open>The scan for the closing quote of a string value.\<close>

fun closing_quote :: "bool \<Rightarrow> string \<Rightarrow> nat option" where
  "closing_quote esc [] = None"
| "closing_quote esc (c # s) =
     (if \<not> esc \<and> c \<noteq> BACKSLASH \<and> c = QUOTE then Some 0
      else map_option Suc (closing_quote (\<not> esc \<and> c = BACKSLASH) s))"

definition replace_string_value :: "string \<Rightarrow> string \<Rightarrow> string \<Rightarrow> string option" where
  "replace_string_value line key v =
     Option.bind (find_key line key) (\<lambda>(_, after).
     Option.bind (str_find (drop after line) [QUOTE]) (\<lambda>off. let open = after + off in
     Option.bind (closing_quote False (drop (open + 1) line)) (\<lambda>i. let close = open + 1 + i in
       Some (take (open + 1) line @ v @ drop close line))))"

definition edit_limit_on_line :: "string \<Rightarrow> string \<Rightarrow> u64 option \<Rightarrow> string" where
  "edit_limit_on_line line key val = (case object_after_key line ''limit'' of
       None \<Rightarrow> line
     | Some span \<Rightarrow> splice line span (set_number_in_object (substr line (fst span) (snd span + 1)) key val))"

definition parse_string_array :: "string \<Rightarrow> string list" where
  "parse_string_array arr = filter (\<lambda>s. s \<noteq> [])
     (map (\<lambda>s. trim_matches QUOTE (trim s)) (split_on COMMA (substr arr 1 (length arr - 1))))"

definition render_string_array :: "string list \<Rightarrow> string" where
  "render_string_array items = ''['' @ join '', '' (map quoted items) @ '']''"

definition DEFAULT_CAPABILITIES :: string where
  "DEFAULT_CAPABILITIES = quoted ''capabilities'' @ '': { '' @ quoted ''tools'' @ '': true, '' @ quoted ''input'' @ '': [''
     @ quoted ''text'' @ '', '' @ quoted ''image'' @ ''], '' @ quoted ''output'' @ '': ['' @ quoted ''text'' @ ''] }''"

definition set_image_in_caps :: "string \<Rightarrow> bool \<Rightarrow> string option" where
  "set_image_in_caps caps enable = (case find_key caps ''input'' of
       Some (_, after) \<Rightarrow> (case bracket_span caps after (CHR ''['') (CHR '']'') of
           None \<Rightarrow> None
         | Some arr_span \<Rightarrow>
             (let items = parse_string_array (substr caps (fst arr_span) (snd arr_span + 1));
                  has = (''image'' \<in> set items)
              in if enable = has then None
                 else Some (splice caps arr_span (render_string_array
                   (if enable then items @ [''image''] else filter (\<lambda>i. i \<noteq> ''image'') items)))))
     | None \<Rightarrow> if enable
         then Some (insert_entry caps (quoted ''input'' @ '': ['' @ quoted ''text'' @ '', '' @ quoted ''image'' @ '']'' ))
         else None)"

definition set_image_on_line :: "string \<Rightarrow> bool \<Rightarrow> string" where
  "set_image_on_line line enable = (case find_key line ''limit'' of
       None \<Rightarrow> line
     | Some (limit_start, _) \<Rightarrow> (case object_after_key line ''capabilities'' of
           None \<Rightarrow> if enable then take limit_start line @ DEFAULT_CAPABILITIES @ '', '' @ drop limit_start line else line
         | Some caps_span \<Rightarrow> (case set_image_in_caps (substr line (fst caps_span) (snd caps_span + 1)) enable of
               None \<Rightarrow> line
             | Some new_caps \<Rightarrow> splice line caps_span new_caps)))"

section \<open>Files\<close>

type_synonym chain = "string list"

record disk =
  texts :: "string \<Rightarrow> (string, string) result"                    \<comment> \<open>\<^verbatim>\<open>fs::read_to_string\<close>\<close>
  listing :: "string \<Rightarrow> ((string, string) result list, string) result"  \<comment> \<open>\<^verbatim>\<open>fs::read_dir\<close>: file names\<close>
  present_path :: "string \<Rightarrow> bool"
  write_fault :: "string \<Rightarrow> (string \<times> (string, string) result) option"

definition context_of :: "string \<Rightarrow> ('a, chain) result \<Rightarrow> ('a, chain) result" where
  "context_of msg r = (case r of Inl e \<Rightarrow> Err (msg # e) | Inr v \<Rightarrow> Ok v)"

definition fs_read :: "disk \<Rightarrow> string \<Rightarrow> (string, chain) result" where
  "fs_read d path = (case texts d path of
       Inl e \<Rightarrow> Err [''Failed to read '' @ path, e] | Inr t \<Rightarrow> Ok t)"

definition fs_write :: "string \<Rightarrow> string \<Rightarrow> disk \<Rightarrow> (unit, chain) result \<times> disk" where
  "fs_write path content d = (case write_fault d path of
       None \<Rightarrow> (Ok (), d\<lparr>texts := (texts d)(path := Ok content)\<rparr>)
     | Some (e, left) \<Rightarrow> (Err [''Failed to write '' @ path, e], d\<lparr>texts := (texts d)(path := left)\<rparr>))"

type_synonym 'v parser = "string \<Rightarrow> ('v, string) result"

definition read_config :: "'v parser \<Rightarrow> disk \<Rightarrow> string \<Rightarrow> ('v, chain) result" where
  "read_config from_str d path = (case fs_read d path of
       Inl e \<Rightarrow> Err e
     | Inr t \<Rightarrow> context_of (''Failed to parse '' @ path) (parse_jsonc from_str t))"

definition write_jsonc_checked :: "'v parser \<Rightarrow> string \<Rightarrow> string \<Rightarrow> disk \<Rightarrow> (unit, chain) result \<times> disk" where
  "write_jsonc_checked from_str path content d =
     (case context_of (''Refusing to write '' @ path @ '': the edit would leave it unparseable'') (parse_jsonc from_str content) of
        Inl e \<Rightarrow> (Err e, d)
      | Inr _ \<Rightarrow> fs_write path content d)"

section \<open>Models\<close>

definition providers :: "json \<Rightarrow> (string \<times> json) list option" where
  "providers cfg = Option.bind (case get cfg ''providers'' of None \<Rightarrow> get cfg ''provider'' | Some p \<Rightarrow> Some p) as_object"

record model_info =
  mi_id :: string
  mi_context :: "u64 option"
  mi_input :: "u64 option"
  mi_output :: "u64 option"
  mi_image :: bool

definition limit_of :: "json \<Rightarrow> string \<Rightarrow> u64 option" where
  "limit_of m k = Option.bind (Option.bind (get m ''limit'') (\<lambda>l. get l k)) as_u64"

definition model_inputs :: "json \<Rightarrow> json list option" where
  "model_inputs m = Option.bind
     (case get m ''capabilities'' of None \<Rightarrow> get m ''modalities'' | Some c \<Rightarrow> Some c) (\<lambda>c. get_array c ''input'')"

definition info_of :: "string \<Rightarrow> string \<Rightarrow> json \<Rightarrow> model_info" where
  "info_of pid mid m = \<lparr>mi_id = pid @ ''/'' @ mid, mi_context = limit_of m ''context'', mi_input = limit_of m ''input'',
     mi_output = limit_of m ''output'',
     mi_image = is_some_and (\<lambda>a. list_ex (\<lambda>v. as_str v = Some ''image'') a) (model_inputs m)\<rparr>"

definition provider_infos :: "string \<times> json \<Rightarrow> model_info list" where
  "provider_infos entry = (case entry of (pid, p) \<Rightarrow>
     (case Option.bind (get p ''models'') as_object of
        None \<Rightarrow> [] | Some models \<Rightarrow> map (\<lambda>(mid, m). info_of pid mid m) models))"

definition read_model_info :: "json parser \<Rightarrow> disk \<Rightarrow> string \<Rightarrow> (model_info list, chain) result" where
  "read_model_info from_str d path = (case read_config from_str d path of
       Inl e \<Rightarrow> Err e
     | Inr cfg \<Rightarrow> (case providers cfg of
           None \<Rightarrow> Err [''No '' @ quoted ''providers'' @ '' block in '' @ path]
         | Some ps \<Rightarrow> Ok (concat (map provider_infos ps))))"

definition read_models :: "json parser \<Rightarrow> disk \<Rightarrow> string \<Rightarrow> (string list, chain) result" where
  "read_models from_str d path = map_sum id (map mi_id) (read_model_info from_str d path)"

definition get_default_model :: "json parser \<Rightarrow> disk \<Rightarrow> string \<Rightarrow> (string, chain) result" where
  "get_default_model from_str d path = (case read_config from_str d path of
       Inl e \<Rightarrow> Err e
     | Inr cfg \<Rightarrow> (case get_str cfg ''model'' of
           None \<Rightarrow> Err [''No top-level '' @ quoted ''model'' @ '' in '' @ path]
         | Some m \<Rightarrow> Ok m))"

definition default_model_line :: "string \<Rightarrow> nat option" where
  "default_model_line content = (let depths = line_start_depths content in
     find_index (\<lambda>(i, l). depths ! i = 1 \<and> starts_with (trim_start l) (quoted ''model'')) (enumerate 0 (text_lines content)))"

definition update_default_model :: "'v parser \<Rightarrow> string \<Rightarrow> string \<Rightarrow> disk \<Rightarrow> (unit, chain) result \<times> disk" where
  "update_default_model from_str path model d = (case fs_read d path of
       Inl e \<Rightarrow> (Err e, d)
     | Inr content \<Rightarrow> (case default_model_line content of
           None \<Rightarrow> (Err [''No top-level '' @ quoted ''model'' @ '' line in '' @ path], d)
         | Some idx \<Rightarrow>
             (let line = text_lines content ! idx; failed = (replace_string_value line ''model'' model = None);
                  (new_content, changes) = map_lines (\<lambda>i l. if i = idx
                    then some_or (replace_string_value l ''model'' model) l else l) content
              in if failed then (Err [''Could not parse the '' @ quoted ''model'' @ '' line in '' @ path], d)
                 else write_jsonc_checked from_str path new_content d)))"

definition edit_limits :: "u64 option \<Rightarrow> u64 option \<Rightarrow> string \<Rightarrow> string" where
  "edit_limits ctx inp l = edit_limit_on_line
     (case ctx of Some c \<Rightarrow> edit_limit_on_line l ''context'' (Some c) | None \<Rightarrow> l) ''input'' inp"

text \<open>A line editor applied to the whole file, and the file written back if it still parses.\<close>

definition update_lines ::
  "'v parser \<Rightarrow> string \<Rightarrow> (string \<Rightarrow> string) \<Rightarrow> disk \<Rightarrow> (nat, chain) result \<times> disk" where
  "update_lines from_str path f d = (case fs_read d path of
       Inl e \<Rightarrow> (Err e, d)
     | Inr content \<Rightarrow> (let (new_content, changes) = map_lines (\<lambda>_. f) content in
         case write_jsonc_checked from_str path new_content d of
           (Inl e, d') \<Rightarrow> (Err e, d') | (Inr _, d') \<Rightarrow> (Ok changes, d')))"

definition update_limits :: "'v parser \<Rightarrow> string \<Rightarrow> u64 option \<Rightarrow> u64 option \<Rightarrow> disk \<Rightarrow> (nat, chain) result \<times> disk" where
  "update_limits from_str path ctx inp = update_lines from_str path (edit_limits ctx inp)"

definition update_image :: "'v parser \<Rightarrow> string \<Rightarrow> bool \<Rightarrow> disk \<Rightarrow> (nat, chain) result \<times> disk" where
  "update_image from_str path enable = update_lines from_str path (\<lambda>l. set_image_on_line l enable)"

section \<open>Agents\<close>

record agent =
  agent_name :: string
  agent_path :: string

definition DASHES :: string where "DASHES = ''---''"
definition MODEL_KEY :: string where "MODEL_KEY = ''model:''"
definition PRIMARY_AGENT :: string where "PRIMARY_AGENT = ''local-mind''"

definition frontmatter_end :: "string list \<Rightarrow> nat option" where
  "frontmatter_end ls = (if (case ls of [] \<Rightarrow> True | l # _ \<Rightarrow> trim_end l \<noteq> DASHES) then None
     else map_option Suc (find_index (\<lambda>l. trim_end l = DASHES) (drop 1 ls)))"

definition model_line_index :: "string list \<Rightarrow> nat option" where
  "model_line_index ls = Option.bind (frontmatter_end ls)
     (\<lambda>e. find (\<lambda>i. starts_with (ls ! i) MODEL_KEY) [1..<e])"

definition unquote_model :: "string \<Rightarrow> string" where
  "unquote_model v = trim_matches (CHR 0x27) (trim_matches QUOTE v)"

definition current_model :: "string \<Rightarrow> string option" where
  "current_model content = (let ls = text_lines content in
     map_option (\<lambda>idx. unquote_model (trim (drop (length MODEL_KEY) (ls ! idx)))) (model_line_index ls))"

definition get_current_model :: "disk \<Rightarrow> string \<Rightarrow> (string, chain) result" where
  "get_current_model d path = (case fs_read d path of
       Inl e \<Rightarrow> Err e
     | Inr content \<Rightarrow> (case current_model content of
           None \<Rightarrow> Err [''No model: in the frontmatter of '' @ path] | Some m \<Rightarrow> Ok m))"

definition with_model :: "nat \<Rightarrow> string \<Rightarrow> string \<Rightarrow> string" where
  "with_model idx model content = fst (map_lines (\<lambda>i l. if i = idx then ''model: '' @ model else l) content)"

definition update_agent_model :: "string \<Rightarrow> string \<Rightarrow> disk \<Rightarrow> (unit, chain) result \<times> disk" where
  "update_agent_model path model d = (case fs_read d path of
       Inl e \<Rightarrow> (Err e, d)
     | Inr content \<Rightarrow> (case model_line_index (text_lines content) of
           None \<Rightarrow> (Err [''No model: in the frontmatter of '' @ path], d)
         | Some idx \<Rightarrow> fs_write path (with_model idx model content) d))"

text \<open>\<^verbatim>\<open>Path::extension\<close> and \<^verbatim>\<open>Path::file_stem\<close> of a file name: split at the last dot, unless that is the first
  byte; \<^verbatim>\<open>to_str\<close> refuses a name that is not UTF-8.\<close>

definition stem_and_extension :: "string \<Rightarrow> string \<times> string option" where
  "stem_and_extension name = (case str_rfind (CHR ''.'') name of
       None \<Rightarrow> (name, None)
     | Some i \<Rightarrow> if i = 0 then (name, None) else (take i name, Some (drop (i + 1) name)))"

definition to_str :: "string \<Rightarrow> string option" where
  "to_str s = (if from_utf8_lossy s = s then Some s else None)"

definition md_file :: "string \<Rightarrow> bool" where
  "md_file name = (Option.bind (snd (stem_and_extension name)) to_str = Some ''md'')"

definition stem_of :: "string \<Rightarrow> string option" where
  "stem_of name = to_str (fst (stem_and_extension name))"

definition entry_path :: "string \<Rightarrow> string \<Rightarrow> string" where
  "entry_path dir name = from_utf8_lossy (dir @ ''/'' @ name)"

fun pinned_agents :: "disk \<Rightarrow> string \<Rightarrow> (string, string) result list \<Rightarrow> (agent list, chain) result" where
  "pinned_agents d dir [] = Ok []"
| "pinned_agents d dir (Inl e # es) = Err [e]"
| "pinned_agents d dir (Inr name # es) = map_sum id
     (\<lambda>rest. if \<not> md_file name then rest
        else case stem_of name of
          None \<Rightarrow> rest
        | Some stem \<Rightarrow> if is_ok (get_current_model d (entry_path dir name))
            then \<lparr>agent_name = stem, agent_path = entry_path dir name\<rparr> # rest else rest)
     (pinned_agents d dir es)"

definition read_dir :: "disk \<Rightarrow> string \<Rightarrow> ((string, string) result list, chain) result" where
  "read_dir d dir = (case listing d dir of Inl e \<Rightarrow> Err [''Failed to read '' @ dir, e] | Inr es \<Rightarrow> Ok es)"

text \<open>\<^verbatim>\<open>(a.name != PRIMARY_AGENT, &a.name)\<close> under the order of pairs, strings by their bytes.\<close>

definition agent_key :: "agent \<Rightarrow> string" where
  "agent_key a = (if agent_name a \<noteq> PRIMARY_AGENT then CHR 0x01 else CHR 0x00) # agent_name a"

definition discover_agents :: "disk \<Rightarrow> string \<Rightarrow> (agent list, chain) result" where
  "discover_agents d dir = (case read_dir d dir of
       Inl e \<Rightarrow> Err e | Inr es \<Rightarrow> map_sum id (sort_key agent_key) (pinned_agents d dir es))"

fun unpinned :: "disk \<Rightarrow> string \<Rightarrow> (string, string) result list \<Rightarrow> (string list, chain) result" where
  "unpinned d dir [] = Ok []"
| "unpinned d dir (Inl e # es) = Err [e]"
| "unpinned d dir (Inr name # es) = map_sum id
     (\<lambda>rest. if md_file name \<and> \<not> is_ok (get_current_model d (entry_path dir name))
        then (case stem_of name of None \<Rightarrow> rest | Some stem \<Rightarrow> stem # rest) else rest)
     (unpinned d dir es)"

definition unpinned_agents :: "disk \<Rightarrow> string \<Rightarrow> (string list, chain) result" where
  "unpinned_agents d dir = (case read_dir d dir of
       Inl e \<Rightarrow> Err e | Inr es \<Rightarrow> map_sum id sort (unpinned d dir es))"

definition OPENCODE_CONFIG_PATH :: string where
  "OPENCODE_CONFIG_PATH = ''container_data/config/opencode/opencode.jsonc''"

definition AGENTS_DIR :: string where "AGENTS_DIR = ''container_data/config/opencode/agents''"

definition check_layout :: "disk \<Rightarrow> (unit, chain) result" where
  "check_layout d = (case find (\<lambda>p. \<not> present_path d p) [OPENCODE_CONFIG_PATH, AGENTS_DIR] of
       Some p \<Rightarrow> Err [p @ '' not found: run from the opencode/ dir (bin/model-switcher does this for you)'']
     | None \<Rightarrow> Ok ())"

end
