(* ===== verification/Model_Config_Correct.thy ===== *)
theory Model_Config_Correct
  imports Model_Config
begin

text \<open>
  What the edits of the model switcher guarantee: lines that are not addressed stay, a pinned model reads back,
  the config stays readable, a limit object behaves as an ordered map from keys to numbers.
\<close>

section \<open>Lines\<close>

lemma split_on_append_sep: "NEWLINE \<notin> set l \<Longrightarrow> split_on NEWLINE (l @ NEWLINE # s) = l # split_on NEWLINE s"
  using split_on_nonempty [of NEWLINE s] by (induction l) (auto split: list.splits)

lemma split_on_line: "NEWLINE \<notin> set l \<Longrightarrow> split_on NEWLINE l = [l]"
  by (induction l) auto

lemma split_on_join:
  "ns \<noteq> [] \<Longrightarrow> \<forall>l \<in> set ns. NEWLINE \<notin> set l \<Longrightarrow> split_on NEWLINE (join [NEWLINE] ns @ [NEWLINE]) = ns @ [[]]
     \<and> split_on NEWLINE (join [NEWLINE] ns) = ns"
proof (induction ns rule: list_nonempty_induct)
  case (single l)
  then show ?case using split_on_append_sep [of l "[]"] by (simp add: split_on_line)
next
  case (cons l ns)
  then show ?case by (simp add: join_Cons split_on_append_sep)
qed

lemma split_on_no_sep: "x \<in> set (split_on c s) \<Longrightarrow> c \<notin> set x"
proof (induction s arbitrary: x)
  case (Cons a s)
  then show ?case
    using split_on_nonempty [of c s] by (cases "split_on c s") (auto split: if_splits)
qed simp

lemma strip_cr_id: "\<not> ends_with l [CR] \<Longrightarrow> strip_cr l = l"
  by (simp add: strip_cr_def strip_suffix_def)

lemma set_strip_cr: "set (strip_cr l) \<subseteq> set l"
  by (auto simp: strip_cr_def strip_suffix_def some_or_def dest: in_set_takeD)

lemma text_lines_no_newline: "l \<in> set (text_lines s) \<Longrightarrow> NEWLINE \<notin> set l"
  using set_strip_cr split_on_no_sep [of _ NEWLINE s] split_on_nonempty [of NEWLINE s]
  by (auto simp: text_lines_def Let_def dest!: in_set_butlastD split: if_splits)

lemma text_lines_join:
  assumes "ns \<noteq> []" "\<forall>l \<in> set ns. NEWLINE \<notin> set l \<and> \<not> ends_with l [CR]" "nl \<or> last ns \<noteq> []"
  shows "text_lines (join [NEWLINE] ns @ (if nl then [NEWLINE] else [])) = ns"
proof -
  have s: "split_on NEWLINE (join [NEWLINE] ns @ [NEWLINE]) = ns @ [[]]" "split_on NEWLINE (join [NEWLINE] ns) = ns"
    using split_on_join [of ns] assms by auto
  have m: "map strip_cr (butlast ns) = butlast ns" "map strip_cr ns = ns"
    using assms by (auto intro!: map_idI strip_cr_id dest: in_set_butlastD)
  show ?thesis
    using assms s m by (auto simp: text_lines_def Let_def)
qed

lemma split_on_last_newline: "s \<noteq> [] \<Longrightarrow> \<not> ends_with s [c] \<Longrightarrow> last (split_on c s) \<noteq> []"
proof (induction s)
  case (Cons a s)
  have n: "split_on c s \<noteq> []" by (rule split_on_nonempty)
  show ?case
  proof (cases "s = []")
    case True
    with Cons.prems show ?thesis by (auto simp: ends_with_def)
  next
    case False
    have "\<not> ends_with s [c]"
      using Cons.prems False by (auto simp: ends_with_iff)
    with Cons.IH False n show ?thesis by (cases "split_on c s") (auto split: if_splits)
  qed
qed simp

lemma text_lines_last: "\<not> ends_with s [NEWLINE] \<Longrightarrow> text_lines s \<noteq> [] \<Longrightarrow> last (text_lines s) \<noteq> []"
proof -
  assume "\<not> ends_with s [NEWLINE]" "text_lines s \<noteq> []"
  moreover from this have "s \<noteq> []" by (auto simp: text_lines_def)
  ultimately have "last (split_on NEWLINE s) \<noteq> []" by (intro split_on_last_newline)
  then show ?thesis by (simp add: text_lines_def Let_def)
qed

lemma enumerate_map: "map (\<lambda>(i, l). if i = idx then g l else l) (enumerate 0 ls) = (if idx < length ls then ls[idx := g (ls ! idx)] else ls)"
  by (rule nth_equalityI) (auto simp: nth_enumerate_eq nth_list_update)

text \<open>An edit of one line, read back as lines.\<close>

definition edit_line :: "nat \<Rightarrow> (string \<Rightarrow> string) \<Rightarrow> string \<Rightarrow> string" where
  "edit_line idx g content = fst (map_lines (\<lambda>i l. if i = idx then g l else l) content)"

lemma edit_line_lines:
  assumes "idx < length (text_lines content)" "\<forall>l \<in> set (text_lines content). \<not> ends_with l [CR]"
    "NEWLINE \<notin> set n" "\<not> ends_with n [CR]" "n \<noteq> []" "g (text_lines content ! idx) = n"
  shows "text_lines (edit_line idx g content) = (text_lines content)[idx := n]"
proof -
  let ?ls = "text_lines content"
  have e: "edit_line idx g content = join [NEWLINE] (?ls[idx := n])
      @ (if ends_with content [NEWLINE] then [NEWLINE] else [])"
    using assms by (simp add: edit_line_def map_lines_def Let_def enumerate_map)
  have ne: "?ls \<noteq> []" using assms by auto
  have "last (?ls[idx := n]) = (if idx = length ?ls - 1 then n else last ?ls)"
    using ne assms by (simp add: last_list_update)
  then have "ends_with content [NEWLINE] \<or> last (?ls[idx := n]) \<noteq> []"
    using assms ne text_lines_last [of content] by auto
  moreover have "\<forall>l \<in> set (?ls[idx := n]). NEWLINE \<notin> set l \<and> \<not> ends_with l [CR]"
    using assms set_update_subset_insert [of ?ls idx n] text_lines_no_newline [of _ content] by blast
  ultimately show ?thesis
    unfolding e using ne by (intro text_lines_join) auto
qed

section \<open>Pinned models\<close>

lemma trim_end_prefix: "\<exists>r. s = trim_end s @ r"
proof -
  let ?c = "chars s"
  have "?c = rev (dropWhile is_whitespace (rev ?c)) @ rev (takeWhile is_whitespace (rev ?c))"
    by (metis rev_append rev_rev_ident takeWhile_dropWhile_id)
  then have "concat ?c = concat (rev (dropWhile is_whitespace (rev ?c))) @ concat (rev (takeWhile is_whitespace (rev ?c)))"
    by (metis concat_append)
  then show ?thesis by (auto simp: trim_end_def)
qed

lemma model_line_not_dashes: "trim_end (''model: '' @ m) \<noteq> DASHES"
proof
  assume "trim_end (''model: '' @ m) = DASHES"
  then obtain r where "''model: '' @ m = DASHES @ r" using trim_end_prefix by metis
  then show False by (simp add: DASHES_def)
qed

lemma find_upt_Some:
  "find P [1..<e] = Some i \<longleftrightarrow> 1 \<le> i \<and> i < e \<and> P i \<and> (\<forall>j. 1 \<le> j \<and> j < i \<longrightarrow> \<not> P j)"
proof
  assume "find P [1..<e] = Some i"
  then obtain k where k: "k < e - 1" "P (Suc k)" "i = Suc k" "\<forall>j < k. \<not> P (Suc j)"
    by (auto simp: find_Some_iff)
  then show "1 \<le> i \<and> i < e \<and> P i \<and> (\<forall>j. 1 \<le> j \<and> j < i \<longrightarrow> \<not> P j)"
    by (auto simp: gr0_conv_Suc dest!: Suc_le_D)
next
  assume a: "1 \<le> i \<and> i < e \<and> P i \<and> (\<forall>j. 1 \<le> j \<and> j < i \<longrightarrow> \<not> P j)"
  then show "find P [1..<e] = Some i"
    by (auto simp: find_Some_iff intro!: exI [of _ "i - 1"])
qed

lemma model_line_index_Some:
  assumes "model_line_index ls = Some idx"
  obtains e where "frontmatter_end ls = Some e" "1 \<le> idx" "idx < e" "e < length ls"
    "starts_with (ls ! idx) MODEL_KEY" "\<forall>j. 1 \<le> j \<and> j < idx \<longrightarrow> \<not> starts_with (ls ! j) MODEL_KEY"
proof -
  from assms obtain e where e: "frontmatter_end ls = Some e" and f: "find (\<lambda>i. starts_with (ls ! i) MODEL_KEY) [1..<e] = Some idx"
    by (auto simp: model_line_index_def split: bind_splits)
  from e have "e < length ls"
    by (auto simp: frontmatter_end_def find_index_Some split: if_splits)
  moreover note f [unfolded find_upt_Some]
  ultimately show thesis using that [OF e] by blast
qed

lemma frontmatter_end_update:
  assumes "frontmatter_end ls = Some e" "1 \<le> idx" "idx < e" "trim_end n \<noteq> DASHES"
  shows "frontmatter_end (ls[idx := n]) = Some e"
proof -
  from assms(1) obtain l rest p where ls: "ls = l # rest" and l: "trim_end l = DASHES" and p: "e = Suc p"
    and f: "find_index (\<lambda>l. trim_end l = DASHES) rest = Some p"
    by (cases ls) (auto simp: frontmatter_end_def split: if_splits)
  from assms obtain k where k: "idx = Suc k" "k < p" using p by (cases idx) auto
  have "find_index (\<lambda>l. trim_end l = DASHES) (rest[k := n]) = Some p"
    using f k assms(4) unfolding find_index_Some by (auto simp: nth_list_update)
  with ls l p k show ?thesis by (simp add: frontmatter_end_def)
qed

text \<open>A model id as opencode writes it: one line, no blanks or quotes around it.\<close>

definition plain_model :: "string \<Rightarrow> bool" where
  "plain_model m = (NEWLINE \<notin> set m \<and> \<not> ends_with m [CR] \<and> trim (SPACE # m) = m \<and> unquote_model m = m)"

lemma plain_model_line: "plain_model m \<Longrightarrow> NEWLINE \<notin> set (''model: '' @ m) \<and> \<not> ends_with (''model: '' @ m) [CR]"
proof -
  assume "plain_model m"
  then have m: "NEWLINE \<notin> set m" "\<not> ends_with m [CR]" by (simp_all add: plain_model_def)
  have "ends_with (''model: '' @ m) [CR] \<Longrightarrow> m \<noteq> [] \<Longrightarrow> ends_with m [CR]"
    by (cases m rule: rev_cases) (auto simp: ends_with_iff)
  with m show ?thesis by (cases "m = []") (auto simp: ends_with_iff)
qed

lemma with_model_reads_back:
  assumes "model_line_index (text_lines content) = Some idx" "\<forall>l \<in> set (text_lines content). \<not> ends_with l [CR]"
    "plain_model m"
  shows "text_lines (with_model idx m content) = (text_lines content)[idx := ''model: '' @ m]
    \<and> current_model (with_model idx m content) = Some m"
proof -
  let ?ls = "text_lines content" and ?n = "''model: '' @ m"
  from assms(1) obtain e where e: "frontmatter_end ?ls = Some e" "1 \<le> idx" "idx < e" "e < length ?ls"
    "\<forall>j. 1 \<le> j \<and> j < idx \<longrightarrow> \<not> starts_with (?ls ! j) MODEL_KEY"
    by (rule model_line_index_Some)
  have "with_model idx m content = edit_line idx (\<lambda>_. ?n) content"
    by (simp only: with_model_def edit_line_def)
  then have l: "text_lines (with_model idx m content) = ?ls[idx := ?n]"
    using e assms plain_model_line [OF assms(3)] edit_line_lines [of idx content ?n "\<lambda>_. ?n"] by simp
  have "find (\<lambda>i. starts_with (?ls[idx := ?n] ! i) MODEL_KEY) [1..<e] = Some idx"
    unfolding find_upt_Some using e by (auto simp: MODEL_KEY_def starts_with_def)
  then have "model_line_index (?ls[idx := ?n]) = Some idx"
    using frontmatter_end_update [OF e(1-3) model_line_not_dashes, of m] by (simp add: model_line_index_def)
  moreover have "unquote_model (trim (drop (length MODEL_KEY) ?n)) = m"
    using assms(3) by (simp add: MODEL_KEY_def plain_model_def)
  ultimately show ?thesis using l e by (simp add: current_model_def)
qed

section \<open>Finding keys\<close>

lemma str_find_extend: "str_find s p = Some i \<Longrightarrow> str_find (s @ r) p = Some i"
proof (induction s arbitrary: i)
  case (Cons c s)
  show ?case
  proof (cases "starts_with (c # s) p")
    case True
    then have "starts_with ((c # s) @ r) p" by (metis append_assoc starts_with_iff)
    with True Cons.prems show ?thesis by simp
  next
    case False
    with Cons.prems obtain j where j: "str_find s p = Some j" "i = Suc j" by auto
    have "length p \<le> length s" using str_find_lt [OF j(1)] by simp
    then have "take (length p) ((c # s) @ r) = take (length p) (c # s)" by (simp only: take_append) simp
    with False have "\<not> starts_with ((c # s) @ r) p" by (simp add: starts_with_def)
    with Cons.IH [OF j(1)] j False show ?thesis by simp
  qed
qed (auto split: if_splits simp: str_find_here starts_with_def)

lemma str_find_no_quote:
  "QUOTE \<notin> set a \<Longrightarrow> str_find (a @ s) (QUOTE # p) = map_option ((+) (length a)) (str_find s (QUOTE # p))"
  by (induction a; cases "str_find s (QUOTE # p)") (auto simp: starts_with_def)

lemma take_quote_eq: "QUOTE \<notin> set k \<Longrightarrow> QUOTE \<notin> set j \<Longrightarrow> take (length j + 1) (k @ QUOTE # s) = j @ [QUOTE] \<Longrightarrow> k = j"
proof (induction k arbitrary: j)
  case Nil
  then show ?case by (cases j) auto
next
  case (Cons c k)
  then show ?case by (cases j) auto
qed

text \<open>The keys the switcher writes: no quote, backslash or colon, and not empty.\<close>

definition plain_key :: "string \<Rightarrow> bool" where
  "plain_key k = (k \<noteq> [] \<and> QUOTE \<notin> set k \<and> BACKSLASH \<notin> set k \<and> CHR '':'' \<notin> set k)"

lemma str_find_other_key:
  assumes "plain_key k" "plain_key j" "k \<noteq> j"
  shows "str_find (quoted k @ CHR '':'' # s) (quoted j) = map_option ((+) (length k + 3)) (str_find s (quoted j))"
proof -
  have 1: "\<not> starts_with (QUOTE # k @ QUOTE # CHR '':'' # s) (quoted j)"
    using take_quote_eq [of k j] assms by (auto simp: starts_with_def quoted_def plain_key_def)
  have 2: "\<not> starts_with (QUOTE # CHR '':'' # s) (quoted j)"
    using assms by (cases j) (auto simp: starts_with_def quoted_def plain_key_def)
  have 3: "\<not> starts_with (CHR '':'' # s) (quoted j)" by (simp add: starts_with_def quoted_def)
  have "str_find (k @ QUOTE # CHR '':'' # s) (quoted j) = map_option ((+) (length k)) (str_find (QUOTE # CHR '':'' # s) (quoted j))"
    using str_find_no_quote [of k] assms by (simp add: quoted_def plain_key_def)
  with 1 2 3 show ?thesis
    by (cases "str_find s (quoted j)") (simp_all add: quoted_def)
qed

section \<open>Limit objects as ordered maps\<close>

definition limit_entry :: "string \<times> u64 \<Rightarrow> string" where
  "limit_entry e = quoted (fst e) @ '': '' @ digits (unat (snd e))"

definition render_limits :: "(string \<times> u64) list \<Rightarrow> string" where
  "render_limits kvs = ''{ '' @ join '', '' (map limit_entry kvs) @ '' }''"

definition wf_limits :: "(string \<times> u64) list \<Rightarrow> bool" where
  "wf_limits kvs = (keys_distinct kvs \<and> list_all (\<lambda>e. plain_key (fst e)) kvs)"

fun insert_after :: "'k \<Rightarrow> 'k \<times> 'v \<Rightarrow> ('k \<times> 'v) list \<Rightarrow> ('k \<times> 'v) list" where
  "insert_after k e [] = [e]"
| "insert_after k e (x # m) = (if fst x = k then x # e # m else x # insert_after k e m)"

text \<open>The edit as the map sees it: a present key keeps its place, a new \<^verbatim>\<open>input\<close> goes behind
  \<^verbatim>\<open>context\<close>, any other new key to the end, a removed one disappears.\<close>

definition limit_update :: "string \<Rightarrow> u64 option \<Rightarrow> (string \<times> u64) list \<Rightarrow> (string \<times> u64) list" where
  "limit_update k val kvs = (case val of
       None \<Rightarrow> filter (\<lambda>e. fst e \<noteq> k) kvs
     | Some v \<Rightarrow> if k \<in> fst ` set kvs then jmap_insert k v kvs
         else if k = ''input'' then insert_after ''context'' (k, v) kvs else kvs @ [(k, v)])"

subsection \<open>The text around an entry\<close>

definition before_entry :: "(string \<times> u64) list \<Rightarrow> string" where
  "before_entry A = ''{ '' @ concat (map (\<lambda>e. limit_entry e @ '', '') A)"

definition behind_entry :: "(string \<times> u64) list \<Rightarrow> string" where
  "behind_entry B = concat (map (\<lambda>e. '', '' @ limit_entry e) B) @ '' }''"

lemma join_around: "join sep (A @ x # B) = concat (map (\<lambda>a. a @ sep) A) @ x @ concat (map (\<lambda>b. sep @ b) B)"
proof (induction A)
  case Nil
  show ?case by (induction B arbitrary: x) (auto simp: join_Cons)
next
  case (Cons a A)
  then show ?case by (simp add: join_Cons)
qed

lemma render_limits_around: "render_limits (A @ e # B) = before_entry A @ limit_entry e @ behind_entry B"
  by (simp add: render_limits_def before_entry_def behind_entry_def join_around comp_def)

lemma digits_bytes: "c \<in> set (digits n) \<Longrightarrow> is_digit c"
proof (induction n rule: digits.induct)
  case (1 n)
  have d: "is_digit (char_of (48 + m))" if "m < 10" for m :: nat
    using that by (simp add: is_digit_def)
  from 1 show ?case
    by (cases "n < 10") (auto simp: digits.simps [of n] intro: d simp del: digits.simps)
qed

lemma digits_not_Nil: "digits n \<noteq> []"
  by (simp add: digits.simps [of n] del: digits.simps)

lemma digit_facts: "is_digit c \<Longrightarrow> \<not> is_cont c \<and> \<not> is_whitespace [c] \<and> c \<noteq> QUOTE \<and> c \<noteq> BACKSLASH
    \<and> c \<noteq> CHR ''{'' \<and> c \<noteq> CHR ''}'' \<and> c \<noteq> COMMA \<and> c \<noteq> CHR '':''"
  by (auto simp: is_digit_def is_cont_def is_whitespace_def)

lemma leading_digits_exact: "s = [] \<or> \<not> is_digit (hd s) \<Longrightarrow> leading_digits (digits n @ s) = length (digits n)"
proof -
  assume "s = [] \<or> \<not> is_digit (hd s)"
  then have "takeWhile is_digit (digits n @ s) = digits n"
    using digits_bytes by (cases s) (auto simp: takeWhile_append2)
  then show ?thesis by (simp add: leading_digits_def)
qed

lemma leading_ws_none: "s = [] \<or> (\<not> is_cont (hd s) \<and> (\<forall>r. takeWhile is_cont (tl s) = r \<longrightarrow> \<not> is_whitespace (hd s # r))) \<Longrightarrow> leading_ws s = 0"
  by (cases s) (auto simp: leading_ws_def trim_start_def)

lemma leading_ws_space: "s \<noteq> [] \<Longrightarrow> \<not> is_cont (hd s) \<Longrightarrow> leading_ws (SPACE # s) = Suc (leading_ws s)"
proof -
  assume s: "s \<noteq> []" "\<not> is_cont (hd s)"
  then have c: "chars (SPACE # s) = [SPACE] # chars s" by (intro chars_ascii_Cons) simp
  have "length (trim_start s) \<le> length s"
    unfolding trim_start_def by (metis concat_append concat_chars le_add2 length_append takeWhile_dropWhile_id)
  with c show ?thesis by (simp add: leading_ws_def trim_start_def is_whitespace_def)
qed

lemma is_whitespace_digit: "is_digit c \<Longrightarrow> \<not> is_whitespace (c # r)"
  by (auto simp: is_digit_def is_whitespace_def split: list.splits)

lemma behind_entry_hd: "behind_entry B \<noteq> [] \<and> \<not> is_digit (hd (behind_entry B))"
  by (cases B) (auto simp: behind_entry_def is_digit_def)

lemma number_span_entry:
  assumes "behind \<noteq> []" "\<not> is_digit (hd behind)"
  shows "number_span (pre @ quoted k @ '': '' @ digits n @ behind) (length pre + length k + 3)
    = (length pre + length k + 4, length pre + length k + 4 + length (digits n))"
proof -
  let ?a = "pre @ quoted k @ '':''"
  obtain c ds where d: "digits n = c # ds" "is_digit c"
    using digits_not_Nil [of n] digits_bytes [of _ n] by (cases "digits n") auto
  have "leading_ws (digits n @ behind) = 0"
    using d is_whitespace_digit [of c] digit_facts [of c] by (intro leading_ws_none) auto
  then have "leading_ws (SPACE # digits n @ behind) = 1"
    using d digit_facts [of c] by (subst leading_ws_space) auto
  moreover have "drop (length ?a) (?a @ SPACE # digits n @ behind) = SPACE # digits n @ behind"
    "drop (length ?a + 1) (?a @ SPACE # digits n @ behind) = digits n @ behind"
    by simp_all
  moreover have "length ?a = length pre + length k + 3" by (simp add: quoted_def)
  moreover have "pre @ quoted k @ '': '' @ digits n @ behind = ?a @ SPACE # digits n @ behind" by simp
  ultimately show ?thesis
    using leading_digits_exact [of behind n] assms by (simp only: number_span_def Let_def) simp
qed

lemma str_find_pre: "\<forall>e \<in> set A. plain_key (fst e) \<and> fst e \<noteq> k \<Longrightarrow> plain_key k \<Longrightarrow>
   str_find (before_entry A @ s) (quoted k) = map_option ((+) (length (before_entry A))) (str_find s (quoted k))"
proof -
  have q: "quoted k = QUOTE # k @ [QUOTE]" by (simp add: quoted_def)
  have e: "str_find (limit_entry e @ '', '' @ s) (quoted k) = map_option ((+) (length (limit_entry e) + 2)) (str_find s (quoted k))"
    if "plain_key (fst e)" "fst e \<noteq> k" "plain_key k" for e s
  proof -
    have d: "QUOTE \<notin> set (SPACE # digits (unat (snd e)) @ '', '')"
      using digits_bytes digit_facts by fastforce
    have "str_find (limit_entry e @ '', '' @ s) (quoted k)
        = map_option ((+) (length (fst e) + 3)) (str_find ((SPACE # digits (unat (snd e)) @ '', '') @ s) (quoted k))"
      using str_find_other_key [OF that(1,3,2), of "SPACE # digits (unat (snd e)) @ '', '' @ s"] by (simp add: limit_entry_def)
    also have "\<dots> = map_option ((+) (length (limit_entry e) + 2)) (str_find s (quoted k))"
      unfolding q str_find_no_quote [OF d] by (cases "str_find s (QUOTE # k @ [QUOTE])") (simp_all add: limit_entry_def quoted_def)
    finally show ?thesis .
  qed
  have l: "str_find (concat (map (\<lambda>e. limit_entry e @ '', '') A) @ s) (quoted k)
      = map_option ((+) (length (concat (map (\<lambda>e. limit_entry e @ '', '') A)))) (str_find s (quoted k))"
    if "\<forall>e \<in> set A. plain_key (fst e) \<and> fst e \<noteq> k" "plain_key k"
    using that(1)
  proof (induction A)
    case (Cons a A)
    then show ?case
      using e [of a "concat (map (\<lambda>e. limit_entry e @ '', '') A) @ s"] that(2)
      by (cases "str_find s (quoted k)") simp_all
  qed (cases "str_find s (quoted k)"; simp)
  assume "\<forall>e \<in> set A. plain_key (fst e) \<and> fst e \<noteq> k" "plain_key k"
  from l [OF this] show ?thesis
    by (cases "str_find s (quoted k)") (simp_all add: before_entry_def quoted_def starts_with_def)
qed

lemma leading_ws_colon: "leading_ws (CHR '':'' # s) = 0"
  by (intro leading_ws_none) (auto simp: is_cont_def is_whitespace_def split: list.splits)

lemma find_key_here:
  assumes "str_find s (quoted k) = Some i" "s = pre @ quoted k @ CHR '':'' # r" "length pre = i"
  shows "find_key s k = Some (i, i + length k + 3)"
proof -
  have "drop (i + length (quoted k)) s = CHR '':'' # r" using assms(2) by (simp flip: assms(3))
  with assms(1) show ?thesis
    by (simp add: find_key_def find_key_from.simps [of s k 0] leading_ws_colon starts_with_def Let_def) (simp add: quoted_def)
qed

lemma find_key_missing: "str_find s (quoted k) = None \<Longrightarrow> find_key s k = None"
  by (simp add: find_key_def find_key_from.simps [of s k 0])

lemma find_key_entry:
  assumes "wf_limits (A @ e # B)"
  shows "find_key (render_limits (A @ e # B)) (fst e) = Some (length (before_entry A), length (before_entry A) + length (fst e) + 3)"
proof -
  let ?r = "limit_entry e @ behind_entry B"
  have k: "\<forall>a \<in> set A. plain_key (fst a) \<and> fst a \<noteq> fst e" "plain_key (fst e)"
    using assms by (auto simp: wf_limits_def keys_distinct_def list_all_iff image_iff)
  have "str_find ?r (quoted (fst e)) = Some 0" by (intro str_find_here) (simp add: limit_entry_def)
  with str_find_pre [OF k, of ?r]
  have "str_find (before_entry A @ ?r) (quoted (fst e)) = Some (length (before_entry A))" by simp
  then show ?thesis
    unfolding render_limits_around by (rule find_key_here) (simp_all add: limit_entry_def)
qed

lemma find_key_none:
  assumes "wf_limits kvs" "plain_key k" "k \<notin> fst ` set kvs"
  shows "find_key (render_limits kvs) k = None"
proof (cases kvs rule: rev_cases)
  case Nil
  then show ?thesis
    by (intro find_key_missing) (simp add: render_limits_def quoted_def starts_with_def)
next
  case (snoc A e)
  have q: "quoted k = QUOTE # k @ [QUOTE]" by (simp add: quoted_def)
  have d: "QUOTE \<notin> set (SPACE # digits (unat (snd e)) @ '' }'')" using digits_bytes digit_facts by fastforce
  have k: "\<forall>a \<in> set A. plain_key (fst a) \<and> fst a \<noteq> k" "plain_key (fst e)" "fst e \<noteq> k"
    using assms snoc by (auto simp: wf_limits_def list_all_iff)
  have n: "str_find (SPACE # digits (unat (snd e)) @ '' }'') (quoted k) = None"
    using str_find_no_quote [OF d, of "[]" "k @ [QUOTE]"] by (simp add: q)
  have "str_find (limit_entry e @ behind_entry []) (quoted k) = None"
    using str_find_other_key [OF k(2) assms(2) k(3), of "SPACE # digits (unat (snd e)) @ '' }''"] n
    by (simp add: limit_entry_def behind_entry_def)
  with snoc str_find_pre [OF k(1) assms(2), of "limit_entry e @ behind_entry []"]
  show ?thesis by (intro find_key_missing) (simp add: render_limits_around)
qed

subsection \<open>The edits\<close>

lemma wf_limits_split:
  assumes "wf_limits kvs" "k \<in> fst ` set kvs"
  obtains A e B where "kvs = A @ e # B" "fst e = k" "k \<notin> fst ` set A" "k \<notin> fst ` set B"
proof -
  from assms(2) obtain e where e: "e \<in> set kvs" "fst e = k" by auto
  then obtain A B where "kvs = A @ e # B" by (auto dest: split_list)
  with e assms(1) that show thesis by (auto simp: wf_limits_def keys_distinct_def)
qed

lemma jmap_insert_around: "k \<notin> fst ` set A \<Longrightarrow> jmap_insert k v (A @ (k, n) # B) = A @ (k, v) # B"
  by (induction A) auto

lemma insert_after_around: "k \<notin> fst ` set A \<Longrightarrow> fst e = k \<Longrightarrow> insert_after k x (A @ e # B) = A @ e # x # B"
  by (induction A) auto

lemma insert_after_absent: "k \<notin> fst ` set m \<Longrightarrow> insert_after k e m = m @ [e]"
  by (induction m) auto

lemma entry_number_span:
  "number_span (before_entry A @ limit_entry (k, n) @ behind_entry B) (length (before_entry A) + length k + 3)
    = (length (before_entry A) + length k + 4, length (before_entry A) + length (limit_entry (k, n)))"
  using number_span_entry [of "behind_entry B" "before_entry A" k "unat n"] behind_entry_hd [of B]
  by (simp add: limit_entry_def quoted_def)

lemma replace_number:
  "take (length (before_entry A) + length k + 4) (before_entry A @ limit_entry (k, n) @ b) @ digits (unat v)
     @ drop (length (before_entry A) + length (limit_entry (k, n))) (before_entry A @ limit_entry (k, n) @ b)
   = before_entry A @ limit_entry (k, v) @ b"
proof -
  let ?p = "quoted k @ '': ''"
  have "take (length ?p) (?p @ digits (unat n) @ b) = ?p" by simp
  moreover have "length ?p = length k + 4" by (simp add: quoted_def)
  moreover have "limit_entry (k, n) @ b = ?p @ digits (unat n) @ b" by (simp add: limit_entry_def)
  ultimately have "take (length k + 4) (limit_entry (k, n) @ b) = ?p" by (simp only:)
  then show ?thesis by (simp add: limit_entry_def add.assoc)
qed

lemma set_existing:
  assumes "wf_limits (A @ (k, n) # B)"
  shows "set_number_in_object (render_limits (A @ (k, n) # B)) k (Some v) = render_limits (A @ (k, v) # B)"
  using find_key_entry [OF assms] entry_number_span [of A k n B] replace_number [of A k n "behind_entry B" v]
  by (simp add: set_number_in_object_def render_limits_around)

lemma trim_blank: "list_all (\<lambda>c. c = SPACE) s \<Longrightarrow> trim s = []"
proof -
  assume s: "list_all (\<lambda>c. c = SPACE) s"
  then have "list_all is_whitespace (chars s)"
  proof (induction s)
    case (Cons c s)
    then have "s = [] \<or> \<not> is_cont (hd s)" by (cases s) (auto simp: is_cont_def)
    from chars_ascii_Cons [OF this, of c] Cons show ?case by (simp add: is_whitespace_def)
  qed simp
  then have "dropWhile is_whitespace (chars s) = []" by (simp add: list_all_iff)
  then show ?thesis unfolding trim_def by (simp only: rev.simps dropWhile.simps concat.simps)
qed

lemma trim_not_blank: "trim s = [] \<Longrightarrow> list_all is_whitespace (chars s)"
proof -
  assume "trim s = []"
  then have "\<forall>c \<in> set (dropWhile is_whitespace (rev (dropWhile is_whitespace (chars s)))). c = []"
    by (simp add: trim_def)
  moreover have "\<forall>c \<in> set (dropWhile is_whitespace (rev (dropWhile is_whitespace (chars s)))). c \<noteq> []"
    using chars_nonempty [of _ s] by (fastforce dest: set_dropWhileD)
  ultimately have "dropWhile is_whitespace (rev (dropWhile is_whitespace (chars s))) = []"
    by (metis list.set_intros(1) neq_Nil_conv)
  then have "\<forall>c \<in> set (dropWhile is_whitespace (chars s)). is_whitespace c" by simp
  then have "dropWhile is_whitespace (chars s) = []"
    by (metis hd_dropWhile hd_in_set)
  then show ?thesis by (simp add: list_all_iff)
qed

lemma white_no_quote: "is_whitespace c \<Longrightarrow> QUOTE \<notin> set c"
  by (auto simp: is_whitespace_def split: list.splits)

lemma quote_not_blank: "QUOTE \<in> set s \<Longrightarrow> trim s \<noteq> []"
proof
  assume "QUOTE \<in> set s" "trim s = []"
  then have w: "list_all is_whitespace (chars s)" by (simp add: trim_not_blank)
  from \<open>QUOTE \<in> set s\<close> obtain c where "c \<in> set (chars s)" "QUOTE \<in> set c"
    by (metis UN_iff concat_chars set_concat)
  with w white_no_quote [of c] show False by (auto simp: list_all_iff)
qed

lemma trim_end_space: "X \<noteq> [] \<Longrightarrow> is_digit (last X) \<Longrightarrow> trim_end (X @ [SPACE]) = X"
proof -
  assume x: "X \<noteq> []" "is_digit (last X)"
  then obtain Y d where X: "X = Y @ [d]" "is_digit d" by (metis append_butlast_last_id)
  with digit_facts [of d] have c: "chars (X @ [SPACE]) = chars Y @ [[d], [SPACE]]"
    using chars_append [of "[d, SPACE]" Y] by (simp add: is_cont_def)
  have "is_whitespace [SPACE]" "\<not> is_whitespace [d]" using digit_facts [OF X(2)] by (simp_all add: is_whitespace_def)
  with X c show ?thesis by (simp add: trim_end_def)
qed

lemma limit_entry_last: "is_digit (last (limit_entry e)) \<and> limit_entry e \<noteq> []"
  using digits_bytes [OF last_in_set [OF digits_not_Nil [of "unat (snd e)"]]] digits_not_Nil [of "unat (snd e)"]
  by (simp add: limit_entry_def quoted_def)

lemma insert_entry_limits: "insert_entry (render_limits kvs) (limit_entry e) = render_limits (kvs @ [e])"
proof (cases kvs rule: rev_cases)
  case Nil
  have "trim '' '' = []" "trim ''  '' = []" by (rule trim_blank; simp)+
  then show ?thesis using Nil by (simp add: insert_entry_def render_limits_def substr_def)
next
  case (snoc A x)
  define X where "X = before_entry A @ limit_entry x"
  have o: "render_limits kvs = X @ '' }''"
    using snoc by (simp add: X_def render_limits_around behind_entry_def)
  have X: "X \<noteq> []" "is_digit (last X)" using limit_entry_last [of x] by (auto simp: X_def)
  have "substr (X @ '' }'') 1 (length X + 1) = drop 1 (X @ [SPACE])" by (simp add: substr_def)
  also have "\<dots> = SPACE # concat (map (\<lambda>e. limit_entry e @ '', '') A) @ limit_entry x @ [SPACE]"
    by (simp add: X_def before_entry_def)
  finally have "trim (substr (X @ '' }'') 1 (length X + 1)) \<noteq> []"
    by (intro quote_not_blank) (simp add: limit_entry_def quoted_def)
  moreover have "length (trim_end (take (length X + 1) (X @ '' }''))) = length X"
    using trim_end_space [OF X] by simp
  ultimately have "insert_entry (X @ '' }'') (limit_entry e) = X @ '', '' @ limit_entry e @ '' }''"
    by (simp add: insert_entry_def Let_def)
  also have "\<dots> = render_limits (kvs @ [e])"
    using snoc render_limits_around [of "A @ [x]" e "[]"] by (simp add: X_def before_entry_def behind_entry_def)
  finally show ?thesis by (simp only: o)
qed

lemma str_rfind_last: "c \<notin> set b \<Longrightarrow> str_rfind c (a @ c # b) = Some (length a)"
proof (induction a)
  case Nil
  have "c \<notin> set b \<Longrightarrow> str_rfind c b = None" by (induction b) auto
  with Nil show ?case by simp
qed simp

lemma str_rfind_none: "c \<notin> set b \<Longrightarrow> str_rfind c b = None"
  by (induction b) auto

lemma starts_with_comma [simp]: "starts_with (c # s) '','' = (c = COMMA)"
  by (auto simp: starts_with_def)

lemma leading_ws_limit_entry [simp]: "leading_ws (limit_entry e @ s) = 0"
  by (intro leading_ws_none) (auto simp: limit_entry_def quoted_def is_whitespace_def split: list.splits)

lemma leading_ws_comma [simp]: "leading_ws (COMMA # s) = 0" "leading_ws '' }'' = 1" "leading_ws ''}'' = 0"
  by (auto simp: leading_ws_def trim_start_def is_whitespace_def is_cont_def split: list.splits)

lemma remove_entry_limits:
  "remove_entry (render_limits (A @ e # B)) (length (before_entry A)) (length (before_entry A) + length (limit_entry e))
     = render_limits (A @ B)"
proof (cases A rule: rev_cases)
  case Nil
  have b: "before_entry A = ''{ ''" using Nil by (simp add: before_entry_def)
  show ?thesis
  proof (cases B)
    case Nil
    with b \<open>A = []\<close> show ?thesis
      by (simp add: remove_entry_def render_limits_around behind_entry_def starts_with_def render_limits_def)
  next
    case (Cons x B')
    have "leading_ws (SPACE # limit_entry x @ s) = 1" for s
      by (subst leading_ws_space) (simp_all add: limit_entry_def quoted_def leading_ws_limit_entry [of x s, unfolded limit_entry_def quoted_def, simplified])
    with b \<open>A = []\<close> Cons render_limits_around [of "[]" x B'] render_limits_around [of "[]" e "x # B'"] show ?thesis
      by (simp add: remove_entry_def render_limits_around behind_entry_def)
  qed
next
  case (snoc A' x)
  define X where "X = before_entry A' @ limit_entry x"
  have b: "before_entry A = X @ '', ''" using snoc by (simp add: X_def before_entry_def)
  have "str_rfind COMMA (X @ COMMA # [SPACE]) = Some (length X)" by (rule str_rfind_last) simp
  moreover have "trim [SPACE] = []" by (rule trim_blank) simp
  moreover have "render_limits (A @ B) = X @ behind_entry B"
    using snoc render_limits_around [of A' x B] by (simp add: X_def)
  ultimately show ?thesis
    by (simp add: remove_entry_def render_limits_around b substr_def)
qed

lemma plain_keys [simp]: "plain_key ''context''" "plain_key ''input''"
  by (simp_all add: plain_key_def)

lemma new_entry_text: "quoted k @ '': '' @ digits (unat v) = limit_entry (k, v)"
  by (simp add: limit_entry_def)

lemma set_number_limits:
  assumes wf: "wf_limits kvs" and k: "plain_key k"
  shows "set_number_in_object (render_limits kvs) k val = render_limits (limit_update k val kvs)"
proof (cases "k \<in> fst ` set kvs")
  case True
  then obtain A e B where s: "kvs = A @ e # B" "fst e = k" "k \<notin> fst ` set A" "k \<notin> fst ` set B"
    using wf_limits_split [OF wf] by blast
  then obtain n where e: "e = (k, n)" by (cases e) auto
  show ?thesis
  proof (cases val)
    case None
    have "filter (\<lambda>e. fst e \<noteq> k) A = A" "filter (\<lambda>e. fst e \<noteq> k) B = B"
      using s by (auto intro!: filter_True simp: image_iff)
    then have "filter (\<lambda>e. fst e \<noteq> k) kvs = A @ B" using s by simp
    moreover have "find_key (render_limits kvs) k = Some (length (before_entry A), length (before_entry A) + length k + 3)"
      using find_key_entry [of A e B] wf s by simp
    ultimately show ?thesis
      using None remove_entry_limits [of A e B] entry_number_span [of A k n B] s e
      by (simp add: set_number_in_object_def limit_update_def render_limits_around)
  next
    case (Some v)
    with set_existing [of A k n B v] wf s e True show ?thesis
      by (simp add: limit_update_def jmap_insert_around)
  qed
next
  case False
  then have n: "find_key (render_limits kvs) k = None" using find_key_none [OF wf k] by simp
  show ?thesis
  proof (cases val)
    case None
    have "filter (\<lambda>e. fst e \<noteq> k) kvs = kvs" using False by (auto simp: filter_id_conv image_iff)
    with None n show ?thesis by (simp add: set_number_in_object_def limit_update_def)
  next
    case (Some v)
    show ?thesis
    proof (cases "k = ''input'' \<and> ''context'' \<in> fst ` set kvs")
      case True
      then obtain A e B where s: "kvs = A @ e # B" "fst e = ''context''" "''context'' \<notin> fst ` set A"
        using wf_limits_split [OF wf] by blast
      then obtain m where e: "e = (''context'', m)" by (cases e) auto
      let ?o = "before_entry A @ limit_entry (''context'', m) @ behind_entry B"
      have f: "find_key ?o ''context'' = Some (length (before_entry A), length (before_entry A) + length ''context'' + 3)"
        using find_key_entry [of A e B] wf s e by (simp add: render_limits_around)
      have g: "number_span ?o (length (before_entry A) + length ''context'' + 3)
          = (length (before_entry A) + length ''context'' + 4, length (before_entry A) + length (limit_entry (''context'', m)))"
        by (rule entry_number_span)
      have "find_key ?o ''input'' = None" using n True s e by (simp add: render_limits_around)
      with f g have "set_number_in_object ?o ''input'' (Some v)
          = before_entry A @ limit_entry (''context'', m) @ '', '' @ limit_entry (''input'', v) @ behind_entry B"
        unfolding set_number_in_object_def by (simp del: append_Cons add: limit_entry_def)
      also have "\<dots> = render_limits (A @ (''context'', m) # (''input'', v) # B)"
        by (simp add: render_limits_around behind_entry_def)
      finally show ?thesis
        using Some True False s e by (simp add: limit_update_def insert_after_around render_limits_around)
    next
      case False
      then have "limit_update k val kvs = kvs @ [(k, v)]"
        using Some \<open>k \<notin> fst ` set kvs\<close> by (auto simp: limit_update_def insert_after_absent)
      moreover have "(if k = ''input'' then find_key (render_limits kvs) ''context'' else None) = None"
        using False find_key_none [OF wf, of "''context''"] by auto
      ultimately show ?thesis
        using Some n insert_entry_limits [of kvs "(k, v)"] by (simp add: set_number_in_object_def limit_entry_def)
    qed
  qed
qed

lemma wf_limits_update: "wf_limits kvs \<Longrightarrow> plain_key k \<Longrightarrow> wf_limits (limit_update k val kvs)"
proof -
  assume wf: "wf_limits kvs" "plain_key k"
  have i: "keys_distinct (insert_after c (k, v) m) \<and> list_all (\<lambda>e. plain_key (fst e)) (insert_after c (k, v) m)
      \<and> fst ` set (insert_after c (k, v) m) = insert k (fst ` set m)"
    if "keys_distinct m" "list_all (\<lambda>e. plain_key (fst e)) m" "k \<notin> fst ` set m" for c v and m :: "(string \<times> u64) list"
    using that wf(2)
  proof (induction c "(k, v)" m rule: insert_after.induct)
    case (2 c x m)
    then show ?case by (auto simp: keys_distinct_def image_iff)
  qed (simp add: keys_distinct_def)
  show ?thesis
  proof (cases val)
    case None
    with wf show ?thesis
      by (auto simp: limit_update_def wf_limits_def keys_distinct_def list_all_iff distinct_map inj_on_def)
  next
    case (Some v)
    have "list_all (\<lambda>e. plain_key (fst e)) (jmap_insert k v kvs)"
      using wf by (induction k v kvs rule: jmap_insert.induct) (auto simp: wf_limits_def keys_distinct_def)
    moreover have "wf_limits (kvs @ [(k, v)])" if "k \<notin> fst ` set kvs"
      using wf that by (auto simp: wf_limits_def keys_distinct_def)
    ultimately show ?thesis
      using Some wf i [of kvs] by (auto simp: limit_update_def wf_limits_def keys_distinct_insert)
  qed
qed

subsection \<open>The line around the object\<close>

lemma bracket_scan_plain:
  "\<forall>c \<in> set a. c \<noteq> QUOTE \<and> c \<noteq> op \<and> c \<noteq> cl \<Longrightarrow>
   bracket_scan op cl (d, False, False) (a @ s) = map_option ((+) (length a)) (bracket_scan op cl (d, False, False) s)"
  by (induction a; cases "bracket_scan op cl (d, False, False) s") (auto simp: bracket_next_def)

lemma bracket_scan_in_string:
  "QUOTE \<notin> set k \<Longrightarrow> BACKSLASH \<notin> set k \<Longrightarrow>
   bracket_scan op cl (d, True, False) (k @ QUOTE # s) = map_option ((+) (length k + 1)) (bracket_scan op cl (d, False, False) s)"
  by (induction k; cases "bracket_scan op cl (d, False, False) s") (auto simp: bracket_next_def)

lemma bracket_scan_entry:
  assumes "plain_key (fst e)"
  shows "bracket_scan (CHR ''{'') (CHR ''}'') (d, False, False) (limit_entry e @ s)
    = map_option ((+) (length (limit_entry e))) (bracket_scan (CHR ''{'') (CHR ''}'') (d, False, False) s)"
proof -
  have p: "\<forall>c \<in> set ('': '' @ digits (unat (snd e))). c \<noteq> QUOTE \<and> c \<noteq> CHR ''{'' \<and> c \<noteq> CHR ''}''"
    using digits_bytes digit_facts by fastforce
  have "bracket_scan (CHR ''{'') (CHR ''}'') (d, True, False) (fst e @ QUOTE # ('': '' @ digits (unat (snd e))) @ s)
      = map_option ((+) (length (fst e) + 1)) (map_option ((+) (length ('': '' @ digits (unat (snd e)))))
          (bracket_scan (CHR ''{'') (CHR ''}'') (d, False, False) s))"
    using assms bracket_scan_plain [OF p, of d s] by (subst bracket_scan_in_string) (auto simp: plain_key_def)
  then show ?thesis
    by (cases "bracket_scan (CHR ''{'') (CHR ''}'') (d, False, False) s")
      (simp_all add: limit_entry_def quoted_def bracket_next_def)
qed

lemma bracket_scan_entries:
  "list_all (\<lambda>e. plain_key (fst e)) kvs \<Longrightarrow>
   bracket_scan (CHR ''{'') (CHR ''}'') (d, False, False) (join '', '' (map limit_entry kvs) @ s)
     = map_option ((+) (length (join '', '' (map limit_entry kvs)))) (bracket_scan (CHR ''{'') (CHR ''}'') (d, False, False) s)"
proof (induction kvs)
  case (Cons e kvs)
  let ?b = "bracket_scan (CHR ''{'') (CHR ''}'') (d, False, False) s"
  from Cons.prems have e: "plain_key (fst e)" by simp
  show ?case
  proof (cases "kvs = []")
    case True
    then show ?thesis using bracket_scan_entry [OF e, of d s] by simp
  next
    case False
    have c: "bracket_scan (CHR ''{'') (CHR ''}'') (d, False, False) ('', '' @ r)
        = map_option ((+) (Suc (Suc 0))) (bracket_scan (CHR ''{'') (CHR ''}'') (d, False, False) r)" for r
      using bracket_scan_plain [of "'', ''" "CHR ''{''" "CHR ''}''" d r] by simp
    from Cons have IH: "bracket_scan (CHR ''{'') (CHR ''}'') (d, False, False) (join '', '' (map limit_entry kvs) @ s)
        = map_option ((+) (length (join '', '' (map limit_entry kvs)))) ?b" by simp
    from False bracket_scan_entry [OF e, of d "'', '' @ join '', '' (map limit_entry kvs) @ s"] c IH
    show ?thesis by (cases ?b) (simp_all add: join_Cons)
  qed
qed (cases "bracket_scan (CHR ''{'') (CHR ''}'') (d, False, False) s"; simp)

lemma bracket_scan_limits:
  assumes "list_all (\<lambda>e. plain_key (fst e)) kvs"
  shows "bracket_scan (CHR ''{'') (CHR ''}'') (0, False, False) (render_limits kvs @ s) = Some (length (render_limits kvs) - 1)"
  using bracket_scan_entries [OF assms, of 1 "'' }'' @ s"]
  by (simp add: render_limits_def bracket_next_def)

definition limit_line :: "string \<Rightarrow> (string \<times> u64) list \<Rightarrow> string \<Rightarrow> string" where
  "limit_line pre kvs post = pre @ quoted ''limit'' @ '': '' @ render_limits kvs @ post"

text \<open>The first \<^verbatim>\<open>"limit"\<close> of the line is the one behind \<open>pre\<close>.\<close>

definition first_limit :: "string \<Rightarrow> bool" where
  "first_limit pre = (str_find (pre @ quoted ''limit'') (quoted ''limit'') = Some (length pre))"

lemma object_after_limit:
  assumes "first_limit pre" "wf_limits kvs"
  shows "object_after_key (limit_line pre kvs post) ''limit''
    = Some (length pre + 9, length pre + 9 + (length (render_limits kvs) - 1))"
proof -
  let ?l = "limit_line pre kvs post"
  have "str_find ?l (quoted ''limit'') = Some (length pre)"
    using str_find_extend [of "pre @ quoted ''limit''" "quoted ''limit''" "length pre" "'': '' @ render_limits kvs @ post"] assms(1)
    by (simp add: limit_line_def first_limit_def)
  from find_key_here [OF this, of pre "SPACE # render_limits kvs @ post"]
  have f: "find_key ?l ''limit'' = Some (length pre, length pre + 8)" by (simp add: limit_line_def)
  have r: "render_limits kvs @ post = CHR ''{'' # SPACE # join '', '' (map limit_entry kvs) @ '' }'' @ post"
    by (simp add: render_limits_def)
  have "leading_ws (CHR ''{'' # x) = 0" for x
    by (intro leading_ws_none) (auto simp: is_cont_def is_whitespace_def split: list.splits)
  then have w: "leading_ws (SPACE # render_limits kvs @ post) = 1"
    unfolding r by (subst leading_ws_space) (auto simp: is_cont_def)
  have d: "drop (length pre + 8) ?l = SPACE # render_limits kvs @ post"
    "drop (length pre + 8 + 1) ?l = render_limits kvs @ post" by (simp_all add: limit_line_def quoted_def)
  have "starts_with (render_limits kvs @ post) ''{''" unfolding r by (simp add: starts_with_def)
  with f w d bracket_scan_limits [of kvs post] assms(2) show ?thesis
    by (simp add: object_after_key_def bracket_span_def Let_def wf_limits_def)
qed

lemma splice_around: "r \<noteq> [] \<Longrightarrow> splice (a @ r @ b) (length a, length a + (length r - 1)) x = a @ x @ b"
  by (cases r) (simp_all add: splice_def)

lemma edit_limit_line:
  assumes "first_limit pre" "wf_limits kvs" "plain_key k"
  shows "edit_limit_on_line (limit_line pre kvs post) k val = limit_line pre (limit_update k val kvs) post"
proof -
  let ?a = "pre @ quoted ''limit'' @ '': ''" and ?r = "render_limits kvs"
  have l: "limit_line pre kvs post = ?a @ ?r @ post" and a: "length ?a = length pre + 9" and r: "0 < length ?r"
    by (simp_all add: limit_line_def quoted_def render_limits_def)
  have "substr (?a @ ?r @ post) (length ?a) (length ?a + length ?r) = ?r" by (simp add: substr_def)
  moreover have "splice (?a @ ?r @ post) (length ?a, length ?a + (length ?r - 1)) x = ?a @ x @ post" for x
    using r by (intro splice_around) simp
  ultimately show ?thesis
    using object_after_limit [OF assms(1,2), of post] set_number_limits [OF assms(2,3), of val] r
    unfolding edit_limit_on_line_def l a [symmetric] by (simp add: limit_line_def)
qed

text \<open>C39. The limit editor refines an ordered map. On a model line whose first \<^verbatim>\<open>"limit"\<close> is followed by a
  one-line object of numbers, the edit made by \<^verbatim>\<open>ctx\<close> leaves everything around the object as it is, and the
  object is the rendering of the updated map: \<^verbatim>\<open>context\<close> set when given, \<^verbatim>\<open>input\<close> set in place, inserted
  behind \<^verbatim>\<open>context\<close> or removed, every other entry and the order untouched.\<close>

theorem limits_edit_refines_map:
  assumes "first_limit pre" "wf_limits kvs"
  shows "edit_limits ctx inp (limit_line pre kvs post) = limit_line pre
    (limit_update ''input'' inp (case ctx of None \<Rightarrow> kvs | Some c \<Rightarrow> limit_update ''context'' (Some c) kvs)) post"
  using assms edit_limit_line wf_limits_update by (auto simp: edit_limits_def split: option.splits)

theorem limits_edit_refines_map_witness:
  "edit_limits (Some 4096) (Some 3112) (limit_line ''m: { '' [(''context'', 65536), (''output'', 8192)] '' },'')
     = limit_line ''m: { '' [(''context'', 4096), (''input'', 3112), (''output'', 8192)] '' },''"
proof -
  have "first_limit ''m: { ''" by (simp add: first_limit_def quoted_def starts_with_def)
  moreover have "wf_limits [(''context'', 65536), (''output'', 8192)]"
    by (simp add: wf_limits_def keys_distinct_def plain_key_def)
  ultimately show ?thesis
    by (subst limits_edit_refines_map) (simp_all add: limit_update_def)
qed

end
