(* ===== verification/Model_Switcher.thy ===== *)
theory Model_Switcher
  imports Model_Config_Correct Float64
begin

text \<open>
  The model switcher's commands, \<^verbatim>\<open>opencode/helpers/model-switcher/src/main.rs\<close>: the selection and confirmation
  dialogs as functions of the terminal events, the modes as transformations of the disk, the dispatch on the
  arguments.

  Terminal output is left out, and taken to succeed; of the drawing only the scroll window is modelled. A dialog
  that has used up its events is waiting (\<open>None\<close>). Parameters: \<open>from_str\<close> is the JSON parser, \<open>lower\<close> the
  Unicode lower-casing of \<^verbatim>\<open>str::to_lowercase\<close>.
\<close>

section \<open>Selector\<close>

datatype key_code = Up | Down | Enter | Esc | Backspace | Key_Char string bool | Other_Key
  \<comment> \<open>a character key with its scalar and whether Control is held\<close>

datatype term_event = Key_Event key_code | Other_Event

text \<open>\<^verbatim>\<open>event::read()\<close>: an event or an error.\<close>

type_synonym events = "(term_event, string) result list"

record selector =
  sel_filter :: "string list"   \<comment> \<open>the typed scalars\<close>
  sel_selected :: nat
  sel_initialized :: bool

definition selector_new :: selector where
  "selector_new = \<lparr>sel_filter = [], sel_selected = 0, sel_initialized = False\<rparr>"

definition matching :: "(string \<Rightarrow> string) \<Rightarrow> string list \<Rightarrow> string list \<Rightarrow> string list" where
  "matching lower models flt = filter (\<lambda>m. flt = [] \<or> str_contains (lower m) (lower (concat flt))) models"

text \<open>The head of the loop: clamp the selection, then jump to the current model once.\<close>

definition settle_selection :: "(string \<Rightarrow> string) \<Rightarrow> string list \<Rightarrow> string \<Rightarrow> selector \<Rightarrow> selector" where
  "settle_selection lower models current s =
     (let filtered = matching lower models (sel_filter s);
          clamped = (if length filtered \<le> sel_selected s then length filtered - 1 else sel_selected s)
      in if \<not> sel_initialized s \<and> sel_filter s = []
         then s\<lparr>sel_selected := some_or (find_index (\<lambda>m. m = current) filtered) clamped, sel_initialized := True\<rparr>
         else s\<lparr>sel_selected := clamped\<rparr>)"

text \<open>One key: leave with an answer or go on.\<close>

fun on_key :: "string list \<Rightarrow> key_code \<Rightarrow> selector \<Rightarrow> string option + selector" where
  "on_key filtered Up s = Inr (s\<lparr>sel_selected := sel_selected s - 1\<rparr>)"
| "on_key filtered Down s = Inr (if sel_selected s + 1 < length filtered then s\<lparr>sel_selected := sel_selected s + 1\<rparr> else s)"
| "on_key filtered Enter s = (if sel_selected s < length filtered then Inl (Some (filtered ! sel_selected s)) else Inr s)"
| "on_key filtered Esc s = Inl None"
| "on_key filtered (Key_Char c ctrl) s = (if c = ''c'' \<and> ctrl then Inl None
     else Inr (s\<lparr>sel_filter := sel_filter s @ [c], sel_selected := 0, sel_initialized := True\<rparr>))"
| "on_key filtered Backspace s = Inr (s\<lparr>sel_filter := butlast (sel_filter s), sel_selected := 0\<rparr>)"
| "on_key filtered Other_Key s = Inr s"

type_synonym 'a dialog = "((('a, chain) result) \<times> events) option"

fun run_selector :: "(string \<Rightarrow> string) \<Rightarrow> string list \<Rightarrow> string \<Rightarrow> selector \<Rightarrow> events \<Rightarrow> string option dialog" where
  "run_selector lower models current s [] = None"
| "run_selector lower models current s (Inl e # es) = Some (Err [e], es)"
| "run_selector lower models current s (Inr Other_Event # es) =
     run_selector lower models current (settle_selection lower models current s) es"
| "run_selector lower models current s (Inr (Key_Event k) # es) =
     (let s' = settle_selection lower models current s in
      case on_key (matching lower models (sel_filter s')) k s' of
        Inl answer \<Rightarrow> Some (Ok answer, es)
      | Inr s'' \<Rightarrow> run_selector lower models current s'' es)"

text \<open>Raw mode around the loop does not change its answer; the three selectors differ in what they draw.\<close>

definition select_model :: "(string \<Rightarrow> string) \<Rightarrow> string list \<Rightarrow> string \<Rightarrow> events \<Rightarrow> string option dialog" where
  "select_model lower models current es = run_selector lower models current selector_new es"

text \<open>The rows drawn: from \<open>start\<close> up to \<open>end\<close>, with \<open>max_visible\<close> rows of the terminal free.\<close>

definition scroll_window :: "nat \<Rightarrow> nat \<Rightarrow> nat \<Rightarrow> nat \<times> nat" where
  "scroll_window max_visible selected len =
     (let start = (if max_visible \<le> selected then selected - max_visible + 1 else 0)
      in (start, min (start + max_visible) len))"

definition row_prefix :: "bool \<Rightarrow> bool \<Rightarrow> string" where
  "row_prefix is_selected is_current = (case (is_selected, is_current) of
       (True, True) \<Rightarrow> ''  > * '' | (True, False) \<Rightarrow> ''  >   '' | (False, True) \<Rightarrow> ''    * '' | (False, False) \<Rightarrow> ''      '')"

definition drawn_rows :: "nat \<Rightarrow> nat \<Rightarrow> (string \<Rightarrow> bool) \<Rightarrow> string list \<Rightarrow> string list" where
  "drawn_rows max_visible selected is_current items =
     (let (start, end) = scroll_window max_visible selected (length items)
      in map (\<lambda>(i, item). row_prefix (i = selected) (is_current item) @ item)
           (take (end - start) (drop start (enumerate 0 items))))"

section \<open>Confirmation\<close>

fun run_confirm :: "events \<Rightarrow> bool dialog" where
  "run_confirm [] = None"
| "run_confirm (Inl e # es) = Some (Err [e], es)"
| "run_confirm (Inr Other_Event # es) = run_confirm es"
| "run_confirm (Inr (Key_Event k) # es) = (case k of
       Enter \<Rightarrow> Some (Ok True, es)
     | Esc \<Rightarrow> Some (Ok False, es)
     | Key_Char c ctrl \<Rightarrow>
         if c = ''y'' \<or> c = ''Y'' then Some (Ok True, es)
         else if c = ''n'' \<or> c = ''N'' then Some (Ok False, es)
         else if c = ''c'' \<and> ctrl then Some (Ok False, es)
         else run_confirm es
     | _ \<Rightarrow> run_confirm es)"

section \<open>Modes\<close>

datatype outcome = Waiting | Exit nat | Finished "(unit, chain) result"

definition load_models :: "json parser \<Rightarrow> disk \<Rightarrow> (string list, chain) result" where
  "load_models from_str d = (case read_models from_str d OPENCODE_CONFIG_PATH of
       Inl e \<Rightarrow> Err e
     | Inr ms \<Rightarrow> if ms = [] then Err [''No models declared under providers in '' @ OPENCODE_CONFIG_PATH] else Ok ms)"

definition or_unknown :: "(string, chain) result \<Rightarrow> string" where
  "or_unknown r = (case r of Inl _ \<Rightarrow> ''unknown'' | Inr m \<Rightarrow> m)"

record selection =
  pick_path :: string
  pick_old :: string
  pick_new :: string

text \<open>The dialog with each agent in turn; the inner \<open>None\<close> is an abort.\<close>

fun choose_agents ::
  "(string \<Rightarrow> string) \<Rightarrow> disk \<Rightarrow> string list \<Rightarrow> agent list \<Rightarrow> events \<Rightarrow> selection list option dialog" where
  "choose_agents lower d models [] es = Some (Ok (Some []), es)"
| "choose_agents lower d models (a # as) es =
     (let current = or_unknown (get_current_model d (agent_path a)) in
      case select_model lower models current es of
        None \<Rightarrow> None
      | Some (Inl e, es') \<Rightarrow> Some (Err e, es')
      | Some (Inr None, es') \<Rightarrow> Some (Ok None, es')
      | Some (Inr (Some selected), es') \<Rightarrow>
          (case choose_agents lower d models as es' of
             Some (Inr (Some rest), es'') \<Rightarrow>
               Some (Ok (Some (\<lparr>pick_path = agent_path a, pick_old = current, pick_new = selected\<rparr> # rest)), es'')
           | other \<Rightarrow> other))"

fun pin_all :: "selection list \<Rightarrow> disk \<Rightarrow> (unit, chain) result \<times> disk" where
  "pin_all [] d = (Ok (), d)"
| "pin_all (p # ps) d = (if pick_new p \<noteq> pick_old p
     then (case update_agent_model (pick_path p) (pick_new p) d of
             (Inl e, d') \<Rightarrow> (Err e, d') | (Inr _, d') \<Rightarrow> pin_all ps d')
     else pin_all ps d)"

definition switch_default ::
  "json parser \<Rightarrow> string \<Rightarrow> string \<Rightarrow> disk \<Rightarrow> (unit, chain) result \<times> disk" where
  "switch_default from_str old new d =
     (if old \<noteq> new then update_default_model from_str OPENCODE_CONFIG_PATH new d else (Ok (), d))"

definition apply_selections ::
  "json parser \<Rightarrow> string \<Rightarrow> string \<Rightarrow> selection list \<Rightarrow> disk \<Rightarrow> (unit, chain) result \<times> disk" where
  "apply_selections from_str old new picks d = (case switch_default from_str old new d of
       (Inl e, d') \<Rightarrow> (Err e, d') | (Inr _, d') \<Rightarrow> pin_all picks d')"

definition run_agent_mode :: "json parser \<Rightarrow> (string \<Rightarrow> string) \<Rightarrow> events \<Rightarrow> disk \<Rightarrow> outcome \<times> disk" where
  "run_agent_mode from_str lower es d = (case load_models from_str d of
       Inl e \<Rightarrow> (Finished (Err e), d)
     | Inr models \<Rightarrow> (case discover_agents d AGENTS_DIR of
         Inl e \<Rightarrow> (Finished (Err e), d)
       | Inr agents \<Rightarrow>
         (let current_default = or_unknown (get_default_model from_str d OPENCODE_CONFIG_PATH) in
          case select_model lower models current_default es of
            None \<Rightarrow> (Waiting, d)
          | Some (Inl e, _) \<Rightarrow> (Finished (Err e), d)
          | Some (Inr None, _) \<Rightarrow> (Finished (Ok ()), d)
          | Some (Inr (Some selected), es1) \<Rightarrow>
              (case choose_agents lower d models agents es1 of
                 None \<Rightarrow> (Waiting, d)
               | Some (Inl e, _) \<Rightarrow> (Finished (Err e), d)
               | Some (Inr None, _) \<Rightarrow> (Finished (Ok ()), d)
               | Some (Inr (Some picks), es2) \<Rightarrow>
                   (case run_confirm es2 of
                      None \<Rightarrow> (Waiting, d)
                    | Some (Inl e, _) \<Rightarrow> (Finished (Err e), d)
                    | Some (Inr False, _) \<Rightarrow> (Finished (Ok ()), d)
                    | Some (Inr True, _) \<Rightarrow>
                        apfst Finished (apply_selections from_str current_default selected picks d))))))"

text \<open>In \<^verbatim>\<open>all\<close> mode each agent's pin is read when its turn comes.\<close>

fun pin_each :: "string \<Rightarrow> agent list \<Rightarrow> disk \<Rightarrow> (unit, chain) result \<times> disk" where
  "pin_each selected [] d = (Ok (), d)"
| "pin_each selected (a # as) d =
     (if or_unknown (get_current_model d (agent_path a)) \<noteq> selected
      then (case update_agent_model (agent_path a) selected d of
              (Inl e, d') \<Rightarrow> (Err e, d') | (Inr _, d') \<Rightarrow> pin_each selected as d')
      else pin_each selected as d)"

definition run_all_mode :: "json parser \<Rightarrow> (string \<Rightarrow> string) \<Rightarrow> events \<Rightarrow> disk \<Rightarrow> outcome \<times> disk" where
  "run_all_mode from_str lower es d = (case load_models from_str d of
       Inl e \<Rightarrow> (Finished (Err e), d)
     | Inr models \<Rightarrow> (case discover_agents d AGENTS_DIR of
         Inl e \<Rightarrow> (Finished (Err e), d)
       | Inr agents \<Rightarrow>
         (let current_default = or_unknown (get_default_model from_str d OPENCODE_CONFIG_PATH) in
          case select_model lower models current_default es of
            None \<Rightarrow> (Waiting, d)
          | Some (Inl e, _) \<Rightarrow> (Finished (Err e), d)
          | Some (Inr None, _) \<Rightarrow> (Finished (Ok ()), d)
          | Some (Inr (Some selected), _) \<Rightarrow>
              (case switch_default from_str current_default selected d of
                 (Inl e, d') \<Rightarrow> (Finished (Err e), d')
               | (Inr _, d') \<Rightarrow> apfst Finished (pin_each selected agents d')))))"

section \<open>Limits\<close>

datatype ctx_preset = Safe | Balanced | Aggressive

text \<open>The binary64 literals 0.76, 0.85 and 0.92.\<close>

fun fraction :: "ctx_preset \<Rightarrow> f64" where
  "fraction Safe = signed False (round_ratio 76 100)"
| "fraction Balanced = signed False (round_ratio 85 100)"
| "fraction Aggressive = signed False (round_ratio 92 100)"

text \<open>\<^verbatim>\<open>as u64\<close>: towards zero, saturating, 0 for a NaN.\<close>

definition f64_as_u64 :: "f64 \<Rightarrow> u64" where
  "f64_as_u64 x = (if is_nan x \<or> negative x then 0
     else if magnitude x = F64_INF then - 1
     else (let (m, e) = decode_magnitude (magnitude x); n = m * up e div up (- e) in
           if n < 2 ^ 64 then of_nat n else - 1))"

definition input_limit :: "u64 \<Rightarrow> ctx_preset \<Rightarrow> u64" where
  "input_limit ctx_size preset = f64_as_u64 (f64_mul (f64_of_nat (unat ctx_size)) (fraction preset))"

text \<open>The models whose limits did not end up as intended.\<close>

definition unapplied_limits :: "u64 option \<Rightarrow> u64 option \<Rightarrow> model_info list \<Rightarrow> string list" where
  "unapplied_limits ctx inp infos =
     map mi_id (filter (\<lambda>m. (ctx \<noteq> None \<and> mi_context m \<noteq> ctx) \<or> mi_input m \<noteq> inp) infos)"

definition warn_unapplied_limits ::
  "json parser \<Rightarrow> u64 option \<Rightarrow> u64 option \<Rightarrow> disk \<Rightarrow> (string list, chain) result" where
  "warn_unapplied_limits from_str ctx inp d =
     map_sum id (unapplied_limits ctx inp) (read_model_info from_str d OPENCODE_CONFIG_PATH)"

text \<open>The warning names the models; the command succeeds all the same.\<close>

definition set_limits :: "json parser \<Rightarrow> u64 option \<Rightarrow> u64 option \<Rightarrow> disk \<Rightarrow> (string list, chain) result \<times> disk" where
  "set_limits from_str ctx inp d = (case update_limits from_str OPENCODE_CONFIG_PATH ctx inp d of
       (Inl e, d') \<Rightarrow> (Err e, d')
     | (Inr changes, d') \<Rightarrow> (warn_unapplied_limits from_str ctx inp d', d'))"

definition run_ctx_mode :: "json parser \<Rightarrow> u64 \<Rightarrow> ctx_preset \<Rightarrow> disk \<Rightarrow> (string list, chain) result \<times> disk" where
  "run_ctx_mode from_str ctx_size preset =
     set_limits from_str (Some ctx_size) (Some (input_limit ctx_size preset))"

definition run_ctx_off_mode :: "json parser \<Rightarrow> disk \<Rightarrow> (string list, chain) result \<times> disk" where
  "run_ctx_off_mode from_str = set_limits from_str None None"

definition set_images :: "json parser \<Rightarrow> bool \<Rightarrow> disk \<Rightarrow> (string list, chain) result \<times> disk" where
  "set_images from_str enable d = (case update_image from_str OPENCODE_CONFIG_PATH enable d of
       (Inl e, d') \<Rightarrow> (Err e, d')
     | (Inr changes, d') \<Rightarrow>
         (map_sum id (\<lambda>infos. map mi_id (filter (\<lambda>m. mi_image m \<noteq> enable) infos))
            (read_model_info from_str d' OPENCODE_CONFIG_PATH), d'))"

section \<open>Status\<close>

fun group_digits :: "nat \<Rightarrow> string \<Rightarrow> string" where
  "group_digits i [] = []"
| "group_digits i (c # s) = (if 0 < i \<and> i mod 3 = 0 then [COMMA] else []) @ c # group_digits (i + 1) s"

definition format_tokens :: "u64 \<Rightarrow> string" where
  "format_tokens n = rev (group_digits 0 (rev (digits (unat n))))"

text \<open>\<^verbatim>\<open>(i * 100 + c / 2) / c\<close> on \<^verbatim>\<open>u64\<close>; \<open>None\<close> where the sum leaves the type.\<close>

definition input_percent :: "u64 \<Rightarrow> u64 \<Rightarrow> nat option" where
  "input_percent i c = (let n = unat i * 100 + unat c div 2 in if n < 2 ^ 64 then Some (n div unat c) else None)"

text \<open>The table behind \<^verbatim>\<open>status\<close>: default model, pinned agents, agents that inherit, model infos.\<close>

fun pinned_models :: "disk \<Rightarrow> agent list \<Rightarrow> ((string \<times> string) list, chain) result" where
  "pinned_models d [] = Ok []"
| "pinned_models d (a # as) = (case get_current_model d (agent_path a) of
       Inl e \<Rightarrow> Err e
     | Inr m \<Rightarrow> map_sum id (Cons (agent_name a, m)) (pinned_models d as))"

definition run_status ::
  "json parser \<Rightarrow> disk \<Rightarrow> (string \<times> (string \<times> string) list \<times> string list \<times> model_info list, chain) result" where
  "run_status from_str d = (case get_default_model from_str d OPENCODE_CONFIG_PATH of
       Inl e \<Rightarrow> Err e
     | Inr model \<Rightarrow> (case discover_agents d AGENTS_DIR of
         Inl e \<Rightarrow> Err e
       | Inr agents \<Rightarrow> (case pinned_models d agents of
           Inl e \<Rightarrow> Err e
         | Inr pins \<Rightarrow> (case unpinned_agents d AGENTS_DIR of
             Inl e \<Rightarrow> Err e
           | Inr names \<Rightarrow> (case read_model_info from_str d OPENCODE_CONFIG_PATH of
               Inl e \<Rightarrow> Err e
             | Inr infos \<Rightarrow> Ok (model, pins, names, infos))))))"

section \<open>Dispatch\<close>

text \<open>\<^verbatim>\<open>str::parse::<u64>\<close>: an optional plus, then digits, with the error of the first offending byte.\<close>

fun parse_digits :: "nat \<Rightarrow> string \<Rightarrow> (u64, string) result" where
  "parse_digits n [] = Ok (of_nat n)"
| "parse_digits n (c # s) = (if \<not> is_digit c then Err ''invalid digit found in string''
     else let m = 10 * n + (of_char c - 48) in
       if m < 2 ^ 64 then parse_digits m s else Err ''number too large to fit in target type'')"

definition parse_u64 :: "string \<Rightarrow> (u64, string) result" where
  "parse_u64 s = (if s = [] then Err ''cannot parse integer from empty string''
     else let ds = some_or (strip_prefix s ''+'') s in
       if ds = [] then Err ''invalid digit found in string'' else parse_digits 0 ds)"

definition preset_of :: "string \<Rightarrow> ctx_preset option" where
  "preset_of s = (if s = ''safe'' then Some Safe else if s = ''balanced'' then Some Balanced
     else if s = ''aggressive'' then Some Aggressive else None)"

definition arg :: "string list \<Rightarrow> nat \<Rightarrow> string option" where
  "arg args i = (if i < length args then Some (args ! i) else None)"

abbreviation finished :: "('a, chain) result \<times> disk \<Rightarrow> outcome \<times> disk" where
  "finished r \<equiv> apfst (\<lambda>x. Finished (map_sum id (\<lambda>_. ()) x)) r"

definition run_image :: "json parser \<Rightarrow> string \<Rightarrow> disk \<Rightarrow> outcome \<times> disk" where
  "run_image from_str sub d =
     (if sub = ''on'' then finished (set_images from_str True d)
      else if sub = ''off'' then finished (set_images from_str False d)
      else (Exit 1, d))"

definition run_ctx :: "json parser \<Rightarrow> string list \<Rightarrow> disk \<Rightarrow> outcome \<times> disk" where
  "run_ctx from_str args d =
     (if arg args 2 = Some ''off'' then finished (run_ctx_off_mode from_str d)
      else if length args < 4 then (Exit 1, d)
      else (case parse_u64 (args ! 2) of
          Inl e \<Rightarrow> (Finished (Err [''Invalid context size '' @ CHR 0x27 # args ! 2 @ CHR 0x27 # '': must be a positive integer'', e]), d)
        | Inr n \<Rightarrow>
            if n = 0 then (Finished (Err [''Context size must be greater than 0'']), d)
            else (case preset_of (args ! 3) of
                None \<Rightarrow> (Exit 1, d)
              | Some preset \<Rightarrow> (case run_ctx_mode from_str n preset d of
                    (Inl e, d') \<Rightarrow> (Finished (Err e), d')
                  | (Inr _, d') \<Rightarrow> if arg args 4 = Some ''image'' then run_image from_str (some_or (arg args 5) ''on'') d'
                      else (Finished (Ok ()), d')))))"

definition RETIRED :: "string list" where
  "RETIRED = [''omo'', ''oh-my-opencode'', ''restore-omo-defaults'', ''vision'']"

definition run_main :: "json parser \<Rightarrow> (string \<Rightarrow> string) \<Rightarrow> string list \<Rightarrow> events \<Rightarrow> disk \<Rightarrow> outcome \<times> disk" where
  "run_main from_str lower args es d = (let cmd = some_or (arg args 1) ''lm'' in
     if cmd \<in> set [''help'', ''-h'', ''--help''] then (Finished (Ok ()), d)
     else if cmd \<in> set RETIRED then (Exit 1, d)
     else (case check_layout d of
         Inl e \<Rightarrow> (Finished (Err e), d)
       | Inr _ \<Rightarrow>
           if cmd = ''lm'' \<or> cmd = ''local-mind'' then run_agent_mode from_str lower es d
           else if cmd = ''all'' then run_all_mode from_str lower es d
           else if cmd = ''status'' then finished (run_status from_str d, d)
           else if cmd = ''image'' then run_image from_str (some_or (arg args 2) ''on'') d
           else if cmd = ''ctx'' then run_ctx from_str args d
           else (Exit 1, d)))"

end
