(* ===== verification/Model_Switcher_Correct.thy ===== *)
theory Model_Switcher_Correct
  imports Model_Switcher
begin

text \<open>
  What the model switcher's commands guarantee: every listed model can be reached in the selector and the
  selected row is drawn, no command leaves the config unreadable, and a confirmed run pins what was chosen.
\<close>

section \<open>Selector\<close>

abbreviation keys :: "key_code list \<Rightarrow> events" where "keys ks \<equiv> map (\<lambda>k. Inr (Key_Event k)) ks"

lemma run_backspaces:
  "run_selector lower models current s (keys (replicate (Suc (length (sel_filter s))) Backspace) @ es)
   = run_selector lower models current \<lparr>sel_filter = [], sel_selected = 0, sel_initialized = True\<rparr> es"
proof (induction "length (sel_filter s)" arbitrary: s)
  case 0
  then show ?case by (cases s) (auto simp: settle_selection_def Let_def)
next
  case (Suc n)
  let ?s = "settle_selection lower models current s"
  have f: "sel_filter ?s = sel_filter s" by (simp add: settle_selection_def Let_def)
  have "n = length (sel_filter (?s\<lparr>sel_filter := butlast (sel_filter ?s), sel_selected := 0\<rparr>))"
    using Suc.hyps(2) f by simp
  from Suc.hyps(1) [OF this] Suc.hyps(2) [symmetric] f show ?case by (simp add: Let_def)
qed

lemma run_downs:
  "k + j < length models \<Longrightarrow>
   run_selector lower models current \<lparr>sel_filter = [], sel_selected = k, sel_initialized = True\<rparr> (keys (replicate j Down) @ es)
   = run_selector lower models current \<lparr>sel_filter = [], sel_selected = k + j, sel_initialized = True\<rparr> es"
  by (induction j arbitrary: k) (simp_all add: settle_selection_def matching_def Let_def)

text \<open>Every model can be chosen. From any state of the selector, whatever was typed and wherever the cursor
  is, clearing the filter with Backspace, moving down and pressing Enter returns the model at that place of the
  list.\<close>

theorem every_model_selectable:
  assumes "i < length models"
  shows "run_selector lower models current s
      (keys (replicate (Suc (length (sel_filter s))) Backspace @ replicate i Down @ [Enter]))
    = Some (Ok (Some (models ! i)), [])"
  using run_backspaces [of lower models current s] run_downs [of 0 i models lower current "keys [Enter]"] assms
  by (simp add: settle_selection_def matching_def Let_def)

theorem every_model_selectable_witness:
  "run_selector id [''a/x'', ''b/y''] ''a/x'' \<lparr>sel_filter = [''q''], sel_selected = 7, sel_initialized = False\<rparr>
     (keys [Backspace, Backspace, Down, Enter]) = Some (Ok (Some ''b/y''), [])"
  using every_model_selectable [of 1 "[''a/x'', ''b/y'']" id "''a/x''"
      "\<lparr>sel_filter = [''q''], sel_selected = 7, sel_initialized = False\<rparr>"] by simp

text \<open>The cursor is on screen. With at least one row free the window drawn lies inside the list, contains
  the selected row, and is as large as the rows or the list allow.\<close>

theorem selected_row_drawn:
  assumes "0 < max_visible" "selected < n"
  shows "case scroll_window max_visible selected n of (start, end) \<Rightarrow>
    start \<le> selected \<and> selected < end \<and> end \<le> n \<and> end - start \<le> max_visible \<and> (selected < max_visible \<longleftrightarrow> start = 0)"
  using assms by (auto simp: scroll_window_def)

theorem selected_row_drawn_witness:
  "case scroll_window 3 5 9 of (start, end) \<Rightarrow>
    start \<le> 5 \<and> 5 < end \<and> end \<le> 9 \<and> end - start \<le> 3 \<and> (5 < (3 :: nat) \<longleftrightarrow> start = 0)"
  using selected_row_drawn [of 3 5 9] by simp

section \<open>The config stays readable\<close>

definition readable :: "json parser \<Rightarrow> disk \<Rightarrow> bool" where
  "readable from_str d = (is_ok (read_config from_str d OPENCODE_CONFIG_PATH) \<and> write_fault d OPENCODE_CONFIG_PATH = None)"

lemma fs_write_other: "path \<noteq> OPENCODE_CONFIG_PATH \<Longrightarrow> readable from_str d \<Longrightarrow> readable from_str (snd (fs_write path content d))"
  by (auto simp: readable_def fs_write_def read_config_def fs_read_def split: option.splits)

lemma write_checked_readable:
  "readable from_str d \<Longrightarrow> readable from_str (snd (write_jsonc_checked from_str OPENCODE_CONFIG_PATH content d))"
  by (auto simp: write_jsonc_checked_def readable_def fs_write_def read_config_def fs_read_def context_of_def
      split: sum.splits option.splits)

lemma update_default_readable:
  "readable from_str d \<Longrightarrow> readable from_str (snd (update_default_model from_str OPENCODE_CONFIG_PATH m d))"
  using write_checked_readable [of from_str d]
  by (auto simp: update_default_model_def Let_def split: sum.splits option.splits prod.splits)

lemma update_lines_readable:
  "readable from_str d \<Longrightarrow> readable from_str (snd (update_lines from_str OPENCODE_CONFIG_PATH f d))"
proof -
  assume r: "readable from_str d"
  show ?thesis
  proof (cases "fs_read d OPENCODE_CONFIG_PATH")
    case (Inr content)
    obtain new n where "map_lines (\<lambda>_. f) content = (new, n)" by (cases "map_lines (\<lambda>_. f) content")
    with Inr write_checked_readable [OF r, of new] show ?thesis
      by (auto simp: update_lines_def split: sum.splits prod.splits)
  qed (use r in \<open>simp add: update_lines_def\<close>)
qed

lemma update_agent_readable:
  "path \<noteq> OPENCODE_CONFIG_PATH \<Longrightarrow> readable from_str d \<Longrightarrow> readable from_str (snd (update_agent_model path m d))"
  using fs_write_other [of path from_str d] by (auto simp: update_agent_model_def split: sum.splits option.splits)

lemma agent_paths_differ: "entry_path AGENTS_DIR name \<noteq> OPENCODE_CONFIG_PATH"
  by (simp add: entry_path_def AGENTS_DIR_def OPENCODE_CONFIG_PATH_def lossy_Cons_ascii is_ascii_def)

lemma pinned_agents_paths:
  "pinned_agents d AGENTS_DIR es = Ok as \<Longrightarrow> a \<in> set as \<Longrightarrow> agent_path a \<noteq> OPENCODE_CONFIG_PATH"
proof (induction d AGENTS_DIR es arbitrary: as rule: pinned_agents.induct)
  case (3 d name es)
  then show ?case
    by (cases "pinned_agents d AGENTS_DIR es") (auto simp: agent_paths_differ split: if_splits option.splits)
qed simp_all

lemma discovered_paths:
  "discover_agents d AGENTS_DIR = Ok as \<Longrightarrow> a \<in> set as \<Longrightarrow> agent_path a \<noteq> OPENCODE_CONFIG_PATH"
  by (cases "read_dir d AGENTS_DIR"; cases "pinned_agents d AGENTS_DIR (projr (read_dir d AGENTS_DIR))")
    (auto simp: discover_agents_def pinned_agents_paths)

abbreviation off_config :: "string list \<Rightarrow> bool" where "off_config ps \<equiv> OPENCODE_CONFIG_PATH \<notin> set ps"

lemma pin_all_readable:
  "off_config (map pick_path ps) \<Longrightarrow> readable from_str d \<Longrightarrow> readable from_str (snd (pin_all ps d))"
proof (induction ps arbitrary: d)
  case (Cons p ps)
  have "readable from_str (snd (update_agent_model (pick_path p) (pick_new p) d))"
    using Cons.prems by (intro update_agent_readable) auto
  with Cons show ?case by (auto split: prod.splits sum.splits)
qed simp

lemma pin_each_readable:
  "off_config (map agent_path as) \<Longrightarrow> readable from_str d \<Longrightarrow> readable from_str (snd (pin_each m as d))"
proof (induction as arbitrary: d)
  case (Cons a as)
  have "readable from_str (snd (update_agent_model (agent_path a) m d))"
    using Cons.prems by (intro update_agent_readable) auto
  with Cons show ?case by (auto split: prod.splits sum.splits)
qed simp

lemma switch_default_readable: "readable from_str d \<Longrightarrow> readable from_str (snd (switch_default from_str old new d))"
  by (simp add: switch_default_def update_default_readable)

lemma choose_agents_paths:
  "choose_agents lower d models as es = Some (Ok (Some picks), es') \<Longrightarrow>
   map pick_path picks = map agent_path as \<and> list_all (\<lambda>p. pick_old p = or_unknown (get_current_model d (pick_path p))) picks"
proof (induction lower d models as es arbitrary: picks es' rule: choose_agents.induct)
  case (2 lower d models a as es)
  then show ?case by (auto simp: Let_def split: option.splits prod.splits sum.splits)
qed simp

lemma apply_selections_readable:
  assumes "off_config (map pick_path picks)" "readable from_str d"
  shows "readable from_str (snd (apply_selections from_str old new picks d))"
  using switch_default_readable [OF assms(2), of old new] pin_all_readable [OF assms(1)]
  by (auto simp: apply_selections_def split: prod.splits sum.splits)

lemma off_config_agents: "discover_agents d AGENTS_DIR = Ok as \<Longrightarrow> off_config (map agent_path as)"
  using discovered_paths by fastforce

lemma agent_mode_cases:
  assumes "run_agent_mode from_str lower es d = (r, d')"
  obtains (untouched) "d' = d"
  | (confirmed) models agents selected es1 picks es2 es3 where
      "load_models from_str d = Ok models" "discover_agents d AGENTS_DIR = Ok agents"
      "select_model lower models (or_unknown (get_default_model from_str d OPENCODE_CONFIG_PATH)) es = Some (Ok (Some selected), es1)"
      "choose_agents lower d models agents es1 = Some (Ok (Some picks), es2)"
      "run_confirm es2 = Some (Ok True, es3)"
      "(r, d') = apfst Finished (apply_selections from_str (or_unknown (get_default_model from_str d OPENCODE_CONFIG_PATH)) selected picks d)"
  using assms unfolding run_agent_mode_def
  by (fastforce simp: Let_def split: sum.splits option.splits prod.splits bool.splits)

lemma agent_mode_readable:
  assumes "readable from_str d"
  shows "readable from_str (snd (run_agent_mode from_str lower es d))"
proof (cases "run_agent_mode from_str lower es d")
  case (Pair r d')
  then show ?thesis
  proof (cases rule: agent_mode_cases)
    case (confirmed models agents selected es1 picks es2 es3)
    then have "off_config (map pick_path picks)"
      using choose_agents_paths [OF confirmed(4)] off_config_agents by simp
    moreover have "d' = snd (apply_selections from_str (or_unknown (get_default_model from_str d OPENCODE_CONFIG_PATH)) selected picks d)"
      using confirmed(6) by (metis snd_apfst snd_conv)
    ultimately show ?thesis using apply_selections_readable [of picks from_str d] assms by (simp add: Pair)
  qed (use assms Pair in simp)
qed

lemma all_mode_readable:
  assumes "readable from_str d"
  shows "readable from_str (snd (run_all_mode from_str lower es d))"
proof -
  have sw: "readable from_str d''" if "switch_default from_str old new d = (x, d'')" for old new x d''
    using switch_default_readable [OF assms, of old new] that by simp
  have pe: "readable from_str (snd (pin_each m agents d''))"
    if "discover_agents d AGENTS_DIR = Ok agents" "readable from_str d''" for m agents d''
    using pin_each_readable off_config_agents that by blast
  show ?thesis
    unfolding run_all_mode_def Let_def using assms sw pe
    by (simp split: sum.split option.split prod.split)
qed

lemma set_limits_readable: "readable from_str d \<Longrightarrow> readable from_str (snd (set_limits from_str ctx inp d))"
  using update_lines_readable [of from_str d "edit_limits ctx inp"]
  by (auto simp: set_limits_def update_limits_def split: prod.splits sum.splits)

lemma set_images_readable: "readable from_str d \<Longrightarrow> readable from_str (snd (set_images from_str on d))"
  using update_lines_readable [of from_str d "\<lambda>l. set_image_on_line l on"]
  by (auto simp: set_images_def update_image_def split: prod.splits sum.splits)

lemma run_image_readable: "readable from_str d \<Longrightarrow> readable from_str (snd (run_image from_str sub d))"
  using set_images_readable by (auto simp: run_image_def)

lemma run_ctx_readable: "readable from_str d \<Longrightarrow> readable from_str (snd (run_ctx from_str args d))"
  using set_limits_readable [of from_str d] run_image_readable
  by (auto simp: run_ctx_def run_ctx_off_mode_def run_ctx_mode_def split: prod.splits sum.splits option.splits)
    (metis snd_conv)+

text \<open>C38. No command breaks the config. If \<^verbatim>\<open>opencode.jsonc\<close> parses and writing it does not fail, then after any
  command line with any terminal input, finished, refused, aborted or still waiting, it parses: line edits that
  would not are never written, and agent files are other files.\<close>

theorem config_stays_readable:
  assumes "is_ok (read_config from_str d OPENCODE_CONFIG_PATH)" "write_fault d OPENCODE_CONFIG_PATH = None"
  shows "is_ok (read_config from_str (snd (run_main from_str lower args es d)) OPENCODE_CONFIG_PATH)"
proof -
  have "readable from_str d" using assms by (simp add: readable_def)
  then have "readable from_str (snd (run_main from_str lower args es d))"
    using agent_mode_readable all_mode_readable run_image_readable run_ctx_readable
    by (auto simp: run_main_def Let_def split: sum.splits)
  then show ?thesis by (simp add: readable_def)
qed

definition sample_parse :: "json parser" where
  "sample_parse s = (if s = [] then Err ''EOF while parsing'' else Ok (JObj [(''providers'', JObj [])]))"

definition sample_disk :: disk where
  "sample_disk = \<lparr>texts = (\<lambda>p. if p = OPENCODE_CONFIG_PATH then Ok ''{}'' else Err ''No such file''),
     listing = (\<lambda>p. Ok []), present_path = (\<lambda>p. True), write_fault = (\<lambda>p. None)\<rparr>"

theorem config_stays_readable_witness:
  "is_ok (read_config sample_parse
     (snd (run_main sample_parse id [''model-switcher'', ''image'', ''off''] [] sample_disk)) OPENCODE_CONFIG_PATH)"
proof -
  have "strip_jsonc ''{}'' = ''{}''"
    by (simp add: strip_jsonc_def remove_trailing_commas_def)
  then have "is_ok (read_config sample_parse sample_disk OPENCODE_CONFIG_PATH)"
    by (simp add: read_config_def fs_read_def sample_disk_def parse_jsonc_def sample_parse_def context_of_def)
  then show ?thesis by (rule config_stays_readable) (simp add: sample_disk_def)
qed

section \<open>Chosen models are pinned\<close>

text \<open>No line of the file ends with a carriage return once its line ending is taken off.\<close>

definition tidy :: "disk \<Rightarrow> string \<Rightarrow> bool" where
  "tidy d path = (case texts d path of Inl e \<Rightarrow> True | Inr content \<Rightarrow> list_all (\<lambda>l. \<not> ends_with l [CR]) (text_lines content))"

lemma update_agent_model_pins:
  assumes "update_agent_model path m d = (Ok (), d')" "write_fault d path = None" "tidy d path" "plain_model m"
  shows "get_current_model d' path = Ok m \<and> (\<forall>q. q \<noteq> path \<longrightarrow> texts d' q = texts d q) \<and> write_fault d' = write_fault d"
proof -
  from assms(1,2) obtain content idx where c: "texts d path = Ok content" "model_line_index (text_lines content) = Some idx"
    "d' = d\<lparr>texts := (texts d)(path := Ok (with_model idx m content))\<rparr>"
    by (auto simp: update_agent_model_def fs_read_def fs_write_def split: sum.splits option.splits)
  moreover from this assms have "current_model (with_model idx m content) = Some m"
    using with_model_reads_back [of content idx m] by (simp add: tidy_def list_all_iff)
  ultimately show ?thesis by (simp add: get_current_model_def fs_read_def)
qed

lemma get_current_model_cong: "texts d q = texts d' q \<Longrightarrow> get_current_model d q = get_current_model d' q"
  by (simp add: get_current_model_def fs_read_def)

definition pinnable :: "disk \<Rightarrow> selection \<Rightarrow> bool" where
  "pinnable d p = (write_fault d (pick_path p) = None \<and> tidy d (pick_path p) \<and> plain_model (pick_new p))"

lemma pin_all_pins:
  assumes "pin_all ps d = (Ok (), d')" "distinct (map pick_path ps)" "list_all (pinnable d) ps"
    "\<forall>p \<in> set ps. get_current_model d (pick_path p) = Ok (pick_old p)"
  shows "(\<forall>p \<in> set ps. get_current_model d' (pick_path p) = Ok (pick_new p))
    \<and> (\<forall>q. q \<notin> set (map pick_path ps) \<longrightarrow> texts d' q = texts d q)"
  using assms
proof (induction ps arbitrary: d)
  case (Cons p ps)
  obtain d1 where d1: "pin_all ps d1 = (Ok (), d')" "get_current_model d1 (pick_path p) = Ok (pick_new p)"
    "\<forall>q. q \<noteq> pick_path p \<longrightarrow> texts d1 q = texts d q" "write_fault d1 = write_fault d"
  proof (cases "pick_new p = pick_old p")
    case True
    with Cons.prems that [of d] show thesis by simp
  next
    case False
    with Cons.prems obtain d1 where u: "update_agent_model (pick_path p) (pick_new p) d = (Ok (), d1)" "pin_all ps d1 = (Ok (), d')"
      by (auto split: prod.splits sum.splits)
    with Cons.prems update_agent_model_pins [OF u(1)] that [of d1] show thesis by (simp add: pinnable_def)
  qed
  have o: "texts d1 (pick_path r) = texts d (pick_path r)" if "r \<in> set ps" for r
  proof -
    from that have "pick_path r \<in> set (map pick_path ps)" by simp
    with Cons.prems(2) have "pick_path r \<noteq> pick_path p" by auto
    with d1(3) show ?thesis by simp
  qed
  then have "list_all (pinnable d1) ps" "\<forall>r \<in> set ps. get_current_model d1 (pick_path r) = Ok (pick_old r)"
    using Cons.prems d1(4) get_current_model_cong [of d1 _ d] by (auto simp: pinnable_def tidy_def list_all_iff)
  from Cons.IH [OF d1(1) _ this] Cons.prems(2)
  have IH: "\<forall>r \<in> set ps. get_current_model d' (pick_path r) = Ok (pick_new r)"
    "\<forall>q. q \<notin> set (map pick_path ps) \<longrightarrow> texts d' q = texts d1 q" by auto
  then have "texts d' (pick_path p) = texts d1 (pick_path p)" using Cons.prems(2) by simp
  then have "get_current_model d' (pick_path p) = Ok (pick_new p)" using d1(2) get_current_model_cong by metis
  with IH d1(3) show ?case by simp
qed simp

lemma switch_default_frame:
  "switch_default from_str old new d = (r, d') \<Longrightarrow> q \<noteq> OPENCODE_CONFIG_PATH \<Longrightarrow>
   texts d' q = texts d q \<and> write_fault d' = write_fault d"
  by (auto simp: switch_default_def update_default_model_def write_jsonc_checked_def fs_write_def Let_def
      split: if_splits sum.splits option.splits prod.splits)

lemma pinned_agents_current:
  "pinned_agents d dir es = Ok as \<Longrightarrow> a \<in> set as \<Longrightarrow> is_ok (get_current_model d (agent_path a))"
proof (induction d dir es arbitrary: as rule: pinned_agents.induct)
  case (3 d dir name es)
  then show ?case
    by (cases "pinned_agents d dir es") (auto split: if_splits option.splits)
qed simp_all

lemma discovered_current:
  "discover_agents d dir = Ok as \<Longrightarrow> a \<in> set as \<Longrightarrow> is_ok (get_current_model d (agent_path a))"
  by (cases "read_dir d dir"; cases "pinned_agents d dir (projr (read_dir d dir))")
    (auto simp: discover_agents_def pinned_agents_current)

lemma or_unknown_ok: "is_ok r \<Longrightarrow> r = Ok (or_unknown r)"
  by (cases r) (simp_all add: or_unknown_def)

text \<open>A confirmed run does what was chosen. When the dialogs of \<^verbatim>\<open>lm\<close> end with a confirmation and the run
  reports success, every agent's file pins the model chosen for it, read back the way the program reads it, and
  no file other than the config and the agents' changes; when the run is aborted, declined or still waiting,
  nothing is written at all.\<close>

theorem agent_mode_pins_choices:
  assumes run: "run_agent_mode from_str lower es d = (Finished (Ok ()), d')"
    and loaded: "load_models from_str d = Ok models" "discover_agents d AGENTS_DIR = Ok agents" "distinct (map agent_path agents)"
    and chosen: "select_model lower models (or_unknown (get_default_model from_str d OPENCODE_CONFIG_PATH)) es = Some (Ok (Some selected), es1)"
      "choose_agents lower d models agents es1 = Some (Ok (Some picks), es2)"
    and files: "list_all (pinnable d) picks"
  shows "(case run_confirm es2 of
      Some (Inr True, _) \<Rightarrow> (\<forall>p \<in> set picks. get_current_model d' (pick_path p) = Ok (pick_new p))
        \<and> (\<forall>q. q \<notin> set (OPENCODE_CONFIG_PATH # map agent_path agents) \<longrightarrow> texts d' q = texts d q)
    | _ \<Rightarrow> d' = d)"
proof (cases "\<exists>es3. run_confirm es2 = Some (Ok True, es3)")
  case False
  with run loaded chosen show ?thesis
    by (auto simp: run_agent_mode_def Let_def split: sum.splits option.splits prod.splits bool.splits)
next
  case True
  then obtain es3 where c: "run_confirm es2 = Some (Ok True, es3)" by blast
  let ?old = "or_unknown (get_default_model from_str d OPENCODE_CONFIG_PATH)"
  have "apfst Finished (apply_selections from_str ?old selected picks d) = (Finished (Ok ()), d')"
    using run loaded chosen c by (simp add: run_agent_mode_def Let_def)
  then have "apply_selections from_str ?old selected picks d = (Ok (), d')"
    by (cases "apply_selections from_str ?old selected picks d") simp
  then obtain d1 r where d1: "switch_default from_str ?old selected d = (r, d1)" "pin_all picks d1 = (Ok (), d')"
    unfolding apply_selections_def by (auto split: prod.splits sum.splits)
  note picks = choose_agents_paths [OF chosen(2)]
  have off: "pick_path p \<noteq> OPENCODE_CONFIG_PATH \<and> get_current_model d (pick_path p) = Ok (pick_old p)" if "p \<in> set picks" for p
  proof -
    from that have "pick_path p \<in> set (map pick_path picks)" by simp
    with picks have "pick_path p \<in> set (map agent_path agents)" by metis
    then obtain a where "a \<in> set agents" "pick_path p = agent_path a" by auto
    then have "pick_path p \<noteq> OPENCODE_CONFIG_PATH" "is_ok (get_current_model d (pick_path p))"
      using discovered_paths [OF loaded(2)] discovered_current [OF loaded(2)] by simp_all
    moreover have "pick_old p = or_unknown (get_current_model d (pick_path p))"
      using picks that by (simp add: list_all_iff)
    ultimately show ?thesis using or_unknown_ok by simp
  qed
  have same: "texts d1 q = texts d q" "write_fault d1 = write_fault d" if "q \<noteq> OPENCODE_CONFIG_PATH" for q
    using switch_default_frame [OF d1(1) that] by simp_all
  have "pinnable d1 p \<and> get_current_model d1 (pick_path p) = Ok (pick_old p)" if "p \<in> set picks" for p
  proof -
    from off [OF that] have o: "pick_path p \<noteq> OPENCODE_CONFIG_PATH" "get_current_model d (pick_path p) = Ok (pick_old p)" by simp_all
    from files that have "pinnable d p" by (simp add: list_all_iff)
    with o same [OF o(1)] get_current_model_cong [of d1 "pick_path p" d] show ?thesis by (simp add: pinnable_def tidy_def)
  qed
  then have "list_all (pinnable d1) picks" "\<forall>p \<in> set picks. get_current_model d1 (pick_path p) = Ok (pick_old p)"
    by (simp_all add: list_all_iff)
  moreover have "distinct (map pick_path picks)" using picks loaded(3) by simp
  ultimately have p: "\<forall>p \<in> set picks. get_current_model d' (pick_path p) = Ok (pick_new p)"
    "\<forall>q. q \<notin> set (map pick_path picks) \<longrightarrow> texts d' q = texts d1 q"
    using pin_all_pins [OF d1(2)] by blast+
  have "texts d' q = texts d q" if "q \<notin> set (OPENCODE_CONFIG_PATH # map agent_path agents)" for q
    using that p(2) picks same [of q] by simp
  with p(1) c show ?thesis by simp
qed

definition pinned_disk :: disk where
  "pinned_disk = \<lparr>texts = (\<lambda>p. if p = OPENCODE_CONFIG_PATH then Ok ''{}''
       else if p = entry_path AGENTS_DIR ''a.md'' then Ok (join [NEWLINE] [''---'', ''model: x/one'', ''---'', ''body'']) else Err ''No such file''),
     listing = (\<lambda>p. Ok [Ok ''a.md'', Ok ''notes.txt'']), present_path = (\<lambda>p. True), write_fault = (\<lambda>p. None)\<rparr>"

definition two_models :: "json parser" where
  "two_models s = Ok (JObj [(''model'', JStr ''x/one''), (''providers'', JObj [(''x'', JObj [(''models'', JObj [(''one'', JObj []), (''two'', JObj [])])])])])"

theorem agent_mode_pins_choices_witness:
  "get_current_model (snd (run_agent_mode two_models id (keys [Enter, Down, Enter, Enter]) pinned_disk))
     (AGENTS_DIR @ ''/a.md'') = Ok ''x/two''"
proof -
  let ?a = "\<lparr>agent_name = ''a'', agent_path = AGENTS_DIR @ ''/a.md''\<rparr>"
  let ?p = "\<lparr>pick_path = AGENTS_DIR @ ''/a.md'', pick_old = ''x/one'', pick_new = ''x/two''\<rparr>"
  have m: "load_models two_models pinned_disk = Ok [''x/one'', ''x/two'']" by code_simp
  have a: "discover_agents pinned_disk AGENTS_DIR = Ok [?a]" by code_simp
  have s: "select_model id [''x/one'', ''x/two''] (or_unknown (get_default_model two_models pinned_disk OPENCODE_CONFIG_PATH))
      (keys [Enter, Down, Enter, Enter]) = Some (Ok (Some ''x/one''), keys [Down, Enter, Enter])" by code_simp
  have c: "choose_agents id pinned_disk [''x/one'', ''x/two''] [?a] (keys [Down, Enter, Enter])
      = Some (Ok (Some [?p]), keys [Enter])" by code_simp
  have p: "list_all (pinnable pinned_disk) [?p]" by code_simp
  have "fst (run_agent_mode two_models id (keys [Enter, Down, Enter, Enter]) pinned_disk) = Finished (Ok ())" by code_simp
  then have r: "run_agent_mode two_models id (keys [Enter, Down, Enter, Enter]) pinned_disk
      = (Finished (Ok ()), snd (run_agent_mode two_models id (keys [Enter, Down, Enter, Enter]) pinned_disk))"
    by (metis prod.collapse)
  from agent_mode_pins_choices [OF r m a _ s c p] show ?thesis by simp
qed

end
