(* ===== verification/Unix_Path.thy ===== *)
theory Unix_Path
  imports Prelude "HOL-Library.Product_Lexorder"
begin

text \<open>
  \<^verbatim>\<open>std::path\<close> on Unix, as far as the model holder and the dumps of the proxy use it. A path is read as its components: empty pieces
  vanish, a lone dot counts only at the start of a relative path.
\<close>

datatype component = RootDir | CurDir | ParentDir | Normal string

text \<open>The derived order: by constructor, names by bytes.\<close>

fun component_key :: "component \<Rightarrow> nat \<times> string" where
  "component_key RootDir = (0, [])"
| "component_key CurDir = (1, [])"
| "component_key ParentDir = (2, [])"
| "component_key (Normal s) = (3, s)"

lemma component_key_inj: "component_key x = component_key y \<Longrightarrow> x = y"
  by (cases x; cases y; simp)

instantiation component :: linorder
begin

definition less_eq_component :: "component \<Rightarrow> component \<Rightarrow> bool" where
  "x \<le> y = (component_key x \<le> component_key y)"

definition less_component :: "component \<Rightarrow> component \<Rightarrow> bool" where
  "x < y = (component_key x < component_key y)"

instance
  by standard (auto simp: less_eq_component_def less_component_def intro: component_key_inj)

end

definition is_absolute :: "string \<Rightarrow> bool" where
  "is_absolute p = starts_with p ''/''"

fun piece_component :: "string \<Rightarrow> component" where
  "piece_component s = (if s = ''..'' then ParentDir else Normal s)"

definition components :: "string \<Rightarrow> component list" where
  "components p = (let ps = split_on (CHR ''/'') p;
       lead = (if is_absolute p then [RootDir] else if hd ps = ''.'' then [CurDir] else [])
     in lead @ map piece_component (filter (\<lambda>s. s \<noteq> [] \<and> s \<noteq> ''.'') ps))"

text \<open>\<^verbatim>\<open>file_name\<close> and \<^verbatim>\<open>parent\<close>, on components.\<close>

definition last_name :: "component list \<Rightarrow> string option" where
  "last_name cs = (if cs = [] then None else case last cs of Normal s \<Rightarrow> Some s | _ \<Rightarrow> None)"

definition file_name :: "string \<Rightarrow> string option" where
  "file_name p = last_name (components p)"

definition parent :: "string \<Rightarrow> component list option" where
  "parent p = (let cs = components p in if cs = [] \<or> last cs = RootDir then None else Some (butlast cs))"

text \<open>\<^verbatim>\<open>join\<close> of a relative path.\<close>

definition join_path :: "string \<Rightarrow> string \<Rightarrow> string" where
  "join_path base p = (if is_absolute p then p else if base = [] \<or> ends_with base ''/'' then base @ p else base @ ''/'' @ p)"

section \<open>Facts\<close>

lemma split_on_append_slash: "split_on c (a @ [c] @ b) = split_on c a @ split_on c b"
proof (induction a)
  case Nil
  then show ?case using split_on_nonempty [of c b] by (auto split: list.splits)
next
  case (Cons x a)
  obtain p ps where "split_on c a = p # ps" using split_on_nonempty [of c a] by (cases "split_on c a") auto
  with Cons show ?case by simp
qed

lemma parent_dir_pieces: "ParentDir \<in> set (components p) \<longleftrightarrow> ''..'' \<in> set (split_on (CHR ''/'') p)"
  by (auto simp: components_def Let_def image_iff split: if_splits)

end
