(* ===== verification/Holder_State.thy ===== *)
theory Holder_State
  imports Text_Format Unix_Path
begin

text \<open>
  The state of the model holder's terminal interface (\<^verbatim>\<open>model-holder/src/ui/state.rs\<close>) and its key handling
  (\<^verbatim>\<open>handle_key\<close> of \<^verbatim>\<open>ui/terminal.rs\<close>). \<open>lower\<close> is the Unicode lower-casing of \<^verbatim>\<open>str::to_lowercase\<close>; a duration
  is a number of nanoseconds.
\<close>

section \<open>Files\<close>

definition BYTES_PER_MB :: f64 where "BYTES_PER_MB = f64_of_nat 1048576"
definition BYTES_PER_GB :: f64 where "BYTES_PER_GB = f64_of_nat 1073741824"

text \<open>\<^verbatim>\<open>Duration::as_secs_f64\<close>.\<close>

definition as_secs_f64 :: "nat \<Rightarrow> f64" where
  "as_secs_f64 ns = f64_add (f64_of_nat (ns div 10 ^ 9)) (f64_div (f64_of_nat (ns mod 10 ^ 9)) (f64_of_nat (10 ^ 9)))"

text \<open>The speed the sources compute in several places: megabytes per second, 0 without elapsed time.\<close>

definition mb_per_sec :: "nat \<Rightarrow> nat \<Rightarrow> f64" where
  "mb_per_sec bytes ns = (if f64_gt (as_secs_f64 ns) 0
     then f64_div (f64_div (f64_of_nat bytes) (as_secs_f64 ns)) BYTES_PER_MB else 0)"

datatype file_stage =
    Found
  | Mapped
  | Warming f64 f64 nat               \<comment> \<open>progress, speed, elapsed\<close>
  | Complete f64 f64 nat              \<comment> \<open>size in MB, speed, elapsed\<close>
  | Locking f64 nat                   \<comment> \<open>speed, elapsed\<close>
  | Locked f64 f64 f64 f64 nat        \<comment> \<open>size in MB; mmap, lock and overall speed; elapsed\<close>

fun stage_elapsed :: "file_stage \<Rightarrow> nat" where
  "stage_elapsed Found = 0"
| "stage_elapsed Mapped = 0"
| "stage_elapsed (Warming p s e) = e"
| "stage_elapsed (Complete z s e) = e"
| "stage_elapsed (Locking s e) = e"
| "stage_elapsed (Locked z m l t e) = e"

datatype sort_by = Sort_Default | Sort_Size | Sort_Speed

record file_status =
  fs_path :: string
  fs_filename :: string
  fs_size_bytes :: u64
  fs_size_mb :: f64
  fs_stage :: file_stage
  fs_warmup_complete :: bool
  fs_process_index :: nat
  fs_mmap_duration :: "nat option"
  fs_lock_duration :: "nat option"
  fs_mmap_speed :: "f64 option"
  fs_lock_speed :: "f64 option"

definition file_new :: "string \<Rightarrow> nat \<Rightarrow> file_status" where
  "file_new p index = \<lparr>fs_path = p, fs_filename = some_or (file_name p) ''unknown'', fs_size_bytes = 0, fs_size_mb = 0,
     fs_stage = Found, fs_warmup_complete = False, fs_process_index = index, fs_mmap_duration = None,
     fs_lock_duration = None, fs_mmap_speed = None, fs_lock_speed = None\<rparr>"

definition set_size :: "u64 \<Rightarrow> file_status \<Rightarrow> file_status" where
  "set_size n f = f\<lparr>fs_size_bytes := n, fs_size_mb := f64_div (f64_of_nat (unat n)) BYTES_PER_MB\<rparr>"

definition mark_mapped :: "file_status \<Rightarrow> file_status" where
  "mark_mapped f = f\<lparr>fs_stage := Mapped\<rparr>"

definition mark_warming :: "f64 \<Rightarrow> f64 \<Rightarrow> nat \<Rightarrow> file_status \<Rightarrow> file_status" where
  "mark_warming progress speed elapsed f = f\<lparr>fs_stage := Warming progress speed elapsed\<rparr>"

definition mark_complete :: "f64 \<Rightarrow> nat \<Rightarrow> file_status \<Rightarrow> file_status" where
  "mark_complete speed elapsed f = f\<lparr>fs_stage := Complete (fs_size_mb f) speed elapsed, fs_warmup_complete := True\<rparr>"

fun current_speed :: "file_stage \<Rightarrow> f64" where
  "current_speed (Warming p s e) = s"
| "current_speed (Complete z s e) = s"
| "current_speed (Locking s e) = s"
| "current_speed (Locked z m l t e) = t"
| "current_speed _ = 0"

definition mark_locking :: "nat \<Rightarrow> file_status \<Rightarrow> file_status" where
  "mark_locking elapsed f = f\<lparr>fs_stage := Locking (current_speed (fs_stage f)) elapsed\<rparr>"

definition mark_locked :: "f64 \<Rightarrow> f64 \<Rightarrow> nat \<Rightarrow> file_status \<Rightarrow> file_status" where
  "mark_locked mmap_speed lock_speed elapsed f =
     f\<lparr>fs_stage := Locked (fs_size_mb f) mmap_speed lock_speed (mb_per_sec (unat (fs_size_bytes f)) elapsed) elapsed,
       fs_mmap_speed := Some mmap_speed, fs_lock_speed := Some lock_speed\<rparr>"

fun is_complete :: "file_stage \<Rightarrow> bool" where
  "is_complete (Complete z s e) = True"
| "is_complete (Locking s e) = True"
| "is_complete (Locked z m l t e) = True"
| "is_complete _ = False"

fun is_locked :: "file_stage \<Rightarrow> bool" where
  "is_locked (Locked z m l t e) = True"
| "is_locked _ = False"

section \<open>Application state\<close>

record app_state =
  app_files :: "file_status list"
  app_total_size :: u64
  app_warmup_complete :: bool
  app_all_locked :: bool
  app_sort_by :: sort_by
  app_scroll_offset :: nat
  app_filter_input :: string
  app_filter_mode :: bool
  app_failed_lock_files :: "string list"
  app_show_help :: bool
  app_input_patterns :: "string list"

definition app_new :: app_state where
  "app_new = \<lparr>app_files = [], app_total_size = 0, app_warmup_complete = False, app_all_locked = False,
     app_sort_by = Sort_Default, app_scroll_offset = 0, app_filter_input = [], app_filter_mode = False,
     app_failed_lock_files = [], app_show_help = False, app_input_patterns = []\<rparr>"

definition add_file :: "string \<Rightarrow> app_state \<Rightarrow> app_state" where
  "add_file p a = a\<lparr>app_files := app_files a @ [set_size 100 (file_new p (length (app_files a)))]\<rparr>"

text \<open>A mutation through \<^verbatim>\<open>find_file_mut\<close>: the first file of that path.\<close>

fun update_first :: "string \<Rightarrow> (file_status \<Rightarrow> file_status) \<Rightarrow> file_status list \<Rightarrow> file_status list" where
  "update_first p g [] = []"
| "update_first p g (f # fs) = (if fs_path f = p then g f # fs else f # update_first p g fs)"

definition update_file :: "string \<Rightarrow> (file_status \<Rightarrow> file_status) \<Rightarrow> app_state \<Rightarrow> app_state" where
  "update_file p g a = a\<lparr>app_files := update_first p g (app_files a)\<rparr>"

definition update_total_size :: "app_state \<Rightarrow> app_state" where
  "update_total_size a = a\<lparr>app_total_size := sum_list (map fs_size_bytes (app_files a))\<rparr>"

text \<open>The components two parents share at the start.\<close>

fun shared_prefix :: "component list \<Rightarrow> component list \<Rightarrow> component list" where
  "shared_prefix (x # xs) (y # ys) = (if x = y then y # shared_prefix xs ys else [])"
| "shared_prefix _ _ = []"

definition compute_common_parent :: "app_state \<Rightarrow> string option" where
  "compute_common_parent a =
     (case concat (map (\<lambda>f. case parent (fs_path f) of None \<Rightarrow> [] | Some cs \<Rightarrow> [cs]) (app_files a)) of
        [] \<Rightarrow> None
      | first # others \<Rightarrow> last_name (fold (\<lambda>p common. shared_prefix common p) others first))"

text \<open>A stable sort by a strict order: every element goes behind those it is not less than.\<close>

fun insert_by :: "('a \<Rightarrow> 'a \<Rightarrow> bool) \<Rightarrow> 'a \<Rightarrow> 'a list \<Rightarrow> 'a list" where
  "insert_by lt x [] = [x]"
| "insert_by lt x (y # ys) = (if lt y x then y # insert_by lt x ys else x # y # ys)"

definition stable_sort :: "('a \<Rightarrow> 'a \<Rightarrow> bool) \<Rightarrow> 'a list \<Rightarrow> 'a list" where
  "stable_sort lt xs = foldr (insert_by lt) xs []"

definition matches_filter :: "(string \<Rightarrow> string) \<Rightarrow> string \<Rightarrow> file_status \<Rightarrow> bool" where
  "matches_filter lower query f = (query = [] \<or> str_contains (lower (fs_filename f)) query
     \<or> str_contains (lower (fs_path f)) query)"

definition file_before :: "sort_by \<Rightarrow> file_status \<Rightarrow> file_status \<Rightarrow> bool" where
  "file_before s f g = (case s of
       Sort_Default \<Rightarrow> fs_process_index f < fs_process_index g
     | Sort_Size \<Rightarrow> fs_size_bytes g < fs_size_bytes f
     | Sort_Speed \<Rightarrow> f64_gt (current_speed (fs_stage f)) (current_speed (fs_stage g)))"

definition filtered_files :: "(string \<Rightarrow> string) \<Rightarrow> app_state \<Rightarrow> file_status list" where
  "filtered_files lower a = stable_sort (file_before (app_sort_by a))
     (filter (matches_filter lower (lower (app_filter_input a))) (app_files a))"

definition visible_file_count :: "(string \<Rightarrow> string) \<Rightarrow> app_state \<Rightarrow> nat" where
  "visible_file_count lower a = length (filtered_files lower a)"

definition scroll_down :: "(string \<Rightarrow> string) \<Rightarrow> app_state \<Rightarrow> app_state" where
  "scroll_down lower a = (if app_scroll_offset a < visible_file_count lower a - 1
     then a\<lparr>app_scroll_offset := app_scroll_offset a + 1\<rparr> else a)"

definition scroll_up :: "app_state \<Rightarrow> app_state" where
  "scroll_up a = (if 0 < app_scroll_offset a then a\<lparr>app_scroll_offset := app_scroll_offset a - 1\<rparr> else a)"

definition scroll_page_down :: "(string \<Rightarrow> string) \<Rightarrow> nat \<Rightarrow> app_state \<Rightarrow> app_state" where
  "scroll_page_down lower page a = (let off = app_scroll_offset a + page; m = visible_file_count lower a - 1
     in a\<lparr>app_scroll_offset := (if m < off then m else off)\<rparr>)"

definition scroll_page_up :: "nat \<Rightarrow> app_state \<Rightarrow> app_state" where
  "scroll_page_up page a = a\<lparr>app_scroll_offset := app_scroll_offset a - page\<rparr>"

section \<open>Keys\<close>

datatype key_press = Char_Key string | Enter | Esc | Backspace | Down | Up | Page_Down | Page_Up | Other_Key

record key_event =
  ke_code :: key_press
  ke_control :: bool

abbreviation CTRL_C :: key_event where "CTRL_C \<equiv> \<lparr>ke_code = Char_Key ''c'', ke_control = True\<rparr>"

definition filter_key :: "key_event \<Rightarrow> app_state \<Rightarrow> app_state" where
  "filter_key k a = (if k = CTRL_C then a\<lparr>app_filter_mode := False, app_filter_input := [], app_scroll_offset := 0\<rparr>
     else (case ke_code k of
         Enter \<Rightarrow> a\<lparr>app_filter_mode := False, app_scroll_offset := 0\<rparr>
       | Esc \<Rightarrow> a\<lparr>app_filter_mode := False\<rparr>
       | Backspace \<Rightarrow> a\<lparr>app_filter_input := concat (butlast (chars (app_filter_input a))), app_scroll_offset := 0\<rparr>
       | Char_Key c \<Rightarrow> a\<lparr>app_filter_input := app_filter_input a @ c, app_scroll_offset := 0\<rparr>
       | _ \<Rightarrow> a))"

definition help_key :: "key_event \<Rightarrow> app_state \<Rightarrow> app_state" where
  "help_key k a = (if k = CTRL_C \<or> ke_code k \<in> {Char_Key ''h'', Esc, Char_Key ''q''} then a\<lparr>app_show_help := False\<rparr> else a)"

text \<open>The answer is whether the program is asked to exit.\<close>

definition list_key :: "(string \<Rightarrow> string) \<Rightarrow> key_event \<Rightarrow> app_state \<Rightarrow> app_state \<times> bool" where
  "list_key lower k a =
     (if ke_code k \<in> {Char_Key ''q'', Esc} \<or> k = CTRL_C then (a, True)
      else ((case ke_code k of
          Down \<Rightarrow> scroll_down lower a
        | Up \<Rightarrow> scroll_up a
        | Page_Down \<Rightarrow> scroll_page_down lower 10 a
        | Page_Up \<Rightarrow> scroll_page_up 10 a
        | Char_Key c \<Rightarrow>
            if c = ''j'' then scroll_down lower a
            else if c = ''k'' then scroll_up a
            else if c = '' '' then scroll_page_down lower 10 a
            else if c = ''s'' then a\<lparr>app_sort_by := Sort_Size\<rparr>
            else if c = ''p'' then a\<lparr>app_sort_by := Sort_Speed\<rparr>
            else if c = ''d'' then a\<lparr>app_sort_by := Sort_Default\<rparr>
            else if c = ''/'' then a\<lparr>app_filter_mode := True\<rparr>
            else if c = ''x'' then a\<lparr>app_filter_input := [], app_scroll_offset := 0\<rparr>
            else if c = ''h'' then a\<lparr>app_show_help := True\<rparr>
            else a
        | _ \<Rightarrow> a), False))"

definition handle_key :: "(string \<Rightarrow> string) \<Rightarrow> key_event \<Rightarrow> app_state \<Rightarrow> app_state \<times> bool" where
  "handle_key lower k a =
     (if app_filter_mode a then (filter_key k a, False)
      else if app_show_help a then (help_key k a, False)
      else list_key lower k a)"

end
