(* ===== verification/Holder_Screen.thy ===== *)
theory Holder_Screen
  imports Holder_State
begin

text \<open>
  What the model holder draws (\<^verbatim>\<open>model-holder/src/ui/terminal.rs\<close>): the text of every row, and the geometry of
  the list, its scroll bar and the help window. Placing the texts on the screen, colours and borders are the
  widget library's.
\<close>

section \<open>Texts\<close>

abbreviation ELLIPSIS :: string where "ELLIPSIS \<equiv> [CHR 0xE2, CHR 0x80, CHR 0xA6]"

definition kilo :: f64 where "kilo = f64_of_nat 1024"
definition mega :: f64 where "mega = f64_of_nat 1048576"
definition giga :: f64 where "giga = f64_of_nat 1073741824"

definition scaled_size :: "nat \<Rightarrow> string \<Rightarrow> string \<Rightarrow> string \<Rightarrow> string \<Rightarrow> u64 \<Rightarrow> string" where
  "scaled_size k b kb mb gb n = (let x = f64_of_nat (unat n) in
     if f64_ge x giga then fixed_text k (f64_div x giga) @ gb
     else if f64_ge x mega then fixed_text k (f64_div x mega) @ mb
     else if f64_ge x kilo then fixed_text k (f64_div x kilo) @ kb
     else u64_text n @ b)"

definition format_size :: "u64 \<Rightarrow> string" where
  "format_size = scaled_size 2 '' B'' '' KB'' '' MB'' '' GB''"

definition row_size :: "u64 \<Rightarrow> string" where
  "row_size = scaled_size 1 ''B'' ''K'' ''M'' ''G''"

definition truncate_str :: "string \<Rightarrow> nat \<Rightarrow> string" where
  "truncate_str s max_chars = (if max_chars < 2 then []
     else if char_count s < max_chars then s
     else concat (take (max_chars - 1) (chars s)) @ ELLIPSIS)"

text \<open>The longest tail of whole scalars within the budget.\<close>

definition tail_to_bytes :: "string \<Rightarrow> nat \<Rightarrow> string" where
  "tail_to_bytes s max_bytes = (if length s \<le> max_bytes then s
     else if max_bytes \<le> length ELLIPSIS then []
     else ELLIPSIS @ concat (rev (fitting (max_bytes - length ELLIPSIS) (rev (chars s)))))"

section \<open>Title\<close>

definition overall_label :: "app_state \<Rightarrow> string" where
  "overall_label a =
     (if app_all_locked a then [CHR 0xE2, CHR 0x97, CHR 0x8F] @ '' locked''
      else if app_warmup_complete a \<and> app_failed_lock_files a \<noteq> [] then [CHR 0xE2, CHR 0x97, CHR 0x8F] @ '' partial''
      else if app_warmup_complete a then [CHR 0xE2, CHR 0x97, CHR 0x8F] @ '' complete''
      else [CHR 0xE2, CHR 0x97, CHR 0x8C] @ '' warming'' @ ELLIPSIS)"

definition pattern_dir :: "string \<Rightarrow> string" where
  "pattern_dir p =
     (if CHR ''*'' \<in> set p then (let s = hd (split_on (CHR ''*'') p) in some_or (file_name (trim_end_matches (CHR ''/'') s)) s)
      else (let c = trim_end_matches (CHR ''/'') p in
        if ends_with p ''/'' then some_or (file_name c) c
        else some_or (Option.bind (parent c) last_name) c))"

definition pattern_display :: "app_state \<Rightarrow> string" where
  "pattern_display a = (case app_files a of
       [] \<Rightarrow> []
     | [f] \<Rightarrow> '' '' @ fs_filename f
     | _ \<Rightarrow> (let n = digits (length (app_files a));
               dir = (case app_input_patterns a of [p] \<Rightarrow> pattern_dir p
                 | _ \<Rightarrow> some_or (compute_common_parent a) (n @ '' files''))
            in '' '' @ dir @ ''/* ('' @ n @ '')''))"

definition title_text :: "nat \<Rightarrow> app_state \<Rightarrow> string" where
  "title_text width a = (let left = '' model-holder''; right = ''  '' @ overall_label a; p = pattern_display a;
       room = width - (length left + length right + 4)
     in left @ (if room < length p \<and> 10 < room then tail_to_bytes p room else p) @ right)"

section \<open>Summary and status bar\<close>

text \<open>\<open>empty_sum\<close> is what \<^verbatim>\<open>sum\<close> of no floats is, a zero whose sign depends on the standard library's version.\<close>

definition average_speed :: "f64 \<Rightarrow> f64 option list \<Rightarrow> f64" where
  "average_speed empty_sum speeds = f64_div (foldl f64_add empty_sum (List.map_filter id speeds)) (f64_of_nat (length speeds))"

definition speed_summary :: "f64 \<Rightarrow> app_state \<Rightarrow> string" where
  "speed_summary empty_sum a = (if app_warmup_complete a \<and> app_all_locked a \<and> app_files a \<noteq> []
     then ''  avg mmap:'' @ fixed_text 1 (average_speed empty_sum (map fs_mmap_speed (app_files a)))
       @ '' lock:'' @ fixed_text 1 (average_speed empty_sum (map fs_lock_speed (app_files a))) @ '' MB/s''
     else [])"

fun sort_label :: "sort_by \<Rightarrow> string" where
  "sort_label Sort_Default = []"
| "sort_label Sort_Size = ''  sort:size''"
| "sort_label Sort_Speed = ''  sort:speed''"

definition summary_text :: "f64 \<Rightarrow> app_state \<Rightarrow> string" where
  "summary_text empty_sum a =
     (let total_files = digits (length (app_files a));
          done = digits (length (filter (\<lambda>f. is_complete (fs_stage f)) (app_files a)));
          locked = digits (length (filter (\<lambda>f. is_locked (fs_stage f)) (app_files a)))
      in ''  '' @ total_files @ '' files  '' @ format_size (app_total_size a) @ ''  '' @ done @ ''/'' @ total_files @ '' complete  ''
         @ locked @ '' locked'' @ speed_summary empty_sum a @ sort_label (app_sort_by a)
         @ (if app_filter_input a = [] then [] else ''  filter:'' @ [QUOTE] @ app_filter_input a @ [QUOTE]))"

definition statusbar_text :: "app_state \<Rightarrow> string" where
  "statusbar_text a =
     (if app_filter_mode a then '' Filter: '' @ app_filter_input a @ ''_'' @ ''  Enter/Esc close '' @ [CHR 0xC2, CHR 0xB7] @ '' ^C clear ''
      else if app_failed_lock_files a \<noteq> []
      then ''  '' @ [CHR 0xE2, CHR 0x9A, CHR 0xA0] @ '' '' @ digits (length (app_failed_lock_files a)) @ '' file(s) NOT locked ''
        @ [CHR 0xE2, CHR 0x80, CHR 0x94] @ '' press h for details''
      else ''  '' @ [CHR 0xE2, CHR 0x86, CHR 0x91, CHR 0xE2, CHR 0x86, CHR 0x93]
        @ ''/jk scroll   / filter   x clear   s/p sort   h help   q quit & unlock'')"

section \<open>The list\<close>

definition RIGHT_COLS :: nat where "RIGHT_COLS = 69"

definition name_width :: "nat \<Rightarrow> nat" where
  "name_width w = max (w - (RIGHT_COLS + 2)) 8"

definition make_row :: "nat \<Rightarrow> string \<Rightarrow> string \<Rightarrow> string \<Rightarrow> string \<Rightarrow> string \<Rightarrow> string \<Rightarrow> string \<Rightarrow> string" where
  "make_row nw name sz progress mmap lock overall status =
     ''  '' @ pad_right nw name @ pad_left 7 sz @ ''  '' @ pad_right 12 progress @ ''  '' @ pad_left 11 mmap @ '' ''
     @ pad_left 11 lock @ '' '' @ pad_left 11 overall @ ''  '' @ pad_left 9 status"

definition header_row :: "nat \<Rightarrow> string" where
  "header_row nw = make_row nw ''NAME'' ''SIZE'' ''PROGRESS'' ''MMAP'' ''LOCK'' ''TOTAL'' ''STATUS''"

definition format_speed :: "f64 \<Rightarrow> string" where
  "format_speed speed = (if f64_ge speed (f64_of_nat 1000)
     then pad_left 6 (fixed_text 2 (f64_div speed (f64_of_nat 1000))) @ '' GB/s''
     else pad_left 6 (fixed_text 1 speed) @ '' MB/s'')"

definition progress_bar :: "f64 \<Rightarrow> nat \<Rightarrow> nat \<times> nat" where
  "progress_bar progress width =
     (let filled = min (f64_round_to_nat (2 ^ 64 - 1) (f64_div (f64_mul (f64_of_nat width) progress) (f64_of_nat 100))) width
      in (filled, width - filled))"

definition bar_text :: "nat \<times> nat \<Rightarrow> string" where
  "bar_text b = concat (replicate (fst b) [CHR 0xE2, CHR 0x96, CHR 0x88]) @ concat (replicate (snd b) [CHR 0xE2, CHR 0x96, CHR 0x91])"

abbreviation FULL_BAR :: string where "FULL_BAR \<equiv> bar_text (12, 0)"

definition file_row :: "nat \<Rightarrow> file_status \<Rightarrow> string" where
  "file_row w f =
     (let row = make_row (name_width w) (truncate_str (fs_filename f) (name_width w)) (pad_left 7 (row_size (fs_size_bytes f)))
      in case fs_stage f of
          Found \<Rightarrow> row [] [] [] [] '' pending ''
        | Mapped \<Rightarrow> row [] [] [] [] '' mapped  ''
        | Warming progress speed e \<Rightarrow> row (bar_text (progress_bar progress 12)) (format_speed speed) [] [] (pad_left 5 (fixed_text 1 progress) @ ''%'')
        | Complete z speed e \<Rightarrow> row FULL_BAR [] [] (format_speed speed) ''done    ''
        | Locking speed e \<Rightarrow> row FULL_BAR (format_speed speed) (''locking'' @ ELLIPSIS) [] []
        | Locked z m l t e \<Rightarrow> row FULL_BAR (format_speed m) (format_speed l) (format_speed t) '' locked  '')"

text \<open>The files drawn below the header in an area of the given height.\<close>

definition list_start :: "nat \<Rightarrow> nat \<Rightarrow> nat" where
  "list_start offset n = min offset (n - 1)"

definition drawn_files :: "(string \<Rightarrow> string) \<Rightarrow> nat \<Rightarrow> app_state \<Rightarrow> file_status list" where
  "drawn_files lower height a =
     (let fs = filtered_files lower a; start = list_start (app_scroll_offset a) (length fs)
      in take (height - 1) (take height (drop start fs)))"

definition list_text :: "(string \<Rightarrow> string) \<Rightarrow> nat \<Rightarrow> nat \<Rightarrow> app_state \<Rightarrow> string list" where
  "list_text lower width height a =
     (if filtered_files lower a = [] then [if app_filter_input a = [] then '' No files'' else '' No files match filter'']
      else header_row (name_width (width - 1)) # map (file_row (width - 1)) (drawn_files lower height a))"

text \<open>The scroll bar's thumb: its first row and its height.\<close>

definition scrollbar_thumb :: "nat \<Rightarrow> nat \<Rightarrow> nat \<Rightarrow> nat \<Rightarrow> (nat \<times> nat) option" where
  "scrollbar_thumb track n visible offset =
     (if n = 0 \<or> n \<le> visible \<or> track = 0 then None
      else (let thumb = min (max (f64_round_to_nat (2 ^ 64 - 1) (f64_mul (f64_div (f64_of_nat visible) (f64_of_nat n)) (f64_of_nat track))) 1) track;
                track_range = track - thumb;
                pos = (if track_range = 0 then 0
                  else f64_round_to_nat (2 ^ 64 - 1) (f64_mul (f64_div (f64_of_nat offset) (f64_of_nat (n - visible))) (f64_of_nat track_range)))
       in Some (min pos track_range, thumb)))"

section \<open>Help\<close>

definition help_lines :: "nat \<Rightarrow> app_state \<Rightarrow> string list" where
  "help_lines inner_w a =
     (let failed = app_failed_lock_files a in
      (if failed = [] then [if app_all_locked a then ''Every file locked successfully.'' else ''Nothing failed to lock.'']
       else (digits (length failed) @ '' file(s) could not be locked in RAM:'') # []
         # map (\<lambda>p. ''  '' @ (if inner_w - 2 < length p then tail_to_bytes p (inner_w - 2) else p)) failed
         @ [[], ''Fix: ulimit -l unlimited'', ''      (add to ~/.bashrc or /etc/security/limits.conf)''])
      @ [[], ''Speed columns (locked files):'', ''  mmap  = memory-mapped load (cyan)'', ''  lock  = page-locking speed (yellow)'',
         ''  total = combined speed (green)'', [],
         ''Keys: '' @ [CHR 0xE2, CHR 0x86, CHR 0x91, CHR 0xE2, CHR 0x86, CHR 0x93] @ ''/jk  / filter  x clear  s/p/d  q quit & unlock'',
         [], ''Press h, Esc or ^C to close''])"

text \<open>The help window in an area of \<open>w\<close> by \<open>h\<close> cells at \<open>(x, y)\<close>: its corner and its extent.\<close>

definition help_box :: "nat \<Rightarrow> nat \<Rightarrow> nat \<Rightarrow> nat \<Rightarrow> nat \<Rightarrow> nat \<times> nat \<times> nat \<times> nat" where
  "help_box x y w h lines = (let bw = min 64 (w - 4); bh = min (lines + 2) (h - 4)
     in (x + (w - bw) div 2, y + (h - bh) div 2, bw, bh))"

definition help_title :: "app_state \<Rightarrow> string" where
  "help_title a = (if app_failed_lock_files a = [] then '' Help (h/Esc/^C close) '' else '' Lock Failures (h/Esc/^C close) '')"

end
