(* ===== verification/Model_Holder.thy ===== *)
theory Model_Holder
  imports Holder_State
begin

text \<open>
  The hold commands of \<^verbatim>\<open>model-holder/src/main.rs\<close>: argument checks, path expansion, and the run that maps, warms
  and locks the files while the interface thread draws. The kernel's answers (open, map, \<^verbatim>\<open>mlock\<close>), the clock, the
  moments at which the exit flag is seen set and the order in which the threads of a lock chunk finish are
  parameters; \<open>lock_state\<close> succeeds, since its poisoning needs a panic in the drawing code.
\<close>

datatype holder_error =
    Invalid_Page_Size nat
  | Invalid_Extensions string
  | No_Files_Found string
  | Permission_Denied "nat list"
  | Path_Traversal string
  | Process_Disappeared nat
  | UI_Error string

section \<open>Arguments\<close>

definition PROGRESS_UPDATE_INTERVAL :: nat where "PROGRESS_UPDATE_INTERVAL = 1000"

definition validate_page_size :: "nat \<Rightarrow> (unit, holder_error) result" where
  "validate_page_size n = (if n = 0 \<or> n \<noteq> 2 ^ (bit_length n - 1) then Err (Invalid_Page_Size n) else Ok ())"

definition bad_extension :: "string \<Rightarrow> bool" where
  "bad_extension ext = (trim ext = [] \<or> CHR ''.'' \<in> set (trim ext))"

definition validate_extensions :: "string \<Rightarrow> (unit, holder_error) result" where
  "validate_extensions exts = (if exts = [] \<or> list_ex bad_extension (split_on (CHR '','') exts)
     then Err (Invalid_Extensions exts) else Ok ())"

record path_env =
  current_dir :: "(string, string) result"
  glob_matches :: "string \<Rightarrow> (string list, string) result"    \<comment> \<open>unreadable entries left out\<close>
  path_exists :: "string \<Rightarrow> bool"
  canonicalize :: "string \<Rightarrow> (string, string) result"

definition sanitize_path :: "path_env \<Rightarrow> string \<Rightarrow> (string, holder_error) result" where
  "sanitize_path env p =
     (if ParentDir \<in> set (components p) then Err (Path_Traversal p)
      else if is_absolute p then Ok p
      else (case current_dir env of
          Inl e \<Rightarrow> Err (No_Files_Found (''Cannot get current directory: '' @ e))
        | Inr d \<Rightarrow> Ok (join_path d p)))"

abbreviation "quoted_path p \<equiv> [CHR 0x27] @ p @ [CHR 0x27]"

definition expand_pattern :: "path_env \<Rightarrow> string \<Rightarrow> (string list, holder_error) result" where
  "expand_pattern env pattern = (case sanitize_path env pattern of
       Inl e \<Rightarrow> Err e
     | Inr p \<Rightarrow> (case glob_matches env (from_utf8_lossy p) of
           Inl e \<Rightarrow> Err (No_Files_Found (''Invalid glob '' @ quoted_path (from_utf8_lossy p) @ '': '' @ e))
         | Inr [] \<Rightarrow> if path_exists env p then Ok [p]
             else Err (No_Files_Found (''File not found: '' @ quoted_path pattern @ '' (resolved to '' @ quoted_path (from_utf8_lossy p) @ '')''))
         | Inr ms \<Rightarrow> Ok ms))"

text \<open>The first error of a sequence of fallible steps, or all their results.\<close>

fun collect_ok :: "('a \<Rightarrow> ('b, 'e) result) \<Rightarrow> 'a list \<Rightarrow> ('b list, 'e) result" where
  "collect_ok g [] = Ok []"
| "collect_ok g (x # xs) = (case g x of Inl e \<Rightarrow> Err e | Inr y \<Rightarrow> map_sum id (\<lambda>ys. y # ys) (collect_ok g xs))"

fun dedup_paths :: "string list \<Rightarrow> string list" where
  "dedup_paths (p # q # ps) = (if components p = components q then dedup_paths (p # ps) else p # dedup_paths (q # ps))"
| "dedup_paths ps = ps"

definition expand_globs :: "path_env \<Rightarrow> string list \<Rightarrow> (string list, holder_error) result" where
  "expand_globs env patterns = (case collect_ok (expand_pattern env) patterns of
       Inl e \<Rightarrow> Err e
     | Inr pss \<Rightarrow> (case collect_ok (\<lambda>p. map_sum (\<lambda>e. No_Files_Found
             (''Cannot resolve path '' @ quoted_path (from_utf8_lossy p) @ '': '' @ e)) id (canonicalize env p)) (concat pss) of
           Inl e \<Rightarrow> Err e
         | Inr cs \<Rightarrow> (let ps = dedup_paths (sort_key components cs) in
             if ps = [] then Err (No_Files_Found (join '', '' patterns)) else Ok ps)))"

section \<open>The run\<close>

datatype open_answer =
    Open_Failed string
  | Metadata_Failed string
  | Map_Failed u64 string               \<comment> \<open>with the size the metadata gave\<close>
  | Mapped_File u64 "8 word list" nat   \<comment> \<open>size, the mapped bytes, how long mapping took\<close>

record mapped_file =
  mf_path :: string
  mf_bytes :: "8 word list"
  mf_size :: u64
  mf_mmap_duration :: "nat option"

text \<open>The places where the main thread looks at the exit flag, by file or chunk.\<close>

datatype check = Before_File nat | Before_Warm nat | Warm_Page nat nat | After_Warm | Before_Chunk nat | After_Locks | At_End

record holder_env =
  open_answer :: "string \<Rightarrow> open_answer"
  exit_seen :: "check \<Rightarrow> bool"
  page_elapsed :: "nat \<Rightarrow> nat \<Rightarrow> nat"      \<comment> \<open>of a file at a page, since its warm-up began\<close>
  page_late :: "nat \<Rightarrow> nat \<Rightarrow> bool"        \<comment> \<open>more than 100 ms since the last report\<close>
  warm_elapsed :: "nat \<Rightarrow> nat"             \<comment> \<open>of a file at the end of its warm-up\<close>
  lock_ok :: "mapped_file \<Rightarrow> bool"
  lock_elapsed :: "mapped_file \<Rightarrow> nat"
  finish_order :: "nat \<Rightarrow> mapped_file list \<Rightarrow> mapped_file list"   \<comment> \<open>of a chunk's threads\<close>
  ui_panic :: "string option"

definition display_path :: "mapped_file \<Rightarrow> string" where
  "display_path mf = from_utf8_lossy (mf_path mf)"

subsection \<open>Mapping\<close>

fun map_paths :: "holder_env \<Rightarrow> nat \<Rightarrow> string list \<Rightarrow> app_state \<Rightarrow> app_state \<times> mapped_file list" where
  "map_paths env i [] a = (a, [])"
| "map_paths env i (p # ps) a =
     (if exit_seen env (Before_File i) then (a, [])
      else (let d = from_utf8_lossy p;
                a1 = update_file d (\<lambda>f. f\<lparr>fs_stage := Found\<rparr>) a;
                sized = (\<lambda>n. update_total_size (update_file d (set_size n) a1))
        in case open_answer env p of
          Open_Failed e \<Rightarrow> map_paths env (i + 1) ps a1
        | Metadata_Failed e \<Rightarrow> map_paths env (i + 1) ps a1
        | Map_Failed n e \<Rightarrow> map_paths env (i + 1) ps (sized n)
        | Mapped_File n bytes dur \<Rightarrow>
            (let a2 = update_file d (\<lambda>f. f\<lparr>fs_mmap_duration := Some dur\<rparr>) (update_file d mark_mapped (sized n));
                 (a3, ms) = map_paths env (i + 1) ps a2
             in (a3, \<lparr>mf_path = p, mf_bytes = bytes, mf_size = n, mf_mmap_duration = Some dur\<rparr> # ms))))"

subsection \<open>Warming\<close>

definition page_count :: "nat \<Rightarrow> nat \<Rightarrow> nat" where
  "page_count n page_size = (n + page_size - 1) div page_size"

text \<open>One read per page; the progress is published every thousand pages or when the last report is old, and only
  there the exit flag is looked at. \<open>None\<close> is the interruption.\<close>

fun warm_pages :: "holder_env \<Rightarrow> nat \<Rightarrow> nat \<Rightarrow> mapped_file \<Rightarrow> nat list \<Rightarrow> u64 \<Rightarrow> app_state \<Rightarrow> u64 option \<times> app_state" where
  "warm_pages env i page_size mf [] checksum a = (Some checksum, a)"
| "warm_pages env i page_size mf (pg # pgs) checksum a =
     (let checksum' = checksum + ucast (mf_bytes mf ! (pg * page_size)) in
      if pg mod PROGRESS_UPDATE_INTERVAL = 0 \<or> page_late env i pg then
        (if exit_seen env (Warm_Page i pg) then (None, a)
         else warm_pages env i page_size mf pgs checksum' (update_file (display_path mf)
           (mark_warming (f64_mul (f64_div (f64_of_nat pg) (f64_of_nat (page_count (unat (mf_size mf)) page_size))) (f64_of_nat 100))
              (mb_per_sec (pg * page_size) (page_elapsed env i pg)) (page_elapsed env i pg)) a))
      else warm_pages env i page_size mf pgs checksum' a)"

definition warmup_file_with_tui :: "holder_env \<Rightarrow> nat \<Rightarrow> nat \<Rightarrow> mapped_file \<Rightarrow> app_state \<Rightarrow> u64 option \<times> app_state" where
  "warmup_file_with_tui env i page_size mf a =
     (case warm_pages env i page_size mf [0..<page_count (length (mf_bytes mf)) page_size] 0 a of
        (None, a1) \<Rightarrow> (None, a1)
      | (Some checksum, a1) \<Rightarrow>
          (let elapsed = warm_elapsed env i; speed = mb_per_sec (unat (mf_size mf)) elapsed in
           (Some checksum, update_file (display_path mf) (\<lambda>f. mark_complete speed elapsed (f\<lparr>fs_mmap_speed := Some speed\<rparr>)) a1)))"

fun warm_files :: "holder_env \<Rightarrow> nat \<Rightarrow> nat \<Rightarrow> mapped_file list \<Rightarrow> app_state \<Rightarrow> app_state" where
  "warm_files env i page_size [] a = a"
| "warm_files env i page_size (mf # mfs) a =
     (if exit_seen env (Before_Warm i) then a
      else (case warmup_file_with_tui env i page_size mf a of
          (None, a1) \<Rightarrow> a1
        | (Some c, a1) \<Rightarrow> warm_files env (i + 1) page_size mfs a1))"

definition warm_phase :: "holder_env \<Rightarrow> nat \<Rightarrow> mapped_file list \<Rightarrow> app_state \<Rightarrow> app_state" where
  "warm_phase env page_size mfs a = (let a1 = warm_files env 0 page_size mfs a in
     if exit_seen env After_Warm then a1 else a1\<lparr>app_warmup_complete := True\<rparr>)"

subsection \<open>Locking\<close>

record lock_tally =
  locked_bytes :: u64
  failed_files :: "string list"

text \<open>One worker thread of a chunk.\<close>

definition lock_file :: "holder_env \<Rightarrow> mapped_file \<Rightarrow> lock_tally \<times> app_state \<Rightarrow> lock_tally \<times> app_state" where
  "lock_file env mf s = (case s of (t, a) \<Rightarrow>
     if lock_ok env mf then
       (let elapsed = lock_elapsed env mf; speed = mb_per_sec (unat (mf_size mf)) elapsed in
        (t\<lparr>locked_bytes := locked_bytes t + mf_size mf\<rparr>,
         update_file (display_path mf) (\<lambda>f. mark_locked (some_or (fs_mmap_speed f) 0) speed elapsed
           (f\<lparr>fs_mmap_duration := (case fs_mmap_duration f of None \<Rightarrow> mf_mmap_duration mf | d \<Rightarrow> d),
              fs_lock_duration := Some elapsed\<rparr>)) a))
     else (t\<lparr>failed_files := failed_files t @ [display_path mf]\<rparr>, a))"

definition lock_chunk :: "holder_env \<Rightarrow> nat \<Rightarrow> mapped_file list \<Rightarrow> lock_tally \<times> app_state \<Rightarrow> lock_tally \<times> app_state" where
  "lock_chunk env k mfs s = (case s of (t, a) \<Rightarrow>
     fold (lock_file env) (finish_order env k mfs) (t, fold (\<lambda>mf. update_file (display_path mf) (mark_locking 0)) mfs a))"

function lock_chunks :: "holder_env \<Rightarrow> nat \<Rightarrow> nat \<Rightarrow> mapped_file list \<Rightarrow> lock_tally \<times> app_state \<Rightarrow> lock_tally \<times> app_state" where
  "lock_chunks env n k mfs s =
     (if mfs = [] \<or> exit_seen env (Before_Chunk k) then s
      else lock_chunks env n (k + 1) (drop (max n 1) mfs) (lock_chunk env k (take (max n 1) mfs) s))"
  by pat_completeness auto

termination
  by (relation "measure (\<lambda>(env, n, k, mfs, s). length mfs)") auto

declare lock_chunks.simps [simp del]

definition lock_phase :: "holder_env \<Rightarrow> nat \<Rightarrow> mapped_file list \<Rightarrow> app_state \<Rightarrow> lock_tally \<times> app_state" where
  "lock_phase env threads mfs a =
     (let (t, a1) = lock_chunks env threads 0 mfs (\<lparr>locked_bytes = 0, failed_files = []\<rparr>, a) in
      (t, if exit_seen env After_Locks then a1
          else if failed_files t = [] then a1\<lparr>app_all_locked := True\<rparr>
          else a1\<lparr>app_failed_lock_files := failed_files t\<rparr>))"

subsection \<open>Exit\<close>

definition format_size_bytes :: "u64 \<Rightarrow> string" where
  "format_size_bytes n = (if 1073741824 \<le> n then fixed_text 2 (f64_div (f64_of_nat (unat n)) BYTES_PER_GB) @ '' GB''
     else if 1048576 \<le> n then fixed_text 2 (f64_div (f64_of_nat (unat n)) BYTES_PER_MB) @ '' MB''
     else if 1024 \<le> n then fixed_text 2 (f64_div (f64_of_nat (unat n)) (f64_of_nat 1024)) @ '' KB''
     else u64_text n @ '' B'')"

definition EM_DASH :: string where "EM_DASH = [CHR 0xE2, CHR 0x80, CHR 0x94]"

definition locked_part :: "u64 \<Rightarrow> u64 \<Rightarrow> string" where
  "locked_part locked bytes = (if locked = 0 then ''nothing was locked''
     else if locked = bytes then ''all of it was locked'' else format_size_bytes locked @ '' of it was locked'')"

definition release_line :: "mapped_file list \<Rightarrow> u64 \<Rightarrow> string" where
  "release_line mfs locked = (let bytes = sum_list (map mf_size mfs) in
     if mfs = [] then ''model-holder: nothing was mapped '' @ EM_DASH @ '' nothing pinned''
     else ''model-holder: released '' @ digits (length mfs) @ '' mapping'' @ (if length mfs = 1 then [] else ''s'') @ '' (''
       @ format_size_bytes bytes @ '') '' @ EM_DASH @ '' '' @ locked_part locked bytes @ '', none pinned now'')"

record holder_run =
  hr_app :: app_state
  hr_mapped :: "mapped_file list"
  hr_tally :: lock_tally
  hr_line :: "string option"

definition initial_app :: "string list \<Rightarrow> string list \<Rightarrow> app_state" where
  "initial_app patterns ps = update_total_size (fold (\<lambda>p. add_file (from_utf8_lossy p)) ps (app_new\<lparr>app_input_patterns := patterns\<rparr>))"

definition hold_run :: "holder_env \<Rightarrow> string list \<Rightarrow> string list \<Rightarrow> bool \<Rightarrow> nat \<Rightarrow> bool \<Rightarrow> nat \<Rightarrow> holder_run" where
  "hold_run env patterns ps no_warmup page_size no_mlock threads =
     (let (a1, mfs) = map_paths env 0 ps (initial_app patterns ps);
          a2 = (if no_warmup then a1 else warm_phase env page_size mfs a1);
          (t, a3) = (if no_mlock then (\<lparr>locked_bytes = 0, failed_files = []\<rparr>, a2) else lock_phase env threads mfs a2)
      in \<lparr>hr_app = a3, hr_mapped = mfs, hr_tally = t,
          hr_line = (if exit_seen env At_End \<or> ui_panic env \<noteq> None then Some (release_line mfs (locked_bytes t)) else None)\<rparr>)"

text \<open>\<open>terminal\<close> is the answer of the terminal's initialisation.\<close>

definition hold_models_with_tui ::
  "path_env \<Rightarrow> holder_env \<Rightarrow> (unit, string) result \<Rightarrow> string list \<Rightarrow> bool \<Rightarrow> nat \<Rightarrow> bool \<Rightarrow> nat
     \<Rightarrow> (unit, holder_error) result \<times> holder_run option" where
  "hold_models_with_tui penv env terminal patterns no_warmup page_size no_mlock threads =
     (case validate_page_size page_size of
        Inl e \<Rightarrow> (Err e, None)
      | Inr _ \<Rightarrow> (case expand_globs penv patterns of
          Inl e \<Rightarrow> (Err e, None)
        | Inr ps \<Rightarrow> (case terminal of
            Inl e \<Rightarrow> (Err (UI_Error (''Failed to initialize terminal: '' @ e)), None)
          | Inr _ \<Rightarrow> ((case ui_panic env of None \<Rightarrow> Ok () | Some msg \<Rightarrow> Err (UI_Error (''UI thread panicked: '' @ msg))),
               Some (hold_run env patterns ps no_warmup page_size no_mlock threads)))))"

section \<open>One shot\<close>

fun open_all :: "(string \<Rightarrow> open_answer) \<Rightarrow> string list \<Rightarrow> (mapped_file list, holder_error) result" where
  "open_all ans [] = Ok []"
| "open_all ans (p # ps) = (let d = quoted_path (from_utf8_lossy p) in case ans p of
       Open_Failed e \<Rightarrow> Err (No_Files_Found (''Cannot open '' @ d @ '': '' @ e))
     | Metadata_Failed e \<Rightarrow> Err (No_Files_Found (''Cannot read metadata for '' @ d @ '': '' @ e))
     | Map_Failed n e \<Rightarrow> Err (No_Files_Found (''Cannot mmap '' @ d @ '': '' @ e))
     | Mapped_File n bytes dur \<Rightarrow> map_sum id (\<lambda>ms. \<lparr>mf_path = p, mf_bytes = bytes, mf_size = n, mf_mmap_duration = None\<rparr> # ms) (open_all ans ps))"

text \<open>\<^verbatim>\<open>warmup_file\<close>: only a failing flush of a progress report ends it early.\<close>

fun warm_reads :: "(nat \<Rightarrow> bool) \<Rightarrow> (nat \<Rightarrow> string option) \<Rightarrow> nat \<Rightarrow> mapped_file \<Rightarrow> nat list \<Rightarrow> u64 \<Rightarrow> (u64, string) result" where
  "warm_reads late flush_error page_size mf [] checksum = Ok checksum"
| "warm_reads late flush_error page_size mf (pg # pgs) checksum =
     (let checksum' = checksum + ucast (mf_bytes mf ! (pg * page_size)) in
      case (if pg mod PROGRESS_UPDATE_INTERVAL = 0 \<or> late pg then flush_error pg else None) of
        Some e \<Rightarrow> Err e
      | None \<Rightarrow> warm_reads late flush_error page_size mf pgs checksum')"

definition warmup_file :: "(nat \<Rightarrow> bool) \<Rightarrow> (nat \<Rightarrow> string option) \<Rightarrow> nat \<Rightarrow> mapped_file \<Rightarrow> (u64, string) result" where
  "warmup_file late flush_error page_size mf = warm_reads late flush_error page_size mf [0..<page_count (length (mf_bytes mf)) page_size] 0"

text \<open>The printed lines that state facts: files mapped, the lock summary, the release. \<open>order\<close> is the order in which
  all lock threads finish, chunk by chunk.\<close>

definition lock_tally_of :: "holder_env \<Rightarrow> mapped_file list \<Rightarrow> lock_tally" where
  "lock_tally_of env order = fold (\<lambda>mf t. if lock_ok env mf then t\<lparr>locked_bytes := locked_bytes t + mf_size mf\<rparr>
     else t\<lparr>failed_files := failed_files t @ [display_path mf]\<rparr>) order \<lparr>locked_bytes = 0, failed_files = []\<rparr>"

definition oneshot_lock_lines :: "lock_tally \<Rightarrow> string list" where
  "oneshot_lock_lines t = (let lead = '' locked '' @ format_size_bytes (locked_bytes t) @ '' for the run'' in
     if failed_files t = [] then [lead]
     else (lead @ '', '' @ digits (length (failed_files t)) @ '' file(s) failed to lock (check ulimit -l and permissions)'')
       # map (\<lambda>p. ''   - '' @ p) (sort (failed_files t)))"

definition oneshot_state :: "bool \<Rightarrow> bool \<Rightarrow> string" where
  "oneshot_state no_warmup no_mlock = (if no_warmup then ''pages were never touched (--no-warmup), nothing is pinned''
     else if no_mlock then ''page cache stays warm'' else ''page cache stays warm, nothing is pinned'')"

definition oneshot_release_line :: "mapped_file list \<Rightarrow> bool \<Rightarrow> bool \<Rightarrow> string" where
  "oneshot_release_line mfs no_warmup no_mlock = '' released '' @ digits (length mfs) @ '' mapping'' @ (if length mfs = 1 then [] else ''s'')
     @ '' ('' @ format_size_bytes (sum_list (map mf_size mfs)) @ '') '' @ EM_DASH @ '' '' @ oneshot_state no_warmup no_mlock"

definition hold_models_oneshot ::
  "path_env \<Rightarrow> holder_env \<Rightarrow> (mapped_file \<Rightarrow> nat \<Rightarrow> string option) \<Rightarrow> (mapped_file list \<Rightarrow> mapped_file list) \<Rightarrow> string list
     \<Rightarrow> bool \<Rightarrow> nat \<Rightarrow> bool \<Rightarrow> (string list, holder_error) result" where
  "hold_models_oneshot penv env flush_error order patterns no_warmup page_size no_mlock =
     (case validate_page_size page_size of
        Inl e \<Rightarrow> Err e
      | Inr _ \<Rightarrow> (case expand_globs penv patterns of
          Inl e \<Rightarrow> Err e
        | Inr ps \<Rightarrow> (case open_all (open_answer env) ps of
            Inl e \<Rightarrow> Err e
          | Inr mfs \<Rightarrow>
              (let warmed = (if no_warmup then Ok [] else collect_ok (\<lambda>(i, mf). map_sum
                     (\<lambda>e. No_Files_Found (''Warmup failed for '' @ quoted_path (display_path mf) @ '': '' @ e)) id
                     (warmup_file (page_late env i) (flush_error mf) page_size mf)) (enumerate 0 mfs))
               in case warmed of
                  Inl e \<Rightarrow> Err e
                | Inr _ \<Rightarrow> Ok ((if no_mlock then [] else oneshot_lock_lines (lock_tally_of env (order mfs)))
                    @ [oneshot_release_line mfs no_warmup no_mlock])))))"

end
