(* ===== verification/Holder_Interface_Correct.thy ===== *)
theory Holder_Interface_Correct
  imports Holder_Screen Model_Holder
begin

text \<open>
  The interface thread and the main thread share one state. What keys do and what the run does commute, so every
  interleaving ends in the same state; the list never scrolls out of sight and nobody is locked in.
\<close>

section \<open>Sorting\<close>

lemma length_insert_by [simp]: "length (insert_by lt x ys) = Suc (length ys)"
  by (induction ys) auto

lemma mset_insert_by [simp]: "mset (insert_by lt x ys) = add_mset x (mset ys)"
  by (induction ys) auto

lemma stable_sort_perm [simp]: "mset (stable_sort lt xs) = mset xs" "length (stable_sort lt xs) = length xs"
  unfolding stable_sort_def by (induction xs) auto

section \<open>Updates of the run\<close>

text \<open>A change of one file that keeps what the filter looks at; every mutation of the run is one.\<close>

definition keeps_names :: "(file_status \<Rightarrow> file_status) \<Rightarrow> bool" where
  "keeps_names g = (\<forall>f. fs_path (g f) = fs_path f \<and> fs_filename (g f) = fs_filename f)"

inductive run_update :: "(app_state \<Rightarrow> app_state) \<Rightarrow> bool" where
  on_file: "keeps_names g \<Longrightarrow> run_update (update_file p g)"
| on_total: "run_update update_total_size"
| warmed: "run_update (\<lambda>a. a\<lparr>app_warmup_complete := True\<rparr>)"
| all_locked: "run_update (\<lambda>a. a\<lparr>app_all_locked := True\<rparr>)"
| some_failed: "run_update (\<lambda>a. a\<lparr>app_failed_lock_files := ps\<rparr>)"

inductive_cases run_updateE: "run_update u"

lemma file_updates_keep_names [simp]:
  "keeps_names (set_size n)" "keeps_names mark_mapped" "keeps_names (mark_warming p s e)" "keeps_names (mark_complete s e)"
  "keeps_names (mark_locking e)" "keeps_names (mark_locked m l e)" "keeps_names (\<lambda>f. f\<lparr>fs_stage := st\<rparr>)"
  "keeps_names (\<lambda>f. f\<lparr>fs_mmap_duration := d\<rparr>)"
  by (simp_all add: keeps_names_def set_size_def mark_mapped_def mark_warming_def mark_complete_def mark_locking_def mark_locked_def)

lemma update_first_visible:
  assumes "keeps_names g"
  shows "length (filter (matches_filter lower q) (update_first p g fs)) = length (filter (matches_filter lower q) fs)"
  using assms by (induction fs) (auto simp: keeps_names_def matches_filter_def)

lemma run_update_visible: "run_update u \<Longrightarrow> visible_file_count lower (u a) = visible_file_count lower a"
  by (erule run_updateE)
    (simp_all add: visible_file_count_def filtered_files_def update_file_def update_first_visible update_total_size_def)

lemma run_update_interface:
  "run_update u \<Longrightarrow> app_filter_mode (u a) = app_filter_mode a \<and> app_show_help (u a) = app_show_help a
    \<and> app_scroll_offset (u a) = app_scroll_offset a \<and> app_filter_input (u a) = app_filter_input a
    \<and> app_sort_by (u a) = app_sort_by a"
  by (erule run_updateE) (simp_all add: update_file_def update_total_size_def)

text \<open>What a key changes, as one record update.\<close>

lemma run_update_frame:
  assumes "run_update u"
  shows "u (a\<lparr>app_sort_by := s, app_scroll_offset := n, app_filter_input := i, app_filter_mode := b, app_show_help := h\<rparr>)
    = (u a)\<lparr>app_sort_by := s, app_scroll_offset := n, app_filter_input := i, app_filter_mode := b, app_show_help := h\<rparr>"
  using assms by (rule run_updateE) (simp_all add: update_file_def update_total_size_def)

lemma run_update_fields:
  assumes "run_update u"
  shows "u (a\<lparr>app_scroll_offset := n\<rparr>) = (u a)\<lparr>app_scroll_offset := n\<rparr>"
    "u (a\<lparr>app_sort_by := s\<rparr>) = (u a)\<lparr>app_sort_by := s\<rparr>"
    "u (a\<lparr>app_filter_input := i\<rparr>) = (u a)\<lparr>app_filter_input := i\<rparr>"
    "u (a\<lparr>app_filter_mode := b\<rparr>) = (u a)\<lparr>app_filter_mode := b\<rparr>"
    "u (a\<lparr>app_show_help := h\<rparr>) = (u a)\<lparr>app_show_help := h\<rparr>"
  using assms by (rule run_updateE, simp_all add: update_file_def update_total_size_def)+

lemma key_commutes:
  assumes "run_update u"
  shows "handle_key lower k (u a) = apfst u (handle_key lower k a)"
  using run_update_interface [OF assms, of a]
  by (cases "ke_code k")
    (simp_all add: handle_key_def filter_key_def help_key_def list_key_def scroll_down_def scroll_up_def scroll_page_down_def
      scroll_page_up_def Let_def run_update_fields [OF assms] run_update_visible [OF assms])

section \<open>Interleavings\<close>

text \<open>An event is an update of the run or a key; the flag is set once a key asks to exit.\<close>

type_synonym event = "(app_state \<Rightarrow> app_state) + key_event"

definition event_step :: "(string \<Rightarrow> string) \<Rightarrow> event \<Rightarrow> app_state \<times> bool \<Rightarrow> app_state \<times> bool" where
  "event_step lower e s = (case e of
       Inl u \<Rightarrow> (u (fst s), snd s)
     | Inr k \<Rightarrow> (let (a, q) = handle_key lower k (fst s) in (a, snd s \<or> q)))"

definition interleaved :: "(string \<Rightarrow> string) \<Rightarrow> event list \<Rightarrow> app_state \<times> bool \<Rightarrow> app_state \<times> bool" where
  "interleaved lower es s = fold (event_step lower) es s"

definition run_events :: "event list \<Rightarrow> bool" where
  "run_events es = list_all (\<lambda>e. case e of Inl u \<Rightarrow> run_update u | Inr k \<Rightarrow> True) es"

definition keys_of :: "event list \<Rightarrow> event list" where "keys_of es = filter (\<lambda>e. \<not> isl e) es"
definition updates_of :: "event list \<Rightarrow> event list" where "updates_of es = filter isl es"

lemma update_before_keys:
  assumes "run_update u"
  shows "interleaved lower (keys_of es) (event_step lower (Inl u) s) = event_step lower (Inl u) (interleaved lower (keys_of es) s)"
proof (induction es arbitrary: s)
  case (Cons e es)
  show ?case
  proof (cases e)
    case (Inr k)
    have "event_step lower (Inr k) (event_step lower (Inl u) s) = event_step lower (Inl u) (event_step lower (Inr k) s)"
      using key_commutes [OF assms, of lower k "fst s"] by (simp add: event_step_def split: prod.split)
    with Inr Cons show ?thesis by (simp add: interleaved_def keys_of_def)
  qed (use Cons in \<open>simp add: keys_of_def\<close>)
qed (simp add: interleaved_def keys_of_def)

text \<open>The interface does not disturb the run. Whatever keys arrive between the updates of the main thread and
  its workers, the state and the wish to exit are those of making all updates first and handling the keys after:
  a filter, a sort order or a scroll position never changes what is recorded about a file, nor the other way round.\<close>

theorem interface_independent:
  assumes "run_events es"
  shows "interleaved lower es s = interleaved lower (keys_of es) (interleaved lower (updates_of es) s)"
  using assms
proof (induction es arbitrary: s rule: rev_induct)
  case (snoc e es)
  have IH: "interleaved lower es s = interleaved lower (keys_of es) (interleaved lower (updates_of es) s)"
    using snoc by (simp add: run_events_def)
  show ?case
  proof (cases e)
    case (Inl u)
    with snoc.prems have "run_update u" by (simp add: run_events_def)
    from update_before_keys [OF this, of lower es] IH Inl show ?thesis
      by (simp add: interleaved_def keys_of_def updates_of_def)
  next
    case (Inr k)
    with IH show ?thesis by (simp add: interleaved_def keys_of_def updates_of_def)
  qed
qed (simp add: interleaved_def keys_of_def updates_of_def)

definition sample_events :: "event list" where
  "sample_events = [Inr \<lparr>ke_code = Char_Key ''/'', ke_control = False\<rparr>, Inl (update_file ''/m.gguf'' mark_mapped),
     Inr \<lparr>ke_code = Char_Key ''m'', ke_control = False\<rparr>, Inl update_total_size]"

lemma sample_run_events: "run_events sample_events"
  by (simp add: run_events_def sample_events_def run_update.intros)

theorem interface_independent_witness:
  "interleaved id sample_events (initial_app [] [''/m.gguf''], False)
   = interleaved id (keys_of sample_events) (interleaved id (updates_of sample_events) (initial_app [] [''/m.gguf''], False))"
  by (rule interface_independent [OF sample_run_events])

section \<open>Scrolling and leaving\<close>

definition interface_ok :: "(string \<Rightarrow> string) \<Rightarrow> app_state \<Rightarrow> bool" where
  "interface_ok lower a = (\<not> (app_filter_mode a \<and> app_show_help a) \<and> app_scroll_offset a \<le> visible_file_count lower a - 1)"

lemma visible_frame [simp]:
  "visible_file_count lower (a\<lparr>app_scroll_offset := n\<rparr>) = visible_file_count lower a"
  "visible_file_count lower (a\<lparr>app_sort_by := s\<rparr>) = visible_file_count lower a"
  "visible_file_count lower (a\<lparr>app_filter_mode := b\<rparr>) = visible_file_count lower a"
  "visible_file_count lower (a\<lparr>app_show_help := h\<rparr>) = visible_file_count lower a"
  by (simp_all add: visible_file_count_def filtered_files_def)

lemma interface_ok_updates:
  "interface_ok lower a \<Longrightarrow> interface_ok lower (a\<lparr>app_sort_by := s\<rparr>)"
  "interface_ok lower a \<Longrightarrow> interface_ok lower (a\<lparr>app_show_help := False\<rparr>)"
  "\<not> app_filter_mode a \<Longrightarrow> interface_ok lower a \<Longrightarrow> interface_ok lower (a\<lparr>app_show_help := True\<rparr>)"
  "\<not> app_show_help a \<Longrightarrow> interface_ok lower a \<Longrightarrow> interface_ok lower (a\<lparr>app_filter_mode := True\<rparr>)"
  "interface_ok lower a \<Longrightarrow> interface_ok lower (a\<lparr>app_filter_mode := False\<rparr>)"
  "\<not> app_show_help a \<Longrightarrow> interface_ok lower (a\<lparr>app_filter_input := i, app_scroll_offset := 0\<rparr>)"
  "interface_ok lower a \<Longrightarrow> interface_ok lower (a\<lparr>app_filter_mode := False, app_filter_input := i, app_scroll_offset := 0\<rparr>)"
  "interface_ok lower a \<Longrightarrow> interface_ok lower (a\<lparr>app_filter_mode := False, app_scroll_offset := 0\<rparr>)"
  "interface_ok lower a \<Longrightarrow> interface_ok lower (scroll_down lower a)"
  "interface_ok lower a \<Longrightarrow> interface_ok lower (scroll_up a)"
  "interface_ok lower a \<Longrightarrow> interface_ok lower (scroll_page_down lower n a)"
  "interface_ok lower a \<Longrightarrow> interface_ok lower (scroll_page_up n a)"
  by (auto simp: interface_ok_def scroll_down_def scroll_up_def scroll_page_down_def scroll_page_up_def Let_def)

lemma filter_key_interface:
  assumes "interface_ok lower a" "app_filter_mode a"
  shows "interface_ok lower (filter_key k a)"
proof -
  have "\<not> app_show_help a" using assms by (simp add: interface_ok_def)
  with assms(1) show ?thesis by (cases "ke_code k") (simp_all add: filter_key_def interface_ok_updates)
qed

lemma list_key_interface:
  assumes "interface_ok lower a" "\<not> app_filter_mode a" "\<not> app_show_help a"
  shows "interface_ok lower (fst (list_key lower k a))"
  using assms by (cases "ke_code k") (simp_all add: list_key_def interface_ok_updates)

lemma key_keeps_interface: "interface_ok lower a \<Longrightarrow> interface_ok lower (fst (handle_key lower k a))"
  by (simp add: handle_key_def filter_key_interface list_key_interface help_key_def interface_ok_updates)

lemma event_keeps_interface:
  assumes "run_events [e]" "interface_ok lower (fst s)"
  shows "interface_ok lower (fst (event_step lower e s))"
proof (cases e)
  case (Inl u)
  with assms have "run_update u" by (simp add: run_events_def)
  with assms Inl run_update_interface [of u "fst s"] show ?thesis
    by (simp add: event_step_def interface_ok_def run_update_visible)
next
  case (Inr k)
  with key_keeps_interface [OF assms(2), of k] show ?thesis by (simp add: event_step_def case_prod_beta)
qed

lemma interleaved_keeps_interface: "\<lbrakk>run_events es; interface_ok lower (fst s)\<rbrakk> \<Longrightarrow> interface_ok lower (fst (interleaved lower es s))"
proof (induction es arbitrary: s)
  case (Cons e es)
  then have "run_events [e]" "run_events es" by (simp_all add: run_events_def)
  with Cons event_keeps_interface [of e lower s] show ?case by (simp add: interleaved_def)
qed (simp add: interleaved_def)

lemma add_file_frame [simp]: "app_scroll_offset (add_file p a) = app_scroll_offset a"
  "app_filter_mode (add_file p a) = app_filter_mode a"
  by (simp_all add: add_file_def)

lemma initial_app_interface: "app_scroll_offset (initial_app pats ps) = 0 \<and> \<not> app_filter_mode (initial_app pats ps)"
proof -
  have "app_scroll_offset (fold (\<lambda>p. add_file (from_utf8_lossy p)) ps a) = app_scroll_offset a
      \<and> app_filter_mode (fold (\<lambda>p. add_file (from_utf8_lossy p)) ps a) = app_filter_mode a" for a
    by (induction ps arbitrary: a) simp_all
  then show ?thesis by (simp add: initial_app_def update_total_size_def app_new_def)
qed

text \<open>Nobody is locked in or left with an empty screen. In every state the program can reach, pressing Ctrl-C
  twice asks it to exit, whatever prompt or window is open; and with room for a row and a file that passes the
  filter, the list draws at least one file.\<close>

theorem interface_leads_out:
  assumes "run_events es" "a = fst (interleaved lower es (initial_app pats ps, False))" "2 \<le> height"
  shows "snd (interleaved lower [Inr CTRL_C, Inr CTRL_C] (a, False))
    \<and> (drawn_files lower height a = [] \<longleftrightarrow> filtered_files lower a = [])"
proof -
  have ok: "interface_ok lower a" unfolding assms(2)
    using initial_app_interface by (intro interleaved_keeps_interface assms(1)) (simp add: interface_ok_def)
  have "snd (interleaved lower [Inr CTRL_C, Inr CTRL_C] (a, False))"
    using ok by (simp add: interleaved_def event_step_def handle_key_def filter_key_def help_key_def list_key_def
        interface_ok_def)
  moreover have "drawn_files lower height a = [] \<longleftrightarrow> filtered_files lower a = []"
    using assms(3) by (cases "filtered_files lower a") (auto simp: drawn_files_def list_start_def Let_def)
  ultimately show ?thesis by simp
qed

theorem interface_leads_out_witness:
  "let a = fst (interleaved id sample_events (initial_app [] [''/m.gguf''], False)) in
    snd (interleaved id [Inr CTRL_C, Inr CTRL_C] (a, False)) \<and> (drawn_files id 2 a = [] \<longleftrightarrow> filtered_files id a = [])"
  using interface_leads_out [OF sample_run_events refl, of 2 id "[]" "[''/m.gguf'']"] by (simp only: Let_def)

end
