(* ===== verification/Model_Holder_Correct.thy ===== *)
theory Model_Holder_Correct
  imports Holder_Interface_Correct "HOL-Library.Multiset"
begin

text \<open>
  What a hold run records is what happened: the locked bytes and the failed files are those of the lock calls, in
  every order of the worker threads and wherever the run is stopped; no file is shown locked that is not.
\<close>

section \<open>The tally\<close>

lemma lock_file_tally:
  "locked_bytes (fst (lock_file env mf (t, a))) = locked_bytes t + (if lock_ok env mf then mf_size mf else 0)"
  "failed_files (fst (lock_file env mf (t, a))) = failed_files t @ (if lock_ok env mf then [] else [display_path mf])"
  by (simp_all add: lock_file_def Let_def)

definition ok_bytes :: "holder_env \<Rightarrow> mapped_file list \<Rightarrow> u64" where
  "ok_bytes env mfs = sum_list (map mf_size (filter (lock_ok env) mfs))"

definition failures :: "holder_env \<Rightarrow> mapped_file list \<Rightarrow> string multiset" where
  "failures env mfs = mset (map display_path (filter (\<lambda>mf. \<not> lock_ok env mf) mfs))"

lemma ok_bytes_simps [simp]: "ok_bytes env [] = 0" "ok_bytes env (xs @ ys) = ok_bytes env xs + ok_bytes env ys"
  "ok_bytes env (x # xs) = (if lock_ok env x then mf_size x else 0) + ok_bytes env xs"
  by (simp_all add: ok_bytes_def)

lemma failures_simps [simp]: "failures env [] = {#}" "failures env (xs @ ys) = failures env xs + failures env ys"
  "failures env (x # xs) = (if lock_ok env x then {#} else {#display_path x#}) + failures env xs"
  by (simp_all add: failures_def)

lemma tally_perm:
  assumes "mset xs = mset ys"
  shows "ok_bytes env xs = ok_bytes env ys" "failures env xs = failures env ys"
proof -
  have "mset (map mf_size (filter (lock_ok env) xs)) = mset (map mf_size (filter (lock_ok env) ys))" using assms by simp
  then show "ok_bytes env xs = ok_bytes env ys" unfolding ok_bytes_def by (metis sum_mset_sum_list)
  show "failures env xs = failures env ys" using assms by (simp add: failures_def)
qed

lemma fold_lock_tally:
  "locked_bytes (fst (fold (lock_file env) xs s)) = locked_bytes (fst s) + ok_bytes env xs
   \<and> mset (failed_files (fst (fold (lock_file env) xs s))) = mset (failed_files (fst s)) + failures env xs"
proof (induction xs arbitrary: s)
  case (Cons x xs)
  obtain t a where s: "s = (t, a)" by (cases s)
  show ?case using Cons [of "lock_file env x s"] by (simp add: s lock_file_tally add_ac)
qed simp

lemma lock_chunks_tally:
  assumes "\<And>k c. mset (finish_order env k c) = mset c"
  shows "\<exists>n \<le> length mfs. locked_bytes (fst (lock_chunks env m k mfs s)) = locked_bytes (fst s) + ok_bytes env (take n mfs)
    \<and> mset (failed_files (fst (lock_chunks env m k mfs s))) = mset (failed_files (fst s)) + failures env (take n mfs)
    \<and> (n = length mfs \<or> (\<exists>j. exit_seen env (Before_Chunk j)))"
proof (induction "length mfs" arbitrary: k mfs s rule: less_induct)
  case less
  show ?case
  proof (cases "mfs = [] \<or> exit_seen env (Before_Chunk k)")
    case True
    then show ?thesis by (intro exI [of _ 0]) (auto simp: lock_chunks.simps [of env m k mfs s])
  next
    case False
    let ?c = "take (max m 1) mfs" and ?r = "drop (max m 1) mfs"
    let ?s = "lock_chunk env k ?c s"
    have c: "locked_bytes (fst ?s) = locked_bytes (fst s) + ok_bytes env ?c"
      "mset (failed_files (fst ?s)) = mset (failed_files (fst s)) + failures env ?c"
      using fold_lock_tally [of env "finish_order env k ?c"] tally_perm [OF assms [of k ?c]]
      by (simp_all add: lock_chunk_def split: prod.split)
    from False less.hyps [of ?r "k + 1" ?s] obtain n where n: "n \<le> length ?r"
      "locked_bytes (fst (lock_chunks env m (k + 1) ?r ?s)) = locked_bytes (fst ?s) + ok_bytes env (take n ?r)"
      "mset (failed_files (fst (lock_chunks env m (k + 1) ?r ?s))) = mset (failed_files (fst ?s)) + failures env (take n ?r)"
      "n = length ?r \<or> (\<exists>j. exit_seen env (Before_Chunk j))" by auto
    have t: "take (length ?c + n) mfs = ?c @ take n ?r" by (simp add: take_add min_def)
    have l: "length ?c + length ?r = length mfs" by (metis append_take_drop_id length_append)
    show ?thesis
      using n c t l False by (intro exI [of _ "length ?c + n"]) (auto simp: lock_chunks.simps [of env m k mfs s] add_ac)
  qed
qed

section \<open>What the phases keep\<close>

text \<open>A change of a file that does not show it as locked.\<close>

definition plain_update :: "(file_status \<Rightarrow> file_status) \<Rightarrow> bool" where
  "plain_update g = (keeps_names g \<and> (\<forall>f. is_locked (fs_stage (g f)) \<longrightarrow> is_locked (fs_stage f)))"

lemma plain_updates [simp]:
  "plain_update (set_size n)" "plain_update mark_mapped" "plain_update (mark_warming p s e)"
  "plain_update (\<lambda>f. mark_complete s e (f\<lparr>fs_mmap_speed := v\<rparr>))" "plain_update (mark_locking e)"
  "plain_update (\<lambda>f. f\<lparr>fs_stage := Found\<rparr>)" "plain_update (\<lambda>f. f\<lparr>fs_mmap_duration := d\<rparr>)"
  by (simp_all add: plain_update_def keeps_names_def set_size_def mark_mapped_def mark_warming_def mark_complete_def
      mark_locking_def)

definition kept :: "(app_state \<Rightarrow> bool) \<Rightarrow> bool" where
  "kept P = ((\<forall>p g a. plain_update g \<and> P a \<longrightarrow> P (update_file p g a)) \<and> (\<forall>a. P a \<longrightarrow> P (update_total_size a)))"

lemma kept_file: "\<lbrakk>kept P; plain_update g; P a\<rbrakk> \<Longrightarrow> P (update_file p g a)"
  by (simp add: kept_def)

lemma kept_total: "\<lbrakk>kept P; P a\<rbrakk> \<Longrightarrow> P (update_total_size a)"
  by (simp add: kept_def)

lemma map_paths_kept: "\<lbrakk>kept P; P a\<rbrakk> \<Longrightarrow> P (fst (map_paths env i ps a))"
  by (induction env i ps a rule: map_paths.induct)
    (simp_all add: Let_def case_prod_beta kept_file kept_total split: open_answer.split)

lemma warm_pages_kept: "\<lbrakk>kept P; P a\<rbrakk> \<Longrightarrow> P (snd (warm_pages env i n mf pgs c a))"
  by (induction env i n mf pgs c a rule: warm_pages.induct) (simp_all add: Let_def kept_file)

lemma warmup_kept:
  assumes "kept P" "P a"
  shows "P (snd (warmup_file_with_tui env i n mf a))"
proof -
  obtain r a1 where w: "warm_pages env i n mf [0..<page_count (length (mf_bytes mf)) n] 0 a = (r, a1)" by fastforce
  with warm_pages_kept [OF assms, of env i n mf "[0..<page_count (length (mf_bytes mf)) n]" 0] have "P a1" by simp
  with assms(1) w show ?thesis by (cases r) (simp_all add: warmup_file_with_tui_def Let_def kept_file)
qed

lemma warm_files_kept: "\<lbrakk>kept P; P a\<rbrakk> \<Longrightarrow> P (warm_files env i n mfs a)"
proof (induction env i n mfs a rule: warm_files.induct)
  case (2 env i n mf mfs a)
  obtain r a1 where w: "warmup_file_with_tui env i n mf a = (r, a1)" by fastforce
  with warmup_kept [OF 2(2,3), of env i n mf] have "P a1" by simp
  with 2 w show ?case by (cases r) simp_all
qed simp

lemma marked_kept: "\<lbrakk>kept P; P a\<rbrakk> \<Longrightarrow> P (fold (\<lambda>mf. update_file (display_path mf) (mark_locking 0)) mfs a)"
  by (induction mfs arbitrary: a) (simp_all add: kept_file)

lemma lock_chunks_kept:
  assumes "kept P" "\<And>mf t a. P a \<Longrightarrow> mf \<in> set all \<Longrightarrow> P (snd (lock_file env mf (t, a)))"
    and "\<And>k c. mset (finish_order env k c) = mset c"
  shows "\<lbrakk>P (snd s); set mfs \<subseteq> set all\<rbrakk> \<Longrightarrow> P (snd (lock_chunks env m k mfs s))"
proof (induction "length mfs" arbitrary: k mfs s rule: less_induct)
  case less
  show ?case
  proof (cases "mfs = [] \<or> exit_seen env (Before_Chunk k)")
    case True
    with less show ?thesis by (simp add: lock_chunks.simps [of env m k mfs s])
  next
    case False
    let ?c = "take (max m 1) mfs"
    have f: "P (snd (fold (lock_file env) xs s'))" if "P (snd s')" "set xs \<subseteq> set all" for xs s'
      using that
    proof (induction xs arbitrary: s')
      case (Cons x xs)
      obtain t a where "s' = (t, a)" by (cases s')
      with Cons assms(2) [of a x t] show ?case by simp
    qed simp
    have "set (finish_order env k ?c) = set ?c" using assms(3) [of k ?c] by (metis set_mset_mset)
    then have "set (finish_order env k ?c) \<subseteq> set all" using less.prems(2) by (auto dest: in_set_takeD)
    moreover obtain t a where s: "s = (t, a)" by (cases s)
    ultimately have "P (snd (lock_chunk env k ?c s))"
      using f marked_kept [OF assms(1), of a ?c] less.prems(1) by (simp add: lock_chunk_def)
    moreover have "set (drop (max m 1) mfs) \<subseteq> set all" using less.prems(2) by (auto dest: in_set_dropD)
    ultimately have "P (snd (lock_chunks env m (k + 1) (drop (max m 1) mfs) (lock_chunk env k ?c s)))"
      using False less.hyps [of "drop (max m 1) mfs"] by simp
    with False show ?thesis by (simp add: lock_chunks.simps [of env m k mfs s])
  qed
qed


section \<open>The run\<close>

lemma kept_flag: "kept (\<lambda>a. app_all_locked a = b)"
  by (simp add: kept_def update_file_def update_total_size_def)

lemma kept_failed: "kept (\<lambda>a. app_failed_lock_files a = b)"
  by (simp add: kept_def update_file_def update_total_size_def)

lemma lock_file_flag: "app_all_locked (snd (lock_file env mf (t, a))) = app_all_locked a"
  by (simp add: lock_file_def Let_def update_file_def)

text \<open>Only files of a set of paths are shown locked.\<close>

definition locked_within :: "string set \<Rightarrow> app_state \<Rightarrow> bool" where
  "locked_within S a = (\<forall>f \<in> set (app_files a). is_locked (fs_stage f) \<longrightarrow> fs_path f \<in> S)"

lemma update_first_locked:
  assumes "\<forall>f \<in> set fs. is_locked (fs_stage f) \<longrightarrow> fs_path f \<in> S" "keeps_names g" "plain_update g \<or> p \<in> S"
  shows "\<forall>f \<in> set (update_first p g fs). is_locked (fs_stage f) \<longrightarrow> fs_path f \<in> S"
  using assms by (induction fs) (auto simp: plain_update_def keeps_names_def)

lemma kept_locked: "kept (locked_within S)"
  unfolding kept_def locked_within_def
  using update_first_locked by (auto simp: update_file_def update_total_size_def plain_update_def)

lemma lock_file_locked:
  assumes "locked_within S a" "lock_ok env mf \<longrightarrow> display_path mf \<in> S"
  shows "locked_within S (snd (lock_file env mf (t, a)))"
proof (cases "lock_ok env mf")
  case True
  let ?g = "\<lambda>f. mark_locked (some_or (fs_mmap_speed f) 0) (mb_per_sec (unat (mf_size mf)) (lock_elapsed env mf)) (lock_elapsed env mf)
      (f\<lparr>fs_mmap_duration := (case fs_mmap_duration f of None \<Rightarrow> mf_mmap_duration mf | d \<Rightarrow> d),
         fs_lock_duration := Some (lock_elapsed env mf)\<rparr>)"
  have "keeps_names ?g" by (simp add: keeps_names_def mark_locked_def)
  with True assms update_first_locked [of "app_files a" S ?g "display_path mf"] show ?thesis
    by (simp add: lock_file_def Let_def update_file_def locked_within_def)
qed (use assms in \<open>simp add: lock_file_def\<close>)

lemma initial_unlocked: "locked_within {} (initial_app pats ps) \<and> \<not> app_all_locked (initial_app pats ps)
    \<and> app_failed_lock_files (initial_app pats ps) = []"
proof -
  have "locked_within {} (fold (\<lambda>p. add_file (from_utf8_lossy p)) ps a)
      \<and> app_all_locked (fold (\<lambda>p. add_file (from_utf8_lossy p)) ps a) = app_all_locked a
      \<and> app_failed_lock_files (fold (\<lambda>p. add_file (from_utf8_lossy p)) ps a) = app_failed_lock_files a"
    if "locked_within {} a" for a using that
  proof (induction ps arbitrary: a)
    case (Cons p ps)
    then have "locked_within {} (add_file (from_utf8_lossy p) a)"
      by (simp add: locked_within_def add_file_def set_size_def file_new_def)
    from Cons.IH [OF this] show ?case by (simp add: add_file_def)
  qed simp
  from this [of "app_new\<lparr>app_input_patterns := pats\<rparr>"] show ?thesis
    by (simp add: initial_app_def update_total_size_def locked_within_def) (simp add: app_new_def)
qed

lemma locked_within_mono: "locked_within S a \<Longrightarrow> S \<subseteq> T \<Longrightarrow> locked_within T a"
  by (auto simp: locked_within_def)

text \<open>The state before the locks, and the run with them.\<close>

definition before_locks :: "holder_env \<Rightarrow> string list \<Rightarrow> string list \<Rightarrow> bool \<Rightarrow> nat \<Rightarrow> app_state" where
  "before_locks env pats ps no_warmup n = (let (a, mfs) = map_paths env 0 ps (initial_app pats ps) in
     if no_warmup then a else warm_phase env n mfs a)"

definition mapped_of :: "holder_env \<Rightarrow> string list \<Rightarrow> string list \<Rightarrow> mapped_file list" where
  "mapped_of env pats ps = snd (map_paths env 0 ps (initial_app pats ps))"

lemma before_locks_facts:
  "locked_within {} (before_locks env pats ps w n)" "\<not> app_all_locked (before_locks env pats ps w n)"
  "app_failed_lock_files (before_locks env pats ps w n) = []"
proof -
  obtain a mfs where m: "map_paths env 0 ps (initial_app pats ps) = (a, mfs)" by fastforce
  have a: "locked_within {} a" "app_all_locked a = False" "app_failed_lock_files a = []"
    using map_paths_kept [OF kept_locked [of "{}"], of "initial_app pats ps" env 0 ps]
      map_paths_kept [OF kept_flag [of False], of "initial_app pats ps" env 0 ps]
      map_paths_kept [OF kept_failed [of "[]"], of "initial_app pats ps" env 0 ps] initial_unlocked [of pats ps] m by simp_all
  have "locked_within {} (warm_files env 0 n mfs a)" "app_all_locked (warm_files env 0 n mfs a) = False"
    "app_failed_lock_files (warm_files env 0 n mfs a) = []"
    using warm_files_kept [OF kept_locked a(1)] warm_files_kept [OF kept_flag a(2)] warm_files_kept [OF kept_failed a(3)] by blast+
  with a m show "locked_within {} (before_locks env pats ps w n)" "\<not> app_all_locked (before_locks env pats ps w n)"
    "app_failed_lock_files (before_locks env pats ps w n) = []"
    by (simp_all add: before_locks_def warm_phase_def locked_within_def Let_def)
qed

lemma hold_run_locks:
  "hr_mapped (hold_run env pats ps w n False m) = mapped_of env pats ps"
  "hr_tally (hold_run env pats ps w n False m) = fst (lock_phase env m (mapped_of env pats ps) (before_locks env pats ps w n))"
  "hr_app (hold_run env pats ps w n False m) = snd (lock_phase env m (mapped_of env pats ps) (before_locks env pats ps w n))"
  by (simp_all add: hold_run_def mapped_of_def before_locks_def case_prod_beta Let_def)

text \<open>C32. The hold run tells the truth about locks. For every answer of the kernel, every order in which lock threads
  finish and every moment at which the user quits: the locked bytes and the failed files are exactly those of the
  files whose lock was tried, which without a quit are all mapped files; the state says that all is locked exactly
  when nobody quit and every mapped file was locked; and no file is shown locked unless its lock succeeded.\<close>

theorem hold_accounting:
  assumes "\<And>k c. mset (finish_order env k c) = mset c"
    and "\<And>k. exit_seen env (Before_Chunk k) \<Longrightarrow> exit_seen env After_Locks"
  shows "let r = hold_run env patterns ps no_warmup page_size False threads in
    (\<exists>n \<le> length (hr_mapped r). locked_bytes (hr_tally r) = ok_bytes env (take n (hr_mapped r))
       \<and> mset (failed_files (hr_tally r)) = failures env (take n (hr_mapped r))
       \<and> (n = length (hr_mapped r) \<or> exit_seen env After_Locks))
    \<and> (app_all_locked (hr_app r) \<longleftrightarrow> \<not> exit_seen env After_Locks \<and> list_all (lock_ok env) (hr_mapped r))
    \<and> locked_within (display_path ` {mf \<in> set (hr_mapped r). lock_ok env mf}) (hr_app r)"
proof -
  let ?a = "before_locks env patterns ps no_warmup page_size" and ?m = "mapped_of env patterns ps"
  let ?z = "\<lparr>locked_bytes = 0, failed_files = []\<rparr>"
  let ?c = "lock_chunks env threads 0 ?m (?z, ?a)"
  let ?S = "display_path ` {mf \<in> set ?m. lock_ok env mf}"
  from lock_chunks_tally [OF assms(1), where mfs = ?m and m = threads and k = 0 and s = "(?z, ?a)"] assms(2) obtain n where n: "n \<le> length ?m"
    "locked_bytes (fst ?c) = ok_bytes env (take n ?m)" "mset (failed_files (fst ?c)) = failures env (take n ?m)"
    "n = length ?m \<or> exit_seen env After_Locks" by auto
  have flag: "app_all_locked (snd ?c) = False"
    using lock_chunks_kept [OF kept_flag [of False] _ assms(1), where all = ?m and mfs = ?m and s = "(?z, ?a)"] before_locks_facts(2)
    by (simp add: lock_file_flag)
  have "locked_within ?S (snd (lock_file env mf (t, a)))" if "locked_within ?S a" "mf \<in> set ?m" for mf t a
    by (rule lock_file_locked [OF that(1)]) (use that(2) in auto)
  then have within: "locked_within ?S (snd ?c)"
    using lock_chunks_kept [OF kept_locked [of ?S] _ assms(1), where all = ?m and mfs = ?m and s = "(?z, ?a)"]
      locked_within_mono [OF before_locks_facts(1)] by simp
  have empty: "failed_files (fst ?c) = [] \<longleftrightarrow> list_all (lock_ok env) (take n ?m)"
    using n(3) by (metis failures_def list_all_iff mset_zero_iff filter_empty_conv map_is_Nil_conv)
  have all: "app_all_locked (snd (lock_phase env threads ?m ?a)) \<longleftrightarrow> \<not> exit_seen env After_Locks \<and> list_all (lock_ok env) ?m"
    using flag empty n(1,4) by (auto simp: lock_phase_def case_prod_beta Let_def)
  moreover have "locked_within ?S (snd (lock_phase env threads ?m ?a))"
    using within by (auto simp: lock_phase_def case_prod_beta Let_def locked_within_def)
  moreover have "fst (lock_phase env threads ?m ?a) = fst ?c" by (simp add: lock_phase_def case_prod_beta Let_def)
  ultimately show ?thesis using n unfolding Let_def hold_run_locks by auto
qed

definition sample_holder :: holder_env where
  "sample_holder = \<lparr>open_answer = (\<lambda>p. Mapped_File 5000 (replicate 5000 1) 10), exit_seen = (\<lambda>c. c = At_End),
     page_elapsed = (\<lambda>i pg. 1000 * pg), page_late = (\<lambda>i pg. False), warm_elapsed = (\<lambda>i. 5000),
     lock_ok = (\<lambda>mf. mf_path mf \<noteq> ''/b''), lock_elapsed = (\<lambda>mf. 900), finish_order = (\<lambda>k c. rev c), ui_panic = None\<rparr>"

theorem hold_accounting_witness:
  "let r = hold_run sample_holder [''/*''] [''/a'', ''/b''] True 4096 False 2 in
    length (hr_mapped r) = 2 \<and> locked_bytes (hr_tally r) = 5000 \<and> \<not> app_all_locked (hr_app r)"
proof -
  let ?r = "hold_run sample_holder [''/*''] [''/a'', ''/b''] True 4096 False 2"
  have m: "map mf_path (hr_mapped ?r) = [''/a'', ''/b'']" "map mf_size (hr_mapped ?r) = [5000, 5000]"
    by (simp_all add: hold_run_locks mapped_of_def sample_holder_def case_prod_beta Let_def)
  then obtain x y where xy: "hr_mapped ?r = [x, y]" "mf_path x = ''/a''" "mf_path y = ''/b''" "mf_size x = 5000"
    by (cases "hr_mapped ?r"; cases "tl (hr_mapped ?r)") auto
  have l: "lock_ok sample_holder x" "\<not> lock_ok sample_holder y" "\<not> exit_seen sample_holder After_Locks"
    using xy by (simp_all add: sample_holder_def)
  have "mset (finish_order sample_holder k c) = mset c" for k c by (simp add: sample_holder_def)
  moreover have "exit_seen sample_holder (Before_Chunk k) \<Longrightarrow> exit_seen sample_holder After_Locks" for k
    by (simp add: sample_holder_def)
  ultimately have "locked_bytes (hr_tally ?r) = ok_bytes sample_holder [x, y]" "\<not> app_all_locked (hr_app ?r)"
    using hold_accounting [of sample_holder "[''/*'']" "[''/a'', ''/b'']" True 4096 2] xy(1) l by (auto simp: Let_def)
  with xy l show ?thesis by (simp add: Let_def)
qed

section \<open>Where the display is wrong\<close>

lemma map_paths_none:
  assumes "list_all (\<lambda>p. \<exists>e. open_answer env p = Open_Failed e) ps" "list_all (\<lambda>f. fs_stage f = Found) (app_files a)"
    "\<And>c. \<not> exit_seen env c"
  shows "snd (map_paths env i ps a) = []" "list_all (\<lambda>f. fs_stage f = Found) (app_files (fst (map_paths env i ps a)))"
proof -
  have u: "list_all (\<lambda>f. fs_stage f = Found) (update_first p (\<lambda>f. f\<lparr>fs_stage := Found\<rparr>) fs)"
    if "list_all (\<lambda>f. fs_stage f = Found) fs" for p fs using that by (induction fs) auto
  have "snd (map_paths env i ps a) = [] \<and> list_all (\<lambda>f. fs_stage f = Found) (app_files (fst (map_paths env i ps a)))"
    using assms(1,2)
  proof (induction ps arbitrary: i a)
    case (Cons p ps)
    let ?a = "update_file (from_utf8_lossy p) (\<lambda>f. f\<lparr>fs_stage := Found\<rparr>) a"
    from Cons.prems obtain e where "open_answer env p = Open_Failed e" by auto
    with Cons.IH [of ?a "i + 1"] Cons.prems u show ?case by (simp add: assms(3) update_file_def Let_def)
  qed simp
  then show "snd (map_paths env i ps a) = []" "list_all (\<lambda>f. fs_stage f = Found) (app_files (fst (map_paths env i ps a)))"
    by simp_all
qed

lemma initial_found: "list_all (\<lambda>f. fs_stage f = Found) (app_files (initial_app pats ps))"
proof -
  have "list_all (\<lambda>f. fs_stage f = Found) (app_files (fold (\<lambda>p. add_file (from_utf8_lossy p)) ps a))"
    if "list_all (\<lambda>f. fs_stage f = Found) (app_files a)" for a using that
    by (induction ps arbitrary: a) (simp_all add: add_file_def set_size_def file_new_def)
  then show ?thesis by (simp add: initial_app_def update_total_size_def app_new_def)
qed

text \<open>Success without a single file. When no file can be opened, the run still declares everything locked and
  the help window says that every file was locked, while every file is shown as pending and nothing is mapped.\<close>

theorem locked_without_files:
  assumes "list_all (\<lambda>p. \<exists>e. open_answer env p = Open_Failed e) ps" "\<And>c. \<not> exit_seen env c"
  shows "let r = hold_run env patterns ps no_warmup page_size False threads in
    hr_mapped r = [] \<and> app_all_locked (hr_app r) \<and> hd (help_lines w (hr_app r)) = ''Every file locked successfully.''
    \<and> list_all (\<lambda>f. fs_stage f = Found) (app_files (hr_app r))"
proof -
  let ?a = "before_locks env patterns ps no_warmup page_size"
  have m: "mapped_of env patterns ps = []"
    using map_paths_none(1) [OF assms(1) initial_found assms(2)] by (simp add: mapped_of_def)
  have f: "list_all (\<lambda>f. fs_stage f = Found) (app_files ?a)"
    using map_paths_none(2) [OF assms(1) initial_found assms(2), of 0 patterns ps] m
    by (simp add: before_locks_def mapped_of_def case_prod_beta warm_phase_def Let_def)
  have l: "lock_phase env threads [] ?a = (\<lparr>locked_bytes = 0, failed_files = []\<rparr>, ?a\<lparr>app_all_locked := True\<rparr>)"
    using assms(2) by (simp add: lock_phase_def lock_chunks.simps)
  then show ?thesis using f before_locks_facts(3) [of env patterns ps no_warmup page_size]
    by (simp add: Let_def hold_run_locks m help_lines_def)
qed

theorem locked_without_files_witness:
  "let r = hold_run (sample_holder\<lparr>open_answer := (\<lambda>p. Open_Failed ''Permission denied''), exit_seen := (\<lambda>c. False)\<rparr>)
       [''/a''] [''/a''] False 4096 False 1
   in app_all_locked (hr_app r) \<and> hr_mapped r = []"
  using locked_without_files [of "sample_holder\<lparr>open_answer := (\<lambda>p. Open_Failed ''Permission denied''), exit_seen := (\<lambda>c. False)\<rparr>"
      "[''/a'']" "[''/a'']" False 4096 1]
  by (simp add: Let_def)

text \<open>A file whose lock failed keeps the stage of a lock in progress, and counts as complete.\<close>

lemma failed_lock_stays_locking:
  assumes "open_answer env p = Mapped_File n bytes d" "\<And>mf. \<not> lock_ok env mf" "\<And>c. \<not> exit_seen env c"
    "\<And>k c. mset (finish_order env k c) = mset c"
  shows "\<exists>f s e. app_files (hr_app (hold_run env pats [p] True page_size False threads)) = [f] \<and> fs_stage f = Locking s e
    \<and> is_complete (fs_stage f)"
proof -
  have o1: "finish_order env k [x] = [x]" for k x using assms(4) [of k "[x]"] by simp
  have "\<exists>s e. mark_locking 0 f = f\<lparr>fs_stage := Locking s e\<rparr>" for f by (auto simp: mark_locking_def)
  show ?thesis
    by (simp add: hold_run_locks mapped_of_def before_locks_def case_prod_beta Let_def assms initial_app_def add_file_def app_new_def
        lock_phase_def lock_chunks.simps lock_chunk_def o1 lock_file_def display_path_def update_file_def update_total_size_def
        set_size_def mark_mapped_def mark_locking_def file_new_def)
qed

end
