(* ===== verification/Holder_Check.thy ===== *)
theory Holder_Check
  imports Model_Holder
begin

text \<open>
  The \<^verbatim>\<open>check\<close> command of \<^verbatim>\<open>model-holder/src/main.rs\<close>: which model files the holder and the servers have mapped,
  read from \<^verbatim>\<open>/proc\<close>. What \<^verbatim>\<open>/proc\<close> answers, the user and the iteration order of hash maps (\<open>id_order\<close>) are
  parameters; printed text is returned as its lines.
\<close>

record file_identity =
  fi_dev :: string
  fi_inode :: u64

record mapped_region =
  mr_path :: string
  mr_start :: u64
  mr_end :: u64
  mr_dev :: string
  mr_inode :: u64

record aggregated_file =
  af_path :: string
  af_identity :: file_identity
  af_mapped_size :: u64

record process_maps =
  pm_pid :: nat
  pm_comm :: string
  pm_cmdline :: string
  pm_maps :: "mapped_region list"

datatype maps_answer = Maps_Denied string | Maps_Missing string | Maps_Failed string | Maps_Text string

record proc_env =
  proc_entries :: "((string, string) result list, string) result"
  own_pid :: nat
  read_text :: "string \<Rightarrow> string option"
  open_maps :: "nat \<Rightarrow> maps_answer"
  is_root :: bool
  to_lower :: "string \<Rightarrow> string"
  id_order :: "file_identity list \<Rightarrow> file_identity list"

section \<open>Numbers\<close>

definition digit_value :: "char \<Rightarrow> nat" where
  "digit_value c = (let n = of_char c :: nat in
     if 48 \<le> n \<and> n \<le> 57 then n - 48 else if 97 \<le> n \<and> n \<le> 122 then n - 87 else if 65 \<le> n \<and> n \<le> 90 then n - 55 else 99)"

text \<open>\<^verbatim>\<open>from_str_radix\<close> of an unsigned type with greatest value \<open>lim\<close>: an optional plus sign, then digits.\<close>

definition from_str_radix :: "nat \<Rightarrow> nat \<Rightarrow> string \<Rightarrow> nat option" where
  "from_str_radix radix lim s =
     (let t = (case s of [] \<Rightarrow> [] | c # r \<Rightarrow> if c = CHR ''+'' then r else s);
          v = foldl (\<lambda>acc c. acc * radix + digit_value c) 0 t
      in if t = [] \<or> list_ex (\<lambda>c. radix \<le> digit_value c) t \<or> lim < v then None else Some v)"

definition parse_word :: "nat \<Rightarrow> string \<Rightarrow> u64 option" where
  "parse_word radix s = map_option of_nat (from_str_radix radix (2 ^ 64 - 1) s)"

section \<open>Reading\<close>

definition names_match :: "string list \<Rightarrow> string \<Rightarrow> bool" where
  "names_match names comm = list_ex (str_contains (trim comm)) names"

definition proc_path :: "nat \<Rightarrow> string \<Rightarrow> string" where
  "proc_path pid name = ''/proc/'' @ digits pid @ ''/'' @ name"

fun matching_pids :: "proc_env \<Rightarrow> string list \<Rightarrow> (string, string) result list \<Rightarrow> (nat list, holder_error) result" where
  "matching_pids env names [] = Ok []"
| "matching_pids env names (Inl e # es) = Err (No_Files_Found (''Error reading /proc entry: '' @ e))"
| "matching_pids env names (Inr name # es) =
     (let hit = (case from_str_radix 10 (2 ^ 32 - 1) (from_utf8_lossy name) of
            None \<Rightarrow> []
          | Some pid \<Rightarrow> if pid = own_pid env then []
              else (case read_text env (proc_path pid ''comm'') of
                  None \<Rightarrow> []
                | Some comm \<Rightarrow> if names_match names comm then [pid] else []))
      in map_sum id (\<lambda>ps. hit @ ps) (matching_pids env names es))"

definition find_processes_by_name :: "proc_env \<Rightarrow> string list \<Rightarrow> (nat list, holder_error) result" where
  "find_processes_by_name env names = (case proc_entries env of
       Inl e \<Rightarrow> Err (No_Files_Found (''Cannot read /proc directory: '' @ e))
     | Inr es \<Rightarrow> matching_pids env names es)"

definition parse_maps_line :: "string \<Rightarrow> mapped_region option" where
  "parse_maps_line line =
     (let parts = split_whitespace line in
      if length parts < 6 then None
      else (case split_on (CHR ''-'') (parts ! 0) of
          [a, b] \<Rightarrow> (case (parse_word 16 a, parse_word 16 b) of
              (Some s, Some e) \<Rightarrow>
                (let inode = some_or (parse_word 10 (parts ! 4)) 0; path = join '' '' (drop 5 parts)
                 in if starts_with path ''/'' \<and> 0 < inode
                    then Some \<lparr>mr_path = path, mr_start = s, mr_end = e, mr_dev = parts ! 3, mr_inode = inode\<rparr> else None)
            | _ \<Rightarrow> None)
        | _ \<Rightarrow> None))"

definition not_utf8 :: "string \<Rightarrow> bool" where
  "not_utf8 line = (from_utf8_lossy line \<noteq> line)"

definition read_process_maps :: "proc_env \<Rightarrow> nat \<Rightarrow> (process_maps, holder_error) result" where
  "read_process_maps env pid =
     (let comm = trim (some_or (read_text env (proc_path pid ''comm'')) []);
          cmdline = trim (map (\<lambda>c. if c = CHR 0x00 then CHR '' '' else c) (some_or (read_text env (proc_path pid ''cmdline'')) []))
      in case open_maps env pid of
          Maps_Denied e \<Rightarrow> Err (Permission_Denied [pid])
        | Maps_Missing e \<Rightarrow> Err (Process_Disappeared pid)
        | Maps_Failed e \<Rightarrow> Err (No_Files_Found (''Cannot read maps for PID '' @ digits pid @ '': '' @ e))
        | Maps_Text s \<Rightarrow>
            if list_ex not_utf8 (text_lines s)
            then Err (No_Files_Found (''Error reading maps for PID '' @ digits pid @ '': stream did not contain valid UTF-8''))
            else Ok \<lparr>pm_pid = pid, pm_comm = comm, pm_cmdline = cmdline, pm_maps = List.map_filter parse_maps_line (text_lines s)\<rparr>)"

section \<open>Aggregation\<close>

text \<open>Behind the last dot; without a dot no model file.\<close>

definition is_model_file :: "(string \<Rightarrow> string) \<Rightarrow> string \<Rightarrow> string list \<Rightarrow> bool" where
  "is_model_file lower p exts = (CHR ''.'' \<in> set p \<and> lower (rev (takeWhile (\<lambda>c. c \<noteq> CHR ''.'') (rev p))) \<in> set exts)"

definition region_identity :: "mapped_region \<Rightarrow> file_identity" where
  "region_identity r = \<lparr>fi_dev = mr_dev r, fi_inode = mr_inode r\<rparr>"

text \<open>\<^verbatim>\<open>entry(id).and_modify(..).or_insert(..)\<close>.\<close>

definition add_region :: "mapped_region \<Rightarrow> (file_identity \<rightharpoonup> string \<times> u64) \<Rightarrow> (file_identity \<rightharpoonup> string \<times> u64)" where
  "add_region r m = (let sz = mr_end r - mr_start r in
     m(region_identity r \<mapsto> (case m (region_identity r) of None \<Rightarrow> (mr_path r, sz) | Some (p, t) \<Rightarrow> (p, t + sz))))"

definition identities :: "mapped_region list \<Rightarrow> file_identity list" where
  "identities rs = remdups (map region_identity rs)"

definition aggregate_maps :: "proc_env \<Rightarrow> mapped_region list \<Rightarrow> aggregated_file list" where
  "aggregate_maps env rs = (let m = fold add_region rs Map.empty in
     map (\<lambda>i. \<lparr>af_path = fst (the (m i)), af_identity = i, af_mapped_size = snd (the (m i))\<rparr>) (id_order env (identities rs)))"

section \<open>Display\<close>

definition truncate_string :: "string \<Rightarrow> nat \<Rightarrow> string" where
  "truncate_string s max_len = (if length s \<le> max_len then s else if max_len < 4 then []
     else concat (fitting (max_len - 3) (chars s)) @ ''...'')"

definition check_process_permissions :: "proc_env \<Rightarrow> nat list \<Rightarrow> (unit, holder_error) result" where
  "check_process_permissions env pids =
     (let denied = filter (\<lambda>p. case open_maps env p of Maps_Denied e \<Rightarrow> True | _ \<Rightarrow> False) pids
      in if denied \<noteq> [] \<and> \<not> is_root env then Err (Permission_Denied denied) else Ok ())"

type_synonym models = "(file_identity \<times> (string \<times> u64)) list"

fun model_insert :: "file_identity \<Rightarrow> string \<times> u64 \<Rightarrow> models \<Rightarrow> models" where
  "model_insert i v [] = [(i, v)]"
| "model_insert i v ((j, w) # ms) = (if i = j then (j, v) # ms else (j, w) # model_insert i v ms)"

definition identity_text :: "file_identity \<Rightarrow> string" where
  "identity_text i = fi_dev i @ '':'' @ u64_text (fi_inode i)"

definition model_line :: "aggregated_file \<Rightarrow> string" where
  "model_line f = ''    '' @ af_path f @ '' (mapped: '' @ format_size_bytes (af_mapped_size f) @ '', inode: '' @ identity_text (af_identity f) @ '')''"

definition model_maps :: "proc_env \<Rightarrow> string list \<Rightarrow> process_maps \<Rightarrow> aggregated_file list" where
  "model_maps env exts pm = stable_sort (\<lambda>f g. af_mapped_size g < af_mapped_size f)
     (filter (\<lambda>f. is_model_file (to_lower env) (af_path f) exts) (aggregate_maps env (pm_maps pm)))"

fun display_error :: "holder_error \<Rightarrow> string" where
  "display_error (Permission_Denied ps) = ''Permission denied accessing /proc data. Run as root or ensure processes run as same user.''"
| "display_error (Process_Disappeared p) = ''Process '' @ digits p @ '' disappeared during analysis''"
| "display_error (No_Files_Found s) = ''No files matched pattern(s): '' @ s"
| "display_error (Invalid_Page_Size n) = ''Invalid page size: '' @ digits n @ ''. Must be a positive power of 2.''"
| "display_error (Invalid_Extensions s) = ''Invalid extension format: '' @ s @ ''. Must be comma-separated list without dots.''"
| "display_error (Path_Traversal s) = ''Path traversal detected: '' @ s"
| "display_error (UI_Error s) = ''UI error: '' @ s"

fun display_pids :: "proc_env \<Rightarrow> string list \<Rightarrow> nat list \<Rightarrow> models \<Rightarrow> string list \<times> models" where
  "display_pids env exts [] ms = ([], ms)"
| "display_pids env exts (pid # pids) ms =
     (let (out, ms1) = (case read_process_maps env pid of
            Inl e \<Rightarrow> ([''PID '' @ digits pid @ '': (access denied: '' @ display_error e @ '')''], ms)
          | Inr pm \<Rightarrow> (let fs = model_maps env exts pm in
              ([''PID '' @ digits (pm_pid pm) @ '': '' @ pm_comm pm, ''  cmd: '' @ truncate_string (pm_cmdline pm) 80]
                 @ (if fs = [] then [''  (no model files mapped)''] else ''  Model files:'' # map model_line fs),
               fold (\<lambda>f. model_insert (af_identity f) (af_path f, af_mapped_size f)) fs ms)));
          (rest, ms2) = display_pids env exts pids ms1
      in (out @ rest, ms2))"

definition display_process_info :: "proc_env \<Rightarrow> string \<Rightarrow> nat list \<Rightarrow> string list \<Rightarrow> string list \<times> models" where
  "display_process_info env name pids exts =
     (if pids = [] then ([name @ '': not running'', []], [])
      else (let (out, ms) = display_pids env exts pids [] in ([''=== '' @ name @ '' processes ==='', []] @ out @ [[]], ms)))"

definition ratio_low :: f64 where "ratio_low = f64_add (f64_of_nat 1) (signed True (magnitude 0x3FB999999999999A))"
definition ratio_high :: f64 where "ratio_high = f64_add (f64_of_nat 1) 0x3FB999999999999A"

definition size_ratio :: "u64 \<Rightarrow> u64 \<Rightarrow> f64" where
  "size_ratio holder server = (if 0 < holder then f64_div (f64_of_nat (unat server)) (f64_of_nat (unat holder)) else f64_of_nat 1)"

definition has_mismatch :: "u64 \<Rightarrow> u64 \<Rightarrow> bool" where
  "has_mismatch holder server = (f64_gt ratio_low (size_ratio holder server) \<or> f64_gt (size_ratio holder server) ratio_high)"

definition shared_lines :: "models \<Rightarrow> models \<Rightarrow> file_identity \<Rightarrow> string list" where
  "shared_lines hm lm i = (let (hp, hs) = the (map_of hm i); (lp, ls) = the (map_of lm i);
       status = (if has_mismatch hs ls then ''[INFO]'' else ''[OK]'')
     in [''  '' @ status @ '' '' @ hp @ (if hp = lp then [] else '' (holder) <-> '' @ lp @ '' (server)''),
         ''       inode '' @ identity_text i,
         ''       holder: '' @ format_size_bytes hs @ '' | server: '' @ format_size_bytes ls]
        @ (if has_mismatch hs ls then [''       ^ server has '' @ fixed_text 1 (f64_mul (size_ratio hs ls) (f64_of_nat 100))
             @ ''% mapped (will increase as pages are accessed)''] else []))"

definition shared_ids :: "proc_env \<Rightarrow> models \<Rightarrow> models \<Rightarrow> file_identity list" where
  "shared_ids env hm lm = filter (\<lambda>i. i \<in> set (map fst lm)) (id_order env (map fst hm))"

definition only_ids :: "proc_env \<Rightarrow> models \<Rightarrow> models \<Rightarrow> file_identity list" where
  "only_ids env hm lm = filter (\<lambda>i. i \<notin> set (map fst lm)) (id_order env (map fst hm))"

definition section_lines :: "string \<Rightarrow> ('a \<Rightarrow> string list) \<Rightarrow> 'a list \<Rightarrow> string list" where
  "section_lines title g xs = (if xs = [] then [] else [title @ '' ('' @ digits (length xs) @ ''):''] @ concat (map g xs) @ [[]])"

definition display_model_comparison :: "proc_env \<Rightarrow> models \<Rightarrow> models \<Rightarrow> string list" where
  "display_model_comparison env hm lm =
     (if hm = [] \<and> lm = [] then []
      else (let both = shared_ids env hm lm; ho = only_ids env hm lm; lo = only_ids env lm hm;
                partial = length (filter (\<lambda>i. has_mismatch (snd (the (map_of hm i))) (snd (the (map_of lm i)))) both)
       in [''=== Comparison (by inode) ==='', []]
          @ section_lines ''Shared model files'' (shared_lines hm lm) both
          @ section_lines ''Model files in model-holder but NOT in llama-server''
              (\<lambda>i. [''  [WARN] '' @ fst (the (map_of hm i)) @ '' (holder is pre-caching unused model)'']) ho
          @ section_lines ''Model files in llama-server but NOT in model-holder''
              (\<lambda>i. [''  [WARN] '' @ fst (the (map_of lm i)) @ '' (not pre-cached by holder)'']) lo
          @ (if ho = [] \<and> lo = [] \<and> both \<noteq> [] then
               (if partial = 0 then [''All model files are properly shared between holder and server.'']
                else [''All model files are shared. '' @ digits partial @ '' file(s) have partial server mappings (normal during startup).''])
             else [])))"

definition LLAMA_PROCESS_NAMES :: "string list" where
  "LLAMA_PROCESS_NAMES = [''llama-server'', ''llama-cli'', ''llama.cpp'']"

definition LOOKING :: string where "LOOKING = ''Looking for model-holder and llama-server processes...''"

definition check_mmaps :: "proc_env \<Rightarrow> string \<Rightarrow> (string list, holder_error) result" where
  "check_mmaps env extensions =
     (case validate_extensions extensions of
        Inl e \<Rightarrow> Err e
      | Inr _ \<Rightarrow> (let exts = map trim (split_on (CHR '','') extensions) in
          case find_processes_by_name env [''model-holder''] of
            Inl e \<Rightarrow> Err e
          | Inr holders \<Rightarrow> (case find_processes_by_name env LLAMA_PROCESS_NAMES of
              Inl e \<Rightarrow> Err e
            | Inr llamas \<Rightarrow>
                if holders = [] \<and> llamas = [] then Ok [LOOKING, [], ''No model-holder or llama-server processes found.'']
                else (case check_process_permissions env (holders @ llamas) of
                    Inl e \<Rightarrow> Err e
                  | Inr _ \<Rightarrow>
                      (let (out1, hm) = display_process_info env ''model-holder'' holders exts;
                           (out2, lm) = display_process_info env ''llama-server'' llamas exts
                       in Ok ([LOOKING, []] @ out1 @ out2 @ display_model_comparison env hm lm))))))"

end
