(* ===== verification/Holder_Check_Correct.thy ===== *)
theory Holder_Check_Correct
  imports Holder_Check Holder_Screen "HOL-Library.Multiset"
begin

text \<open>
  The check command adds up regions file by file, exactly; cut texts stay within their bounds; and the two places
  where the command line and the kernel's text are misread.
\<close>

section \<open>Aggregation\<close>

definition region_size :: "mapped_region \<Rightarrow> u64" where
  "region_size r = mr_end r - mr_start r"

definition own_regions :: "file_identity \<Rightarrow> mapped_region list \<Rightarrow> mapped_region list" where
  "own_regions i rs = filter (\<lambda>r. region_identity r = i) rs"

lemma own_regions_simps [simp]: "own_regions i [] = []"
  "own_regions i (r # rs) = (if region_identity r = i then r # own_regions i rs else own_regions i rs)"
  by (simp_all add: own_regions_def)

lemma fold_add_region_Some:
  "m i = Some (p, t) \<Longrightarrow> fold add_region rs m i = Some (p, t + sum_list (map region_size (own_regions i rs)))"
proof (induction rs arbitrary: m t)
  case (Cons r rs)
  show ?case
  proof (cases "region_identity r = i")
    case True
    with Cons.prems have "add_region r m i = Some (p, t + region_size r)"
      by (simp add: add_region_def region_size_def Let_def)
    from Cons.IH [where m = "add_region r m", OF this] True show ?thesis by (simp add: add_ac)
  next
    case False
    with Cons.prems have "add_region r m i = Some (p, t)" by (simp add: add_region_def Let_def)
    from Cons.IH [where m = "add_region r m", OF this] False show ?thesis by simp
  qed
qed simp

lemma fold_add_region_None:
  "m i = None \<Longrightarrow> fold add_region rs m i = (case own_regions i rs of [] \<Rightarrow> None
     | r # rs' \<Rightarrow> Some (mr_path r, sum_list (map region_size (own_regions i rs))))"
proof (induction rs arbitrary: m)
  case (Cons r rs)
  show ?case
  proof (cases "region_identity r = i")
    case True
    with Cons.prems have "add_region r m i = Some (mr_path r, region_size r)"
      by (simp add: add_region_def region_size_def Let_def)
    from fold_add_region_Some [where m = "add_region r m" and rs = rs, OF this] True show ?thesis by simp
  next
    case False
    with Cons.prems have "add_region r m i = None" by (simp add: add_region_def Let_def)
    from Cons.IH [where m = "add_region r m", OF this] False show ?thesis by (cases "own_regions i rs") simp_all
  qed
qed simp

lemma own_regions_nonempty: "i \<in> set (map region_identity rs) \<longleftrightarrow> own_regions i rs \<noteq> []"
  by (auto simp: own_regions_def filter_empty_conv)

text \<open>One entry per file, and its exact size. Whatever order the hash map iterates in, the aggregation of a process's
  regions names every mapped file once, by device and inode, with the path of its first region and with the sum of
  the sizes of all its regions.\<close>

theorem aggregate_maps_exact:
  assumes "\<And>is. mset (id_order env is) = mset is"
  shows "mset (map af_identity (aggregate_maps env rs)) = mset (remdups (map region_identity rs))
    \<and> list_all (\<lambda>f. af_path f = mr_path (hd (own_regions (af_identity f) rs))
        \<and> af_mapped_size f = sum_list (map region_size (own_regions (af_identity f) rs))) (aggregate_maps env rs)"
proof -
  have ids: "mset (id_order env (identities rs)) = mset (identities rs)" by (rule assms)
  have "own_regions i rs \<noteq> []" if "i \<in> set (id_order env (identities rs))" for i
    using that mset_eq_setD [OF ids] by (simp add: identities_def flip: own_regions_nonempty)
  then have v: "fold add_region rs Map.empty i
      = Some (mr_path (hd (own_regions i rs)), sum_list (map region_size (own_regions i rs)))"
    if "i \<in> set (id_order env (identities rs))" for i
    using that fold_add_region_None [of Map.empty i rs] by (auto split: list.splits)
  then show ?thesis
    using ids by (auto simp: aggregate_maps_def Let_def comp_def list_all_iff identities_def)
qed

definition sample_proc :: proc_env where
  "sample_proc = \<lparr>proc_entries = Ok [Ok ''7''], own_pid = 1, read_text = (\<lambda>p. Some ''llama-server''),
     open_maps = (\<lambda>pid. Maps_Text []), is_root = False, to_lower = to_ascii_lowercase, id_order = rev\<rparr>"

definition sample_regions :: "mapped_region list" where
  "sample_regions = [\<lparr>mr_path = ''/a.gguf'', mr_start = 0x1000, mr_end = 0x3000, mr_dev = ''08:01'', mr_inode = 5\<rparr>,
     \<lparr>mr_path = ''/b.gguf'', mr_start = 0x3000, mr_end = 0x4000, mr_dev = ''08:01'', mr_inode = 6\<rparr>,
     \<lparr>mr_path = ''/a2.gguf'', mr_start = 0x5000, mr_end = 0x6000, mr_dev = ''08:01'', mr_inode = 5\<rparr>]"

theorem aggregate_maps_exact_witness:
  "length (aggregate_maps sample_proc sample_regions) = 2
   \<and> (\<exists>f \<in> set (aggregate_maps sample_proc sample_regions). af_path f = ''/a.gguf'' \<and> af_mapped_size f = 0x3000)"
proof -
  let ?i = "\<lparr>fi_dev = ''08:01'', fi_inode = 5\<rparr>"
  have p: "mset (id_order sample_proc is) = mset is" for "is" by (simp add: sample_proc_def)
  note e = aggregate_maps_exact [of sample_proc sample_regions, OF p]
  have "mset (map af_identity (aggregate_maps sample_proc sample_regions)) = {#?i, \<lparr>fi_dev = ''08:01'', fi_inode = 6\<rparr>#}"
    using e by (simp add: sample_regions_def region_identity_def)
  then have "length (aggregate_maps sample_proc sample_regions) = 2" "?i \<in> af_identity ` set (aggregate_maps sample_proc sample_regions)"
    by (metis length_map size_add_mset size_empty size_mset numeral_2_eq_2)
      (metis (no_types, lifting) \<open>mset (map af_identity (aggregate_maps sample_proc sample_regions)) = {#?i, \<lparr>fi_dev = ''08:01'', fi_inode = 6\<rparr>#}\<close>
        list.set_map set_mset_mset union_single_eq_member add_mset_add_single)
  then obtain f where f: "f \<in> set (aggregate_maps sample_proc sample_regions)" "af_identity f = ?i" by auto
  have "own_regions ?i sample_regions = [sample_regions ! 0, sample_regions ! 2]"
    by (simp add: sample_regions_def region_identity_def)
  with e f have "af_path f = ''/a.gguf'' \<and> af_mapped_size f = 0x3000"
    by (auto simp: list_all_iff sample_regions_def region_size_def region_identity_def)
  with f \<open>length _ = 2\<close> show ?thesis by blast
qed

section \<open>Texts\<close>

lemma truncate_string_bound: "length (truncate_string s n) \<le> n"
  using length_fitting [of "n - 3" "chars s"] by (auto simp: truncate_string_def)

lemma tail_to_bytes_bound: "length (tail_to_bytes s n) \<le> n"
proof -
  have "length (concat (rev cs)) = length (concat cs)" for cs :: "string list" by (induction cs) auto
  then show ?thesis using length_fitting [of "n - 3" "rev (chars s)"] by (auto simp: tail_to_bytes_def numeral_3_eq_3)
qed

lemma tail_to_bytes_suffix: "\<exists>a b. s = a @ b \<and> (tail_to_bytes s n = s \<or> tail_to_bytes s n = [] \<or> tail_to_bytes s n = ELLIPSIS @ b)"
proof -
  obtain r where "rev (chars s) = fitting (n - 3) (rev (chars s)) @ r" using fitting_prefix by blast
  then have "chars s = rev r @ rev (fitting (n - 3) (rev (chars s)))" by (metis rev_append rev_rev_ident)
  then have "s = concat (rev r) @ concat (rev (fitting (n - 3) (rev (chars s))))" by (metis concat_append concat_chars)
  then show ?thesis unfolding tail_to_bytes_def by (metis append.right_neutral length_Cons list.size(3) numeral_3_eq_3)
qed

text \<open>The bar is never wider than its cells.\<close>

lemma progress_bar_width: "fst (progress_bar p w) + snd (progress_bar p w) = w"
  by (simp add: progress_bar_def Let_def)

lemma thumb_inside:
  "0 < track \<Longrightarrow> 1 \<le> min (max x 1) track \<and> min y (track - min (max x 1) track) + min (max x 1) track \<le> (track :: nat)"
  by auto

lemma scrollbar_inside:
  assumes "scrollbar_thumb track n visible offset = Some r"
  shows "1 \<le> snd r \<and> fst r + snd r \<le> track"
proof -
  have t: "0 < track" using assms by (auto simp: scrollbar_thumb_def split: if_splits)
  obtain x y where "r = (min y (track - min (max x 1) track), min (max x 1) track)"
    using assms by (auto simp only: scrollbar_thumb_def Let_def option.inject option.distinct split: if_splits) metis
  with thumb_inside [OF t] show ?thesis by simp
qed

section \<open>Misreadings\<close>

text \<open>An extension given in upper case never matches, although the match is documented as case-insensitive: only
  the file's side is lowered.\<close>

lemma upper_case_extension_never_matches:
  assumes "\<And>s. lower s \<noteq> ext"
  shows "\<not> is_model_file lower p [ext]"
  using assms by (simp add: is_model_file_def)

lemma upper_case_extension_example: "\<not> is_model_file to_ascii_lowercase ''/m.GGUF'' [''GGUF'']"
  by code_simp

text \<open>A run of spaces in a path is read as one, so such a file is reported under a path that does not exist.\<close>

lemma maps_path_spaces_collapse:
  "map_option mr_path (parse_maps_line ''10-20 r--p 0 08:01 5   /m/a  b.gguf'') = Some ''/m/a b.gguf''"
proof -
  have p: "split_whitespace ''10-20 r--p 0 08:01 5   /m/a  b.gguf'' = [''10-20'', ''r--p'', ''0'', ''08:01'', ''5'', ''/m/a'', ''b.gguf'']"
    by (simp add: split_whitespace_def is_cont_def is_whitespace_def)
  show ?thesis
    by (simp add: parse_maps_line_def p Let_def parse_word_def from_str_radix_def digit_value_def starts_with_def)
qed

end
