(* ===== verification/Startup.thy ===== *)
theory Startup
  imports Config_Loader Proxy_State Fix_Registry Influx Text_Format
begin

text \<open>
  The start of the proxy: the command line, its overrides and the last check of the merged configuration, the
  printed summary, \<^verbatim>\<open>list-fixes\<close> and \<^verbatim>\<open>test-backend\<close> (\<^verbatim>\<open>llama-proxy/src/main.rs\<close>), the assembly of the shared
  state, the listening address and the allowed origins (\<^verbatim>\<open>proxy/server.rs\<close>).

  Parameters: what the operating system and the crates answer. The arguments arrive parsed (clap); a line
  printed is an element of a list of lines, and of the log only the lines the commands share are kept.
\<close>

section \<open>Parameters\<close>

datatype ip_addr = V4 "32 word" | V6 "128 word"

type_synonym socket_addr = "ip_addr \<times> 16 word"

record net_env =
  parse_ipv4 :: "string \<Rightarrow> 32 word option"
  parse_ipv6 :: "string \<Rightarrow> 128 word option"
  lookup_host :: "string \<Rightarrow> 16 word \<Rightarrow> (socket_addr list, string) result"
  bind_socket :: "socket_addr \<Rightarrow> ((socket_addr, string) result, string) result"   \<comment> \<open>inside, its \<^verbatim>\<open>local_addr\<close>\<close>

record ('cert, 'ident, 'c) startup_env =
  su_loader :: loader_env
  su_clients :: "('cert, 'ident, 'c, string) client_env"
  su_serde :: serde_env
  su_slots :: slot_finder
  su_http :: net
  su_net :: net_env
  su_lower :: "string \<Rightarrow> string"
  su_augment_client :: "duration \<Rightarrow> ('c, string) result"
  su_header_value :: "string \<Rightarrow> bool"      \<comment> \<open>whether \<^verbatim>\<open>HeaderValue::from_str\<close> accepts\<close>
  su_max_permits :: nat                    \<comment> \<open>above it \<^verbatim>\<open>Semaphore::new\<close> panics\<close>
  su_influxdb :: bool                      \<comment> \<open>the cargo feature\<close>
  su_now :: instant
  su_later :: instant

abbreviation DASH :: string where "DASH \<equiv> [CHR 0xE2, CHR 0x80, CHR 0x94]"
abbreviation TICK :: string where "TICK \<equiv> [CHR 0xE2, CHR 0x9C, CHR 0x93]"
abbreviation CROSS :: string where "CROSS \<equiv> [CHR 0xE2, CHR 0x9C, CHR 0x97]"
abbreviation DQ :: string where "DQ \<equiv> [CHR 0x22]"

section \<open>The command line\<close>

datatype log_level = Level_Trace | Level_Debug | Level_Info | Level_Warn | Level_Error

fun log_level_text :: "log_level \<Rightarrow> string" where
  "log_level_text Level_Trace = ''trace''"
| "log_level_text Level_Debug = ''debug''"
| "log_level_text Level_Info = ''info''"
| "log_level_text Level_Warn = ''warn''"
| "log_level_text Level_Error = ''error''"

text \<open>The filter's directive and the warning; \<open>parses\<close> is the error of \<^verbatim>\<open>EnvFilter::try_new\<close>, if any.\<close>

definition resolve_log_filter ::
  "loader_env \<Rightarrow> (string \<Rightarrow> string option) \<Rightarrow> string option \<Rightarrow> string option \<Rightarrow> string \<times> string option" where
  "resolve_log_filter env parses cli_level env_rust_log = (case cli_level of
       Some level \<Rightarrow> (level, None)
     | None \<Rightarrow> (case env_rust_log of
           None \<Rightarrow> (''info'', None)
         | Some raw \<Rightarrow> (case parses raw of
               None \<Rightarrow> (raw, None)
             | Some e \<Rightarrow> (''info'', Some (''warning: RUST_LOG='' @ debug_str env raw @ '' is not a valid filter ('' @ e
                 @ ''); falling back to '' @ DQ @ ''info'' @ DQ @ '' (fix RUST_LOG or use --log-level)'')))))"

record run_args =
  arg_port :: "16 word option"
  arg_backend_url :: "string option"
  arg_streaming_mode :: "string option"
  arg_hide_requests :: bool
  arg_log_augmented_request_text :: bool
  arg_dump :: "string option"

definition override_port :: "16 word option \<Rightarrow> app_config \<Rightarrow> app_config \<times> string list" where
  "override_port port config = (case port of
       None \<Rightarrow> (config, [])
     | Some p \<Rightarrow> (config\<lparr>ac_server := (ac_server config)\<lparr>sc_port := p\<rparr>\<rparr>, [''port='' @ digits (unat p)]))"

definition override_backend_url :: "string option \<Rightarrow> app_config \<Rightarrow> app_config \<times> string list" where
  "override_backend_url url config = (case url of
       None \<Rightarrow> (config, [])
     | Some u \<Rightarrow>
         if ac_backends config \<noteq> None then (config, [])
         else (config\<lparr>ac_backend := Some ((case ac_backend config of Some b \<Rightarrow> b | None \<Rightarrow> default_backend_config)\<lparr>bc_url := u\<rparr>)\<rparr>,
               [''backend-url='' @ u]))"

fun mode_debug :: "streaming_mode \<Rightarrow> string" where
  "mode_debug streaming_mode.Disabled = ''Disabled''"
| "mode_debug streaming_mode.Fake = ''Fake''"
| "mode_debug streaming_mode.Passthrough = ''Passthrough''"

text \<open>An unknown mode ends the process.\<close>

definition override_streaming ::
  "(string \<Rightarrow> string) \<Rightarrow> string option \<Rightarrow> app_config \<Rightarrow> (app_config \<times> string list, string) result" where
  "override_streaming lower mode config =
     map_sum id (\<lambda>m. (config\<lparr>ac_streaming := m\<rparr>, if mode \<noteq> None then [''streaming='' @ mode_debug m] else []))
       (resolve_mode lower mode (ac_streaming config))"

definition override_dump :: "string option \<Rightarrow> app_config \<Rightarrow> app_config" where
  "override_dump path config = (case path of
       None \<Rightarrow> config
     | Some p \<Rightarrow> config\<lparr>ac_dump := (ac_dump config)\<lparr>dc_enabled := True, dc_path := from_utf8_lossy p\<rparr>\<rparr>)"

text \<open>The merged configuration and the list of the applied overrides; the dump directory is not listed.\<close>

definition apply_overrides ::
  "(string \<Rightarrow> string) \<Rightarrow> run_args \<Rightarrow> app_config \<Rightarrow> (app_config \<times> string list, string) result" where
  "apply_overrides lower args config =
     (let (c1, o1) = override_port (arg_port args) config;
          (c2, o2) = override_backend_url (arg_backend_url args) c1 in
      map_sum id (\<lambda>(c3, o3). (override_dump (arg_dump args) c3, o1 @ o2 @ o3))
        (override_streaming lower (arg_streaming_mode args) c2))"

definition validate_final :: "loader_env \<Rightarrow> app_config \<Rightarrow> (unit, string) result" where
  "validate_final env cfg =
     (if sc_port (ac_server cfg) = 0
      then Err ''server port 0 is not supported (ephemeral-port bind is out of scope): pick a fixed port 1-65535''
      else and_check
        (case ac_backend cfg of
           None \<Rightarrow> Ok ()
         | Some b \<Rightarrow>
             if trim (bc_url b) = [] then Err ''backend url must not be empty''
             else map_sum config_error_text id (validate_http_url env (bc_url b) ''Backend''))
        (case ac_augment_backend cfg of
           None \<Rightarrow> Ok ()
         | Some a \<Rightarrow> map_sum config_error_text id (validate_http_url env (ab_url a) ''Augment backend'')))"

definition load_config_or_exit :: "loader_env \<Rightarrow> string \<Rightarrow> (app_config, string list) result" where
  "load_config_or_exit env path = map_sum (\<lambda>e.
       [''Error loading configuration: '' @ config_error_text e,
        [],
        ''Make sure you have a config.yaml file.'',
        ''You can copy config.yaml.default and modify it:'',
        ''  cp config.yaml.default config.yaml'']) id (load_config env path)"

section \<open>The summary\<close>

definition debug_strings :: "loader_env \<Rightarrow> string list \<Rightarrow> string" where
  "debug_strings env ss = ''['' @ join '', '' (map (debug_str env) ss) @ '']''"

definition mapping_text :: "loader_env \<Rightarrow> backend_group_config \<Rightarrow> string" where
  "mapping_text env grp = (if gc_mappings grp = [] then ''catch-all'' else debug_strings env (gc_mappings grp))"

definition summary_group :: "loader_env \<Rightarrow> string \<times> backend_group_config \<Rightarrow> string list" where
  "summary_group env e = (let (name, grp) = e in
     (''  Group ['' @ name @ '']: mappings='' @ mapping_text env grp @ '' strategy='' @ gc_strategy grp
        @ '' nodes='' @ digits (length (gc_nodes grp)))
     # map (\<lambda>(i, node). ''    Node ['' @ digits i @ '']: '' @ trim_end_matches (CHR ''/'') (nc_url node))
         (List.enumerate 0 (gc_nodes grp)))"

definition summary_backend :: "loader_env \<Rightarrow> app_config \<Rightarrow> string list" where
  "summary_backend env config = (case ac_backends config of
       Some backends \<Rightarrow> (''Backend: multi-group mode ('' @ digits (length backends) @ '' group(s))'')
         # concat (map (summary_group env) backends)
     | None \<Rightarrow> (case ac_backend config of
         Some b \<Rightarrow> (''Backend: single '' @ backend_config_base_url b @ '' (timeout '' @ u64_text (bc_timeout_seconds b) @ ''s)'')
           # (case bc_tls b of
                None \<Rightarrow> []
              | Some t \<Rightarrow> [''  TLS: accept_invalid_certs='' @ bool_text (accept_invalid_certs t)
                   @ '' ca_cert='' @ some_or (ca_cert_path t) ''none'' @ '' client_cert='' @ some_or (client_cert_path t) ''none''])
       | None \<Rightarrow> [''Backend: none configured '' @ DASH @ '' completion requests answer 503'']))"

definition reprompt_asked :: "app_config \<Rightarrow> bool" where
  "reprompt_asked config = (case ac_reprompt config of Some r \<Rightarrow> rc_enabled r | None \<Rightarrow> False)"

definition summary_streaming :: "app_config \<Rightarrow> string list" where
  "summary_streaming config =
     (''Streaming: mode='' @ mode_as_str (ac_streaming config) @ '' effective='' @ effective_label (ac_streaming config)
        @ '' honored_on='' @ (if is_passthrough (ac_streaming config) then ''/v1/chat/completions with stream:true''
            else ''all streaming clients''))
     # (if is_passthrough (ac_streaming config)
        then [''  Anthropic /v1/messages: buffered + synthesized (no OpenAI->Anthropic SSE translator yet)'',
              ''  Fixes on this path: '' @ (if fc_enabled (ac_fixes config) then ''enabled'' else ''disabled in config'')
                @ '' - DETECT ONLY, not repaired (passthrough_fix_unrepaired_total)'',
              ''  Reprompt on the streamed path: cannot run'' @ (if reprompt_asked config
                then '' - config asks for enabled: true; it still runs on non-streaming and /v1/messages'' else [])]
        else [])"

fun stats_format_debug :: "stats_format \<Rightarrow> string" where
  "stats_format_debug StatsPretty = ''Pretty''"
| "stats_format_debug StatsJson = ''Json''"
| "stats_format_debug StatsCompact = ''Compact''"

definition summary_fixes :: "fixes_config \<Rightarrow> string list" where
  "summary_fixes f = (''Fixes: enabled='' @ bool_text (fc_enabled f) @ '' modules='' @ digits (length (fc_modules f)))
     # map (\<lambda>(name, module). ''  '' @ name @ '': '' @ bool_text (fm_enabled module)) (fc_modules f)"

definition render_config_summary :: "loader_env \<Rightarrow> app_config \<Rightarrow> string list" where
  "render_config_summary env config =
     (''Server: '' @ sc_host (ac_server config) @ '':'' @ digits (unat (sc_port (ac_server config))))
     # summary_backend env config
     @ summary_fixes (ac_fixes config)
     @ summary_streaming config
     @ [''Stats: enabled='' @ bool_text (st_enabled (ac_stats config)) @ '' format='' @ stats_format_debug (st_format (ac_stats config)),
        ''InfluxDB exporter: enabled='' @ bool_text (ic_enabled (ac_influxdb config)) @ '' url='' @ ic_url (ac_influxdb config)
          @ '' org='' @ ic_org (ac_influxdb config) @ '' bucket='' @ ic_bucket (ac_influxdb config)]"

text \<open>What the pass-through mode gives up: whether it is a warning, and the text.\<close>

definition gives_up :: "app_config \<Rightarrow> string list" where
  "gives_up config =
     (if fc_enabled (ac_fixes config)
      then [''on that path fixes DETECT but do NOT repair (passthrough_fix_unrepaired_total)''] else [])
     @ (if reprompt_asked config
        then [''on that path reprompt cannot run - it needs the complete JSON body. Non-streaming and /v1/messages requests still reprompt'']
        else [])"

definition mode_notice :: "app_config \<Rightarrow> (bool \<times> string) option" where
  "mode_notice config =
     (if \<not> is_passthrough (ac_streaming config) then None
      else Some (fc_enabled (ac_fixes config) \<or> reprompt_asked config,
        ''streaming: passthrough forwards backend SSE verbatim for /v1/chat/completions with stream:true. ''
        @ ''Everything else (non-streaming, /v1/messages) stays buffered + synthesized. ''
        @ (if gives_up config = [] then ''Nothing configured is bypassed by this mode.''
           else ''This mode gives up on the streamed path: '' @ join ''; '' (gives_up config)
             @ ''. Want repair + premature-stop recovery there? use: streaming: fake'')))"

definition check_config :: "loader_env \<Rightarrow> string \<Rightarrow> (string list, string list) result" where
  "check_config env path = map_sum (\<lambda>e. [CROSS @ '' Configuration error: '' @ config_error_text e])
     (\<lambda>config. (TICK @ '' Configuration file is valid'') # [] # render_config_summary env config) (load_config env path)"

section \<open>The fix modules\<close>

record fix_module_state =
  ms_name :: string
  ms_description :: string
  ms_enabled :: bool

definition fix_description :: "string \<Rightarrow> string" where
  "fix_description name =
     (if name = ''toolcall_bad_filepath'' then ''Fixes duplicate/malformed filePath in Qwen3-Coder tool calls''
      else if name = ''toolcall_malformed_arguments''
      then ''Fixes malformed tool call arguments with invalid property names like `{}'' @ DQ @ ''`''
      else ''Fixes null or missing index fields in tool calls by assigning sequential indices'')"

definition fix_module_states :: "fix_registry \<Rightarrow> fix_registry \<Rightarrow> fix_module_state list" where
  "fix_module_states catalog constructed = map (\<lambda>f. \<lparr>ms_name = rf_name f, ms_description = fix_description (rf_name f),
      ms_enabled = is_enabled constructed (rf_name f)\<rparr>) (fr_fixes catalog)"

definition module_lines :: "bool \<Rightarrow> fix_module_state \<Rightarrow> string list" where
  "module_lines verbose s =
     (if verbose then [''  '' @ ms_name s @ '':'', ''    '' @ ms_description s, ''    Enabled: '' @ bool_text (ms_enabled s), []]
      else [''  '' @ pad_right 30 (ms_name s) @ '' '' @ (if ms_enabled s then ''[enabled]'' else ''[disabled]'')
              @ '' - '' @ ms_description s])"

text \<open>\<open>is_file\<close> is the answer of \<^verbatim>\<open>Path::is_file\<close> for the configuration's path.\<close>

definition list_fixes ::
  "loader_env \<Rightarrow> serde_env \<Rightarrow> slot_finder \<Rightarrow> bool \<Rightarrow> string \<Rightarrow> bool \<Rightarrow> (string list, string list) result" where
  "list_fixes env senv find_slots is_file path verbose =
     map_sum id (\<lambda>(note, fixes_cfg).
         note @ [''Available response fix modules:'', []]
         @ concat (map (module_lines verbose)
             (fix_module_states (create_default_registry senv find_slots) (create_registry_from_config senv find_slots fixes_cfg)))
         @ (if verbose then [[], ''To enable/disable fixes, edit your config.yaml:'', [], ''fixes:'', ''  enabled: true'',
              ''  modules:'', ''    toolcall_bad_filepath:'', ''      enabled: true''] else []))
       (if is_file then map_sum id (\<lambda>c. ([], ac_fixes c)) (load_config_or_exit env path)
        else Ok ([''note: no config file at '' @ path @ '' - showing default state (every module enabled)'', []], default_fixes_config))"

section \<open>Probing the backends\<close>

definition models_probe_body_outcome :: "loader_env \<Rightarrow> serde_env \<Rightarrow> string \<Rightarrow> bool \<times> string list" where
  "models_probe_body_outcome env senv body =
     (case Option.bind (parse_value senv body) (\<lambda>v. get_array v ''data'') of
        Some models \<Rightarrow> (True, (''    Available models: '' @ digits (length models))
            # List.map_filter (\<lambda>m. map_option (\<lambda>i. ''      - '' @ i) (get_str m ''id'')) (take 5 models))
      | None \<Rightarrow> (False, [''  '' @ CROSS @ '' /v1/models: 200 but the body is not a model list (no data[] array)'',
            ''    body starts: '' @ debug_str env (concat (take 120 (chars body)))]))"

definition is_2xx :: "get_reply \<Rightarrow> bool" where
  "is_2xx r = (200 \<le> g_status r \<and> g_status r < 300)"

definition probe_health :: "(get_reply, string) result \<Rightarrow> string list \<times> nat" where
  "probe_health answer = (case answer of
       Inr resp \<Rightarrow>
         if is_2xx resp
         then ((''  '' @ TICK @ '' Reachable ('' @ g_status_text resp @ '')'')
               # (case g_body resp of Inr body \<Rightarrow> [''    Response: '' @ trim body] | Inl _ \<Rightarrow> []), 0)
         else ([''  '' @ CROSS @ '' Error status: '' @ g_status_text resp], 1)
     | Inl e \<Rightarrow> ([''  '' @ CROSS @ '' Failed to connect: '' @ e], 1))"

definition probe_models :: "loader_env \<Rightarrow> serde_env \<Rightarrow> (get_reply, string) result \<Rightarrow> string list \<times> nat" where
  "probe_models env senv answer = (case answer of
       Inr resp \<Rightarrow>
         if is_2xx resp
         then (let body = (case g_body resp of Inr b \<Rightarrow> b | Inl _ \<Rightarrow> []);
                   (list_ok, details) = models_probe_body_outcome env senv body in
               ((''  '' @ TICK @ '' /v1/models answered '' @ g_status_text resp) # details, if list_ok then 0 else 1))
         else ([''  '' @ CROSS @ '' /v1/models returned: '' @ g_status_text resp], 1)
     | Inl e \<Rightarrow> ([''  '' @ CROSS @ '' /v1/models error: '' @ e], 1))"

definition probe_one_node :: "loader_env \<Rightarrow> serde_env \<Rightarrow> net \<Rightarrow> 'c backend_node \<Rightarrow> string list \<times> nat" where
  "probe_one_node env senv http node =
     (let health_url = base_url node @ effective_path node ''/health'';
          models_url = base_url node @ effective_path node ''/v1/models'';
          (lines1, f1) = probe_health (http health_url []);
          (lines2, f2) = probe_models env senv (http models_url []) in
      ((''  Testing '' @ effective_path node ''/health'' @ '': '' @ health_url) # lines1
       @ (''  Testing '' @ effective_path node ''/v1/models'' @ '': '' @ models_url) # lines2, f1 + f2))"

text \<open>One node: printed lines, and the failed probes of its two.\<close>

definition test_node ::
  "('cert, 'ident, 'c) startup_env \<Rightarrow> string \<Rightarrow> backend_node_config \<Rightarrow> (string list \<times> nat, string) result" where
  "test_node su label cfg =
     and_then (node_from_config (su_clients su) (su_now su) (nc_url cfg) 5 (nc_tls cfg) (nc_model cfg) (nc_api_key cfg)
                (nc_strip_path_prefix cfg) (nc_temperature cfg)) (\<lambda>node.
       let (printed, failed) = probe_one_node (su_loader su) (su_serde su) (su_http su) node in
       Ok ((''['' @ label @ '']: '' @ base_url node) # printed, failed))"

text \<open>The counts of probes and failures, with what was printed before a node could not be built.\<close>

fun test_nodes ::
  "('cert, 'ident, 'c) startup_env \<Rightarrow> (string \<times> backend_node_config) list \<Rightarrow> string list \<times> (nat \<times> nat, string) result" where
  "test_nodes su [] = ([], Ok (0, 0))"
| "test_nodes su ((label, cfg) # rest) = (case test_node su label cfg of
       Inl e \<Rightarrow> ([], Err e)
     | Inr (printed, failed) \<Rightarrow>
         (let (lines, r) = test_nodes su rest in
          (printed @ [] # lines, map_sum id (\<lambda>(probes, failures). (probes + 2, failures + failed)) r)))"

definition single_node_config :: "backend_config \<Rightarrow> backend_node_config" where
  "single_node_config b = \<lparr>nc_url = bc_url b, nc_timeout_seconds = bc_timeout_seconds b, nc_tls = bc_tls b, nc_model = bc_model b,
     nc_api_key = bc_api_key b, nc_strip_path_prefix = bc_strip_path_prefix b, nc_temperature = None\<rparr>"

definition test_targets :: "app_config \<Rightarrow> (string \<times> backend_node_config) list" where
  "test_targets config = (case ac_backends config of
       Some backends \<Rightarrow> concat (map (\<lambda>(name, grp). map (\<lambda>c. (name, c)) (gc_nodes grp)) backends)
     | None \<Rightarrow> (case ac_backend config of Some b \<Rightarrow> [(''single'', single_node_config b)] | None \<Rightarrow> []))"

definition test_intro :: "app_config \<Rightarrow> string list" where
  "test_intro config = (case ac_backends config of
       Some backends \<Rightarrow>
         [''Testing '' @ digits (sum_list (map (\<lambda>(_, grp). length (gc_nodes grp)) backends)) @ '' backend node(s) across ''
            @ digits (length backends) @ '' group(s)...'', []]
     | None \<Rightarrow> (case ac_backend config of
           Some b \<Rightarrow> [''Testing single backend...'', []]
         | None \<Rightarrow> [''No backend configured '' @ DASH @ '' nothing to test.'']))"

text \<open>In grouped mode every node's report is followed by an empty line, the single one's is not.\<close>

definition test_backend ::
  "('cert, 'ident, 'c) startup_env \<Rightarrow> string \<Rightarrow> string list \<times> (unit, string list) result" where
  "test_backend su path = (case load_config_or_exit (su_loader su) path of
       Inl es \<Rightarrow> ([], Err es)
     | Inr config \<Rightarrow>
         (let (printed, r) = test_nodes su (test_targets config);
              shown = (if ac_backends config = None then (if printed = [] then [] else butlast printed) else printed) in
          case r of
            Inl e \<Rightarrow> (test_intro config @ shown, Err [e])
          | Inr (probes, failures) \<Rightarrow>
              if failures > 0
              then (test_intro config @ shown,
                    Err [''test-backend: '' @ digits failures @ '' of '' @ digits probes @ '' probe(s) failed''])
              else (test_intro config @ shown
                    @ (if probes > 0 then [TICK @ '' all '' @ digits probes @ '' probe(s) passed''] else []), Ok ())))"

end
