(* ===== verification/Server_Assembly.thy ===== *)
theory Server_Assembly
  imports Startup
begin

text \<open>
  The server's assembly and its life (\<^verbatim>\<open>llama-proxy/src/proxy/server.rs\<close>, with \<^verbatim>\<open>run_proxy\<close> of
  \<^verbatim>\<open>llama-proxy/src/main.rs\<close>): the shared state built from the configuration, the address to listen on, the
  allowed origins, and the serve loop with its three-tier shutdown.

  The serve loop is a step function over an explicit state: a label names what happens next (a connection is
  accepted or ends, the signal arrives, the grace runs out, a task of a handler runs), and a history is a list
  of labels. A label that cannot happen in a state has no result.
\<close>

section \<open>The listening address\<close>

datatype io_error = Invalid_Input string | Addr_Not_Available string | Other_Io string

definition is_loopback :: "ip_addr \<Rightarrow> bool" where
  "is_loopback a = (case a of V4 w \<Rightarrow> drop_bit 24 w = 127 | V6 w \<Rightarrow> w = 1)"

definition prefer_loopback :: "socket_addr list \<Rightarrow> socket_addr list" where
  "prefer_loopback addrs = (let (loopback, rest) = partition (\<lambda>a. is_loopback (fst a)) addrs in loopback @ rest)"

definition bare_host :: "string \<Rightarrow> string" where
  "bare_host host = some_or (Option.bind (strip_prefix host ''['') (\<lambda>h. strip_suffix h '']'')) host"

definition resolve_bind_addr :: "loader_env \<Rightarrow> net_env \<Rightarrow> string \<Rightarrow> 16 word \<Rightarrow> (socket_addr list, io_error) result" where
  "resolve_bind_addr env nenv host port =
     (case parse_ipv4 nenv (bare_host host) of
        Some w \<Rightarrow> Ok [(V4 w, port)]
      | None \<Rightarrow> (case parse_ipv6 nenv (bare_host host) of
          Some w \<Rightarrow> Ok [(V6 w, port)]
        | None \<Rightarrow>
            and_then (map_sum (\<lambda>e. Invalid_Input (config_error_text e)) id (validate_bind_host env host)) (\<lambda>_.
            and_then (map_sum Other_Io prefer_loopback (lookup_host nenv (bare_host host) port)) (\<lambda>addrs.
              if addrs = []
              then Err (Addr_Not_Available (''host '' @ APOS @ host @ APOS @ '' resolved to no bindable address on port ''
                     @ digits (unat port)))
              else Ok addrs))))"

fun bind_first :: "net_env \<Rightarrow> socket_addr list \<Rightarrow> io_error \<Rightarrow> (socket_addr, io_error) result" where
  "bind_first nenv [] last_err = Err last_err"
| "bind_first nenv (addr # addrs) last_err = (case bind_socket nenv addr of
       Inr local_addr \<Rightarrow> map_sum Other_Io id local_addr
     | Inl e \<Rightarrow> bind_first nenv addrs (Other_Io e))"

definition bind_addr :: "loader_env \<Rightarrow> net_env \<Rightarrow> string \<Rightarrow> 16 word \<Rightarrow> (socket_addr, io_error) result" where
  "bind_addr env nenv host port = and_then (resolve_bind_addr env nenv host port) (\<lambda>candidates.
     bind_first nenv candidates (Addr_Not_Available ''no bind candidates''))"

section \<open>Allowed origins\<close>

datatype cors_origins = Any_Origin | Only "string list"

definition build_cors_layer :: "(string \<Rightarrow> bool) \<Rightarrow> string list option \<Rightarrow> cors_origins" where
  "build_cors_layer header_value allowed_origins = (case allowed_origins of
       None \<Rightarrow> Any_Origin
     | Some entries \<Rightarrow> Only (filter (\<lambda>e. e \<noteq> ''*'' \<and> header_value e) entries))"

section \<open>The shared state\<close>

definition no_contexts :: ctx_state where
  "no_contexts = \<lparr>ctx_cache = (\<lambda>_. None), ctx_evictions = 0, ctx_stale_skips = 0, ctx_probe_timeouts = 0, ctx_warned = []\<rparr>"

text \<open>The balancer, the configuration as the model discovery left it, and the context windows it cached.\<close>

definition build_dispatcher ::
  "('cert, 'ident, 'c) startup_env \<Rightarrow> app_config \<Rightarrow> ('c dispatcher \<times> app_config \<times> ctx_state, string) result" where
  "build_dispatcher su config = (case ac_backends config of
       Some backends \<Rightarrow>
         (let (backends', ctx) = run_preflight_multi (su_clients su) (su_serde su) (su_http su) (su_later su) True backends no_contexts in
          map_sum id (\<lambda>gs. (Grouped gs, config\<lparr>ac_backends := Some backends'\<rparr>, ctx))
            (build_balancer_from_groups (su_clients su) (su_now su) backends'))
     | None \<Rightarrow> (case ac_backend config of
         Some b \<Rightarrow>
           map_sum id (\<lambda>bal. (Single bal, config,
               run_preflight_single (su_clients su) (su_serde su) (su_http su) (su_later su) True b no_contexts))
             (build_balancer_from_single (su_clients su) (su_now su) (bc_url b) (bc_timeout_seconds b) (bc_tls b) (bc_model b)
                (bc_api_key b) (bc_strip_path_prefix b))
       | None \<Rightarrow> map_sum id (\<lambda>gs. (Grouped gs, config, no_contexts)) (grouped_new (su_clients su) (su_now su) [])))"

text \<open>A backend for augmentation or an engine that cannot be built is logged and left out.\<close>

definition configured_augment ::
  "(duration \<Rightarrow> ('c, string) result) \<Rightarrow> app_config \<Rightarrow> 'c augment_backend option" where
  "configured_augment build config = (case ac_augment_backend config of
       None \<Rightarrow> None
     | Some a \<Rightarrow> if ab_enabled a then (case augment_from_config build a of Inr b \<Rightarrow> Some b | Inl _ \<Rightarrow> None) else None)"

definition configured_reprompt :: "(string \<Rightarrow> (string, string) result) \<Rightarrow> app_config \<Rightarrow> reprompt_engine option" where
  "configured_reprompt read_text config = (case ac_reprompt config of
       None \<Rightarrow> None
     | Some r \<Rightarrow> if rc_enabled r then (case reprompt_from_config read_text r of Inr e \<Rightarrow> Some e | Inl _ \<Rightarrow> None) else None)"

definition zero_counters :: stream_counters where
  "zero_counters = \<lparr>sse_events_total = 0, sse_unparsed_events_total = 0, stream_truncated_total = 0, stream_stalled_total = 0,
     fix_unrepaired_total = 0, stream_compressed_total = 0, stream_client_gone_total = 0, passthrough_streams_total = 0\<rparr>"

text \<open>\<^verbatim>\<open>ProxyState\<close> with the statics of a new process. The outer \<open>None\<close> is the panic of \<^verbatim>\<open>Semaphore::new\<close>.\<close>

definition initial_state :: "nat \<Rightarrow> app_config \<Rightarrow> 'c dispatcher \<Rightarrow> ctx_state \<Rightarrow> reprompt_engine option \<Rightarrow> 'c proxy_state option" where
  "initial_state max_permits config balancer ctx engine =
     (let n = unat (sc_max_concurrent_requests (ac_server config)) in
      if n > max_permits then None
      else Some \<lparr>load_balancer_state = balancer, concurrent_requests = 0, backend_streaming_fallback_hits = 0,
        openai_stream_passthrough_total = 0, backend_nonsse_when_streamed_for = 0, anthropic_buffered_responses_total = 0,
        anthropic_buffered_notice_once = False, vram_estimate_served_total = 0, vram_estimate_unknown_total = 0,
        rejected_requests = 0, permits = (if n > 0 then Some n else None), stream_stats = zero_counters,
        context_windows = ctx, kv_cache = \<lparr>kv_info = (\<lambda>_. None), kv_warned = []\<rparr>, reprompt_state = engine,
        reprompt_totals = \<lparr>skipped_read_only_total = 0, triggered_total = 0, exhausted_total = 0\<rparr>,
        prompt_store = (\<lambda>_. None), exports = \<lparr>exports_skipped_total = 0, prefill_implausible_total = 0\<rparr>,
        sent = [], exported = []\<rparr>)"

record 'c server =
  srv_handler :: "'c handler_config"
  srv_state :: "'c proxy_state"
  srv_exporters :: "queue_state list"
  srv_addr :: socket_addr
  srv_origins :: cors_origins
  srv_leftover :: "(string \<times> string) list"      \<comment> \<open>the fix options named in the log as ignored\<close>
  srv_hide_requests :: bool
  srv_log_augmented :: bool

datatype run_error = Build_Error string | Bind_Error io_error

text \<open>\<^verbatim>\<open>run_server\<close> up to the serve loop.\<close>

definition run_server ::
  "('cert, 'ident, 'c) startup_env \<Rightarrow> app_config \<Rightarrow> fix_registry \<Rightarrow> queue_state list \<Rightarrow> bool \<Rightarrow> bool
     \<Rightarrow> ('c server, run_error) result option" where
  "run_server su config registry exporters hide log_augmented =
     (case build_dispatcher su config of
        Inl e \<Rightarrow> Some (Err (Build_Error e))
      | Inr (balancer, config', ctx) \<Rightarrow>
          map_option (\<lambda>st.
              map_sum Bind_Error (\<lambda>addr.
                \<lparr>srv_handler = \<lparr>hc_config = config', hc_registry = registry,
                    hc_augment = configured_augment (su_augment_client su) config',
                    hc_dump = (dc_enabled (ac_dump config') \<and> dc_path (ac_dump config') \<noteq> [])\<rparr>,
                 srv_state = st, srv_exporters = exporters, srv_addr = addr,
                 srv_origins = build_cors_layer (su_header_value su) (sc_allowed_origins (ac_server config')),
                 srv_leftover = leftover_fix_module_options (ac_fixes config'),
                 srv_hide_requests = hide, srv_log_augmented = log_augmented\<rparr>)
              (bind_addr (su_loader su) (su_net su) (sc_host (ac_server config')) (sc_port (ac_server config'))))
            (initial_state (su_max_permits su) config' balancer ctx
               (configured_reprompt (read_to_string (su_loader su)) config')))"

definition influxdb_startup_gate :: "bool \<Rightarrow> bool \<Rightarrow> string \<Rightarrow> string option" where
  "influxdb_startup_gate feature enabled path =
     (if \<not> feature \<and> enabled
      then Some (''exporters.influxdb.enabled is true but this binary was built without the ''
        @ ''`influxdb` cargo feature '' @ DASH @ '' rebuild with `cargo build --features influxdb` ''
        @ ''or set exporters.influxdb.enabled: false in '' @ path)
      else None)"

datatype 'c run_outcome =
    Exited "string list"          \<comment> \<open>lines on standard error, status 1\<close>
  | Failed run_error              \<comment> \<open>the error \<^verbatim>\<open>main\<close> returns\<close>
  | Panicked
  | Listening "'c server"

text \<open>An exporter that cannot be built is logged and left out.\<close>

definition run_exporters :: "loader_env \<Rightarrow> bool \<Rightarrow> influxdb_config \<Rightarrow> string \<Rightarrow> (queue_state list, string) result" where
  "run_exporters env feature c path =
     (if \<not> ic_enabled c then Ok []
      else case influxdb_startup_gate feature (ic_enabled c) path of
             Some msg \<Rightarrow> Err (''Error: '' @ msg)
           | None \<Rightarrow> Ok (case influx_new env c of Inr q \<Rightarrow> [q] | Inl _ \<Rightarrow> []))"

definition run_proxy :: "('cert, 'ident, 'c) startup_env \<Rightarrow> string \<Rightarrow> run_args \<Rightarrow> 'c run_outcome" where
  "run_proxy su path args = (case load_config_or_exit (su_loader su) path of
       Inl es \<Rightarrow> Exited es
     | Inr config \<Rightarrow> (case apply_overrides (su_lower su) args config of
           Inl e \<Rightarrow> Exited [e]
         | Inr (cfg, applied) \<Rightarrow> (case validate_final (su_loader su) cfg of
               Inl e \<Rightarrow> Exited [''Error: '' @ e]
             | Inr _ \<Rightarrow>
                 (let registry = create_registry_from_config (su_serde su) (su_slots su) (ac_fixes cfg) in
                  case run_exporters (su_loader su) (su_influxdb su) (ac_influxdb cfg) path of
                    Inl e \<Rightarrow> Exited [e]
                  | Inr exporters \<Rightarrow>
                      (case run_server su cfg registry exporters (arg_hide_requests args) (arg_log_augmented_request_text args) of
                         None \<Rightarrow> Panicked
                       | Some (Inl e) \<Rightarrow> Failed e
                       | Some (Inr s) \<Rightarrow> Listening s)))))"

section \<open>The serve loop\<close>

datatype serve_phase = Accepting | In_Drain | Drain_Done | Exporters_Closed | Process_Gone

record serve_state =
  sv_phase :: serve_phase
  sv_conns :: "nat list"                      \<comment> \<open>the connection tasks of the \<^verbatim>\<open>JoinSet\<close>\<close>
  sv_graceful :: "nat list"                   \<comment> \<open>of them, those asked to stop after their current response\<close>
  sv_exports :: "request_metrics list"        \<comment> \<open>detached export tasks that have not run yet\<close>
  sv_queue :: queue_state                     \<comment> \<open>the exporter\<close>
  sv_sampled :: "request_metrics list"        \<comment> \<open>history: samples whose export was spawned\<close>
  sv_offered :: "request_metrics list"        \<comment> \<open>history: samples the exporter was offered while open\<close>
  sv_late :: "request_metrics list"           \<comment> \<open>history: samples answered with \<^verbatim>\<open>ShutDown\<close>\<close>

datatype serve_label =
    Accept nat | Finish nat | Spawn_Export nat request_metrics | Run_Export nat | Signal | Ask nat | Grace_Over
  | Close_Exporters | Join_Over | Worker_Moves bool

definition serving :: serve_state where
  "serving = \<lparr>sv_phase = Accepting, sv_conns = [], sv_graceful = [], sv_exports = [], sv_queue = spawn,
     sv_sampled = [], sv_offered = [], sv_late = []\<rparr>"

text \<open>The detached task hands its sample to the exporter.\<close>

definition run_export :: "request_metrics \<Rightarrow> serve_state \<Rightarrow> serve_state" where
  "run_export m s = (case enqueue m (sv_queue s) of
       (Shut_Down, q) \<Rightarrow> s\<lparr>sv_queue := q, sv_late := sv_late s @ [m]\<rparr>
     | (_, q) \<Rightarrow> s\<lparr>sv_queue := q, sv_offered := sv_offered s @ [m]\<rparr>)"

fun serve_step :: "influx_env \<Rightarrow> serve_label \<Rightarrow> serve_state \<Rightarrow> serve_state option" where
  "serve_step env (Accept c) s =
     (if sv_phase s = Accepting \<and> c \<notin> set (sv_conns s) then Some (s\<lparr>sv_conns := sv_conns s @ [c]\<rparr>) else None)"
| "serve_step env (Finish c) s =
     (if c \<in> set (sv_conns s)
      then (let rest = remove1 c (sv_conns s) in
            Some (s\<lparr>sv_conns := rest, sv_graceful := removeAll c (sv_graceful s),
                    sv_phase := (if sv_phase s = In_Drain \<and> rest = [] then Drain_Done else sv_phase s)\<rparr>))
      else None)"
| "serve_step env (Spawn_Export c m) s =
     (if c \<in> set (sv_conns s) then Some (s\<lparr>sv_exports := sv_exports s @ [m], sv_sampled := sv_sampled s @ [m]\<rparr>) else None)"
| "serve_step env (Run_Export i) s =
     (if i < length (sv_exports s)
      then Some (run_export (sv_exports s ! i) (s\<lparr>sv_exports := take i (sv_exports s) @ drop (Suc i) (sv_exports s)\<rparr>))
      else None)"
| "serve_step env Signal s =
     (if sv_phase s = Accepting then Some (s\<lparr>sv_phase := (if sv_conns s = [] then Drain_Done else In_Drain)\<rparr>) else None)"
| "serve_step env (Ask c) s =
     (if sv_phase s = In_Drain \<and> c \<in> set (sv_conns s) then Some (s\<lparr>sv_graceful := c # sv_graceful s\<rparr>) else None)"
| "serve_step env Grace_Over s =
     (if sv_phase s = In_Drain then Some (s\<lparr>sv_phase := Drain_Done, sv_conns := [], sv_graceful := []\<rparr>) else None)"
| "serve_step env Close_Exporters s =
     (if sv_phase s = Drain_Done then Some (s\<lparr>sv_phase := Exporters_Closed, sv_queue := close_samples (sv_queue s)\<rparr>) else None)"
| "serve_step env Join_Over s =
     (if sv_phase s = Exporters_Closed then Some (s\<lparr>sv_phase := Process_Gone, sv_exports := []\<rparr>) else None)"
| "serve_step env (Worker_Moves ok) s =
     (if sv_phase s \<noteq> Process_Gone then Some (s\<lparr>sv_queue := worker_step env ok (sv_queue s)\<rparr>) else None)"

fun serve_run :: "influx_env \<Rightarrow> serve_label list \<Rightarrow> serve_state \<Rightarrow> serve_state option" where
  "serve_run env [] s = Some s"
| "serve_run env (l # ls) s = Option.bind (serve_step env l s) (serve_run env ls)"

end
