(* ===== verification/Startup_Correct.thy ===== *)
theory Startup_Correct
  imports Server_Assembly
begin

text \<open>
  What the start of the proxy guarantees: the merged configuration against the loader's check, the start from an
  accepted configuration, the listening address, the order of the shutdown, what the commands \<^verbatim>\<open>list-fixes\<close>,
  \<^verbatim>\<open>check-config\<close> and \<^verbatim>\<open>test-backend\<close> report.
\<close>

section \<open>Overrides and the last check\<close>

lemma map_sum_id_ok: "is_ok (map_sum f id r) = is_ok r"
  by (cases r) simp_all

lemma validate_final_ok:
  "is_ok (validate_final env c) \<longleftrightarrow> sc_port (ac_server c) \<noteq> 0
     \<and> is_none_or (\<lambda>b. trim (bc_url b) \<noteq> [] \<and> http_url_ok env (bc_url b)) (ac_backend c)
     \<and> is_none_or (\<lambda>a. http_url_ok env (ab_url a)) (ac_augment_backend c)"
  by (auto simp: validate_final_def check_simps map_sum_id_ok is_none_or_def split: option.splits)

lemma override_port_fields:
  "fst (override_port p c) = c\<lparr>ac_server := (ac_server c)\<lparr>sc_port := some_or p (sc_port (ac_server c))\<rparr>\<rparr>"
  by (simp add: override_port_def some_or_def split: option.splits)

text \<open>The merged configuration, field by field.\<close>

definition merged_backend :: "string option \<Rightarrow> app_config \<Rightarrow> backend_config option" where
  "merged_backend url c = (case (url, ac_backends c) of
       (Some u, None) \<Rightarrow> Some (some_or (ac_backend c) default_backend_config\<lparr>bc_url := u\<rparr>)
     | _ \<Rightarrow> ac_backend c)"

lemma override_backend_url_fields:
  "fst (override_backend_url url c) = c\<lparr>ac_backend := merged_backend url c\<rparr>"
  by (auto simp: override_backend_url_def merged_backend_def some_or_def split: option.splits)

lemma apply_overrides_fields:
  assumes "apply_overrides lower args config = Inr (cfg, applied)"
  shows "ac_server cfg = (ac_server config)\<lparr>sc_port := some_or (arg_port args) (sc_port (ac_server config))\<rparr>"
    "ac_backend cfg = merged_backend (arg_backend_url args) config" "ac_backends cfg = ac_backends config"
    "ac_fixes cfg = ac_fixes config" "ac_stats cfg = ac_stats config" "ac_influxdb cfg = ac_influxdb config"
    "ac_synthesis cfg = ac_synthesis config" "ac_augment_backend cfg = ac_augment_backend config"
    "ac_reprompt cfg = ac_reprompt config"
    "ac_dump cfg = (case arg_dump args of None \<Rightarrow> ac_dump config | Some p \<Rightarrow> \<lparr>dc_enabled = True, dc_path = from_utf8_lossy p\<rparr>)"
    "resolve_mode lower (arg_streaming_mode args) (ac_streaming config) = Inr (ac_streaming cfg)"
proof -
  let ?c1 = "fst (override_port (arg_port args) config)"
  let ?c2 = "fst (override_backend_url (arg_backend_url args) ?c1)"
  obtain m where m: "resolve_mode lower (arg_streaming_mode args) (ac_streaming ?c2) = Inr m"
    "cfg = override_dump (arg_dump args) (?c2\<lparr>ac_streaming := m\<rparr>)"
    using assms by (cases "resolve_mode lower (arg_streaming_mode args) (ac_streaming ?c2)")
      (auto simp: apply_overrides_def Let_def override_streaming_def split_beta)
  have c2: "?c2 = config\<lparr>ac_server := (ac_server config)\<lparr>sc_port := some_or (arg_port args) (sc_port (ac_server config))\<rparr>,
      ac_backend := merged_backend (arg_backend_url args) config\<rparr>"
    by (simp add: override_backend_url_fields override_port_fields merged_backend_def split: option.splits)
  note f = m [unfolded c2]
  show "ac_server cfg = (ac_server config)\<lparr>sc_port := some_or (arg_port args) (sc_port (ac_server config))\<rparr>"
    "ac_backend cfg = merged_backend (arg_backend_url args) config" "ac_backends cfg = ac_backends config"
    "ac_fixes cfg = ac_fixes config" "ac_stats cfg = ac_stats config" "ac_influxdb cfg = ac_influxdb config"
    "ac_synthesis cfg = ac_synthesis config" "ac_augment_backend cfg = ac_augment_backend config"
    "ac_reprompt cfg = ac_reprompt config"
    "ac_dump cfg = (case arg_dump args of None \<Rightarrow> ac_dump config | Some p \<Rightarrow> \<lparr>dc_enabled = True, dc_path = from_utf8_lossy p\<rparr>)"
    "resolve_mode lower (arg_streaming_mode args) (ac_streaming config) = Inr (ac_streaming cfg)"
    using f by (simp_all add: override_dump_def split: option.splits)
qed

lemma http_url_merged:
  assumes "config_ok env config" "apply_overrides lower args config = Inr (cfg, applied)" "is_ok (validate_final env cfg)"
  shows "config_ok env cfg \<longleftrightarrow> (dc_enabled (ac_dump cfg) \<longrightarrow> trim (dc_path (ac_dump cfg)) \<noteq> [])"
proof -
  note f = apply_overrides_fields [OF assms(2)]
  have "server_ok env (ac_server cfg)"
    using assms(1,3) by (simp add: config_ok_def server_ok_def f(1) validate_final_ok)
  moreover have "case ac_backends cfg of Some gs \<Rightarrow> gs \<noteq> [] \<and> backends_ok env gs
      | None \<Rightarrow> is_none_or (\<lambda>b. bc_timeout_seconds b \<noteq> 0 \<and> bc_timeout_seconds b \<le> 86400 \<and> http_url_ok env (bc_url b)) (ac_backend cfg)"
    using assms(1,3) by (auto simp: config_ok_def validate_final_ok f(2,3) merged_backend_def some_or_def is_none_or_def
        default_backend_config_def word_le_nat_alt split: option.splits)
  ultimately show ?thesis using assms(1) by (simp add: config_ok_def f)
qed

text \<open>C34. The last check leaves one way past the loader's. A configuration the loader accepted, changed by any
  overrides of the command line and passed by the last check, passes the loader's own check again, except when
  the command line names a blank directory for the dumps.\<close>

theorem merged_config_still_valid:
  assumes "load_config env path = Ok config" "apply_overrides lower args config = Ok (cfg, applied)"
    "validate_final env cfg = Ok ()"
  shows "is_ok (validate_config env cfg) \<longleftrightarrow> is_none_or (\<lambda>p. trim (from_utf8_lossy p) \<noteq> []) (arg_dump args)"
proof -
  have c: "config_ok env config" using assms(1) validate_config_ok [of env config]
    by (auto simp: load_config_def is_ok_def split: sum.splits if_splits)
  have "config_ok env cfg \<longleftrightarrow> (dc_enabled (ac_dump cfg) \<longrightarrow> trim (dc_path (ac_dump cfg)) \<noteq> [])"
    using http_url_merged [OF c assms(2)] assms(3) by simp
  also have "\<dots> \<longleftrightarrow> is_none_or (\<lambda>p. trim (from_utf8_lossy p) \<noteq> []) (arg_dump args)"
    using c by (auto simp: config_ok_def apply_overrides_fields(10) [OF assms(2)] is_none_or_def split: option.splits)
  finally show ?thesis by (simp only: validate_config_ok)
qed

text \<open>A file that \<^verbatim>\<open>check-config\<close> calls valid can be refused by \<^verbatim>\<open>run\<close> without any override: the last check also
  looks at a \<^verbatim>\<open>backend:\<close> entry that the groups of \<^verbatim>\<open>backends:\<close> have put out of use.\<close>

lemma no_overrides:
  "apply_overrides lower \<lparr>arg_port = None, arg_backend_url = None, arg_streaming_mode = None, arg_hide_requests = h,
     arg_log_augmented_request_text = a, arg_dump = None\<rparr> config = Ok (config, [])"
  by (simp add: apply_overrides_def override_port_def override_backend_url_def override_streaming_def resolve_mode_def
      override_dump_def)

lemma accepted_file_refused_iff:
  assumes "load_config env path = Ok config"
  shows "is_ok (validate_final env config) \<longleftrightarrow>
     is_none_or (\<lambda>b. trim (bc_url b) \<noteq> [] \<and> (ac_backends config = None \<or> http_url_ok env (bc_url b))) (ac_backend config)"
proof -
  have "config_ok env config" using assms validate_config_ok [of env config]
    by (auto simp: load_config_def is_ok_def split: sum.splits if_splits)
  then show ?thesis
    by (auto simp: config_ok_def server_ok_def validate_final_ok is_none_or_def split: option.splits)
qed

section \<open>The start\<close>

text \<open>The model discovery fills in models and nothing else.\<close>

definition discovered_node :: "backend_node_config \<Rightarrow> backend_node_config \<Rightarrow> bool" where
  "discovered_node c c' \<longleftrightarrow> c'\<lparr>nc_model := nc_model c\<rparr> = c"

definition discovered :: "string \<times> backend_group_config \<Rightarrow> string \<times> backend_group_config \<Rightarrow> bool" where
  "discovered e e' \<longleftrightarrow> fst e' = fst e \<and> (snd e')\<lparr>gc_nodes := gc_nodes (snd e)\<rparr> = snd e
     \<and> list_all2 discovered_node (gc_nodes (snd e)) (gc_nodes (snd e'))"

lemma preflight_nodes_discovered:
  "list_all2 discovered_node cs (fst (preflight_nodes cenv env http later lf cs st))"
  by (induction cs arbitrary: st)
    (auto simp: split_beta Let_def discovered_node_def apply_auto_model_def split: option.splits)

lemma run_preflight_discovered:
  "list_all2 discovered gs (fst (run_preflight_multi cenv env http later lf gs st))"
proof (induction gs arbitrary: st)
  case (Cons e gs)
  then show ?case using preflight_nodes_discovered
    by (cases e) (auto simp: split_beta Let_def discovered_def)
qed simp

lemma discovered_same:
  assumes "discovered (n, g) (n', g')"
  shows "n' = n" "gc_mappings g' = gc_mappings g" "gc_strategy g' = gc_strategy g"
    "gc_failure_cooldown_secs g' = gc_failure_cooldown_secs g" "list_all2 discovered_node (gc_nodes g) (gc_nodes g')"
  using assms by (cases g; cases g'; simp add: discovered_def)+

lemma discovered_node_same:
  assumes "discovered_node c c'"
  shows "nc_url c' = nc_url c" "nc_timeout_seconds c' = nc_timeout_seconds c" "nc_tls c' = nc_tls c" "nc_temperature c' = nc_temperature c"
  using assms by (cases c; cases c'; simp add: discovered_node_def)+

lemma list_all2_source: "list_all2 P xs ys \<Longrightarrow> y \<in> set ys \<Longrightarrow> \<exists>x \<in> set xs. P x y"
  by (induction rule: list_all2_induct) auto

lemma discovered_group_ok:
  assumes "discovered (n, g) (n', g')" "group_config_ok env g"
  shows "group_config_ok env g'"
proof -
  note d = discovered_same [OF assms(1)]
  have "node_config_ok env c'" if "c' \<in> set (gc_nodes g')" for c'
  proof -
    from list_all2_source [OF d(5) that] obtain c where c: "c \<in> set (gc_nodes g)" "discovered_node c c'" by blast
    with assms(2) show ?thesis
      by (auto simp: group_config_ok_def node_config_ok_def discovered_node_same [OF c(2)])
  qed
  with assms(2) d show ?thesis by (auto simp: group_config_ok_def)
qed

lemma discovered_lists:
  "list_all2 discovered gs gs' \<Longrightarrow> map fst gs' = map fst gs \<and> all_mappings gs' = all_mappings gs
     \<and> catch_all_count gs' = catch_all_count gs \<and> length gs' = length gs"
proof (induction rule: list_all2_induct)
  case (Cons e gs e' gs')
  have "discovered (fst e, snd e) (fst e', snd e')" using Cons.hyps(1) by simp
  from Cons.IH discovered_same(1,2) [OF this] show ?case
    by (simp add: all_mappings_def catch_all_count_def split_beta)
qed (simp_all add: all_mappings_def catch_all_count_def)

lemma discovered_backends_ok:
  assumes "list_all2 discovered gs gs'" "backends_ok env gs"
  shows "backends_ok env gs'"
proof -
  have "group_config_ok env g'" if e': "(n', g') \<in> set gs'" for n' g'
  proof -
    from list_all2_source [OF assms(1) e'] obtain e where e: "e \<in> set gs" "discovered e (n', g')" by blast
    with assms(2) have "group_config_ok env (snd e)" by (auto simp: backends_ok_def)
    with e(2) discovered_group_ok [of "fst e" "snd e" n' g' env] show ?thesis by simp
  qed
  with assms(2) discovered_lists [OF assms(1)] show ?thesis
    by (auto simp: backends_ok_def simp flip: set_map)
qed

lemma discovered_clients_build:
  assumes "list_all2 discovered gs gs'" "clients_build cenv gs"
  shows "clients_build cenv gs'"
proof -
  have "is_ok (build_node_client cenv (nc_timeout_seconds c') (nc_tls c'))"
    if e': "(n', g') \<in> set gs'" "c' \<in> set (gc_nodes g')" for n' g' c'
  proof -
    from list_all2_source [OF assms(1) e'(1)] obtain e where e: "e \<in> set gs" "discovered e (n', g')" by blast
    then have "list_all2 discovered_node (gc_nodes (snd e)) (gc_nodes g')"
      using discovered_same(5) [of "fst e" "snd e" n' g'] by simp
    from list_all2_source [OF this e'(2)]
    obtain c where c: "c \<in> set (gc_nodes (snd e))" "discovered_node c c'" by blast
    from assms(2) e(1) c(1) have "is_ok (build_node_client cenv (nc_timeout_seconds c) (nc_tls c))"
      by (auto simp: clients_build_def)
    then show ?thesis by (simp only: discovered_node_same [OF c(2)])
  qed
  then show ?thesis by (auto simp: clients_build_def)
qed

lemma map_sort_key_fst: "map fst (sort_key fst xs) = sort (map fst xs)"
  by (intro properties_for_sort [symmetric]) (simp_all add: mset_map)

text \<open>A dispatcher that nobody uses yet and that always answers.\<close>

definition fresh_balancer :: "'c balancer \<Rightarrow> bool" where
  "fresh_balancer b \<longleftrightarrow> balancer_nodes b \<noteq> [] \<and> list_all (\<lambda>n. active_requests n = 0 \<and> healthy n) (balancer_nodes b)"

definition fresh_dispatcher :: "'c dispatcher \<Rightarrow> bool" where
  "fresh_dispatcher d = list_all fresh_balancer (balancers d)"

lemma fresh_bounded: "fresh_balancer b \<Longrightarrow> loads_bounded (balancer_nodes b)"
  by (auto simp: fresh_balancer_def loads_bounded_def list_all_iff word_less_nat_alt)

lemma fresh_selects: "fresh_balancer b \<Longrightarrow> balancer_select now b \<noteq> None"
  using any.select_total [of b now] fresh_bounded [of b] by (auto simp: fresh_balancer_def)

lemma fresh_dispatches:
  assumes "fresh_dispatcher d"
  shows "dispatch now d model \<noteq> None"
proof (cases d)
  case (Single b)
  with assms fresh_selects [of b now] show ?thesis
    by (simp add: dispatch_def fresh_dispatcher_def balancers_def)
next
  case (Grouped gs)
  then have "balancer_select now (bg_balancer (gs ! i)) \<noteq> None" if "i < length gs" for i
    using assms that by (intro fresh_selects) (auto simp: fresh_dispatcher_def balancers_def list_all_length)
  then show ?thesis using find_group_range [of gs model] Grouped
    by (fastforce simp: dispatch_def grouped_select_def split: option.splits)
qed

lemma fresh_loads: "fresh_dispatcher d \<Longrightarrow> dispatcher_bounded d \<and> list_all (list_all (\<lambda>n. n = 0)) (loads d)"
  by (auto simp: fresh_dispatcher_def dispatcher_bounded_def loads_def list_all_iff intro: fresh_bounded)
    (auto simp: fresh_balancer_def list_all_iff)

text \<open>The client of every configured node can be built.\<close>

definition configured_clients_build :: "('cert, 'ident, 'c, string) client_env \<Rightarrow> app_config \<Rightarrow> bool" where
  "configured_clients_build cenv c = (case ac_backends c of
       Some gs \<Rightarrow> clients_build cenv gs
     | None \<Rightarrow> is_none_or (\<lambda>b. is_ok (build_node_client cenv (bc_timeout_seconds b) (bc_tls b))) (ac_backend c))"

text \<open>The names of the groups a dispatcher routes to.\<close>

definition group_names :: "'c dispatcher \<Rightarrow> string list option" where
  "group_names d = (case d of Single _ \<Rightarrow> None | Grouped gs \<Rightarrow> Some (map bg_name gs))"

lemma build_dispatcher_ok:
  assumes "is_none_or (\<lambda>gs. backends_ok env gs) (ac_backends c)" "configured_clients_build (su_clients su) c"
  obtains d c' ctx where "build_dispatcher su c = Inr (d, c', ctx)" "fresh_dispatcher d"
    "\<exists>bs. c' = c\<lparr>ac_backends := bs\<rparr>"
    "group_names d = (case ac_backends c of Some gs \<Rightarrow> Some (sort (map fst gs))
       | None \<Rightarrow> if ac_backend c = None then Some [] else None)"
proof (cases "ac_backends c")
  case (Some gs)
  obtain gs' ctx where pre: "run_preflight_multi (su_clients su) (su_serde su) (su_http su) (su_later su) True gs no_contexts = (gs', ctx)"
    by fastforce
  then have disc: "list_all2 discovered gs gs'"
    using run_preflight_discovered [of gs "su_clients su" "su_serde su" "su_http su" "su_later su" True no_contexts] by simp
  have ok: "backends_ok env gs'" "clients_build (su_clients su) gs'"
    using discovered_backends_ok [OF disc] discovered_clients_build [OF disc] assms Some
    by (simp_all add: is_none_or_def configured_clients_build_def)
  then obtain groups where g: "grouped_new (su_clients su) (su_now su) gs' = Inr groups" "list_all2 group_of (sort_key fst gs') groups"
    using grouped_new_ok by blast
  have "fresh_balancer (bg_balancer g)" if g': "g \<in> set groups" for g
  proof -
    from list_all2_source [OF g(2) g'] obtain e where e: "e \<in> set gs'" "group_of e g" by auto
    with ok(1) have "gc_nodes (snd e) \<noteq> []" by (auto simp: backends_ok_def group_config_ok_def)
    with e(2) show ?thesis by (auto simp: group_of_def fresh_balancer_def)
  qed
  then have "fresh_dispatcher (Grouped groups)" by (auto simp: fresh_dispatcher_def balancers_def list_all_iff)
  moreover have "map bg_name groups = map fst (sort_key fst gs')"
    using g(2) by (induction rule: list_all2_induct) (auto simp: group_of_def)
  then have "map bg_name groups = sort (map fst gs)"
    using discovered_lists [OF disc] by (metis map_sort_key_fst)
  moreover have "build_dispatcher su c = Inr (Grouped groups, c\<lparr>ac_backends := Some gs'\<rparr>, ctx)"
    using pre g(1) Some by (simp add: build_dispatcher_def build_balancer_from_groups_def)
  ultimately show ?thesis using Some by (intro that) (auto simp: group_names_def)
next
  case None
  show ?thesis
  proof (cases "ac_backend c")
    case (Some b)
    with None assms(2) obtain client where "build_node_client (su_clients su) (bc_timeout_seconds b) (bc_tls b) = Inr client"
      by (auto simp: configured_clients_build_def is_none_or_def is_ok_iff)
    then obtain bal ctx where b: "build_dispatcher su c = Inr (Single bal, c, ctx)" "fresh_balancer bal"
      using None Some by (auto simp: build_dispatcher_def build_balancer_from_single_def node_from_config_def
          round_robin_new_def fresh_balancer_def)
    show ?thesis
      by (rule that [OF b(1)]) (use b(2) None Some in \<open>auto simp: fresh_dispatcher_def balancers_def group_names_def intro: exI [of _ None]\<close>)
  next
    case None': None
    then have b: "build_dispatcher su c = Inr (Grouped [], c, no_contexts)"
      using None by (simp add: build_dispatcher_def grouped_new_def)
    show ?thesis
      by (rule that [OF b]) (use None None' in \<open>auto simp: fresh_dispatcher_def balancers_def group_names_def intro: exI [of _ None]\<close>)
  qed
qed

lemma loaded_config_ok: "load_config env path = Inr config \<Longrightarrow> config_ok env config"
  using validate_config_ok [of env config]
  by (auto simp: load_config_def is_ok_def split: sum.splits if_splits)

lemma exporters_built:
  assumes "config_ok env c" "ic_enabled (ac_influxdb c) \<longrightarrow> feature"
  shows "run_exporters env feature (ac_influxdb c) path = Inr (if ic_enabled (ac_influxdb c) then [spawn] else [])"
  using assms by (auto simp: config_ok_def run_exporters_def influxdb_startup_gate_def influx_new_def checked_client_url_def
      http_url_ok_def split: sum.splits)

lemma starts_listening:
  assumes "load_config (su_loader su) path = Ok config" "apply_overrides (su_lower su) args config = Ok (cfg, applied)"
    "validate_final (su_loader su) cfg = Ok ()" "configured_clients_build (su_clients su) cfg"
    "ic_enabled (ac_influxdb config) \<longrightarrow> su_influxdb su"
    "unat (sc_max_concurrent_requests (ac_server config)) \<le> su_max_permits su"
    "bind_addr (su_loader su) (su_net su) (sc_host (ac_server config)) (sc_port (ac_server cfg)) = Ok addr"
  shows "\<exists>srv. run_proxy su path args = Listening srv \<and> srv_addr srv = addr
    \<and> (let st = srv_state srv; d = load_balancer_state st in
       group_names d = (case ac_backends config of Some gs \<Rightarrow> Some (sort (map fst gs))
         | None \<Rightarrow> if ac_backend cfg = None then Some [] else None)
       \<and> dispatcher_bounded d \<and> list_all (list_all (\<lambda>n. n = 0)) (loads d) \<and> (\<forall>now model. dispatch now d model \<noteq> None)
       \<and> concurrent_requests st = 0
       \<and> permits st = (let n = unat (sc_max_concurrent_requests (ac_server config)) in if n = 0 then None else Some n)
       \<and> hc_registry (srv_handler srv) = create_registry_from_config (su_serde su) (su_slots su) (ac_fixes config)
       \<and> srv_exporters srv = (if ic_enabled (ac_influxdb config) then [spawn] else []))"
proof -
  note f = apply_overrides_fields [OF assms(2)]
  have c: "config_ok (su_loader su) config" by (rule loaded_config_ok [OF assms(1)])
  have "is_none_or (\<lambda>gs. backends_ok (su_loader su) gs) (ac_backends cfg)"
    using c by (auto simp: config_ok_def f(3) is_none_or_def split: option.splits)
  then obtain d c' ctx bs where d: "build_dispatcher su cfg = Inr (d, c', ctx)" "fresh_dispatcher d" "c' = cfg\<lparr>ac_backends := bs\<rparr>"
      "group_names d = (case ac_backends cfg of Some gs \<Rightarrow> Some (sort (map fst gs))
         | None \<Rightarrow> if ac_backend cfg = None then Some [] else None)"
    using assms(4) by (elim build_dispatcher_ok) auto
  have "run_exporters (su_loader su) (su_influxdb su) (ac_influxdb cfg) path
      = Inr (if ic_enabled (ac_influxdb config) then [spawn] else [])"
    using exporters_built [OF c assms(5)] by (simp add: f)
  moreover obtain srv where "run_server su cfg (create_registry_from_config (su_serde su) (su_slots su) (ac_fixes config))
       (if ic_enabled (ac_influxdb config) then [spawn] else []) (arg_hide_requests args) (arg_log_augmented_request_text args)
       = Some (Inr srv)"
    "srv_addr srv = addr" "load_balancer_state (srv_state srv) = d" "concurrent_requests (srv_state srv) = 0"
    "permits (srv_state srv) = (let n = unat (sc_max_concurrent_requests (ac_server config)) in if n = 0 then None else Some n)"
    "hc_registry (srv_handler srv) = create_registry_from_config (su_serde su) (su_slots su) (ac_fixes config)"
    "srv_exporters srv = (if ic_enabled (ac_influxdb config) then [spawn] else [])"
    using assms(6,7) d(1,3) by (simp add: run_server_def initial_state_def f Let_def)
  ultimately have "run_proxy su path args = Listening srv"
    using assms(1-3) by (simp add: run_proxy_def load_config_or_exit_def f(4))
  moreover note \<open>srv_addr srv = addr\<close>
  ultimately show ?thesis
    using fresh_loads [OF d(2)] fresh_dispatches [OF d(2)] d(4) \<open>load_balancer_state (srv_state srv) = d\<close>
      \<open>concurrent_requests (srv_state srv) = 0\<close> \<open>permits (srv_state srv) = _\<close> \<open>hc_registry (srv_handler srv) = _\<close>
      \<open>srv_exporters srv = _\<close>
    by (intro exI [of _ srv]) (simp only: Let_def f(3) not_False_eq_True simp_thms)
qed

text \<open>C33. An accepted configuration starts. If the loader accepts the file and the last check the merged
  configuration, then, given a binary with the exporter where it is asked for, TLS files that build clients, a permit
  count the semaphore can hold and an address that can be bound, \<^verbatim>\<open>run\<close> ends up listening on that address: no
  other step of the start can fail. The state it starts from routes to exactly the configured groups, sorted by
  name, holds no claim, answers every selection without a panic, has all its permits and an empty open export
  queue exactly if the exporter is enabled.\<close>

theorem accepted_config_starts:
  assumes "load_config (su_loader su) path = Ok config" "apply_overrides (su_lower su) args config = Ok (cfg, applied)"
    "validate_final (su_loader su) cfg = Ok ()" "configured_clients_build (su_clients su) cfg"
    "ic_enabled (ac_influxdb config) \<longrightarrow> su_influxdb su"
    "unat (sc_max_concurrent_requests (ac_server config)) \<le> su_max_permits su"
    "bind_addr (su_loader su) (su_net su) (sc_host (ac_server config)) (sc_port (ac_server cfg)) = Ok addr"
  shows "\<exists>srv. run_proxy su path args = Listening srv \<and> srv_addr srv = addr
    \<and> (let st = srv_state srv; d = load_balancer_state st in
       group_names d = (case ac_backends config of Some gs \<Rightarrow> Some (sort (map fst gs))
         | None \<Rightarrow> if ac_backend cfg = None then Some [] else None)
       \<and> dispatcher_bounded d \<and> list_all (list_all (\<lambda>n. n = 0)) (loads d) \<and> (\<forall>now model. dispatch now d model \<noteq> None)
       \<and> concurrent_requests st = 0
       \<and> permits st = (let n = unat (sc_max_concurrent_requests (ac_server config)) in if n = 0 then None else Some n)
       \<and> hc_registry (srv_handler srv) = create_registry_from_config (su_serde su) (su_slots su) (ac_fixes config)
       \<and> srv_exporters srv = (if ic_enabled (ac_influxdb config) then [spawn] else []))"
  by (rule starts_listening [OF assms])

text \<open>A permit count above the semaphore's maximum, which the loader lets pass, is a panic at the start.\<close>

lemma oversized_permits_panic:
  assumes "load_config (su_loader su) path = Ok config" "apply_overrides (su_lower su) args config = Ok (cfg, applied)"
    "validate_final (su_loader su) cfg = Ok ()" "configured_clients_build (su_clients su) cfg"
    "\<not> ic_enabled (ac_influxdb config)"
    "su_max_permits su < unat (sc_max_concurrent_requests (ac_server config))"
  shows "run_proxy su path args = Panicked"
proof -
  note f = apply_overrides_fields [OF assms(2)]
  have "is_none_or (\<lambda>gs. backends_ok (su_loader su) gs) (ac_backends cfg)"
    using loaded_config_ok [OF assms(1)] by (auto simp: config_ok_def f(3) is_none_or_def split: option.splits)
  then obtain d c' ctx bs where d: "build_dispatcher su cfg = Inr (d, c', ctx)" "c' = cfg\<lparr>ac_backends := bs\<rparr>"
    using assms(4) by (elim build_dispatcher_ok) auto
  with assms show ?thesis
    by (simp add: run_proxy_def load_config_or_exit_def run_exporters_def f run_server_def initial_state_def Let_def)
qed

text \<open>No origin the loader accepted is dropped when the answer's header can hold it.\<close>

lemma accepted_origins_kept:
  assumes "server_ok env c" "\<And>e. origin_ok e \<Longrightarrow> header_value e"
  shows "build_cors_layer header_value (sc_allowed_origins c) = (case sc_allowed_origins c of None \<Rightarrow> Any_Origin | Some es \<Rightarrow> Only es)"
  using assms by (auto simp: build_cors_layer_def server_ok_def is_none_or_def list_all_iff origin_ok_def
      intro!: filter_True split: option.splits)

section \<open>What the commands report\<close>

text \<open>A configuration without what must stay secret: the token, the API keys, the private keys.\<close>

definition without_secrets :: "app_config \<Rightarrow> app_config" where
  "without_secrets c = c\<lparr>ac_influxdb := (ac_influxdb c)\<lparr>ic_token := []\<rparr>,
     ac_backend := map_option (\<lambda>b. b\<lparr>bc_api_key := None, bc_tls := map_option (\<lambda>t. t\<lparr>client_key_path := None\<rparr>) (bc_tls b)\<rparr>) (ac_backend c),
     ac_backends := map_option (map (\<lambda>(n, g). (n, g\<lparr>gc_nodes := map (\<lambda>nd. nd\<lparr>nc_api_key := None, nc_tls := None\<rparr>) (gc_nodes g)\<rparr>)))
       (ac_backends c)\<rparr>"

lemma enumerate_map_pairs: "List.enumerate n (map f xs) = map (\<lambda>(i, x). (i, f x)) (List.enumerate n xs)"
  by (induction xs arbitrary: n) simp_all

lemma summary_without_secrets:
  "render_config_summary env (without_secrets c) = render_config_summary env c" "mode_notice (without_secrets c) = mode_notice c"
proof -
  have "summary_backend env (without_secrets c) = summary_backend env c"
    by (auto simp: summary_backend_def without_secrets_def summary_group_def mapping_text_def enumerate_map_pairs
        backend_config_base_url_def o_def split_beta split: option.splits intro!: arg_cong [where f = concat])
  then show "render_config_summary env (without_secrets c) = render_config_summary env c"
    by (simp add: render_config_summary_def without_secrets_def summary_streaming_def reprompt_asked_def)
  show "mode_notice (without_secrets c) = mode_notice c"
    by (simp add: mode_notice_def without_secrets_def gives_up_def reprompt_asked_def)
qed

text \<open>The printed and logged configuration keeps the secrets: two configurations that differ in the InfluxDB
  token, in API keys or in the paths of private keys only have the same summary and the same notice.\<close>

theorem summary_keeps_secrets:
  assumes "without_secrets c = without_secrets c'"
  shows "render_config_summary env c = render_config_summary env c' \<and> mode_notice c = mode_notice c'"
  using summary_without_secrets(1) [of env c] summary_without_secrets(1) [of env c']
    summary_without_secrets(2) [of c] summary_without_secrets(2) [of c'] assms by simp

lemma listening_registry:
  assumes "run_proxy su path args = Listening srv" "load_config (su_loader su) path = Ok config"
  shows "hc_registry (srv_handler srv) = create_registry_from_config (su_serde su) (su_slots su) (ac_fixes config)"
proof -
  obtain cfg applied where o: "apply_overrides (su_lower su) args config = Inr (cfg, applied)"
    using assms by (auto simp: run_proxy_def load_config_or_exit_def split: sum.splits)
  have "\<exists>exps. run_server su cfg (create_registry_from_config (su_serde su) (su_slots su) (ac_fixes cfg)) exps
      (arg_hide_requests args) (arg_log_augmented_request_text args) = Some (Inr srv)"
    using assms o by (auto simp: run_proxy_def load_config_or_exit_def Let_def split: sum.splits option.splits)
  then have "hc_registry (srv_handler srv) = create_registry_from_config (su_serde su) (su_slots su) (ac_fixes cfg)"
    by (cases "build_dispatcher su cfg") (auto simp: run_server_def map_sum_eq split: prod.splits)
  then show ?thesis by (simp only: apply_overrides_fields(4) [OF o])
qed

text \<open>Registered is enabled, in every registry built by registering.\<close>

definition enabled_exactly :: "fix_registry \<Rightarrow> bool" where
  "enabled_exactly r \<longleftrightarrow> (\<forall>n. is_enabled r n \<longleftrightarrow> n \<in> rf_name ` set (fr_fixes r))"

lemma register_enabled_exactly: "enabled_exactly r \<Longrightarrow> enabled_exactly (register r f)"
  by (auto simp: enabled_exactly_def is_enabled_def register_def map_of_jmap_insert)

lemma register_each_enabled_exactly: "enabled_exactly r \<Longrightarrow> enabled_exactly (register_each modules fs r)"
  by (induction fs arbitrary: r) (simp_all add: register_enabled_exactly split: option.split)

lemma constructed_enabled: "enabled_exactly (create_registry_from_config senv find_slots f)"
  by (auto simp: create_registry_from_config_def intro!: register_each_enabled_exactly)
    (simp_all add: enabled_exactly_def is_enabled_def registry_new_def)

lemma constructed_names:
  "\<exists>P. map rf_name (fr_fixes (create_registry_from_config senv find_slots f)) = filter P (map rf_name (default_fixes senv find_slots))"
  by (cases "fc_enabled f")
    (auto simp: create_registry_from_config_def register_each_fixes registry_new_def filter_map comp_def
      intro: exI [of _ "module_on (fc_modules f)"] exI [of _ "\<lambda>_. False"])

text \<open>\<^verbatim>\<open>list-fixes\<close> tells what \<^verbatim>\<open>run\<close> does. Whatever the command line overrides, the modules listed as enabled
  for a configuration file are exactly the fixes, in order, that a proxy started from that file runs.\<close>

theorem listed_fixes_are_run:
  assumes "run_proxy su path args = Listening srv" "load_config (su_loader su) path = Ok config"
  shows "map ms_name (filter ms_enabled (fix_module_states (create_default_registry (su_serde su) (su_slots su))
      (create_registry_from_config (su_serde su) (su_slots su) (ac_fixes config)))) = map rf_name (fr_fixes (hc_registry (srv_handler srv)))"
proof -
  let ?r = "create_registry_from_config (su_serde su) (su_slots su) (ac_fixes config)"
  let ?d = "map rf_name (default_fixes (su_serde su) (su_slots su))"
  obtain P where P: "map rf_name (fr_fixes ?r) = filter P ?d" using constructed_names by blast
  have "map ms_name (filter ms_enabled (fix_module_states (create_default_registry (su_serde su) (su_slots su)) ?r))
      = filter (is_enabled ?r) ?d"
    by (simp add: fix_module_states_def default_registry_fixes filter_map comp_def)
  also have "\<dots> = filter P ?d"
  proof (intro filter_cong refl)
    fix n assume "n \<in> set ?d"
    have "is_enabled ?r n \<longleftrightarrow> n \<in> set (map rf_name (fr_fixes ?r))"
      using constructed_enabled [of "su_serde su" "su_slots su" "ac_fixes config"] by (simp add: enabled_exactly_def)
    also have "\<dots> \<longleftrightarrow> P n" unfolding P using \<open>n \<in> set ?d\<close> by simp
    finally show "is_enabled ?r n = P n" .
  qed
  finally show ?thesis using P by (simp only: listening_registry [OF assms])
qed

text \<open>The answers \<^verbatim>\<open>test-backend\<close> wants of a node: both requests carry no header, not even the node's API key.\<close>

definition node_answers :: "('cert, 'ident, 'c) startup_env \<Rightarrow> backend_node_config \<Rightarrow> bool" where
  "node_answers su c \<longleftrightarrow>
     (let url = (\<lambda>p. node_url (trim_end_matches (CHR ''/'') (nc_url c)) p (nc_strip_path_prefix c)) in
      (\<exists>r. su_http su (url ''/health'') [] = Ok r \<and> is_2xx r)
      \<and> (\<exists>r body v models. su_http su (url ''/v1/models'') [] = Ok r \<and> is_2xx r \<and> g_body r = Ok body
           \<and> parse_value (su_serde su) body = Some v \<and> get_array v ''data'' = Some models))"

lemma probe_health_count: "snd (probe_health answer) = (if \<exists>r. answer = Ok r \<and> is_2xx r then 0 else 1)"
  by (auto simp: probe_health_def split: sum.splits)

lemma probe_models_count:
  assumes "parse_value senv [] = None"
  shows "snd (probe_models env senv answer) = (if \<exists>r body v models. answer = Ok r \<and> is_2xx r \<and> g_body r = Ok body
           \<and> parse_value senv body = Some v \<and> get_array v ''data'' = Some models then 0 else 1)"
  using assms
  by (auto simp: probe_models_def models_probe_body_outcome_def bind_eq_Some_conv Let_def split: sum.splits option.splits)

lemma probe_one_node_count:
  "snd (probe_one_node env senv http n) = snd (probe_health (http (base_url n @ effective_path n ''/health'') []))
     + snd (probe_models env senv (http (base_url n @ effective_path n ''/v1/models'') []))"
  by (simp add: probe_one_node_def Let_def split_beta)

definition test_client :: "('cert, 'ident, 'c) startup_env \<Rightarrow> backend_node_config \<Rightarrow> bool" where
  "test_client su c \<longleftrightarrow> is_ok (build_node_client (su_clients su) 5 (nc_tls c))"

lemma test_node_result:
  assumes "parse_value (su_serde su) [] = None"
  shows "(\<exists>e. test_node su l c = Inl e \<and> \<not> test_client su c)
    \<or> (\<exists>printed n. test_node su l c = Inr (printed, n) \<and> test_client su c \<and> n \<le> 2 \<and> (n = 0 \<longleftrightarrow> node_answers su c))"
proof (cases "build_node_client (su_clients su) 5 (nc_tls c)")
  case (Inr client)
  then show ?thesis
    by (auto simp: test_node_def node_from_config_def split_beta probe_one_node_count probe_health_count
        probe_models_count [OF assms] base_url_def effective_path_def node_url_def node_answers_def Let_def test_client_def
        split: option.splits)
qed (simp add: test_node_def node_from_config_def test_client_def)

lemma test_nodes_result:
  assumes "parse_value (su_serde su) [] = None"
  shows "(\<exists>e. snd (test_nodes su ts) = Inl e) \<and> \<not> list_all (\<lambda>(l, c). test_client su c) ts
    \<or> (\<exists>n. snd (test_nodes su ts) = Inr (2 * length ts, n) \<and> n \<le> 2 * length ts \<and> list_all (\<lambda>(l, c). test_client su c) ts
         \<and> (n = 0 \<longleftrightarrow> list_all (\<lambda>(l, c). node_answers su c) ts))"
proof (induction ts)
  case (Cons t ts)
  obtain l c where t: "t = (l, c)" by fastforce
  from test_node_result [OF assms, of l c] Cons.IH show ?case
    by (auto simp: t split_beta Let_def)
qed simp

text \<open>What \<^verbatim>\<open>test-backend\<close> says. It succeeds exactly if the file loads, a client can be built for every node and
  every node answers both probes, the models with a list; nothing configured is a success. It sends the API key of
  no node, so a backend that wants its key is reported as failed.\<close>

theorem test_backend_exact:
  assumes "parse_value (su_serde su) [] = None"
  shows "snd (test_backend su path) = Ok () \<longleftrightarrow> (\<exists>config. load_config (su_loader su) path = Ok config
    \<and> list_all (\<lambda>(l, c). test_client su c \<and> node_answers su c) (test_targets config))"
proof (cases "load_config (su_loader su) path")
  case (Inr config)
  with test_nodes_result [OF assms, of "test_targets config"] show ?thesis
    by (auto simp: test_backend_def load_config_or_exit_def split_beta Let_def list_all_iff)
qed (simp add: test_backend_def load_config_or_exit_def)

section \<open>The listening address\<close>

lemma bind_first_ok:
  "bind_first nenv cs e = Inr addr \<longleftrightarrow>
     (\<exists>a. find (\<lambda>a. is_ok (bind_socket nenv a)) cs = Some a \<and> bind_socket nenv a = Inr (Inr addr))"
proof (induction nenv cs e rule: bind_first.induct)
  case (2 nenv a cs e)
  then show ?case
  proof (cases "bind_socket nenv a")
    case (Inr local_addr)
    then show ?thesis by (cases local_addr) auto
  qed simp
qed simp

lemma find_Some_split: "find P xs = Some a \<Longrightarrow> \<exists>ys zs. xs = ys @ a # zs \<and> (\<forall>y \<in> set ys. \<not> P y)"
proof (induction xs)
  case (Cons x xs)
  then show ?case
  proof (cases "P x")
    case True
    with Cons.prems show ?thesis by (intro exI [of _ "[]"] exI [of _ xs]) simp
  next
    case False
    with Cons obtain ys zs where "xs = ys @ a # zs" "\<forall>y \<in> set ys. \<not> P y" by auto
    with False show ?thesis by (intro exI [of _ "x # ys"] exI [of _ zs]) simp
  qed
qed simp

lemma loopback_first_sorted:
  "sorted_wrt (\<lambda>x y. is_loopback (fst y) \<longrightarrow> is_loopback (fst x)) (prefer_loopback addrs)"
  "set (prefer_loopback addrs) = set addrs" "prefer_loopback addrs = [] \<longleftrightarrow> addrs = []"
proof -
  have const: "sorted_wrt P xs" if "\<And>x y. x \<in> set xs \<Longrightarrow> y \<in> set xs \<Longrightarrow> P x y" for P and xs :: "socket_addr list"
    using that by (induction xs) auto
  show "sorted_wrt (\<lambda>x y. is_loopback (fst y) \<longrightarrow> is_loopback (fst x)) (prefer_loopback addrs)"
    by (auto simp: prefer_loopback_def partition_filter_conv sorted_wrt_append intro!: const)
  show "set (prefer_loopback addrs) = set addrs"
    by (auto simp: prefer_loopback_def partition_filter_conv)
  then show "prefer_loopback addrs = [] \<longleftrightarrow> addrs = []"
    by (metis set_empty)
qed

lemma resolve_sorted:
  "resolve_bind_addr env nenv host port = Inr cs \<Longrightarrow> cs \<noteq> [] \<and> sorted_wrt (\<lambda>x y. is_loopback (fst y) \<longrightarrow> is_loopback (fst x)) cs"
  by (cases "lookup_host nenv (bare_host host) port"; cases "validate_bind_host env host")
    (auto simp: resolve_bind_addr_def loopback_first_sorted split: option.splits if_splits)

lemma resolve_refuses:
  assumes "parses_as_ip env (bare_host host) \<longleftrightarrow> parse_ipv4 nenv (bare_host host) \<noteq> None \<or> parse_ipv6 nenv (bare_host host) \<noteq> None"
    "\<not> is_ok (validate_bind_host env host)"
  shows "\<exists>e. resolve_bind_addr env nenv host port = Inl (Invalid_Input e)"
proof -
  have "\<not> parses_as_ip env (bare_host host)" using assms(2) by (auto simp: validate_bind_host_def bare_host_def Let_def)
  moreover obtain e where "validate_bind_host env host = Inl e" using assms(2) by (cases "validate_bind_host env host") auto
  ultimately show ?thesis using assms(1) by (simp add: resolve_bind_addr_def)
qed

text \<open>The address the proxy listens on. Where the loader's IP parser is the binder's two, a host the loader
  refuses is refused by the binder as well, before any look-up; otherwise the binder listens on the first candidate
  that accepts a socket, and fails exactly if none does (or the socket cannot tell its address). The candidates are
  the literal the operator wrote or all the answers of the resolver, loopback answers in front: the proxy is
  reachable from outside only if no loopback candidate could be bound.\<close>

theorem listening_address_exact:
  assumes "\<forall>s. parses_as_ip env s \<longleftrightarrow> parse_ipv4 nenv s \<noteq> None \<or> parse_ipv6 nenv s \<noteq> None"
  shows "if is_ok (validate_bind_host env host)
    then (bind_addr env nenv host port = Ok addr \<longleftrightarrow> (\<exists>candidates a. resolve_bind_addr env nenv host port = Ok candidates
        \<and> find (\<lambda>a. is_ok (bind_socket nenv a)) candidates = Some a \<and> bind_socket nenv a = Ok (Ok addr)
        \<and> (is_loopback (fst a) \<or> list_all (\<lambda>b. is_loopback (fst b) \<longrightarrow> \<not> is_ok (bind_socket nenv b)) candidates)))
    else (\<exists>e. bind_addr env nenv host port = Err (Invalid_Input e))"
proof (cases "is_ok (validate_bind_host env host)")
  case False
  with resolve_refuses [of env host nenv port] assms obtain e where "resolve_bind_addr env nenv host port = Inl (Invalid_Input e)"
    by blast
  with False show ?thesis by (simp add: bind_addr_def)
next
  case True
  have pref: "is_loopback (fst a) \<or> list_all (\<lambda>b. is_loopback (fst b) \<longrightarrow> \<not> is_ok (bind_socket nenv b)) cs"
    if cs: "resolve_bind_addr env nenv host port = Inr cs" and a: "find (\<lambda>a. is_ok (bind_socket nenv a)) cs = Some a" for cs a
  proof -
    obtain xs ys where split: "cs = xs @ a # ys" "\<forall>b \<in> set xs. \<not> is_ok (bind_socket nenv b)"
      using find_Some_split [OF a] by blast
    with resolve_sorted [OF cs] show ?thesis by (auto simp: sorted_wrt_append list_all_iff)
  qed
  have "bind_addr env nenv host port = Inr addr \<longleftrightarrow> (\<exists>cs. resolve_bind_addr env nenv host port = Inr cs
      \<and> (\<exists>a. find (\<lambda>a. is_ok (bind_socket nenv a)) cs = Some a \<and> bind_socket nenv a = Inr (Inr addr)))"
    by (cases "resolve_bind_addr env nenv host port") (simp_all add: bind_addr_def bind_first_ok)
  with True pref show ?thesis by auto
qed

section \<open>Witnesses\<close>

definition start_config :: app_config where
  "start_config = \<lparr>ac_server = \<lparr>sc_port = 8066, sc_host = ''localhost'', sc_max_concurrent_requests = 4, sc_allowed_origins = None\<rparr>,
     ac_backend = None, ac_backends = Some [(''b'', sample_group [''m''] ''u''), (''a'', sample_group [] ''v'')],
     ac_fixes = default_fixes_config, ac_stats = default_stats_config,
     ac_influxdb = default_influxdb_config\<lparr>ic_enabled := True\<rparr>, ac_streaming = streaming_mode.Fake,
     ac_synthesis = default_synthesis_config, ac_augment_backend = None, ac_reprompt = None,
     ac_dump = \<lparr>dc_enabled = False, dc_path = []\<rparr>\<rparr>"

definition start_loader :: "app_config \<Rightarrow> loader_env" where
  "start_loader c = sample_loader_env\<lparr>read_to_string := (\<lambda>_. Ok ''text''), parse_yaml := (\<lambda>_. Ok c)\<rparr>"

definition start_net :: net_env where
  "start_net = \<lparr>parse_ipv4 = (\<lambda>_. None), parse_ipv6 = (\<lambda>_. None),
     lookup_host = (\<lambda>_ p. Ok [(V4 0xC0A80001, p), (V6 1, p), (V4 0x7F000001, p)]),
     bind_socket = (\<lambda>a. if fst a = V6 1 then Err ''no IPv6'' else Ok (Ok a))\<rparr>"

definition start_env :: "(unit, unit, unit) startup_env" where
  "start_env = \<lparr>su_loader = start_loader start_config, su_clients = sample_client_env, su_serde = window_env,
     su_slots = (\<lambda>_. []), su_http = down_net, su_net = start_net, su_lower = (\<lambda>s. s), su_augment_client = (\<lambda>_. Ok ()),
     su_header_value = (\<lambda>_. True), su_max_permits = 2 ^ 61 - 1, su_influxdb = True, su_now = 5, su_later = 6\<rparr>"

definition start_args :: run_args where
  "start_args = \<lparr>arg_port = Some 8070, arg_backend_url = None, arg_streaming_mode = Some ''passthrough'', arg_hide_requests = False,
     arg_log_augmented_request_text = False, arg_dump = Some ''dumps''\<rparr>"

definition merged_config :: app_config where
  "merged_config = start_config\<lparr>ac_server := (ac_server start_config)\<lparr>sc_port := 8070\<rparr>,
     ac_streaming := streaming_mode.Passthrough, ac_dump := \<lparr>dc_enabled = True, dc_path = ''dumps''\<rparr>\<rparr>"

lemma start_url_ok: "http_url_ok (start_loader c) url"
  by (simp add: http_url_ok_def start_loader_def sample_loader_env_def)

lemma start_backends_ok:
  "backends_ok (start_loader c) [(''b'', sample_group [''m''] ''u''), (''a'', sample_group [] ''v'')]"
  by (simp add: backends_ok_def sample_group_def sample_node_config_def catch_all_count_def
      all_mappings_def group_config_ok_def node_config_ok_def start_url_ok word_le_nat_alt)

lemma start_host_ok: "host_ok (start_loader c) ''localhost''"
  by (simp add: host_ok_def start_loader_def sample_loader_env_def is_rfc1123_hostname_def is_label_def strip_suffix_def
      is_ascii_alphanumeric_def)

lemma start_loads: "load_config (start_loader start_config) path = Ok start_config"
proof -
  have "config_ok (start_loader c) start_config" for c
    using start_backends_ok start_host_ok start_url_ok
    by (simp add: config_ok_def start_config_def server_ok_def default_synthesis_config_def default_stats_config_def
        f64_is_finite_def word_le_nat_alt)
  then show ?thesis using validate_config_ok [of "start_loader start_config" start_config]
    by (auto simp: load_config_def start_loader_def sample_loader_env_def is_ok_def split: sum.splits)
qed

lemma start_merged: "apply_overrides (\<lambda>s. s) start_args start_config = Ok (merged_config, [''port='' @ digits 8070, ''streaming=Passthrough''])"
  by (simp add: apply_overrides_def start_args_def override_port_def override_backend_url_def override_streaming_def
      resolve_mode_def from_str_mode_def override_dump_def merged_config_def start_config_def lossy_Cons_ascii is_ascii_def
      from_utf8_lossy.simps [of "[]"] del: digits.simps)

lemma start_final: "validate_final (start_loader start_config) merged_config = Ok ()"
  by (simp add: validate_final_def merged_config_def start_config_def and_check_def)

lemma start_bind: "bind_addr (start_loader start_config) start_net ''localhost'' 8070 = Ok (V4 0x7F000001, 8070)"
proof -
  have "validate_bind_host (start_loader start_config) ''localhost'' = Inr ()"
    using validate_bind_host_ok [of "start_loader start_config" "''localhost''"] start_host_ok by (simp add: is_ok_iff)
  then show ?thesis
    by (simp add: bind_addr_def resolve_bind_addr_def start_net_def bare_host_def strip_prefix_def prefer_loopback_def
        is_loopback_def)
qed

theorem merged_config_still_valid_witness:
  "is_ok (validate_config (start_loader start_config) merged_config) \<longleftrightarrow> trim (from_utf8_lossy ''dumps'') \<noteq> []"
  using merged_config_still_valid [OF start_loads start_merged start_final]
  by (simp add: start_args_def is_none_or_def)

theorem accepted_config_starts_witness:
  "\<exists>srv. run_proxy start_env ''config.yaml'' start_args = Listening srv \<and> srv_addr srv = (V4 0x7F000001, 8070)
     \<and> permits (srv_state srv) = Some 4 \<and> group_names (load_balancer_state (srv_state srv)) = Some [''a'', ''b'']"
proof -
  have "configured_clients_build (su_clients start_env) merged_config"
    by (simp add: configured_clients_build_def merged_config_def start_config_def start_env_def sample_clients_build)
  moreover have "sort [''b'', ''a''] = [''a'', ''b'']" by code_simp
  ultimately show ?thesis
    using accepted_config_starts [of start_env "''config.yaml''" start_config start_args merged_config _ "(V4 0x7F000001, 8070)"]
      start_loads start_merged start_final start_bind
    by (fastforce simp: start_env_def start_config_def merged_config_def Let_def)
qed

theorem listening_address_exact_witness:
  "bind_addr (start_loader start_config) start_net ''localhost'' 8070 = Ok (V4 0x7F000001, 8070) \<longleftrightarrow>
     (\<exists>candidates a. resolve_bind_addr (start_loader start_config) start_net ''localhost'' 8070 = Ok candidates
        \<and> find (\<lambda>a. is_ok (bind_socket start_net a)) candidates = Some a \<and> bind_socket start_net a = Ok (Ok (V4 0x7F000001, 8070))
        \<and> (is_loopback (fst a) \<or> list_all (\<lambda>b. is_loopback (fst b) \<longrightarrow> \<not> is_ok (bind_socket start_net b)) candidates))"
proof -
  have "\<forall>s. parses_as_ip (start_loader start_config) s \<longleftrightarrow> parse_ipv4 start_net s \<noteq> None \<or> parse_ipv6 start_net s \<noteq> None"
    by (simp add: start_loader_def sample_loader_env_def start_net_def)
  moreover have "is_ok (validate_bind_host (start_loader start_config) ''localhost'')"
    by (simp only: validate_bind_host_ok start_host_ok)
  ultimately show ?thesis using listening_address_exact [of "start_loader start_config" start_net "''localhost''" 8070] by simp
qed

theorem summary_keeps_secrets_witness:
  "render_config_summary (start_loader start_config) (start_config\<lparr>ac_influxdb := (ac_influxdb start_config)\<lparr>ic_token := ''t''\<rparr>\<rparr>)
     = render_config_summary (start_loader start_config) start_config"
  using summary_keeps_secrets [of "start_config\<lparr>ac_influxdb := (ac_influxdb start_config)\<lparr>ic_token := ''t''\<rparr>\<rparr>" start_config]
  by (simp add: without_secrets_def)

lemma accepted_start: "\<exists>srv. run_proxy start_env ''config.yaml'' start_args = Listening srv"
proof -
  have "configured_clients_build (su_clients start_env) merged_config"
    by (simp add: configured_clients_build_def merged_config_def start_config_def start_env_def sample_clients_build)
  then show ?thesis
    using starts_listening [of start_env "''config.yaml''" start_config start_args merged_config _ "(V4 0x7F000001, 8070)"]
      start_loads start_merged start_final start_bind
    by (fastforce simp: start_env_def start_config_def merged_config_def Let_def)
qed

theorem listed_fixes_are_run_witness:
  "\<exists>srv. run_proxy start_env ''config.yaml'' start_args = Listening srv
     \<and> map ms_name (filter ms_enabled (fix_module_states (create_default_registry window_env (\<lambda>_. []))
          (create_registry_from_config window_env (\<lambda>_. []) default_fixes_config))) = map rf_name (fr_fixes (hc_registry (srv_handler srv)))"
proof -
  obtain srv where "run_proxy start_env ''config.yaml'' start_args = Listening srv" using accepted_start by blast
  with listed_fixes_are_run [OF this, of start_config] start_loads show ?thesis
    by (simp add: start_env_def start_config_def)
qed

theorem test_backend_exact_witness:
  "snd (test_backend (start_env\<lparr>su_http := up_net, su_serde := window_env\<lparr>parse_value :=
     (\<lambda>s. if s = [] then None else Some (JObj [(''data'', JArr [])]))\<rparr>\<rparr>) ''config.yaml'') = Ok ()"
  (is "snd (test_backend ?su _) = _")
proof -
  have answers: "node_answers ?su c" for c
    by (simp add: node_answers_def up_net_def is_2xx_def get_array_def json_simps Let_def)
  have client: "test_client ?su (sample_node_config u)" for u
    by (simp add: test_client_def start_env_def sample_client_env_def build_node_client_def sample_node_config_def)
  have "load_config (su_loader ?su) ''config.yaml'' = Ok start_config" by (simp add: start_env_def start_loads)
  moreover have "parse_value (su_serde ?su) [] = None" by simp
  ultimately show ?thesis using test_backend_exact [of ?su "''config.yaml''"] answers client
    by (simp add: test_targets_def start_config_def sample_group_def)
qed

end
