(* ===== verification/Shutdown_Correct.thy ===== *)
theory Shutdown_Correct
  imports Server_Assembly Influx_Correct
begin

text \<open>
  The shutdown of the server: in every history of connections, handlers, detached export tasks and moves of the
  exporter's worker, the exporter outlives the drain, and the drain ends. One sample can still be late: its task is
  not a connection task, so nothing waits for it.
\<close>

section \<open>The invariant\<close>

text \<open>The queue of every reachable state is one of the exporter's own histories, so all its facts apply.\<close>

definition queue_reachable :: "influx_env \<Rightarrow> queue_state \<Rightarrow> bool" where
  "queue_reachable env q \<longleftrightarrow> (\<exists>ls. q = qrun env ls spawn)"

lemma reachable_spawn: "queue_reachable env spawn"
  unfolding queue_reachable_def by (rule exI [of _ "[]"]) (simp add: qrun_def)

lemma reachable_step: "queue_reachable env q \<Longrightarrow> queue_reachable env (qstep env l q)"
  unfolding queue_reachable_def by (elim exE) (rule_tac x = "ls @ [l]" in exI, simp add: qrun_def)

lemma reachable_lifecycle: "queue_reachable env q \<Longrightarrow> lifecycle_ok q"
  by (auto simp: queue_reachable_def qrun_lifecycle spawn_lifecycle)

lemma reachable_accounted: "queue_reachable env q \<Longrightarrow> accounted q"
  by (auto simp: queue_reachable_def qrun_accounted spawn_accounted)

lemma open_has_worker: "lifecycle_ok q \<Longrightarrow> q_open q \<Longrightarrow> q_worker q \<noteq> Gone"
  by (auto simp: lifecycle_ok_def)

definition before_close :: "serve_phase \<Rightarrow> bool" where
  "before_close p \<longleftrightarrow> p = Accepting \<or> p = In_Drain \<or> p = Drain_Done"

definition serve_ok :: "influx_env \<Rightarrow> serve_state \<Rightarrow> bool" where
  "serve_ok env s \<longleftrightarrow> queue_reachable env (sv_queue s)
     \<and> (q_open (sv_queue s) \<longleftrightarrow> before_close (sv_phase s))
     \<and> (sv_phase s = In_Drain \<longrightarrow> sv_conns s \<noteq> [])
     \<and> (sv_phase s \<noteq> Accepting \<and> sv_phase s \<noteq> In_Drain \<longrightarrow> sv_conns s = [])
     \<and> distinct (sv_conns s) \<and> set (sv_graceful s) \<subseteq> set (sv_conns s)
     \<and> (q_open (sv_queue s) \<longrightarrow> sv_late s = [])
     \<and> mset (sv_offered s) = mset (q_accepted (sv_queue s)) + mset (q_refused (sv_queue s))
     \<and> (sv_phase s \<noteq> Process_Gone \<longrightarrow> mset (sv_sampled s) = mset (sv_exports s) + mset (sv_offered s) + mset (sv_late s))"

lemma serving_ok: "serve_ok env serving"
  by (simp add: serve_ok_def serving_def reachable_spawn before_close_def) (simp add: spawn_def)

lemma enqueue_is_step: "snd (enqueue m q) = qstep env (Enqueue m) q"
  by (simp add: qstep_def)

lemma worker_step_history: "q_accepted (worker_step env ok q) = q_accepted q \<and> q_refused (worker_step env ok q) = q_refused q
    \<and> q_open (worker_step env ok q) = q_open q"
  by (auto simp: worker_step_def give_up_def split: worker_pc.split list.split sum.split option.split prod.split)

lemma mset_remove_nth: "i < length xs \<Longrightarrow> mset xs = add_mset (xs ! i) (mset (take i xs) + mset (drop (Suc i) xs))"
  by (metis id_take_nth_drop mset_append mset.simps(2) union_mset_add_mset_right)

lemma run_export_ok:
  assumes "serve_ok env s" "i < length (sv_exports s)"
  shows "serve_ok env (run_export (sv_exports s ! i) (s\<lparr>sv_exports := take i (sv_exports s) @ drop (Suc i) (sv_exports s)\<rparr>))"
proof -
  let ?m = "sv_exports s ! i" and ?q = "sv_queue s"
  have r: "queue_reachable env ?q" using assms(1) by (simp add: serve_ok_def)
  have step: "queue_reachable env (snd (enqueue ?m ?q))" by (simp add: enqueue_is_step [of _ _ env] reachable_step r)
  note w = open_has_worker [OF reachable_lifecycle [OF r]]
  show ?thesis
    using assms(1) step w mset_remove_nth [OF assms(2)]
    by (cases "q_open ?q"; cases "CAPACITY \<le> length (q_samples ?q)")
      (auto simp: run_export_def enqueue_def serve_ok_def)
qed

lemma serve_step_ok:
  assumes "serve_ok env s" "serve_step env l s = Some s'"
  shows "serve_ok env s'"
proof (cases l)
  case (Run_Export i)
  with assms run_export_ok [OF assms(1), of i] show ?thesis by (auto split: if_splits)
next
  case (Worker_Moves ok)
  have "queue_reachable env (worker_step env ok (sv_queue s))"
    using reachable_step [of env "sv_queue s" "Worker ok"] assms(1) by (simp add: qstep_def serve_ok_def)
  with Worker_Moves assms worker_step_history [of env ok "sv_queue s"] show ?thesis
    by (auto simp: serve_ok_def split: if_splits)
next
  case Close_Exporters
  have "queue_reachable env (close_samples (sv_queue s))"
    using reachable_step [of env "sv_queue s" Close] assms(1) by (simp add: qstep_def serve_ok_def)
  with Close_Exporters assms show ?thesis
    by (auto simp: serve_ok_def before_close_def close_samples_def split: if_splits)
next
  case (Finish c)
  have "set (remove1 c (sv_conns s)) = set (sv_conns s) - {c}" using assms(1) by (simp add: serve_ok_def)
  moreover from this have "set (sv_graceful s) \<subseteq> {c}" if "remove1 c (sv_conns s) = []"
    using that assms(1) unfolding serve_ok_def by auto
  ultimately show ?thesis using Finish assms
    by (cases "sv_phase s") (auto simp: serve_ok_def before_close_def Let_def split: if_split_asm)
next
  case (Accept c)
  with assms show ?thesis by (auto simp: serve_ok_def before_close_def split: if_split_asm)
next
  case (Spawn_Export c m)
  with assms show ?thesis by (cases "sv_phase s") (simp_all add: serve_ok_def before_close_def split: if_split_asm; auto)+
next
  case Signal
  with assms show ?thesis by (auto simp: serve_ok_def before_close_def split: if_split_asm)
next
  case (Ask c)
  with assms show ?thesis by (auto simp: serve_ok_def before_close_def split: if_split_asm)
next
  case Grace_Over
  with assms show ?thesis by (auto simp: serve_ok_def before_close_def split: if_split_asm)
next
  case Join_Over
  with assms show ?thesis by (auto simp: serve_ok_def before_close_def split: if_split_asm)
qed

lemma serve_run_ok: "serve_ok env s \<Longrightarrow> serve_run env ls s = Some s' \<Longrightarrow> serve_ok env s'"
  by (induction env ls s rule: serve_run.induct) (auto simp: bind_eq_Some_conv dest: serve_step_ok)

section \<open>The order of the shutdown\<close>

text \<open>C35. The exporter is closed behind the drain. In every history of the server: no connection is left once the
  drain is done; the export queue is open exactly until the exporters are closed, which only follows the drain, and
  before that no sample is turned away as too late; and until the process is gone every sample a request produced
  is in exactly one place: in a task that has not run, queued, in the worker's hand, written, lost and counted,
  dropped at the ceiling and counted, or refused as too late.\<close>

theorem exporters_close_after_drain:
  assumes "serve_run env ls serving = Some s"
  shows "let q = sv_queue s in
    (q_open q \<longleftrightarrow> sv_phase s = Accepting \<or> sv_phase s = In_Drain \<or> sv_phase s = Drain_Done)
    \<and> (sv_phase s \<noteq> Accepting \<and> sv_phase s \<noteq> In_Drain \<longrightarrow> sv_conns s = [])
    \<and> (q_open q \<longrightarrow> sv_late s = [])
    \<and> (sv_phase s \<noteq> Process_Gone \<longrightarrow> mset (sv_sampled s) = mset (sv_exports s) + mset (q_samples q)
         + mset (in_hand (q_worker q)) + mset (q_written q) + mset (q_lost q) + mset (q_refused q) + mset (sv_late s))
    \<and> q_dropped q = of_nat (length (q_refused q) + length (q_lost q))"
proof -
  have ok: "serve_ok env s" by (rule serve_run_ok [OF serving_ok assms])
  then have acc: "accounted (sv_queue s)" by (simp add: serve_ok_def reachable_accounted [of env])
  then have "mset (q_accepted (sv_queue s)) = mset (q_written (sv_queue s)) + mset (q_lost (sv_queue s))
      + mset (in_hand (q_worker (sv_queue s))) + mset (q_samples (sv_queue s))"
    by (auto simp: accounted_def mset_shuffles)
  with ok acc show ?thesis
    by (auto simp: serve_ok_def before_close_def accounted_def Let_def)
qed

text \<open>A request whose connection ended before the signal came can still lose its sample: the drain does not wait for
  the task that exports it.\<close>

lemma late_sample_refused:
  "map_option (\<lambda>s. (sv_late s, q_accepted (sv_queue s), q_dropped (sv_queue s)))
     (serve_run env [Accept 1, Spawn_Export 1 m, Finish 1, Signal, Close_Exporters, Run_Export 0] serving) = Some ([m], [], 0)"
  by (simp add: serving_def spawn_def run_export_def enqueue_def close_samples_def)

text \<open>And the join can be cut short: where its budget runs out before the worker is done, the process ends with an
  accepted sample that is neither written nor counted as lost.\<close>

lemma join_cut_short:
  "map_option (\<lambda>s. (sv_phase s, q_accepted (sv_queue s), q_written (sv_queue s), q_lost (sv_queue s), q_dropped (sv_queue s)))
     (serve_run env [Accept 1, Spawn_Export 1 m, Run_Export 0, Finish 1, Signal, Close_Exporters, Join_Over] serving)
   = Some (Process_Gone, [m], [], [], 0)"
  by (simp add: serving_def spawn_def run_export_def enqueue_def close_samples_def CAPACITY_def)

text \<open>Behind the close only the worker moves the queue, in every schedule.\<close>

fun write_answers :: "serve_label list \<Rightarrow> bool list" where
  "write_answers [] = []"
| "write_answers (Worker_Moves ok # ls) = ok # write_answers ls"
| "write_answers (l # ls) = write_answers ls"

definition shut :: "serve_state \<Rightarrow> bool" where
  "shut s \<longleftrightarrow> (sv_phase s = Exporters_Closed \<or> sv_phase s = Process_Gone) \<and> \<not> q_open (sv_queue s) \<and> sv_conns s = []"

lemma shut_step:
  assumes "shut s" "serve_step env l s = Some s'"
  shows "shut s'" and "sv_queue s' = qrun env (map Worker (write_answers [l])) (sv_queue s)"
  using assms
  by (cases l; auto simp: shut_def qrun_def qstep_def run_export_def enqueue_def worker_step_closed split: if_splits)+

lemma shut_run:
  "shut s \<Longrightarrow> serve_run env ls s = Some s' \<Longrightarrow> sv_queue s' = qrun env (map Worker (write_answers ls)) (sv_queue s)"
proof (induction ls arbitrary: s)
  case (Cons l ls)
  then obtain s1 where s1: "serve_step env l s = Some s1" "serve_run env ls s1 = Some s'" by (auto simp: bind_eq_Some_conv)
  have "write_answers (l # ls) = write_answers [l] @ write_answers ls" by (cases l) simp_all
  then show ?case using Cons.IH [OF shut_step(1) [OF Cons.prems(1) s1(1)] s1(2)] shut_step(2) [OF Cons.prems(1) s1(1)]
    by (simp add: qrun_def)
qed (simp add: qrun_def)

lemma worker_turns_map: "worker_turns (map Worker oks) = length oks" "ping_count (map Worker oks) = 0"
  by (induction oks) (simp_all add: worker_turns_def ping_count_def)

lemma worker_run_accepts: "q_accepted (qrun env (map Worker oks) q) = q_accepted q"
  by (induction oks arbitrary: q) (simp_all add: qrun_def qstep_def worker_step_history)

lemma accounted_parts:
  "accounted q \<Longrightarrow> mset (q_accepted q) = mset (q_written q) + mset (q_lost q) + mset (in_hand (q_worker q)) + mset (q_samples q)"
  by (auto simp: accounted_def mset_shuffles)

text \<open>C36. The shutdown comes to its end, and what it then owes. In every reachable state of the drain the end of
  the grace is possible and closes the remaining connections, and in every state behind the drain the exporters can be
  closed. From the close on, in every schedule of late export tasks, worker steps, write answers and the end of
  the process: no sample is accepted any more; once the worker has taken as many steps as \<open>work\<close> counts at the close
  (each is possible until the process ends) it is gone, the queue is empty and every sample ever accepted has
  been written or counted as lost; and at any earlier moment, the end of the join budget included, the accepted samples
  not written or lost are exactly those still queued or in the worker's hand, which no counter counts.\<close>

theorem shutdown_completes:
  assumes "serve_run env before serving = Some s"
  shows "(sv_phase s = In_Drain \<longrightarrow>
      (\<exists>s1. serve_step env Grace_Over s = Some s1 \<and> sv_phase s1 = Drain_Done \<and> sv_conns s1 = []))
    \<and> (sv_phase s = Drain_Done \<longrightarrow>
      (\<exists>s1. serve_step env Close_Exporters s = Some s1 \<and> sv_phase s1 = Exporters_Closed \<and> sv_conns s1 = []))
    \<and> (sv_phase s = Exporters_Closed \<and> serve_run env ls s = Some s' \<longrightarrow>
      (let q = sv_queue s' in
        q_accepted q = q_accepted (sv_queue s)
        \<and> (work (sv_queue s) \<le> length (write_answers ls) \<longrightarrow>
             q_worker q = Gone \<and> q_samples q = [] \<and> q_accepted q \<in> shuffles (q_written q) (q_lost q))
        \<and> mset (q_accepted q) = mset (q_written q) + mset (q_lost q) + mset (in_hand (q_worker q)) + mset (q_samples q)
        \<and> q_dropped q = of_nat (length (q_refused q) + length (q_lost q))
        \<and> (sv_phase s' \<noteq> Process_Gone \<longrightarrow> serve_step env (Worker_Moves ok) s' \<noteq> None)))"
proof (intro conjI impI)
  have inv: "serve_ok env s" by (rule serve_run_ok [OF serving_ok assms])
  show "\<exists>s1. serve_step env Grace_Over s = Some s1 \<and> sv_phase s1 = Drain_Done \<and> sv_conns s1 = []" if "sv_phase s = In_Drain"
    using that by simp
  show "\<exists>s1. serve_step env Close_Exporters s = Some s1 \<and> sv_phase s1 = Exporters_Closed \<and> sv_conns s1 = []"
    if "sv_phase s = Drain_Done" using that inv by (simp add: serve_ok_def)
  assume closed: "sv_phase s = Exporters_Closed \<and> serve_run env ls s = Some s'"
  with inv have "shut s" by (auto simp: serve_ok_def shut_def before_close_def)
  with closed have q: "sv_queue s' = qrun env (map Worker (write_answers ls)) (sv_queue s)" using shut_run by blast
  from inv obtain h where h: "sv_queue s = qrun env h spawn" by (auto simp: serve_ok_def queue_reachable_def)
  have "\<not> q_open (qrun env h spawn)" using \<open>shut s\<close> h by (simp add: shut_def)
  then have drained: "work (sv_queue s) \<le> length (write_answers ls) \<Longrightarrow> let q = sv_queue s' in
      q_worker q = Gone \<and> q_samples q = [] \<and> q_accepted q \<in> shuffles (q_written q) (q_lost q)"
    unfolding q h by (intro exporter_drains) (simp_all add: worker_turns_map)
  have acc: "accounted (sv_queue s')"
    using serve_run_ok [OF inv, of ls s'] closed reachable_accounted [of env "sv_queue s'"] by (simp add: serve_ok_def)
  show "let q = sv_queue s' in q_accepted q = q_accepted (sv_queue s)
      \<and> (work (sv_queue s) \<le> length (write_answers ls) \<longrightarrow>
           q_worker q = Gone \<and> q_samples q = [] \<and> q_accepted q \<in> shuffles (q_written q) (q_lost q))
      \<and> mset (q_accepted q) = mset (q_written q) + mset (q_lost q) + mset (in_hand (q_worker q)) + mset (q_samples q)
      \<and> q_dropped q = of_nat (length (q_refused q) + length (q_lost q))
      \<and> (sv_phase s' \<noteq> Process_Gone \<longrightarrow> serve_step env (Worker_Moves ok) s' \<noteq> None)"
    unfolding Let_def
  proof (intro conjI impI)
    show "q_accepted (sv_queue s') = q_accepted (sv_queue s)" by (simp add: q worker_run_accepts)
    show "mset (q_accepted (sv_queue s')) = mset (q_written (sv_queue s')) + mset (q_lost (sv_queue s'))
        + mset (in_hand (q_worker (sv_queue s'))) + mset (q_samples (sv_queue s'))" by (rule accounted_parts [OF acc])
    show "q_dropped (sv_queue s') = of_nat (length (q_refused (sv_queue s')) + length (q_lost (sv_queue s')))"
      using acc by (simp add: accounted_def)
  qed (use drained in \<open>simp_all add: Let_def\<close>)
qed

section \<open>Witnesses\<close>

lemma drain_begins:
  "serve_run env [Accept 1, Spawn_Export 1 m, Run_Export 0, Signal] serving =
     Some (serving\<lparr>sv_phase := In_Drain, sv_conns := [1], sv_queue := spawn\<lparr>q_samples := [m], q_accepted := [m]\<rparr>,
       sv_sampled := [m], sv_offered := [m]\<rparr>)"
  by (simp add: serving_def spawn_def run_export_def enqueue_def CAPACITY_def)

theorem exporters_close_after_drain_witness:
  "let s = serving\<lparr>sv_phase := In_Drain, sv_conns := [1], sv_queue := spawn\<lparr>q_samples := [sample_metrics], q_accepted := [sample_metrics]\<rparr>,
       sv_sampled := [sample_metrics], sv_offered := [sample_metrics]\<rparr>
   in q_open (sv_queue s) \<and> sv_late s = [] \<and> mset (sv_sampled s) = mset (q_samples (sv_queue s))"
  using exporters_close_after_drain [OF drain_begins [of sample_env sample_metrics]]
  by (simp add: serving_def spawn_def)

text \<open>One sample queued when the exporters close, and a schedule with the end of the process behind the worker's.\<close>

theorem shutdown_completes_witness:
  "\<exists>s'. serve_run sample_env (replicate 12 (Worker_Moves True) @ [Join_Over])
        (serving\<lparr>sv_phase := Exporters_Closed, sv_queue := spawn\<lparr>q_open := False, q_samples := [sample_metrics], q_accepted := [sample_metrics]\<rparr>,
           sv_sampled := [sample_metrics], sv_offered := [sample_metrics]\<rparr>) = Some s'
    \<and> sv_phase s' = Process_Gone \<and> q_worker (sv_queue s') = Gone
    \<and> q_accepted (sv_queue s') = [sample_metrics]
    \<and> q_accepted (sv_queue s') \<in> shuffles (q_written (sv_queue s')) (q_lost (sv_queue s'))"
proof -
  let ?q = "spawn\<lparr>q_open := False, q_samples := [sample_metrics], q_accepted := [sample_metrics]\<rparr>"
  let ?s = "serving\<lparr>sv_phase := Exporters_Closed, sv_queue := ?q, sv_sampled := [sample_metrics], sv_offered := [sample_metrics]\<rparr>"
  let ?ls = "replicate 12 (Worker_Moves True) @ [Join_Over]"
  have before: "serve_run sample_env [Accept 1, Spawn_Export 1 sample_metrics, Run_Export 0, Signal, Grace_Over, Close_Exporters] serving
      = Some ?s"
    by (simp add: serving_def spawn_def run_export_def enqueue_def CAPACITY_def close_samples_def)
  have moves: "sv_phase s = Exporters_Closed \<Longrightarrow> \<exists>s'. serve_run env (replicate n (Worker_Moves True) @ [Join_Over]) s = Some s'
      \<and> sv_phase s' = Process_Gone" for n env and s :: serve_state
    by (induction n arbitrary: s) simp_all
  from moves [of ?s sample_env 12] obtain s' where s': "serve_run sample_env ?ls ?s = Some s'" "sv_phase s' = Process_Gone" by auto
  have "write_answers (replicate n (Worker_Moves b) @ [Join_Over]) = replicate n b" for n b by (induction n) simp_all
  then have enough: "work (sv_queue ?s) \<le> length (write_answers ?ls)" by (simp add: work_def spawn_def)
  have "let q = sv_queue s' in q_accepted q = q_accepted (sv_queue ?s)
        \<and> (work (sv_queue ?s) \<le> length (write_answers ?ls) \<longrightarrow>
             q_worker q = Gone \<and> q_samples q = [] \<and> q_accepted q \<in> shuffles (q_written q) (q_lost q))
        \<and> mset (q_accepted q) = mset (q_written q) + mset (q_lost q) + mset (in_hand (q_worker q)) + mset (q_samples q)
        \<and> q_dropped q = of_nat (length (q_refused q) + length (q_lost q))
        \<and> (sv_phase s' \<noteq> Process_Gone \<longrightarrow> serve_step sample_env (Worker_Moves True) s' \<noteq> None)"
    by (rule shutdown_completes [OF before, THEN conjunct2, THEN conjunct2, THEN mp]) (use s'(1) in simp)
  with enough s' show ?thesis by (auto simp: Let_def)
qed

end
