(* ===== verification/Stream_Observer.thy ===== *)
theory Stream_Observer
  imports Handler Unix_Path
begin

text \<open>
  What happens behind a streamed answer: the observer task of \<^verbatim>\<open>llama-proxy/src/proxy/streaming.rs\<close> that waits for
  the end of a pass-through and then counts, measures and dumps it, and the dumps of both kinds of answer
  (\<^verbatim>\<open>proxy/streaming.rs\<close>, \<^verbatim>\<open>proxy/handler.rs\<close>).

  The observer is a task of its own: it works on the shared state after the request that started it is done. The
  file system of the dumps is a map with an oracle for failing operations; the pretty printer of \<^verbatim>\<open>serde_json\<close>
  and the debug rendering of a string are parameters.
\<close>

section \<open>Dumps\<close>

datatype fs_op = Make_Dir string | Create_File string | Write_File string string

record dump_env =
  du_serde :: serde_env
  du_pretty :: "json \<Rightarrow> (string, string) result"
  du_debug :: "string \<Rightarrow> string"
  du_id :: string

record dump_args =
  da_method :: string
  da_uri :: string
  da_request :: string
  da_request_type :: "string option"
  da_status :: nat
  da_response :: string
  da_response_type :: "string option"
  da_variant :: "string option"

text \<open>A body that is JSON is written pretty-printed, any other as it is. The error is that of the pretty printer.\<close>

definition body_ops :: "dump_env \<Rightarrow> string \<Rightarrow> string \<Rightarrow> fs_op list \<times> string option" where
  "body_ops du file body = (case parse_value (du_serde du) body of
       Some v \<Rightarrow> (case du_pretty du v of
           Inr s \<Rightarrow> ([Create_File file, Write_File file s, Write_File file [NEWLINE]], None)
         | Inl e \<Rightarrow> ([Create_File file], Some e))
     | None \<Rightarrow> ([Create_File file, Write_File file body], None))"

definition debug_opt :: "dump_env \<Rightarrow> string option \<Rightarrow> string" where
  "debug_opt du s = (case s of None \<Rightarrow> ''None'' | Some t \<Rightarrow> ''Some('' @ du_debug du t @ '')'')"

definition meta_text :: "dump_env \<Rightarrow> dump_args \<Rightarrow> string" where
  "meta_text du a = join [NEWLINE]
     ([''Request:'', ''  Method: '' @ da_method a, ''  URI: '' @ da_uri a, ''  Content-Type: '' @ debug_opt du (da_request_type a),
       ''  Body Size: '' @ digits (length (da_request a)) @ '' bytes'', [], ''Response:'', ''  Status: '' @ digits (da_status a),
       ''  Content-Type: '' @ debug_opt du (da_response_type a), ''  Body Size: '' @ digits (length (da_response a)) @ '' bytes'']
      @ (case da_variant a of
           None \<Rightarrow> []
         | Some v \<Rightarrow> [''  Decoded Variant: res.'' @ get_extension (da_response_type a) @ ''.decoded ('' @ digits (length v) @ '' bytes)''])
      @ [[]])"

text \<open>Steps in order; a failing pretty printer ends them.\<close>

definition then_ops :: "fs_op list \<times> string option \<Rightarrow> fs_op list \<times> string option \<Rightarrow> fs_op list \<times> string option" where
  "then_ops a b = (case snd a of Some e \<Rightarrow> a | None \<Rightarrow> (fst a @ fst b, snd b))"

definition dump_file :: "dump_env \<Rightarrow> string \<Rightarrow> string \<Rightarrow> string" where
  "dump_file du dump_path name = join_path (join_path dump_path (du_id du)) name"

definition dump_request_response :: "dump_env \<Rightarrow> string \<Rightarrow> dump_args \<Rightarrow> fs_op list \<times> string option" where
  "dump_request_response du dump_path a =
     (let file = dump_file du dump_path; res = ''res.'' @ get_extension (da_response_type a) in
      then_ops ([Make_Dir (join_path dump_path (du_id du))], None)
     (then_ops (body_ops du (file (''req.'' @ get_extension (da_request_type a))) (da_request a))
     (then_ops (body_ops du (file res) (da_response a))
     (then_ops (case da_variant a of
                  None \<Rightarrow> ([], None)
                | Some v \<Rightarrow> ([Create_File (file (res @ ''.decoded'')), Write_File (file (res @ ''.decoded'')) v], None))
               ([Create_File (file ''meta.txt''), Write_File (file ''meta.txt'') (meta_text du a)], None)))))"

text \<open>The sibling for streamed answers, which have no variant.\<close>

definition stream_get_extension :: "string option \<Rightarrow> string" where
  "stream_get_extension content_type = (case content_type of
       Some ct \<Rightarrow>
         (let l = to_ascii_lowercase ct in
          if str_contains l ''application/json'' then ''json''
          else if str_contains l ''application/xml'' \<or> str_contains l ''text/xml'' then ''xml'' else ''txt'')
     | None \<Rightarrow> ''txt'')"

definition stream_meta_text :: "dump_env \<Rightarrow> dump_args \<Rightarrow> string" where
  "stream_meta_text du a = join [NEWLINE]
     [''Request:'', ''  Method: '' @ da_method a, ''  URI: '' @ da_uri a, ''  Content-Type: '' @ debug_opt du (da_request_type a),
      ''  Body Size: '' @ digits (length (da_request a)) @ '' bytes'', [], ''Response:'', ''  Status: '' @ digits (da_status a),
      ''  Content-Type: '' @ debug_opt du (da_response_type a), ''  Body Size: '' @ digits (length (da_response a)) @ '' bytes'', []]"

definition stream_dump_request_response :: "dump_env \<Rightarrow> string \<Rightarrow> dump_args \<Rightarrow> fs_op list \<times> string option" where
  "stream_dump_request_response du dump_path a =
     (let file = dump_file du dump_path in
      then_ops ([Make_Dir (join_path dump_path (du_id du))], None)
     (then_ops (body_ops du (file (''req.'' @ stream_get_extension (da_request_type a))) (da_request a))
     (then_ops (body_ops du (file (''res.'' @ stream_get_extension (da_response_type a))) (da_response a))
               ([Create_File (file ''meta.txt''), Write_File (file ''meta.txt'') (stream_meta_text du a)], None))))"

text \<open>The operations on a disk; \<open>works\<close> says which of them the operating system carries out.\<close>

fun do_op :: "fs_op \<Rightarrow> (string \<Rightarrow> string option) \<Rightarrow> (string \<Rightarrow> string option)" where
  "do_op (Make_Dir p) disk = disk"
| "do_op (Create_File p) disk = disk(p \<mapsto> [])"
| "do_op (Write_File p s) disk = disk(p \<mapsto> some_or (disk p) [] @ s)"

fun do_ops :: "(fs_op \<Rightarrow> bool) \<Rightarrow> fs_op list \<Rightarrow> (string \<Rightarrow> string option) \<Rightarrow> bool \<times> (string \<Rightarrow> string option)" where
  "do_ops works [] disk = (True, disk)"
| "do_ops works (x # xs) disk = (if works x then do_ops works xs (do_op x disk) else (False, disk))"

text \<open>The dump of a buffered answer: the request as JSON, the backend's own bytes, and what the client got instead
  if that differs. Nothing is dumped for a request that was not JSON.\<close>

definition buffered_dump ::
  "serde_env \<Rightarrow> request \<Rightarrow> json option \<Rightarrow> backend_reply \<Rightarrow> string \<Rightarrow> bool \<Rightarrow> string \<Rightarrow> dump_args option" where
  "buffered_dump env rq request resp raw_body decoded final_body = map_option (\<lambda>req.
     \<lparr>da_method = rq_method rq, da_uri = path_and_query rq, da_request = (case print_value env req of Inr s \<Rightarrow> s | Inl _ \<Rightarrow> []),
      da_request_type = header_str (rq_headers rq) ''content-type'', da_status = br_status resp, da_response = raw_body,
      da_response_type = header_str (br_headers resp) ''content-type'',
      da_variant = (if decoded \<or> final_body \<noteq> raw_body then Some final_body else None)\<rparr>) request"

text \<open>The preview of a response in the debug log.\<close>

definition preview_field :: "json \<Rightarrow> json" where
  "preview_field v = (case v of JObj _ \<Rightarrow> JStr ''[object]'' | JArr _ \<Rightarrow> JStr ''[object]'' | _ \<Rightarrow> v)"

definition json_preview :: "(json \<Rightarrow> (string, string) result) \<Rightarrow> json \<Rightarrow> string" where
  "json_preview pretty v =
     (case pretty (case v of JObj m \<Rightarrow> JObj (put_all (map (\<lambda>(k, x). (k, preview_field x)) m) []) | _ \<Rightarrow> v) of
        Inr s \<Rightarrow> s | Inl _ \<Rightarrow> ''[failed to serialize]'')"

section \<open>The observer\<close>

record stream_dump =
  sd_path :: string
  sd_content_type :: "string option"
  sd_method :: string
  sd_uri :: string
  sd_request_json :: json
  sd_backend_request :: "string option"
  sd_status :: nat

record observer =
  ob_registry :: fix_registry
  ob_request :: "json option"
  ob_stats_enabled :: bool
  ob_max_plausible :: f64
  ob_group :: "string option"
  ob_concurrent :: u64
  ob_url :: string
  ob_api_key :: "string option"
  ob_dump :: "stream_dump option"

text \<open>Built for a framed stream whose analysis has a consumer.\<close>

definition observer_of ::
  "'c handler_config \<Rightarrow> ticket \<Rightarrow> request \<Rightarrow> json option \<Rightarrow> string option \<Rightarrow> backend_reply \<Rightarrow> 'c proxy_state \<Rightarrow> observer option" where
  "observer_of hc tk rq request sent_body resp st =
     (if to_ascii_lowercase (some_or (header_str (br_headers resp) ''content-encoding'') ''identity'') \<noteq> ''identity'' then None
      else if \<not> st_enabled (ac_stats (hc_config hc)) \<and> \<not> hc_dump hc then None
      else (let node = node_of tk (load_balancer_state st) in Some
        \<lparr>ob_registry = hc_registry hc, ob_request = request, ob_stats_enabled = st_enabled (ac_stats (hc_config hc)),
         ob_max_plausible = st_max_plausible_prefill_tps (ac_stats (hc_config hc)), ob_group = tk_name tk,
         ob_concurrent = concurrent_requests st, ob_url = base_url node, ob_api_key = n_api_key node,
         ob_dump = (if hc_dump hc then map_option (\<lambda>req.
             \<lparr>sd_path = dc_path (ac_dump (hc_config hc)), sd_content_type = header_str (br_headers resp) ''content-type'',
              sd_method = rq_method rq, sd_uri = path_and_query rq, sd_request_json = req, sd_backend_request = sent_body,
              sd_status = br_status resp\<rparr>) request else None)\<rparr>))"

definition tallied :: "stream_end \<Rightarrow> stream_counters \<Rightarrow> stream_counters" where
  "tallied e c =
     (let t = tally_end e \<lparr>truncated_total = stream_truncated_total c, stalled_total = stream_stalled_total c,
                           client_gone_total = stream_client_gone_total c\<rparr> in
      c\<lparr>stream_truncated_total := truncated_total t, stream_stalled_total := stalled_total t,
        stream_client_gone_total := client_gone_total t\<rparr>)"

fun incomplete :: "stream_end \<Rightarrow> bool" where
  "incomplete Completed = False"
| "incomplete ClientGone = False"
| "incomplete BackendClosed = True"
| "incomplete BackendError = True"
| "incomplete Stalled = True"

text \<open>The counter grows by the number of detected fixes; the log line is sampled on the count before it plus one.
  \<open>None\<close> is a panic of a fix.\<close>

definition note_unrepaired_fixes :: "serde_env \<Rightarrow> observer \<Rightarrow> json \<Rightarrow> stream_counters \<Rightarrow> ((u64 \<times> string list) option \<times> stream_counters) option" where
  "note_unrepaired_fixes env ob final c = map_option (\<lambda>detected.
     if detected = [] then (None, c)
     else (let n = fix_unrepaired_total c + 1 in
           (if warns_at n then Some (n, detected) else None,
            c\<lparr>fix_unrepaired_total := fix_unrepaired_total c + of_nat (length detected)\<rparr>)))
     (detect_fixes env (ob_registry ob) final (ob_request ob))"

definition stream_sample :: "('c, 'r) handler_env \<Rightarrow> observer \<Rightarrow> json \<Rightarrow> json \<Rightarrow> stream_end \<Rightarrow> request_metrics" where
  "stream_sample env ob final req e =
     (from_response (he_metric_id env) (he_metric_time env) final req True (he_elapsed_ms env))
       \<lparr>m_group_name := ob_group ob, m_concurrent_requests := Some (ob_concurrent ob), m_stream_incomplete := incomplete e,
        m_stream_end := Some (end_as_str e)\<rparr>"

text \<open>Unlike the buffered path this asks for the context window of the request's own model, and without a time limit.\<close>

definition with_context :: "('c, 'r) handler_env \<Rightarrow> observer \<Rightarrow> json \<Rightarrow> request_metrics \<Rightarrow> ctx_state \<Rightarrow> request_metrics \<times> ctx_state" where
  "with_context env ob req m ctx =
     (if \<not> has_throughput_signal m then (m, ctx)
      else (case fetch_context_total (he_serde env) (he_node_net env) (he_probe_at env) (he_probe_later env) (he_lock_free env)
                   (ob_url ob) (ob_api_key ob) (get_str req ''model'') ctx of
              (Some window, ctx') \<Rightarrow> (calculate_context_percent (m\<lparr>m_context_total := Some window\<rparr>), ctx')
            | (None, ctx') \<Rightarrow> (m, snd (warn_context_fetch_failed_once (ob_url ob) ctx'))))"

definition publish_stats :: "('c, 'r) handler_env \<Rightarrow> observer \<Rightarrow> json \<Rightarrow> stream_end \<Rightarrow> 'c proxy_state \<Rightarrow> 'c proxy_state" where
  "publish_stats env ob final e st = (case ob_request ob of
       None \<Rightarrow> st
     | Some req \<Rightarrow>
         (let (m, ctx) = with_context env ob req (stream_sample env ob final req e) (context_windows st);
              (export, cnt) = log_sample_and_should_export m (ob_max_plausible ob) (exports st);
              st1 = st\<lparr>context_windows := ctx, exports := cnt\<rparr> in
          if export then st1\<lparr>exported := exported st1 @ [m]\<rparr> else st1))"

definition stream_dump_args :: "serde_env \<Rightarrow> stream_dump \<Rightarrow> json \<Rightarrow> dump_args" where
  "stream_dump_args env d final =
     (let printed = (\<lambda>v. case print_value env v of Inr s \<Rightarrow> s | Inl _ \<Rightarrow> []) in
      \<lparr>da_method = sd_method d, da_uri = sd_uri d, da_request = some_or (sd_backend_request d) (printed (sd_request_json d)),
       da_request_type = Some ''application/json'', da_status = sd_status d, da_response = printed final,
       da_response_type = sd_content_type d, da_variant = None\<rparr>)"

text \<open>Behind the end. The first result is what is dumped, its \<open>None\<close> a panic of the task.\<close>

definition observed ::
  "('c, 'r) handler_env \<Rightarrow> observer \<Rightarrow> stream_end \<Rightarrow> string \<Rightarrow> 'c proxy_state \<Rightarrow> dump_args option option \<times> 'c proxy_state" where
  "observed env ob e acc st =
     (let st0 = st\<lparr>stream_stats := tallied e (stream_stats st)\<rparr> in
      if acc = [] then (Some None, st0)
      else (let text = from_utf8_lossy acc; c = stream_stats st0;
                c1 = c\<lparr>sse_unparsed_events_total := scan_unparsed_events (he_serde env) text (sse_unparsed_events_total c)\<rparr>;
                st1 = st0\<lparr>stream_stats := c1\<rparr> in
            case parse_accumulated_sse (he_serde env) text of
              None \<Rightarrow> (None, st1)
            | Some None \<Rightarrow> (Some None, st1)
            | Some (Some final) \<Rightarrow>
                (case note_unrepaired_fixes (he_serde env) ob final c1 of
                   None \<Rightarrow> (None, st1)
                 | Some (_, c2) \<Rightarrow>
                     (let st2 = st1\<lparr>stream_stats := c2\<rparr> in
                      (Some (map_option (\<lambda>d. stream_dump_args (he_serde env) d final) (ob_dump ob)),
                       if ob_stats_enabled ob then publish_stats env ob final e st2 else st2)))))"

text \<open>\<^verbatim>\<open>StreamObserver::run\<close>; \<open>None\<close> while the stream is alive. \<open>acc\<close> is what has been accumulated when it wakes.\<close>

definition run_observer ::
  "('c, 'r) handler_env \<Rightarrow> observer \<Rightarrow> (wake \<times> completion \<times> bool) list \<Rightarrow> string \<Rightarrow> 'c proxy_state
     \<Rightarrow> (dump_args option option \<times> 'c proxy_state) option" where
  "run_observer env ob wakes acc st = map_option (\<lambda>e. observed env ob e acc st) (await_end wakes)"

end
