(* ===== verification/Stream_Observer_Correct.thy ===== *)
theory Stream_Observer_Correct
  imports Stream_Observer Sse_Pass Claude_Stream
begin

text \<open>
  Correctness of \<open>Stream_Observer\<close>: the observer of a stream sees the bytes the client got and reports the end the
  pass-through signalled, once; what it measures of a stream is what the buffered path measures of the response
  the stream was made from; and what a dump leaves on the disk.
\<close>

section \<open>The observed bytes\<close>

lemma emit_accumulates: "ps_accumulated (emit_block out s) = map_option (\<lambda>a. a @ out) (ps_accumulated s)"
  by (simp add: emit_block_def maybe_accumulate_def activity_def Let_def split_beta)

lemma count_keeps_accumulated [simp]:
  "ps_accumulated (count_events n s) = ps_accumulated s" "ps_accumulated (activity s) = ps_accumulated s"
  by (simp_all add: count_events_def activity_def)

lemma advances_accumulates:
  "advances s r s' \<Longrightarrow> ps_accumulated s' =
     map_option (\<lambda>a. a @ (case r of None \<Rightarrow> [] | Some item \<Rightarrow> item_bytes item)) (ps_accumulated s)"
  by (induction s r s' rule: advances.induct) (auto simp: emit_accumulates map_option.identity option.map_ident)

text \<open>The client reads the body poll by poll and may stop at any poll: the items of the first polls, whether
  the stream has ended, and the state it is in.\<close>

fun polls :: "nat \<Rightarrow> pass_state \<Rightarrow> stream_item list \<times> bool \<times> pass_state" where
  "polls 0 s = ([], False, s)"
| "polls (Suc k) s = (case advance_stream s of
       (None, s') \<Rightarrow> ([], True, s')
     | (Some item, s') \<Rightarrow> (case polls k s' of (out, over, s'') \<Rightarrow> (item # out, over, s'')))"

lemma polls_accumulate:
  "polls k s = (out, over, s') \<Longrightarrow> ps_accumulated s' = map_option (\<lambda>a. a @ bytes_of out) (ps_accumulated s)"
proof (induction k arbitrary: s out)
  case 0
  then show ?case by (simp add: bytes_of_def option.map_ident)
next
  case (Suc k)
  obtain r s1 where a: "advance_stream s = (r, s1)" by force
  with advance_advances [of s] have adv: "advances s r s1" by simp
  show ?case
  proof (cases r)
    case None
    with Suc.prems a advances_accumulates [OF adv] show ?thesis by (auto simp: bytes_of_def)
  next
    case (Some item)
    with Suc.prems a obtain out1 where p: "polls k s1 = (out1, over, s')" "out = item # out1"
      by (auto split: prod.splits)
    from Suc.IH [OF p(1)] advances_accumulates [OF adv] Some p(2) show ?thesis
      by (simp add: bytes_of_def option.map_comp comp_def)
  qed
qed

text \<open>What the completion channel holds after those polls: by what the client has got so far.\<close>

definition channel_value :: "stream_item list \<Rightarrow> bool \<Rightarrow> stream_end option" where
  "channel_value out over = (if completed_by out then Some Completed
     else if errors_of out \<noteq> [] then Some BackendError
     else if over then Some BackendClosed else None)"

lemma polls_quiet: "quiet s \<Longrightarrow> polls k s = (out, over, s') \<Longrightarrow> out = []"
proof (cases k)
  case (Suc k')
  assume q: "quiet s" and p: "polls k s = (out, over, s')"
  obtain r s1 where a: "advance_stream s = (r, s1)" by force
  with advance_advances [of s] quiet_stops q have "r = None" by (metis fst_conv snd_conv)
  with p a Suc show ?thesis by simp
qed simp

lemma channel_value_simps:
  "channel_value (Inr b # out) over = (if block_completes b then Some Completed else channel_value out over)"
  "channel_value [Inl e] over = Some BackendError"
  by (simp_all add: channel_value_def completed_by_def blocks_of_def errors_of_def)

lemma polls_report:
  "polls k s = (out, over, s') \<Longrightarrow> fused s \<Longrightarrow> signal_ok s \<Longrightarrow>
     ps_completion s' = (case channel_value out over of Some e \<Rightarrow> signal_end e (ps_completion s) | None \<Rightarrow> ps_completion s)"
proof (induction k arbitrary: s out)
  case 0
  then show ?case by (auto simp: channel_value_def completed_by_def blocks_of_def errors_of_def)
next
  case (Suc k)
  obtain r s1 where a: "advance_stream s = (r, s1)" by force
  with advance_advances [of s] have adv: "advances s r s1" by simp
  show ?case
  proof (cases r)
    case None
    with Suc.prems a have "out = []" "over" "s' = s1" by auto
    then show ?thesis using advances_stop [OF adv None Suc.prems(2)] Suc.prems(3)
      by (auto simp: channel_value_def completed_by_def blocks_of_def errors_of_def signal_ok_def signal_end_def)
  next
    case (Some item)
    with Suc.prems(1) a obtain out1 where p: "polls k s1 = (out1, over, s')" "out = item # out1"
      by (auto split: prod.splits)
    have f: "fused s1" using advances_fused [OF adv Suc.prems(2)] .
    show ?thesis
    proof (cases item)
      case (Inr b)
      note blk = advances_block [OF adv, of b]
      have "signal_ok s1" using blk Some Inr Suc.prems(3) by (auto simp: signal_ok_def signal_end_def)
      from Suc.IH [OF p(1) f this] blk Some Inr p(2) show ?thesis
        by (auto simp: channel_value_simps signal_end_def split: option.splits)
    next
      case (Inl e)
      note err = advances_error [OF adv _ Suc.prems(2), of e]
      then have "quiet s1" using Some Inl by (simp add: quiet_def)
      with polls_quiet p(1) have "out1 = []" by blast
      moreover have "signal_ok s1" using err Some Inl by (auto simp: signal_ok_def)
      ultimately show ?thesis using Suc.IH [OF p(1) f] err Some Inl p(2)
        by (auto simp: channel_value_simps signal_end_def channel_value_def completed_by_def blocks_of_def errors_of_def)
    qed
  qed
qed

text \<open>Enough polls read the stream to its end.\<close>

lemma polls_all: "polls (Suc (length (fst (pass_all s)))) s = (fst (pass_all s), True, snd (pass_all s))"
proof (induction s rule: pass_all.induct)
  case (1 s)
  show ?case
  proof (cases "advance_stream s")
    case (Pair r s1)
    then show ?thesis using 1 by (cases r) (auto simp: pass_all.simps [of s] split_beta Let_def)
  qed
qed

lemma await_after_activity: "await_end (map (\<lambda>tx. (WakeActivity, tx, False)) txs @ ws) = await_end ws"
  by (induction txs) auto

section \<open>What an observer does to the shared state\<close>

lemma observed_counters:
  "stream_truncated_total (stream_stats (snd (observed env ob e acc st))) = stream_truncated_total (tallied e (stream_stats st))"
  "stream_stalled_total (stream_stats (snd (observed env ob e acc st))) = stream_stalled_total (tallied e (stream_stats st))"
  "stream_client_gone_total (stream_stats (snd (observed env ob e acc st))) = stream_client_gone_total (tallied e (stream_stats st))"
  by (auto simp: observed_def Let_def publish_stats_def note_unrepaired_fixes_def split: option.splits prod.splits if_splits)

lemma observed_frame:
  "load_balancer_state (snd (observed env ob e acc st)) = load_balancer_state st"
  "permits (snd (observed env ob e acc st)) = permits st"
  "concurrent_requests (snd (observed env ob e acc st)) = concurrent_requests st"
  "sent (snd (observed env ob e acc st)) = sent st"
  by (auto simp: observed_def Let_def publish_stats_def split: option.splits prod.splits)

text \<open>A sample that describes the stream it was taken from.\<close>

definition sample_of_end :: "stream_end \<Rightarrow> request_metrics \<Rightarrow> bool" where
  "sample_of_end e m = (has_throughput_signal m \<and> m_streaming m \<and> m_stream_end m = Some (end_as_str e)
     \<and> m_stream_incomplete m = (e \<in> {BackendClosed, BackendError, Stalled}))"

lemma incomplete_iff: "incomplete e \<longleftrightarrow> e \<in> {BackendClosed, BackendError, Stalled}"
  by (cases e) simp_all

lemma llama_streaming [simp]: "m_streaming (llama_timings t m) = m_streaming m"
  by (simp add: llama_timings_def timings_counts_def Let_def)

lemma vllm_streaming [simp]: "m_streaming (extract_vllm_usage r m) = m_streaming m"
  by (auto simp: extract_vllm_usage_def vllm_prefill_def vllm_decode_def Let_def split: option.splits)

lemma usage_streaming [simp]: "m_streaming (extract_usage r m) = m_streaming m"
  by (auto simp: extract_usage_def usage_counts_def Let_def split: option.splits)

lemma lengths_streaming [simp]: "m_streaming (extract_length_fallbacks r q m) = m_streaming m"
  by (auto simp: extract_length_fallbacks_def response_lengths_def Let_def split: option.splits list.splits)

lemma rates_streaming [simp]: "m_streaming (overall_rates m) = m_streaming m"
  by (simp add: overall_rates_def Let_def)

lemma from_response_streaming: "m_streaming (from_response i t r q b d) = b"
proof -
  have "m_streaming (extract_timings r m) = m_streaming m" for m
    by (auto simp: extract_timings_def split: option.splits)
  then show ?thesis by (simp add: from_response_def Let_def)
qed

lemma with_context_keeps:
  assumes "with_context env ob req m ctx = (m', ctx')"
  shows "m_streaming m' = m_streaming m" "m_stream_end m' = m_stream_end m" "m_stream_incomplete m' = m_stream_incomplete m"
  using assms by (auto simp: with_context_def calculate_context_percent_def split: if_splits option.splits prod.splits)

lemma published:
  "exported (publish_stats env ob final e st) = exported st
   \<or> (\<exists>m. exported (publish_stats env ob final e st) = exported st @ [m] \<and> sample_of_end e m)"
proof (cases "ob_request ob")
  case (Some req)
  obtain m ctx where m: "with_context env ob req (stream_sample env ob final req e) (context_windows st) = (m, ctx)" by force
  note k = with_context_keeps [OF m]
  have "m_streaming m" "m_stream_end m = Some (end_as_str e)" "m_stream_incomplete m = incomplete e"
    by (simp_all add: k stream_sample_def from_response_streaming)
  then show ?thesis
    by (auto simp: publish_stats_def Some m Let_def sample_of_end_def incomplete_iff log_sample_and_should_export_def)
qed (simp add: publish_stats_def)

lemma observed_exports:
  "exported (snd (observed env ob e acc st)) = exported st
   \<or> (\<exists>m. exported (snd (observed env ob e acc st)) = exported st @ [m] \<and> sample_of_end e m)"
proof -
  have "exported (publish_stats env ob final e (st\<lparr>stream_stats := c\<rparr>)) = exported st
      \<or> (\<exists>m. exported (publish_stats env ob final e (st\<lparr>stream_stats := c\<rparr>)) = exported st @ [m] \<and> sample_of_end e m)"
    for final c using published [of env ob final e "st\<lparr>stream_stats := c\<rparr>"] by simp
  then show ?thesis by (auto simp: observed_def Let_def split: option.splits prod.splits)
qed

text \<open>What ends the observer's wait: the completion channel when it holds a value or its sender is gone, the
  activity channel when its sender is gone, the inactivity timeout at any time.\<close>

fun ends_wait :: "wake \<Rightarrow> completion \<Rightarrow> bool \<Rightarrow> bool" where
  "ends_wait WakeCompletion tx dropped = (tx_sent tx \<noteq> None \<or> dropped)"
| "ends_wait WakeActivity tx dropped = dropped"
| "ends_wait WakeTimeout tx dropped = True"

lemma ends_wait_end:
  "ends_wait w tx dropped \<Longrightarrow> await_end [(w, tx, dropped)]
     = Some (some_or (tx_sent tx) (if w = WakeTimeout \<and> \<not> dropped then Stalled else ClientGone))"
  by (cases w) (auto simp: resolve_end_reason_def split: option.splits)

lemma tallied_counts:
  "stream_truncated_total (tallied e c) = stream_truncated_total c + (if e \<in> {BackendClosed, BackendError} then 1 else 0)"
  "stream_stalled_total (tallied e c) = stream_stalled_total c + (if e = Stalled then 1 else 0)"
  "stream_client_gone_total (tallied e c) = stream_client_gone_total c + (if e = ClientGone then 1 else 0)"
  by (cases e; simp add: tallied_def Let_def)+

text \<open>C23. A stream is observed once and truly, however it ends. Take any body, a client that has read any
  number of polls of the pass-through, any activity wakes before, and any wake that ends the observer's wait
  then: the completion channel, a closed activity channel or the timeout, the client still there or gone. Until
  the bytes are copied the client may have read on. The observer analyses exactly the bytes delivered by then
  and ends. The end it takes is the truth at the wake: completed when a delivered block held a terminal event,
  else a backend error when the client got one, else closed by the backend when the stream was over, else
  stalled on a timeout with the client there, else the client is gone. Exactly the counter of that end grows,
  by one; at most one sample is exported, labelled with that end and incomplete exactly for a truncated or
  stalled one; permits, claims, the request gauge and the requests sent are untouched.\<close>

theorem stream_observed_truly:
  assumes "polls i (pass_new items True n) = (out, over, p)"
    and "polls (i + j) (pass_new items True n) = (out', over', p')"
    and "ends_wait w (ps_completion p) dropped"
  defines "e \<equiv> if completed_by out then Completed else if errors_of out \<noteq> [] then BackendError
      else if over then BackendClosed else if w = WakeTimeout \<and> \<not> dropped then Stalled else ClientGone"
  shows "some_or (ps_accumulated p') [] = bytes_of out'
   \<and> (\<exists>d st'. run_observer env ob (map (\<lambda>tx. (WakeActivity, tx, False)) txs @ [(w, ps_completion p, dropped)])
           (some_or (ps_accumulated p') []) st = Some (d, st')
       \<and> observed env ob e (bytes_of out') st = (d, st')
       \<and> stream_truncated_total (stream_stats st') = stream_truncated_total (stream_stats st)
           + (if e \<in> {BackendClosed, BackendError} then 1 else 0)
       \<and> stream_stalled_total (stream_stats st') = stream_stalled_total (stream_stats st) + (if e = Stalled then 1 else 0)
       \<and> stream_client_gone_total (stream_stats st') = stream_client_gone_total (stream_stats st) + (if e = ClientGone then 1 else 0)
       \<and> (exported st' = exported st \<or> (\<exists>m. exported st' = exported st @ [m] \<and> sample_of_end e m))
       \<and> load_balancer_state st' = load_balancer_state st \<and> permits st' = permits st
       \<and> concurrent_requests st' = concurrent_requests st \<and> sent st' = sent st)"
proof -
  let ?s = "pass_new items True n"
  have s: "fused ?s" "signal_ok ?s" "ps_completion ?s = \<lparr>tx_live = True, tx_sent = None\<rparr>" "ps_accumulated ?s = Some []"
    by (simp_all add: pass_new_def fused_def signal_ok_def)
  have acc: "some_or (ps_accumulated p') [] = bytes_of out'" using polls_accumulate [OF assms(2)] s(4) by simp
  have sent: "tx_sent (ps_completion p) = channel_value out over"
    using polls_report [OF assms(1) s(1,2)] s(3) by (simp add: signal_end_def split: option.splits)
  have "await_end (map (\<lambda>tx. (WakeActivity, tx, False)) txs @ [(w, ps_completion p, dropped)]) = Some e"
    using ends_wait_end [OF assms(3)] sent by (simp add: await_after_activity e_def channel_value_def)
  then have run: "run_observer env ob (map (\<lambda>tx. (WakeActivity, tx, False)) txs @ [(w, ps_completion p, dropped)]) b st
      = Some (observed env ob e b st)" for b
    by (simp add: run_observer_def)
  obtain d st' where o: "observed env ob e (bytes_of out') st = (d, st')" by force
  note st' = observed_exports [of env ob e "bytes_of out'" st] observed_counters [of env ob e "bytes_of out'" st]
    observed_frame [of env ob e "bytes_of out'" st]
  show ?thesis
    unfolding acc run o using st' [unfolded o snd_conv tallied_counts]
    by (intro conjI refl exI [of _ d] exI [of _ st'] o) simp_all
qed

text \<open>A connection that breaks before anything arrived: the client gets the error at the first poll, and the
  observer counts one truncated stream.\<close>

lemma broken_polls:
  "\<exists>p. polls 1 (pass_new [Inl ''reset''] True 0) = ([Inl ''reset''], False, p) \<and> tx_sent (ps_completion p) = Some BackendError"
proof -
  obtain out over p where p: "polls 1 (pass_new [Inl ''reset''] True 0) = (out, over, p)" by (metis prod_cases3)
  have "fst (advance_stream (pass_new [Inl ''reset''] True 0)) = Some (Inl ''reset'')"
    by (simp add: advance_stream.simps pass_new_def framing_new_def take_framed_def framing_finish_def drain_error_def
        fused_next_def Let_def)
  with p have out: "out = [Inl ''reset'']" "\<not> over" by (auto simp: split_beta split: option.splits)
  have "ps_completion p = signal_end BackendError \<lparr>tx_live = True, tx_sent = None\<rparr>"
    using polls_report [OF p] out by (simp add: fused_def signal_ok_def channel_value_simps) (simp add: pass_new_def)
  with p out show ?thesis by (simp add: signal_end_def)
qed

theorem stream_observed_truly_witness:
  "\<forall>(env :: (unit, unit) handler_env) ob st. \<exists>p d st'.
     polls 1 (pass_new [Inl ''reset''] True 0) = ([Inl ''reset''], False, p)
     \<and> run_observer env ob [(WakeActivity, ps_completion p, False), (WakeCompletion, ps_completion p, False)]
         (some_or (ps_accumulated p) []) st = Some (d, st')
     \<and> stream_truncated_total (stream_stats st') = stream_truncated_total (stream_stats st) + 1"
proof (intro allI)
  fix env :: "(unit, unit) handler_env" and ob st
  obtain p where p: "polls 1 (pass_new [Inl ''reset''] True 0) = ([Inl ''reset''], False, p)" "tx_sent (ps_completion p) = Some BackendError"
    using broken_polls by blast
  have p': "polls (1 + 0) (pass_new [Inl ''reset''] True 0) = ([Inl ''reset''], False, p)" using p(1) by simp
  have e: "\<not> completed_by [Inl ''reset'']" "errors_of [Inl ''reset''] \<noteq> []"
    by (simp_all add: completed_by_def blocks_of_def errors_of_def)
  have w: "ends_wait WakeCompletion (ps_completion p) False" using p(2) by simp
  from stream_observed_truly [OF p(1) p' w, of env ob "[ps_completion p]" st] e obtain d st' where
    "run_observer env ob [(WakeActivity, ps_completion p, False), (WakeCompletion, ps_completion p, False)]
       (some_or (ps_accumulated p) []) st = Some (d, st')"
    "stream_truncated_total (stream_stats st') = stream_truncated_total (stream_stats st) + 1"
    by (simp only: if_True if_False not_False_eq_True list.map append.simps) auto
  with p(1) show "\<exists>p d st'. polls 1 (pass_new [Inl ''reset''] True 0) = ([Inl ''reset''], False, p)
     \<and> run_observer env ob [(WakeActivity, ps_completion p, False), (WakeCompletion, ps_completion p, False)]
         (some_or (ps_accumulated p) []) st = Some (d, st')
     \<and> stream_truncated_total (stream_stats st') = stream_truncated_total (stream_stats st) + 1"
    by blast
qed

section \<open>Metrics of a merged stream\<close>

text \<open>A field that every chunk carries alike is carried by the merged response.\<close>

definition carried :: "string \<Rightarrow> bool" where
  "carried k = (k \<in> {''model'', ''metrics''})"

lemma field_kept:
  "when_some (get v j) (set_when q j) a = Some b \<Longrightarrow> k \<noteq> j \<or> get v k = get a k \<Longrightarrow> get b k = get a k"
  by (auto simp: when_some_def set_when_def index_set_get split: option.splits if_splits)

lemma stats_carry:
  assumes "merge_stream_stats v a = Some b" "get v k = get a k"
  shows "get b k = get a k"
proof -
  from assms(1) obtain a1 a2 a3 where
    "when_some (get v ''usage'') (set_when False ''usage'') a = Some a1"
    "when_some (get v ''model'') (set_when True ''model'') a1 = Some a2"
    "when_some (get v ''timings'') (set_when False ''timings'') a2 = Some a3"
    "when_some (get v ''metrics'') (set_when True ''metrics'') a3 = Some b"
    unfolding merge_stream_stats_def bind_eq_Some_conv by blast
  from this [THEN field_kept, of k] assms(2) show ?thesis by metis
qed

lemma merge_into_carries:
  assumes "merge_into a v = Some b" "carried k" "get v k = get a k"
  shows "get b k = get a k"
proof -
  from assms(1,2) obtain a' where a': "merge_stream_stats v a' = Some b" "get a' k = get a k"
    by (auto simp: merge_into_def bind_eq_Some_conv carried_def get_update_key split: option.splits)
  with stats_carry [OF a'(1)] assms(3) show ?thesis by simp
qed

lemma merge_chunk_carries:
  assumes "merge_chunk acc v = Some b" "carried k" "is_none_or (\<lambda>a. get a k = get v k) acc"
  shows "get b k = get v k"
proof (cases acc)
  case None
  with assms obtain a where "merge_into a v = Some b" "get a k = get v k"
    by (auto simp: merge_chunk_def bind_eq_Some_conv carried_def get_update_key index_set_get split: if_splits)
  with merge_into_carries assms(2) show ?thesis by simp
next
  case (Some a)
  with assms merge_into_carries [of a v b k] show ?thesis by (simp add: merge_chunk_def)
qed

lemma merge_all_carries:
  "merge_all acc vs = Some (Some r) \<Longrightarrow> carried k \<Longrightarrow> list_all (\<lambda>v. get v k = x) vs
     \<Longrightarrow> is_none_or (\<lambda>a. get a k = x) acc \<Longrightarrow> get r k = x"
proof (induction vs arbitrary: acc)
  case (Cons v vs)
  then obtain b where b: "merge_chunk acc v = Some b" "merge_all (Some b) vs = Some (Some r)" by (auto simp: bind_eq_Some_conv)
  with Cons.prems merge_chunk_carries [OF b(1)] have "get b k = x" by auto
  with Cons b(2) show ?case by simp
qed simp

lemma put_all_extras:
  "keys_distinct es \<Longrightarrow> map_of (put_all es m) k = (case map_of es k of Some v \<Rightarrow> Some v | None \<Rightarrow> map_of m k)"
proof (induction es arbitrary: m)
  case (Cons e es)
  obtain j v where e: "e = (j, v)" by force
  with Cons.prems have "keys_distinct es" "map_of es j = None" by (auto simp: keys_distinct_def map_of_eq_None_iff)
  with Cons.IH [of "jmap_insert j v m"] e show ?case by (auto simp: put_all_def map_of_jmap_insert split: option.splits)
qed (simp add: put_all_def)

lemma map_of_extras: "map_of (filter (\<lambda>(k, v). k \<notin> S) m) j = (if j \<in> S then None else map_of m j)"
  by (induction m) auto

lemma as_str_eq: "as_str v = Some s \<longleftrightarrow> v = JStr s"
  by (cases v) auto

lemma as_array_eq: "as_array v = Some xs \<longleftrightarrow> v = JArr xs"
  by (cases v) auto

lemma parse_fields:
  assumes "parse_raw_completion now raw = Ok p" "wf_json raw"
  shows "get raw ''model'' = Some (JStr (sm_model (raw_meta p)))" "map_of (sm_extras (raw_meta p)) ''metrics'' = get raw ''metrics''"
    "keys_distinct (sm_extras (raw_meta p))" "get raw ''choices'' = Some (JArr (raw_choices p))"
    "raw_usage p = keep is_object (get raw ''usage'')" "raw_timings p = keep is_object (get raw ''timings'')"
proof -
  obtain obj where obj: "raw = JObj obj" using assms(1) by (cases raw) (auto simp: parse_raw_completion_def)
  have "keys_distinct obj" using assms(2) obj by simp
  then have "keys_distinct (filter P obj)" for P by (auto simp: keys_distinct_def distinct_map_filter)
  then show "keys_distinct (sm_extras (raw_meta p))"
    using assms(1) unfolding obj by (auto simp: parse_raw_completion_def split: option.splits if_splits sum.splits)
  have "map_of obj ''model'' = Some (JStr (sm_model (raw_meta p)))" "map_of obj ''choices'' = Some (JArr (raw_choices p))"
    using assms(1) unfolding obj
    by (auto simp: parse_raw_completion_def as_str_eq as_array_eq bind_eq_Some_conv split: option.splits if_splits sum.splits)
  then show "get raw ''model'' = Some (JStr (sm_model (raw_meta p)))" "get raw ''choices'' = Some (JArr (raw_choices p))"
    by (simp_all add: obj)
  have rest: "sm_extras (raw_meta p) = filter (\<lambda>(k, v). k \<notin> set KNOWN_FIELDS) obj"
    "raw_usage p = keep is_object (map_of obj ''usage'')" "raw_timings p = keep is_object (map_of obj ''timings'')"
    using assms(1) unfolding obj
    by (auto simp: parse_raw_completion_def keep_def split: option.splits if_splits sum.splits)
  then show "raw_usage p = keep is_object (get raw ''usage'')" "raw_timings p = keep is_object (get raw ''timings'')"
    by (simp_all add: obj)
  show "map_of (sm_extras (raw_meta p)) ''metrics'' = get raw ''metrics''"
    unfolding rest(1) map_of_extras by (simp add: obj KNOWN_FIELDS_def)
qed

lemma envelope_carried:
  assumes "meta_ok meta" "keys_distinct (sm_extras meta)"
  shows "map_of (sse_envelope meta e d idx) ''model'' = Some (JStr (sm_model meta))"
    "map_of (sse_envelope meta e d idx) ''metrics'' = map_of (sm_extras meta) ''metrics''"
proof -
  have "map_of (sm_extras meta) ''model'' = None"
    using assms(1) by (auto simp: meta_ok_def KNOWN_FIELDS_def map_of_eq_None_iff)
  then show "map_of (sse_envelope meta e d idx) ''model'' = Some (JStr (sm_model meta))"
    "map_of (sse_envelope meta e d idx) ''metrics'' = map_of (sm_extras meta) ''metrics''"
    by (simp_all add: sse_envelope_def put_all_extras [OF assms(2)] Let_def split: prod.splits option.splits)
qed

lemma chunks_carry:
  assumes "wf_json raw" "parse_raw_completion now raw = Ok p" "raw_choices p = [choice]"
    "get choice ''message'' = Some (JObj message)" "plain_content message"
    "merge_all None (payloads (synthesize_openai_chunks p n)) = Some (Some r)"
  shows "get r ''model'' = get raw ''model''" "get r ''metrics'' = get raw ''metrics''"
proof -
  note f = parse_fields [OF assms(2,1)]
  note e = envelope_carried [OF parse_meta_ok [OF assms(2)] f(3), folded f(1), unfolded f(2)]
  let ?idx = "some_or (Option.bind (get choice ''index'') as_u64) 0"
  have vs: "payloads (synthesize_openai_chunks p n) = map (\<lambda>(e, d). JObj (sse_envelope (raw_meta p) e d ?idx)) (pieces message n)
      @ [final_chunk (raw_meta p) ?idx (choice_finish choice message) (raw_usage p) (raw_timings p)]"
    using choice_chunks_pieces [OF assms(4,5)] by (simp add: synthesize_openai_chunks_def assms(3))
  have env: "map_of (sse_envelope (raw_meta p) e d ?idx) k = get raw k" if "carried k" for e d k
    using that e by (auto simp: carried_def)
  have last: "get (final_chunk (raw_meta p) ?idx f u t) k = get raw k" if "carried k" for f u t k
    using that env [OF that] by (auto simp: final_chunk_def carried_def Let_def map_of_jmap_insert split: option.splits)
  have "list_all (\<lambda>v. get v k = get raw k) (payloads (synthesize_openai_chunks p n))" if "carried k" for k
    using env [OF that] last [OF that] by (simp add: vs list_all_iff split_beta)
  with merge_all_carries [OF assms(6)] show "get r ''model'' = get raw ''model''" "get r ''metrics'' = get raw ''metrics''"
    by (simp_all add: carried_def)
qed

text \<open>The statistics of a response depend on these fields of it.\<close>

definition usage_like :: "json option \<Rightarrow> json option \<Rightarrow> bool" where
  "usage_like a b = (a = keep is_object b)"

lemma fields_of_scalar: "\<not> is_object u \<Longrightarrow> get u k = None"
  by (cases u) (auto simp: is_object_def)

lemma usage_counts_like: "\<not> is_object u \<Longrightarrow> usage_counts u m = m"
  by (simp add: usage_counts_def u64_at_def fields_of_scalar)

lemma extract_usage_like: "get r ''usage'' = keep is_object (get raw ''usage'') \<Longrightarrow> extract_usage r m = extract_usage raw m"
  by (auto simp: extract_usage_def keep_def usage_counts_like fields_of_scalar split: option.splits)

lemma extract_timings_like:
  assumes "get r ''usage'' = keep is_object (get raw ''usage'')" "get r ''timings'' = get raw ''timings''"
    "get r ''metrics'' = get raw ''metrics''"
  shows "extract_timings r m = extract_timings raw m"
proof -
  have "is_some_and (\<lambda>u. get u ''prompt_tokens'' \<noteq> None) (get r ''usage'')
      \<longleftrightarrow> is_some_and (\<lambda>u. get u ''prompt_tokens'' \<noteq> None) (get raw ''usage'')"
    by (auto simp: assms(1) keep_def is_some_and_def fields_of_scalar split: option.splits)
  then have prefill: "vllm_prefill r = vllm_prefill raw" by (intro ext) (simp only: vllm_prefill_def)
  have vllm: "extract_vllm_usage r = extract_vllm_usage raw"
    by (intro ext) (unfold extract_vllm_usage_def assms(3) prefill, rule refl)
  show ?thesis unfolding extract_timings_def assms(2) vllm by (rule refl)
qed

lemma output_then_finish: "x\<lparr>m_output_len := n\<rparr> = x \<Longrightarrow> x\<lparr>m_output_len := n, m_finish_reason := f\<rparr> = x\<lparr>m_finish_reason := f\<rparr>"
  by simp

lemma keep_all: "is_none_or P x \<Longrightarrow> keep P x = x"
  by (cases x) (auto simp: keep_def)

lemma get_str_at: "get_str (JObj m) k = str_at m k"
  by (simp add: get_str_def str_at_def)

lemma lengths_like:
  assumes "get_array r ''choices'' = Some (c # cs)" "get_array raw ''choices'' = Some [choice]"
    and "get c ''message'' = Some (JObj m)" "get choice ''message'' = Some (JObj message)" "same_message message m"
    and "get c ''finish_reason'' = Some (JStr f)" "m_output_len x = 0"
  shows "extract_length_fallbacks r q x = (extract_length_fallbacks raw q x)\<lparr>m_finish_reason := f\<rparr>"
proof -
  have msg: "get_str (JObj m) ''content'' = keep (\<lambda>t. t \<noteq> []) (get_str (JObj message) ''content'')"
    unfolding get_str_at using assms(5) by (cases "str_at message ''content''") (auto simp: same_message_def str_at_def [of m] keep_def)
  have fin: "get_str c ''finish_reason'' = Some f" using assms(6) by (simp add: get_str_def)
  have same: "x\<lparr>m_output_len := 0\<rparr> = x" using assms(7) by (cases x) simp
  have "response_lengths r x = (response_lengths raw x)\<lparr>m_finish_reason := f\<rparr>"
    unfolding response_lengths_def assms(1,2) Let_def
    by (cases "get_str (JObj message) ''content''") (simp_all add: assms(3,4) fin msg keep_def, metis same output_then_finish)
  then show ?thesis by (simp add: extract_length_fallbacks_def Let_def split: option.splits)
qed

lemma output_len_kept:
  "m_output_len (overall_rates m) = m_output_len m" "m_output_len (extract_usage r m) = m_output_len m"
  "m_output_len (extract_timings r m) = m_output_len m"
proof -
  show "m_output_len (overall_rates m) = m_output_len m" by (simp add: overall_rates_def Let_def)
  show "m_output_len (extract_usage r m) = m_output_len m"
    by (auto simp: extract_usage_def usage_counts_def Let_def split: option.splits)
  have "m_output_len (extract_vllm_usage r m) = m_output_len m" for m
    by (auto simp: extract_vllm_usage_def vllm_prefill_def vllm_decode_def Let_def split: option.splits)
  then show "m_output_len (extract_timings r m) = m_output_len m"
    by (auto simp: extract_timings_def llama_timings_def timings_counts_def Let_def split: option.splits)
qed

text \<open>C24. A stream is measured like the response it was made from. Take a completion with exactly one choice,
  whose content is a string, null or absent, whose tool calls are objects and whose timings, if any, are an object.
  Splitting it into OpenAI chunks and merging them as the observer does gives a response whose statistics are those
  the buffered path takes of the completion itself, for any request and any chunk size: every count, rate, duration
  and length is the same, and the finish reason is the one the stream carries. (The chunks of several
  choices are merged by position into one text, so the sameness is claimed for one choice only.)\<close>

theorem stream_metrics_match_buffered:
  assumes "wf_json raw" "parse_raw_completion now raw = Ok p" "raw_choices p = [choice]"
    and "get choice ''message'' = Some (JObj message)" "plain_content message"
    and "is_none_or (list_all is_object) (arr_at message ''tool_calls'')" "is_none_or is_object (get raw ''timings'')"
  shows "\<exists>r. merge_all None (payloads (synthesize_openai_chunks p n)) = Some (Some r)
    \<and> from_response fresh_id t r request streaming d
        = (from_response fresh_id t raw request streaming d)\<lparr>m_finish_reason := choice_finish choice message\<rparr>"
proof -
  note f = parse_fields [OF assms(2,1)]
  obtain r c cs m where r: "merge_all None (payloads (synthesize_openai_chunks p n)) = Some (Some r)"
    and c: "get_array r ''choices'' = Some (c # cs)" "get c ''message'' = Some (JObj m)" "same_message message m"
      "get c ''finish_reason'' = Some (JStr (choice_finish choice message))"
    and ut: "get r ''usage'' = raw_usage p" "get r ''timings'' = raw_timings p"
    using openai_chunks_merge [OF assms(1-6), of n] by blast
  note mm = chunks_carry [OF assms(1-5) r]
  have u: "get r ''usage'' = keep is_object (get raw ''usage'')" "get r ''timings'' = get raw ''timings''"
    using f(5,6) ut keep_all [OF assms(7)] by simp_all
  have model: "response_model r = response_model raw" using mm(1) f(1) by (simp add: response_model_def get_str_def)
  have ch: "get_array raw ''choices'' = Some [choice]" using f(4) assms(3) by (simp add: get_array_def)
  define x where "x = overall_rates (extract_timings raw (extract_usage raw ((metrics_new fresh_id t)
     \<lparr>m_streaming := streaming, m_duration_ms := d, m_model := some_or (response_model raw) ''unknown''\<rparr>)))"
  have "m_output_len x = 0" by (simp add: x_def output_len_kept) (simp add: metrics_new_def)
  from lengths_like [OF c(1) ch c(2) assms(4) c(3,4) this] r show ?thesis
    by (intro exI [of _ r]) (simp add: from_response_def Let_def model extract_usage_like [OF u(1)]
        extract_timings_like [OF u mm(2)] x_def metrics_new_def)
qed

text \<open>The sample completion streamed in pieces of one byte is measured as two bytes of output.\<close>

theorem stream_metrics_match_buffered_witness:
  "\<exists>p r. parse_raw_completion 0 sample_completion = Ok p
     \<and> merge_all None (payloads (synthesize_openai_chunks p 1)) = Some (Some r)
     \<and> m_output_len (from_response [] 0 r (JObj []) True THOUSAND) = 2
     \<and> m_finish_reason (from_response [] 0 r (JObj []) True THOUSAND) = ''stop''"
proof -
  let ?m = "[(''role'', JStr ''assistant''), (''content'', JStr ''hi'')]"
  obtain p where p: "parse_raw_completion 0 sample_completion = Ok p"
    "raw_choices p = [JObj [(''index'', JNum (PosInt 0)), (''finish_reason'', JStr ''stop''), (''message'', JObj ?m)]]"
    using sample_completion_parses by blast
  have ok: "wf_json sample_completion" "plain_content ?m" "is_none_or (list_all is_object) (arr_at ?m ''tool_calls'')"
    "is_none_or is_object (get sample_completion ''timings'')"
    by (simp_all add: sample_completion_def keys_distinct_def plain_content_def is_string_def arr_at_def)
  have len: "m_output_len (extract_length_fallbacks sample_completion (JObj []) x) = 2" for x
    by (simp add: extract_length_fallbacks_def response_lengths_def sample_completion_def get_array_def get_str_def Let_def)
  show ?thesis
    using stream_metrics_match_buffered [OF ok(1) p _ ok(2,3,4), of 1 "[]" 0 "JObj []" True THOUSAND] p(1)
    by (auto simp: from_response_def Let_def len choice_finish_def get_str_def)
qed

section \<open>Shape of the synthesised chunks\<close>

lemma envelope_chunk_ok:
  "meta_ok meta \<Longrightarrow> e \<noteq> FINISH_EVENT \<Longrightarrow> choice_ok (delta_choice idx (e, d)) \<Longrightarrow> chunk_ok (JObj (sse_envelope meta e d idx))"
  using envelope_fields(1) by (simp add: chunk_ok_def chunk_choices_def get_array_def is_object_def)

lemma final_chunk_ok: "meta_ok meta \<Longrightarrow> chunk_ok (final_chunk meta idx f u t)"
  using envelope_fields(2)
  by (simp add: chunk_ok_def chunk_choices_def get_array_def is_object_def final_chunk_def Let_def map_of_jmap_insert
      choice_ok_def finish_choice_def delta_ok_def keys_distinct_def split: option.splits)

lemma delta_choice_ok:
  assumes "wf_json v" "k = ''tool_calls'' \<Longrightarrow> \<exists>ts. v = JArr ts \<and> list_all is_object ts"
  shows "choice_ok (delta_choice idx (k, v))"
  using wf_delta_choice [OF assms(1), of idx k] assms(2)
  by (auto simp: choice_ok_def delta_choice_def delta_ok_def is_object_def)

text \<open>A choice whose tool calls are objects.\<close>

definition calls_typed :: "json \<Rightarrow> bool" where
  "calls_typed choice = (case Option.bind (get choice ''message'') as_object of
       None \<Rightarrow> True | Some message \<Rightarrow> is_none_or (list_all is_object) (arr_at message ''tool_calls''))"

lemma choice_chunks_ok:
  assumes "meta_ok meta" "wf_json choice" "calls_typed choice"
  shows "list_all chunk_ok (payloads (synthesize_choice_chunks meta choice idx u t n))"
proof (cases "Option.bind (get choice ''message'') as_object")
  case None
  then show ?thesis by (simp add: synthesize_choice_chunks_def)
next
  case (Some message)
  then have msg: "get choice ''message'' = Some (JObj message)" by (auto simp: bind_eq_Some_conv elim: as_object.elims)
  have wf: "wf_json v" if "map_of message k = Some v" for k v
    using wf_json_get [OF wf_json_get [OF assms(2) msg], of k v] that by simp
  have sub: "chunk_ok (JObj (sse_envelope meta k v idx))" if "wf_json v" "k \<noteq> ''tool_calls''" "k \<noteq> FINISH_EVENT" for k v
    using that envelope_chunk_ok [OF assms(1)] delta_choice_ok by blast
  have str: "list_all chunk_ok (payloads (option_list (\<lambda>r. envelope_event meta idx k (JStr r)) x))"
    if "k \<noteq> ''tool_calls''" "k \<noteq> FINISH_EVENT" for k x
    using sub that by (cases x) (auto simp: option_list_def envelope_event_def create_sse_event_def)
  have content: "list_all chunk_ok (payloads (content_events meta idx n (map_of message ''content'')))"
  proof (cases "map_of message ''content''")
    case (Some v)
    have other: "list_all chunk_ok (payloads [envelope_event meta idx ''content'' v])"
      using sub [OF wf [OF Some], of "''content''"] by (simp add: envelope_event_def create_sse_event_def FINISH_EVENT_def)
    have texts: "list_all chunk_ok (payloads (map (\<lambda>t. envelope_event meta idx ''content'' (JStr t)) ts))" for ts
      using sub [of "JStr _" "''content''"] by (induction ts) (simp_all add: envelope_event_def create_sse_event_def FINISH_EVENT_def)
    show ?thesis using other texts Some by (auto simp: content_events_def split: json.splits)
  qed (simp add: content_events_def)
  have calls: "list_all chunk_ok (payloads (case arr_at message ''tool_calls'' of
      Some tools \<Rightarrow> if tools \<noteq> [] then [envelope_event meta idx ''tool_calls'' (JArr tools)] else [] | None \<Rightarrow> []))"
  proof (cases "arr_at message ''tool_calls''")
    case (Some ts)
    then have "map_of message ''tool_calls'' = Some (JArr ts)" by (auto simp: arr_at_def bind_eq_Some_conv as_array_eq)
    moreover have "list_all is_object ts" using assms(3) Some \<open>Option.bind _ _ = Some message\<close> by (simp add: calls_typed_def)
    ultimately have "chunk_ok (JObj (sse_envelope meta ''tool_calls'' (JArr ts) idx))"
      using envelope_chunk_ok [OF assms(1) _ delta_choice_ok [OF wf]] by (auto simp: FINISH_EVENT_def)
    then show ?thesis using Some by (simp add: envelope_event_def create_sse_event_def)
  qed simp
  show ?thesis
    unfolding synthesize_choice_chunks_def Some option.case payloads_append list_all_append
    using str content calls final_chunk_ok [OF assms(1), of idx "choice_finish choice message" u t]
    by (simp add: FINISH_EVENT_def create_sse_event_def final_chunk_def)
qed

lemma synthesize_from_ok:
  "meta_ok (raw_meta p) \<Longrightarrow> list_all wf_json cs \<Longrightarrow> list_all calls_typed cs \<Longrightarrow> list_all chunk_ok (payloads (synthesize_from p n i cs))"
  by (induction cs arbitrary: i) (auto simp: choice_chunks_ok)

lemma accepted_choices:
  assumes "parse_raw_completion now raw = Ok p"
  shows "\<exists>c cs m. raw_choices p = c # cs \<and> get c ''message'' = Some (JObj m)"
proof -
  from assms have "raw_choices p \<noteq> []" "\<exists>u. check_raw_choices (raw_choices p) = Inr u"
    by (auto simp: parse_raw_completion_def split: option.splits if_splits sum.splits)
  then obtain c cs u where c: "raw_choices p = c # cs" "check_raw_choice c = Inr u"
    by (cases "raw_choices p") (auto split: sum.splits)
  then obtain co where "c = JObj co" "Option.bind (map_of co ''message'') as_object \<noteq> None"
    by (cases c) (auto simp: check_raw_choice_def split: option.splits if_splits)
  with c(1) show ?thesis by (auto simp: bind_eq_Some_conv elim: as_object.elims)
qed

lemma chunks_not_empty: "parse_raw_completion now raw = Ok p \<Longrightarrow> payloads (synthesize_openai_chunks p n) \<noteq> []"
  using accepted_choices [of now raw p]
  by (auto simp: synthesize_openai_chunks_def synthesize_choice_chunks_def create_sse_event_def)

text \<open>C22. Every stream the proxy makes has the shape its own merge expects. For every accepted completion whose tool
  calls are objects, however many choices it has and whatever its content is, each synthesised chunk is an object
  whose choices carry a delta and no message, so no assignment of the merge is made into a value of the wrong
  type: it does not panic and yields a response object that carries the deltas of its chunks, position by position.\<close>

theorem synthesised_chunks_well_typed:
  assumes "wf_json raw" "parse_raw_completion now raw = Ok p" "list_all calls_typed (raw_choices p)"
  shows "list_all chunk_ok (payloads (synthesize_openai_chunks p n))
    \<and> (\<exists>r. merge_all None (payloads (synthesize_openai_chunks p n)) = Some (Some r)
         \<and> merged (payloads (synthesize_openai_chunks p n)) r)"
proof -
  have "list_all wf_json (raw_choices p)" using wf_json_get [OF assms(1) parse_fields(4) [OF assms(2,1)]] by simp
  then have ok: "list_all chunk_ok (payloads (synthesize_openai_chunks p n))"
    using synthesize_from_ok [OF parse_meta_ok [OF assms(2)] _ assms(3)] by (simp add: synthesize_openai_chunks_def)
  from merge_chunks_merged [OF chunks_not_empty [OF assms(2)] ok] ok show ?thesis by blast
qed

theorem synthesised_chunks_well_typed_witness:
  "\<exists>p. parse_raw_completion 0 sample_completion = Ok p \<and> list_all chunk_ok (payloads (synthesize_openai_chunks p 1))"
proof -
  obtain p where p: "parse_raw_completion 0 sample_completion = Ok p"
    "raw_choices p = [JObj [(''index'', JNum (PosInt 0)), (''finish_reason'', JStr ''stop''),
       (''message'', JObj [(''role'', JStr ''assistant''), (''content'', JStr ''hi'')])]]"
    using sample_completion_parses by blast
  have "wf_json sample_completion" by (simp add: sample_completion_def keys_distinct_def)
  from synthesised_chunks_well_typed [OF this p(1), of 1] p show ?thesis by (simp add: calls_typed_def arr_at_def)
qed

section \<open>Dumps\<close>

lemma do_ops_append: "do_ops works (xs @ ys) disk =
    (case do_ops works xs disk of (True, d) \<Rightarrow> do_ops works ys d | (False, d) \<Rightarrow> (False, d))"
  by (induction xs arbitrary: disk) auto

lemma then_ops_done: "then_ops a b = (ops, None) \<longleftrightarrow> snd a = None \<and> (\<exists>bs. b = (bs, None) \<and> ops = fst a @ bs)"
  by (cases b) (auto simp: then_ops_def split: option.splits)

lemma do_then_ops:
  assumes "then_ops a b = (ops, None)" "do_ops works ops disk = (True, disk')"
  obtains as bs d where "a = (as, None)" "b = (bs, None)" "do_ops works as disk = (True, d)" "do_ops works bs d = (True, disk')"
  using assms by (cases a) (auto simp: then_ops_done do_ops_append split: prod.splits bool.splits)

text \<open>What a file holds for a body.\<close>

definition dumped :: "dump_env \<Rightarrow> string \<Rightarrow> string" where
  "dumped du body = (case parse_value (du_serde du) body of
       Some v \<Rightarrow> (case du_pretty du v of Inr s \<Rightarrow> s @ [NEWLINE] | Inl _ \<Rightarrow> []) | None \<Rightarrow> body)"

lemma body_written: "body_ops du file body = (ops, None) \<Longrightarrow> do_ops works ops disk = (True, disk') \<Longrightarrow> disk' = disk(file \<mapsto> dumped du body)"
  by (auto simp: body_ops_def dumped_def split: option.splits sum.splits if_splits)

lemma join_path_inj: "\<not> is_absolute p \<Longrightarrow> \<not> is_absolute q \<Longrightarrow> join_path base p = join_path base q \<longleftrightarrow> p = q"
  by (auto simp: join_path_def)

lemma four_files:
  assumes "distinct [m, v, r, q]"
  shows "((case x of None \<Rightarrow> id | Some w \<Rightarrow> (\<lambda>d. d(v \<mapsto> w))) (disk(q \<mapsto> Q, r \<mapsto> R))) (m \<mapsto> M)
    = (\<lambda>p. if p = m then Some M else if p = v \<and> x \<noteq> None then x else if p = r then Some R else if p = q then Some Q else disk p)"
  using assms by (cases x) (auto simp: fun_eq_iff)

text \<open>A finished dump is complete. When no operation of the operating system fails and the bodies print, the
  request's and the response's file hold the bodies (pretty-printed if they are JSON, byte for byte otherwise), the
  decoded variant's file holds the variant if there is one, \<^verbatim>\<open>meta.txt\<close> describes the exchange, and no other file of the
  disk is touched; the four names are different, so none of them overwrites another.\<close>

theorem dump_complete:
  assumes "dump_request_response du path a = (ops, None)" "do_ops works ops disk = (True, disk')"
  shows "let file = dump_file du path; res = ''res.'' @ get_extension (da_response_type a) in
    disk' = (\<lambda>p. if p = file ''meta.txt'' then Some (meta_text du a)
             else if p = file (res @ ''.decoded'') \<and> da_variant a \<noteq> None then da_variant a
             else if p = file res then Some (dumped du (da_response a))
             else if p = file (''req.'' @ get_extension (da_request_type a)) then Some (dumped du (da_request a))
             else disk p)
    \<and> distinct [file ''meta.txt'', file (res @ ''.decoded''), file res, file (''req.'' @ get_extension (da_request_type a))]"
proof -
  let ?file = "dump_file du path" and ?res = "''res.'' @ get_extension (da_response_type a)"
  let ?req = "''req.'' @ get_extension (da_request_type a)"
  let ?variant = "case da_variant a of None \<Rightarrow> ([], None)
     | Some v \<Rightarrow> ([Create_File (?file (?res @ ''.decoded'')), Write_File (?file (?res @ ''.decoded'')) v], None :: string option)"
  let ?meta = "([Create_File (?file ''meta.txt''), Write_File (?file ''meta.txt'') (meta_text du a)], None :: string option)"
  obtain m0 t0 d0 where m0: "([Make_Dir (join_path path (du_id du))], None :: string option) = (m0, None)"
    and t0: "then_ops (body_ops du (?file ?req) (da_request a))
         (then_ops (body_ops du (?file ?res) (da_response a)) (then_ops ?variant ?meta)) = (t0, None)"
    and d0: "do_ops works m0 disk = (True, d0)" "do_ops works t0 d0 = (True, disk')"
    by (rule do_then_ops [OF assms [unfolded dump_request_response_def Let_def]])
  obtain m1 t1 d1 where m1: "body_ops du (?file ?req) (da_request a) = (m1, None)"
    and t1: "then_ops (body_ops du (?file ?res) (da_response a)) (then_ops ?variant ?meta) = (t1, None)"
    and d1: "do_ops works m1 d0 = (True, d1)" "do_ops works t1 d1 = (True, disk')"
    by (rule do_then_ops [OF t0 d0(2)])
  obtain m2 t2 d2 where m2: "body_ops du (?file ?res) (da_response a) = (m2, None)"
    and t2: "then_ops ?variant ?meta = (t2, None)" and d2: "do_ops works m2 d1 = (True, d2)" "do_ops works t2 d2 = (True, disk')"
    by (rule do_then_ops [OF t1 d1(2)])
  obtain m3 m4 d3 where m3: "?variant = (m3, None)" and m4: "?meta = (m4, None)"
    and d3: "do_ops works m3 d2 = (True, d3)" "do_ops works m4 d3 = (True, disk')"
    by (rule do_then_ops [OF t2 d2(2)])
  have "d0 = disk" using m0 d0(1) by (auto split: if_splits)
  moreover have "d3 = (case da_variant a of None \<Rightarrow> d2 | Some v \<Rightarrow> d2(?file (?res @ ''.decoded'') \<mapsto> v))"
    using m3 d3(1) by (auto split: option.splits if_splits)
  moreover have "disk' = d3(?file ''meta.txt'' \<mapsto> meta_text du a)" using m4 d3(2) by (auto split: if_splits)
  ultimately have written: "disk' = ((case da_variant a of None \<Rightarrow> id | Some v \<Rightarrow> (\<lambda>d. d(?file (?res @ ''.decoded'') \<mapsto> v)))
      (disk(?file ?req \<mapsto> dumped du (da_request a), ?file ?res \<mapsto> dumped du (da_response a)))) (?file ''meta.txt'' \<mapsto> meta_text du a)"
    using body_written [OF m1 d1(1)] body_written [OF m2 d2(1)] by (simp split: option.splits)
  have names: "distinct [?file ''meta.txt'', ?file (?res @ ''.decoded''), ?file ?res, ?file ?req]"
    by (simp add: dump_file_def join_path_inj is_absolute_def starts_with_def)
  show ?thesis unfolding Let_def using written [unfolded four_files [OF names]] names by (rule conjI)
qed

text \<open>A streamed answer is dumped as a buffered one without a variant is.\<close>

lemma stream_dump_same:
  assumes "da_variant a = None"
  shows "stream_dump_request_response du path a = dump_request_response du path a"
proof -
  have "stream_get_extension = get_extension" by (simp add: fun_eq_iff stream_get_extension_def get_extension_def)
  moreover have "then_ops ([], None) b = b" for b by (cases b) (simp add: then_ops_def)
  ultimately show ?thesis
    using assms by (simp add: stream_dump_request_response_def dump_request_response_def stream_meta_text_def meta_text_def Let_def)
qed

lemma json_extension: "get_extension (Some ''application/json'') = ''json''"
  by code_simp

text \<open>What the dump of an observed stream leaves: the body sent to the backend and the merged response.\<close>

theorem observed_dump_complete:
  assumes "stream_dump_request_response du (sd_path d) (stream_dump_args env d final) = (ops, None)"
    and "do_ops works ops disk = (True, disk')" "sd_backend_request d = Some body" "print_value env final = Inr printed"
  shows "disk' (dump_file du (sd_path d) ''req.json'') = Some (dumped du body)
    \<and> disk' (dump_file du (sd_path d) (''res.'' @ get_extension (sd_content_type d))) = Some (dumped du printed)"
proof -
  let ?a = "stream_dump_args env d final"
  have a: "da_variant ?a = None" "da_request ?a = body" "da_response ?a = printed" "da_response_type ?a = sd_content_type d"
    "get_extension (da_request_type ?a) = ''json''"
    using assms(3,4) by (simp_all add: stream_dump_args_def Let_def json_extension)
  note full = dump_complete [OF assms(1) [unfolded stream_dump_same [OF a(1)]] assms(2), unfolded Let_def a]
  have req: "''req.'' @ ''json'' = ''req.json''" by simp
  show ?thesis using conjunct2 [OF full] unfolding conjunct1 [OF full] req by (auto simp del: append.simps append_assoc)
qed

end
