(* ===== verification/Openai_Request.thy ===== *)
theory Openai_Request
  imports Augment Float64
begin

text \<open>
  The typed chat completion request of \<^verbatim>\<open>llama-proxy/src/api/openai.rs\<close> with its derived reader
  (\<^verbatim>\<open>serde_json::from_value\<close>) and writer (\<^verbatim>\<open>to_value\<close>), field by field as the attributes say, and the casts between
  \<^verbatim>\<open>f32\<close> and \<^verbatim>\<open>f64\<close> they use. The handler reads a request through this type before it augments it.

  A derived reader takes an object by names or an array by positions; a type with a flattened field takes objects
  only. The iteration order of the \<^verbatim>\<open>HashMap\<close> of other fields is a parameter.
\<close>

section \<open>Single precision\<close>

type_synonym f32 = "32 word"

definition F32_INF :: nat where "F32_INF = 0x7F800000"
definition F32_NAN :: f32 where "F32_NAN = 0x7FC00000"

definition magnitude32 :: "f32 \<Rightarrow> nat" where "magnitude32 x = unat x mod 2 ^ 31"
definition negative32 :: "f32 \<Rightarrow> bool" where "negative32 x = (2 ^ 31 \<le> unat x)"

definition signed32 :: "bool \<Rightarrow> nat \<Rightarrow> f32" where
  "signed32 s m = of_nat (m + (if s then 2 ^ 31 else 0))"

definition round_ratio32 :: "nat \<Rightarrow> nat \<Rightarrow> nat" where
  "round_ratio32 n d =
     (let e = max (log_ratio n d - 23) (- 149) in min F32_INF (nat (e + 149) * 2 ^ 23 + round_even (n * up (- e)) (d * up e)))"

text \<open>The casts of Rust: nearest, ties to even.\<close>

definition f32_of_nat :: "bool \<Rightarrow> nat \<Rightarrow> f32" where
  "f32_of_nat s n = (if n = 0 then 0 else signed32 s (round_ratio32 n 1))"

definition f64_to_f32 :: "f64 \<Rightarrow> f32" where
  "f64_to_f32 x =
     (if is_nan x then F32_NAN
      else if magnitude x = F64_INF then signed32 (negative x) F32_INF
      else if magnitude x = 0 then signed32 (negative x) 0
      else (let (m, e) = decode_magnitude (magnitude x) in signed32 (negative x) (round_ratio32 (m * up e) (up (- e)))))"

definition f32_is_finite :: "f32 \<Rightarrow> bool" where "f32_is_finite x = (magnitude32 x < F32_INF)"

text \<open>Of a finite value, which is exact.\<close>

definition f32_to_f64 :: "f32 \<Rightarrow> f64" where
  "f32_to_f64 x =
     (let m = magnitude32 x; e = m div 2 ^ 23; f = m mod 2 ^ 23;
          (n, k) = (if e = 0 then (f, - 149) else (2 ^ 23 + f, int e - 150)) in
      if m = 0 then signed (negative32 x) 0 else signed (negative32 x) (round_ratio (n * up k) (up (- k))))"

definition as_f32 :: "json \<Rightarrow> f32 option" where
  "as_f32 v = (case v of
       JNum (PosInt n) \<Rightarrow> Some (f32_of_nat False (unat n))
     | JNum (NegInt n) \<Rightarrow> Some (f32_of_nat True (nat (- sint n)))
     | JNum (Float f) \<Rightarrow> Some (f64_to_f32 f)
     | _ \<Rightarrow> None)"

definition f32_value :: "f32 \<Rightarrow> json" where
  "f32_value x = (if f32_is_finite x then JNum (Float (f32_to_f64 x)) else JNull)"

definition as_u32 :: "json \<Rightarrow> 32 word option" where
  "as_u32 v = Option.bind (as_u64 v) (\<lambda>n. if unat n < 2 ^ 32 then Some (ucast n) else None)"

definition u32_value :: "32 word \<Rightarrow> json" where
  "u32_value n = JNum (PosInt (ucast n))"

section \<open>Types\<close>

record image_url =
  iu_url :: string
  iu_detail :: "string option"

record content_part =
  cp_content_type :: string
  cp_text :: "string option"
  cp_image_url :: "image_url option"

datatype request_content = TextContent string | Parts "content_part list"

record message =
  mg_role :: string
  mg_content :: "request_content option"
  mg_name :: "string option"
  mg_tool_calls :: "tool_call list option"
  mg_tool_call_id :: "string option"

record function_def =
  fd_name :: string
  fd_description :: "string option"
  fd_parameters :: json

record tool =
  to_tool_type :: string
  to_function :: function_def

record function_ref =
  fr_name :: string

record tool_choice_object =
  tco_choice_type :: string
  tco_function :: "function_ref option"

datatype tool_choice = ChoiceName string | ChoiceObject tool_choice_object

record chat_completion_request =
  cq_model :: string
  cq_messages :: "message list"
  cq_temperature :: "f32 option"
  cq_top_p :: "f32 option"
  cq_max_tokens :: "32 word option"
  cq_stream :: "bool option"
  cq_tools :: "tool list option"
  cq_tool_choice :: "tool_choice option"
  cq_stop :: "string list option"
  cq_frequency_penalty :: "f32 option"
  cq_presence_penalty :: "f32 option"
  cq_user :: "string option"
  cq_reasoning_effort :: "string option"
  cq_verbosity :: "string option"
  cq_thinking_budget :: "u64 option"
  cq_extra :: "string \<Rightarrow> json option"

section \<open>Reading\<close>

text \<open>The fields of an object, or of an array by position, whose missing rest must have defaults.\<close>

definition fields_of :: "string list \<Rightarrow> string list \<Rightarrow> json \<Rightarrow> (string \<times> json) list option" where
  "fields_of names defaults v = (case v of
       JObj m \<Rightarrow> Some m
     | JArr xs \<Rightarrow> if length xs \<le> length names \<and> list_all (\<lambda>k. k \<in> set defaults) (drop (length xs) names)
                then Some (zip names xs) else None
     | _ \<Rightarrow> None)"

definition list_of :: "(json \<Rightarrow> 'a option) \<Rightarrow> json \<Rightarrow> 'a list option" where
  "list_of f v = Option.bind (as_array v) (\<lambda>xs. those (map f xs))"

definition image_url_of :: "json \<Rightarrow> image_url option" where
  "image_url_of v =
     Option.bind (fields_of [''url'', ''detail''] [''detail''] v) (\<lambda>m.
     Option.bind (req_str m ''url'') (\<lambda>u.
     Option.bind (opt_field as_str m ''detail'') (\<lambda>d. Some \<lparr>iu_url = u, iu_detail = d\<rparr>)))"

definition content_part_of :: "json \<Rightarrow> content_part option" where
  "content_part_of v =
     Option.bind (fields_of [''type'', ''text'', ''image_url''] [''text'', ''image_url''] v) (\<lambda>m.
     Option.bind (req_str m ''type'') (\<lambda>ty.
     Option.bind (opt_field as_str m ''text'') (\<lambda>t.
     Option.bind (opt_field image_url_of m ''image_url'') (\<lambda>i.
       Some \<lparr>cp_content_type = ty, cp_text = t, cp_image_url = i\<rparr>))))"

text \<open>Untagged: the first form that fits.\<close>

definition message_content_of :: "json \<Rightarrow> request_content option" where
  "message_content_of v = (case as_str v of Some s \<Rightarrow> Some (TextContent s) | None \<Rightarrow> map_option Parts (list_of content_part_of v))"

definition function_call_of :: "serde_env \<Rightarrow> json \<Rightarrow> function_call option" where
  "function_call_of env v =
     Option.bind (fields_of [''name'', ''arguments''] [''arguments''] v) (\<lambda>m.
     Option.bind (req_str m ''name'') (\<lambda>n.
     Option.bind (case map_of m ''arguments'' of
         None \<Rightarrow> Some ''{}''
       | Some a \<Rightarrow> (case deserialize_arguments env a of Inr s \<Rightarrow> Some s | Inl _ \<Rightarrow> None)) (\<lambda>a.
       Some \<lparr>fc_name = n, fc_arguments = a\<rparr>)))"

definition tool_call_of :: "serde_env \<Rightarrow> json \<Rightarrow> tool_call option" where
  "tool_call_of env v =
     Option.bind (fields_of [''id'', ''type'', ''index'', ''function''] [''id'', ''type'', ''index''] v) (\<lambda>m.
     Option.bind (opt_field as_str m ''id'') (\<lambda>i.
     Option.bind (opt_field as_str m ''type'') (\<lambda>ty.
     Option.bind (opt_field as_u32 m ''index'') (\<lambda>n.
     Option.bind (Option.bind (map_of m ''function'') (function_call_of env)) (\<lambda>f.
       Some \<lparr>tc_id = i, tc_call_type = ty, tc_index = n, tc_function = f\<rparr>)))))"

definition MESSAGE_FIELDS :: "string list" where
  "MESSAGE_FIELDS = [''role'', ''content'', ''name'', ''tool_calls'', ''tool_call_id'']"

definition message_of :: "serde_env \<Rightarrow> json \<Rightarrow> message option" where
  "message_of env v =
     Option.bind (fields_of MESSAGE_FIELDS (tl MESSAGE_FIELDS) v) (\<lambda>m.
     Option.bind (req_str m ''role'') (\<lambda>r.
     Option.bind (opt_field message_content_of m ''content'') (\<lambda>c.
     Option.bind (opt_field as_str m ''name'') (\<lambda>n.
     Option.bind (opt_field (list_of (tool_call_of env)) m ''tool_calls'') (\<lambda>t.
     Option.bind (opt_field as_str m ''tool_call_id'') (\<lambda>i.
       Some \<lparr>mg_role = r, mg_content = c, mg_name = n, mg_tool_calls = t, mg_tool_call_id = i\<rparr>))))))"

definition function_def_of :: "json \<Rightarrow> function_def option" where
  "function_def_of v =
     Option.bind (fields_of [''name'', ''description'', ''parameters''] [''description''] v) (\<lambda>m.
     Option.bind (req_str m ''name'') (\<lambda>n.
     Option.bind (opt_field as_str m ''description'') (\<lambda>d.
     Option.bind (map_of m ''parameters'') (\<lambda>p.
       Some \<lparr>fd_name = n, fd_description = d, fd_parameters = p\<rparr>))))"

definition tool_of :: "json \<Rightarrow> tool option" where
  "tool_of v =
     Option.bind (fields_of [''type'', ''function''] [] v) (\<lambda>m.
     Option.bind (req_str m ''type'') (\<lambda>t.
     Option.bind (Option.bind (map_of m ''function'') function_def_of) (\<lambda>f.
       Some \<lparr>to_tool_type = t, to_function = f\<rparr>)))"

definition function_ref_of :: "json \<Rightarrow> function_ref option" where
  "function_ref_of v =
     Option.bind (fields_of [''name''] [] v) (\<lambda>m. map_option (\<lambda>n. \<lparr>fr_name = n\<rparr>) (req_str m ''name''))"

definition tool_choice_object_of :: "json \<Rightarrow> tool_choice_object option" where
  "tool_choice_object_of v =
     Option.bind (fields_of [''type'', ''function''] [] v) (\<lambda>m.
     Option.bind (req_str m ''type'') (\<lambda>t.
     Option.bind (opt_field function_ref_of m ''function'') (\<lambda>f.
       Some \<lparr>tco_choice_type = t, tco_function = f\<rparr>)))"

definition tool_choice_of :: "json \<Rightarrow> tool_choice option" where
  "tool_choice_of v = (case as_str v of Some s \<Rightarrow> Some (ChoiceName s) | None \<Rightarrow> map_option ChoiceObject (tool_choice_object_of v))"

definition REQUEST_FIELDS :: "string list" where
  "REQUEST_FIELDS = [''model'', ''messages'', ''temperature'', ''top_p'', ''max_tokens'', ''stream'', ''tools'', ''tool_choice'',
     ''stop'', ''frequency_penalty'', ''presence_penalty'', ''user'', ''reasoning_effort'', ''verbosity'', ''thinking_budget'']"

definition request_of_value :: "serde_env \<Rightarrow> json \<Rightarrow> chat_completion_request option" where
  "request_of_value env v =
     Option.bind (as_object v) (\<lambda>m.
     Option.bind (req_str m ''model'') (\<lambda>model.
     Option.bind (Option.bind (map_of m ''messages'') (list_of (message_of env))) (\<lambda>messages.
     Option.bind (opt_field as_f32 m ''temperature'') (\<lambda>temperature.
     Option.bind (opt_field as_f32 m ''top_p'') (\<lambda>top_p.
     Option.bind (opt_field as_u32 m ''max_tokens'') (\<lambda>max_tokens.
     Option.bind (opt_field json_bool m ''stream'') (\<lambda>stream.
     Option.bind (opt_field (list_of tool_of) m ''tools'') (\<lambda>tools.
     Option.bind (opt_field tool_choice_of m ''tool_choice'') (\<lambda>choice.
     Option.bind (opt_field (list_of as_str) m ''stop'') (\<lambda>stop.
     Option.bind (opt_field as_f32 m ''frequency_penalty'') (\<lambda>frequency.
     Option.bind (opt_field as_f32 m ''presence_penalty'') (\<lambda>presence.
     Option.bind (opt_field as_str m ''user'') (\<lambda>user.
     Option.bind (opt_field as_str m ''reasoning_effort'') (\<lambda>effort.
     Option.bind (opt_field as_str m ''verbosity'') (\<lambda>verbosity.
     Option.bind (opt_field as_u64 m ''thinking_budget'') (\<lambda>budget.
       Some \<lparr>cq_model = model, cq_messages = messages, cq_temperature = temperature, cq_top_p = top_p,
             cq_max_tokens = max_tokens, cq_stream = stream, cq_tools = tools, cq_tool_choice = choice, cq_stop = stop,
             cq_frequency_penalty = frequency, cq_presence_penalty = presence, cq_user = user,
             cq_reasoning_effort = effort, cq_verbosity = verbosity, cq_thinking_budget = budget,
             cq_extra = (\<lambda>k. if k \<in> set REQUEST_FIELDS then None else map_of m k)\<rparr>))))))))))))))))"

section \<open>Writing\<close>

text \<open>A field that is left out when it is \<open>None\<close>.\<close>

definition skip_none :: "string \<Rightarrow> ('a \<Rightarrow> json) \<Rightarrow> 'a option \<Rightarrow> (string \<times> json) list" where
  "skip_none k f x = option_list (\<lambda>v. (k, f v)) x"

definition image_url_value :: "image_url \<Rightarrow> json" where
  "image_url_value i = JObj [(''url'', JStr (iu_url i)), (''detail'', opt_value JStr (iu_detail i))]"

definition content_part_value :: "content_part \<Rightarrow> json" where
  "content_part_value p = JObj [(''type'', JStr (cp_content_type p)), (''text'', opt_value JStr (cp_text p)),
     (''image_url'', opt_value image_url_value (cp_image_url p))]"

fun message_content_value :: "request_content \<Rightarrow> json" where
  "message_content_value (TextContent s) = JStr s"
| "message_content_value (Parts ps) = JArr (map content_part_value ps)"

definition function_call_value :: "function_call \<Rightarrow> json" where
  "function_call_value f = JObj [(''name'', JStr (fc_name f)), (''arguments'', JStr (fc_arguments f))]"

definition tool_call_value :: "tool_call \<Rightarrow> json" where
  "tool_call_value t = JObj (skip_none ''id'' JStr (tc_id t) @ skip_none ''type'' JStr (tc_call_type t)
     @ skip_none ''index'' u32_value (tc_index t) @ [(''function'', function_call_value (tc_function t))])"

definition message_value :: "message \<Rightarrow> json" where
  "message_value m = JObj ((''role'', JStr (mg_role m)) # skip_none ''content'' message_content_value (mg_content m)
     @ skip_none ''name'' JStr (mg_name m) @ skip_none ''tool_calls'' (\<lambda>ts. JArr (map tool_call_value ts)) (mg_tool_calls m)
     @ skip_none ''tool_call_id'' JStr (mg_tool_call_id m))"

definition function_def_value :: "function_def \<Rightarrow> json" where
  "function_def_value f = JObj [(''name'', JStr (fd_name f)), (''description'', opt_value JStr (fd_description f)),
     (''parameters'', fd_parameters f)]"

definition tool_def_value :: "tool \<Rightarrow> json" where
  "tool_def_value t = JObj [(''type'', JStr (to_tool_type t)), (''function'', function_def_value (to_function t))]"

definition function_ref_value :: "function_ref \<Rightarrow> json" where
  "function_ref_value f = JObj [(''name'', JStr (fr_name f))]"

fun tool_choice_value :: "tool_choice \<Rightarrow> json" where
  "tool_choice_value (ChoiceName s) = JStr s"
| "tool_choice_value (ChoiceObject c) =
     JObj [(''type'', JStr (tco_choice_type c)), (''function'', opt_value function_ref_value (tco_function c))]"

definition known_fields :: "chat_completion_request \<Rightarrow> (string \<times> json) list" where
  "known_fields r =
     [(''model'', JStr (cq_model r)), (''messages'', JArr (map message_value (cq_messages r)))]
     @ skip_none ''temperature'' f32_value (cq_temperature r) @ skip_none ''top_p'' f32_value (cq_top_p r)
     @ skip_none ''max_tokens'' u32_value (cq_max_tokens r) @ skip_none ''stream'' JBool (cq_stream r)
     @ skip_none ''tools'' (\<lambda>ts. JArr (map tool_def_value ts)) (cq_tools r)
     @ skip_none ''tool_choice'' tool_choice_value (cq_tool_choice r)
     @ skip_none ''stop'' (\<lambda>ss. JArr (map JStr ss)) (cq_stop r)
     @ skip_none ''frequency_penalty'' f32_value (cq_frequency_penalty r)
     @ skip_none ''presence_penalty'' f32_value (cq_presence_penalty r) @ skip_none ''user'' JStr (cq_user r)
     @ skip_none ''reasoning_effort'' JStr (cq_reasoning_effort r) @ skip_none ''verbosity'' JStr (cq_verbosity r)
     @ skip_none ''thinking_budget'' (\<lambda>n. JNum (PosInt n)) (cq_thinking_budget r)"

text \<open>The other fields follow in the order the map yields them; an insertion into an object replaces a key in place.\<close>

definition value_of_request :: "((string \<Rightarrow> json option) \<Rightarrow> string list) \<Rightarrow> chat_completion_request \<Rightarrow> json" where
  "value_of_request order r = JObj (put_all (map (\<lambda>k. (k, the (cq_extra r k))) (order (cq_extra r))) (known_fields r))"

section \<open>Augmentation of a typed request\<close>

text \<open>\<^verbatim>\<open>inject_augmentation\<close> on this type, whose reader it is after the handler's.\<close>

definition read_request :: "serde_env \<Rightarrow> (json \<Rightarrow> string) \<Rightarrow> json \<Rightarrow> (chat_completion_request, string) result" where
  "read_request env refusal v = (case request_of_value env v of Some r \<Rightarrow> Inr r | None \<Rightarrow> Inl (refusal v))"

definition inject_typed ::
  "serde_env \<Rightarrow> (json \<Rightarrow> string) \<Rightarrow> ((string \<Rightarrow> json option) \<Rightarrow> string list) \<Rightarrow> json \<Rightarrow> string \<Rightarrow> string
     \<Rightarrow> (chat_completion_request, string) result option" where
  "inject_typed env refusal order v prompt aug = (case read_request env refusal v of
       Inl e \<Rightarrow> Some (Inl e)
     | Inr r \<Rightarrow> inject_augmentation env (\<lambda>q. Inr (value_of_request order q)) (read_request env refusal) r prompt aug)"

end
