(* ===== verification/Openai_Request_Correct.thy ===== *)
theory Openai_Request_Correct
  imports Openai_Request Handler
begin

text \<open>
  The typed request of \<open>Openai_Request\<close>: reading what was written gives the request back, the injection of an
  augmentation into its JSON form is an update of the typed request, and what the detour through the type keeps of
  the client's own request.
\<close>

section \<open>Fields\<close>

lemma opt_field_present:
  "map_of m k = map_option g x \<Longrightarrow> (\<And>v. x = Some v \<Longrightarrow> f (g v) = Some v \<and> g v \<noteq> JNull) \<Longrightarrow> opt_field f m k = Some x"
  by (cases x) (auto simp: opt_field_def split: json.splits)

lemma opt_field_null:
  "map_of m k = Some (opt_value g x) \<Longrightarrow> (\<And>v. x = Some v \<Longrightarrow> f (g v) = Some v \<and> g v \<noteq> JNull) \<Longrightarrow> opt_field f m k = Some x"
  by (cases x) (auto simp: opt_field_def opt_value_def split: json.splits)

lemma map_of_skip_none [simp]:
  "(m ++ map_of (skip_none k g x)) j = (if j = k \<and> x \<noteq> None then map_option g x else m j)"
  "map_of (skip_none k g x) j = (if j = k then map_option g x else None)"
  by (auto simp: skip_none_def option_list_def map_add_def split: option.splits)

lemma those_map_Some: "(\<And>x. x \<in> set xs \<Longrightarrow> f (g x) = Some x) \<Longrightarrow> those (map f (map g xs)) = Some xs"
  by (induction xs) auto

lemma list_of_map [simp]: "(\<And>x. f (g x) = Some x) \<Longrightarrow> list_of f (JArr (map g xs)) = Some xs"
  unfolding list_of_def by (simp only: as_array.simps bind.simps) (rule those_map_Some)

lemma fields_of_object [simp]: "fields_of names defaults (JObj m) = Some m"
  by (simp add: fields_of_def)

section \<open>Parts of a request\<close>

lemma image_url_read [simp]: "image_url_of (image_url_value i) = Some i"
  by (cases "iu_detail i") (simp_all add: image_url_of_def image_url_value_def req_str_def opt_field_def opt_value_def)

lemma image_url_not_null [simp]: "image_url_value i \<noteq> JNull"
  by (simp add: image_url_value_def)

lemma content_part_read [simp]: "content_part_of (content_part_value p) = Some p"
proof -
  let ?m = "[(''type'', JStr (cp_content_type p)), (''text'', opt_value JStr (cp_text p)), (''image_url'', opt_value image_url_value (cp_image_url p))]"
  have "opt_field as_str ?m ''text'' = Some (cp_text p)" by (rule opt_field_null) auto
  moreover have "opt_field image_url_of ?m ''image_url'' = Some (cp_image_url p)" by (rule opt_field_null) auto
  ultimately show ?thesis by (simp add: content_part_of_def content_part_value_def req_str_def)
qed

lemma message_content_read [simp]: "message_content_of (message_content_value c) = Some c" "message_content_value c \<noteq> JNull"
  by (cases c; simp add: message_content_of_def)+

lemma function_call_read [simp]: "function_call_of env (function_call_value f) = Some f"
  by (simp add: function_call_of_def function_call_value_def req_str_def deserialize_arguments_def)

lemma u32_read [simp]: "as_u32 (u32_value n) = Some n" "u32_value n \<noteq> JNull"
proof -
  have n: "unat n < 2 ^ 32" by (rule order_less_le_trans [OF unsigned_less]) simp
  then have "unat (ucast n :: 64 word) = unat n" by (simp add: unsigned_ucast_eq take_bit_nat_eq_self)
  moreover have "ucast (ucast n :: 64 word) = n" by transfer simp
  moreover note n
  ultimately show "as_u32 (u32_value n) = Some n" by (simp add: as_u32_def u32_value_def)
qed (simp add: u32_value_def)

lemma tool_call_read [simp]: "tool_call_of env (tool_call_value t) = Some t"
proof -
  let ?m = "skip_none ''id'' JStr (tc_id t) @ skip_none ''type'' JStr (tc_call_type t)
     @ skip_none ''index'' u32_value (tc_index t) @ [(''function'', function_call_value (tc_function t))]"
  have "opt_field as_str ?m ''id'' = Some (tc_id t)" by (rule opt_field_present [of _ _ JStr]) auto
  moreover have "opt_field as_str ?m ''type'' = Some (tc_call_type t)" by (rule opt_field_present [of _ _ JStr]) auto
  moreover have "opt_field as_u32 ?m ''index'' = Some (tc_index t)" by (rule opt_field_present [of _ _ u32_value]) auto
  ultimately show ?thesis unfolding tool_call_of_def tool_call_value_def by simp
qed

lemma message_read [simp]: "message_of env (message_value m) = Some m"
proof -
  let ?m = "(''role'', JStr (mg_role m)) # skip_none ''content'' message_content_value (mg_content m)
     @ skip_none ''name'' JStr (mg_name m) @ skip_none ''tool_calls'' (\<lambda>ts. JArr (map tool_call_value ts)) (mg_tool_calls m)
     @ skip_none ''tool_call_id'' JStr (mg_tool_call_id m)"
  have "opt_field message_content_of ?m ''content'' = Some (mg_content m)"
    by (rule opt_field_present [of _ _ message_content_value]) auto
  moreover have "opt_field as_str ?m ''name'' = Some (mg_name m)" by (rule opt_field_present [of _ _ JStr]) auto
  moreover have "opt_field (list_of (tool_call_of env)) ?m ''tool_calls'' = Some (mg_tool_calls m)"
    by (rule opt_field_present [of _ _ "\<lambda>ts. JArr (map tool_call_value ts)"]) auto
  moreover have "opt_field as_str ?m ''tool_call_id'' = Some (mg_tool_call_id m)" by (rule opt_field_present [of _ _ JStr]) auto
  ultimately show ?thesis unfolding message_of_def message_value_def by (simp add: req_str_def)
qed

lemma function_def_read [simp]: "function_def_of (function_def_value f) = Some f"
  by (cases "fd_description f") (simp_all add: function_def_of_def function_def_value_def req_str_def opt_field_def opt_value_def)

lemma tool_read [simp]: "tool_of (tool_def_value t) = Some t"
  by (simp add: tool_of_def tool_def_value_def req_str_def)

lemma function_ref_read [simp]: "function_ref_of (function_ref_value f) = Some f" "function_ref_value f \<noteq> JNull"
  by (simp_all add: function_ref_of_def function_ref_value_def req_str_def)

lemma tool_choice_read [simp]: "tool_choice_of (tool_choice_value c) = Some c" "tool_choice_value c \<noteq> JNull"
proof -
  show "tool_choice_of (tool_choice_value c) = Some c"
  proof (cases c)
    case (ChoiceObject b)
    let ?m = "[(''type'', JStr (tco_choice_type b)), (''function'', opt_value function_ref_value (tco_function b))]"
    have "opt_field function_ref_of ?m ''function'' = Some (tco_function b)" by (rule opt_field_null) auto
    with ChoiceObject show ?thesis by (simp add: tool_choice_of_def tool_choice_object_of_def req_str_def)
  qed (simp add: tool_choice_of_def)
  show "tool_choice_value c \<noteq> JNull" by (cases c) simp_all
qed

section \<open>Finite singles survive\<close>

text \<open>Widening a finite single and narrowing it again is the identity, so a written number is the number read.\<close>

lemma bit_length_unique: "2 ^ b \<le> n \<Longrightarrow> n < 2 ^ Suc b \<Longrightarrow> bit_length n = Suc b"
proof -
  assume a: "2 ^ b \<le> n" "n < 2 ^ Suc b"
  then have "0 < n" by (cases n) auto
  from bit_length_bounds [OF this] have n: "2 ^ (bit_length n - 1) \<le> n" "n < 2 ^ bit_length n" "0 < bit_length n" by auto
  have "(2::nat) ^ b < 2 ^ bit_length n" "(2::nat) ^ (bit_length n - 1) < 2 ^ Suc b" using a n by linarith+
  then show ?thesis using n(3) by (simp add: power_strict_increasing_iff del: power_Suc)
qed

lemma bit_length_shift: "0 < n \<Longrightarrow> bit_length (n * 2 ^ s) = bit_length n + s"
proof -
  assume n: "0 < n"
  obtain b where b: "bit_length n = Suc b" using bit_length_bounds [OF n] by (cases "bit_length n") auto
  have "2 ^ (b + s) \<le> n * 2 ^ s" "n * 2 ^ s < 2 ^ Suc (b + s)"
    using bit_length_bounds [OF n] b by (simp_all add: power_add)
  from bit_length_unique [OF this] b show ?thesis by simp
qed

lemma log_ratio_exact: "0 < n \<Longrightarrow> log_ratio (n * up k) (up (- k)) = int (bit_length n) - 1 + k"
proof -
  assume n: "0 < n"
  obtain b where b: "bit_length n = Suc b" using bit_length_bounds [OF n] by (cases "bit_length n") auto
  define K where "K = int b + k"
  have one: "bit_length (up (- k)) = Suc (nat (- k))" using bit_length_shift [of 1 "nat (- k)"] by (simp add: up_def)
  have "nat (- k) + nat K = b + nat k + nat (- K)" unfolding K_def by linarith
  then have "up (- k) * up K = 2 ^ b * (up k * up (- K))" unfolding up_def power_add [symmetric] by (simp add: add.assoc)
  also have "\<dots> \<le> n * up k * up (- K)" using bit_length_bounds [OF n] b by (simp add: mult.assoc)
  finally have le: "up (- k) * up K \<le> n * up k * up (- K)" .
  have two: "bit_length (n * up k) = Suc b + nat k" using bit_length_shift [OF n, of "nat k"] b by (simp add: up_def)
  have "int (bit_length (n * up k)) - int (bit_length (up (- k))) = K" unfolding one two K_def by linarith
  with le b show ?thesis by (simp add: log_ratio_def K_def)
qed

lemma round_shift:
  assumes "e \<le> k"
  shows "round_even (n * up k * up (- e)) (up (- k) * up e) = n * 2 ^ nat (k - e)"
proof -
  have "nat k + nat (- e) = nat (k - e) + (nat (- k) + nat e)" using assms by linarith
  then have "up k * up (- e) = 2 ^ nat (k - e) * (up (- k) * up e)" unfolding up_def power_add [symmetric] by simp
  then have eq: "n * up k * up (- e) = n * 2 ^ nat (k - e) * (up (- k) * up e)" by (simp add: mult.assoc)
  show ?thesis unfolding eq by (rule round_even_exact) simp
qed

text \<open>A value of at most 24 bits, as a double and back.\<close>

lemma widened:
  assumes "0 < n" "n < 2 ^ 24" "- 149 \<le> k" "k \<le> 104"
  shows "decode_magnitude (round_ratio (n * up k) (up (- k))) = (n * 2 ^ (53 - bit_length n), k - int (53 - bit_length n))"
    "round_ratio (n * up k) (up (- k)) < F64_INF" "0 < round_ratio (n * up k) (up (- k))"
proof -
  define s where "s = 53 - bit_length n"
  have b: "bit_length n \<le> 24" "0 < bit_length n"
  proof -
    from bit_length_bounds [OF assms(1)] have "(2::nat) ^ (bit_length n - 1) < 2 ^ 24" "0 < bit_length n" using assms(2) by linarith+
    then show "bit_length n \<le> 24" "0 < bit_length n"
      using power_strict_increasing_iff [of "2::nat" "bit_length n - 1" 24] by linarith+
  qed
  then have e: "unit_exponent (n * up k) (up (- k)) = k - int s"
    using log_ratio_exact [OF assms(1), of k] assms(3) by (simp add: unit_exponent_def s_def)
  define f where "f = n * 2 ^ s"
  have "bit_length f = 53" using bit_length_shift [OF assms(1), of s] b by (simp add: f_def s_def)
  with bit_length_bounds [of f] assms(1) have f: "2 ^ 52 \<le> f" "f < 2 ^ 53" by (auto simp: f_def)
  define E where "E = nat (k - int s + 1074)"
  have E: "E \<le> 1149" "int E = k - int s + 1074" using assms(3,4) b by (auto simp: E_def s_def)
  have r: "round_ratio (n * up k) (up (- k)) = min F64_INF (E * 2 ^ 52 + f)"
    using round_shift [of "k - int s" k n] by (simp add: round_ratio_def e Let_def E_def f_def)
  have small: "E * 2 ^ 52 + f < F64_INF" using E(1) f(2) by (simp add: F64_INF_def)
  show "round_ratio (n * up k) (up (- k)) < F64_INF" "0 < round_ratio (n * up k) (up (- k))" using r small f by simp_all
  have "E * 2 ^ 52 + f = (f - 2 ^ 52) + (E + 1) * 2 ^ 52" using f(1) by simp
  moreover have "f - 2 ^ 52 < 2 ^ 52" using f by simp
  ultimately have "(E * 2 ^ 52 + f) div 2 ^ 52 = E + 1" "(E * 2 ^ 52 + f) mod 2 ^ 52 = f - 2 ^ 52"
    by (simp_all del: mult_Suc add_mult_distrib)
  with r small E(2) f(1) show "decode_magnitude (round_ratio (n * up k) (up (- k))) = (n * 2 ^ (53 - bit_length n), k - int (53 - bit_length n))"
    by (simp add: decode_magnitude_def Let_def f_def s_def)
qed

lemma narrowed:
  assumes "0 < n" "n < 2 ^ 24" "- 149 \<le> k" "2 ^ 23 \<le> n \<or> k = - 149" "t = 53 - bit_length n"
  shows "round_ratio32 (n * 2 ^ t * up (k - int t)) (up (- (k - int t))) = min F32_INF (nat (k + 149) * 2 ^ 23 + n)"
proof -
  let ?e = "k - int t"
  have b: "bit_length n \<le> 24" "2 ^ 23 \<le> n \<Longrightarrow> bit_length n = 24"
  proof -
    from bit_length_bounds [OF assms(1)] have "(2::nat) ^ (bit_length n - 1) < 2 ^ 24" using assms(2) by linarith
    then show "bit_length n \<le> 24" using power_strict_increasing_iff [of "2::nat" "bit_length n - 1" 24] by linarith
    show "2 ^ 23 \<le> n \<Longrightarrow> bit_length n = 24" using bit_length_unique [of 23 n] assms(2) by simp
  qed
  have "log_ratio (n * 2 ^ t * up ?e) (up (- ?e)) = int (bit_length n) - 1 + k"
    using log_ratio_exact [of "n * 2 ^ t" ?e] bit_length_shift [OF assms(1), of t] assms(1) by simp
  then have e: "max (log_ratio (n * 2 ^ t * up ?e) (up (- ?e)) - 23) (- 149) = k" using assms(3,4) b by auto
  have "t + nat ?e + nat (- k) = nat (- ?e) + nat k" by linarith
  then have "2 ^ t * up ?e * up (- k) = up (- ?e) * up k" unfolding up_def power_add [symmetric] by simp
  then have eq: "n * 2 ^ t * up ?e * up (- k) = n * (up (- ?e) * up k)" by (simp add: mult.assoc)
  show ?thesis unfolding round_ratio32_def e Let_def eq by (subst round_even_exact) simp_all
qed

lemma signed32_parts: "signed32 (negative32 x) (magnitude32 x) = x"
proof -
  have "unat x < 2 ^ 32" by (rule order_less_le_trans [OF unsigned_less]) simp
  then have "magnitude32 x + (if negative32 x then 2 ^ 31 else 0) = unat x"
    by (auto simp: magnitude32_def negative32_def mod_if)
  then show ?thesis by (simp add: signed32_def)
qed

lemma finite_single_kept:
  assumes "f32_is_finite x"
  shows "f64_to_f32 (f32_to_f64 x) = x"
proof -
  define m s where d: "m = magnitude32 x" "s = negative32 x"
  have x: "signed32 s m = x" using signed32_parts [of x] by (simp add: d)
  have m: "m < F32_INF" using assms by (simp add: f32_is_finite_def d)
  show ?thesis
  proof (cases "m = 0")
    case True
    then have "f32_to_f64 x = signed s 0" by (simp add: f32_to_f64_def d Let_def)
    with x True signed_magnitude [of 0 s] show ?thesis by (simp add: f64_to_f32_def is_nan_def F64_INF_def)
  next
    case False
    define n k where nk: "n = (if m div 2 ^ 23 = 0 then m mod 2 ^ 23 else 2 ^ 23 + m mod 2 ^ 23)"
      "k = (if m div 2 ^ 23 = 0 then - 149 else int (m div 2 ^ 23) - 150)"
    have md: "m = m div 2 ^ 23 * 2 ^ 23 + m mod 2 ^ 23" "m mod 2 ^ 23 < 2 ^ 23" "m div 2 ^ 23 < 255"
      using m by (simp_all add: F32_INF_def)
    have n: "0 < n" "n < 2 ^ 24" "- 149 \<le> k" "k \<le> 104" "2 ^ 23 \<le> n \<or> k = - 149"
      using False md by (auto simp: nk)
    have whole: "nat (k + 149) * 2 ^ 23 + n = m"
    proof (cases "m div 2 ^ 23")
      case 0
      with md(1) show ?thesis by (simp add: nk)
    next
      case (Suc j)
      then have "nat (k + 149) = j" "n = 2 ^ 23 + m mod 2 ^ 23" by (simp_all add: nk)
      moreover have "Suc j * 2 ^ 23 + m mod 2 ^ 23 = m" using div_mult_mod_eq [of m "2 ^ 23"] unfolding Suc .
      ultimately show ?thesis by (simp only: mult_Suc add_ac)
    qed
    let ?r = "round_ratio (n * up k) (up (- k))" and ?t = "53 - bit_length n"
    have w: "f32_to_f64 x = signed s ?r" using False by (simp add: f32_to_f64_def d [symmetric] Let_def nk split_beta)
    note wd = widened [OF n(1-4)]
    have "magnitude (signed s ?r) = ?r" "negative (signed s ?r) = s" using signed_magnitude [of ?r s] wd(2) by auto
    then have "f64_to_f32 (f32_to_f64 x) = signed32 s (round_ratio32 (n * 2 ^ ?t * up (k - int ?t)) (up (- (k - int ?t))))"
      using wd by (simp add: w f64_to_f32_def is_nan_def)
    also have "\<dots> = signed32 s m" using narrowed [OF n(1,2,3,5) refl] whole m by simp
    finally show ?thesis using x by simp
  qed
qed

section \<open>The whole request\<close>

text \<open>A request a reader can have built: its numbers are finite and its other fields are not the known ones.\<close>

definition request_ok :: "((string \<Rightarrow> json option) \<Rightarrow> string list) \<Rightarrow> chat_completion_request \<Rightarrow> bool" where
  "request_ok order r = (
     is_none_or f32_is_finite (cq_temperature r) \<and> is_none_or f32_is_finite (cq_top_p r)
     \<and> is_none_or f32_is_finite (cq_frequency_penalty r) \<and> is_none_or f32_is_finite (cq_presence_penalty r)
     \<and> dom (cq_extra r) \<inter> set REQUEST_FIELDS = {}
     \<and> distinct (order (cq_extra r)) \<and> set (order (cq_extra r)) = dom (cq_extra r))"

lemma float_read: "f32_is_finite x \<Longrightarrow> as_f32 (f32_value x) = Some x \<and> f32_value x \<noteq> JNull"
  by (simp add: f32_value_def as_f32_def finite_single_kept)

lemma map_of_put_all: "map_of (put_all es m) k = (case map_of (rev es) k of Some v \<Rightarrow> Some v | None \<Rightarrow> map_of m k)"
  by (induction es arbitrary: m) (auto simp: put_all_def map_of_jmap_insert map_add_def split: option.splits)

lemma map_of_others:
  assumes "set ks = dom f"
  shows "map_of (rev (map (\<lambda>k. (k, the (f k))) ks)) k = f k"
  using assms by (auto simp: rev_map map_of_map_restrict restrict_map_def dom_def)

lemma extra_unknown: "request_ok order r \<Longrightarrow> k \<in> set REQUEST_FIELDS \<Longrightarrow> cq_extra r k = None"
  by (auto simp: request_ok_def)

text \<open>The fields of a written request.\<close>

lemma written_fields:
  assumes "request_ok order r"
  shows "\<exists>m. value_of_request order r = JObj m
    \<and> (\<forall>k. map_of m k = (if k \<in> set REQUEST_FIELDS then map_of (known_fields r) k else cq_extra r k))"
proof -
  have known: "map_of (known_fields r) k = None" if "k \<notin> set REQUEST_FIELDS" for k
    using that by (simp add: known_fields_def REQUEST_FIELDS_def)
  have "map_of (put_all (map (\<lambda>k. (k, the (cq_extra r k))) (order (cq_extra r))) (known_fields r)) k
      = (if k \<in> set REQUEST_FIELDS then map_of (known_fields r) k else cq_extra r k)" for k
    using assms extra_unknown [OF assms] known by (simp add: map_of_put_all map_of_others request_ok_def split: option.splits)
  then show ?thesis by (simp add: value_of_request_def)
qed

text \<open>Reading a written request gives it back.\<close>

lemma request_read:
  assumes "request_ok order r"
  shows "request_of_value env (value_of_request order r) = Some r"
proof -
  from written_fields [OF assms] obtain m where m: "value_of_request order r = JObj m"
    "\<And>k. k \<in> set REQUEST_FIELDS \<Longrightarrow> map_of m k = map_of (known_fields r) k"
    "\<And>k. k \<notin> set REQUEST_FIELDS \<Longrightarrow> map_of m k = cq_extra r k" by auto
  have e: "(\<lambda>k. if k \<in> set REQUEST_FIELDS then None else map_of m k) = cq_extra r"
    using extra_unknown [OF assms] m(3) by (simp add: fun_eq_iff)
  have fl: "opt_field as_f32 m k = Some x" if "map_of m k = map_option f32_value x" "is_none_or f32_is_finite x" for k x
    using that by (intro opt_field_present [of _ _ f32_value]) (auto dest: float_read)
  have f: "opt_field as_f32 m ''temperature'' = Some (cq_temperature r)" "opt_field as_f32 m ''top_p'' = Some (cq_top_p r)"
    "opt_field as_f32 m ''frequency_penalty'' = Some (cq_frequency_penalty r)"
    "opt_field as_f32 m ''presence_penalty'' = Some (cq_presence_penalty r)"
    using assms by (auto intro!: fl simp: request_ok_def m(2) REQUEST_FIELDS_def known_fields_def)
  have "opt_field as_u32 m ''max_tokens'' = Some (cq_max_tokens r)"
    by (rule opt_field_present [of _ _ u32_value]) (auto simp: m(2) REQUEST_FIELDS_def known_fields_def)
  moreover have "opt_field json_bool m ''stream'' = Some (cq_stream r)"
    by (rule opt_field_present [of _ _ JBool]) (auto simp: m(2) REQUEST_FIELDS_def known_fields_def json_bool_def)
  moreover have "opt_field (list_of tool_of) m ''tools'' = Some (cq_tools r)"
    by (rule opt_field_present [of _ _ "\<lambda>ts. JArr (map tool_def_value ts)"]) (auto simp: m(2) REQUEST_FIELDS_def known_fields_def)
  moreover have "opt_field tool_choice_of m ''tool_choice'' = Some (cq_tool_choice r)"
    by (rule opt_field_present [of _ _ tool_choice_value]) (auto simp: m(2) REQUEST_FIELDS_def known_fields_def)
  moreover have "opt_field (list_of as_str) m ''stop'' = Some (cq_stop r)"
    by (rule opt_field_present [of _ _ "\<lambda>ss. JArr (map JStr ss)"]) (auto simp: m(2) REQUEST_FIELDS_def known_fields_def)
  moreover have s: "opt_field as_str m ''user'' = Some (cq_user r)" "opt_field as_str m ''reasoning_effort'' = Some (cq_reasoning_effort r)"
    "opt_field as_str m ''verbosity'' = Some (cq_verbosity r)"
    by (rule opt_field_present [of _ _ JStr]; auto simp: m(2) REQUEST_FIELDS_def known_fields_def)+
  moreover have "opt_field as_u64 m ''thinking_budget'' = Some (cq_thinking_budget r)"
    by (rule opt_field_present [of _ _ "\<lambda>n. JNum (PosInt n)"]) (auto simp: m(2) REQUEST_FIELDS_def known_fields_def)
  moreover have "map_of m ''model'' = Some (JStr (cq_model r))" "map_of m ''messages'' = Some (JArr (map message_value (cq_messages r)))"
    by (simp_all add: m(2) REQUEST_FIELDS_def known_fields_def)
  ultimately show ?thesis unfolding request_of_value_def m(1) using f by (simp add: req_str_def e)
qed

section \<open>What an augmentation does to a typed request\<close>

definition append_part :: "string \<Rightarrow> content_part list \<Rightarrow> content_part list" where
  "append_part block ps =
     (let fresh = ps @ [\<lparr>cp_content_type = ''text'', cp_text = Some block, cp_image_url = None\<rparr>] in
      case last_position (\<lambda>p. cp_content_type p = ''text'') ps of
        None \<Rightarrow> fresh
      | Some i \<Rightarrow> (case cp_text (ps ! i) of Some t \<Rightarrow> ps[i := (ps ! i)\<lparr>cp_text := Some (t @ block)\<rparr>] | None \<Rightarrow> fresh))"

definition append_content :: "string \<Rightarrow> request_content option \<Rightarrow> request_content" where
  "append_content block c = (case c of
       None \<Rightarrow> TextContent block
     | Some (TextContent s) \<Rightarrow> TextContent (s @ block)
     | Some (Parts ps) \<Rightarrow> Parts (append_part block ps))"

definition system_message :: "string \<Rightarrow> message" where
  "system_message block = \<lparr>mg_role = ''system'', mg_content = Some (TextContent block), mg_name = None, mg_tool_calls = None,
     mg_tool_call_id = None\<rparr>"

definition augmented_messages :: "string \<Rightarrow> message list \<Rightarrow> message list" where
  "augmented_messages block ms = (case last_position (\<lambda>m. mg_role m = ''user'') ms of
       Some i \<Rightarrow> ms[i := (ms ! i)\<lparr>mg_content := Some (append_content block (mg_content (ms ! i)))\<rparr>]
     | None \<Rightarrow> if ms = [] then [] else ms @ [system_message block])"

definition augmented_request :: "string \<Rightarrow> string \<Rightarrow> chat_completion_request \<Rightarrow> chat_completion_request" where
  "augmented_request prompt aug r = r\<lparr>cq_messages := augmented_messages (augment_block prompt aug) (cq_messages r)\<rparr>"

lemma last_position_map: "last_position P (map f xs) = last_position (\<lambda>x. P (f x)) xs"
  by (induction xs) (auto split: option.splits)

lemma last_position_less: "last_position P xs = Some i \<Longrightarrow> i < length xs"
  by (induction xs arbitrary: i) (auto split: option.splits if_splits)

lemma those_Some: "those (map Some xs) = Some xs"
  by (induction xs) auto

lemma those_snoc: "those (xs @ [Some y]) = map_option (\<lambda>l. l @ [y]) (those xs)"
  by (induction xs) (auto split: option.splits simp: option.map_comp comp_def)

lemma list_of_snoc: "(\<And>x. f (g x) = Some x) \<Longrightarrow> f v = Some y \<Longrightarrow> list_of f (JArr (map g xs @ [v])) = Some (xs @ [y])"
  by (simp add: list_of_def those_snoc comp_def those_Some)

lemma list_of_update:
  assumes "\<And>x. f (g x) = Some x" "f v = Some y" "i < length xs"
  shows "list_of f (JArr ((map g xs)[i := v])) = Some (xs[i := y])"
proof -
  have "map f ((map g xs)[i := v]) = map Some (xs[i := y])" using assms by (simp add: map_update comp_def)
  then show ?thesis by (simp add: list_of_def those_Some)
qed

lemma part_text_set: "update_key ''text'' (\<lambda>_. JStr s) (content_part_value p) = content_part_value (p\<lparr>cp_text := Some s\<rparr>)"
  by (simp add: content_part_value_def opt_value_def)

lemma append_parts_read: "list_of content_part_of (JArr (append_to_parts block (map content_part_value ps))) = Some (append_part block ps)"
proof -
  have part: "is_text_part (content_part_value p) \<longleftrightarrow> cp_content_type p = ''text''"
    "get (content_part_value p) ''text'' = Some (opt_value JStr (cp_text p))" for p
    by (simp_all add: is_text_part_def get_str_def content_part_value_def)
  have new: "content_part_of (JObj [(''type'', JStr ''text''), (''text'', JStr block)])
      = Some \<lparr>cp_content_type = ''text'', cp_text = Some block, cp_image_url = None\<rparr>"
    by (simp add: content_part_of_def req_str_def opt_field_def)
  show ?thesis
    by (auto simp: append_to_parts_def append_part_def last_position_map part Let_def list_of_snoc new opt_value_def
        last_position_less part_text_set list_of_update split: option.splits)
qed

lemma opt_field_insert: "opt_field f (jmap_insert k v m) j =
    (if j = k then (case v of JNull \<Rightarrow> Some None | _ \<Rightarrow> map_option Some (f v)) else opt_field f m j)"
  by (simp add: opt_field_def map_of_jmap_insert split: json.splits)

lemma message_set_content:
  assumes "message_of env (JObj l) = Some m" "message_content_of c = Some c'"
  shows "message_of env (JObj (jmap_insert ''content'' c l)) = Some (m\<lparr>mg_content := Some c'\<rparr>)"
proof -
  have "c \<noteq> JNull" using assms(2) by (auto simp: message_content_of_def list_of_def)
  with assms show ?thesis
    by (auto simp: message_of_def bind_eq_Some_conv req_str_def opt_field_insert map_of_jmap_insert split: json.splits)
qed

lemma message_augmented:
  "\<exists>v. append_block_to_message env (message_value m) block = Some (Ok v)
     \<and> message_of env v = Some (m\<lparr>mg_content := Some (append_content block (mg_content m))\<rparr>)"
proof -
  obtain l where l: "message_value m = JObj l" by (simp add: message_value_def)
  have r: "message_of env (JObj l) = Some m" using message_read [of env m] l by simp
  have c: "get (JObj l) ''content'' = map_option message_content_value (mg_content m)"
    unfolding l [symmetric] by (simp add: message_value_def)
  note set = message_set_content [OF r]
  have t: "message_content_of (JStr s) = Some (TextContent s)" for s by (simp add: message_content_of_def)
  have p: "message_content_of (JArr xs) = map_option Parts (list_of content_part_of (JArr xs))" for xs
    by (simp add: message_content_of_def)
  show ?thesis
  proof (cases "mg_content m")
    case None
    with l c set [OF t [of block]] show ?thesis by (simp add: append_block_to_message_def append_content_def)
  next
    case (Some x)
    then have present: "update_key ''content'' f (JObj l) = JObj (jmap_insert ''content'' (f (message_content_value x)) l)" for f
      using c by simp
    show ?thesis
    proof (cases x)
      case (TextContent s)
      with Some l c present set [OF t [of "s @ block"]] show ?thesis by (simp add: append_block_to_message_def append_content_def)
    next
      case (Parts ps)
      from set [of "JArr (append_to_parts block (map content_part_value ps))" "Parts (append_part block ps)"]
      have "message_of env (JObj (jmap_insert ''content'' (JArr (append_to_parts block (map content_part_value ps))) l))
          = Some (m\<lparr>mg_content := Some (Parts (append_part block ps))\<rparr>)"
        by (simp add: p append_parts_read)
      with Some Parts l c present show ?thesis by (simp add: append_block_to_message_def append_content_def)
    qed
  qed
qed

lemma messages_augmented:
  "\<exists>xs. inject_into_messages env block (map message_value ms) = Some (Ok xs)
     \<and> list_of (message_of env) (JArr xs) = Some (augmented_messages block ms)"
proof -
  have user: "is_user (message_value m) \<longleftrightarrow> mg_role m = ''user''" for m
    by (simp add: is_user_def get_str_def message_value_def)
  have sys: "message_of env (JObj [(''role'', JStr ''system''), (''content'', JStr block)]) = Some (system_message block)"
    by (simp add: message_of_def req_str_def opt_field_def message_content_of_def system_message_def)
  show ?thesis
  proof (cases "last_position (\<lambda>m. mg_role m = ''user'') ms")
    case None
    then show ?thesis
      using list_of_snoc [of "message_of env" message_value, OF message_read sys, of ms]
      by (auto simp: inject_into_messages_def last_position_map user augmented_messages_def) (simp add: list_of_def)
  next
    case (Some i)
    from message_augmented [of env "ms ! i" block] obtain v where
      "append_block_to_message env (message_value (ms ! i)) block = Some (Ok v)"
      "message_of env v = Some ((ms ! i)\<lparr>mg_content := Some (append_content block (mg_content (ms ! i)))\<rparr>)" by blast
    with Some show ?thesis
      by (simp add: inject_into_messages_def last_position_map user augmented_messages_def last_position_less list_of_update)
  qed
qed

lemma request_set_messages:
  assumes "request_of_value env (JObj l) = Some r" "list_of (message_of env) x = Some ms"
  shows "request_of_value env (JObj (jmap_insert ''messages'' x l)) = Some (r\<lparr>cq_messages := ms\<rparr>)"
proof -
  have e: "(\<lambda>k. if k \<in> set REQUEST_FIELDS then None else map_of (jmap_insert ''messages'' x l) k)
      = (\<lambda>k. if k \<in> set REQUEST_FIELDS then None else map_of l k)"
    by (auto simp: fun_eq_iff map_of_jmap_insert REQUEST_FIELDS_def)
  show ?thesis
    using assms unfolding request_of_value_def as_object.simps bind.simps e
    by (simp add: bind_eq_Some_conv req_str_def opt_field_insert map_of_jmap_insert, elim exE conjE, hypsubst, simp)
qed

lemma written_stop:
  assumes "request_ok order r"
  shows "normalize_stop (value_of_request order r) = value_of_request order r"
proof -
  have "get (value_of_request order r) ''stop'' = map_option (\<lambda>ss. JArr (map JStr ss)) (cq_stop r)"
    using written_fields [OF assms] by (auto simp: REQUEST_FIELDS_def known_fields_def)
  then show ?thesis by (cases "cq_stop r") (simp_all add: normalize_stop_def)
qed

lemma inject_typed_request:
  assumes "request_of_value env v = Some r" "request_ok order r"
  shows "inject_typed env refusal order v prompt aug = Some (Inr (augmented_request prompt aug r))"
proof -
  let ?w = "value_of_request order r"
  from written_fields [OF assms(2)] obtain m where m: "?w = JObj m"
    "map_of m ''messages'' = Some (JArr (map message_value (cq_messages r)))"
    by (auto simp: REQUEST_FIELDS_def known_fields_def)
  from messages_augmented [of env "augment_block prompt aug" "cq_messages r"] obtain xs where
    xs: "inject_into_messages env (augment_block prompt aug) (map message_value (cq_messages r)) = Some (Ok xs)"
      "list_of (message_of env) (JArr xs) = Some (augmented_messages (augment_block prompt aug) (cq_messages r))" by blast
  have "inject_augmentation_value env ?w prompt aug = Some (Ok (JObj (jmap_insert ''messages'' (JArr xs) m)))"
    using written_stop [OF assms(2)] m xs(1)
    by (simp add: inject_augmentation_value_def is_object_def Let_def get_array_def)
  moreover have "request_of_value env (JObj (jmap_insert ''messages'' (JArr xs) m)) = Some (augmented_request prompt aug r)"
    unfolding augmented_request_def using request_set_messages [OF _ xs(2)] request_read [OF assms(2), of env] m(1) by simp
  ultimately show ?thesis
    by (simp add: inject_typed_def read_request_def assms(1) inject_augmentation_def and_then_def)
qed

text \<open>C26. Augmenting through the type is a typed update. For every body the handler's reader accepts, writing it as
  JSON, editing the JSON and reading it back succeeds, and the result is the accepted request with the block at the
  end of the last user message (on its text, on its last text part, in a new part, or as the content it lacked),
  or with one system message more when there is no user message; every other field of the request and of its
  messages is the one read.\<close>

theorem typed_augmentation_refines:
  assumes "request_of_value env v = Some r" "request_ok order r"
  shows "inject_typed env refusal order v prompt aug = Some (Inr (augmented_request prompt aug r))"
  using assms by (rule inject_typed_request)

text \<open>In the handler, with these conversions in place of its parameters: the body sent on is the printed form of the
  updated request, and the client's own bytes where printing or reading fails.\<close>

theorem handler_forwards_augmented:
  assumes "he_from_openai env = read_request (he_serde env) refusal" "he_to_openai env = (\<lambda>r. Inr (value_of_request order r))"
    and "\<And>r. request_of_value (he_serde env) req = Some r \<Longrightarrow> request_ok order r"
  shows "enriched env False req body aug prompt = Some (case request_of_value (he_serde env) req of
     None \<Rightarrow> body
   | Some r \<Rightarrow> or_original body (he_openai_bytes env (augmented_request prompt aug r)))"
proof (cases "request_of_value (he_serde env) req")
  case None
  then show ?thesis by (simp add: enriched_def assms(1) read_request_def)
next
  case (Some r)
  from inject_typed_request [OF Some assms(3) [OF Some], of refusal prompt aug] Some show ?thesis
    by (simp add: enriched_def assms(1,2) read_request_def inject_typed_def split: option.splits)
qed

section \<open>What the detour keeps\<close>

lemma those_list_all2: "those (map f xs) = Some ys \<Longrightarrow> list_all2 (\<lambda>x y. f x = Some y) xs ys"
  by (induction xs arbitrary: ys) (auto split: option.splits)

lemma opt_field_str: "opt_field as_str l k = Some x \<Longrightarrow> Option.bind (map_of l k) as_str = x"
  by (auto simp: opt_field_def split: option.splits json.splits)

definition kept_message :: "json \<Rightarrow> json \<Rightarrow> bool" where
  "kept_message a b = ((\<forall>k. k \<notin> set MESSAGE_FIELDS \<longrightarrow> get b k = None)
     \<and> (is_object a \<longrightarrow> get b ''role'' = get a ''role''
          \<and> (\<forall>k. k \<in> {''content'', ''name'', ''tool_call_id''} \<longrightarrow> get_str b k = get_str a k)))"

lemma message_kept:
  assumes "message_of env a = Some m"
  shows "kept_message a (message_value m)"
proof -
  have only: "get (message_value m) k = None" if "k \<notin> set MESSAGE_FIELDS" for k
    using that by (simp add: message_value_def MESSAGE_FIELDS_def)
  show ?thesis
  proof (cases "is_object a")
    case True
    then obtain l where l: "a = JObj l" by (cases a) (auto simp: is_object_def)
    with assms have m: "req_str l ''role'' = Some (mg_role m)" "opt_field message_content_of l ''content'' = Some (mg_content m)"
      "opt_field as_str l ''name'' = Some (mg_name m)" "opt_field as_str l ''tool_call_id'' = Some (mg_tool_call_id m)"
      by (auto simp: message_of_def bind_eq_Some_conv)
    have "get_str a ''content'' = (case mg_content m of Some (TextContent s) \<Rightarrow> Some s | _ \<Rightarrow> None)"
      using m(2) by (cases "mg_content m") (auto simp: l get_str_def opt_field_def message_content_of_def list_of_def split: option.splits json.splits)
    moreover have "get_str (message_value m) ''content'' = (case mg_content m of Some (TextContent s) \<Rightarrow> Some s | _ \<Rightarrow> None)"
      by (auto simp: get_str_def message_value_def split: option.splits request_content.splits)
    moreover have "get_str (message_value m) ''name'' = mg_name m" "get_str (message_value m) ''tool_call_id'' = mg_tool_call_id m"
      by (cases "mg_name m"; cases "mg_tool_call_id m"; simp add: get_str_def message_value_def)+
    moreover have "get_str a ''name'' = mg_name m" "get_str a ''tool_call_id'' = mg_tool_call_id m"
      using opt_field_str [OF m(3)] opt_field_str [OF m(4)] by (simp_all add: l get_str_def)
    moreover have "get (message_value m) ''role'' = get a ''role''"
      using m(1) by (auto simp: l req_str_def message_value_def bind_eq_Some_conv elim: as_str.elims)
    ultimately show ?thesis using only by (auto simp: kept_message_def)
  qed (simp add: kept_message_def only)
qed

text \<open>The fields the type does not know survive at the top of the request and nowhere below: a message keeps its
  role, text, name and call id and loses every field that is not one of the five.\<close>

theorem typed_detour_keeps:
  assumes "request_of_value env v = Some r" "request_ok order r"
  shows "(\<forall>k. k \<notin> set REQUEST_FIELDS \<longrightarrow> get (value_of_request order r) k = get v k)
    \<and> get (value_of_request order r) ''model'' = get v ''model''
    \<and> (\<exists>ms ms'. get_array v ''messages'' = Some ms \<and> get_array (value_of_request order r) ''messages'' = Some ms'
         \<and> list_all2 kept_message ms ms')"
proof -
  from assms(1) obtain l where l: "v = JObj l" "req_str l ''model'' = Some (cq_model r)"
    "Option.bind (map_of l ''messages'') (list_of (message_of env)) = Some (cq_messages r)"
    "cq_extra r = (\<lambda>k. if k \<in> set REQUEST_FIELDS then None else map_of l k)"
    by (cases v) (auto simp: request_of_value_def bind_eq_Some_conv)
  from written_fields [OF assms(2)] obtain m where m: "value_of_request order r = JObj m"
    "\<And>k. map_of m k = (if k \<in> set REQUEST_FIELDS then map_of (known_fields r) k else cq_extra r k)" by blast
  from l(3) obtain ms where ms: "map_of l ''messages'' = Some (JArr ms)" "those (map (message_of env) ms) = Some (cq_messages r)"
    by (auto simp: bind_eq_Some_conv list_of_def elim!: as_array.elims)
  have "list_all2 kept_message ms (map message_value (cq_messages r))"
    using those_list_all2 [OF ms(2)] message_kept by (auto simp: list_all2_map2 elim: list_all2_mono)
  moreover have "map_of m ''messages'' = Some (JArr (map message_value (cq_messages r)))" "map_of m ''model'' = map_of l ''model''"
    using l(2) by (auto simp: m(2) REQUEST_FIELDS_def known_fields_def req_str_def bind_eq_Some_conv elim: as_str.elims)
  ultimately show ?thesis using l(1,4) m ms(1) by (auto simp: get_array_def)
qed

text \<open>A request whose \<^verbatim>\<open>stop\<close> is a string is refused by the reader, so it is forwarded without its augmentation, although the
  edit itself would accept it.\<close>

lemma string_stop_refused: "get v ''stop'' = Some (JStr s) \<Longrightarrow> inject_typed env refusal order v prompt aug = Some (Inl (refusal v))"
proof -
  assume "get v ''stop'' = Some (JStr s)"
  then obtain l where "v = JObj l" "map_of l ''stop'' = Some (JStr s)" by (cases v) auto
  then have "request_of_value env v = None"
    by (cases "request_of_value env v") (auto simp: request_of_value_def bind_eq_Some_conv opt_field_def list_of_def)
  then show ?thesis by (simp add: inject_typed_def read_request_def)
qed

section \<open>Witness\<close>

theorem typed_augmentation_refines_witness:
  "\<forall>env refusal. \<exists>r. request_of_value env sample_request = Some r
     \<and> inject_typed env refusal (\<lambda>_. []) sample_request ''p'' ''a'' = Some (Inr (augmented_request ''p'' ''a'' r))
     \<and> map mg_content (cq_messages (augmented_request ''p'' ''a'' r))
         = [Some (TextContent (''hi'' @ augment_block ''p'' ''a'')), Some (TextContent ''ho'')]"
proof (intro allI)
  fix env and refusal :: "json \<Rightarrow> string"
  let ?r = "\<lparr>cq_model = ''m'', cq_messages = [\<lparr>mg_role = ''user'', mg_content = Some (TextContent ''hi''), mg_name = None,
      mg_tool_calls = None, mg_tool_call_id = None\<rparr>, \<lparr>mg_role = ''assistant'', mg_content = Some (TextContent ''ho''), mg_name = None,
      mg_tool_calls = None, mg_tool_call_id = None\<rparr>],
    cq_temperature = None, cq_top_p = None, cq_max_tokens = None, cq_stream = None, cq_tools = None, cq_tool_choice = None,
    cq_stop = None, cq_frequency_penalty = None, cq_presence_penalty = None, cq_user = None, cq_reasoning_effort = None,
    cq_verbosity = None, cq_thinking_budget = None, cq_extra = Map.empty\<rparr> :: chat_completion_request"
  have r: "request_of_value env sample_request = Some ?r"
    by (auto simp: request_of_value_def sample_request_def req_str_def opt_field_def list_of_def message_of_def
        message_content_of_def REQUEST_FIELDS_def fun_eq_iff)
  have "request_ok (\<lambda>_. []) ?r" by (simp add: request_ok_def)
  from typed_augmentation_refines [OF r this, of refusal "''p''" "''a''"] r
  show "\<exists>r. request_of_value env sample_request = Some r
     \<and> inject_typed env refusal (\<lambda>_. []) sample_request ''p'' ''a'' = Some (Inr (augmented_request ''p'' ''a'' r))
     \<and> map mg_content (cq_messages (augmented_request ''p'' ''a'' r))
         = [Some (TextContent (''hi'' @ augment_block ''p'' ''a'')), Some (TextContent ''ho'')]"
    by (simp add: augmented_request_def augmented_messages_def append_content_def)
qed

end
