(* ===== verification/Spec2Isabelle.thy ===== *)
theory Spec2Isabelle
  imports Json_Scan_Correct Grouped_Balancer Priority_Free_Concurrent Fix_Registry Reprompt Sse_Pass Claude_Stream
    Http_Forward Anthropic_Stream Augment Context_Window Handler_Correct Influx_Correct Stats_Format_Correct
    Model_Switcher_Correct Model_Holder_Correct Holder_Check_Correct Startup_Correct Shutdown_Correct Stream_Observer_Correct
    Openai_Request_Correct
begin

text \<open>
  Verification library for \<^verbatim>\<open>llama-proxy\<close>, the HTTP proxy of this repository that stands between
  OpenAI or Anthropic clients and llama.cpp or vLLM servers, and for two tools beside it, the model switcher and the model
  holder. Paths
  below are relative to \<^verbatim>\<open>llama-proxy/src/\<close> unless they say otherwise.

  \<^bold>\<open>The program.\<close> A request enters \<^verbatim>\<open>ProxyHandler::handle\<close>. Its model name selects a backend group, the
  group's strategy claims a node, local and monitoring paths are answered at once; otherwise a permit is
  taken, the body is augmented and rewritten for the node and sent. A streamed answer is passed through as
  it arrives, a buffered one is decoded, possibly re-prompted, repaired by the fixes, measured, and
  forwarded or turned into a synthesised event stream. Every answer of a backend marks its node's health,
  which the next selection reads.

  \<^bold>\<open>Theories.\<close>
  \<^item> \<open>Prelude\<close>, \<open>Utf8_Text\<close>, \<open>Json_Value\<close>, \<open>Float64\<close>: results and options, byte strings with UTF-8, JSON values as
    \<^verbatim>\<open>serde_json\<close> holds them (ordered maps), binary64 arithmetic by exact rounding.
  \<^item> \<open>Config\<close>, \<open>Config_Loader\<close>: \<^verbatim>\<open>config/mod.rs\<close>, \<^verbatim>\<open>config/validate.rs\<close>, \<^verbatim>\<open>config/loader.rs\<close>; the loader accepts
    exactly the files within every bound.
  \<^item> \<open>Backend_Node\<close>, \<open>Balancers\<close>, \<open>Priority_Free_Concurrent\<close>, \<open>Grouped_Balancer\<close>: \<^verbatim>\<open>backends/\<close>; the locale
    \<open>load_balancer\<close> states what a strategy promises and proves the accounting of claims once; both strategies
    and their sum are interpretations. The racing atomics of the priority-free strategy are a step relation
    over any number of threads.
  \<^item> \<open>Json_Scan\<close>, \<open>Json_Scan_Correct\<close>: \<^verbatim>\<open>fixes/json_scan.rs\<close> against a grammar of JSON texts, whole or cut.
  \<^item> \<open>Fix_Core\<close>, \<open>Null_Index_Fix\<close>, \<open>Malformed_Arguments_Fix\<close>, \<open>Bad_Filepath_Fix\<close>, \<open>Fix_Registry\<close>: \<^verbatim>\<open>fixes/\<close>; what
    each repair does and never does, and that the registry is fail-safe. The slot repair and the truncation are
    specified on the entries of a document (with empty-key slots, or cut behind the first value), not on the scanners
    the code uses.
  \<^item> \<open>Prompt_Cache\<close>, \<open>Reprompt\<close>, \<open>Augment\<close>: \<^verbatim>\<open>prompt_cache.rs\<close>, \<^verbatim>\<open>proxy/reprompt.rs\<close>, \<^verbatim>\<open>augment.rs\<close>.
  \<^item> \<open>Sse_Framing\<close>, \<open>Sse_Pass\<close>: the pass-through of \<^verbatim>\<open>proxy/streaming.rs\<close>; \<open>Sse_Merge\<close>, \<open>Sse_Merge_Correct\<close>: the
    merge of a finished stream.
  \<^item> \<open>Synthesis\<close>, \<open>Synthesis_Correct\<close>, \<open>Claude_Stream\<close>: \<^verbatim>\<open>proxy/synthesis.rs\<close>; a synthesised stream merges back to
    what it was made from. \<open>Anthropic_Api\<close>, \<open>Anthropic_Stream\<close>: \<^verbatim>\<open>api/openai.rs\<close> with its conversions.
    \<open>Openai_Request\<close>, \<open>Openai_Request_Correct\<close>: the typed request of that file; augmenting through its JSON form is an
    update of the typed request, and finite \<^verbatim>\<open>f32\<close> values survive the detour.
  \<^item> \<open>Kv_Labels\<close>, \<open>Context_Window\<close>: \<^verbatim>\<open>proxy/kv_labels.rs\<close>, \<^verbatim>\<open>proxy/compat.rs\<close>, \<^verbatim>\<open>proxy/context.rs\<close>,
    \<^verbatim>\<open>backends/preflight.rs\<close>.
  \<^item> \<open>Collector\<close>: \<^verbatim>\<open>stats/collector.rs\<close> and the export gate of \<^verbatim>\<open>exporters/mod.rs\<close>.
  \<^item> \<open>Text_Format\<close>, \<open>Stats_Format\<close>, \<open>Stats_Format_Correct\<close>: \<^verbatim>\<open>stats/formatter.rs\<close>, \<^verbatim>\<open>stats/request_log.rs\<close> with Rust's
    fixed-point printing of floats; no text inside a sample forges a line or a column of the log.
  \<^item> \<open>Influx\<close>, \<open>Influx_Correct\<close>: \<^verbatim>\<open>exporters/influxdb.rs\<close>, \<^verbatim>\<open>exporters/influxdb/worker.rs\<close>, the exporter manager. The
    queue is a step function over labels that name the acting thread, so a list of labels is an interleaving of
    request tasks, flushes, shutdown and the worker.
  \<^item> \<open>Http_Forward\<close>, \<open>Proxy_State\<close>, \<open>Handler\<close>, \<open>Handler_Correct\<close>: \<^verbatim>\<open>proxy/handler.rs\<close> over the state of
    \<^verbatim>\<open>proxy/server.rs\<close>, composed of all of the above; accounting, confinement and health over whole requests.
  \<^item> \<open>Stream_Observer\<close>, \<open>Stream_Observer_Correct\<close>: the task behind a streamed answer (\<^verbatim>\<open>StreamObserver\<close> of
    \<^verbatim>\<open>proxy/streaming.rs\<close>) and the dumps of both kinds of answer. At whichever poll of the client it wakes, it
    sees the bytes delivered by then and the end that is true at that moment, and it measures the stream of a one-choice
    completion as the buffered path measures the completion; a finished dump is
    complete. A dump is a list of file operations run on a map of files, any of which may fail.
  \<^item> \<open>Startup\<close>, \<open>Server_Assembly\<close>, \<open>Startup_Correct\<close>, \<open>Shutdown_Correct\<close>: \<^verbatim>\<open>main.rs\<close> and the rest of
    \<^verbatim>\<open>proxy/server.rs\<close>. The start composes the loader, the start-up probes, the balancer's construction, the fix
    registry and the exporter into one outcome; the serve loop is a step function whose labels are connections,
    detached export tasks, the signal, the end of the grace, the end of the process and the worker's moves, around the
    queue of \<open>Influx\<close>. The end of the process may come before the worker's (the join is bounded): what is then still
    queued is lost without being counted, and the theorems say so.
  \<^item> \<open>Jsonc\<close>, \<open>Model_Config\<close>, \<open>Model_Config_Correct\<close>, \<open>Model_Switcher\<close>, \<open>Model_Switcher_Correct\<close>:
    \<^verbatim>\<open>opencode/helpers/model-switcher/src/config.rs\<close> and \<^verbatim>\<open>main.rs\<close>, the line edits of a commented JSON file and
    the dialogs around them; the edits refine an ordered map and leave the file readable.
  \<^item> \<open>Unix_Path\<close>, \<open>Holder_State\<close>, \<open>Holder_Screen\<close>, \<open>Model_Holder\<close>, \<open>Holder_Check\<close>, \<open>Holder_Interface_Correct\<close>,
    \<open>Model_Holder_Correct\<close>, \<open>Holder_Check_Correct\<close>: \<^verbatim>\<open>model-holder/src/\<close>. The run is a function of the kernel's
    answers, of the places where it sees the exit flag and of the order in which lock threads finish; keys and
    run commute, so this loses no interleaving with the interface.

  \<^bold>\<open>Conventions.\<close> Strings are lists of bytes, a Rust \<^verbatim>\<open>Result\<close> is a sum with the error on the left, an
  \<^verbatim>\<open>Option\<close> is an option, machine integers are words, \<^verbatim>\<open>f64\<close> is a 64 bit pattern. A panic is a \<open>None\<close> around the
  result. Loops are recursions with termination proofs, none uses fuel except the re-prompt loop, whose fuel
  is the configured number of rounds. What is not code of this repository is a parameter: the JSON parser and
  printer (\<open>serde_env\<close>), decoders, the HTTP client, the file system, clocks, fresh identifiers.

  \<^bold>\<open>Not modelled.\<close> Log lines; the interleaving of several requests beyond the balancer's atomics, the export
  queue and the shutdown; the client library of InfluxDB; the command line's parser, the router and the HTTP
  server's own protocol work, the signal handlers of \<^verbatim>\<open>proxy/server.rs\<close>: calls into libraries; the unused derived
  conversions of \<^verbatim>\<open>api/llama.rs\<close>; the placing of texts on the terminal, the end-to-end
  test driver.
\<close>

end
